(* ===== verification/Prelude.thy ===== *)
theory Prelude
  imports Main "HOL-Library.Word"
begin

text \<open>
  Shared vocabulary of the development: the names of the machine types, the value by
  which a model function reports that the C++ would not return normally, and the
  generic facts on lists, words and options that the component theories share.

  Conventions.  \<open>unsigned char\<close>, \<open>unsigned int\<close> and \<open>uint64\<close> are words of 8, 32
  and 64 bits; \<open>uint256\<close> is a 256-bit word.  \<open>int\<close> and \<open>int64\<close> are \<^typ>\<open>int\<close>:
  signed overflow is undefined in C++, so where a sum could leave the range the range
  itself is a theorem.  A \<open>std::vector\<close> is a list, a C string is a \<^typ>\<open>string\<close>
  whose terminating zero is left out.
\<close>

unbundle bit_operations_syntax

type_synonym byte = "8 word"
type_synonym uint32 = "32 word"
type_synonym uint64 = "64 word"
type_synonym uint256 = "256 word"
type_synonym int32 = int
type_synonym int64 = int
type_synonym bytes = "byte list"

text \<open>How a call can end other than by returning: a failed \<open>assert\<close>, an index outside
  a container, a division by zero, an exception carrying its message, or a loop that is
  still running when the random draws it was given are used up.\<close>

datatype fault = AssertFailed | OutOfRange | DivByZero | Thrown string | NoReturn

type_synonym 'a res = "fault + 'a"

text \<open>Signed division of C++ truncates towards zero.\<close>

definition trunc_div :: "int \<Rightarrow> int \<Rightarrow> int" where
  "trunc_div a b = sgn a * sgn b * (\<bar>a\<bar> div \<bar>b\<bar>)"

text \<open>The range of \<open>int64\<close>.\<close>

definition in_int64 :: "int \<Rightarrow> bool" where
  "in_int64 x \<longleftrightarrow> - (2 ^ 63) \<le> x \<and> x < 2 ^ 63"

named_theorems codec_simps \<open>rewrite rules for encoders and decoders\<close>
named_theorems inv_intros \<open>introduction rules: operations keep their invariant\<close>

subsection \<open>Sequencing of calls that can fault\<close>

definition bind_res :: "'a res \<Rightarrow> ('a \<Rightarrow> 'b res) \<Rightarrow> 'b res" where
  "bind_res m k = (case m of Inl e \<Rightarrow> Inl e | Inr x \<Rightarrow> k x)"

lemma bind_res_simps [simp]:
  "bind_res (Inl e) k = Inl e"
  "bind_res (Inr x) k = k x"
  by (simp_all add: bind_res_def)

lemma bind_res_Inr_iff: "bind_res m k = Inr y \<longleftrightarrow> (\<exists>x. m = Inr x \<and> k x = Inr y)"
  by (cases m) simp_all

lemma trunc_div_nonneg: "0 \<le> a \<Longrightarrow> 0 < b \<Longrightarrow> trunc_div a b = a div b"
  by (cases "a = 0") (simp_all add: trunc_div_def)

subsection \<open>Lists\<close>

lemma nth_append_left: "i < length xs \<Longrightarrow> (xs @ ys) ! i = xs ! i"
  by (simp add: nth_append)

lemma rev_dropWhile_rev_nth:
  "i < length (rev (dropWhile P (rev xs))) \<Longrightarrow> rev (dropWhile P (rev xs)) ! i = xs ! i"
proof -
  assume i: "i < length (rev (dropWhile P (rev xs)))"
  have "xs = rev (takeWhile P (rev xs) @ dropWhile P (rev xs))"
    by simp
  then have "xs = rev (dropWhile P (rev xs)) @ rev (takeWhile P (rev xs))"
    by (metis rev_append)
  then show ?thesis
    using i by (metis nth_append)
qed

lemma rev_dropWhile_rev_split:
  "xs = rev (dropWhile P (rev xs)) @ rev (takeWhile P (rev xs))"
  by (metis rev_append rev_rev_ident takeWhile_dropWhile_id)

lemma rev_dropWhile_rev_last:
  "rev (dropWhile P (rev xs)) \<noteq> [] \<Longrightarrow> \<not> P (last (rev (dropWhile P (rev xs))))"
  using hd_dropWhile [of P "rev xs"] by (simp add: last_rev)

lemma rev_dropWhile_rev_beyond:
  "\<lbrakk> length (rev (dropWhile P (rev xs))) \<le> i; i < length xs \<rbrakk> \<Longrightarrow> P (xs ! i)"
proof -
  assume le: "length (rev (dropWhile P (rev xs))) \<le> i" and i: "i < length xs"
  let ?k = "rev (dropWhile P (rev xs))" and ?t = "rev (takeWhile P (rev xs))"
  have eq: "xs = ?k @ ?t" by (rule rev_dropWhile_rev_split)
  have "length xs = length ?k + length ?t"
    using arg_cong [OF eq, of length] by simp
  with le i have "i - length ?k < length ?t" by linarith
  moreover have "xs ! i = ?t ! (i - length ?k)"
    using le by (subst eq) (simp add: nth_append)
  ultimately have "xs ! i \<in> set ?t" by (metis nth_mem)
  then show ?thesis by (auto dest: set_takeWhileD)
qed

lemma dropWhile_Cons_length:
  "dropWhile P xs = y # ys \<Longrightarrow> length ys < length xs"
  using length_dropWhile_le [of P xs] by simp

lemma takeWhile_dropWhile_append:
  "\<lbrakk> \<forall>x\<in>set xs. P x; ys = [] \<or> \<not> P (hd ys) \<rbrakk> \<Longrightarrow>
     takeWhile P (xs @ ys) = xs \<and> dropWhile P (xs @ ys) = ys"
  by (cases ys) (auto simp: takeWhile_append2 dropWhile_append2)

subsection \<open>Masks and small integers\<close>

lemma and_mask_int:
  fixes x :: int
  shows "x AND 1 = take_bit 1 x" "x AND 3 = take_bit 2 x" "x AND 7 = take_bit 3 x"
    "x AND 15 = take_bit 4 x" "x AND 31 = take_bit 5 x" "x AND 63 = take_bit 6 x"
    "x AND 255 = take_bit 8 x"
  by (simp_all add: take_bit_eq_mask mask_eq_exp_minus_1)

subsection \<open>Bits of bytes\<close>

lemma less_8_cases: "(n :: nat) < 8 \<longleftrightarrow> n \<in> {0, 1, 2, 3, 4, 5, 6, 7}"
  by auto

lemma byte_eqI:
  fixes a b :: byte
  assumes "\<forall>n\<in>{0, 1, 2, 3, 4, 5, 6, 7}. bit a n = bit b n"
  shows "a = b"
  using assms by (intro bit_word_eqI) (metis less_8_cases len_bit0 len_num1 mult_1_right numeral_Bit0 mult_2)

lemma not_bit_byte: "8 \<le> n \<Longrightarrow> \<not> bit (b :: byte) n"
  using bit_imp_le_length [of b n] by auto

lemmas byte_bits = bit_simps not_bit_byte numeral_2_eq_2 [symmetric] numeral_3_eq_3 [symmetric]

lemma digit_range:
  fixes d :: int
  assumes "\<And>n. bit d n \<Longrightarrow> n < k"
  shows "0 \<le> d" "d < 2 ^ k"
proof -
  have "take_bit k d = d" using assms by (intro bit_eqI) (auto simp: bit_take_bit_iff)
  then show "0 \<le> d" "d < 2 ^ k" by (simp_all add: take_bit_int_eq_self_iff)
qed

lemma bit_uint_byteD: "bit (uint (b :: byte)) n \<Longrightarrow> n < 8"
  using bit_imp_le_length [of b n] by (auto simp: bit_uint_iff)

subsection \<open>Comparing memory\<close>

text \<open>The sign of \<open>memcmp\<close>: lexicographic comparison of unsigned bytes.\<close>

fun memcmp :: "bytes \<Rightarrow> bytes \<Rightarrow> int" where
  "memcmp (x # xs) (y # ys) = (if x < y then - 1 else if x > y then 1 else memcmp xs ys)"
| "memcmp _ _ = 0"

lemma memcmp_eq_0: "length xs = length ys \<Longrightarrow> memcmp xs ys = 0 \<longleftrightarrow> xs = ys"
  by (induction xs ys rule: memcmp.induct) auto

lemma memcmp_antisym: "memcmp ys xs = - memcmp xs ys"
  by (induction xs ys rule: memcmp.induct) auto

lemma memcmp_trans:
  "\<lbrakk> length xs = length ys; length ys = length zs; memcmp xs ys < 0; memcmp ys zs < 0 \<rbrakk> \<Longrightarrow>
     memcmp xs zs < 0"
proof (induction xs ys arbitrary: zs rule: memcmp.induct)
  case (1 x xs y ys)
  then obtain z zs' where "zs = z # zs'" by (cases zs) auto
  with 1 show ?case by (auto split: if_splits)
qed auto

end
