(* ===== verification/Core.thy ===== *)
theory Core
  imports Prelude
begin

text \<open>
  The transaction data model of \<open>core.h\<close>: outpoints, inputs, outputs, transactions and
  block headers, with the predicates the header defines on them.  \<open>CScript\<close>
  (\<open>script.h\<close>) is a byte vector; every function of that file is a parameter of the
  theories that call it.  Hashes of serialised objects are parameters too, since the
  serialiser (\<open>serialize.h\<close>) is not part of the repository.
\<close>

type_synonym CScript = bytes

subsection \<open>COutPoint and CInPoint\<close>

datatype COutPoint = COutPoint (op_hash: uint256) (op_n: uint32)

definition COutPoint_SetNull :: COutPoint where
  "COutPoint_SetNull = COutPoint 0 (- 1)"

definition COutPoint_IsNull :: "COutPoint \<Rightarrow> bool" where
  "COutPoint_IsNull p \<longleftrightarrow> op_hash p = 0 \<and> op_n p = - 1"

definition COutPoint_less :: "COutPoint \<Rightarrow> COutPoint \<Rightarrow> bool" where
  "COutPoint_less a b \<longleftrightarrow>
     op_hash a < op_hash b \<or> (op_hash a = op_hash b \<and> op_n a < op_n b)"

definition COutPoint_eq :: "COutPoint \<Rightarrow> COutPoint \<Rightarrow> bool" where
  "COutPoint_eq a b \<longleftrightarrow> op_hash a = op_hash b \<and> op_n a = op_n b"

text \<open>A \<open>CInPoint\<close> holds a pointer to a transaction; \<open>None\<close> is the null pointer.\<close>

datatype 'p CInPoint = CInPoint (ip_ptx: "'p option") (ip_n: uint32)

definition CInPoint_SetNull :: "'p CInPoint" where
  "CInPoint_SetNull = CInPoint None (- 1)"

definition CInPoint_IsNull :: "'p CInPoint \<Rightarrow> bool" where
  "CInPoint_IsNull p \<longleftrightarrow> (case ip_ptx p of None \<Rightarrow> ip_n p = - 1 | Some _ \<Rightarrow> False)"

subsection \<open>CTxIn and CTxOut\<close>

record CTxIn =
  prevout :: COutPoint
  scriptSig :: CScript
  nSequence :: uint32

definition CTxIn_default :: CTxIn where
  "CTxIn_default = \<lparr> prevout = COutPoint_SetNull, scriptSig = [], nSequence = - 1 \<rparr>"

definition CTxIn_IsFinal :: "CTxIn \<Rightarrow> bool" where
  "CTxIn_IsFinal i \<longleftrightarrow> nSequence i = - 1"

definition CTxIn_eq :: "CTxIn \<Rightarrow> CTxIn \<Rightarrow> bool" where
  "CTxIn_eq a b \<longleftrightarrow>
     COutPoint_eq (prevout a) (prevout b) \<and> scriptSig a = scriptSig b \<and>
     nSequence a = nSequence b"

record CTxOut =
  nValue :: int64
  scriptPubKey :: CScript

definition CTxOut_SetNull :: CTxOut where
  "CTxOut_SetNull = \<lparr> nValue = - 1, scriptPubKey = [] \<rparr>"

definition CTxOut_IsNull :: "CTxOut \<Rightarrow> bool" where
  "CTxOut_IsNull o' \<longleftrightarrow> nValue o' = - 1"

text \<open>\<open>IsDust\<close>: \<open>nSize\<close> stands for \<open>GetSerializeSize(SER_DISK,0)\<close> of the output.\<close>

definition CTxOut_IsDust :: "(CTxOut \<Rightarrow> nat) \<Rightarrow> CTxOut \<Rightarrow> int64 \<Rightarrow> bool" where
  "CTxOut_IsDust nSize o' nMinRelayTxFee \<longleftrightarrow>
     trunc_div (nValue o' * 1000) (3 * (int (nSize o') + 148)) < nMinRelayTxFee"

definition CTxOut_eq :: "CTxOut \<Rightarrow> CTxOut \<Rightarrow> bool" where
  "CTxOut_eq a b \<longleftrightarrow> nValue a = nValue b \<and> scriptPubKey a = scriptPubKey b"

subsection \<open>CTransaction\<close>

record CTransaction =
  tx_nVersion :: int32
  vin :: "CTxIn list"
  vout :: "CTxOut list"
  nLockTime :: uint32

definition CTransaction_SetNull :: CTransaction where
  "CTransaction_SetNull = \<lparr> tx_nVersion = 1, vin = [], vout = [], nLockTime = 0 \<rparr>"

definition CTransaction_IsNull :: "CTransaction \<Rightarrow> bool" where
  "CTransaction_IsNull tx \<longleftrightarrow> vin tx = [] \<and> vout tx = []"

text \<open>The second loop of \<open>IsNewerThan\<close>: the accumulator is (\<open>fNewer\<close>, \<open>nLowest\<close>).\<close>

fun IsNewerThan_loop :: "CTxIn list \<Rightarrow> CTxIn list \<Rightarrow> bool \<Rightarrow> uint32 \<Rightarrow> bool" where
  "IsNewerThan_loop (i # is) (j # js) fNewer nLowest =
     (if nSequence i \<noteq> nSequence j then
        (let (f1, l1) = (if nSequence i \<le> nLowest then (False, nSequence i)
                         else (fNewer, nLowest));
             (f2, l2) = (if nSequence j < l1 then (True, nSequence j) else (f1, l1))
         in IsNewerThan_loop is js f2 l2)
      else IsNewerThan_loop is js fNewer nLowest)"
| "IsNewerThan_loop _ _ fNewer nLowest = fNewer"

definition IsNewerThan :: "CTransaction \<Rightarrow> CTransaction \<Rightarrow> bool" where
  "IsNewerThan tx old =
     (if length (vin tx) \<noteq> length (vin old) then False
      else if list_ex (\<lambda>(i, j). \<not> COutPoint_eq (prevout i) (prevout j)) (zip (vin tx) (vin old))
      then False
      else IsNewerThan_loop (vin tx) (vin old) False (- 1))"

definition IsCoinBase :: "CTransaction \<Rightarrow> bool" where
  "IsCoinBase tx \<longleftrightarrow> length (vin tx) = 1 \<and> COutPoint_IsNull (prevout (vin tx ! 0))"

definition CTransaction_eq :: "CTransaction \<Rightarrow> CTransaction \<Rightarrow> bool" where
  "CTransaction_eq a b \<longleftrightarrow>
     tx_nVersion a = tx_nVersion b \<and> list_all2 CTxIn_eq (vin a) (vin b) \<and>
     list_all2 CTxOut_eq (vout a) (vout b) \<and> nLockTime a = nLockTime b"

subsection \<open>CBlockHeader\<close>

record CBlockHeader =
  bh_nVersion :: int32
  hashPrevBlock :: uint256
  hashMerkleRoot :: uint256
  bh_nTime :: uint32
  bh_nBits :: uint32
  nNonce :: uint32

definition CBlockHeader_SetNull :: CBlockHeader where
  "CBlockHeader_SetNull =
     \<lparr> bh_nVersion = 2, hashPrevBlock = 0, hashMerkleRoot = 0,
       bh_nTime = 0, bh_nBits = 0, nNonce = 0 \<rparr>"

definition CBlockHeader_IsNull :: "'a CBlockHeader_scheme \<Rightarrow> bool" where
  "CBlockHeader_IsNull h \<longleftrightarrow> bh_nBits h = 0"

definition GetBlockTime :: "'a CBlockHeader_scheme \<Rightarrow> int64" where
  "GetBlockTime h = uint (bh_nTime h)"

subsection \<open>The orders and equalities are the ones the containers need\<close>

text \<open>The contract of a C++ ordering used as the key order of \<open>std::map\<close> and
  \<open>std::set\<close>: a strict total order whose equivalence is equality.\<close>

locale key_order =
  fixes lt :: "'a \<Rightarrow> 'a \<Rightarrow> bool"
  assumes irrefl: "\<not> lt a a"
    and trans: "\<lbrakk> lt a b; lt b c \<rbrakk> \<Longrightarrow> lt a c"
    and total: "a \<noteq> b \<Longrightarrow> lt a b \<or> lt b a"
begin

lemma asym: "lt a b \<Longrightarrow> \<not> lt b a"
  using irrefl trans by blast

lemma equivalence_is_equality: "(\<not> lt a b \<and> \<not> lt b a) \<longleftrightarrow> a = b"
  using irrefl total by blast

end

interpretation outpoint_order: key_order COutPoint_less
proof
  fix a b c :: COutPoint
  show "\<not> COutPoint_less a a"
    by (simp add: COutPoint_less_def)
  show "\<lbrakk> COutPoint_less a b; COutPoint_less b c \<rbrakk> \<Longrightarrow> COutPoint_less a c"
    by (auto simp: COutPoint_less_def)
  show "a \<noteq> b \<Longrightarrow> COutPoint_less a b \<or> COutPoint_less b a"
    by (cases a; cases b) (auto simp: COutPoint_less_def)
qed

instantiation COutPoint :: linorder
begin

definition less_COutPoint :: "COutPoint \<Rightarrow> COutPoint \<Rightarrow> bool" where
  "less_COutPoint a b \<longleftrightarrow> COutPoint_less a b"

definition less_eq_COutPoint :: "COutPoint \<Rightarrow> COutPoint \<Rightarrow> bool" where
  "less_eq_COutPoint a b \<longleftrightarrow> a = b \<or> COutPoint_less a b"

instance
proof
  fix a b c :: COutPoint
  show "(a < b) = (a \<le> b \<and> \<not> b \<le> a)"
    using outpoint_order.asym outpoint_order.irrefl
    by (auto simp: less_COutPoint_def less_eq_COutPoint_def)
  show "a \<le> a"
    by (simp add: less_eq_COutPoint_def)
  show "\<lbrakk> a \<le> b; b \<le> c \<rbrakk> \<Longrightarrow> a \<le> c"
    using outpoint_order.trans by (auto simp: less_eq_COutPoint_def)
  show "\<lbrakk> a \<le> b; b \<le> a \<rbrakk> \<Longrightarrow> a = b"
    using outpoint_order.asym by (auto simp: less_eq_COutPoint_def)
  show "a \<le> b \<or> b \<le> a"
    using outpoint_order.total by (auto simp: less_eq_COutPoint_def)
qed

end

lemma COutPoint_eq_iff [simp]: "COutPoint_eq a b \<longleftrightarrow> a = b"
  by (cases a; cases b) (simp add: COutPoint_eq_def)

lemma CTxIn_eq_iff [simp]: "CTxIn_eq a b \<longleftrightarrow> a = b"
  by (auto simp: CTxIn_eq_def)

lemma CTxOut_eq_iff [simp]: "CTxOut_eq a b \<longleftrightarrow> a = b"
  by (auto simp: CTxOut_eq_def)

lemma CTransaction_eq_iff: "CTransaction_eq a b \<longleftrightarrow> a = b"
proof -
  have "CTxIn_eq = (=)" and "CTxOut_eq = (=)"
    by (auto simp: fun_eq_iff)
  then show ?thesis
    by (auto simp: CTransaction_eq_def list.rel_eq)
qed

lemma CTxOut_SetNull_IsNull [simp]: "CTxOut_IsNull CTxOut_SetNull"
  by (simp add: CTxOut_IsNull_def CTxOut_SetNull_def)

lemma COutPoint_SetNull_IsNull [simp]: "COutPoint_IsNull p \<longleftrightarrow> p = COutPoint_SetNull"
  by (cases p) (simp add: COutPoint_IsNull_def COutPoint_SetNull_def)

subsection \<open>What IsNewerThan decides\<close>

text \<open>The sequence numbers at the positions where the two transactions differ.\<close>

definition diff_seqs :: "CTxIn list \<Rightarrow> CTxIn list \<Rightarrow> (uint32 \<times> uint32) list" where
  "diff_seqs is js =
     filter (\<lambda>(x, y). x \<noteq> y) (zip (map nSequence is) (map nSequence js))"

text \<open>The loop over the differing pairs only.\<close>

fun newer_fold :: "(uint32 \<times> uint32) list \<Rightarrow> bool \<Rightarrow> uint32 \<Rightarrow> bool" where
  "newer_fold [] f l = f"
| "newer_fold ((x, y) # ps) f l =
     (if y < min x l then newer_fold ps True y
      else if x \<le> l then newer_fold ps False x else newer_fold ps f l)"

lemma newer_loop_fold:
  "IsNewerThan_loop is js f l = newer_fold (diff_seqs is js) f l"
proof (induction "is" js f l rule: IsNewerThan_loop.induct)
  case (1 i "is" j js f l)
  then show ?case
    by (auto simp: diff_seqs_def min_def Let_def)
qed (simp_all add: diff_seqs_def)

text \<open>Invariant of the loop: with \<open>lo\<close> and \<open>hi\<close> the least sequence numbers seen so far
  in the old and in the new transaction, \<open>nLowest\<close> is the smaller of the two and
  \<open>fNewer\<close> says that the old one is strictly below.\<close>

lemma newer_fold_step:
  "newer_fold ((x, y) # ps) (lo < hi) (min lo hi) =
     newer_fold ps (min lo y < min hi x) (min (min lo y) (min hi x))"
proof -
  consider "y < min x (min lo hi)" | "\<not> y < min x (min lo hi)" "x \<le> min lo hi"
    | "\<not> y < min x (min lo hi)" "\<not> x \<le> min lo hi" "lo < hi"
    | "\<not> y < min x (min lo hi)" "\<not> x \<le> min lo hi" "\<not> lo < hi"
    by blast
  then show ?thesis
  proof cases
    case 1
    then have "min lo y = y" "y < min hi x" "min (min lo y) (min hi x) = y"
      by (auto simp: min_absorb1 min_absorb2)
    with 1 show ?thesis by simp
  next
    case 2
    then have "min hi x = x" "\<not> min lo y < x" "min (min lo y) (min hi x) = x"
      by (auto simp: min_absorb1 min_absorb2 min_le_iff_disj min_less_iff_disj)
    with 2 show ?thesis by (auto simp: min_less_iff_disj)
  next
    case 3
    then have "min lo y = lo" "lo < min hi x" "min (min lo y) (min hi x) = lo" "min lo hi = lo"
      by (auto simp: min_absorb1 min_absorb2 min_le_iff_disj min_less_iff_disj)
    with 3 show ?thesis by simp
  next
    case 4
    then have "hi \<le> min lo y" "min hi x = hi" "min lo hi = hi"
      by (auto simp: min_absorb1 min_absorb2 min_le_iff_disj min_less_iff_disj)
    moreover have "(lo < hi) = False" "(min lo y < hi) = False"
      using 4 calculation(1) by (simp_all add: linorder_not_less)
    ultimately show ?thesis using 4 by (auto simp: min_absorb2 min_less_iff_disj)
  qed
qed

lemma newer_fold_min:
  "newer_fold ps (lo < hi) (min lo hi) \<longleftrightarrow>
     foldl min lo (map snd ps) < foldl min hi (map fst ps)"
proof (induction ps arbitrary: lo hi)
  case Nil
  then show ?case by simp
next
  case (Cons p ps)
  obtain x y where p: "p = (x, y)" by (cases p)
  have step: "newer_fold ((x, y) # ps) (lo < hi) (min lo hi) =
      newer_fold ps (min lo y < min hi x) (min (min lo y) (min hi x))"
    by (rule newer_fold_step)
  show ?case
    unfolding p step using Cons.IH [of "min lo y" "min hi x"]
    by (simp del: min_less_iff_conj)
qed

lemma foldl_min_less_iff: "foldl min (l :: 'a :: linorder) ys < c \<longleftrightarrow> l < c \<or> (\<exists>y \<in> set ys. y < c)"
  by (induction ys arbitrary: l) (auto simp: min_less_iff_disj)

lemma less_foldl_min_iff: "c < foldl min (l :: 'a :: linorder) ys \<longleftrightarrow> c < l \<and> (\<forall>y \<in> set ys. c < y)"
  by (induction ys arbitrary: l) auto

lemma newer_fold_init:
  "newer_fold ps False (- 1) \<longleftrightarrow>
     (\<exists>y \<in> snd ` set ps. \<forall>x \<in> fst ` set ps. y < x)"
proof -
  let ?olds = "map snd ps" and ?news = "map fst ps"
  have "newer_fold ps False (- 1) \<longleftrightarrow> foldl min (- 1) ?olds < foldl min (- 1) ?news"
    using newer_fold_min [of ps "- 1" "- 1"] by simp
  also have "\<dots> \<longleftrightarrow> (\<exists>y \<in> set ?olds. y < foldl min (- 1) ?news)"
    using foldl_min_less_iff [of "- 1" ?olds "foldl min (- 1) ?news"]
      less_foldl_min_iff [of "- 1" "- 1" ?news] by blast
  also have "\<dots> \<longleftrightarrow> (\<exists>y \<in> set ?olds. \<forall>x \<in> set ?news. y < x)"
  proof -
    have "y < - 1" if "y \<in> set ?olds" "\<forall>x \<in> set ?news. y < x" for y :: uint32
      using that by (metis (no_types, opaque_lifting) in_set_conv_nth length_map nth_mem
          order_less_le_trans word_n1_ge)
    then show ?thesis by (auto simp: less_foldl_min_iff)
  qed
  finally show ?thesis by simp
qed

text \<open>\<open>IsNewerThan\<close> holds exactly when both transactions spend the same outpoints in
  the same order and, among the inputs whose sequence numbers differ, the least number of
  the old transaction is strictly below the least number of the new one.\<close>

theorem IsNewerThan_iff:
  "IsNewerThan tx old \<longleftrightarrow>
     map prevout (vin tx) = map prevout (vin old) \<and>
     (\<exists>y \<in> snd ` set (diff_seqs (vin tx) (vin old)).
        \<forall>x \<in> fst ` set (diff_seqs (vin tx) (vin old)). y < x)"
proof -
  have "list_ex (\<lambda>(i, j). prevout i \<noteq> prevout j) (zip xs ys) \<longleftrightarrow>
      map prevout xs \<noteq> map prevout ys" if "length xs = length ys" for xs ys :: "CTxIn list"
    using that by (induction xs ys rule: list_induct2) auto
  then show ?thesis
    by (auto simp: IsNewerThan_def newer_loop_fold newer_fold_init dest: map_eq_imp_length_eq)
qed

definition demo_txin :: "uint32 \<Rightarrow> CTxIn" where
  "demo_txin q = \<lparr> prevout = COutPoint 1 0, scriptSig = [], nSequence = q \<rparr>"

definition demo_spend :: "uint32 list \<Rightarrow> CTransaction" where
  "demo_spend qs = CTransaction_SetNull\<lparr> vin := map demo_txin qs \<rparr>"

theorem IsNewerThan_iff_witness:
  "IsNewerThan (demo_spend [5, 7]) (demo_spend [5, 6]) \<and>
   \<not> IsNewerThan (demo_spend [5, 6]) (demo_spend [5, 7])"
  by (simp add: IsNewerThan_iff demo_spend_def demo_txin_def diff_seqs_def)

end
