(* ===== verification/Coins.thy ===== *)
theory Coins
  imports Core
begin

text \<open>
  The unspent-output bookkeeping of \<open>core.h\<close>: \<open>CTxOutCompressor\<close>, \<open>CTxInUndo\<close> and
  \<open>CCoins\<close>, with their serialised formats.  The primitive stream operations
  (\<open>VARINT\<close> of \<open>serialize.h\<close>, \<open>CScriptCompressor\<close> of \<open>script.h\<close>, the two amount
  compressors that \<open>core.h\<close> only declares) are the fields of a record passed to every
  function that uses them; \<open>stream_ok\<close> is their documented contract.
\<close>

subsection \<open>The stream primitives\<close>

text \<open>\<open>get_VARINT w\<close> reads into a variable with \<open>w\<close> value bits (31 for \<open>int\<close>, 32 for
  \<open>unsigned int\<close>, 64 for \<open>uint64\<close>); \<open>None\<close> is the exception of a stream that ran out.\<close>

record stream_ops =
  put_VARINT :: "int \<Rightarrow> bytes"
  get_VARINT :: "nat \<Rightarrow> bytes \<Rightarrow> (int \<times> bytes) option"
  size_VARINT :: "int \<Rightarrow> nat"
  CompressAmount :: "uint64 \<Rightarrow> uint64"
  DecompressAmount :: "uint64 \<Rightarrow> uint64"
  put_script :: "CScript \<Rightarrow> bytes"
  get_script :: "bytes \<Rightarrow> (CScript \<times> bytes) option"
  size_script :: "CScript \<Rightarrow> nat"
  MAX_MONEY :: int64

definition stream_ok :: "stream_ops \<Rightarrow> bool" where
  "stream_ok S \<longleftrightarrow>
     (\<forall>w n r. 0 \<le> n \<and> n < 2 ^ w \<longrightarrow> get_VARINT S w (put_VARINT S n @ r) = Some (n, r)) \<and>
     (\<forall>n. size_VARINT S n = length (put_VARINT S n)) \<and>
     (\<forall>a. uint a \<le> MAX_MONEY S \<longrightarrow> DecompressAmount S (CompressAmount S a) = a) \<and>
     (\<forall>s r. get_script S (put_script S s @ r) = Some (s, r)) \<and>
     (\<forall>s. size_script S s = length (put_script S s)) \<and>
     0 \<le> MAX_MONEY S \<and> MAX_MONEY S < 2 ^ 63"

subsection \<open>CTxOutCompressor\<close>

definition TxOutCompressor_Serialize :: "stream_ops \<Rightarrow> CTxOut \<Rightarrow> bytes" where
  "TxOutCompressor_Serialize S o' =
     put_VARINT S (uint (CompressAmount S (word_of_int (nValue o')))) @
     put_script S (scriptPubKey o')"

definition TxOutCompressor_Unserialize :: "stream_ops \<Rightarrow> bytes \<Rightarrow> (CTxOut \<times> bytes) option" where
  "TxOutCompressor_Unserialize S s =
     (case get_VARINT S 64 s of None \<Rightarrow> None
      | Some (nVal, s1) \<Rightarrow>
          (case get_script S s1 of None \<Rightarrow> None
           | Some (sc, s2) \<Rightarrow>
               Some (\<lparr> nValue = sint (DecompressAmount S (word_of_int nVal)),
                       scriptPubKey = sc \<rparr>, s2)))"

definition TxOutCompressor_GetSerializeSize :: "stream_ops \<Rightarrow> CTxOut \<Rightarrow> nat" where
  "TxOutCompressor_GetSerializeSize S o' =
     size_VARINT S (uint (CompressAmount S (word_of_int (nValue o')))) +
     size_script S (scriptPubKey o')"

subsection \<open>CTxInUndo\<close>

record CTxInUndo =
  undo_txout :: CTxOut
  undo_fCoinBase :: bool
  undo_nHeight :: uint32
  undo_nVersion :: int32

definition CTxInUndo_default :: CTxInUndo where
  "CTxInUndo_default = \<lparr> undo_txout = CTxOut_SetNull, undo_fCoinBase = False,
     undo_nHeight = 0, undo_nVersion = 0 \<rparr>"

definition CTxInUndo_of :: "CTxOut \<Rightarrow> CTxInUndo" where
  "CTxInUndo_of o' = CTxInUndo_default\<lparr> undo_txout := o' \<rparr>"

definition undo_code :: "CTxInUndo \<Rightarrow> uint32" where
  "undo_code u = undo_nHeight u * 2 + (if undo_fCoinBase u then 1 else 0)"

definition CTxInUndo_GetSerializeSize :: "stream_ops \<Rightarrow> CTxInUndo \<Rightarrow> nat" where
  "CTxInUndo_GetSerializeSize S u =
     size_VARINT S (uint (undo_code u)) +
     (if 0 < undo_nHeight u then size_VARINT S (undo_nVersion u) else 0) +
     TxOutCompressor_GetSerializeSize S (undo_txout u)"

definition CTxInUndo_Serialize :: "stream_ops \<Rightarrow> CTxInUndo \<Rightarrow> bytes" where
  "CTxInUndo_Serialize S u =
     put_VARINT S (uint (undo_code u)) @
     (if 0 < undo_nHeight u then put_VARINT S (undo_nVersion u) else []) @
     TxOutCompressor_Serialize S (undo_txout u)"

text \<open>\<open>Unserialize\<close> overwrites the object \<open>u0\<close>; the version field keeps its old value when
  the height is zero.\<close>

definition CTxInUndo_Unserialize ::
  "stream_ops \<Rightarrow> CTxInUndo \<Rightarrow> bytes \<Rightarrow> (CTxInUndo \<times> bytes) option" where
  "CTxInUndo_Unserialize S u0 s =
     (case get_VARINT S 32 s of None \<Rightarrow> None
      | Some (c, s1) \<Rightarrow>
          (let nCode = (word_of_int c :: uint32); h = nCode div 2; cb = (nCode AND 1 \<noteq> 0) in
           case (if 0 < h then get_VARINT S 31 s1 else Some (undo_nVersion u0, s1)) of
             None \<Rightarrow> None
           | Some (v, s2) \<Rightarrow>
               (case TxOutCompressor_Unserialize S s2 of None \<Rightarrow> None
                | Some (o', s3) \<Rightarrow>
                    Some (\<lparr> undo_txout = o', undo_fCoinBase = cb,
                            undo_nHeight = h, undo_nVersion = v \<rparr>, s3))))"

subsection \<open>CCoins\<close>

record CCoins =
  cc_fCoinBase :: bool
  cc_vout :: "CTxOut list"
  cc_nHeight :: int32
  cc_nVersion :: int32

definition CCoins_of_tx :: "CTransaction \<Rightarrow> int32 \<Rightarrow> CCoins" where
  "CCoins_of_tx tx nHeightIn = \<lparr> cc_fCoinBase = IsCoinBase tx, cc_vout = vout tx,
     cc_nHeight = nHeightIn, cc_nVersion = tx_nVersion tx \<rparr>"

definition CCoins_default :: CCoins where
  "CCoins_default = \<lparr> cc_fCoinBase = False, cc_vout = [], cc_nHeight = 0, cc_nVersion = 0 \<rparr>"

definition Cleanup :: "CCoins \<Rightarrow> CCoins" where
  "Cleanup c = c\<lparr> cc_vout := rev (dropWhile CTxOut_IsNull (rev (cc_vout c))) \<rparr>"

definition CCoins_swap :: "CCoins \<times> CCoins \<Rightarrow> CCoins \<times> CCoins" where
  "CCoins_swap p = (snd p, fst p)"

definition CCoins_eq :: "CCoins \<Rightarrow> CCoins \<Rightarrow> bool" where
  "CCoins_eq a b \<longleftrightarrow>
     cc_fCoinBase a = cc_fCoinBase b \<and> cc_nHeight a = cc_nHeight b \<and>
     cc_nVersion a = cc_nVersion b \<and> list_all2 CTxOut_eq (cc_vout a) (cc_vout b)"

definition IsAvailable :: "CCoins \<Rightarrow> nat \<Rightarrow> bool" where
  "IsAvailable c nPos \<longleftrightarrow> nPos < length (cc_vout c) \<and> \<not> CTxOut_IsNull (cc_vout c ! nPos)"

definition IsPruned :: "CCoins \<Rightarrow> bool" where
  "IsPruned c \<longleftrightarrow> list_all CTxOut_IsNull (cc_vout c)"

text \<open>The two loops of \<open>CalcMaskSize\<close>, over the bytes \<open>b\<close> of the mask and the bits of one
  byte; the result is (\<open>nLastUsedByte\<close>, \<open>nNonzeroBytes\<close>).\<close>

definition byte_nonzero :: "CTxOut list \<Rightarrow> nat \<Rightarrow> bool" where
  "byte_nonzero v b \<longleftrightarrow>
     list_ex (\<lambda>i. 2 + b * 8 + i < length v \<and> \<not> CTxOut_IsNull (v ! (2 + b * 8 + i))) [0..<8]"

function CalcMaskSize_loop :: "CTxOut list \<Rightarrow> nat \<Rightarrow> nat \<Rightarrow> nat \<Rightarrow> nat \<times> nat" where
  "CalcMaskSize_loop v b nLast nNonzero =
     (if 2 + b * 8 < length v then
        (if byte_nonzero v b then CalcMaskSize_loop v (b + 1) (b + 1) (nNonzero + 1)
         else CalcMaskSize_loop v (b + 1) nLast nNonzero)
      else (nLast, nNonzero))"
  by pat_completeness auto
termination
  by (relation "measure (\<lambda>(v, b, l, n). length v - b)") auto

definition CalcMaskSize :: "CCoins \<Rightarrow> nat \<times> nat" where
  "CalcMaskSize c = CalcMaskSize_loop (cc_vout c) 0 0 0"

definition header_code :: "CCoins \<Rightarrow> nat \<Rightarrow> nat" where
  "header_code c nMaskCode =
     (let fFirst = IsAvailable c 0; fSecond = IsAvailable c 1 in
      (8 * (nMaskCode - (if fFirst \<or> fSecond then 0 else 1)) + (if cc_fCoinBase c then 1 else 0) +
       (if fFirst then 2 else 0) + (if fSecond then 4 else 0)) mod 2 ^ 32)"

definition avail_byte :: "CTxOut list \<Rightarrow> nat \<Rightarrow> byte" where
  "avail_byte v b =
     foldl (\<lambda>ch i. if 2 + b * 8 + i < length v \<and> \<not> CTxOut_IsNull (v ! (2 + b * 8 + i))
                   then ch OR push_bit i 1 else ch) 0 [0..<8]"

definition CCoins_GetSerializeSize :: "stream_ops \<Rightarrow> CCoins \<Rightarrow> nat res" where
  "CCoins_GetSerializeSize S c =
     (let (nMaskSize, nMaskCode) = CalcMaskSize c in
      if \<not> (IsAvailable c 0 \<or> IsAvailable c 1 \<or> nMaskCode \<noteq> 0) then Inl AssertFailed
      else Inr (size_VARINT S (cc_nVersion c) + size_VARINT S (int (header_code c nMaskCode)) +
                nMaskSize +
                sum_list (map (TxOutCompressor_GetSerializeSize S)
                  (filter (\<lambda>o'. \<not> CTxOut_IsNull o') (cc_vout c))) +
                size_VARINT S (cc_nHeight c)))"

definition CCoins_Serialize :: "stream_ops \<Rightarrow> CCoins \<Rightarrow> bytes res" where
  "CCoins_Serialize S c =
     (let (nMaskSize, nMaskCode) = CalcMaskSize c in
      if \<not> (IsAvailable c 0 \<or> IsAvailable c 1 \<or> nMaskCode \<noteq> 0) then Inl AssertFailed
      else Inr (put_VARINT S (cc_nVersion c) @ put_VARINT S (int (header_code c nMaskCode)) @
                map (avail_byte (cc_vout c)) [0..<nMaskSize] @
                concat (map (TxOutCompressor_Serialize S)
                  (filter (\<lambda>o'. \<not> CTxOut_IsNull o') (cc_vout c))) @
                put_VARINT S (cc_nHeight c)))"

text \<open>The mask loop of \<open>Unserialize\<close>: it reads bytes until \<open>nMaskCode\<close> non-zero ones have
  been seen, and ends because every round consumes a byte of the stream.\<close>

fun read_mask :: "nat \<Rightarrow> bool list \<Rightarrow> bytes \<Rightarrow> (bool list \<times> bytes) option" where
  "read_mask 0 vAvail s = Some (vAvail, s)"
| "read_mask (Suc n) vAvail [] = None"
| "read_mask (Suc n) vAvail (ch # s) =
     read_mask (if ch \<noteq> 0 then n else Suc n)
       (vAvail @ map (\<lambda>p. ch AND push_bit p 1 \<noteq> 0) [0..<8]) s"

fun read_txouts :: "stream_ops \<Rightarrow> bool list \<Rightarrow> bytes \<Rightarrow> (CTxOut list \<times> bytes) option" where
  "read_txouts S [] s = Some ([], s)"
| "read_txouts S (False # as) s =
     map_option (\<lambda>(os, s'). (CTxOut_SetNull # os, s')) (read_txouts S as s)"
| "read_txouts S (True # as) s =
     (case TxOutCompressor_Unserialize S s of None \<Rightarrow> None
      | Some (o', s1) \<Rightarrow> map_option (\<lambda>(os, s'). (o' # os, s')) (read_txouts S as s1))"

definition CCoins_Unserialize :: "stream_ops \<Rightarrow> bytes \<Rightarrow> (CCoins \<times> bytes) option" where
  "CCoins_Unserialize S s =
     (case get_VARINT S 31 s of None \<Rightarrow> None
      | Some (v, s1) \<Rightarrow>
     (case get_VARINT S 32 s1 of None \<Rightarrow> None
      | Some (c, s2) \<Rightarrow>
     (let nCode = nat c;
          vAvail = [nCode AND 2 \<noteq> 0, nCode AND 4 \<noteq> 0];
          nMaskCode = nCode div 8 + (if nCode AND 6 \<noteq> 0 then 0 else 1) in
      case read_mask nMaskCode vAvail s2 of None \<Rightarrow> None
      | Some (vAvail', s3) \<Rightarrow>
     (case read_txouts S vAvail' s3 of None \<Rightarrow> None
      | Some (os, s4) \<Rightarrow>
     (case get_VARINT S 31 s4 of None \<Rightarrow> None
      | Some (h, s5) \<Rightarrow>
          Some (Cleanup \<lparr> cc_fCoinBase = (nCode AND 1 \<noteq> 0), cc_vout = os,
                          cc_nHeight = h, cc_nVersion = v \<rparr>, s5))))))"

text \<open>\<open>Spend(const COutPoint&, CTxInUndo&)\<close>: the result, the undo record (unchanged on
  failure) and the coins.\<close>

definition Spend :: "CCoins \<Rightarrow> COutPoint \<Rightarrow> CTxInUndo \<Rightarrow> bool \<times> CTxInUndo \<times> CCoins" where
  "Spend c out undo =
     (let n = unat (op_n out) in
      if length (cc_vout c) \<le> n then (False, undo, c)
      else if CTxOut_IsNull (cc_vout c ! n) then (False, undo, c)
      else
        (let undo1 = CTxInUndo_of (cc_vout c ! n);
             c1 = Cleanup (c\<lparr> cc_vout := (cc_vout c)[n := CTxOut_SetNull] \<rparr>) in
         (True,
          (if length (cc_vout c1) = 0
           then undo1\<lparr> undo_nHeight := word_of_int (cc_nHeight c1),
                       undo_fCoinBase := cc_fCoinBase c1, undo_nVersion := cc_nVersion c1 \<rparr>
           else undo1),
          c1)))"

definition Spend_pos :: "CCoins \<Rightarrow> int32 \<Rightarrow> bool \<times> CCoins" where
  "Spend_pos c nPos =
     (let (ok, _, c1) = Spend c (COutPoint 0 (word_of_int nPos)) CTxInUndo_default in (ok, c1))"

declare CalcMaskSize_loop.simps [simp del]

subsection \<open>Well-formed coins\<close>

text \<open>What every operation keeps: a spent output is exactly the null output, an unspent one
  has a value in range, and the last entry is unspent (the vector is cleaned up).\<close>

definition txout_wf :: "stream_ops \<Rightarrow> CTxOut \<Rightarrow> bool" where
  "txout_wf S o' \<longleftrightarrow>
     o' = CTxOut_SetNull \<or> (0 \<le> nValue o' \<and> nValue o' \<le> MAX_MONEY S)"

definition coins_wf :: "stream_ops \<Rightarrow> CCoins \<Rightarrow> bool" where
  "coins_wf S c \<longleftrightarrow>
     list_all (txout_wf S) (cc_vout c) \<and>
     (cc_vout c \<noteq> [] \<longrightarrow> \<not> CTxOut_IsNull (last (cc_vout c)))"

lemma stream_okD:
  assumes "stream_ok S"
  shows "0 \<le> n \<Longrightarrow> n < 2 ^ w \<Longrightarrow> get_VARINT S w (put_VARINT S n @ r) = Some (n, r)"
    and "size_VARINT S n = length (put_VARINT S n)"
    and "uint a \<le> MAX_MONEY S \<Longrightarrow> DecompressAmount S (CompressAmount S a) = a"
    and "get_script S (put_script S s @ r) = Some (s, r)"
    and "size_script S s = length (put_script S s)"
    and "MAX_MONEY S < 2 ^ 63"
  using assms unfolding stream_ok_def by simp_all

lemma Cleanup_simps [simp]:
  "cc_fCoinBase (Cleanup c) = cc_fCoinBase c"
  "cc_nHeight (Cleanup c) = cc_nHeight c"
  "cc_nVersion (Cleanup c) = cc_nVersion c"
  "cc_vout (Cleanup c) = rev (dropWhile CTxOut_IsNull (rev (cc_vout c)))"
  by (simp_all add: Cleanup_def)

lemma IsAvailable_Cleanup [simp]: "IsAvailable (Cleanup c) i = IsAvailable c i"
proof (cases "i < length (cc_vout (Cleanup c))")
  case True
  moreover have "length (cc_vout (Cleanup c)) \<le> length (cc_vout c)"
    using length_dropWhile_le [of CTxOut_IsNull "rev (cc_vout c)"] by simp
  ultimately show ?thesis
    using rev_dropWhile_rev_nth [of i CTxOut_IsNull "cc_vout c"]
    by (simp add: IsAvailable_def)
next
  case False
  then have "i < length (cc_vout c) \<Longrightarrow> CTxOut_IsNull (cc_vout c ! i)"
    by (intro rev_dropWhile_rev_beyond [of CTxOut_IsNull "cc_vout c" i]) simp_all
  with False show ?thesis by (auto simp: IsAvailable_def)
qed

lemma Cleanup_wf:
  "list_all (txout_wf S) (cc_vout c) \<Longrightarrow> coins_wf S (Cleanup c)"
  using rev_dropWhile_rev_last [of CTxOut_IsNull "cc_vout c"]
  by (auto simp: coins_wf_def list_all_iff dest: set_dropWhileD)

lemma IsPruned_iff: "IsPruned c \<longleftrightarrow> (\<forall>i. \<not> IsAvailable c i)"
  by (auto simp: IsPruned_def IsAvailable_def list_all_length)

lemma Cleanup_empty_iff: "cc_vout (Cleanup c) = [] \<longleftrightarrow> IsPruned c"
  by (auto simp: IsPruned_def list_all_iff dropWhile_eq_Nil_conv)

lemma wf_not_pruned_iff: "coins_wf S c \<Longrightarrow> IsPruned c \<longleftrightarrow> cc_vout c = []"
  by (cases "cc_vout c = []")
     (auto simp: coins_wf_def IsPruned_def list_all_iff dest: last_in_set)

subsection \<open>Spending\<close>

lemma Spend_success_iff: "fst (Spend c out u) \<longleftrightarrow> IsAvailable c (unat (op_n out))"
  by (simp add: Spend_def IsAvailable_def Let_def)

text \<open>The effect of a successful \<open>Spend\<close> on the coins.\<close>

lemma Spend_coins:
  assumes "IsAvailable c (unat (op_n out))"
  shows "snd (snd (Spend c out u)) =
    Cleanup (c\<lparr> cc_vout := (cc_vout c)[unat (op_n out) := CTxOut_SetNull] \<rparr>)"
  using assms by (simp add: Spend_def IsAvailable_def Let_def)

lemma Spend_available:
  assumes "IsAvailable c (unat (op_n out))"
  shows "IsAvailable (snd (snd (Spend c out u))) i \<longleftrightarrow>
    IsAvailable c i \<and> i \<noteq> unat (op_n out)"
proof -
  have "IsAvailable (c\<lparr> cc_vout := (cc_vout c)[unat (op_n out) := CTxOut_SetNull] \<rparr>) i \<longleftrightarrow>
      IsAvailable c i \<and> i \<noteq> unat (op_n out)"
    using assms by (auto simp: IsAvailable_def nth_list_update split: if_splits)
  then show ?thesis
    unfolding Spend_coins [OF assms] by simp
qed

lemma Spend_wf [inv_intros]:
  assumes "coins_wf S c"
  shows "coins_wf S (snd (snd (Spend c out u)))"
proof (cases "IsAvailable c (unat (op_n out))")
  case True
  have "list_all (txout_wf S) ((cc_vout c)[unat (op_n out) := CTxOut_SetNull])"
    using assms set_update_subset_insert [of "cc_vout c" "unat (op_n out)" CTxOut_SetNull]
    by (auto simp: coins_wf_def list_all_iff txout_wf_def)
  then show ?thesis
    unfolding Spend_coins [OF True] by (intro Cleanup_wf) simp
next
  case False
  then have "snd (snd (Spend c out u)) = c"
    by (auto simp: Spend_def IsAvailable_def Let_def)
  with assms show ?thesis by simp
qed

lemma Spend_facts:
  assumes "Spend c out u = (ok, u', c')"
  shows "ok \<longleftrightarrow> IsAvailable c (unat (op_n out))"
    and "\<not> ok \<Longrightarrow> u' = u \<and> c' = c"
    and "ok \<Longrightarrow> IsAvailable c' i \<longleftrightarrow> IsAvailable c i \<and> i \<noteq> unat (op_n out)"
    and "\<lbrakk> ok; IsAvailable c' i \<rbrakk> \<Longrightarrow> cc_vout c' ! i = cc_vout c ! i"
    and "ok \<Longrightarrow> undo_txout u' = cc_vout c ! unat (op_n out)"
    and "ok \<Longrightarrow> (undo_nHeight u', undo_fCoinBase u', undo_nVersion u') =
      (if IsPruned c' then (word_of_int (cc_nHeight c), cc_fCoinBase c, cc_nVersion c)
       else (0, False, 0))"
proof -
  show ok: "ok \<longleftrightarrow> IsAvailable c (unat (op_n out))"
    using Spend_success_iff [of c out u] assms by simp
  show "\<not> ok \<Longrightarrow> u' = u \<and> c' = c"
    using assms by (auto simp: Spend_def Let_def split: if_splits)
  show av: "ok \<Longrightarrow> IsAvailable c' i \<longleftrightarrow> IsAvailable c i \<and> i \<noteq> unat (op_n out)" for i
    using Spend_available [of c out u i] assms ok by simp
  have c': "c' = Cleanup (c\<lparr> cc_vout := (cc_vout c)[unat (op_n out) := CTxOut_SetNull] \<rparr>)" if ok
    using Spend_coins [of c out u] assms ok that by simp
  show "\<lbrakk> ok; IsAvailable c' i \<rbrakk> \<Longrightarrow> cc_vout c' ! i = cc_vout c ! i"
    using av [of i] c' rev_dropWhile_rev_nth [of i CTxOut_IsNull
        "(cc_vout c)[unat (op_n out) := CTxOut_SetNull]"]
    by (auto simp: IsAvailable_def)
  show "ok \<Longrightarrow> undo_txout u' = cc_vout c ! unat (op_n out)"
    using assms by (auto simp: Spend_def Let_def CTxInUndo_of_def split: if_splits)
  have "cc_vout c' = [] \<longleftrightarrow> IsPruned c'" if ok
  proof -
    have "Cleanup c' = c'" using c' [OF that]
      by (simp add: Cleanup_def dropWhile_idem)
    then show ?thesis using Cleanup_empty_iff [of c'] by simp
  qed
  then show "ok \<Longrightarrow> (undo_nHeight u', undo_fCoinBase u', undo_nVersion u') =
      (if IsPruned c' then (word_of_int (cc_nHeight c), cc_fCoinBase c, cc_nVersion c)
       else (0, False, 0))"
    using assms
    by (auto simp: Spend_def Let_def CTxInUndo_of_def CTxInUndo_default_def split: if_splits)
qed

subsection \<open>The spentness bitmask\<close>

lemma bit_avail_byte:
  "bit (avail_byte v b) p \<longleftrightarrow>
     p < 8 \<and> 2 + b * 8 + p < length v \<and> \<not> CTxOut_IsNull (v ! (2 + b * 8 + p))"
proof -
  have "bit (foldl (\<lambda>ch i. if P i then ch OR push_bit i 1 else ch) (0 :: byte) [0..<n]) p \<longleftrightarrow>
      p < n \<and> P p" if "n \<le> 8" for n and P :: "nat \<Rightarrow> bool"
    using that
    by (induction n) (auto simp: bit_simps less_Suc_eq)
  from this [of 8] show ?thesis by (simp add: avail_byte_def)
qed

lemma byte_nonzero_iff: "byte_nonzero v b \<longleftrightarrow> avail_byte v b \<noteq> 0"
proof -
  have "avail_byte v b \<noteq> 0 \<longleftrightarrow> (\<exists>p < 8. bit (avail_byte v b) p)"
    by (auto simp: bit_eq_iff)
  then show ?thesis
    by (auto simp: byte_nonzero_def bit_avail_byte list_ex_iff)
qed

text \<open>What \<open>CalcMaskSize\<close> returns: the mask has no trailing zero byte, the second component
  counts its non-zero bytes, and every byte beyond it is zero.\<close>

definition mask_ok :: "CTxOut list \<Rightarrow> nat \<Rightarrow> nat \<Rightarrow> nat \<Rightarrow> bool" where
  "mask_ok v b n z \<longleftrightarrow>
     n \<le> b \<and> (n \<noteq> 0 \<longrightarrow> avail_byte v (n - 1) \<noteq> 0) \<and>
     z = length (filter (\<lambda>x. x \<noteq> 0) (map (avail_byte v) [0..<n])) \<and>
     (\<forall>b'. n \<le> b' \<and> b' < b \<longrightarrow> avail_byte v b' = 0)"

lemma count_nonzero_gap:
  assumes "\<forall>b'. n \<le> b' \<and> b' < b \<longrightarrow> f b' = (0 :: byte)" and "n \<le> b"
  shows "length (filter (\<lambda>x. x \<noteq> 0) (map f [0..<b])) =
    length (filter (\<lambda>x. x \<noteq> 0) (map f [0..<n]))"
proof -
  have "[0..<b] = [0..<n] @ [n..<b]"
    using assms(2) by (metis le_add_diff_inverse upt_add_eq_append zero_le)
  moreover have "filter (\<lambda>x. x \<noteq> 0) (map f [n..<b]) = []"
    using assms(1) by (auto simp: filter_empty_conv)
  ultimately show ?thesis by simp
qed

lemma CalcMaskSize_loop_ok:
  assumes "mask_ok v b n z" and "CalcMaskSize_loop v b n z = (n', z')"
  shows "\<exists>b'. mask_ok v b' n' z' \<and> length v \<le> 2 + b' * 8"
  using assms
proof (induction v b n z rule: CalcMaskSize_loop.induct)
  case (1 v b n z)
  show ?case
  proof (cases "2 + b * 8 < length v")
    case False
    with "1.prems" show ?thesis
      by (auto simp: CalcMaskSize_loop.simps [of v b n z] intro: exI [of _ b])
  next
    case inb: True
    show ?thesis
    proof (cases "byte_nonzero v b")
      case True
      have "mask_ok v (b + 1) (b + 1) (z + 1)"
        using "1.prems"(1) True count_nonzero_gap [of n b "avail_byte v"]
        by (auto simp: mask_ok_def byte_nonzero_iff)
      then show ?thesis
        using "1.IH"(1) [OF inb True] "1.prems"(2) inb True
        by (simp add: CalcMaskSize_loop.simps [of v b n z])
    next
      case False
      have "mask_ok v (b + 1) n z"
        using "1.prems"(1) False by (auto simp: mask_ok_def byte_nonzero_iff less_Suc_eq)
      then show ?thesis
        using "1.IH"(2) [OF inb False] "1.prems"(2) inb False
        by (simp add: CalcMaskSize_loop.simps [of v b n z])
    qed
  qed
qed

lemma CalcMaskSize_ok:
  assumes "CalcMaskSize c = (n, z)"
  obtains b where "mask_ok (cc_vout c) b n z" "length (cc_vout c) \<le> 2 + b * 8"
  using CalcMaskSize_loop_ok [of "cc_vout c" 0 0 0 n z] assms
  by (auto simp: CalcMaskSize_def mask_ok_def)

text \<open>Reading the mask back.\<close>

lemma and_push_bit_iff: "(ch :: byte) AND push_bit p 1 \<noteq> 0 \<longleftrightarrow> bit ch p"
  by (simp only: bit_iff_and_push_bit_not_eq_0)

lemma read_mask_append:
  assumes "bs = [] \<or> last bs \<noteq> 0" and "length (filter (\<lambda>x. x \<noteq> 0) bs) = k"
  shows "read_mask k as (bs @ r) = Some (as @ concat (map (\<lambda>ch. map (bit ch) [0..<8]) bs), r)"
  using assms
proof (induction bs arbitrary: k as)
  case Nil
  then show ?case by simp
next
  case (Cons ch bs)
  obtain m where k: "k = Suc m"
    using Cons.prems by (cases k) (auto simp: filter_empty_conv split: if_splits)
  have "read_mask (if ch \<noteq> 0 then m else Suc m) as' (bs @ r) =
      Some (as' @ concat (map (\<lambda>ch. map (bit ch) [0..<8]) bs), r)" for as'
    using Cons.prems k by (intro Cons.IH) (auto split: if_splits)
  then show ?case
    unfolding k append_Cons read_mask.simps by (simp only: and_push_bit_iff) simp
qed

lemma concat_bits_upt:
  "concat (map (\<lambda>b. map (\<lambda>p. g (b * 8 + p)) [0..<8]) [0..<n]) = map g [0..<8 * n]"
proof (induction n)
  case (Suc n)
  have "[0..<8 * Suc n] = [0..<8 * n] @ map (\<lambda>p. 8 * n + p) [0..<8]"
    using upt_add_eq_append [of 0 "8 * n" 8] by (simp add: map_add_upt add.commute)
  then show ?case using Suc by (simp add: comp_def mult.commute)
qed simp

lemma avail_bits:
  "concat (map (\<lambda>ch. map (bit ch) [0..<8]) (map (avail_byte v) [0..<n])) =
     map (\<lambda>j. 2 + j < length v \<and> \<not> CTxOut_IsNull (v ! (2 + j))) [0..<8 * n]"
proof -
  have "map (bit (avail_byte v b)) [0..<8] =
      map (\<lambda>p. 2 + (b * 8 + p) < length v \<and> \<not> CTxOut_IsNull (v ! (2 + (b * 8 + p)))) [0..<8]" for b
    by (simp add: bit_avail_byte add.assoc)
  then show ?thesis
    unfolding concat_bits_upt [of "\<lambda>j. 2 + j < length v \<and> \<not> CTxOut_IsNull (v ! (2 + j))" n,
        symmetric] map_map comp_def by (simp only:)
qed

lemma avail_list:
  "[IsAvailable c 0, IsAvailable c 1] @
     map (\<lambda>j. 2 + j < length (cc_vout c) \<and> \<not> CTxOut_IsNull (cc_vout c ! (2 + j))) [0..<8 * n] =
   map (IsAvailable c) [0..<2 + 8 * n]"
proof -
  have "[0..<2 + 8 * n] = [0..<2] @ map (\<lambda>j. j + 2) [0..<8 * n]"
    by (simp only: upt_add_eq_append [OF zero_le] map_add_upt add_0_left add.commute)
  moreover have "[0..<2] = [0, 1 :: nat]" by code_simp
  ultimately show ?thesis by (simp add: comp_def IsAvailable_def)
qed

lemma avail_list_split:
  assumes "length (cc_vout c) \<le> N"
  shows "map (IsAvailable c) [0..<N] =
    map (\<lambda>o'. \<not> CTxOut_IsNull o') (cc_vout c) @ replicate (N - length (cc_vout c)) False"
  using assms by (intro nth_equalityI) (auto simp: IsAvailable_def nth_append)

subsection \<open>Round trips\<close>

lemma TxOutCompressor_roundtrip [codec_simps]:
  assumes "stream_ok S" "txout_wf S o'" "\<not> CTxOut_IsNull o'"
  shows "TxOutCompressor_Unserialize S (TxOutCompressor_Serialize S o' @ r) = Some (o', r)"
proof -
  from assms(2,3) have v: "0 \<le> nValue o'" "nValue o' \<le> MAX_MONEY S"
    by (auto simp: txout_wf_def)
  with stream_okD(6) [OF assms(1)] have lt: "nValue o' < 2 ^ 63" by linarith
  let ?w = "word_of_int (nValue o') :: uint64"
  have u: "uint ?w = nValue o'"
    using v lt by (simp add: uint_word_of_int take_bit_int_eq_self)
  have s: "sint ?w = nValue o'"
    using v lt by (simp add: sint_uint u signed_take_bit_int_eq_self)
  have "DecompressAmount S (CompressAmount S ?w) = ?w"
    using stream_okD(3) [OF assms(1), of ?w] u v by simp
  moreover have "uint (CompressAmount S ?w) < 2 ^ 64"
    using uint_lt2p [of "CompressAmount S ?w"] by simp
  ultimately show ?thesis
    using s by (simp add: TxOutCompressor_Serialize_def TxOutCompressor_Unserialize_def
        stream_okD(1,4) [OF assms(1)])
qed

lemma read_txouts_write:
  assumes "stream_ok S" "list_all (txout_wf S) v"
  shows "read_txouts S (map (\<lambda>o'. \<not> CTxOut_IsNull o') v @ replicate k False)
      (concat (map (TxOutCompressor_Serialize S) (filter (\<lambda>o'. \<not> CTxOut_IsNull o') v)) @ r) =
    Some (v @ replicate k CTxOut_SetNull, r)"
  using assms(2)
proof (induction v)
  case Nil
  show ?case by (induction k) simp_all
next
  case (Cons o' v)
  show ?case
  proof (cases "CTxOut_IsNull o'")
    case True
    then have "o' = CTxOut_SetNull"
      using Cons.prems by (auto simp: txout_wf_def CTxOut_IsNull_def)
    with True Cons show ?thesis by simp
  next
    case False
    with Cons show ?thesis
      by (simp add: TxOutCompressor_roundtrip [OF assms(1)])
  qed
qed

lemma header_code_bits:
  assumes "8 * z + 8 < 2 ^ 32" and "IsAvailable c 0 \<or> IsAvailable c 1 \<or> z \<noteq> 0"
  shows "header_code c z AND 1 \<noteq> 0 \<longleftrightarrow> cc_fCoinBase c"
    and "header_code c z AND 2 \<noteq> 0 \<longleftrightarrow> IsAvailable c 0"
    and "header_code c z AND 4 \<noteq> 0 \<longleftrightarrow> IsAvailable c 1"
    and "header_code c z div 8 + (if header_code c z AND 6 \<noteq> 0 then 0 else 1) = z"
proof -
  define k where "k = z - (if IsAvailable c 0 \<or> IsAvailable c 1 then 0 else 1)"
  define l where "l = (if cc_fCoinBase c then 1 else 0) + (if IsAvailable c 0 then 2 else 0) +
    (if IsAvailable c 1 then 4 else (0 :: nat))"
  have hc: "header_code c z = 8 * k + l"
    using assms(1) by (auto simp: header_code_def Let_def k_def l_def)
  have l8: "l < 8" by (simp add: l_def)
  have bits: "odd (8 * k + l) \<longleftrightarrow> cc_fCoinBase c"
    "odd ((8 * k + l) div 2) \<longleftrightarrow> IsAvailable c 0" "odd ((8 * k + l) div 4) \<longleftrightarrow> IsAvailable c 1"
    unfolding l_def by (cases "cc_fCoinBase c"; cases "IsAvailable c 0"; cases "IsAvailable c 1";
        simp; presburger)+
  have tests: "(n :: nat) AND 1 \<noteq> 0 \<longleftrightarrow> odd n" "n AND 2 \<noteq> 0 \<longleftrightarrow> odd (n div 2)"
    "n AND 4 \<noteq> 0 \<longleftrightarrow> odd (n div 4)" for n
    using and_exp_eq_0_iff_not_bit [of n 0] and_exp_eq_0_iff_not_bit [of n 1]
      and_exp_eq_0_iff_not_bit [of n 2] by (simp_all add: bit_iff_odd)
  show "header_code c z AND 1 \<noteq> 0 \<longleftrightarrow> cc_fCoinBase c"
    and b2: "header_code c z AND 2 \<noteq> 0 \<longleftrightarrow> IsAvailable c 0"
    and b4: "header_code c z AND 4 \<noteq> 0 \<longleftrightarrow> IsAvailable c 1"
    unfolding tests hc by (rule bits)+
  have "header_code c z AND 6 = (header_code c z AND 2) OR (header_code c z AND 4)"
  proof -
    have "(6 :: nat) = 2 OR 4" by simp
    then show ?thesis
      by (simp only:) (rule bit_eqI, auto simp only: bit_and_iff bit_or_iff)
  qed
  then have "header_code c z AND 6 \<noteq> 0 \<longleftrightarrow> IsAvailable c 0 \<or> IsAvailable c 1"
    using b2 b4 by (simp add: or_eq_0_iff)
  moreover have "header_code c z div 8 = k"
    using l8 by (simp add: hc)
  ultimately show "header_code c z div 8 + (if header_code c z AND 6 \<noteq> 0 then 0 else 1) = z"
    using assms(2) by (auto simp: k_def)
qed

text \<open>The shape of the bytes that \<open>Serialize\<close> writes for coins that are not fully spent.\<close>

lemma Serialize_defined:
  assumes "coins_wf S c" "\<not> IsPruned c" "CalcMaskSize c = (n, z)"
  shows "IsAvailable c 0 \<or> IsAvailable c 1 \<or> z \<noteq> 0"
    and "length (cc_vout c) \<le> 2 + 8 * n"
proof -
  obtain b where mask: "mask_ok (cc_vout c) b n z" and len: "length (cc_vout c) \<le> 2 + b * 8"
    using assms(3) by (rule CalcMaskSize_ok)
  have ne: "cc_vout c \<noteq> []" and last: "\<not> CTxOut_IsNull (last (cc_vout c))"
    using assms(1,2) wf_not_pruned_iff [OF assms(1)] by (auto simp: coins_wf_def)
  define i where "i = length (cc_vout c) - 1"
  have i: "IsAvailable c i" "Suc i = length (cc_vout c)"
    using ne last by (auto simp: IsAvailable_def i_def last_conv_nth)
  have big: "i < 2 + 8 * n"
  proof (rule ccontr)
    assume "\<not> i < 2 + 8 * n"
    then have j: "i = 2 + (i - 2)" "8 * n \<le> i - 2" by simp_all
    define j where "j = i - 2"
    from j have j: "i = 2 + j" "8 * n \<le> j" by (simp_all add: j_def)
    then have "n \<le> j div 8" "j div 8 < b" using len i(2) by auto
    then have "avail_byte (cc_vout c) (j div 8) = 0"
      using mask by (simp add: mask_ok_def)
    moreover have "bit (avail_byte (cc_vout c) (j div 8)) (j mod 8)"
      using i j by (simp add: bit_avail_byte IsAvailable_def)
    ultimately show False by simp
  qed
  then show "length (cc_vout c) \<le> 2 + 8 * n" using i(2) by linarith
  show "IsAvailable c 0 \<or> IsAvailable c 1 \<or> z \<noteq> 0"
  proof (cases "n = 0")
    case True
    with big i show ?thesis by (auto simp: less_2_cases_iff)
  next
    case False
    then have "avail_byte (cc_vout c) (n - 1) \<in> set (filter (\<lambda>x. x \<noteq> 0)
        (map (avail_byte (cc_vout c)) [0..<n]))"
      using mask by (auto simp: mask_ok_def)
    then have "length (filter (\<lambda>x. x \<noteq> 0) (map (avail_byte (cc_vout c)) [0..<n])) \<noteq> 0"
      by (metis length_0_conv list.set(1) empty_iff)
    then show ?thesis using mask by (simp add: mask_ok_def)
  qed
qed

lemma Cleanup_padded:
  assumes "coins_wf S c"
  shows "Cleanup (c\<lparr> cc_vout := cc_vout c @ replicate k CTxOut_SetNull \<rparr>) = c"
proof -
  have "dropWhile CTxOut_IsNull (replicate k CTxOut_SetNull @ rev (cc_vout c)) = rev (cc_vout c)"
    using assms by (induction k)
      (auto simp: coins_wf_def dropWhile_eq_self_iff hd_rev)
  then show ?thesis by (simp add: Cleanup_def)
qed

lemma CCoins_roundtrip_facts:
  assumes S: "stream_ok S" and wf: "coins_wf S c" and np: "\<not> IsPruned c"
    and rng: "0 \<le> cc_nVersion c" "cc_nVersion c < 2 ^ 31" "0 \<le> cc_nHeight c"
      "cc_nHeight c < 2 ^ 31" "length (cc_vout c) < 2 ^ 28"
  obtains bs where "CCoins_Serialize S c = Inr bs"
    and "\<And>r. CCoins_Unserialize S (bs @ r) = Some (c, r)"
proof -
  obtain n z where nz: "CalcMaskSize c = (n, z)" by (cases "CalcMaskSize c")
  obtain b where mask: "mask_ok (cc_vout c) b n z" using nz by (rule CalcMaskSize_ok)
  note ser = Serialize_defined [OF wf np nz]
  define mb where "mb = map (avail_byte (cc_vout c)) [0..<n]"
  have mb: "mb = [] \<or> last mb \<noteq> 0" "length (filter (\<lambda>x. x \<noteq> 0) mb) = z"
    using mask by (auto simp: mb_def mask_ok_def last_map)
  have "z \<le> n" using mb(2) length_filter_le [of "\<lambda>x. x \<noteq> 0" mb] by (simp add: mb_def)
  moreover have "n \<le> length (cc_vout c)"
  proof (cases "n = 0")
    case False
    then have "avail_byte (cc_vout c) (n - 1) \<noteq> 0" using mask by (simp add: mask_ok_def)
    then obtain p where "bit (avail_byte (cc_vout c) (n - 1)) p" by (auto simp: bit_eq_iff)
    then show ?thesis by (auto simp: bit_avail_byte)
  qed simp
  ultimately have z: "8 * z + 8 < 2 ^ 32" using rng(5) by simp
  note bits = header_code_bits [OF z ser(1)]
  have av: "map (IsAvailable c) [0..<2 + 8 * n] =
      [IsAvailable c 0, IsAvailable c 1] @ concat (map (\<lambda>ch. map (bit ch) [0..<8]) mb)"
    unfolding mb_def avail_bits avail_list ..
  have mask_read: "read_mask z [IsAvailable c 0, IsAvailable c 1] (mb @ s) =
      Some (map (IsAvailable c) [0..<2 + 8 * n], s)" for s
    unfolding av by (rule read_mask_append [OF mb])
  have rd: "get_VARINT S 31 (put_VARINT S (cc_nVersion c) @ s) = Some (cc_nVersion c, s)"
    "get_VARINT S 31 (put_VARINT S (cc_nHeight c) @ s) = Some (cc_nHeight c, s)"
    "get_VARINT S 32 (put_VARINT S (int (header_code c z)) @ s) = Some (int (header_code c z), s)" for s
    using rng by (auto intro!: stream_okD(1) [OF S] simp: header_code_def Let_def)
  define k where "k = 2 + 8 * n - length (cc_vout c)"
  have outs_read: "read_txouts S (map (IsAvailable c) [0..<2 + 8 * n])
      (concat (map (TxOutCompressor_Serialize S) (filter (\<lambda>o'. \<not> CTxOut_IsNull o') (cc_vout c))) @ s) =
      Some (cc_vout c @ replicate k CTxOut_SetNull, s)" for s
    unfolding avail_list_split [OF ser(2)] k_def
    using wf by (intro read_txouts_write [OF S]) (simp add: coins_wf_def)
  show ?thesis
  proof
    show "CCoins_Serialize S c = Inr (put_VARINT S (cc_nVersion c) @
        put_VARINT S (int (header_code c z)) @ mb @
        concat (map (TxOutCompressor_Serialize S) (filter (\<lambda>o'. \<not> CTxOut_IsNull o') (cc_vout c))) @
        put_VARINT S (cc_nHeight c))"
      using ser(1) by (auto simp: CCoins_Serialize_def nz mb_def)
    show "CCoins_Unserialize S ((put_VARINT S (cc_nVersion c) @
        put_VARINT S (int (header_code c z)) @ mb @
        concat (map (TxOutCompressor_Serialize S) (filter (\<lambda>o'. \<not> CTxOut_IsNull o') (cc_vout c))) @
        put_VARINT S (cc_nHeight c)) @ r) = Some (c, r)" for r
      unfolding CCoins_Unserialize_def append_assoc rd option.case prod.case Let_def nat_int bits
        mask_read outs_read
      using Cleanup_padded [OF wf, of k] by (cases c) simp
  qed
qed

lemma CCoins_size_agrees:
  assumes "stream_ok S"
  shows "CCoins_GetSerializeSize S c = map_sum id length (CCoins_Serialize S c)"
proof -
  have "TxOutCompressor_GetSerializeSize S = (\<lambda>o'. length (TxOutCompressor_Serialize S o'))"
    by (simp add: TxOutCompressor_GetSerializeSize_def TxOutCompressor_Serialize_def
        stream_okD(2,5) [OF assms] fun_eq_iff)
  then show ?thesis
    by (auto simp: CCoins_GetSerializeSize_def CCoins_Serialize_def stream_okD(2) [OF assms]
        length_concat comp_def split: prod.split)
qed

lemma CTxInUndo_roundtrip_facts:
  assumes S: "stream_ok S" and wf: "txout_wf S (undo_txout u)" "\<not> CTxOut_IsNull (undo_txout u)"
    and h: "uint (undo_nHeight u) < 2 ^ 31" and v: "0 \<le> undo_nVersion u" "undo_nVersion u < 2 ^ 31"
    and z: "undo_nHeight u = 0 \<Longrightarrow> undo_nVersion u = undo_nVersion u0"
  shows "CTxInUndo_Unserialize S u0 (CTxInUndo_Serialize S u @ r) = Some (u, r)"
proof -
  let ?b = "if undo_fCoinBase u then 1 else 0 :: uint32"
  have code: "uint (undo_code u) = uint (undo_nHeight u) * 2 + uint ?b"
    using h by (auto simp: undo_code_def uint_word_ariths)
  have hd: "undo_code u div 2 = undo_nHeight u"
    by (rule word_uint_eqI) (auto simp: uint_div code)
  have cb: "(undo_code u AND 1 \<noteq> 0) = undo_fCoinBase u"
  proof -
    have "odd (uint (undo_code u)) \<longleftrightarrow> undo_fCoinBase u" by (auto simp: code)
    then have "odd (undo_code u) \<longleftrightarrow> undo_fCoinBase u"
      by (metis bit_0 bit_uint_iff len_gt_0)
    then show ?thesis by (auto simp: and_one_eq mod_2_eq_odd)
  qed
  have rd: "get_VARINT S 32 (put_VARINT S (uint (undo_code u)) @ s) = Some (uint (undo_code u), s)"
    "get_VARINT S 31 (put_VARINT S (undo_nVersion u) @ s) = Some (undo_nVersion u, s)" for s
    using uint_lt2p [of "undo_code u"] v by (auto intro!: stream_okD(1) [OF S])
  show ?thesis
    unfolding CTxInUndo_Unserialize_def CTxInUndo_Serialize_def append_assoc rd option.case prod.case
      Let_def word_of_int_uint hd cb
    using z by (auto simp: rd TxOutCompressor_roundtrip [OF S wf] word_gt_0
        intro!: CTxInUndo.equality)
qed

subsection \<open>Sequences of spends\<close>

text \<open>The coins of one transaction over time: created at a height, then spent output by
  output.\<close>

inductive coins_reachable :: "CTransaction \<Rightarrow> int32 \<Rightarrow> CCoins \<Rightarrow> bool"
  for tx :: CTransaction and h :: int32 where
  created: "coins_reachable tx h (Cleanup (CCoins_of_tx tx h))"
| spent: "\<lbrakk> coins_reachable tx h c; Spend c out u = (True, u', c') \<rbrakk> \<Longrightarrow> coins_reachable tx h c'"

lemma coins_reachable_wf:
  assumes "list_all (txout_wf S) (vout tx)" and "coins_reachable tx h c"
  shows "coins_wf S c"
  using assms(2)
proof (induction rule: coins_reachable.induct)
  case created
  show ?case using assms(1) by (intro Cleanup_wf) (simp add: CCoins_of_tx_def)
next
  case (spent c out u u' c')
  then show ?case using Spend_wf [of S c out u] by simp
qed

lemma coins_reachable_frame:
  "coins_reachable tx h c \<Longrightarrow>
     cc_nHeight c = h \<and> cc_nVersion c = tx_nVersion tx \<and> length (cc_vout c) \<le> length (vout tx)"
proof (induction rule: coins_reachable.induct)
  case created
  show ?case
    using length_dropWhile_le [of CTxOut_IsNull "rev (vout tx)"] by (simp add: CCoins_of_tx_def)
next
  case (spent c out u u' c')
  then have "c' = Cleanup (c\<lparr> cc_vout := (cc_vout c)[unat (op_n out) := CTxOut_SetNull] \<rparr>)"
    using Spend_coins [of c out u] Spend_success_iff [of c out u] by simp
  with spent.IH length_dropWhile_le
    [of CTxOut_IsNull "rev ((cc_vout c)[unat (op_n out) := CTxOut_SetNull])"]
  show ?case by simp
qed

subsection \<open>A concrete stream\<close>

text \<open>A stream that satisfies the contract: numbers in unary, scripts with a unary length.\<close>

definition unary_put :: "int \<Rightarrow> bytes" where
  "unary_put n = replicate (nat n) 1 @ [0]"

definition unary_get :: "bytes \<Rightarrow> (int \<times> bytes) option" where
  "unary_get s = (case dropWhile (\<lambda>x. x = 1) s of [] \<Rightarrow> None
     | _ # r \<Rightarrow> Some (int (length (takeWhile (\<lambda>x. x = 1) s)), r))"

definition unary_stream :: stream_ops where
  "unary_stream = \<lparr> put_VARINT = unary_put, get_VARINT = (\<lambda>w. unary_get),
     size_VARINT = (\<lambda>n. length (unary_put n)), CompressAmount = (\<lambda>a. a),
     DecompressAmount = (\<lambda>a. a), put_script = (\<lambda>sc. unary_put (int (length sc)) @ sc),
     get_script = (\<lambda>s. case unary_get s of None \<Rightarrow> None
        | Some (n, r) \<Rightarrow> Some (take (nat n) r, drop (nat n) r)),
     size_script = (\<lambda>sc. length (unary_put (int (length sc)) @ sc)),
     MAX_MONEY = 2100000000000000 \<rparr>"

lemma unary_get_put: "0 \<le> n \<Longrightarrow> unary_get (unary_put n @ r) = Some (n, r)"
proof -
  have "takeWhile (\<lambda>x. x = 1) (replicate k 1 @ 0 # r) = replicate k (1 :: byte)"
    "dropWhile (\<lambda>x. x = 1) (replicate k 1 @ 0 # r) = (0 :: byte) # r" for k
    by (induction k) simp_all
  then show "0 \<le> n \<Longrightarrow> unary_get (unary_put n @ r) = Some (n, r)"
    by (simp add: unary_get_def unary_put_def)
qed

lemma unary_stream_ok: "stream_ok unary_stream"
  by (simp add: stream_ok_def unary_stream_def unary_get_put)

subsection \<open>Properties\<close>

text \<open>C4. \<open>CCoins::Spend\<close> succeeds exactly on an available output; it then makes that output,
  and no other, unavailable, leaves the other available outputs as they were and hands the
  spent output back in the undo record, which carries height, coinbase flag and version
  exactly when nothing is left to spend.  On failure nothing changes.\<close>

theorem Spend_correct:
  assumes "Spend c out u = (ok, u', c')"
  shows "(ok \<longleftrightarrow> IsAvailable c (unat (op_n out))) \<and>
    (\<not> ok \<longrightarrow> u' = u \<and> c' = c) \<and>
    (ok \<longrightarrow>
       (\<forall>i. IsAvailable c' i \<longleftrightarrow> IsAvailable c i \<and> i \<noteq> unat (op_n out)) \<and>
       (\<forall>i. IsAvailable c' i \<longrightarrow> cc_vout c' ! i = cc_vout c ! i) \<and>
       undo_txout u' = cc_vout c ! unat (op_n out) \<and>
       (undo_nHeight u', undo_fCoinBase u', undo_nVersion u') =
         (if IsPruned c' then (word_of_int (cc_nHeight c), cc_fCoinBase c, cc_nVersion c)
          else (0, False, 0)))"
  using Spend_facts [OF assms] by blast

definition demo_coins :: CCoins where
  "demo_coins = \<lparr> cc_fCoinBase = True,
     cc_vout = [CTxOut_SetNull, \<lparr> nValue = 3, scriptPubKey = [7] \<rparr>, \<lparr> nValue = 1, scriptPubKey = [] \<rparr>],
     cc_nHeight = 2, cc_nVersion = 1 \<rparr>"

theorem Spend_correct_witness:
  "\<exists>u' c'. Spend demo_coins (COutPoint 9 2) CTxInUndo_default = (True, u', c') \<and>
     \<not> IsAvailable c' 2 \<and> IsAvailable c' 1"
proof -
  obtain u' c' where sp: "Spend demo_coins (COutPoint 9 2) CTxInUndo_default = (True, u', c')"
    by (simp add: Spend_def demo_coins_def CTxOut_IsNull_def)
  then have "IsAvailable c' i \<longleftrightarrow> IsAvailable demo_coins i \<and> i \<noteq> 2" for i
    using Spend_correct [OF sp] by simp
  moreover have "IsAvailable demo_coins 1"
    by (simp add: IsAvailable_def demo_coins_def CTxOut_IsNull_def)
  ultimately show ?thesis using sp by simp
qed

text \<open>C5. Round trip of the compact \<open>CCoins\<close> format: for the coins of a transaction with values
  in range, after any sequence of spends that leaves something unspent, \<open>Serialize\<close> does
  not hit its assertion and \<open>Unserialize\<close> gives back the same coins and the rest of the
  stream.\<close>

theorem CCoins_roundtrip:
  assumes "stream_ok S" and "list_all (txout_wf S) (vout tx)" and "length (vout tx) < 2 ^ 28"
    and "0 \<le> tx_nVersion tx" "tx_nVersion tx < 2 ^ 31" "0 \<le> h" "h < 2 ^ 31"
    and "coins_reachable tx h c" and "\<not> IsPruned c"
  shows "\<exists>bs. CCoins_Serialize S c = Inr bs \<and> (\<forall>r. CCoins_Unserialize S (bs @ r) = Some (c, r))"
proof -
  note fr = coins_reachable_frame [OF assms(8)]
  show ?thesis
    using CCoins_roundtrip_facts [OF assms(1) coins_reachable_wf [OF assms(2,8)] assms(9)]
      assms(3-7) fr by (metis order_le_less_trans)
qed

definition demo_tx :: CTransaction where
  "demo_tx = \<lparr> tx_nVersion = 1, vin = [CTxIn_default],
     vout = [\<lparr> nValue = 2, scriptPubKey = [] \<rparr>, \<lparr> nValue = 3, scriptPubKey = [7] \<rparr>],
     nLockTime = 0 \<rparr>"

theorem CCoins_roundtrip_witness:
  "\<exists>bs. CCoins_Serialize unary_stream (Cleanup (CCoins_of_tx demo_tx 2)) = Inr bs \<and>
     CCoins_Unserialize unary_stream bs = Some (Cleanup (CCoins_of_tx demo_tx 2), [])"
proof -
  have "list_all (txout_wf unary_stream) (vout demo_tx)"
    by (simp add: demo_tx_def txout_wf_def unary_stream_def)
  moreover have "\<not> IsPruned (Cleanup (CCoins_of_tx demo_tx 2))"
    by (simp add: IsPruned_def CCoins_of_tx_def demo_tx_def CTxOut_IsNull_def)
  ultimately have "\<exists>bs. CCoins_Serialize unary_stream (Cleanup (CCoins_of_tx demo_tx 2)) = Inr bs \<and>
      (\<forall>r. CCoins_Unserialize unary_stream (bs @ r) = Some (Cleanup (CCoins_of_tx demo_tx 2), r))"
    by (intro CCoins_roundtrip [OF unary_stream_ok _ _ _ _ _ _ coins_reachable.created])
       (simp_all add: demo_tx_def)
  then show ?thesis by (metis append_Nil2)
qed

text \<open>\<open>CCoins::GetSerializeSize\<close> is exact: it fails on the same assertion as \<open>Serialize\<close> and
  otherwise returns the number of bytes \<open>Serialize\<close> writes.\<close>

theorem CCoins_GetSerializeSize_exact:
  assumes "stream_ok S"
  shows "CCoins_GetSerializeSize S c =
    (case CCoins_Serialize S c of Inl e \<Rightarrow> Inl e | Inr bs \<Rightarrow> Inr (length bs))"
  using CCoins_size_agrees [OF assms] by (auto split: sum.split)

theorem CCoins_GetSerializeSize_exact_witness:
  "CCoins_GetSerializeSize unary_stream CCoins_default = Inl AssertFailed \<and>
   CCoins_GetSerializeSize unary_stream demo_coins =
     (case CCoins_Serialize unary_stream demo_coins of Inl e \<Rightarrow> Inl e | Inr bs \<Rightarrow> Inr (length bs))"
proof
  have "CCoins_Serialize unary_stream CCoins_default = Inl AssertFailed"
    by (simp add: CCoins_Serialize_def CCoins_default_def CalcMaskSize_def IsAvailable_def
        CalcMaskSize_loop.simps)
  then show "CCoins_GetSerializeSize unary_stream CCoins_default = Inl AssertFailed"
    using CCoins_GetSerializeSize_exact [OF unary_stream_ok, of CCoins_default] by simp
  show "CCoins_GetSerializeSize unary_stream demo_coins =
     (case CCoins_Serialize unary_stream demo_coins of Inl e \<Rightarrow> Inl e | Inr bs \<Rightarrow> Inr (length bs))"
    by (rule CCoins_GetSerializeSize_exact [OF unary_stream_ok])
qed

text \<open>Round trip of \<open>CTxInUndo\<close> below height \<open>2 ^ 31\<close>: \<open>Unserialize\<close> restores the record that
  was written, where a record without metadata (height 0) keeps the version of the object
  it is read into.\<close>

theorem CTxInUndo_roundtrip:
  assumes "stream_ok S" and "txout_wf S (undo_txout u)" and "\<not> CTxOut_IsNull (undo_txout u)"
    and "uint (undo_nHeight u) < 2 ^ 31" and "0 \<le> undo_nVersion u" and "undo_nVersion u < 2 ^ 31"
    and "undo_nHeight u = 0 \<Longrightarrow> undo_nVersion u = undo_nVersion u0"
  shows "CTxInUndo_Unserialize S u0 (CTxInUndo_Serialize S u @ r) = Some (u, r)"
  using CTxInUndo_roundtrip_facts [OF assms] .

theorem CTxInUndo_roundtrip_witness:
  "CTxInUndo_Unserialize unary_stream CTxInUndo_default
     (CTxInUndo_Serialize unary_stream
        \<lparr> undo_txout = \<lparr> nValue = 3, scriptPubKey = [7] \<rparr>, undo_fCoinBase = True,
          undo_nHeight = 5, undo_nVersion = 1 \<rparr> @ [42]) =
   Some (\<lparr> undo_txout = \<lparr> nValue = 3, scriptPubKey = [7] \<rparr>, undo_fCoinBase = True,
          undo_nHeight = 5, undo_nVersion = 1 \<rparr>, [42])"
  by (rule CTxInUndo_roundtrip [OF unary_stream_ok])
     (simp_all add: txout_wf_def CTxOut_IsNull_def unary_stream_def)

end
