(* ===== verification/Merkle.thy ===== *)
theory Merkle
  imports Core
begin

text \<open>
  The block class of \<open>dust_coin/bitcoin_block.h\<close> and its Merkle tree.  \<open>txhash\<close> stands for
  \<open>CTransaction::GetHash\<close> and \<open>H\<close> for the two-argument \<open>Hash\<close> of \<open>hash.h\<close>.  The loops work
  on the flat vector \<open>vMerkleTree\<close> with an offset \<open>j\<close>, as the code does; the reference
  definition \<open>merkle_root\<close> works level by level on lists.
\<close>

subsection \<open>CBlock\<close>

record CBlock = CBlockHeader +
  vtx :: "CTransaction list"
  vMerkleTree :: "uint256 list"

definition CBlock_SetNull :: CBlock where
  "CBlock_SetNull = CBlockHeader.extend CBlockHeader_SetNull (CBlock.fields [] [])"

definition CBlock_of_header :: "CBlockHeader \<Rightarrow> CBlock" where
  "CBlock_of_header h = CBlockHeader.extend h (CBlock.fields [] [])"

definition GetBlockHeader :: "CBlock \<Rightarrow> CBlockHeader" where
  "GetBlockHeader b =
     \<lparr> bh_nVersion = bh_nVersion b, hashPrevBlock = hashPrevBlock b,
       hashMerkleRoot = hashMerkleRoot b, bh_nTime = bh_nTime b, bh_nBits = bh_nBits b,
       nNonce = nNonce b \<rparr>"

subsection \<open>Building the tree\<close>

function build_inner ::
  "('h \<Rightarrow> 'h \<Rightarrow> 'h) \<Rightarrow> nat \<Rightarrow> nat \<Rightarrow> nat \<Rightarrow> 'h list \<Rightarrow> 'h list" where
  "build_inner H j nSize i tree =
     (if i < nSize then
        (let i2 = min (i + 1) (nSize - 1) in
         build_inner H j nSize (i + 2) (tree @ [H (tree ! (j + i)) (tree ! (j + i2))]))
      else tree)"
  by pat_completeness auto
termination
  by (relation "measure (\<lambda>(H, j, nSize, i, tree). nSize - i)") auto

function build_levels :: "('h \<Rightarrow> 'h \<Rightarrow> 'h) \<Rightarrow> nat \<Rightarrow> nat \<Rightarrow> 'h list \<Rightarrow> 'h list" where
  "build_levels H j nSize tree =
     (if 1 < nSize
      then build_levels H (j + nSize) ((nSize + 1) div 2) (build_inner H j nSize 0 tree)
      else tree)"
  by pat_completeness auto
termination
  by (relation "measure (\<lambda>(H, j, nSize, tree). nSize)") auto

definition BuildMerkleTree ::
  "(CTransaction \<Rightarrow> uint256) \<Rightarrow> (uint256 \<Rightarrow> uint256 \<Rightarrow> uint256) \<Rightarrow> CBlock \<Rightarrow> uint256 \<times> CBlock" where
  "BuildMerkleTree txhash H b =
     (let tree = build_levels H 0 (length (vtx b)) (map txhash (vtx b)) in
      ((if tree = [] then 0 else last tree), b\<lparr> vMerkleTree := tree \<rparr>))"

definition GetTxHash :: "CBlock \<Rightarrow> nat \<Rightarrow> uint256 res" where
  "GetTxHash b nIndex =
     (if \<not> 0 < length (vMerkleTree b) then Inl AssertFailed
      else if \<not> nIndex < length (vtx b) then Inl AssertFailed
      else if \<not> nIndex < length (vMerkleTree b) then Inl OutOfRange
      else Inr (vMerkleTree b ! nIndex))"

subsection \<open>Branches\<close>

function branch_loop :: "'h list \<Rightarrow> nat \<Rightarrow> nat \<Rightarrow> int32 \<Rightarrow> 'h list res" where
  "branch_loop tree j nSize nIndex =
     (if 1 < nSize then
        (let i = int j + min (nIndex XOR 1) (int nSize - 1) in
         if i < 0 \<or> int (length tree) \<le> i then Inl OutOfRange
         else bind_res (branch_loop tree (j + nSize) ((nSize + 1) div 2) (drop_bit 1 nIndex))
                (\<lambda>rest. Inr (tree ! nat i # rest)))
      else Inr [])"
  by pat_completeness auto
termination
  by (relation "measure (\<lambda>(tree, j, nSize, nIndex). nSize)") auto

text \<open>\<open>GetMerkleBranch\<close> builds the tree first if the block has none.\<close>

definition GetMerkleBranch ::
  "(CTransaction \<Rightarrow> uint256) \<Rightarrow> (uint256 \<Rightarrow> uint256 \<Rightarrow> uint256) \<Rightarrow> CBlock \<Rightarrow> int32 \<Rightarrow>
     (uint256 list \<times> CBlock) res" where
  "GetMerkleBranch txhash H b nIndex =
     (let b1 = (if vMerkleTree b = [] then snd (BuildMerkleTree txhash H b) else b) in
      bind_res (branch_loop (vMerkleTree b1) 0 (length (vtx b1)) nIndex) (\<lambda>br. Inr (br, b1)))"

fun check_branch :: "('h \<Rightarrow> 'h \<Rightarrow> 'h) \<Rightarrow> 'h \<Rightarrow> 'h list \<Rightarrow> int \<Rightarrow> 'h" where
  "check_branch H hash [] nIndex = hash"
| "check_branch H hash (otherside # br) nIndex =
     check_branch H (if nIndex AND 1 \<noteq> 0 then H otherside hash else H hash otherside) br
       (drop_bit 1 nIndex)"

definition CheckMerkleBranch ::
  "(uint256 \<Rightarrow> uint256 \<Rightarrow> uint256) \<Rightarrow> uint256 \<Rightarrow> uint256 list \<Rightarrow> int32 \<Rightarrow> uint256" where
  "CheckMerkleBranch H hash br nIndex =
     (if nIndex = - 1 then 0 else check_branch H hash br nIndex)"

declare build_inner.simps [simp del] build_levels.simps [simp del] branch_loop.simps [simp del]

subsection \<open>Reference definition\<close>

fun next_level :: "('h \<Rightarrow> 'h \<Rightarrow> 'h) \<Rightarrow> 'h list \<Rightarrow> 'h list" where
  "next_level H [] = []"
| "next_level H [x] = [H x x]"
| "next_level H (x # y # zs) = H x y # next_level H zs"

lemma length_next_level [simp]: "length (next_level H xs) = (length xs + 1) div 2"
  by (induction H xs rule: next_level.induct) auto

function merkle_root :: "('h \<Rightarrow> 'h \<Rightarrow> 'h) \<Rightarrow> 'h list \<Rightarrow> 'h option" where
  "merkle_root H xs =
     (if 1 < length xs then merkle_root H (next_level H xs)
      else case xs of [] \<Rightarrow> None | x # _ \<Rightarrow> Some x)"
  by pat_completeness auto
termination
  by (relation "measure (\<lambda>(H, xs). length xs)") auto

declare merkle_root.simps [simp del]

lemma nth_next_level:
  "k < length xs \<Longrightarrow>
     next_level H xs ! (k div 2) =
       H (xs ! (2 * (k div 2))) (xs ! min (2 * (k div 2) + 1) (length xs - 1))"
proof (induction H xs arbitrary: k rule: next_level.induct)
  case (3 H x y zs)
  show ?case
  proof (cases "k < 2")
    case True
    then show ?thesis by (auto simp: less_2_cases_iff min_def)
  next
    case False
    then obtain m where m: "k = m + 2" by (metis add.commute le_Suc_ex not_less)
    have "m < length zs" using "3.prems" m by simp
    then obtain l where "length zs = Suc l" by (cases zs) auto
    then show ?thesis
      using "3.IH" [OF \<open>m < length zs\<close>] by (auto simp: m nth_Cons' min_def)
  qed
qed auto

subsection \<open>The flat loops compute the levels\<close>

lemma build_inner_level:
  assumes "length pre = j" "length xs = nSize" "even i"
  shows "build_inner H j nSize i (pre @ xs @ take (i div 2) (next_level H xs)) =
    pre @ xs @ next_level H xs"
  using assms
proof (induction "nSize - i" arbitrary: i rule: less_induct)
  case less
  show ?case
  proof (cases "i < nSize")
    case False
    with less.prems show ?thesis by (auto simp: build_inner.simps [of _ _ _ i])
  next
    case True
    let ?nl = "next_level H xs"
    let ?t = "pre @ xs @ take (i div 2) ?nl"
    have i: "2 * (i div 2) = i" using less.prems(3) by simp
    have el: "H (?t ! (j + i)) (?t ! (j + min (i + 1) (nSize - 1))) = ?nl ! (i div 2)"
      using True less.prems nth_next_level [of i xs H] by (auto simp: nth_append i min_def)
    have "i div 2 < length ?nl" using True less.prems by simp
    then have "take (i div 2) ?nl @ [?nl ! (i div 2)] = take ((i + 2) div 2) ?nl"
      by (simp add: take_Suc_conv_app_nth)
    moreover have "build_inner H j nSize (i + 2) (pre @ xs @ take ((i + 2) div 2) ?nl) =
        pre @ xs @ ?nl"
      using True less.prems by (intro less.hyps) auto
    ultimately show ?thesis
      using True el by (simp add: build_inner.simps [of _ _ _ i] Let_def)
  qed
qed

text \<open>All levels of the tree, one after the other.\<close>

function levels :: "('h \<Rightarrow> 'h \<Rightarrow> 'h) \<Rightarrow> 'h list \<Rightarrow> 'h list" where
  "levels H xs = (if 1 < length xs then xs @ levels H (next_level H xs) else xs)"
  by pat_completeness auto
termination
  by (relation "measure (\<lambda>(H, xs). length xs)") auto

declare levels.simps [simp del]

lemma build_levels_eq:
  "length pre = j \<Longrightarrow> length xs = nSize \<Longrightarrow>
     build_levels H j nSize (pre @ xs) = pre @ levels H xs"
proof (induction nSize arbitrary: j pre xs rule: less_induct)
  case (less nSize)
  show ?case
  proof (cases "1 < nSize")
    case True
    have "build_inner H j nSize 0 (pre @ xs) = (pre @ xs) @ next_level H xs"
      using build_inner_level [OF less.prems, of 0 H] by simp
    moreover have "build_levels H (j + nSize) ((nSize + 1) div 2) ((pre @ xs) @ next_level H xs) =
        (pre @ xs) @ levels H (next_level H xs)"
      using True less.prems by (intro less.IH) auto
    ultimately show ?thesis
      using True less.prems by (simp add: build_levels.simps [of H j nSize] levels.simps [of H xs])
  next
    case False
    with less.prems show ?thesis
      by (simp add: build_levels.simps [of H j nSize] levels.simps [of H xs])
  qed
qed

lemma levels_empty_iff [simp]: "levels H xs = [] \<longleftrightarrow> xs = []"
  by (subst levels.simps) auto

lemma last_levels: "xs \<noteq> [] \<Longrightarrow> merkle_root H xs = Some (last (levels H xs))"
proof (induction H xs rule: merkle_root.induct)
  case (1 H xs)
  show ?case
  proof (cases "1 < length xs")
    case True
    then have "next_level H xs \<noteq> []"
      using length_next_level [of H xs] by (cases xs) (auto simp del: length_next_level)
    with True "1.IH" show ?thesis
      by (simp add: merkle_root.simps [of H xs] levels.simps [of H xs])
  next
    case False
    with "1.prems" show ?thesis
      by (cases xs) (auto simp: merkle_root.simps [of H "[_]"] levels.simps [of H "[_]"])
  qed
qed

lemma build_levels_init: "build_levels H 0 (length xs) xs = levels H xs"
  using build_levels_eq [of "[]" 0 xs "length xs" H] by simp

subsection \<open>A branch proves its leaf\<close>

lemma xor_1_nat: "(k :: nat) XOR Suc 0 = (if even k then k + 1 else k - 1)"
  by (simp add: xor_Suc_0_eq)

lemma next_level_sibling:
  assumes "k < length xs" and "s = xs ! min (k XOR 1) (length xs - 1)"
  shows "(if odd k then H s (xs ! k) else H (xs ! k) s) = next_level H xs ! (k div 2)"
proof (cases "even k")
  case True
  with assms show ?thesis by (auto simp: nth_next_level xor_1_nat elim!: evenE)
next
  case False
  then obtain m where m: "k = 2 * m + 1" by (elim oddE)
  then have "k div 2 = m" "k XOR Suc 0 = 2 * m" "min (2 * m) (length xs - 1) = 2 * m"
    "min (2 * m + 1) (length xs - 1) = k"
    using assms(1) by (auto simp: xor_1_nat)
  with False show ?thesis
    using nth_next_level [OF assms(1), of H] assms(2) by simp
qed

lemma and_1_int: "(i :: int) AND 1 \<noteq> 0 \<longleftrightarrow> odd i"
  by (simp add: and_one_eq mod_2_eq_odd)

lemma branch_correct:
  assumes "tree = pre @ levels H xs" "length pre = j" "length xs = nSize" "k < nSize"
  shows "\<exists>br. branch_loop tree j nSize (int k) = Inr br \<and>
    Some (check_branch H (xs ! k) br (int k)) = merkle_root H xs"
  using assms
proof (induction nSize arbitrary: j pre xs k rule: less_induct)
  case (less nSize)
  show ?case
  proof (cases "1 < nSize")
    case False
    with less.prems have "nSize = 1" "k = 0" by auto
    then show ?thesis using less.prems
      by (cases xs) (auto simp: branch_loop.simps [of _ _ "Suc 0"] merkle_root.simps [of H "[_]"])
  next
    case True
    let ?nl = "next_level H xs"
    define s where "s = xs ! min (k XOR 1) (nSize - 1)"
    have tree: "tree = (pre @ xs) @ levels H ?nl"
      using True less.prems by (simp add: levels.simps [of H xs])
    have "\<exists>br. branch_loop tree (j + nSize) ((nSize + 1) div 2) (int (k div 2)) = Inr br \<and>
        Some (check_branch H (?nl ! (k div 2)) br (int (k div 2))) = merkle_root H ?nl"
      using True less.prems by (intro less.IH [OF _ tree]) auto
    then obtain br where br: "branch_loop tree (j + nSize) ((nSize + 1) div 2) (int (k div 2)) = Inr br"
      "Some (check_branch H (?nl ! (k div 2)) br (int (k div 2))) = merkle_root H ?nl" by blast
    have i: "min (k XOR 1) (nSize - 1) < nSize" using True by simp
    have len: "j + min (k XOR 1) (nSize - 1) < length tree"
      using i less.prems(2,3) unfolding tree by simp
    have el: "tree ! (j + min (k XOR 1) (nSize - 1)) = s"
      using i less.prems(2,3) unfolding tree by (simp add: s_def nth_append)
    have sib: "(if odd k then H s (xs ! k) else H (xs ! k) s) = ?nl ! (k div 2)"
      by (rule next_level_sibling) (use less.prems s_def in auto)
    have idx: "int j + min (int k XOR 1) (int nSize - 1) = int (j + min (k XOR 1) (nSize - 1))"
      using True of_nat_xor_eq [of k 1, where ?'a = int] by (auto simp: of_nat_diff min_def simp flip: of_nat_less_iff)
    have "branch_loop tree j nSize (int k) = Inr (s # br)"
      using True len el br(1)
      unfolding branch_loop.simps [of tree j nSize] Let_def idx nat_int
      by (simp add: drop_bit_Suc zdiv_int)
    moreover have "check_branch H (xs ! k) (s # br) (int k) =
        check_branch H (?nl ! (k div 2)) br (int (k div 2))"
      using sib by (auto simp: and_1_int drop_bit_Suc zdiv_int split: if_splits)
    ultimately show ?thesis
      using br(2) True less.prems by (simp add: merkle_root.simps [of H xs])
  qed
qed

subsection \<open>Duplicated tails\<close>

text \<open>A level of odd length and the same level with its last entry repeated have the same next
  level, which is how a block with repeated transactions gets the Merkle root of the
  original.\<close>

lemma next_level_dup:
  "odd (length xs) \<Longrightarrow> next_level H (xs @ [last xs]) = next_level H xs"
  by (induction H xs rule: next_level.induct) auto

lemma merkle_root_dup:
  assumes "odd (length xs)" "1 < length xs"
  shows "merkle_root H (xs @ [last xs]) = merkle_root H xs"
proof -
  have "merkle_root H (xs @ [last xs]) = merkle_root H (next_level H (xs @ [last xs]))"
    using assms(2) by (subst merkle_root.simps [of H "xs @ [last xs]"]) auto
  also have "\<dots> = merkle_root H xs"
    using assms by (simp add: next_level_dup merkle_root.simps [of H xs])
  finally show ?thesis .
qed

lemma BuildMerkleTree_eq:
  "BuildMerkleTree txhash H b =
     ((case merkle_root H (map txhash (vtx b)) of None \<Rightarrow> 0 | Some r \<Rightarrow> r),
      b\<lparr> vMerkleTree := levels H (map txhash (vtx b)) \<rparr>)"
proof (cases "vtx b = []")
  case True
  then show ?thesis
    by (simp add: BuildMerkleTree_def levels.simps [of H "[]"] build_levels.simps [of H 0 0]
        merkle_root.simps [of H "[]"])
next
  case False
  then have "merkle_root H (map txhash (vtx b)) = Some (last (levels H (map txhash (vtx b))))"
    by (intro last_levels) simp
  with False show ?thesis
    using build_levels_init [of H "map txhash (vtx b)"]
    by (simp add: BuildMerkleTree_def Let_def)
qed

lemma levels_prefix: "\<exists>ys. levels H xs = xs @ ys"
  by (subst levels.simps) auto

lemma BuildMerkleTree_leaves:
  assumes "i < length (vtx b)"
  shows "GetTxHash (snd (BuildMerkleTree txhash H b)) i = Inr (txhash (vtx b ! i))"
proof -
  obtain ys where ys: "levels H (map txhash (vtx b)) = map txhash (vtx b) @ ys"
    using levels_prefix by blast
  show ?thesis
    using assms by (auto simp: BuildMerkleTree_eq GetTxHash_def ys nth_append)
qed

lemma GetMerkleBranch_correct:
  assumes "vMerkleTree b = [] \<or> vMerkleTree b = vMerkleTree (snd (BuildMerkleTree txhash H b))"
    and "i < length (vtx b)"
  shows "\<exists>br. GetMerkleBranch txhash H b (int i) = Inr (br, snd (BuildMerkleTree txhash H b)) \<and>
    CheckMerkleBranch H (txhash (vtx b ! i)) br (int i) = fst (BuildMerkleTree txhash H b)"
proof -
  let ?xs = "map txhash (vtx b)" and ?b1 = "snd (BuildMerkleTree txhash H b)"
  have "(if vMerkleTree b = [] then ?b1 else b) = ?b1"
    using assms(1) by (auto simp: BuildMerkleTree_eq)
  moreover have "vMerkleTree ?b1 = [] @ levels H ?xs" "vtx ?b1 = vtx b"
    by (simp_all add: BuildMerkleTree_eq)
  moreover obtain br where "branch_loop (levels H ?xs) 0 (length ?xs) (int i) = Inr br"
    "Some (check_branch H (?xs ! i) br (int i)) = merkle_root H ?xs"
    using branch_correct [of "levels H ?xs" "[]" H ?xs 0 "length ?xs" i] assms(2) by auto
  ultimately show ?thesis
    using assms(2)
    by (auto simp: GetMerkleBranch_def Let_def CheckMerkleBranch_def BuildMerkleTree_eq
        split: option.splits)
qed

subsection \<open>Properties\<close>

text \<open>C9. \<open>BuildMerkleTree\<close>, which fills one flat vector by index arithmetic, computes the root
  of the level-by-level reference definition (zero for a block without transactions), and
  the vector starts with the transaction hashes, which is what \<open>GetTxHash\<close> reads.\<close>

theorem BuildMerkleTree_correct:
  "fst (BuildMerkleTree txhash H b) =
     (case merkle_root H (map txhash (vtx b)) of None \<Rightarrow> 0 | Some r \<Rightarrow> r) \<and>
   map (GetTxHash (snd (BuildMerkleTree txhash H b))) [0..<length (vtx b)] =
     map (\<lambda>tx. Inr (txhash tx)) (vtx b)"
proof
  show "fst (BuildMerkleTree txhash H b) =
     (case merkle_root H (map txhash (vtx b)) of None \<Rightarrow> 0 | Some r \<Rightarrow> r)"
    by (simp add: BuildMerkleTree_eq)
  show "map (GetTxHash (snd (BuildMerkleTree txhash H b))) [0..<length (vtx b)] =
     map (\<lambda>tx. Inr (txhash tx)) (vtx b)"
    by (rule nth_equalityI) (simp_all add: BuildMerkleTree_leaves)
qed

text \<open>Completeness of Merkle branches: for every transaction of a block whose tree is either
  not built or up to date, \<open>GetMerkleBranch\<close> reads inside the tree and \<open>CheckMerkleBranch\<close>
  folds the branch and the transaction hash back to the root.\<close>

theorem CheckMerkleBranch_complete:
  assumes "vMerkleTree b = [] \<or> vMerkleTree b = vMerkleTree (snd (BuildMerkleTree txhash H b))"
    and "i < length (vtx b)"
  shows "\<exists>br b'. GetMerkleBranch txhash H b (int i) = Inr (br, b') \<and>
    CheckMerkleBranch H (txhash (vtx b ! i)) br (int i) = fst (BuildMerkleTree txhash H b)"
  using GetMerkleBranch_correct [OF assms] by blast

definition demo_block :: "CTransaction list \<Rightarrow> CBlock" where
  "demo_block txs = CBlock_SetNull\<lparr> vtx := txs \<rparr>"

abbreviation demo_hash :: "CTransaction \<Rightarrow> uint256" where
  "demo_hash tx \<equiv> of_nat (length (vout tx))"

abbreviation demo_H :: "uint256 \<Rightarrow> uint256 \<Rightarrow> uint256" where
  "demo_H x y \<equiv> 3 * x + 5 * y + 1"

theorem CheckMerkleBranch_complete_witness:
  "\<exists>br b'. GetMerkleBranch demo_hash demo_H
      (demo_block [CTransaction_SetNull, CTransaction_SetNull, CTransaction_SetNull]) 2 = Inr (br, b') \<and>
    CheckMerkleBranch demo_H (demo_hash CTransaction_SetNull) br 2 =
      fst (BuildMerkleTree demo_hash demo_H
        (demo_block [CTransaction_SetNull, CTransaction_SetNull, CTransaction_SetNull]))"
proof -
  let ?b = "demo_block [CTransaction_SetNull, CTransaction_SetNull, CTransaction_SetNull]"
  have h: "vMerkleTree ?b = []" "2 < length (vtx ?b)" "vtx ?b ! 2 = CTransaction_SetNull"
    by (simp_all add: demo_block_def CBlock_SetNull_def CBlockHeader.defs CBlock.defs)
  show ?thesis
    using CheckMerkleBranch_complete [of ?b demo_hash demo_H 2] h by simp
qed

text \<open>The tree does not bind the transaction list: for a block with an odd number of at least
  three transactions, repeating the last one gives a different block with the same root.\<close>

theorem BuildMerkleTree_malleable:
  assumes "odd (length (vtx b))" and "1 < length (vtx b)"
  shows "fst (BuildMerkleTree txhash H (b\<lparr> vtx := vtx b @ [last (vtx b)] \<rparr>)) =
    fst (BuildMerkleTree txhash H b)"
proof -
  have "map txhash (vtx b @ [last (vtx b)]) = map txhash (vtx b) @ [last (map txhash (vtx b))]"
    using assms by (cases "vtx b = []") (auto simp: last_map)
  then show ?thesis
    using merkle_root_dup [of "map txhash (vtx b)" H] assms by (simp add: BuildMerkleTree_eq)
qed

theorem BuildMerkleTree_malleable_witness:
  "fst (BuildMerkleTree demo_hash demo_H (demo_block
      [CTransaction_SetNull, CTransaction_SetNull, CTransaction_SetNull, CTransaction_SetNull])) =
   fst (BuildMerkleTree demo_hash demo_H (demo_block
      [CTransaction_SetNull, CTransaction_SetNull, CTransaction_SetNull]))"
  using BuildMerkleTree_malleable
    [of "demo_block [CTransaction_SetNull, CTransaction_SetNull, CTransaction_SetNull]"
      demo_hash demo_H]
  by (simp add: demo_block_def)

end
