(* ===== verification/Codec.thy ===== *)
theory Codec
  imports Prelude
begin

text \<open>
  The text encodings of \<open>util.cpp\<close>: Base64, Base32 and hex.  A C string is a list of
  characters without its terminating zero; \<open>char_at\<close> reads it the way \<open>p[i]\<close> does, with the
  terminating zero behind the last character.  The working variables \<open>enc\<close>, \<open>dec\<close> and
  \<open>left\<close> are \<open>int\<close>s in the code and here, shifted and masked by the same operations; a
  \<open>push_back\<close> into a vector of \<open>unsigned char\<close> keeps the low eight bits.
\<close>

subsection \<open>C strings\<close>

definition char_at :: "string \<Rightarrow> nat \<Rightarrow> char" where
  "char_at p i = (if i < length p then p ! i else CHR 0x00)"

definition byte_of_char :: "char \<Rightarrow> byte" where
  "byte_of_char c = word_of_nat (of_char c)"

definition char_of_byte :: "byte \<Rightarrow> char" where
  "char_of_byte b = char_of (unat b)"

definition isspace :: "char \<Rightarrow> bool" where
  "isspace c \<longleftrightarrow> c \<in> {CHR '' '', CHR 0x09, CHR 0x0A, CHR 0x0B, CHR 0x0C, CHR 0x0D}"

definition isdigit :: "char \<Rightarrow> bool" where
  "isdigit c \<longleftrightarrow> 48 \<le> (of_char c :: nat) \<and> (of_char c :: nat) \<le> 57"

text \<open>A table indexed by \<open>(unsigned char)c\<close>.\<close>

definition table_at :: "int list \<Rightarrow> char \<Rightarrow> int" where
  "table_at t c = t ! of_char c"

subsection \<open>Base64\<close>

definition pbase64 :: string where
  "pbase64 = ''ABCDEFGHIJKLMNOPQRSTUVWXYZabcdefghijklmnopqrstuvwxyz0123456789+/''"

fun encode64_loop :: "nat \<Rightarrow> int \<Rightarrow> bytes \<Rightarrow> string" where
  "encode64_loop mode left [] =
     (if mode \<noteq> 0
      then [pbase64 ! nat left] @ ''='' @ (if mode = 1 then ''='' else [])
      else [])"
| "encode64_loop mode left (b # bs) =
     (let enc = uint b in
      if mode = 0 then
        pbase64 ! nat (drop_bit 2 enc) # encode64_loop 1 (push_bit 4 (enc AND 3)) bs
      else if mode = 1 then
        pbase64 ! nat (left OR drop_bit 4 enc) # encode64_loop 2 (push_bit 2 (enc AND 15)) bs
      else
        pbase64 ! nat (left OR drop_bit 6 enc) # pbase64 ! nat (enc AND 63) #
          encode64_loop 0 left bs)"

definition EncodeBase64 :: "bytes \<Rightarrow> string" where
  "EncodeBase64 pch = encode64_loop 0 0 pch"

definition decode64_table :: "int list" where
  "decode64_table =
     replicate 43 (- 1) @ [62] @ replicate 3 (- 1) @ [63] @ [52..61] @ replicate 7 (- 1) @
     [0..25] @ replicate 6 (- 1) @ [26..51] @ replicate 133 (- 1)"

text \<open>The loop returns the decoded bytes, the final \<open>mode\<close> and \<open>left\<close>, and the rest of the
  string, where \<open>p\<close> points when the loop is left.\<close>

fun decode64_loop :: "nat \<Rightarrow> int \<Rightarrow> string \<Rightarrow> bytes \<times> nat \<times> int \<times> string" where
  "decode64_loop mode left [] = ([], mode, left, [])"
| "decode64_loop mode left (c # p) =
     (let dec = table_at decode64_table c in
      if dec = - 1 then ([], mode, left, c # p)
      else if mode = 0 then decode64_loop 1 dec p
      else if mode = 1 then
        apfst ((#) (word_of_int (push_bit 2 left OR drop_bit 4 dec)))
          (decode64_loop 2 (dec AND 15) p)
      else if mode = 2 then
        apfst ((#) (word_of_int (push_bit 4 left OR drop_bit 2 dec)))
          (decode64_loop 3 (dec AND 3) p)
      else
        apfst ((#) (word_of_int (push_bit 6 left OR dec))) (decode64_loop 0 left p))"

definition decode64_invalid :: "nat \<Rightarrow> int \<Rightarrow> string \<Rightarrow> bool" where
  "decode64_invalid mode left p =
     (if mode = 0 then False
      else if mode = 1 then True
      else if mode = 2 then
        left \<noteq> 0 \<or> char_at p 0 \<noteq> CHR ''='' \<or> char_at p 1 \<noteq> CHR ''='' \<or>
        table_at decode64_table (char_at p 2) \<noteq> - 1
      else
        left \<noteq> 0 \<or> char_at p 0 \<noteq> CHR ''='' \<or> table_at decode64_table (char_at p 1) \<noteq> - 1)"

text \<open>The decoded bytes and \<open>*pfInvalid\<close>.\<close>

definition DecodeBase64 :: "string \<Rightarrow> bytes \<times> bool" where
  "DecodeBase64 p =
     (case decode64_loop 0 0 p of
        (vchRet, mode, left, rest) \<Rightarrow> (vchRet, decode64_invalid mode left rest))"

definition EncodeBase64_string :: "string \<Rightarrow> string" where
  "EncodeBase64_string str = EncodeBase64 (map byte_of_char str)"

text \<open>\<open>str.c_str()\<close> ends at the first zero character.\<close>

definition c_str :: "string \<Rightarrow> string" where
  "c_str str = takeWhile (\<lambda>c. c \<noteq> CHR 0x00) str"

definition DecodeBase64_string :: "string \<Rightarrow> string" where
  "DecodeBase64_string str = map char_of_byte (fst (DecodeBase64 (c_str str)))"

subsection \<open>Base32\<close>

definition pbase32 :: string where
  "pbase32 = ''abcdefghijklmnopqrstuvwxyz234567''"

definition nPadding :: "nat list" where
  "nPadding = [0, 6, 4, 3, 1]"

fun encode32_loop :: "nat \<Rightarrow> int \<Rightarrow> bytes \<Rightarrow> string" where
  "encode32_loop mode left [] =
     (if mode \<noteq> 0 then pbase32 ! nat left # replicate (nPadding ! mode) (CHR ''='') else [])"
| "encode32_loop mode left (b # bs) =
     (let enc = uint b in
      if mode = 0 then
        pbase32 ! nat (drop_bit 3 enc) # encode32_loop 1 (push_bit 2 (enc AND 7)) bs
      else if mode = 1 then
        pbase32 ! nat (left OR drop_bit 6 enc) # pbase32 ! nat (drop_bit 1 enc AND 31) #
          encode32_loop 2 (push_bit 4 (enc AND 1)) bs
      else if mode = 2 then
        pbase32 ! nat (left OR drop_bit 4 enc) # encode32_loop 3 (push_bit 1 (enc AND 15)) bs
      else if mode = 3 then
        pbase32 ! nat (left OR drop_bit 7 enc) # pbase32 ! nat (drop_bit 2 enc AND 31) #
          encode32_loop 4 (push_bit 3 (enc AND 3)) bs
      else
        pbase32 ! nat (left OR drop_bit 5 enc) # pbase32 ! nat (enc AND 31) #
          encode32_loop 0 left bs)"

definition EncodeBase32 :: "bytes \<Rightarrow> string" where
  "EncodeBase32 pch = encode32_loop 0 0 pch"

definition decode32_table :: "int list" where
  "decode32_table =
     replicate 50 (- 1) @ [26..31] @ replicate 9 (- 1) @ [0..25] @ replicate 6 (- 1) @ [0..25] @
     replicate 133 (- 1)"

fun decode32_loop :: "nat \<Rightarrow> int \<Rightarrow> string \<Rightarrow> bytes \<times> nat \<times> int \<times> string" where
  "decode32_loop mode left [] = ([], mode, left, [])"
| "decode32_loop mode left (c # p) =
     (let dec = table_at decode32_table c in
      if dec = - 1 then ([], mode, left, c # p)
      else if mode = 0 then decode32_loop 1 dec p
      else if mode = 1 then
        apfst ((#) (word_of_int (push_bit 3 left OR drop_bit 2 dec)))
          (decode32_loop 2 (dec AND 3) p)
      else if mode = 2 then decode32_loop 3 (push_bit 5 left OR dec) p
      else if mode = 3 then
        apfst ((#) (word_of_int (push_bit 1 left OR drop_bit 4 dec)))
          (decode32_loop 4 (dec AND 15) p)
      else if mode = 4 then
        apfst ((#) (word_of_int (push_bit 4 left OR drop_bit 1 dec)))
          (decode32_loop 5 (dec AND 1) p)
      else if mode = 5 then decode32_loop 6 (push_bit 5 left OR dec) p
      else if mode = 6 then
        apfst ((#) (word_of_int (push_bit 2 left OR drop_bit 3 dec)))
          (decode32_loop 7 (dec AND 7) p)
      else
        apfst ((#) (word_of_int (push_bit 5 left OR dec))) (decode32_loop 0 left p))"

text \<open>The tests \<open>p[0] != '=' || ... || p[n-1] != '=' || table[p[n]] != -1\<close>.\<close>

definition bad_padding32 :: "nat \<Rightarrow> string \<Rightarrow> bool" where
  "bad_padding32 n p \<longleftrightarrow>
     (\<exists>i\<in>set [0..<n]. char_at p i \<noteq> CHR ''='') \<or> table_at decode32_table (char_at p n) \<noteq> - 1"

definition decode32_invalid :: "nat \<Rightarrow> int \<Rightarrow> string \<Rightarrow> bool" where
  "decode32_invalid mode left p =
     (if mode = 0 then False
      else if mode = 1 \<or> mode = 3 \<or> mode = 6 then True
      else if mode = 2 then left \<noteq> 0 \<or> bad_padding32 6 p
      else if mode = 4 then left \<noteq> 0 \<or> bad_padding32 4 p
      else if mode = 5 then left \<noteq> 0 \<or> bad_padding32 3 p
      else left \<noteq> 0 \<or> bad_padding32 1 p)"

definition DecodeBase32 :: "string \<Rightarrow> bytes \<times> bool" where
  "DecodeBase32 p =
     (case decode32_loop 0 0 p of
        (vchRet, mode, left, rest) \<Rightarrow> (vchRet, decode32_invalid mode left rest))"

definition EncodeBase32_string :: "string \<Rightarrow> string" where
  "EncodeBase32_string str = EncodeBase32 (map byte_of_char str)"

definition DecodeBase32_string :: "string \<Rightarrow> string" where
  "DecodeBase32_string str = map char_of_byte (fst (DecodeBase32 (c_str str)))"

subsection \<open>Hex\<close>

definition phexdigit :: "int list" where
  "phexdigit =
     replicate 48 (- 1) @ [0..9] @ replicate 7 (- 1) @ [10..15] @ replicate 26 (- 1) @ [10..15] @
     replicate 153 (- 1)"

definition IsHex :: "string \<Rightarrow> bool" where
  "IsHex str \<longleftrightarrow>
     (\<forall>c\<in>set str. \<not> table_at phexdigit c < 0) \<and> 0 < length str \<and> length str mod 2 = 0"

text \<open>\<open>ParseHex\<close> skips white space in front of each pair of digits, and stops at the first
  character that is not a digit where one is expected.\<close>

function ParseHex :: "string \<Rightarrow> bytes" where
  "ParseHex psz =
     (case dropWhile isspace psz of
        [] \<Rightarrow> []
      | c1 # p1 \<Rightarrow>
          let c = table_at phexdigit c1 in
          if c = - 1 then []
          else let n = word_of_int (push_bit 4 c) :: byte in
            (case p1 of
               [] \<Rightarrow> []
             | c2 # p2 \<Rightarrow>
                 let c = table_at phexdigit c2 in
                 if c = - 1 then [] else (n OR word_of_int c) # ParseHex p2))"
  by pat_completeness auto
termination
  by (relation "measure length")
    (auto dest!: dropWhile_Cons_length)

declare ParseHex.simps [simp del]

subsection \<open>Digit alphabets\<close>

text \<open>What the round trips need of an alphabet and its table: reading the table at the
  character of a digit gives the digit back, and the padding character is not a digit.\<close>

locale digit_table =
  fixes alphabet :: string and tab :: "int list" and bits :: nat
  assumes tab_digit: "\<And>d. 0 \<le> d \<Longrightarrow> d < 2 ^ bits \<Longrightarrow> table_at tab (alphabet ! nat d) = d"
    and tab_pad: "table_at tab (CHR ''='') = - 1"
    and tab_nul: "table_at tab (CHR 0x00) = - 1"
begin

lemma tab_digit_ok:
  assumes "0 \<le> d" "d < 2 ^ bits"
  shows "table_at tab (alphabet ! nat d) = d" "table_at tab (alphabet ! nat d) \<noteq> - 1"
  using assms tab_digit [of d] by auto

lemma not_pad: "0 \<le> d \<Longrightarrow> d < 2 ^ bits \<Longrightarrow> alphabet ! nat d \<noteq> CHR ''=''"
  using tab_digit [of d] tab_pad by auto

end

lemma all_digits:
  assumes "list_all (\<lambda>i. f i = int i) [0..<n]" "0 \<le> d" "d < int n"
  shows "f (nat d) = d"
  using assms by (auto simp: list_all_iff)

interpretation b64: digit_table pbase64 decode64_table 6
proof
  fix d :: int
  have "list_all (\<lambda>i. table_at decode64_table (pbase64 ! i) = int i) [0..<64]"
    by code_simp
  then show "0 \<le> d \<Longrightarrow> d < 2 ^ 6 \<Longrightarrow> table_at decode64_table (pbase64 ! nat d) = d"
    by (rule all_digits) simp_all
qed code_simp+

interpretation b32: digit_table pbase32 decode32_table 5
proof
  fix d :: int
  have "list_all (\<lambda>i. table_at decode32_table (pbase32 ! i) = int i) [0..<32]"
    by code_simp
  then show "0 \<le> d \<Longrightarrow> d < 2 ^ 5 \<Longrightarrow> table_at decode32_table (pbase32 ! nat d) = d"
    by (rule all_digits) simp_all
qed code_simp+

subsection \<open>Base64 round trip\<close>

text \<open>The four digits of three bytes.\<close>

definition d64_0 :: "byte \<Rightarrow> int" where "d64_0 a = drop_bit 2 (uint a)"
definition d64_1 :: "byte \<Rightarrow> byte \<Rightarrow> int" where
  "d64_1 a b = push_bit 4 (uint a AND 3) OR drop_bit 4 (uint b)"
definition d64_2 :: "byte \<Rightarrow> byte \<Rightarrow> int" where
  "d64_2 b c = push_bit 2 (uint b AND 15) OR drop_bit 6 (uint c)"
definition d64_3 :: "byte \<Rightarrow> int" where "d64_3 c = uint c AND 63"

lemmas d64_defs = d64_0_def d64_1_def d64_2_def d64_3_def

lemma d64_range:
  "bit (d64_0 a) n \<Longrightarrow> n < 6" "bit (d64_1 a b) n \<Longrightarrow> n < 6"
  "bit (d64_2 b c) n \<Longrightarrow> n < 6" "bit (d64_3 c) n \<Longrightarrow> n < 6"
  by (auto simp: d64_defs and_mask_int bit_drop_bit_eq bit_push_bit_iff bit_take_bit_iff bit_or_iff dest!: bit_uint_byteD)

lemma d64_bytes:
  "word_of_int (push_bit 2 (d64_0 a) OR drop_bit 4 (d64_1 a b)) = a"
  "word_of_int (push_bit 4 (d64_1 a b AND 15) OR drop_bit 2 (d64_2 b c)) = b"
  "word_of_int (push_bit 6 (d64_2 b c AND 3) OR d64_3 c) = c"
  unfolding d64_defs and_mask_int by (rule byte_eqI; simp add: byte_bits)+

lemma d64_zero: "d64_1 a 0 AND 15 = 0" "d64_2 b 0 AND 3 = 0"
  by (simp_all add: d64_defs and_mask_int take_bit_push_bit)

lemma encode64_steps:
  "encode64_loop 0 l (a # bs) = pbase64 ! nat (d64_0 a) # encode64_loop 1 (d64_1 a 0) bs"
  "encode64_loop 1 (d64_1 a 0) (b # bs) = pbase64 ! nat (d64_1 a b) # encode64_loop 2 (d64_2 b 0) bs"
  "encode64_loop 2 (d64_2 b 0) (c # bs) =
     pbase64 ! nat (d64_2 b c) # pbase64 ! nat (d64_3 c) # encode64_loop 0 (d64_2 b 0) bs"
  by (simp_all add: d64_defs Let_def)

lemma decode64_digit:
  assumes "\<And>n. bit d n \<Longrightarrow> n < 6"
  shows "decode64_loop 0 left (pbase64 ! nat d # p) = decode64_loop 1 d p"
    "decode64_loop 1 left (pbase64 ! nat d # p) =
       apfst ((#) (word_of_int (push_bit 2 left OR drop_bit 4 d))) (decode64_loop 2 (d AND 15) p)"
    "decode64_loop 2 left (pbase64 ! nat d # p) =
       apfst ((#) (word_of_int (push_bit 4 left OR drop_bit 2 d))) (decode64_loop 3 (d AND 3) p)"
    "decode64_loop 3 left (pbase64 ! nat d # p) =
       apfst ((#) (word_of_int (push_bit 6 left OR d))) (decode64_loop 0 left p)"
  using b64.tab_digit_ok [of d] digit_range [of d 6] assms by (simp_all add: Let_def)

lemma decode64_steps:
  "decode64_loop 0 l (pbase64 ! nat (d64_0 a) # p) = decode64_loop 1 (d64_0 a) p"
  "decode64_loop 1 (d64_0 a) (pbase64 ! nat (d64_1 a b) # p) =
     apfst ((#) a) (decode64_loop 2 (d64_1 a b AND 15) p)"
  "decode64_loop 2 (d64_1 a b AND 15) (pbase64 ! nat (d64_2 b c) # p) =
     apfst ((#) b) (decode64_loop 3 (d64_2 b c AND 3) p)"
  "decode64_loop 3 (d64_2 b c AND 3) (pbase64 ! nat (d64_3 c) # p) =
     apfst ((#) c) (decode64_loop 0 (d64_2 b c AND 3) p)"
  by (simp_all only: decode64_digit [OF d64_range(1)] decode64_digit [OF d64_range(2)]
      decode64_digit [OF d64_range(3)] decode64_digit [OF d64_range(4)] d64_bytes)

definition decoded64 :: "bytes \<Rightarrow> bytes \<times> nat \<times> int \<times> string \<Rightarrow> bool" where
  "decoded64 bs r \<longleftrightarrow>
     (case r of (out, mode, left, rest) \<Rightarrow> out = bs \<and> \<not> decode64_invalid mode left rest)"

lemma decoded64_Cons: "decoded64 (b # bs) (apfst ((#) b) r) = decoded64 bs r"
  by (cases r) (simp add: decoded64_def)

lemma decoded64_end:
  "decoded64 [] (decode64_loop 0 l [])"
  "decoded64 [] (decode64_loop 2 0 ''=='')" "decoded64 [] (decode64_loop 3 0 ''='')"
  by (simp_all add: decoded64_def decode64_invalid_def char_at_def b64.tab_nul b64.tab_pad)

lemma encode64_end:
  "encode64_loop 0 l [] = []"
  "encode64_loop 1 l [] = pbase64 ! nat l # ''==''" "encode64_loop 2 l [] = pbase64 ! nat l # ''=''"
  by simp_all

lemma roundtrip64:
  "decoded64 bs (decode64_loop 0 l1 (encode64_loop 0 l2 bs)) \<and>
   decoded64 (a # bs) (decode64_loop 1 (d64_0 a) (encode64_loop 1 (d64_1 a 0) bs)) \<and>
   decoded64 (b # bs) (decode64_loop 2 (d64_1 a b AND 15) (encode64_loop 2 (d64_2 b 0) bs))"
proof (induction bs arbitrary: l1 l2 a b)
  case Nil
  show ?case
    by (simp only: encode64_end decode64_steps decoded64_Cons d64_zero decoded64_end simp_thms)
next
  case (Cons c bs)
  show ?case
    by (simp only: encode64_steps decode64_steps decoded64_Cons Cons.IH simp_thms)
qed
subsection \<open>Base32 round trip\<close>

text \<open>The eight digits of five bytes.\<close>

definition d32_0 :: "byte \<Rightarrow> int" where "d32_0 a = drop_bit 3 (uint a)"
definition d32_1 :: "byte \<Rightarrow> byte \<Rightarrow> int" where
  "d32_1 a b = push_bit 2 (uint a AND 7) OR drop_bit 6 (uint b)"
definition d32_2 :: "byte \<Rightarrow> int" where "d32_2 b = drop_bit 1 (uint b) AND 31"
definition d32_3 :: "byte \<Rightarrow> byte \<Rightarrow> int" where
  "d32_3 b c = push_bit 4 (uint b AND 1) OR drop_bit 4 (uint c)"
definition d32_4 :: "byte \<Rightarrow> byte \<Rightarrow> int" where
  "d32_4 c d = push_bit 1 (uint c AND 15) OR drop_bit 7 (uint d)"
definition d32_5 :: "byte \<Rightarrow> int" where "d32_5 d = drop_bit 2 (uint d) AND 31"
definition d32_6 :: "byte \<Rightarrow> byte \<Rightarrow> int" where
  "d32_6 d e = push_bit 3 (uint d AND 3) OR drop_bit 5 (uint e)"
definition d32_7 :: "byte \<Rightarrow> int" where "d32_7 e = uint e AND 31"

lemmas d32_defs = d32_0_def d32_1_def d32_2_def d32_3_def d32_4_def d32_5_def d32_6_def d32_7_def

lemma d32_range:
  "bit (d32_0 a) n \<Longrightarrow> n < 5" "bit (d32_1 a b) n \<Longrightarrow> n < 5" "bit (d32_2 b) n \<Longrightarrow> n < 5"
  "bit (d32_3 b c) n \<Longrightarrow> n < 5" "bit (d32_4 c d) n \<Longrightarrow> n < 5" "bit (d32_5 d) n \<Longrightarrow> n < 5"
  "bit (d32_6 d e) n \<Longrightarrow> n < 5" "bit (d32_7 e) n \<Longrightarrow> n < 5"
  by (auto simp: d32_defs and_mask_int bit_drop_bit_eq bit_push_bit_iff bit_take_bit_iff bit_or_iff
      simp del: push_bit_Suc take_bit_Suc take_bit_Suc_0 drop_bit_Suc dest!: bit_uint_byteD)

lemma d32_bytes:
  "word_of_int (push_bit 3 (d32_0 a) OR drop_bit 2 (d32_1 a b)) = a"
  "word_of_int (push_bit 1 (push_bit 5 (d32_1 a b AND 3) OR d32_2 b) OR drop_bit 4 (d32_3 b c)) = b"
  "word_of_int (push_bit 4 (d32_3 b c AND 15) OR drop_bit 1 (d32_4 c d)) = c"
  "word_of_int (push_bit 2 (push_bit 5 (d32_4 c d AND 1) OR d32_5 d) OR drop_bit 3 (d32_6 d e)) = d"
  "word_of_int (push_bit 5 (d32_6 d e AND 7) OR d32_7 e) = e"
  unfolding d32_defs and_mask_int
  by (rule byte_eqI; simp add: byte_bits del: push_bit_Suc take_bit_Suc take_bit_Suc_0 drop_bit_Suc)+

lemma d32_zero: "d32_1 a 0 AND 3 = 0" "d32_3 b 0 AND 15 = 0" "d32_4 c 0 AND 1 = 0" "d32_6 d 0 AND 7 = 0"
  by (simp_all add: d32_defs and_mask_int take_bit_push_bit)

lemma encode32_steps:
  "encode32_loop 0 l (a # bs) = pbase32 ! nat (d32_0 a) # encode32_loop 1 (d32_1 a 0) bs"
  "encode32_loop 1 (d32_1 a 0) (b # bs) =
     pbase32 ! nat (d32_1 a b) # pbase32 ! nat (d32_2 b) # encode32_loop 2 (d32_3 b 0) bs"
  "encode32_loop 2 (d32_3 b 0) (c # bs) = pbase32 ! nat (d32_3 b c) # encode32_loop 3 (d32_4 c 0) bs"
  "encode32_loop 3 (d32_4 c 0) (d # bs) =
     pbase32 ! nat (d32_4 c d) # pbase32 ! nat (d32_5 d) # encode32_loop 4 (d32_6 d 0) bs"
  "encode32_loop 4 (d32_6 d 0) (e # bs) =
     pbase32 ! nat (d32_6 d e) # pbase32 ! nat (d32_7 e) # encode32_loop 0 (d32_6 d 0) bs"
  by (simp_all add: d32_defs Let_def)

lemma decode32_digit:
  assumes "\<And>n. bit d n \<Longrightarrow> n < 5"
  shows "decode32_loop 0 left (pbase32 ! nat d # p) = decode32_loop 1 d p"
    "decode32_loop 1 left (pbase32 ! nat d # p) =
       apfst ((#) (word_of_int (push_bit 3 left OR drop_bit 2 d))) (decode32_loop 2 (d AND 3) p)"
    "decode32_loop 2 left (pbase32 ! nat d # p) = decode32_loop 3 (push_bit 5 left OR d) p"
    "decode32_loop 3 left (pbase32 ! nat d # p) =
       apfst ((#) (word_of_int (push_bit 1 left OR drop_bit 4 d))) (decode32_loop 4 (d AND 15) p)"
    "decode32_loop 4 left (pbase32 ! nat d # p) =
       apfst ((#) (word_of_int (push_bit 4 left OR drop_bit 1 d))) (decode32_loop 5 (d AND 1) p)"
    "decode32_loop 5 left (pbase32 ! nat d # p) = decode32_loop 6 (push_bit 5 left OR d) p"
    "decode32_loop 6 left (pbase32 ! nat d # p) =
       apfst ((#) (word_of_int (push_bit 2 left OR drop_bit 3 d))) (decode32_loop 7 (d AND 7) p)"
    "decode32_loop 7 left (pbase32 ! nat d # p) =
       apfst ((#) (word_of_int (push_bit 5 left OR d))) (decode32_loop 0 left p)"
  using b32.tab_digit_ok [of d] digit_range [of d 5] assms by (simp_all add: Let_def)

lemma decode32_steps:
  "decode32_loop 0 l (pbase32 ! nat (d32_0 a) # p) = decode32_loop 1 (d32_0 a) p"
  "decode32_loop 1 (d32_0 a) (pbase32 ! nat (d32_1 a b) # p) =
     apfst ((#) a) (decode32_loop 2 (d32_1 a b AND 3) p)"
  "decode32_loop 2 (d32_1 a b AND 3) (pbase32 ! nat (d32_2 b) # p) =
     decode32_loop 3 (push_bit 5 (d32_1 a b AND 3) OR d32_2 b) p"
  "decode32_loop 3 (push_bit 5 (d32_1 a b AND 3) OR d32_2 b) (pbase32 ! nat (d32_3 b c) # p) =
     apfst ((#) b) (decode32_loop 4 (d32_3 b c AND 15) p)"
  "decode32_loop 4 (d32_3 b c AND 15) (pbase32 ! nat (d32_4 c d) # p) =
     apfst ((#) c) (decode32_loop 5 (d32_4 c d AND 1) p)"
  "decode32_loop 5 (d32_4 c d AND 1) (pbase32 ! nat (d32_5 d) # p) =
     decode32_loop 6 (push_bit 5 (d32_4 c d AND 1) OR d32_5 d) p"
  "decode32_loop 6 (push_bit 5 (d32_4 c d AND 1) OR d32_5 d) (pbase32 ! nat (d32_6 d e) # p) =
     apfst ((#) d) (decode32_loop 7 (d32_6 d e AND 7) p)"
  "decode32_loop 7 (d32_6 d e AND 7) (pbase32 ! nat (d32_7 e) # p) =
     apfst ((#) e) (decode32_loop 0 (d32_6 d e AND 7) p)"
  by (simp_all only: decode32_digit [OF d32_range(1)] decode32_digit [OF d32_range(2)]
      decode32_digit [OF d32_range(3)] decode32_digit [OF d32_range(4)]
      decode32_digit [OF d32_range(5)] decode32_digit [OF d32_range(6)]
      decode32_digit [OF d32_range(7)] decode32_digit [OF d32_range(8)] d32_bytes)

definition decoded32 :: "bytes \<Rightarrow> bytes \<times> nat \<times> int \<times> string \<Rightarrow> bool" where
  "decoded32 bs r \<longleftrightarrow>
     (case r of (out, mode, left, rest) \<Rightarrow> out = bs \<and> \<not> decode32_invalid mode left rest)"

lemma decoded32_Cons: "decoded32 (b # bs) (apfst ((#) b) r) = decoded32 bs r"
  by (cases r) (simp add: decoded32_def)

lemma decoded32_end:
  "decoded32 [] (decode32_loop 0 l [])"
  "decoded32 [] (decode32_loop 2 0 ''======'')" "decoded32 [] (decode32_loop 4 0 ''===='')"
  "decoded32 [] (decode32_loop 5 0 ''==='')" "decoded32 [] (decode32_loop 7 0 ''='')"
  by (simp_all add: decoded32_def decode32_invalid_def bad_padding32_def char_at_def b32.tab_nul
      b32.tab_pad upt_rec)

lemma encode32_end:
  "encode32_loop 0 l [] = []"
  "encode32_loop 1 l [] = pbase32 ! nat l # ''======''" "encode32_loop 2 l [] = pbase32 ! nat l # ''====''"
  "encode32_loop 3 l [] = pbase32 ! nat l # ''===''" "encode32_loop 4 l [] = pbase32 ! nat l # ''=''"
  by (simp_all add: nPadding_def numeral_eq_Suc)

lemma roundtrip32:
  "decoded32 bs (decode32_loop 0 l1 (encode32_loop 0 l2 bs)) \<and>
   decoded32 (a # bs) (decode32_loop 1 (d32_0 a) (encode32_loop 1 (d32_1 a 0) bs)) \<and>
   decoded32 (b # bs) (decode32_loop 3 (push_bit 5 (d32_1 a b AND 3) OR d32_2 b)
       (encode32_loop 2 (d32_3 b 0) bs)) \<and>
   decoded32 (c # bs) (decode32_loop 4 (d32_3 b c AND 15) (encode32_loop 3 (d32_4 c 0) bs)) \<and>
   decoded32 (d # bs) (decode32_loop 6 (push_bit 5 (d32_4 c d AND 1) OR d32_5 d)
       (encode32_loop 4 (d32_6 d 0) bs))"
proof (induction bs arbitrary: l1 l2 a b c d)
  case Nil
  show ?case
    by (simp only: encode32_end decode32_steps decoded32_Cons d32_zero decoded32_end simp_thms)
next
  case (Cons c bs)
  show ?case
    by (simp only: encode32_steps decode32_steps decoded32_Cons Cons.IH simp_thms)
qed

subsection \<open>Hex pairs\<close>

fun hex_pairs :: "string \<Rightarrow> int list" where
  "hex_pairs (c1 # c2 # s) = (16 * table_at phexdigit c1 + table_at phexdigit c2) # hex_pairs s"
| "hex_pairs _ = []"

lemma phexdigit_range: "- 1 \<le> table_at phexdigit c" "table_at phexdigit c \<le> 15"
proof -
  have "list_all (\<lambda>x. - 1 \<le> x \<and> x \<le> 15) phexdigit" by code_simp
  moreover have "length phexdigit = 256" by code_simp
  moreover have "of_char c < (256 :: nat)" by simp
  ultimately show "- 1 \<le> table_at phexdigit c" "table_at phexdigit c \<le> 15"
    by (auto simp: table_at_def list_all_length)
qed

lemma isspace_not_hex: "isspace c \<Longrightarrow> table_at phexdigit c = - 1"
proof -
  have "list_all (\<lambda>c. table_at phexdigit c = - 1)
      [CHR '' '', CHR 0x09, CHR 0x0A, CHR 0x0B, CHR 0x0C, CHR 0x0D]" by code_simp
  then show "isspace c \<Longrightarrow> table_at phexdigit c = - 1" by (auto simp: isspace_def)
qed

lemma nibbles:
  fixes c d :: int
  assumes "0 \<le> c" "c \<le> 15" "0 \<le> d" "d \<le> 15"
  shows "uint ((word_of_int (push_bit 4 c) :: byte) OR word_of_int d) = 16 * c + d"
proof -
  have disj: "push_bit 4 c OR d = push_bit 4 c + d"
  proof (rule disjunctive_add [symmetric])
    fix n
    have "take_bit 4 d = d" using assms by (simp add: take_bit_int_eq_self_iff)
    then have "bit d n \<Longrightarrow> n < 4" by (metis bit_take_bit_iff)
    then show "\<not> bit (push_bit 4 c) n \<or> \<not> bit d n" by (auto simp: bit_push_bit_iff)
  qed
  have "(word_of_int (push_bit 4 c) :: byte) OR word_of_int d = word_of_int (push_bit 4 c OR d)"
    by (rule bit_word_eqI) (simp add: bit_simps)
  also have "uint \<dots> = push_bit 4 c + d"
    using assms unfolding disj uint_word_of_int_eq
    by (subst take_bit_int_eq_self_iff) (simp add: push_bit_eq_mult)
  finally show ?thesis by (simp add: push_bit_eq_mult)
qed

lemma ParseHex_digits:
  "\<forall>c\<in>set s. 0 \<le> table_at phexdigit c \<Longrightarrow> map uint (ParseHex s) = hex_pairs s"
proof (induction s rule: hex_pairs.induct)
  case (1 c1 c2 s)
  have "\<not> isspace c1" using "1.prems" isspace_not_hex [of c1] by auto
  with 1 phexdigit_range [of c1] phexdigit_range [of c2] show ?case
    by (subst ParseHex.simps) (auto simp: Let_def nibbles)
next
  case "2_1"
  show ?case by (simp add: ParseHex.simps)
next
  case "2_2"
  then show ?case using isspace_not_hex by (auto simp: ParseHex.simps Let_def)
qed

subsection \<open>Properties\<close>

text \<open>Base64 round trip: decoding an encoded byte sequence gives the sequence back and does
  not set the invalid flag.\<close>

theorem Base64_roundtrip: "DecodeBase64 (EncodeBase64 bs) = (bs, False)"
  using roundtrip64 [of bs 0 0]
  by (auto simp: DecodeBase64_def EncodeBase64_def decoded64_def split: prod.splits)

text \<open>Base32 round trip: decoding an encoded byte sequence gives the sequence back and does
  not set the invalid flag.\<close>

theorem Base32_roundtrip: "DecodeBase32 (EncodeBase32 bs) = (bs, False)"
  using roundtrip32 [of bs 0 0]
  by (auto simp: DecodeBase32_def EncodeBase32_def decoded32_def split: prod.splits)

text \<open>On a string that \<open>IsHex\<close> accepts, \<open>ParseHex\<close> reads every pair of digits, the first one
  as the high nibble.\<close>

theorem ParseHex_correct:
  "IsHex s \<Longrightarrow> map uint (ParseHex s) = hex_pairs s"
  by (rule ParseHex_digits) (simp add: IsHex_def not_less)

theorem ParseHex_correct_witness: "map uint (ParseHex ''1fA0'') = [31, 160]"
proof -
  have "IsHex ''1fA0''" "hex_pairs ''1fA0'' = [31, 160]" by code_simp+
  then show ?thesis using ParseHex_correct [of "''1fA0''"] by simp
qed

end
