(* ===== verification/Util.thy ===== *)
theory Util
  imports Codec
begin

text \<open>
  String, number and randomness helpers of \<open>util.cpp\<close>: \<open>ParseString\<close>, \<open>FormatMoney\<close> and
  \<open>ParseMoney\<close>, \<open>WildcardMatch\<close>, the rejection sampling of \<open>GetRand\<close>, and the version
  strings.  \<open>COIN\<close>, \<open>CENT\<close> and \<open>atoi64\<close> are declared in \<open>util.h\<close>, which the repository does
  not hold, and are arguments.  The bytes of \<open>RAND_bytes\<close> are a list of draws: a call
  consumes a prefix and returns the rest; it gives \<^term>\<open>None\<close> when it would need more draws
  than the list has.
\<close>

subsection \<open>Decimal output of \<open>strprintf\<close>\<close>

definition digit_char :: "nat \<Rightarrow> char" where
  "digit_char d = char_of (48 + d)"

fun dec_string :: "nat \<Rightarrow> string" where
  "dec_string n =
     (if n < 10 then [digit_char n] else dec_string (n div 10) @ [digit_char (n mod 10)])"

declare dec_string.simps [simp del]

text \<open>\<open>%d\<close> and \<open>%08d\<close>, the latter for values that are not negative.\<close>

definition fmt_d :: "int \<Rightarrow> string" where
  "fmt_d i = (if i < 0 then CHR ''-'' # dec_string (nat (- i)) else dec_string (nat i))"

definition fmt_08d :: "int \<Rightarrow> string" where
  "fmt_08d i = (let s = fmt_d i in replicate (8 - length s) (CHR ''0'') @ s)"

subsection \<open>ParseString\<close>

function parse_string_loop :: "char \<Rightarrow> string \<Rightarrow> string list" where
  "parse_string_loop c s =
     (case dropWhile (\<lambda>x. x \<noteq> c) s of
        [] \<Rightarrow> [s]
      | _ # rest \<Rightarrow> takeWhile (\<lambda>x. x \<noteq> c) s # parse_string_loop c rest)"
  by pat_completeness auto
termination
  by (relation "measure (\<lambda>(c, s). length s)") (auto dest: dropWhile_Cons_length)

declare parse_string_loop.simps [simp del]

definition ParseString :: "string \<Rightarrow> char \<Rightarrow> string list \<Rightarrow> string list" where
  "ParseString str c v = (if str = [] then v else v @ parse_string_loop c str)"

subsection \<open>Money\<close>

text \<open>The loop counts the zeros to erase, reading the string from its end: \<open>str[i]\<close> is the
  head of the reversed string and \<open>str[i-2]\<close> its third element.\<close>

fun trim_zeros :: "string \<Rightarrow> nat" where
  "trim_zeros (c0 # c1 # c2 # rest) =
     (if c0 = CHR ''0'' \<and> isdigit c2 then Suc (trim_zeros (c1 # c2 # rest)) else 0)"
| "trim_zeros _ = 0"

definition FormatMoney :: "int64 \<Rightarrow> int64 \<Rightarrow> bool \<Rightarrow> string" where
  "FormatMoney COIN n fPlus =
     (let n_abs = (if n > 0 then n else - n);
          quotient = n_abs div COIN;
          remainder = n_abs mod COIN;
          str = fmt_d quotient @ ''.'' @ fmt_08d remainder;
          nTrim = trim_zeros (rev str);
          str = take (length str - nTrim) str
      in if n < 0 then CHR ''-'' # str
         else if fPlus \<and> n > 0 then CHR ''+'' # str else str)"

fun money_units :: "int64 \<Rightarrow> int64 \<Rightarrow> string \<Rightarrow> int64 \<times> string" where
  "money_units nMult nUnits [] = (nUnits, [])"
| "money_units nMult nUnits (c # p) =
     (if isdigit c \<and> nMult > 0
      then money_units (trunc_div nMult 10) (nUnits + nMult * (of_char c - 48)) p
      else (nUnits, c # p))"

text \<open>The first loop: \<open>strWhole\<close>, \<open>nUnits\<close> and the rest of the input, or \<^term>\<open>None\<close> for the
  early \<open>return false\<close>.\<close>

fun money_whole :: "int64 \<Rightarrow> string \<Rightarrow> string \<Rightarrow> (string \<times> int64 \<times> string) option" where
  "money_whole CENT strWhole [] = Some (strWhole, 0, [])"
| "money_whole CENT strWhole (c # p) =
     (if c = CHR ''.'' then
        (case money_units (CENT * 10) 0 p of (nUnits, rest) \<Rightarrow> Some (strWhole, nUnits, rest))
      else if isspace c then Some (strWhole, 0, c # p)
      else if \<not> isdigit c then None
      else money_whole CENT (strWhole @ [c]) p)"

definition ParseMoney :: "int64 \<Rightarrow> int64 \<Rightarrow> (string \<Rightarrow> int64) \<Rightarrow> string \<Rightarrow> int64 option" where
  "ParseMoney COIN CENT atoi64 pszIn =
     (case money_whole CENT [] (dropWhile isspace pszIn) of
        None \<Rightarrow> None
      | Some (strWhole, nUnits, rest) \<Rightarrow>
          if \<exists>c\<in>set rest. \<not> isspace c then None
          else if length strWhole > 10 then None
          else if nUnits < 0 \<or> nUnits > COIN then None
          else Some (atoi64 strWhole * COIN + nUnits))"

subsection \<open>WildcardMatch\<close>

fun WildcardMatch :: "string \<Rightarrow> string \<Rightarrow> bool" where
  "WildcardMatch psz [] = (psz = [])"
| "WildcardMatch psz (m # msk) =
     (if m = CHR ''*'' then
        WildcardMatch psz msk \<or>
        (case psz of [] \<Rightarrow> False | _ # psz' \<Rightarrow> WildcardMatch psz' (m # msk))
      else if m = CHR ''?'' then
        (case psz of [] \<Rightarrow> False | _ # psz' \<Rightarrow> WildcardMatch psz' msk)
      else
        (case psz of [] \<Rightarrow> False | c # psz' \<Rightarrow> c = m \<and> WildcardMatch psz' msk))"

declare WildcardMatch.simps [simp del]

subsection \<open>Random numbers\<close>

fun draw_below :: "uint64 \<Rightarrow> uint64 list \<Rightarrow> (uint64 \<times> uint64 list) option" where
  "draw_below nRange [] = None"
| "draw_below nRange (nRand # draws) =
     (if nRand \<ge> nRange then draw_below nRange draws else Some (nRand, draws))"

definition GetRand :: "uint64 \<Rightarrow> uint64 list \<Rightarrow> (uint64 \<times> uint64 list) option" where
  "GetRand nMax draws =
     (if nMax = 0 then Some (0, draws)
      else map_option (\<lambda>(nRand, rest). (nRand mod nMax, rest))
             (draw_below (((- 1) div nMax) * nMax) draws))"

text \<open>\<open>GetRandInt\<close> converts its argument to \<open>uint64\<close> and the result back to \<open>int\<close>.\<close>

definition GetRandInt :: "int32 \<Rightarrow> uint64 list \<Rightarrow> (int32 \<times> uint64 list) option" where
  "GetRandInt nMax draws =
     map_option (\<lambda>(r, rest). (signed_take_bit 31 (uint r), rest)) (GetRand (word_of_int nMax) draws)"

text \<open>\<open>seed_insecure_rand\<close>: each register takes the first draw that is neither zero nor its fixed
  point.\<close>

fun draw_seed :: "uint32 \<Rightarrow> uint32 list \<Rightarrow> (uint32 \<times> uint32 list) option" where
  "draw_seed fixpoint [] = None"
| "draw_seed fixpoint (tmp # draws) =
     (if tmp = 0 \<or> tmp = fixpoint then draw_seed fixpoint draws else Some (tmp, draws))"

definition seed_insecure_rand ::
  "bool \<Rightarrow> uint32 list \<Rightarrow> (uint32 \<times> uint32 \<times> uint32 list) option" where
  "seed_insecure_rand fDeterministic draws =
     (if fDeterministic then Some (11, 11, draws)
      else case draw_seed 0x9068ffff draws of
        None \<Rightarrow> None
      | Some (rz, draws1) \<Rightarrow>
          (case draw_seed 0x464fffff draws1 of
             None \<Rightarrow> None
           | Some (rw, draws2) \<Rightarrow> Some (rz, rw, draws2)))"

subsection \<open>Version strings\<close>

definition trunc_mod :: "int \<Rightarrow> int \<Rightarrow> int" where
  "trunc_mod a b = a - trunc_div a b * b"

definition FormatVersion :: "int32 \<Rightarrow> string" where
  "FormatVersion nVersion =
     (let abc = fmt_d (trunc_div nVersion 1000000) @ ''.'' @
                fmt_d (trunc_mod (trunc_div nVersion 10000) 100) @ ''.'' @
                fmt_d (trunc_mod (trunc_div nVersion 100) 100)
      in if trunc_mod nVersion 100 = 0 then abc
         else abc @ ''.'' @ fmt_d (trunc_mod nVersion 100))"

fun join :: "string list \<Rightarrow> string \<Rightarrow> string" where
  "join [] sep = []"
| "join [s] sep = s"
| "join (s # ss) sep = s @ sep @ join ss sep"

definition FormatSubVersion :: "string \<Rightarrow> int32 \<Rightarrow> string list \<Rightarrow> string" where
  "FormatSubVersion name nClientVersion comments =
     ''/'' @ name @ '':'' @ FormatVersion nClientVersion @
     (if comments \<noteq> [] then ''('' @ join comments ''; '' @ '')'' else []) @ ''/''"

subsection \<open>Splitting\<close>

lemma parse_string_loop_sound:
  "join (parse_string_loop c s) [c] = s \<and>
   (\<forall>p\<in>set (parse_string_loop c s). c \<notin> set p) \<and> parse_string_loop c s \<noteq> []"
proof (induction c s rule: parse_string_loop.induct)
  case (1 c s)
  show ?case
  proof (cases "dropWhile (\<lambda>x. x \<noteq> c) s")
    case Nil
    have "parse_string_loop c s = [s]" by (subst parse_string_loop.simps) (simp only: Nil list.case)
    moreover have "c \<notin> set s" using Nil by (auto simp: dropWhile_eq_Nil_conv)
    ultimately show ?thesis by simp
  next
    case (Cons d rest)
    then have "d = c" using hd_dropWhile [of "\<lambda>x. x \<noteq> c" s] by simp
    have s: "s = takeWhile (\<lambda>x. x \<noteq> c) s @ c # rest"
      using takeWhile_dropWhile_id [of "\<lambda>x. x \<noteq> c" s] Cons \<open>d = c\<close> by simp
    obtain p ps where "parse_string_loop c rest = p # ps"
      using "1.IH" [OF Cons] by (cases "parse_string_loop c rest") auto
    then show ?thesis
      using "1.IH" [OF Cons] s Cons by (auto simp: parse_string_loop.simps [of c s] dest: set_takeWhileD)
  qed
qed

subsection \<open>Wildcards\<close>

text \<open>What a mask means: \<open>*\<close> stands for any string, \<open>?\<close> for one character, every other
  character for itself.\<close>

inductive wild :: "string \<Rightarrow> string \<Rightarrow> bool" where
  wild_end: "wild [] []"
| wild_star: "wild s msk \<Longrightarrow> wild (t @ s) (CHR ''*'' # msk)"
| wild_any: "wild s msk \<Longrightarrow> wild (c # s) (CHR ''?'' # msk)"
| wild_char: "c \<noteq> CHR ''*'' \<Longrightarrow> c \<noteq> CHR ''?'' \<Longrightarrow> wild s msk \<Longrightarrow> wild (c # s) (c # msk)"

inductive_simps wild_Nil: "wild s []"
inductive_cases wild_starE: "wild s (CHR ''*'' # msk)"
inductive_cases wild_ConsE: "wild s (m # msk)"

lemma wild_star_iff:
  "wild s (CHR ''*'' # msk) \<longleftrightarrow>
     wild s msk \<or> (\<exists>c s'. s = c # s' \<and> wild s' (CHR ''*'' # msk))"
proof
  assume "wild s (CHR ''*'' # msk)"
  then obtain t s1 where s: "s = t @ s1" "wild s1 msk" by (auto elim: wild_starE)
  show "wild s msk \<or> (\<exists>c s'. s = c # s' \<and> wild s' (CHR ''*'' # msk))"
    using s by (cases t) (auto intro: wild_star)
next
  assume "wild s msk \<or> (\<exists>c s'. s = c # s' \<and> wild s' (CHR ''*'' # msk))"
  then show "wild s (CHR ''*'' # msk)"
  proof
    assume "wild s msk"
    from wild_star [OF this, of "[]"] show ?thesis by simp
  next
    assume "\<exists>c s'. s = c # s' \<and> wild s' (CHR ''*'' # msk)"
    then obtain c t s1 where "s = (c # t) @ s1" "wild s1 msk" by (auto elim!: wild_starE)
    then show ?thesis by (metis wild_star)
  qed
qed

lemma wild_any_iff: "wild s (CHR ''?'' # msk) \<longleftrightarrow> (\<exists>c s'. s = c # s' \<and> wild s' msk)"
  by (auto elim: wild_ConsE intro: wild_any)

lemma wild_char_iff:
  "m \<noteq> CHR ''*'' \<Longrightarrow> m \<noteq> CHR ''?'' \<Longrightarrow>
     wild s (m # msk) \<longleftrightarrow> (\<exists>s'. s = m # s' \<and> wild s' msk)"
  by (auto elim: wild_ConsE intro: wild_char)

lemma WildcardMatch_wild: "WildcardMatch s msk = wild s msk"
proof (induction s msk rule: WildcardMatch.induct)
  case (1 psz)
  show ?case by (simp add: WildcardMatch.simps wild_Nil)
next
  case (2 psz m msk)
  show ?case
  proof (cases "m = CHR ''*''")
    case True
    with 2 show ?thesis
      by (subst WildcardMatch.simps) (auto simp: wild_star_iff [of psz] split: list.splits)
  next
    case False
    with 2 show ?thesis
      by (cases "m = CHR ''?''")
        (auto simp: WildcardMatch.simps wild_any_iff wild_char_iff split: list.splits)
  qed
qed

subsection \<open>Decimal digits\<close>

primrec dec_val :: "string \<Rightarrow> int" where
  "dec_val [] = 0"
| "dec_val (c # s) = (of_char c - 48) * 10 ^ length s + dec_val s"

lemma dec_val_append: "dec_val (s @ t) = dec_val s * 10 ^ length t + dec_val t"
  by (induction s) (simp_all add: algebra_simps power_add)

lemma dec_val_zeros [simp]: "dec_val (replicate k (CHR ''0'')) = 0"
  by (induction k) (simp_all add: of_char_def)

lemma of_char_digit:
  assumes "d < 10"
  shows "of_char (digit_char d) = 48 + int d" "isdigit (digit_char d)"
proof -
  have n: "of_char (digit_char d) = (48 + d :: nat)"
    using assms by (simp add: digit_char_def)
  then show "of_char (digit_char d) = 48 + int d"
    by (metis of_nat_add of_nat_numeral of_nat_of_char)
  show "isdigit (digit_char d)" using n assms by (simp add: isdigit_def)
qed

lemma dec_string_props:
  "dec_val (dec_string n) = int n \<and> (\<forall>c\<in>set (dec_string n). isdigit c) \<and> dec_string n \<noteq> []"
proof (induction n rule: dec_string.induct)
  case (1 n)
  have m: "n mod 10 < 10" by simp
  show ?case
  proof (cases "n < 10")
    case True
    then show ?thesis by (simp add: dec_string.simps [of n] of_char_digit)
  next
    case False
    then show ?thesis
      using "1.IH" of_char_digit [OF m]
      by (simp add: dec_string.simps [of n] dec_val_append zdiv_int zmod_int)
  qed
qed

lemma length_dec_string: "n < 10 ^ Suc k \<Longrightarrow> length (dec_string n) \<le> Suc k"
proof (induction k arbitrary: n)
  case 0
  then show ?case by (simp add: dec_string.simps [of n])
next
  case (Suc k)
  have "n div 10 < 10 ^ Suc k" using Suc.prems by (simp add: less_mult_imp_div_less mult.commute)
  with Suc.IH [of "n div 10"] show ?case by (simp add: dec_string.simps [of n])
qed

lemma isdigit_facts:
  assumes "isdigit c"
  shows "\<not> isspace c" "c \<noteq> CHR ''.''" "c \<noteq> CHR ''-''" "0 \<le> of_char c - (48 :: int)"
    "of_char c - (48 :: int) \<le> 9"
proof -
  have "int (of_char c) = of_char c" by (rule of_nat_of_char)
  then show "0 \<le> of_char c - (48 :: int)" "of_char c - (48 :: int) \<le> 9"
    using assms by (auto simp: isdigit_def)
qed (use assms in \<open>auto simp: isdigit_def isspace_def\<close>)

lemma fmt_08d_props:
  assumes "0 \<le> r" "r < 10 ^ 8"
  shows "length (fmt_08d r) = 8" "dec_val (fmt_08d r) = r" "\<forall>c\<in>set (fmt_08d r). isdigit c"
proof -
  have "length (dec_string (nat r)) \<le> 8" using length_dec_string [of "nat r" 7] assms by simp
  then show "length (fmt_08d r) = 8" using assms by (simp add: fmt_08d_def fmt_d_def Let_def)
  show "dec_val (fmt_08d r) = r"
    using assms dec_string_props [of "nat r"] by (simp add: fmt_08d_def fmt_d_def Let_def dec_val_append)
  show "\<forall>c\<in>set (fmt_08d r). isdigit c"
    using assms dec_string_props [of "nat r"] by (auto simp: fmt_08d_def fmt_d_def Let_def isdigit_def)
qed

subsection \<open>Money round trip\<close>

lemma trim_zeros_bound:
  "trim_zeros (xs @ CHR ''.'' # rest) \<le> length xs \<and>
   take (trim_zeros (xs @ CHR ''.'' # rest)) xs =
     replicate (trim_zeros (xs @ CHR ''.'' # rest)) (CHR ''0'')"
proof (induction xs)
  case Nil
  show ?case by (cases rest; cases "tl rest") auto
next
  case (Cons c xs)
  show ?case
  proof (cases "xs @ CHR ''.'' # rest")
    case (Cons c1 ys)
    with Cons.IH show ?thesis by (cases ys) auto
  qed simp
qed

lemma trim_zeros_split:
  fixes A F
  defines "str \<equiv> A @ CHR ''.'' # F"
  shows "\<exists>F' k. F = F' @ replicate k (CHR ''0'') \<and>
    take (length str - trim_zeros (rev str)) str = A @ CHR ''.'' # F'"
proof -
  define k where "k = trim_zeros (rev F @ CHR ''.'' # rev A)"
  have k: "k \<le> length F" "take k (rev F) = replicate k (CHR ''0'')"
    using trim_zeros_bound [of "rev F" "rev A"] by (simp_all add: k_def)
  have "rev (take k (rev F)) = drop (length F - k) F" by (simp add: take_rev)
  then have "F = take (length F - k) F @ replicate k (CHR ''0'')"
    using k(2) by (metis append_take_drop_id rev_replicate)
  moreover have "trim_zeros (rev str) = k" by (simp add: str_def k_def)
  then have "take (length str - trim_zeros (rev str)) str =
      A @ CHR ''.'' # take (length F - k) F"
    using k(1) by (simp add: str_def Suc_diff_le)
  ultimately show ?thesis by blast
qed

lemma money_units_digits:
  "\<lbrakk> \<forall>c\<in>set F. isdigit c; length F \<le> Suc k \<rbrakk> \<Longrightarrow>
     money_units (10 ^ k) u F = (u + dec_val F * 10 ^ (Suc k - length F), [])"
proof (induction F arbitrary: k u)
  case (Cons c F)
  show ?case
  proof (cases k)
    case 0
    with Cons.prems show ?thesis by simp
  next
    case (Suc k')
    have "trunc_div (10 ^ k) 10 = 10 ^ k'" by (simp add: Suc trunc_div_nonneg)
    moreover have "money_units (10 ^ k') (u + 10 ^ k * (of_char c - 48)) F =
        (u + 10 ^ k * (of_char c - 48) + dec_val F * 10 ^ (Suc k' - length F), [])"
      using Cons.prems Suc by (intro Cons.IH) auto
    moreover have "(10 :: int) ^ k = 10 ^ length F * 10 ^ (k - length F)"
      using Cons.prems(2) by (simp flip: power_add)
    moreover have "(of_char c - 48) * (10 ^ length F * 10 ^ (k - length F)) +
        dec_val F * 10 ^ (k - length F) = dec_val (c # F) * 10 ^ (k - length F)"
      by (simp add: algebra_simps)
    ultimately show ?thesis
      using Cons.prems Suc by (simp add: mult.commute add.assoc)
  qed
qed simp

lemma money_whole_digits:
  "\<forall>c\<in>set q. isdigit c \<Longrightarrow>
     money_whole CENT w (q @ CHR ''.'' # F) =
       (case money_units (CENT * 10) 0 F of (nUnits, rest) \<Rightarrow> Some (w @ q, nUnits, rest))"
proof (induction q arbitrary: w)
  case (Cons c q)
  then show ?case using isdigit_facts [of c] by simp
qed simp

lemma ParseMoney_FormatMoney:
  assumes atoi64: "\<And>s. \<lbrakk> s \<noteq> []; length s \<le> 10; \<forall>c\<in>set s. isdigit c \<rbrakk> \<Longrightarrow> atoi64 s = dec_val s"
    and "0 \<le> n" "n < 10 ^ 18"
  shows "ParseMoney (10 ^ 8) (10 ^ 6) atoi64 (FormatMoney (10 ^ 8) n False) = Some n"
proof -
  let ?q = "dec_string (nat (n div 10 ^ 8))" and ?F = "fmt_08d (n mod 10 ^ 8)"
  have F: "length ?F = 8" "dec_val ?F = n mod 10 ^ 8" "\<forall>c\<in>set ?F. isdigit c"
    using fmt_08d_props [of "n mod 10 ^ 8"] by simp_all
  have "nat (n div 10 ^ 8) < 10 ^ Suc 9" using assms(2,3) by simp
  then have q: "length ?q \<le> 10" "dec_val ?q = n div 10 ^ 8" "\<forall>c\<in>set ?q. isdigit c" "?q \<noteq> []"
    using length_dec_string [of "nat (n div 10 ^ 8)" 9] dec_string_props [of "nat (n div 10 ^ 8)"] assms(2)
    by auto
  have abs: "(if n > 0 then n else - n) = n" "\<not> n < 0" using assms(2) by auto
  have "fmt_d (n div 10 ^ 8) = ?q" using assms(2) by (simp add: fmt_d_def pos_imp_zdiv_neg_iff)
  then have fmt: "FormatMoney (10 ^ 8) n False =
      (let str = ?q @ CHR ''.'' # ?F in take (length str - trim_zeros (rev str)) str)"
    unfolding FormatMoney_def Let_def abs by (simp only: abs if_False simp_thms append_Cons append_Nil)
  obtain F' k where F': "?F = F' @ replicate k (CHR ''0'')"
    and str: "FormatMoney (10 ^ 8) n False = ?q @ CHR ''.'' # F'"
    using trim_zeros_split [of ?F ?q] unfolding fmt Let_def by blast
  have len: "length F' + k = 8" using F(1) F' by (metis length_append length_replicate)
  have "dec_val F' * 10 ^ k = n mod 10 ^ 8"
    using F(2) unfolding F' dec_val_append by simp
  moreover have "Suc 7 - length F' = k" using len by simp
  moreover have "money_units (10 ^ 7) 0 F' = (0 + dec_val F' * 10 ^ (Suc 7 - length F'), [])"
    using F(3) len unfolding F' by (intro money_units_digits) auto
  ultimately have units: "money_units (10 ^ 6 * 10) 0 F' = (n mod 10 ^ 8, [])" by simp
  have "dropWhile isspace (?q @ CHR ''.'' # F') = ?q @ CHR ''.'' # F'"
    using q(3,4) isdigit_facts(1) by (cases ?q) auto
  then have "money_whole (10 ^ 6) [] (dropWhile isspace (?q @ CHR ''.'' # F')) =
      Some (?q, n mod 10 ^ 8, [])"
    using money_whole_digits [OF q(3), of "10 ^ 6" "[]" F'] units by simp
  moreover have "n mod 10 ^ 8 \<le> 10 ^ 8" "\<not> n mod 10 ^ 8 < 0" by (simp_all add: order_less_imp_le not_less)
  ultimately show ?thesis
    using q atoi64 [of ?q] unfolding str ParseMoney_def by simp
qed

lemma ParseMoney_negative:
  assumes "n < 0"
  shows "ParseMoney COIN CENT atoi64 (FormatMoney COIN n fPlus) = None"
  using assms by (simp add: ParseMoney_def FormatMoney_def Let_def isspace_def isdigit_def)

subsection \<open>Rejection sampling\<close>

lemma rand_range_less: "(2 ^ 64 - 1) div m * m < (2 ^ 64 :: nat)"
  by (rule le_less_trans [OF div_times_less_eq_dividend]) simp

lemma GetRand_single:
  assumes "nMax \<noteq> 0"
  shows "GetRand nMax [r] = Some (v, []) \<longleftrightarrow>
    unat r < (2 ^ 64 - 1) div unat nMax * unat nMax \<and> unat r mod unat nMax = unat v"
proof -
  have pos: "0 < unat nMax" using assms by (simp add: unat_gt_0)
  have m1: "unat (- 1 :: uint64) = 2 ^ 64 - 1" by (simp add: unsigned_minus_1_eq_mask mask_eq_exp_minus_1)
  have "unat ((- 1) div nMax * nMax) = (2 ^ 64 - 1) div unat nMax * unat nMax"
    using rand_range_less [of "unat nMax"] by (subst unat_mult_lem [THEN iffD1]) (simp_all add: unat_div m1)
  then show ?thesis
    using assms by (auto simp: GetRand_def word_less_nat_alt word_le_nat_alt unat_mod word_unat_eq_iff)
qed

lemma residue_card:
  fixes q m v :: nat
  assumes "v < m"
  shows "card {x. x < q * m \<and> x mod m = v} = q"
proof -
  have "{x. x < q * m \<and> x mod m = v} = (\<lambda>k. k * m + v) ` {..<q}"
  proof (intro set_eqI iffI)
    fix x assume "x \<in> {x. x < q * m \<and> x mod m = v}"
    then have "x = (x div m) * m + v" "x div m < q"
      by (auto simp: less_mult_imp_div_less)
    then show "x \<in> (\<lambda>k. k * m + v) ` {..<q}" by blast
  next
    fix x assume "x \<in> (\<lambda>k. k * m + v) ` {..<q}"
    then obtain k where "k < q" "x = k * m + v" by auto
    moreover have "(k + 1) * m \<le> q * m" using \<open>k < q\<close> by (intro mult_le_mono1) simp
    ultimately show "x \<in> {x. x < q * m \<and> x mod m = v}" using assms by auto
  qed
  moreover have "inj_on (\<lambda>k. k * m + v) {..<q}" using assms by (auto simp: inj_on_def)
  ultimately show ?thesis by (simp add: card_image)
qed

subsection \<open>Properties\<close>

text \<open>\<open>ParseMoney\<close> reads back what \<open>FormatMoney\<close> writes for every amount below ten digits of
  whole coins, and rejects the text of a negative amount.  \<open>COIN\<close> and \<open>CENT\<close> have their
  documented values and \<open>atoi64\<close> reads decimal digits.\<close>

theorem Money_roundtrip:
  assumes "COIN = 10 ^ 8" "CENT = 10 ^ 6"
    and "\<And>s. \<lbrakk> s \<noteq> []; length s \<le> 10; \<forall>c\<in>set s. isdigit c \<rbrakk> \<Longrightarrow> atoi64 s = dec_val s"
    and "\<bar>n\<bar> < 10 ^ 18"
  shows "ParseMoney COIN CENT atoi64 (FormatMoney COIN n False) = (if n < 0 then None else Some n)"
  using ParseMoney_FormatMoney [of atoi64 n] ParseMoney_negative [of n COIN CENT atoi64 False] assms
  by auto

theorem Money_roundtrip_witness:
  "ParseMoney (10 ^ 8) (10 ^ 6) dec_val (FormatMoney (10 ^ 8) 123450000 False) = Some 123450000"
  using Money_roundtrip [of "10 ^ 8" "10 ^ 6" dec_val 123450000] by simp

text \<open>C21. \<open>WildcardMatch\<close>, a backtracking loop over two pointers, decides exactly the
  declarative meaning of the mask.\<close>

theorem WildcardMatch_iff: "WildcardMatch psz msk \<longleftrightarrow> wild psz msk"
  by (rule WildcardMatch_wild)

text \<open>\<open>GetRand\<close> is uniform: every value below \<open>nMax\<close> is the result of the same number of
  accepted 64-bit draws, namely \<open>(2^64 - 1) / nMax\<close>, and no other value is a result.\<close>

theorem GetRand_uniform:
  assumes "nMax \<noteq> 0"
  shows "card {r :: uint64. GetRand nMax [r] = Some (v, [])} =
    (if v < nMax then (2 ^ 64 - 1) div unat nMax else 0)"
proof -
  let ?S = "{x. x < (2 ^ 64 - 1) div unat nMax * unat nMax \<and> x mod unat nMax = unat v}"
  have pos: "0 < unat nMax" using assms by (simp add: unat_gt_0)
  have "{r :: uint64. GetRand nMax [r] = Some (v, [])} = {r. unat r \<in> ?S}"
    using GetRand_single [OF assms] by simp
  moreover have "unat ` {r :: uint64. unat r \<in> ?S} = ?S"
  proof
    show "?S \<subseteq> unat ` {r :: uint64. unat r \<in> ?S}"
    proof
      fix x assume x: "x \<in> ?S"
      then have "x < 2 ^ 64"
        using less_trans [OF _ rand_range_less [of "unat nMax"]] by blast
      then have u: "unat (word_of_nat x :: uint64) = x" by (simp add: unat_of_nat)
      show "x \<in> unat ` {r :: uint64. unat r \<in> ?S}"
        by (rule image_eqI [of _ _ "word_of_nat x"]) (simp only: u, simp only: u mem_Collect_eq [of _ "\<lambda>r. unat r \<in> _"] x)
    qed
  qed auto
  moreover have "card (unat ` {r :: uint64. unat r \<in> ?S}) = card {r :: uint64. unat r \<in> ?S}"
    by (intro card_image) (auto simp: inj_on_def word_unat_eq_iff)
  moreover have "?S = {}" if "\<not> v < nMax" by (metis (mono_tags, lifting) Collect_empty_eq mod_less_divisor pos that word_less_nat_alt)
  ultimately show ?thesis
    using residue_card [of "unat v" "unat nMax" "(2 ^ 64 - 1) div unat nMax"]
    by (auto simp: word_less_nat_alt)
qed

theorem GetRand_uniform_witness:
  "card {r :: uint64. GetRand 6 [r] = Some (5, [])} = (2 ^ 64 - 1) div 6"
  using GetRand_uniform [of 6 5] by simp

text \<open>\<open>ParseString\<close> appends the fields of the input: joined by the separator they give the
  input back, and none of them holds the separator.\<close>

theorem ParseString_correct:
  "str \<noteq> [] \<Longrightarrow> \<exists>fs. ParseString str c v = v @ fs \<and> join fs [c] = str \<and>
     (\<forall>p\<in>set fs. c \<notin> set p)"
  using parse_string_loop_sound [of c str] by (auto simp: ParseString_def)

theorem ParseString_correct_witness:
  "\<exists>fs. ParseString ''a,,b'' (CHR '','') [''x''] = [''x''] @ fs \<and> join fs '','' = ''a,,b'' \<and>
     (\<forall>p\<in>set fs. CHR '','' \<notin> set p)"
  by (rule ParseString_correct) simp

end
