(* ===== verification/Hashing.thy ===== *)
theory Hashing
  imports Prelude
begin

text \<open>
  \<open>hash.h\<close> and \<open>hash.cpp\<close>.  SHA-256 and RIPEMD-160 are OpenSSL's: the streaming interface is
  the record \<open>sha_ops\<close>, the one-shot functions are arguments, and \<open>sha_ok\<close> is the documented
  contract between them.  MurmurHash3 is written out on 32-bit words; the cast of the byte
  pointer to \<open>uint32_t*\<close> reads four bytes, the least significant first.
\<close>

subsection \<open>Memory images of integers\<close>

text \<open>The bytes of an integer as they lie in memory, and back.\<close>

definition le_bytes :: "nat \<Rightarrow> 'a::len word \<Rightarrow> bytes" where
  "le_bytes n w = map (\<lambda>i. ucast (drop_bit (8 * i) w)) [0..<n]"

fun le_word :: "bytes \<Rightarrow> 'a::len word" where
  "le_word [] = 0"
| "le_word (b # bs) = ucast b OR push_bit 8 (le_word bs)"

subsection \<open>SHA-256\<close>

record 'c sha_ops =
  SHA256_Init :: 'c
  SHA256_Update :: "'c \<Rightarrow> bytes \<Rightarrow> 'c"
  SHA256_Final :: "'c \<Rightarrow> bytes"
  SHA256 :: "bytes \<Rightarrow> bytes"
  RIPEMD160 :: "bytes \<Rightarrow> bytes"

text \<open>Feeding a message in pieces gives the digest of the whole message.\<close>

definition sha_ok :: "'c sha_ops \<Rightarrow> bool" where
  "sha_ok S \<longleftrightarrow>
     (\<forall>ps. SHA256_Final S (foldl (SHA256_Update S) (SHA256_Init S) ps) = SHA256 S (concat ps))"

definition Hash :: "'c sha_ops \<Rightarrow> bytes \<Rightarrow> uint256" where
  "Hash S p = (let hash1 = SHA256 S p in le_word (SHA256 S hash1))"

definition Hash2 :: "'c sha_ops \<Rightarrow> bytes \<Rightarrow> bytes \<Rightarrow> uint256" where
  "Hash2 S p1 p2 =
     (let ctx = SHA256_Init S;
          ctx = SHA256_Update S ctx p1;
          ctx = SHA256_Update S ctx p2;
          hash1 = SHA256_Final S ctx
      in le_word (SHA256 S hash1))"

definition Hash3 :: "'c sha_ops \<Rightarrow> bytes \<Rightarrow> bytes \<Rightarrow> bytes \<Rightarrow> uint256" where
  "Hash3 S p1 p2 p3 =
     (let ctx = SHA256_Init S;
          ctx = SHA256_Update S ctx p1;
          ctx = SHA256_Update S ctx p2;
          ctx = SHA256_Update S ctx p3;
          hash1 = SHA256_Final S ctx
      in le_word (SHA256 S hash1))"

definition Hash160 :: "'c sha_ops \<Rightarrow> bytes \<Rightarrow> 160 word" where
  "Hash160 S p = (let hash1 = SHA256 S p in le_word (RIPEMD160 S hash1))"

record 'c CHashWriter =
  hw_ctx :: 'c
  hw_nType :: int32
  hw_nVersion :: int32

definition CHashWriter_make :: "'c sha_ops \<Rightarrow> int32 \<Rightarrow> int32 \<Rightarrow> 'c CHashWriter" where
  "CHashWriter_make S nTypeIn nVersionIn =
     \<lparr> hw_ctx = SHA256_Init S, hw_nType = nTypeIn, hw_nVersion = nVersionIn \<rparr>"

definition CHashWriter_write :: "'c sha_ops \<Rightarrow> bytes \<Rightarrow> 'c CHashWriter \<Rightarrow> 'c CHashWriter" where
  "CHashWriter_write S pch w = w\<lparr> hw_ctx := SHA256_Update S (hw_ctx w) pch \<rparr>"

definition CHashWriter_GetHash :: "'c sha_ops \<Rightarrow> 'c CHashWriter \<Rightarrow> uint256" where
  "CHashWriter_GetHash S w =
     (let hash1 = SHA256_Final S (hw_ctx w) in le_word (SHA256 S hash1))"

text \<open>\<open>SerializeHash\<close>: \<open>Serialize\<close> calls \<open>write\<close> on the stream, once per piece it emits.\<close>

definition SerializeHash ::
  "'c sha_ops \<Rightarrow> ('o \<Rightarrow> int32 \<Rightarrow> int32 \<Rightarrow> bytes list) \<Rightarrow> 'o \<Rightarrow> int32 \<Rightarrow> int32 \<Rightarrow> uint256" where
  "SerializeHash S Serialize obj nType nVersion =
     (let ss = CHashWriter_make S nType nVersion;
          ss = foldl (\<lambda>w p. CHashWriter_write S p w) ss (Serialize obj nType nVersion)
      in CHashWriter_GetHash S ss)"

subsection \<open>MurmurHash3\<close>

definition ROTL32 :: "uint32 \<Rightarrow> nat \<Rightarrow> uint32" where
  "ROTL32 x r = push_bit r x OR drop_bit (32 - r) x"

definition murmur_c1 :: uint32 where "murmur_c1 = 0xcc9e2d51"
definition murmur_c2 :: uint32 where "murmur_c2 = 0x1b873593"

definition murmur_k1 :: "uint32 \<Rightarrow> uint32" where
  "murmur_k1 k1 = ROTL32 (k1 * murmur_c1) 15 * murmur_c2"

fun murmur_body :: "uint32 \<Rightarrow> bytes \<Rightarrow> uint32 \<times> bytes" where
  "murmur_body h1 (b0 # b1 # b2 # b3 # bs) =
     (let k1 = murmur_k1 (le_word [b0, b1, b2, b3]);
          h1 = ROTL32 (h1 XOR k1) 13
      in murmur_body (h1 * 5 + 0xe6546b64) bs)"
| "murmur_body h1 tail = (h1, tail)"

text \<open>The fall-through \<open>switch\<close> on the length of the tail.\<close>

definition murmur_tail :: "uint32 \<Rightarrow> bytes \<Rightarrow> uint32" where
  "murmur_tail h1 tail =
     (let k1 = 0 :: uint32;
          k1 = (if length tail = 3 then k1 XOR push_bit 16 (ucast (tail ! 2)) else k1);
          k1 = (if length tail \<in> {2, 3} then k1 XOR push_bit 8 (ucast (tail ! 1)) else k1)
      in if length tail \<in> {1, 2, 3} then h1 XOR murmur_k1 (k1 XOR ucast (tail ! 0)) else h1)"

definition murmur_final :: "uint32 \<Rightarrow> nat \<Rightarrow> uint32" where
  "murmur_final h1 sz =
     (let h1 = h1 XOR word_of_nat sz;
          h1 = h1 XOR drop_bit 16 h1;
          h1 = h1 * 0x85ebca6b;
          h1 = h1 XOR drop_bit 13 h1;
          h1 = h1 * 0xc2b2ae35
      in h1 XOR drop_bit 16 h1)"

definition MurmurHash3 :: "uint32 \<Rightarrow> bytes \<Rightarrow> uint32" where
  "MurmurHash3 nHashSeed vDataToHash =
     (case murmur_body nHashSeed vDataToHash of
        (h1, tail) \<Rightarrow> murmur_final (murmur_tail h1 tail) (length vDataToHash))"

subsection \<open>Facts\<close>

lemma length_le_bytes [simp]: "length (le_bytes n w) = n"
  by (simp add: le_bytes_def)

lemma le_bytes_Suc: "le_bytes (Suc n) w = ucast w # le_bytes n (drop_bit 8 w)"
  by (simp add: le_bytes_def upt_conv_Cons map_Suc_upt [symmetric] o_def add.commute del: upt_Suc)

lemma bit_le_word:
  "bit (le_word bs :: 'a::len word) i \<longleftrightarrow>
     i < LENGTH('a) \<and> i < 8 * length bs \<and> bit (bs ! (i div 8)) (i mod 8)"
proof (induction bs arbitrary: i)
  case (Cons b bs)
  show ?case
  proof (cases "i < 8")
    case True
    then show ?thesis by (auto simp: bit_simps)
  next
    case False
    then obtain j where j: "i = j + 8" by (metis add.commute le_Suc_ex not_less)
    then have "i div 8 = Suc (j div 8)" "i mod 8 = j mod 8" by simp_all
    then show ?thesis
      using Cons.IH [of j] False by (auto simp: bit_simps j not_bit_byte)
  qed
qed simp

lemma le_word_bytes: "LENGTH('a) \<le> 8 * n \<Longrightarrow> le_word (le_bytes n w) = (w :: 'a::len word)"
  by (rule bit_word_eqI)
    (auto simp: bit_le_word le_bytes_def bit_simps less_mult_imp_div_less mult.commute)

lemma hash_pieces: "sha_ok S \<Longrightarrow>
  SHA256_Final S (foldl (SHA256_Update S) (SHA256_Init S) ps) = SHA256 S (concat ps)"
  by (simp add: sha_ok_def)

lemma writer_ctx:
  "hw_ctx (foldl (\<lambda>w p. CHashWriter_write S p w) w ps) = foldl (SHA256_Update S) (hw_ctx w) ps"
  by (induction ps arbitrary: w) (simp_all add: CHashWriter_write_def)

lemma ROTL32_rotl: "0 < r \<Longrightarrow> r < 32 \<Longrightarrow> ROTL32 x r = word_rotl r x"
proof (rule bit_word_eqI)
  fix n assume r: "0 < r" "r < 32" and "n < LENGTH(32)"
  then have n: "n < 32" by simp
  have rot: "bit (word_rotl r x) n \<longleftrightarrow> bit x ((n + (32 - r)) mod 32)"
    using r n by (simp add: bit_word_rotl_iff)
  have rotl: "bit (ROTL32 x r) n \<longleftrightarrow> (r \<le> n \<and> bit x (n - r)) \<or> bit x (32 - r + n)"
    using n by (simp add: ROTL32_def bit_or_iff bit_push_bit_iff bit_drop_bit_eq)
  show "bit (ROTL32 x r) n \<longleftrightarrow> bit (word_rotl r x) n"
  proof (cases "r \<le> n")
    case True
    then have "n + (32 - r) = (n - r) + 32" using r by simp
    then have "(n + (32 - r)) mod 32 = n - r" using n by (simp only: mod_add_self2) simp
    moreover have "\<not> bit x (32 - r + n)"
      using True r bit_imp_le_length [of x "32 - r + n"] by auto
    ultimately show ?thesis using True by (simp only: rot rotl simp_thms)
  next
    case False
    then have "(n + (32 - r)) mod 32 = 32 - r + n" using r by (simp add: add.commute)
    then show ?thesis using False by (simp only: rot rotl simp_thms)
  qed
qed

lemma ROTL32_inj: "0 < r \<Longrightarrow> r < 32 \<Longrightarrow> ROTL32 x r = ROTL32 y r \<longleftrightarrow> x = y"
  by (metis ROTL32_rotl word_rot_lr)

lemma xor_shift_inj:
  fixes x y :: uint32
  assumes "0 < k" "x XOR drop_bit k x = y XOR drop_bit k y"
  shows "x = y"
proof (rule bit_word_eqI)
  fix n assume "n < LENGTH(32)"
  have "bit x (31 - m) = bit y (31 - m)" for m
  proof (induction m rule: less_induct)
    case (less m)
    have "bit x (31 - m) = (bit y (31 - m) \<noteq> (bit x (k + (31 - m)) \<noteq> bit y (k + (31 - m))))"
      using arg_cong [OF assms(2), of "\<lambda>w. bit w (31 - m)"] by (auto simp: bit_simps)
    moreover have "bit x (k + (31 - m)) = bit y (k + (31 - m))"
    proof (cases "k + (31 - m) < 32")
      case True
      then have "31 - (31 - (k + (31 - m))) = k + (31 - m)" "31 - (k + (31 - m)) < m"
        using assms(1) by auto
      then show ?thesis using less.IH by metis
    next
      case False
      then show ?thesis 
        using bit_imp_le_length [of x "k + (31 - m)"] bit_imp_le_length [of y "k + (31 - m)"] by auto
    qed
    ultimately show ?case by simp
  qed
  from this [of "31 - n"] show "bit x n = bit y n" using \<open>n < LENGTH(32)\<close> by simp
qed

lemma mult_odd_inj:
  fixes x y c d :: uint32
  assumes "c * d = 1" "x * c = y * c"
  shows "x = y"
proof -
  have "x * c * d = y * c * d" using assms(2) by simp
  then show ?thesis using assms(1) by (simp add: mult.assoc)
qed

lemma xor_twice: "((x :: uint32) XOR k) XOR k = x"
  by (rule bit_word_eqI) (auto simp: bit_simps)

lemma xor_cancel: "(x :: uint32) XOR k = y XOR k \<longleftrightarrow> x = y"
  by (metis xor_twice)

lemma murmur_final_inj:
  assumes "murmur_final x n = murmur_final y n"
  shows "x = y"
proof -
  have i1: "(0x85ebca6b :: uint32) * 2781581891 = 1" and i2: "(0xc2b2ae35 :: uint32) * 2127672349 = 1"
    by simp_all
  have "x XOR word_of_nat n = y XOR word_of_nat n"
    by (rule xor_shift_inj [of 16], simp, rule mult_odd_inj [OF i1], rule xor_shift_inj [of 13], simp,
        rule mult_odd_inj [OF i2], rule xor_shift_inj [of 16], simp,
        rule assms [unfolded murmur_final_def Let_def])
  then show ?thesis by (simp add: xor_cancel)
qed

lemma murmur_tail_inj: "murmur_tail x t = murmur_tail y t \<longleftrightarrow> x = y"
  by (auto simp: murmur_tail_def Let_def xor_cancel)

lemma murmur_body_inj:
  "snd (murmur_body x d) = snd (murmur_body y d) \<and>
   (fst (murmur_body x d) = fst (murmur_body y d) \<longleftrightarrow> x = y)"
proof (induction x d arbitrary: y rule: murmur_body.induct)
  case (1 h1 b0 b1 b2 b3 bs)
  let ?f = "\<lambda>h. ROTL32 (h XOR murmur_k1 (le_word [b0, b1, b2, b3])) 13 * 5 + 0xe6546b64"
  have i5: "(5 :: uint32) * 3435973837 = 1" by simp
  have r13: "ROTL32 u 13 = ROTL32 v 13 \<longleftrightarrow> u = v" for u v by (rule ROTL32_inj) simp_all
  have "u * 5 + 0xe6546b64 = v * 5 + 0xe6546b64 \<longleftrightarrow> u = v" for u v :: uint32
    using mult_odd_inj [OF i5, of u v] by auto
  then have "?f h1 = ?f y \<longleftrightarrow> h1 = y" by (simp only: r13 xor_cancel)
  then show ?case using "1.IH" [OF refl refl, of "?f y"] by (simp add: Let_def del: le_word.simps)
qed simp_all

subsection \<open>Properties\<close>

text \<open>For every message MurmurHash3 is injective in the seed, so the members of the hash
  family that the bloom filter derives from different seeds never agree before they are
  reduced modulo the filter size.\<close>

theorem MurmurHash3_seed_injective:
  "MurmurHash3 s1 vDataToHash = MurmurHash3 s2 vDataToHash \<longleftrightarrow> s1 = s2"
proof -
  obtain h1 t where 1: "murmur_body s1 vDataToHash = (h1, t)" by fastforce
  obtain h2 t2 where 2: "murmur_body s2 vDataToHash = (h2, t2)" by fastforce
  have "t2 = t" "h1 = h2 \<longleftrightarrow> s1 = s2"
    using murmur_body_inj [of s1 vDataToHash s2] 1 2 by auto
  then show ?thesis
    using murmur_final_inj [of "murmur_tail h1 t" _ "murmur_tail h2 t"] murmur_tail_inj [of h1 t h2] 1 2
    by (auto simp: MurmurHash3_def)
qed

text \<open>The streaming hashes agree with the one-shot hash: \<open>Hash\<close> of two or three ranges and a
  \<open>CHashWriter\<close> fed by a serialiser all hash the concatenation of their pieces.\<close>

theorem Hash_streaming:
  assumes "sha_ok S"
  shows "Hash2 S p1 p2 = Hash S (p1 @ p2) \<and> Hash3 S p1 p2 p3 = Hash S (p1 @ p2 @ p3) \<and>
    SerializeHash S ser obj ty v = Hash S (concat (ser obj ty v))"
  using hash_pieces [OF assms, of "[p1, p2]"] hash_pieces [OF assms, of "[p1, p2, p3]"]
    hash_pieces [OF assms, of "ser obj ty v"]
  by (simp add: Hash2_def Hash3_def Hash_def SerializeHash_def CHashWriter_GetHash_def
      CHashWriter_make_def writer_ctx Let_def)

definition demo_sha :: "bytes sha_ops" where
  "demo_sha = \<lparr> SHA256_Init = [], SHA256_Update = (@), SHA256_Final = rev, SHA256 = rev,
     RIPEMD160 = rev \<rparr>"

theorem Hash_streaming_witness:
  "sha_ok demo_sha \<and>
   Hash2 demo_sha [1] [2] = Hash demo_sha [1, 2] \<and> Hash3 demo_sha [1] [] [2] = Hash demo_sha [1, 2] \<and>
   SerializeHash demo_sha (\<lambda>(x :: byte) ty v. [[x], [x]]) 7 0 0 = Hash demo_sha [7, 7]"
proof -
  have "foldl (@) z ps = z @ concat ps" for z :: bytes and ps
    by (induction ps arbitrary: z) simp_all
  then have "sha_ok demo_sha" by (simp add: sha_ok_def demo_sha_def)
  then show ?thesis
    using Hash_streaming [of demo_sha "[1]" "[2]" "[]" "\<lambda>(x :: byte) ty v. [[x], [x]]" 7 0 0]
      Hash_streaming [of demo_sha "[1]" "[]" "[2]" "\<lambda>(x :: byte) ty v. [[x], [x]]" 7 0 0] by simp
qed

end
