(* ===== verification/Bloom.thy ===== *)
theory Bloom
  imports Core Hashing
begin

text \<open>
  The bloom filter of \<open>bloom.h\<close> and \<open>bloom.cpp\<close>.  \<open>CScript::GetOp\<close> and \<open>Solver\<close> belong to
  \<open>script.h\<close>, which the repository does not hold: they are fields of \<open>script_ops\<close>.  An
  operation that reduces a hash modulo the size of an empty filter divides by zero, which is
  the value \<^term>\<open>Inl DivByZero\<close>.
\<close>

subsection \<open>The filter\<close>

definition MAX_BLOOM_FILTER_SIZE :: nat where "MAX_BLOOM_FILTER_SIZE = 36000"
definition MAX_HASH_FUNCS :: uint32 where "MAX_HASH_FUNCS = 50"

definition BLOOM_UPDATE_NONE :: byte where "BLOOM_UPDATE_NONE = 0"
definition BLOOM_UPDATE_ALL :: byte where "BLOOM_UPDATE_ALL = 1"
definition BLOOM_UPDATE_P2PUBKEY_ONLY :: byte where "BLOOM_UPDATE_P2PUBKEY_ONLY = 2"
definition BLOOM_UPDATE_MASK :: byte where "BLOOM_UPDATE_MASK = 3"

record CBloomFilter =
  vData :: bytes
  nHashFuncs :: uint32
  nTweak :: uint32
  nFlags :: byte

definition bit_mask :: "byte list" where
  "bit_mask = [0x01, 0x02, 0x04, 0x08, 0x10, 0x20, 0x40, 0x80]"

text \<open>The constructor.  The two expressions in floating point, the ideal number of bits and the
  ideal number of hash functions for a given size in bytes, are arguments.\<close>

definition CBloomFilter_make ::
  "uint32 \<Rightarrow> (nat \<Rightarrow> uint32) \<Rightarrow> uint32 \<Rightarrow> byte \<Rightarrow> CBloomFilter" where
  "CBloomFilter_make idealBits idealFuncs nTweakIn nFlagsIn =
     (let sz = min (unat idealBits) (MAX_BLOOM_FILTER_SIZE * 8) div 8 in
      \<lparr> vData = replicate sz 0, nHashFuncs = min (idealFuncs sz) MAX_HASH_FUNCS,
        nTweak = nTweakIn, nFlags = nFlagsIn \<rparr>)"

definition Bloom_Hash :: "CBloomFilter \<Rightarrow> uint32 \<Rightarrow> bytes \<Rightarrow> nat res" where
  "Bloom_Hash f nHashNum vDataToHash =
     (if vData f = [] then Inl DivByZero
      else Inr (unat (MurmurHash3 (nHashNum * 0xFBA4C795 + nTweak f) vDataToHash)
                 mod (length (vData f) * 8)))"

definition Bloom_full :: "CBloomFilter \<Rightarrow> bool" where
  "Bloom_full f \<longleftrightarrow> length (vData f) = 1 \<and> vData f ! 0 = 0xff"

fun insert_loop :: "uint32 list \<Rightarrow> bytes \<Rightarrow> CBloomFilter \<Rightarrow> CBloomFilter res" where
  "insert_loop [] vKey f = Inr f"
| "insert_loop (i # is) vKey f =
     bind_res (Bloom_Hash f i vKey) (\<lambda>nIndex.
       let k = drop_bit 3 nIndex in
       insert_loop is vKey
         (f\<lparr> vData := (vData f)[k := vData f ! k OR bit_mask ! (7 AND nIndex)] \<rparr>))"

definition hash_nums :: "CBloomFilter \<Rightarrow> uint32 list" where
  "hash_nums f = map word_of_nat [0..<unat (nHashFuncs f)]"

definition insert_key :: "bytes \<Rightarrow> CBloomFilter \<Rightarrow> CBloomFilter res" where
  "insert_key vKey f =
     (if Bloom_full f then Inr f else insert_loop (hash_nums f) vKey f)"

fun contains_loop :: "uint32 list \<Rightarrow> bytes \<Rightarrow> CBloomFilter \<Rightarrow> bool res" where
  "contains_loop [] vKey f = Inr True"
| "contains_loop (i # is) vKey f =
     bind_res (Bloom_Hash f i vKey) (\<lambda>nIndex.
       if vData f ! drop_bit 3 nIndex AND bit_mask ! (7 AND nIndex) = 0 then Inr False
       else contains_loop is vKey f)"

definition contains_key :: "CBloomFilter \<Rightarrow> bytes \<Rightarrow> bool res" where
  "contains_key f vKey =
     (if Bloom_full f then Inr True else contains_loop (hash_nums f) vKey f)"

text \<open>A \<open>COutPoint\<close> is serialised as its memory image, the hash followed by the index.\<close>

definition outpoint_bytes :: "COutPoint \<Rightarrow> bytes" where
  "outpoint_bytes p = le_bytes 32 (op_hash p) @ le_bytes 4 (op_n p)"

definition insert_outpoint :: "COutPoint \<Rightarrow> CBloomFilter \<Rightarrow> CBloomFilter res" where
  "insert_outpoint p f = insert_key (outpoint_bytes p) f"

definition insert_hash :: "uint256 \<Rightarrow> CBloomFilter \<Rightarrow> CBloomFilter res" where
  "insert_hash h f = insert_key (le_bytes 32 h) f"

definition contains_outpoint :: "CBloomFilter \<Rightarrow> COutPoint \<Rightarrow> bool res" where
  "contains_outpoint f p = contains_key f (outpoint_bytes p)"

definition contains_hash :: "CBloomFilter \<Rightarrow> uint256 \<Rightarrow> bool res" where
  "contains_hash f h = contains_key f (le_bytes 32 h)"

definition IsWithinSizeConstraints :: "CBloomFilter \<Rightarrow> bool" where
  "IsWithinSizeConstraints f \<longleftrightarrow>
     length (vData f) \<le> MAX_BLOOM_FILTER_SIZE \<and> nHashFuncs f \<le> MAX_HASH_FUNCS"

subsection \<open>Matching transactions\<close>

text \<open>\<open>GetOp\<close> reads one operation at the front of a script: the data it pushes and the rest of
  the script.  \<open>Solver\<close> recognises a standard script and gives its type.\<close>

record 'ty script_ops =
  GetOp :: "CScript \<Rightarrow> (bytes \<times> CScript) option"
  Solver :: "CScript \<Rightarrow> 'ty option"
  TX_PUBKEY :: 'ty
  TX_MULTISIG :: 'ty

text \<open>\<open>GetOp\<close> always advances past the opcode.\<close>

definition script_ok :: "'ty script_ops \<Rightarrow> bool" where
  "script_ok S \<longleftrightarrow> (\<forall>s d r. GetOp S s = Some (d, r) \<longrightarrow> length r < length s)"

text \<open>The \<open>while (pc < end)\<close> loop: whether some data element of the script is in the filter.
  The first argument bounds the iterations; the length of the script is enough.\<close>

fun script_matches :: "'ty script_ops \<Rightarrow> nat \<Rightarrow> CBloomFilter \<Rightarrow> CScript \<Rightarrow> bool res" where
  "script_matches S 0 f pc = Inr False"
| "script_matches S (Suc n) f pc =
     (if pc = [] then Inr False
      else case GetOp S pc of
        None \<Rightarrow> Inr False
      | Some (data, rest) \<Rightarrow>
          if length data \<noteq> 0 then
            bind_res (contains_key f data) (\<lambda>c. if c then Inr True else script_matches S n f rest)
          else script_matches S n f rest)"

definition script_has :: "'ty script_ops \<Rightarrow> CBloomFilter \<Rightarrow> CScript \<Rightarrow> bool res" where
  "script_has S f s = script_matches S (length s) f s"

definition update_wanted :: "'ty script_ops \<Rightarrow> CBloomFilter \<Rightarrow> CScript \<Rightarrow> bool" where
  "update_wanted S f s =
     (if nFlags f AND BLOOM_UPDATE_MASK = BLOOM_UPDATE_ALL then True
      else if nFlags f AND BLOOM_UPDATE_MASK = BLOOM_UPDATE_P2PUBKEY_ONLY then
        (case Solver S s of None \<Rightarrow> False | Some ty \<Rightarrow> ty = TX_PUBKEY S \<or> ty = TX_MULTISIG S)
      else False)"

fun match_outputs ::
  "'ty script_ops \<Rightarrow> uint256 \<Rightarrow> nat \<Rightarrow> CTxOut list \<Rightarrow> bool \<times> CBloomFilter \<Rightarrow>
     (bool \<times> CBloomFilter) res" where
  "match_outputs S h i [] st = Inr st"
| "match_outputs S h i (txout # outs) (fFound, f) =
     bind_res (script_has S f (scriptPubKey txout)) (\<lambda>m.
       if m then
         bind_res (if update_wanted S f (scriptPubKey txout)
                   then insert_outpoint (COutPoint h (word_of_nat i)) f else Inr f)
           (\<lambda>f'. match_outputs S h (Suc i) outs (True, f'))
       else match_outputs S h (Suc i) outs (fFound, f))"

fun match_inputs :: "'ty script_ops \<Rightarrow> CBloomFilter \<Rightarrow> CTxIn list \<Rightarrow> bool res" where
  "match_inputs S f [] = Inr False"
| "match_inputs S f (txin # ins) =
     bind_res (contains_outpoint f (prevout txin)) (\<lambda>c.
       if c then Inr True
       else bind_res (script_has S f (scriptSig txin)) (\<lambda>m.
         if m then Inr True else match_inputs S f ins))"

definition IsRelevantAndUpdate ::
  "'ty script_ops \<Rightarrow> CTransaction \<Rightarrow> uint256 \<Rightarrow> CBloomFilter \<Rightarrow> (bool \<times> CBloomFilter) res" where
  "IsRelevantAndUpdate S tx h f =
     bind_res (contains_hash f h) (\<lambda>c.
       bind_res (match_outputs S h 0 (vout tx) (c, f)) (\<lambda>(fFound, f').
         if fFound then Inr (True, f')
         else bind_res (match_inputs S f' (vin tx)) (\<lambda>m. Inr (m, f'))))"

subsection \<open>The contract of a membership filter\<close>

text \<open>What a client of the filter relies on: on usable filters insertion succeeds and keeps the
  filter usable, an inserted key is found, and no key is ever lost.\<close>

locale membership_filter =
  fixes usable :: "'f \<Rightarrow> bool" and ins :: "'k \<Rightarrow> 'f \<Rightarrow> 'f res" and mem :: "'f \<Rightarrow> 'k \<Rightarrow> bool res"
  assumes ins_total: "usable f \<Longrightarrow> \<exists>f'. ins k f = Inr f' \<and> usable f'"
    and mem_total: "usable f \<Longrightarrow> \<exists>b. mem f k = Inr b"
    and mem_inserted: "usable f \<Longrightarrow> ins k f = Inr f' \<Longrightarrow> mem f' k = Inr True"
    and mem_mono: "usable f \<Longrightarrow> ins k f = Inr f' \<Longrightarrow> mem f k' = Inr True \<Longrightarrow> mem f' k' = Inr True"
begin

text \<open>Inserting a sequence of keys.\<close>

fun ins_all :: "'k list \<Rightarrow> 'f \<Rightarrow> 'f res" where
  "ins_all [] f = Inr f"
| "ins_all (k # ks) f = bind_res (ins k f) (ins_all ks)"

lemma ins_all_complete:
  "usable f \<Longrightarrow> \<exists>f'. ins_all ks f = Inr f' \<and> usable f' \<and> (\<forall>k\<in>set ks. mem f' k = Inr True) \<and>
     (\<forall>k. mem f k = Inr True \<longrightarrow> mem f' k = Inr True)"
proof (induction ks arbitrary: f)
  case (Cons k ks)
  from ins_total [OF Cons.prems, of k] obtain f1 where f1: "ins k f = Inr f1" "usable f1" by blast
  from Cons.IH [OF f1(2)] obtain f2 where "ins_all ks f1 = Inr f2" "usable f2"
    "\<forall>k\<in>set ks. mem f2 k = Inr True" "\<forall>k. mem f1 k = Inr True \<longrightarrow> mem f2 k = Inr True" by blast
  then show ?case
    using f1 mem_inserted [OF Cons.prems f1(1)] mem_mono [OF Cons.prems f1(1)] by auto
qed simp

end

subsection \<open>Bits of the filter\<close>

definition filter_bit :: "CBloomFilter \<Rightarrow> nat \<Rightarrow> bool" where
  "filter_bit f i \<longleftrightarrow> bit (vData f ! (i div 8)) (i mod 8)"

definition bit_index :: "CBloomFilter \<Rightarrow> uint32 \<Rightarrow> bytes \<Rightarrow> nat" where
  "bit_index f i vKey =
     unat (MurmurHash3 (i * 0xFBA4C795 + nTweak f) vKey) mod (length (vData f) * 8)"

lemma Bloom_Hash_eq: "vData f \<noteq> [] \<Longrightarrow> Bloom_Hash f i k = Inr (bit_index f i k)"
  by (simp add: Bloom_Hash_def bit_index_def)

lemma bit_index_less: "vData f \<noteq> [] \<Longrightarrow> bit_index f i k < length (vData f) * 8"
  unfolding bit_index_def by (rule mod_less_divisor) simp

lemma bit_mask_nth: "n < 8 \<Longrightarrow> bit_mask ! n = push_bit n 1"
  by (auto simp: less_8_cases bit_mask_def)

lemma and_7: "7 AND (n :: nat) = n mod 8"
  using take_bit_eq_mask [of 3 n] by (simp add: take_bit_eq_mod mask_eq_exp_minus_1 and.commute)

lemma mask_test:
  "(w AND bit_mask ! (7 AND n) = 0) \<longleftrightarrow> \<not> bit (w :: byte) (n mod 8)"
  by (simp add: and_7 bit_mask_nth bit_iff_and_push_bit_not_eq_0)

lemma contains_loop_eq:
  "vData f \<noteq> [] \<Longrightarrow> contains_loop is k f = Inr (\<forall>i\<in>set is. filter_bit f (bit_index f i k))"
  by (induction "is")
    (auto simp: Bloom_Hash_eq mask_test filter_bit_def drop_bit_eq_div)

text \<open>\<open>grown f f'\<close>: \<open>f'\<close> has the parameters of \<open>f\<close> and at least its bits.\<close>

definition grown :: "CBloomFilter \<Rightarrow> CBloomFilter \<Rightarrow> bool" where
  "grown f f' \<longleftrightarrow> nHashFuncs f' = nHashFuncs f \<and> nTweak f' = nTweak f \<and> nFlags f' = nFlags f \<and>
     length (vData f') = length (vData f) \<and> (\<forall>i < length (vData f) * 8. filter_bit f i \<longrightarrow> filter_bit f' i)"

lemma grown_refl [simp]: "grown f f"
  by (simp add: grown_def)

lemma grown_trans: "grown f g \<Longrightarrow> grown g h \<Longrightarrow> grown f h"
  by (simp add: grown_def)

lemma grown_index: "grown f f' \<Longrightarrow> bit_index f' i k = bit_index f i k"
  by (simp add: grown_def bit_index_def)

lemma set_bit_step:
  assumes "vData f \<noteq> []" "n < length (vData f) * 8"
  defines "f' \<equiv> f\<lparr> vData := (vData f)[drop_bit 3 n := vData f ! drop_bit 3 n OR bit_mask ! (7 AND n)] \<rparr>"
  shows "grown f f'" "filter_bit f' n"
proof -
  have k: "n div 8 < length (vData f)" using assms(2) by (simp add: less_mult_imp_div_less)
  then show "filter_bit f' n"
    by (simp add: f'_def filter_bit_def drop_bit_eq_div and_7 bit_mask_nth bit_simps)
  show "grown f f'"
    using k by (auto simp: f'_def grown_def filter_bit_def drop_bit_eq_div nth_list_update bit_simps)
qed

lemma insert_loop_correct:
  "vData f \<noteq> [] \<Longrightarrow> \<exists>f'. insert_loop is k f = Inr f' \<and> grown f f' \<and>
     (\<forall>i\<in>set is. filter_bit f' (bit_index f i k))"
proof (induction "is" arbitrary: f)
  case (Cons i "is")
  let ?n = "bit_index f i k"
  let ?f1 = "f\<lparr> vData := (vData f)[drop_bit 3 ?n := vData f ! drop_bit 3 ?n OR bit_mask ! (7 AND ?n)] \<rparr>"
  have n: "?n < length (vData f) * 8" using Cons.prems by (rule bit_index_less)
  note f1 = set_bit_step [OF Cons.prems n]
  from Cons.prems have "vData ?f1 \<noteq> []" by simp
  from Cons.IH [OF this] obtain f' where f': "insert_loop is k ?f1 = Inr f'" "grown ?f1 f'"
    "\<forall>j\<in>set is. filter_bit f' (bit_index ?f1 j k)" by blast
  have "filter_bit f' ?n" using f'(2) f1(2) n by (simp add: grown_def)
  then show ?case
    using f' grown_trans [OF f1(1) f'(2)] grown_index [OF f1(1)] Cons.prems
    by (auto simp: Bloom_Hash_eq Let_def)
qed simp

lemma grown_full: "grown f f' \<Longrightarrow> Bloom_full f \<Longrightarrow> Bloom_full f'"
proof -
  assume g: "grown f f'" and full: "Bloom_full f"
  then have len: "length (vData f') = 1" "length (vData f) = 1" by (simp_all add: grown_def Bloom_full_def)
  have "bit (vData f' ! 0) n" if "n < 8" for n
  proof -
    have "bit (0xff :: byte) n" using that unfolding less_8_cases by auto
    then have "filter_bit f n" using full that by (simp add: filter_bit_def Bloom_full_def)
    then show ?thesis using g that len by (simp add: grown_def filter_bit_def)
  qed
  then have "vData f' ! 0 = 0xff"
    by (intro byte_eqI) simp
  then show "Bloom_full f'" using len by (simp add: Bloom_full_def)
qed

lemma contains_key_eq:
  "vData f \<noteq> [] \<Longrightarrow>
     contains_key f k = Inr (Bloom_full f \<or> (\<forall>i\<in>set (hash_nums f). filter_bit f (bit_index f i k)))"
  by (simp add: contains_key_def contains_loop_eq)

lemma grown_contains:
  assumes "vData f \<noteq> []" "grown f f'" "contains_key f k = Inr True"
  shows "contains_key f' k = Inr True"
proof -
  have "vData f' \<noteq> []" using assms(1,2) by (auto simp: grown_def)
  moreover have "hash_nums f' = hash_nums f" using assms(2) by (simp add: hash_nums_def grown_def)
  moreover have "filter_bit f (bit_index f i k) \<Longrightarrow> filter_bit f' (bit_index f i k)" for i
    using assms(1,2) bit_index_less by (simp add: grown_def)
  ultimately show ?thesis
    using assms grown_full [OF assms(2)] grown_index [OF assms(2)] by (auto simp: contains_key_eq)
qed

lemma insert_key_correct:
  assumes "vData f \<noteq> []"
  shows "\<exists>f'. insert_key k f = Inr f' \<and> grown f f' \<and> contains_key f' k = Inr True"
proof (cases "Bloom_full f")
  case True
  then show ?thesis by (simp add: insert_key_def contains_key_def)
next
  case False
  from insert_loop_correct [OF assms, of "hash_nums f" k] obtain f' where
    f': "insert_loop (hash_nums f) k f = Inr f'" "grown f f'"
    "\<forall>i\<in>set (hash_nums f). filter_bit f' (bit_index f i k)" by blast
  then have "vData f' \<noteq> []" "hash_nums f' = hash_nums f"
    using assms by (auto simp: grown_def hash_nums_def)
  then show ?thesis
    using f' False grown_index [OF f'(2)] by (auto simp: insert_key_def contains_key_eq)
qed

interpretation bloom: membership_filter "\<lambda>f :: CBloomFilter. vData f \<noteq> []" insert_key contains_key
proof
  fix f f' :: CBloomFilter and k k' assume f: "vData f \<noteq> []"
  from insert_key_correct [OF this, of k] obtain g where
    g: "insert_key k f = Inr g" "grown f g" "contains_key g k = Inr True" by blast
  then show "\<exists>f'. insert_key k f = Inr f' \<and> vData f' \<noteq> []" using f by (auto simp: grown_def)
  show "\<exists>b. contains_key f k = Inr b" using f by (simp add: contains_key_eq)
  show "insert_key k f = Inr f' \<Longrightarrow> contains_key f' k = Inr True" using g by simp
  show "insert_key k f = Inr f' \<Longrightarrow> contains_key f k' = Inr True \<Longrightarrow> contains_key f' k' = Inr True"
    using g grown_contains [OF f g(2)] by simp
qed

subsection \<open>Matching\<close>

lemma usable_grown: "vData f \<noteq> [] \<Longrightarrow> grown f f' \<Longrightarrow> vData f' \<noteq> []"
  by (auto simp: grown_def)

lemma script_matches_total: "vData f \<noteq> [] \<Longrightarrow> \<exists>b. script_matches S n f s = Inr b"
  by (induction n arbitrary: s) (auto simp: contains_key_eq split: option.split)

lemma script_matches_mono:
  assumes "vData f \<noteq> []" "grown f f'"
  shows "script_matches S n f s = Inr True \<Longrightarrow> script_matches S n f' s = Inr True"
proof (induction n arbitrary: s)
  case (Suc n)
  then obtain d r where r: "s \<noteq> []" "GetOp S s = Some (d, r)"
    by (auto split: if_splits option.splits)
  obtain c c' where c: "contains_key f d = Inr c" "contains_key f' d = Inr c'"
    using contains_key_eq [OF assms(1)] contains_key_eq [OF usable_grown [OF assms]] by blast
  moreover have "c \<Longrightarrow> c'" using c grown_contains [OF assms, of d] by simp
  ultimately show ?case using Suc r by (auto split: if_splits)
qed simp

lemma script_matches_fuel:
  assumes "script_ok S"
  shows "length s \<le> n \<Longrightarrow> script_matches S n f s = script_matches S (length s) f s"
proof (induction "length s" arbitrary: s n rule: less_induct)
  case less
  show ?case
  proof (cases "s = []")
    case True
    then show ?thesis by (cases n) simp_all
  next
    case False
    then obtain m k where m: "n = Suc m" "length s = Suc k" "k \<le> m"
      using less.prems by (cases n; cases s) auto
    show ?thesis
    proof (cases "GetOp S s")
      case None
      then show ?thesis using m False by simp
    next
      case (Some p)
      obtain d r where p: "p = (d, r)" by fastforce
      then have "length r \<le> k" using assms Some m(2) unfolding script_ok_def by (metis less_Suc_eq_le)
      then have "script_matches S m f r = script_matches S k f r"
        using less.hyps [of r m] less.hyps [of r k] m by simp
      then show ?thesis using m False Some p by (cases "contains_key f d") simp_all
    qed
  qed
qed

lemma match_outputs_correct:
  assumes "vData f \<noteq> []"
  shows "\<exists>b f'. match_outputs S h i outs (c, f) = Inr (b, f') \<and> grown f f' \<and> (c \<longrightarrow> b) \<and>
    (\<forall>j < length outs. nFlags f AND BLOOM_UPDATE_MASK = BLOOM_UPDATE_ALL \<longrightarrow>
       script_has S f (scriptPubKey (outs ! j)) = Inr True \<longrightarrow>
       b \<and> contains_outpoint f' (COutPoint h (word_of_nat (i + j))) = Inr True)"
  using assms
proof (induction outs arbitrary: i c f)
  case (Cons txout outs)
  let ?s = "scriptPubKey txout"
  obtain m where m: "script_has S f ?s = Inr m"
    using script_matches_total [OF Cons.prems] unfolding script_has_def by blast
  obtain g where g: "insert_outpoint (COutPoint h (word_of_nat i)) f = Inr g" "grown f g"
    "contains_outpoint g (COutPoint h (word_of_nat i)) = Inr True"
    using insert_key_correct [OF Cons.prems] unfolding insert_outpoint_def contains_outpoint_def by blast
  define f1 where "f1 = (if m \<and> update_wanted S f ?s then g else f)"
  have f1: "grown f f1" "vData f1 \<noteq> []"
    using g Cons.prems usable_grown [OF Cons.prems g(2)] by (simp_all add: f1_def)
  have step: "match_outputs S h i (txout # outs) (c, f) = match_outputs S h (Suc i) outs (c \<or> m, f1)"
    using m g(1) by (auto simp: f1_def)
  obtain b f' where IH: "match_outputs S h (Suc i) outs (c \<or> m, f1) = Inr (b, f')" "grown f1 f'"
    "c \<or> m \<longrightarrow> b" "\<And>j. j < length outs \<Longrightarrow> nFlags f1 AND BLOOM_UPDATE_MASK = BLOOM_UPDATE_ALL \<Longrightarrow>
       script_has S f1 (scriptPubKey (outs ! j)) = Inr True \<Longrightarrow>
       b \<and> contains_outpoint f' (COutPoint h (word_of_nat (Suc i + j))) = Inr True"
    using Cons.IH [OF f1(2), of "Suc i" "c \<or> m"] by blast
  have "b \<and> contains_outpoint f' (COutPoint h (word_of_nat (i + j))) = Inr True"
    if j: "j < length (txout # outs)" and all: "nFlags f AND BLOOM_UPDATE_MASK = BLOOM_UPDATE_ALL"
      and has: "script_has S f (scriptPubKey ((txout # outs) ! j)) = Inr True" for j
  proof (cases j)
    case 0
    then have "m" "f1 = g" using has m all by (simp_all add: f1_def update_wanted_def)
    then show ?thesis
      using 0 IH(2,3) g(3) grown_contains [OF f1(2), of f'] by (simp add: contains_outpoint_def)
  next
    case (Suc j')
    have "script_has S f1 (scriptPubKey (outs ! j')) = Inr True"
      using has Suc script_matches_mono [OF Cons.prems f1(1)] by (simp add: script_has_def)
    moreover have "nFlags f1 = nFlags f" using f1(1) by (simp add: grown_def)
    ultimately show ?thesis using IH(4) [of j'] j all Suc by simp
  qed
  then show ?case using step IH(1,3) grown_trans [OF f1(1) IH(2)] by auto
qed simp

lemma match_inputs_spend:
  assumes "vData f \<noteq> []" "i \<in> set ins" "contains_outpoint f (prevout i) = Inr True"
  shows "match_inputs S f ins = Inr True"
  using assms(2)
proof (induction ins)
  case (Cons j ins)
  obtain c m where "contains_outpoint f (prevout j) = Inr c" "script_has S f (scriptSig j) = Inr m"
    using contains_key_eq [OF assms(1)] script_matches_total [OF assms(1)]
    unfolding contains_outpoint_def script_has_def by blast
  with Cons assms(3) show ?case by auto
qed simp

subsection \<open>Properties\<close>

text \<open>C18. No false negatives: inserting any sequence of keys into a filter that has at least one
  byte succeeds, afterwards every one of the keys is found, and every key found before is
  still found.\<close>

theorem Bloom_no_false_negatives:
  assumes "vData (f :: CBloomFilter) \<noteq> []"
  shows "\<exists>f'. bloom.ins_all ks f = Inr f' \<and> (\<forall>k\<in>set ks. contains_key f' k = Inr True) \<and>
    (\<forall>k. contains_key f k = Inr True \<longrightarrow> contains_key f' k = Inr True)"
  using bloom.ins_all_complete [OF assms, of ks] by blast

definition demo_filter :: "byte \<Rightarrow> CBloomFilter" where
  "demo_filter fl = \<lparr> vData = [0, 0, 0], nHashFuncs = 5, nTweak = 0, nFlags = fl \<rparr>"

theorem Bloom_no_false_negatives_witness:
  "\<exists>f'. bloom.ins_all [[1, 2], [3]] (demo_filter 0) = Inr f' \<and>
    (\<forall>k\<in>set [[1, 2], [3]]. contains_key f' k = Inr True) \<and>
    (\<forall>k. contains_key (demo_filter 0) k = Inr True \<longrightarrow> contains_key f' k = Inr True)"
  by (rule Bloom_no_false_negatives) (simp add: demo_filter_def)

text \<open>With \<open>BLOOM_UPDATE_ALL\<close> the filter follows the coins it matches: a transaction with an
  output whose script has a data element in the filter is relevant, and any later transaction
  that spends this output is relevant to the updated filter.\<close>

theorem IsRelevantAndUpdate_follows:
  assumes "vData f \<noteq> []" "nFlags f AND BLOOM_UPDATE_MASK = BLOOM_UPDATE_ALL"
    and "j < length (vout tx)" "script_has S f (scriptPubKey (vout tx ! j)) = Inr True"
    and "i \<in> set (vin tx2)" "prevout i = COutPoint h (word_of_nat j)"
  shows "\<exists>f1 f2. IsRelevantAndUpdate S tx h f = Inr (True, f1) \<and>
    IsRelevantAndUpdate S tx2 h2 f1 = Inr (True, f2)"
proof -
  obtain c where c: "contains_hash f h = Inr c"
    using contains_key_eq [OF assms(1)] by (auto simp: contains_hash_def)
  obtain b f1 where f1: "match_outputs S h 0 (vout tx) (c, f) = Inr (b, f1)" "grown f f1" "b"
    "contains_outpoint f1 (prevout i) = Inr True"
    using match_outputs_correct [OF assms(1), of S h 0 "vout tx" c] assms by force
  note u1 = usable_grown [OF assms(1) f1(2)]
  obtain c1 where c1: "contains_hash f1 h2 = Inr c1"
    using contains_key_eq [OF u1] by (auto simp: contains_hash_def)
  obtain b2 f2 where f2: "match_outputs S h2 0 (vout tx2) (c1, f1) = Inr (b2, f2)" "grown f1 f2"
    using match_outputs_correct [OF u1, of S h2 0 "vout tx2" c1] by blast
  have "match_inputs S f2 (vin tx2) = Inr True"
    using match_inputs_spend [OF usable_grown [OF u1 f2(2)] assms(5)] f1(4)
      grown_contains [OF u1 f2(2)] by (simp add: contains_outpoint_def)
  then show ?thesis
    using c f1 c1 f2 by (auto simp: IsRelevantAndUpdate_def)
qed

text \<open>A script interface whose operations are a length byte followed by that many bytes.\<close>

definition demo_script :: "nat script_ops" where
  "demo_script = \<lparr> GetOp = (\<lambda>s. case s of [] \<Rightarrow> None
       | b # r \<Rightarrow> if unat b \<le> length r then Some (take (unat b) r, drop (unat b) r) else None),
     Solver = (\<lambda>_. None), TX_PUBKEY = 1, TX_MULTISIG = 2 \<rparr>"

definition demo_full_filter :: CBloomFilter where
  "demo_full_filter = \<lparr> vData = [0xff], nHashFuncs = 5, nTweak = 0, nFlags = 1 \<rparr>"

theorem IsRelevantAndUpdate_follows_witness:
  "script_ok demo_script \<and>
   (\<exists>f1 f2. IsRelevantAndUpdate demo_script
        (CTransaction_SetNull\<lparr> vout := [CTxOut_SetNull\<lparr> scriptPubKey := [2, 7, 9] \<rparr>] \<rparr>) 5
        demo_full_filter = Inr (True, f1) \<and>
      IsRelevantAndUpdate demo_script
        (CTransaction_SetNull\<lparr> vin := [CTxIn_default\<lparr> prevout := COutPoint 5 0 \<rparr>] \<rparr>) 6 f1 = Inr (True, f2))"
proof
  show "script_ok demo_script"
    by (auto simp: script_ok_def demo_script_def split: list.splits if_splits)
  let ?tx = "CTransaction_SetNull\<lparr> vout := [CTxOut_SetNull\<lparr> scriptPubKey := [2, 7, 9] \<rparr>] \<rparr>"
  have s: "script_has demo_script demo_full_filter [2, 7, 9] = Inr True"
    by (simp add: script_has_def demo_script_def contains_key_def Bloom_full_def demo_full_filter_def
        numeral_3_eq_3)
  show "\<exists>f1 f2. IsRelevantAndUpdate demo_script ?tx 5 demo_full_filter = Inr (True, f1) \<and>
      IsRelevantAndUpdate demo_script
        (CTransaction_SetNull\<lparr> vin := [CTxIn_default\<lparr> prevout := COutPoint 5 0 \<rparr>] \<rparr>) 6 f1 = Inr (True, f2)"
    by (rule IsRelevantAndUpdate_follows [where j = 0 and i = "CTxIn_default\<lparr> prevout := COutPoint 5 0 \<rparr>"])
      (simp_all add: s, simp_all add: demo_full_filter_def BLOOM_UPDATE_MASK_def BLOOM_UPDATE_ALL_def)
qed

text \<open>Size limits: a constructed filter is within the protocol limits and insertion keeps a
  filter there.\<close>

theorem Bloom_size_limits:
  "IsWithinSizeConstraints (CBloomFilter_make idealBits idealFuncs tweak flags) \<and>
   (IsWithinSizeConstraints f \<longrightarrow> insert_key k f = Inr f' \<longrightarrow> IsWithinSizeConstraints f')"
proof (intro conjI impI)
  show "IsWithinSizeConstraints (CBloomFilter_make idealBits idealFuncs tweak flags)"
    by (auto simp: IsWithinSizeConstraints_def CBloomFilter_make_def Let_def MAX_BLOOM_FILTER_SIZE_def)
  assume f: "IsWithinSizeConstraints f" "insert_key k f = Inr f'"
  show "IsWithinSizeConstraints f'"
  proof (cases "vData f = []")
    case True
    then have "insert_loop (hash_nums f) k f = Inr f'"
      using f(2) by (simp add: insert_key_def Bloom_full_def)
    then have "f' = f" using True by (cases "hash_nums f") (simp_all add: Bloom_Hash_def)
    with f show ?thesis by simp
  next
    case False
    with insert_key_correct [OF False, of k] f show ?thesis
      by (auto simp: grown_def IsWithinSizeConstraints_def)
  qed
qed

theorem Bloom_size_limits_witness:
  "IsWithinSizeConstraints (demo_filter 0) \<and>
   (\<forall>f'. insert_key [1] (demo_filter 0) = Inr f' \<longrightarrow> IsWithinSizeConstraints f')"
  using Bloom_size_limits [of 0 "\<lambda>_. 0" 0 0 "demo_filter 0" "[1]"]
  by (simp add: IsWithinSizeConstraints_def demo_filter_def MAX_BLOOM_FILTER_SIZE_def MAX_HASH_FUNCS_def)

text \<open>The size check does not make a received filter safe to use: there is a filter within
  the limits, with no data bytes, on which matching any transaction divides by zero.\<close>

theorem Bloom_empty_filter_faults:
  "\<exists>f. IsWithinSizeConstraints f \<and> (\<forall>tx h. IsRelevantAndUpdate S tx h f = Inl DivByZero)"
proof (intro exI conjI allI)
  let ?f = "\<lparr> vData = [], nHashFuncs = 1, nTweak = 0, nFlags = 0 \<rparr>"
  show "IsWithinSizeConstraints ?f"
    by (simp add: IsWithinSizeConstraints_def MAX_HASH_FUNCS_def)
  show "IsRelevantAndUpdate S tx h ?f = Inl DivByZero" for tx h
    by (simp add: IsRelevantAndUpdate_def contains_hash_def contains_key_def Bloom_full_def
        hash_nums_def Bloom_Hash_def)
qed

end
