(* ===== verification/BigNum.thy ===== *)
theory BigNum
  imports Codec Hashing
begin

text \<open>
  \<open>bignum.h\<close>, the C++ wrapper around OpenSSL's \<open>BIGNUM\<close>.  A \<open>BIGNUM\<close> is an integer; OpenSSL's
  functions are the fields of \<open>bn_ops\<close>, with \<^term>\<open>None\<close> for the status that the wrapper turns
  into a \<open>bignum_error\<close>, and \<open>bn_ok\<close> is what their manual pages document.  The MPI format
  that \<open>BN_bn2mpi\<close> writes is a four-byte big-endian length and the magnitude in big-endian
  order, whose first bit is the sign.
\<close>

type_synonym CBigNum = int

subsection \<open>Big-endian bytes and the MPI format\<close>

fun be_bytes :: "nat \<Rightarrow> bytes" where
  "be_bytes n = (if n = 0 then [] else be_bytes (n div 256) @ [word_of_nat n])"

declare be_bytes.simps [simp del]

definition be_val :: "bytes \<Rightarrow> nat" where
  "be_val bs = foldl (\<lambda>v b. 256 * v + unat b) 0 bs"

definition be32 :: "nat \<Rightarrow> bytes" where
  "be32 n = rev (le_bytes 4 (word_of_nat n :: uint32))"

definition mpi_body :: "int \<Rightarrow> bytes" where
  "mpi_body a =
     (case be_bytes (nat \<bar>a\<bar>) of
        [] \<Rightarrow> []
      | b # bs \<Rightarrow>
          if bit b 7 then (if a < 0 then 0x80 else 0) # b # bs
          else (if a < 0 then b OR 0x80 else b) # bs)"

fun mpi_val :: "bytes \<Rightarrow> int" where
  "mpi_val [] = 0"
| "mpi_val (b # bs) =
     (if bit b 7 then - int (be_val ((b AND 0x7f) # bs)) else int (be_val (b # bs)))"

subsection \<open>OpenSSL\<close>

record bn_ops =
  BN_set_word :: "uint64 \<Rightarrow> CBigNum option"
  BN_get_word :: "CBigNum \<Rightarrow> uint64"
  BN_is_negative :: "CBigNum \<Rightarrow> bool"
  BN_set_negative :: "CBigNum \<Rightarrow> bool \<Rightarrow> CBigNum"
  BN_lshift :: "CBigNum \<Rightarrow> nat \<Rightarrow> CBigNum option"
  BN_rshift :: "CBigNum \<Rightarrow> nat \<Rightarrow> CBigNum option"
  BN_num_bytes :: "CBigNum \<Rightarrow> nat"
  BN_mpi2bn :: "bytes \<Rightarrow> CBigNum"
  BN_bn2mpi :: "CBigNum \<Rightarrow> bytes"
  BN_add :: "CBigNum \<Rightarrow> CBigNum \<Rightarrow> CBigNum option"
  BN_sub :: "CBigNum \<Rightarrow> CBigNum \<Rightarrow> CBigNum option"
  BN_mul :: "CBigNum \<Rightarrow> CBigNum \<Rightarrow> CBigNum option"
  BN_div :: "CBigNum \<Rightarrow> CBigNum \<Rightarrow> (CBigNum \<times> CBigNum) option"
  BN_cmp :: "CBigNum \<Rightarrow> CBigNum \<Rightarrow> int"

definition bn_ok :: "bn_ops \<Rightarrow> bool" where
  "bn_ok B \<longleftrightarrow>
     (\<forall>n. BN_set_word B n = Some (uint n)) \<and>
     (\<forall>a. BN_get_word B a = (if \<bar>a\<bar> < 2 ^ 64 then word_of_int \<bar>a\<bar> else - 1)) \<and>
     (\<forall>a. BN_is_negative B a = (a < 0)) \<and>
     (\<forall>a s. BN_set_negative B a s = (if s then - \<bar>a\<bar> else \<bar>a\<bar>)) \<and>
     (\<forall>a n. BN_lshift B a n = Some (a * 2 ^ n)) \<and>
     (\<forall>a n. BN_rshift B a n = Some (sgn a * (\<bar>a\<bar> div 2 ^ n))) \<and>
     (\<forall>a. BN_num_bytes B a = length (be_bytes (nat \<bar>a\<bar>))) \<and>
     (\<forall>p. length p < 2 ^ 32 \<longrightarrow> BN_mpi2bn B (be32 (length p) @ p) = mpi_val p) \<and>
     (\<forall>a. BN_bn2mpi B a = be32 (length (mpi_body a)) @ mpi_body a) \<and>
     (\<forall>a b. BN_add B a b = Some (a + b)) \<and>
     (\<forall>a b. BN_sub B a b = Some (a - b)) \<and>
     (\<forall>a b. BN_mul B a b = Some (a * b)) \<and>
     (\<forall>a b. BN_div B a b =
        (if b = 0 then None else Some (trunc_div a b, a - trunc_div a b * b))) \<and>
     (\<forall>a b. BN_cmp B a b = sgn (a - b))"

text \<open>A status that is tested, and one that is ignored.\<close>

definition bn_check :: "string \<Rightarrow> 'a option \<Rightarrow> 'a res" where
  "bn_check msg r = (case r of None \<Rightarrow> Inl (Thrown msg) | Some x \<Rightarrow> Inr x)"

definition bn_ignore :: "'a \<Rightarrow> 'a option \<Rightarrow> 'a" where
  "bn_ignore old r = (case r of None \<Rightarrow> old | Some x \<Rightarrow> x)"

subsection \<open>Conversions\<close>

definition setulong :: "bn_ops \<Rightarrow> uint64 \<Rightarrow> CBigNum res" where
  "setulong B n =
     bn_check ''CBigNum conversion from unsigned long : BN_set_word failed'' (BN_set_word B n)"

definition getulong :: "bn_ops \<Rightarrow> CBigNum \<Rightarrow> uint64" where
  "getulong B a = BN_get_word B a"

definition getuint :: "bn_ops \<Rightarrow> CBigNum \<Rightarrow> uint32" where
  "getuint B a = ucast (BN_get_word B a)"

definition getint :: "bn_ops \<Rightarrow> CBigNum \<Rightarrow> int32" where
  "getint B a =
     (let n = BN_get_word B a in
      if \<not> BN_is_negative B a then (if n > 0x7fffffff then 2 ^ 31 - 1 else uint n)
      else (if n > 0x7fffffff then - (2 ^ 31) else - uint n))"

text \<open>The bytes that the loops of \<open>setint64\<close> and \<open>setuint64\<close> take off the top of \<open>n\<close>.\<close>

fun top_bytes :: "nat \<Rightarrow> uint64 \<Rightarrow> bytes" where
  "top_bytes 0 n = []"
| "top_bytes (Suc i) n = ucast (drop_bit 56 n AND 0xff) # top_bytes i (push_bit 8 n)"

text \<open>The body of these loops, shared with \<open>setuint256\<close>, which never is negative: skip leading
  zeroes, then make room for the sign bit.\<close>

fun mpi_loop :: "bool \<Rightarrow> bool \<Rightarrow> bytes \<Rightarrow> bytes" where
  "mpi_loop fLeadingZeroes fNegative [] = []"
| "mpi_loop fLeadingZeroes fNegative (c # cs) =
     (if fLeadingZeroes then
        if c = 0 then mpi_loop True fNegative cs
        else if c AND 0x80 \<noteq> 0 then
          (if fNegative then 0x80 else 0) # c # mpi_loop False fNegative cs
        else if fNegative then (c OR 0x80) # mpi_loop False fNegative cs
        else c # mpi_loop False fNegative cs
      else c # mpi_loop False fNegative cs)"

definition setint64 :: "bn_ops \<Rightarrow> int64 \<Rightarrow> CBigNum" where
  "setint64 B sn =
     (let fNegative = (sn < 0);
          n = (if fNegative then (word_of_int (- (sn + 1)) :: uint64) + 1 else word_of_int sn);
          body = mpi_loop True fNegative (top_bytes 8 n)
      in BN_mpi2bn B (be32 (length body) @ body))"

definition setuint64 :: "bn_ops \<Rightarrow> uint64 \<Rightarrow> CBigNum" where
  "setuint64 B n =
     (let body = mpi_loop True False (top_bytes 8 n)
      in BN_mpi2bn B (be32 (length body) @ body))"

definition setuint256 :: "bn_ops \<Rightarrow> uint256 \<Rightarrow> CBigNum" where
  "setuint256 B n =
     (let body = mpi_loop True False (rev (le_bytes 32 n))
      in BN_mpi2bn B (be32 (length body) @ body))"

definition getuint256 :: "bn_ops \<Rightarrow> CBigNum \<Rightarrow> uint256" where
  "getuint256 B a =
     (let vch = BN_bn2mpi B a in
      if length vch < 4 then 0
      else let vch = (if length vch > 4 then vch[4 := vch ! 4 AND 0x7f] else vch)
      in le_word (take 32 (rev (drop 4 vch))))"

definition setvch :: "bn_ops \<Rightarrow> bytes \<Rightarrow> CBigNum" where
  "setvch B vch = BN_mpi2bn B (be32 (length vch) @ rev vch)"

definition getvch :: "bn_ops \<Rightarrow> CBigNum \<Rightarrow> bytes" where
  "getvch B a =
     (let vch = BN_bn2mpi B a in if length vch \<le> 4 then [] else rev (drop 4 vch))"

text \<open>The constructors from machine integers.\<close>

definition CBigNum_of_int :: "bn_ops \<Rightarrow> int64 \<Rightarrow> CBigNum res" where
  "CBigNum_of_int B n = (if n \<ge> 0 then setulong B (word_of_int n) else Inr (setint64 B n))"

subsection \<open>The compact format\<close>

definition SetCompact :: "bn_ops \<Rightarrow> uint32 \<Rightarrow> CBigNum" where
  "SetCompact B nCompact =
     (let nSize = unat (drop_bit 24 nCompact);
          fNegative = (nCompact AND 0x00800000 \<noteq> 0);
          nWord = nCompact AND 0x007fffff;
          v = (if nSize \<le> 3 then bn_ignore 0 (BN_set_word B (ucast (drop_bit (8 * (3 - nSize)) nWord)))
               else let w = bn_ignore 0 (BN_set_word B (ucast nWord))
                    in bn_ignore w (BN_lshift B w (8 * (nSize - 3))))
      in BN_set_negative B v fNegative)"

definition GetCompact :: "bn_ops \<Rightarrow> CBigNum \<Rightarrow> uint32" where
  "GetCompact B a =
     (let nSize = BN_num_bytes B a;
          nCompact = (if nSize \<le> 3
                      then (ucast (push_bit (8 * (3 - nSize)) (BN_get_word B a)) :: uint32)
                      else ucast (BN_get_word B (bn_ignore 0 (BN_rshift B a (8 * (nSize - 3))))));
          (nCompact, nSize) = (if nCompact AND 0x00800000 \<noteq> 0
                               then (drop_bit 8 nCompact, nSize + 1) else (nCompact, nSize));
          nCompact = nCompact OR push_bit 24 (word_of_nat nSize)
      in nCompact OR (if BN_is_negative B a then 0x00800000 else 0))"

subsection \<open>Hexadecimal and decimal text\<close>

definition phexdigit0 :: "int list" where
  "phexdigit0 = replicate 48 0 @ [0..9] @ replicate 7 0 @ [10..15] @ replicate 26 0 @ [10..15] @
     replicate 153 0"

definition isxdigit :: "char \<Rightarrow> bool" where
  "isxdigit c \<longleftrightarrow> isdigit c \<or> c \<in> set ''abcdefABCDEF''"

fun hex_loop :: "bn_ops \<Rightarrow> CBigNum \<Rightarrow> string \<Rightarrow> CBigNum res" where
  "hex_loop B a [] = Inr a"
| "hex_loop B a (c # psz) =
     (if isxdigit c then
        bind_res (bn_check ''CBigNum:operator<<= : BN_lshift failed'' (BN_lshift B a 4)) (\<lambda>a.
        bind_res (CBigNum_of_int B (table_at phexdigit0 c)) (\<lambda>n.
        bind_res (bn_check ''CBigNum::operator+= : BN_add failed'' (BN_add B a n)) (\<lambda>a.
          hex_loop B a psz)))
      else Inr a)"

definition SetHex :: "bn_ops \<Rightarrow> string \<Rightarrow> CBigNum res" where
  "SetHex B str =
     (let psz = dropWhile isspace (c_str str);
          fNegative = (char_at psz 0 = CHR ''-'');
          psz = (if fNegative then tl psz else psz);
          psz = (if char_at psz 0 = CHR ''0'' \<and> char_at psz 1 \<in> {CHR ''x'', CHR ''X''}
                 then drop 2 psz else psz);
          psz = dropWhile isspace psz
      in bind_res (hex_loop B 0 psz) (\<lambda>a.
           if fNegative then bn_check ''CBigNum::operator- : BN_sub failed'' (BN_sub B 0 a)
           else Inr a))"

text \<open>The digits of \<open>ToString\<close>, least significant first.  A quotient that does not become
  smaller, as in base one, would loop forever; the first argument bounds the iterations.\<close>

fun digits_loop :: "bn_ops \<Rightarrow> nat \<Rightarrow> CBigNum \<Rightarrow> CBigNum \<Rightarrow> string option res" where
  "digits_loop B 0 bnBase bn = Inr None"
| "digits_loop B (Suc fuel) bnBase bn =
     (if BN_cmp B bn 0 > 0 then
        bind_res (bn_check ''CBigNum::ToString() : BN_div failed'' (BN_div B bn bnBase)) (\<lambda>(dv, r).
          let c = unat (ucast (getulong B r) :: uint32) in
          if c > 16 then Inl OutOfRange
          else bind_res (digits_loop B fuel bnBase dv) (\<lambda>rest.
            Inr (map_option ((#) (char_at ''0123456789abcdef'' c)) rest)))
      else Inr (Some []))"

definition CBigNum_ToString :: "bn_ops \<Rightarrow> int32 \<Rightarrow> CBigNum \<Rightarrow> string option res" where
  "CBigNum_ToString B nBase a =
     bind_res (CBigNum_of_int B nBase) (\<lambda>bnBase.
       let bn = BN_set_negative B a False in
       if BN_cmp B bn 0 = 0 then Inr (Some ''0'')
       else bind_res (digits_loop B (Suc (nat bn)) bnBase bn) (\<lambda>str.
         Inr (map_option (\<lambda>s. rev (if BN_is_negative B a then s @ ''-'' else s)) str)))"

definition GetHex :: "bn_ops \<Rightarrow> CBigNum \<Rightarrow> string option res" where
  "GetHex B a = CBigNum_ToString B 16 a"

subsection \<open>Operators\<close>

definition bn_plus :: "bn_ops \<Rightarrow> CBigNum \<Rightarrow> CBigNum \<Rightarrow> CBigNum res" where
  "bn_plus B a b = bn_check ''CBigNum::operator+ : BN_add failed'' (BN_add B a b)"

definition bn_minus :: "bn_ops \<Rightarrow> CBigNum \<Rightarrow> CBigNum \<Rightarrow> CBigNum res" where
  "bn_minus B a b = bn_check ''CBigNum::operator- : BN_sub failed'' (BN_sub B a b)"

definition bn_uminus :: "bn_ops \<Rightarrow> CBigNum \<Rightarrow> CBigNum" where
  "bn_uminus B a = BN_set_negative B a (\<not> BN_is_negative B a)"

definition bn_times :: "bn_ops \<Rightarrow> CBigNum \<Rightarrow> CBigNum \<Rightarrow> CBigNum res" where
  "bn_times B a b = bn_check ''CBigNum::operator* : BN_mul failed'' (BN_mul B a b)"

definition bn_divide :: "bn_ops \<Rightarrow> CBigNum \<Rightarrow> CBigNum \<Rightarrow> CBigNum res" where
  "bn_divide B a b =
     bind_res (bn_check ''CBigNum::operator/ : BN_div failed'' (BN_div B a b)) (\<lambda>(q, r). Inr q)"

definition bn_modulo :: "bn_ops \<Rightarrow> CBigNum \<Rightarrow> CBigNum \<Rightarrow> CBigNum res" where
  "bn_modulo B a b =
     bind_res (bn_check ''CBigNum::operator% : BN_div failed'' (BN_div B a b)) (\<lambda>(q, r). Inr r)"

definition bn_shl :: "bn_ops \<Rightarrow> CBigNum \<Rightarrow> uint32 \<Rightarrow> CBigNum res" where
  "bn_shl B a shift = bn_check ''CBigNum:operator<< : BN_lshift failed'' (BN_lshift B a (unat shift))"

definition bn_shr :: "bn_ops \<Rightarrow> CBigNum \<Rightarrow> uint32 \<Rightarrow> CBigNum res" where
  "bn_shr B a shift =
     bind_res (CBigNum_of_int B 1) (\<lambda>one.
     bind_res (bn_check ''CBigNum:operator<<= : BN_lshift failed'' (BN_lshift B one (unat shift))) (\<lambda>p.
       if BN_cmp B p a > 0 then CBigNum_of_int B 0
       else bn_check ''CBigNum:operator>>= : BN_rshift failed'' (BN_rshift B a (unat shift))))"

definition bn_incr :: "bn_ops \<Rightarrow> CBigNum \<Rightarrow> CBigNum res" where
  "bn_incr B a = bn_check ''CBigNum::operator++ : BN_add failed'' (BN_add B a 1)"

definition bn_decr :: "bn_ops \<Rightarrow> CBigNum \<Rightarrow> CBigNum res" where
  "bn_decr B a = bn_check ''CBigNum::operator-- : BN_sub failed'' (BN_sub B a 1)"

definition bn_less :: "bn_ops \<Rightarrow> CBigNum \<Rightarrow> CBigNum \<Rightarrow> bool" where
  "bn_less B a b \<longleftrightarrow> BN_cmp B a b < 0"

definition bn_eq :: "bn_ops \<Rightarrow> CBigNum \<Rightarrow> CBigNum \<Rightarrow> bool" where
  "bn_eq B a b \<longleftrightarrow> BN_cmp B a b = 0"

subsection \<open>Facts on big-endian bytes\<close>

lemma be_val_snoc: "be_val (bs @ [b]) = 256 * be_val bs + unat b"
  by (simp add: be_val_def)

lemma be_val_Nil [simp]: "be_val [] = 0"
  by (simp add: be_val_def)

lemma be_val_append: "be_val (xs @ ys) = be_val xs * 256 ^ length ys + be_val ys"
proof (induction ys rule: rev_induct)
  case (snoc y ys)
  then show ?case by (simp add: be_val_snoc algebra_simps flip: append_assoc)
qed simp

lemma be_val_Cons: "be_val (b # bs) = unat b * 256 ^ length bs + be_val bs"
  using be_val_append [of "[b]" bs] by (simp add: be_val_def)

lemma be_val_bytes: "be_val (be_bytes n) = n"
proof (induction n rule: be_bytes.induct)
  case (1 n)
  then show ?case by (subst be_bytes.simps) (simp add: be_val_snoc unat_of_nat)
qed

lemma unat_byte_less: "unat (b :: byte) < 256"
  using unsigned_less [of b, where ?'a = nat] by simp

lemma be_val_less: "be_val bs < 256 ^ length bs"
proof (induction bs rule: rev_induct)
  case (snoc b bs)
  then show ?case using unat_byte_less [of b] by (simp add: be_val_snoc)
qed simp

lemma be_bytes_val: "be_bytes (be_val bs) = dropWhile (\<lambda>x. x = 0) bs"
proof (induction bs rule: rev_induct)
  case Nil
  show ?case by (simp add: be_bytes.simps)
next
  case (snoc b bs)
  let ?v = "256 * be_val bs + unat b"
  have "?v div 256 = be_val bs" using unat_byte_less [of b] by simp
  moreover have "(word_of_nat ?v :: byte) = b"
    using unat_byte_less [of b] by (simp only: word_unat_eq_iff unat_of_nat) simp
  moreover have "be_val bs = 0 \<longleftrightarrow> (\<forall>x\<in>set bs. x = 0)"
  proof -
    have "be_val bs = 0 \<longleftrightarrow> be_bytes (be_val bs) = []" by (subst be_bytes.simps) simp
    then show ?thesis using snoc by (simp add: dropWhile_eq_Nil_conv)
  qed
  ultimately show ?case
    using snoc by (subst be_bytes.simps)
      (auto simp: be_val_snoc dropWhile_append word_unat_eq_iff [of b])
qed

lemma be_bytes_hd: "be_bytes n = b # bs \<Longrightarrow> b \<noteq> 0"
  using be_bytes_val [of "be_bytes n"] hd_dropWhile [of "\<lambda>x. x = 0" "be_bytes n"]
  unfolding be_val_bytes by (metis list.discI list.sel(1))

lemma sign_bit_byte:
  fixes b :: byte
  shows "\<not> bit b 7 \<Longrightarrow> (b OR 0x80) AND 0x7f = b" "bit (b OR 0x80) 7"
    "(0x80 :: byte) AND 0x7f = 0" "b AND 0x80 \<noteq> 0 \<longleftrightarrow> bit b 7" "bit (0x80 :: byte) 7"
proof -
  show "\<not> bit b 7 \<Longrightarrow> (b OR 0x80) AND 0x7f = b" by (rule byte_eqI) (auto simp: bit_simps)
  show "b AND 0x80 \<noteq> 0 \<longleftrightarrow> bit b 7" by (simp add: bit_iff_and_push_bit_not_eq_0)
qed (simp_all add: bit_simps)

text \<open>The body that the loops write is the MPI body of the signed number.\<close>

lemma mpi_loop_False: "mpi_loop False neg cs = cs"
  by (induction cs) simp_all

lemma mpi_loop_body:
  "mpi_loop True (a < 0) cs = mpi_body a" if "be_val cs = nat \<bar>a\<bar>"
proof -
  have "mpi_loop True neg cs =
     (case dropWhile (\<lambda>x. x = 0) cs of
        [] \<Rightarrow> []
      | b # bs \<Rightarrow>
          if bit b 7 then (if neg then 0x80 else 0) # b # bs
          else (if neg then b OR 0x80 else b) # bs)" for neg
    by (induction cs) (auto simp: mpi_loop_False sign_bit_byte(4))
  then show ?thesis
    using be_bytes_val [of cs] that by (simp add: mpi_body_def)
qed

lemma mpi_val_body: "mpi_val (mpi_body a) = a"
proof (cases "be_bytes (nat \<bar>a\<bar>)")
  case Nil
  then show ?thesis using be_val_bytes [of "nat \<bar>a\<bar>"] by (simp add: mpi_body_def)
next
  case (Cons b bs)
  have v: "int (be_val (b # bs)) = \<bar>a\<bar>" using be_val_bytes [of "nat \<bar>a\<bar>"] Cons by simp
  show ?thesis
    using v sign_bit_byte by (auto simp: mpi_body_def Cons be_val_Cons)
qed

lemma be_val_le_bytes: "be_val (rev (le_bytes k w)) = unat w mod 256 ^ k"
proof (induction k arbitrary: w)
  case 0
  show ?case by (simp add: le_bytes_def)
next
  case (Suc k)
  have "unat (ucast w :: byte) = unat w mod 256" by (simp add: unsigned_ucast_eq take_bit_eq_mod)
  moreover have "unat (drop_bit 8 w) = unat w div 256" 
    by (simp only: unat_drop_bit_eq drop_bit_eq_div [of 8 "unat w"]) simp
  ultimately show ?case
    by (simp add: le_bytes_Suc be_val_snoc Suc.IH mod_mult2_eq)
qed

lemma top_bytes_shift: "k + j = 8 \<Longrightarrow> top_bytes k (push_bit (8 * j) n) = rev (le_bytes k n)"
proof (induction k arbitrary: j)
  case 0
  show ?case by (simp add: le_bytes_def)
next
  case (Suc k)
  have "(ucast (drop_bit 56 (push_bit (8 * j) n) AND 0xff) :: byte) = ucast (drop_bit (8 * k) n)"
  proof (rule bit_word_eqI)
    fix m assume "m < LENGTH(8)"
    then have "m < 8" by simp
    moreover have "56 + m - 8 * j = 8 * k + m" "8 * j \<le> 56 + m" using Suc.prems by simp_all
    moreover have "bit (0xff :: uint64) m" using \<open>m < 8\<close> unfolding less_8_cases by auto
    ultimately show "bit (ucast (drop_bit 56 (push_bit (8 * j) n) AND 0xff) :: byte) m \<longleftrightarrow>
        bit (ucast (drop_bit (8 * k) n) :: byte) m"
      by (simp add: bit_ucast_iff bit_and_iff bit_drop_bit_eq bit_push_bit_iff)
  qed
  moreover have "top_bytes k (push_bit 8 (push_bit (8 * j) n)) = rev (le_bytes k n)"
    using Suc.IH [of "Suc j"] Suc.prems by (simp add: push_bit_push_bit)
  ultimately show ?case by (simp add: le_bytes_def)
qed

lemma top_bytes_8: "top_bytes 8 n = rev (le_bytes 8 n)"
  using top_bytes_shift [of 8 0 n] by simp

subsection \<open>Conversions under the documented contract\<close>

lemma bn_okD:
  assumes "bn_ok B"
  shows "BN_set_word B n = Some (uint n)"
    "BN_get_word B a = (if \<bar>a\<bar> < 2 ^ 64 then word_of_int \<bar>a\<bar> else - 1)"
    "BN_is_negative B a = (a < 0)"
    "BN_set_negative B a s = (if s then - \<bar>a\<bar> else \<bar>a\<bar>)"
    "BN_lshift B a k = Some (a * 2 ^ k)"
    "BN_rshift B a k = Some (sgn a * (\<bar>a\<bar> div 2 ^ k))"
    "BN_num_bytes B a = length (be_bytes (nat \<bar>a\<bar>))"
    "length p < 2 ^ 32 \<Longrightarrow> BN_mpi2bn B (be32 (length p) @ p) = mpi_val p"
    "BN_bn2mpi B a = be32 (length (mpi_body a)) @ mpi_body a"
    "BN_add B a b = Some (a + b)" "BN_sub B a b = Some (a - b)" "BN_mul B a b = Some (a * b)"
    "BN_div B a b = (if b = 0 then None else Some (trunc_div a b, a - trunc_div a b * b))"
    "BN_cmp B a b = sgn (a - b)"
  using assms unfolding bn_ok_def by simp_all

lemma bn_check_Some [simp]: "bn_check msg (Some x) = Inr x"
  by (simp add: bn_check_def)

lemma bn_ignore_Some [simp]: "bn_ignore old (Some x) = x"
  by (simp add: bn_ignore_def)

lemma length_be32 [simp]: "length (be32 n) = 4"
  by (simp add: be32_def)

lemma length_be_bytes_le: "n < 256 ^ k \<Longrightarrow> length (be_bytes n) \<le> k"
proof (induction k arbitrary: n)
  case 0
  then show ?case by (simp add: be_bytes.simps)
next
  case (Suc k)
  have "n div 256 < 256 ^ k" using Suc.prems by (simp add: less_mult_imp_div_less mult.commute)
  then show ?case using Suc.IH [of "n div 256"] by (subst be_bytes.simps) simp
qed

lemma length_mpi_body: "length (mpi_body a) \<le> Suc (length (be_bytes (nat \<bar>a\<bar>)))"
  by (cases "be_bytes (nat \<bar>a\<bar>)") (simp_all add: mpi_body_def)

lemma mpi2bn_loop:
  assumes "bn_ok B" "be_val cs = nat \<bar>a\<bar>" "length cs < 2 ^ 31"
  defines "body \<equiv> mpi_loop True (a < 0) cs"
  shows "BN_mpi2bn B (be32 (length body) @ body) = a"
proof -
  have body: "body = mpi_body a" unfolding body_def by (rule mpi_loop_body [OF assms(2)])
  have "nat \<bar>a\<bar> < 256 ^ length cs" using be_val_less [of cs] assms(2) by simp
  then have "length body < 2 ^ 32"
    using length_be_bytes_le length_mpi_body [of a] assms(3) unfolding body by fastforce
  then show ?thesis using bn_okD(8) [OF assms(1)] mpi_val_body by (simp add: body)
qed

lemma setint64_eq:
  assumes "bn_ok B" "- (2 ^ 63) \<le> sn" "sn < 2 ^ 63"
  shows "setint64 B sn = sn"
proof -
  let ?n = "if sn < 0 then (word_of_int (- (sn + 1)) :: uint64) + 1 else word_of_int sn"
  have "?n = word_of_int \<bar>sn\<bar>" by simp
  then have "unat ?n = nat \<bar>sn\<bar>"
    using assms(2,3) by (simp only: unat_eq_nat_uint uint_word_of_int_eq take_bit_int_eq_self_iff)
      (subst take_bit_int_eq_self; simp)
  moreover from this have "unat ?n < 256 ^ 8" using assms(2,3) by simp
  ultimately have "be_val (top_bytes 8 ?n) = nat \<bar>sn\<bar>"
    unfolding top_bytes_8 be_val_le_bytes by simp
  moreover have "length (top_bytes 8 ?n) < 2 ^ 31" by (simp add: top_bytes_8)
  ultimately show ?thesis
    using mpi2bn_loop [OF assms(1), of "top_bytes 8 ?n" sn] by (simp only: setint64_def Let_def)
qed

lemma setuint64_eq: "bn_ok B \<Longrightarrow> setuint64 B n = uint n"
proof -
  assume B: "bn_ok B"
  have "unat n < 256 ^ 8" using unsigned_less [of n, where ?'a = nat] by simp
  then have "be_val (top_bytes 8 n) = nat \<bar>uint n\<bar>"
    unfolding top_bytes_8 be_val_le_bytes by (simp only: mod_less abs_of_nonneg unsigned_greater_eq nat_uint_eq)
  moreover have "(uint n < 0) = False" "length (top_bytes 8 n) < 2 ^ 31" by (simp_all add: top_bytes_8)
  ultimately show ?thesis
    using mpi2bn_loop [OF B, of "top_bytes 8 n" "uint n"] by (simp only: setuint64_def Let_def)
qed

lemma setuint256_eq: "bn_ok B \<Longrightarrow> setuint256 B n = uint n"
proof -
  assume B: "bn_ok B"
  have "unat n < 256 ^ 32" using unsigned_less [of n, where ?'a = nat] by simp
  then have "be_val (rev (le_bytes 32 n)) = nat \<bar>uint n\<bar>"
    unfolding be_val_le_bytes by (simp only: mod_less abs_of_nonneg unsigned_greater_eq nat_uint_eq)
  moreover have "(uint n < 0) = False" "length (rev (le_bytes 32 n)) < 2 ^ 31" by simp_all
  ultimately show ?thesis
    using mpi2bn_loop [OF B, of "rev (le_bytes 32 n)" "uint n"] by (simp only: setuint256_def Let_def)
qed

lemma le_word_be_val: "le_word cs = (word_of_nat (be_val (rev cs)) :: uint256)"
proof (induction cs)
  case (Cons b cs)
  have "(ucast b :: uint256) OR push_bit 8 x = ucast b + push_bit 8 x" for x :: uint256
    by (rule disjunctive_add [symmetric]) (auto simp: bit_simps not_bit_byte)
  moreover have "(word_of_nat (unat b) :: uint256) = ucast b" by (rule bit_word_eqI) (simp add: bit_simps)
  ultimately show ?case
    using Cons.IH by (simp add: be_val_snoc push_bit_eq_mult mult.commute add.commute)
qed simp

lemma le_word_take32: "le_word (take 32 (rev bs)) = (word_of_nat (be_val bs) :: uint256)"
proof -
  let ?lo = "rev (take 32 (rev bs))" and ?hi = "rev (drop 32 (rev bs))"
  have bs: "bs = ?hi @ ?lo" by (metis append_take_drop_id rev_append rev_rev_ident)
  show ?thesis
  proof (cases "length bs \<le> 32")
    case True
    then show ?thesis by (simp add: le_word_be_val)
  next
    case False
    then have "be_val bs = be_val ?hi * 256 ^ 32 + be_val ?lo"
      using be_val_append [of ?hi ?lo] bs by simp
    moreover have "(256 ^ 32 :: uint256) = 0" by simp
    then have "word_of_nat (be_val ?hi * 256 ^ 32) = (0 :: uint256)"
      by (simp only: of_nat_mult of_nat_power of_nat_numeral mult_zero_right)
    ultimately show ?thesis by (simp only: le_word_be_val of_nat_add add_0)
  qed
qed

lemma getuint256_eq:
  assumes "bn_ok B"
  shows "getuint256 B a = word_of_int \<bar>a\<bar>"
proof -
  obtain body' where body: "drop 4 (if length (BN_bn2mpi B a) > 4
      then (BN_bn2mpi B a)[4 := BN_bn2mpi B a ! 4 AND 0x7f] else BN_bn2mpi B a) = body'"
    and v: "be_val body' = nat \<bar>a\<bar>"
  proof (cases "be_bytes (nat \<bar>a\<bar>)")
    case Nil
    then have "mpi_body a = []" "nat \<bar>a\<bar> = 0" using be_val_bytes [of "nat \<bar>a\<bar>"] by (simp_all add: mpi_body_def)
    then show ?thesis using that [of "[]"] by (simp add: bn_okD [OF assms])
  next
    case (Cons b bs)
    then have "be_val (b # bs) = nat \<bar>a\<bar>" using be_val_bytes [of "nat \<bar>a\<bar>"] by simp
    moreover have "\<not> bit b 7 \<Longrightarrow> b AND 0x7f = b" by (rule byte_eqI) (auto simp: bit_simps)
    ultimately show ?thesis
      using that [of "if bit b 7 then 0 # b # bs else b # bs"] sign_bit_byte(1,3)
      by (auto simp: bn_okD [OF assms] mpi_body_def Cons nth_append list_update_append be_val_Cons)
  qed
  have "\<not> length (BN_bn2mpi B a) < 4" by (simp add: bn_okD [OF assms])
  then have "getuint256 B a = le_word (take 32 (rev body'))"
    unfolding getuint256_def Let_def body by simp
  also have "\<dots> = word_of_nat (nat \<bar>a\<bar>)" by (simp only: le_word_take32 v)
  finally show ?thesis by simp
qed

lemma setvch_getvch:
  assumes "bn_ok B" "length (getvch B a) < 2 ^ 32"
  shows "setvch B (getvch B a) = a"
proof -
  have "getvch B a = rev (mpi_body a)"
    by (auto simp: getvch_def Let_def bn_okD [OF assms(1)])
  then show ?thesis
    using assms(2) bn_okD(8) [OF assms(1), of "mpi_body a"] mpi_val_body by (simp add: setvch_def)
qed

subsection \<open>The compact format as arithmetic\<close>

lemma be_bytes_bounds:
  assumes "0 < n"
  shows "256 ^ (length (be_bytes n) - 1) \<le> n" "n < 256 ^ length (be_bytes n)" "0 < length (be_bytes n)"
proof -
  obtain b bs where b: "be_bytes n = b # bs" using assms by (cases "be_bytes n") (simp_all add: be_bytes.simps [of n])
  then have "0 < unat b" using be_bytes_hd by (simp add: unat_gt_0)
  then have "1 * 256 ^ length bs \<le> unat b * 256 ^ length bs" by (intro mult_le_mono1) simp
  moreover have "n = unat b * 256 ^ length bs + be_val bs" using be_val_bytes [of n] b by (simp add: be_val_Cons)
  ultimately have "256 ^ length bs \<le> n" by linarith
  then show "256 ^ (length (be_bytes n) - 1) \<le> n" using b by simp
  show "n < 256 ^ length (be_bytes n)" using be_val_less [of "be_bytes n"] by (simp add: be_val_bytes)
  show "0 < length (be_bytes n)" using b by simp
qed

lemma nat_bit_23: "M < 2 ^ 24 \<Longrightarrow> bit (M :: nat) 23 \<longleftrightarrow> 2 ^ 23 \<le> M"
proof -
  assume "M < 2 ^ 24"
  then have "M div 2 ^ 23 < 2" by (simp add: less_mult_imp_div_less)
  moreover have "M div 2 ^ 23 = 0 \<longleftrightarrow> M < 2 ^ 23" by (simp add: div_eq_0_iff)
  moreover have "M div 2 ^ 23 = 0 \<or> M div 2 ^ 23 = 1" using calculation(1) by linarith
  ultimately show ?thesis by (auto simp: bit_iff_odd)
qed

lemma compact_sign_test:
  fixes w :: uint32
  shows "w AND 0x00800000 \<noteq> 0 \<longleftrightarrow> bit w 23"
  by (simp add: bit_iff_and_push_bit_not_eq_0)

lemma pack_compact:
  assumes "M < 2 ^ 24"
  shows "(word_of_nat M :: uint32) OR push_bit 24 (word_of_nat k) = word_of_nat (M + k * 2 ^ 24)"
proof -
  have "\<not> bit (word_of_nat M :: uint32) n \<or> \<not> bit (push_bit 24 (word_of_nat k) :: uint32) n" for n
  proof -
    have "take_bit 24 M = M" using assms by (simp add: take_bit_nat_eq_self_iff)
    then have "bit M n \<Longrightarrow> n < 24" by (metis bit_take_bit_iff)
    then show ?thesis by (auto simp: bit_simps)
  qed
  then have "(word_of_nat M :: uint32) + push_bit 24 (word_of_nat k) =
      word_of_nat M OR push_bit 24 (word_of_nat k)" by (rule disjunctive_add)
  then show ?thesis by (simp add: push_bit_eq_mult mult.commute)
qed

lemma unpack_compact:
  assumes "M < 2 ^ 23" "k < 256"
  defines "c \<equiv> (word_of_nat (M + k * 2 ^ 24) :: uint32)"
  shows "unat (drop_bit 24 c) = k" "\<not> bit c 23" "unat (c AND 0x007fffff) = M"
proof -
  have "M + k * 2 ^ 24 < 2 ^ 32" using assms(1,2) by simp
  then have u: "unat c = M + k * 2 ^ 24" unfolding c_def by (simp only: unat_of_nat) simp
  show "unat (drop_bit 24 c) = k"
    using assms(1) by (simp only: unat_drop_bit_eq u) (simp add: drop_bit_eq_div)
  have "bit c 23 \<longleftrightarrow> bit (M + k * 2 ^ 24) 23" 
    unfolding u [symmetric] by (simp only: bit_unsigned_iff) (simp add: possible_bit_def)
  moreover have "(M + k * 2 ^ 24) div 2 ^ 23 = 2 * k" using assms(1) by simp
  ultimately show "\<not> bit c 23" by (simp add: bit_iff_odd)
  have "c AND 0x007fffff = take_bit 23 c" by (simp add: take_bit_eq_mask mask_eq_exp_minus_1)
  then have "unat (c AND 0x007fffff) = (M + k * 2 ^ 24) mod 2 ^ 23"
    by (simp only: unsigned_take_bit_eq u) (simp only: take_bit_eq_mod)
  also have "k * 2 ^ 24 = (2 * k) * 2 ^ 23" by simp
  also have "(M + (2 * k) * 2 ^ 23) mod 2 ^ 23 = M mod 2 ^ 23" by (rule mod_mult_self1)
  finally show "unat (c AND 0x007fffff) = M" using assms(1) by simp
qed

text \<open>The value of a mantissa and an exponent.\<close>

definition compact_val :: "nat \<Rightarrow> nat \<Rightarrow> nat" where
  "compact_val M k = (if k \<le> 3 then M div 256 ^ (3 - k) else M * 256 ^ (k - 3))"

lemma pow_256: "(2 :: nat) ^ (8 * k) = 256 ^ k" "(2 :: int) ^ (8 * k) = 256 ^ k"
  by (simp_all add: power_mult)

lemma unat_ucast_up: "unat (ucast (w :: uint32) :: uint64) = unat w"
  using unsigned_less [of w, where ?'a = nat] by (simp add: unsigned_ucast_eq take_bit_nat_eq_self_iff)

lemma ucast_word_of_nat: "(ucast (word_of_nat n :: uint64) :: uint32) = word_of_nat n"
  by (rule bit_word_eqI) (auto simp: bit_simps)

lemma SetCompact_pack:
  assumes "bn_ok B" "M < 2 ^ 23" "k < 256"
  shows "SetCompact B (word_of_nat (M + k * 2 ^ 24)) = int (compact_val M k)"
proof -
  let ?c = "word_of_nat (M + k * 2 ^ 24) :: uint32"
  note c = unpack_compact [OF assms(2,3)]
  have w: "uint (ucast (?c AND 0x007fffff) :: uint64) = int M"
    using c(3) by (simp only: uint_nat unat_ucast_up)
  have "uint (ucast (drop_bit (8 * (3 - k)) (?c AND 0x007fffff)) :: uint64) =
      int (unat (drop_bit (8 * (3 - k)) (?c AND 0x007fffff)))"
    by (simp only: uint_nat unat_ucast_up)
  also have "\<dots> = int (M div 256 ^ (3 - k))"
    by (simp only: unat_drop_bit_eq c(3)) (simp only: drop_bit_eq_div pow_256)
  finally have s: "uint (ucast (drop_bit (8 * (3 - k)) (?c AND 0x007fffff)) :: uint64) =
      int (M div 256 ^ (3 - k))" .
  show ?thesis
    unfolding SetCompact_def Let_def c(1) compact_sign_test
    using c(2) s w by (simp add: bn_okD [OF assms(1)] compact_val_def pow_256 del: power_mult)
qed

definition compact_mant :: "nat \<Rightarrow> nat" where
  "compact_mant n =
     (let k = length (be_bytes n) in if k \<le> 3 then n * 256 ^ (3 - k) else n div 256 ^ (k - 3))"

lemma compact_mant_bounds:
  assumes "0 < n"
  shows "compact_mant n < 2 ^ 24" "2 ^ 16 \<le> compact_mant n"
proof -
  define k where "k = length (be_bytes n)"
  note b = be_bytes_bounds [OF assms, folded k_def]
  have "compact_mant n < 2 ^ 24 \<and> 2 ^ 16 \<le> compact_mant n"
  proof (cases "k \<le> 3")
    case True
    then have k: "k = 1 \<or> k = 2 \<or> k = 3" using b(3) by auto
    then show ?thesis using b(1,2) by (auto simp: compact_mant_def Let_def simp flip: k_def)
  next
    case False
    then obtain j where j: "k = j + 3" by (metis add.commute le_Suc_ex nat_le_linear)
    have "(256 :: nat) ^ k = 256 ^ 3 * 256 ^ (k - 3)" "(256 :: nat) ^ (k - 1) = 256 ^ 2 * 256 ^ (k - 3)"
      by (simp_all add: j power_add)
    then have "n div 256 ^ (k - 3) < 256 ^ 3" "256 ^ 2 \<le> n div 256 ^ (k - 3)"
      using b(1,2) by (simp_all only: less_mult_imp_div_less less_eq_div_iff_mult_less_eq zero_less_power zero_less_numeral)
    then show ?thesis using False by (simp add: compact_mant_def Let_def flip: k_def)
  qed
  then show "compact_mant n < 2 ^ 24" "2 ^ 16 \<le> compact_mant n" by auto
qed

lemma GetCompact_mant:
  assumes "bn_ok B" "0 < n"
  defines "M \<equiv> compact_mant n" and "k \<equiv> length (be_bytes n)"
  shows "GetCompact B (int n) =
    (if M < 2 ^ 23 then word_of_nat (M + k * 2 ^ 24) else word_of_nat (M div 256 + (k + 1) * 2 ^ 24))"
proof -
  note M = compact_mant_bounds [OF assms(2), folded M_def]
  have first: "(if k \<le> 3 then (ucast (push_bit (8 * (3 - k)) (BN_get_word B (int n))) :: uint32)
      else ucast (BN_get_word B (bn_ignore 0 (BN_rshift B (int n) (8 * (k - 3)))))) = word_of_nat M"
  proof (cases "k \<le> 3")
    case True
    have "n < 256 ^ k" using be_bytes_bounds(2) [OF assms(2)] by (simp add: k_def)
    also have "\<dots> \<le> 256 ^ 3" using True by (intro power_increasing) simp_all
    finally have "n < 2 ^ 64" by simp
    then have "BN_get_word B (int n) = word_of_nat n" by (simp add: bn_okD [OF assms(1)])
    then have "push_bit (8 * (3 - k)) (BN_get_word B (int n)) = (word_of_nat M :: uint64)"
      using True by (simp add: M_def compact_mant_def Let_def push_bit_eq_mult pow_256 power_mult
          flip: k_def)
    then show ?thesis using True by (simp add: ucast_word_of_nat)
  next
    case False
    have "BN_rshift B (int n) (8 * (k - 3)) = Some (int M)"
      using False assms(2) by (simp add: bn_okD [OF assms(1)] M_def compact_mant_def Let_def pow_256
          zdiv_int flip: k_def)
    moreover have "BN_get_word B (int M) = word_of_nat M" using M(1) by (simp add: bn_okD [OF assms(1)])
    ultimately show ?thesis using False by (simp add: ucast_word_of_nat)
  qed
  have bit: "bit (word_of_nat M :: uint32) 23 \<longleftrightarrow> \<not> M < 2 ^ 23"
    using nat_bit_23 [OF M(1)] by (simp add: bit_simps not_less)
  have drop: "drop_bit 8 (word_of_nat M :: uint32) = word_of_nat (M div 256)"
    using M(1) by (simp only: word_unat_eq_iff unat_drop_bit_eq unat_of_nat) (simp add: drop_bit_eq_div)
  have nb: "BN_num_bytes B (int n) = k" and neg: "BN_is_negative B (int n) = False"
    by (simp_all add: bn_okD [OF assms(1)] k_def)
  have pack: "(word_of_nat M :: uint32) OR push_bit 24 (word_of_nat k) = word_of_nat (M + k * 2 ^ 24)"
    "(word_of_nat (M div 256) :: uint32) OR push_bit 24 (word_of_nat (k + 1)) =
       word_of_nat (M div 256 + (k + 1) * 2 ^ 24)"
    using M(1) by (intro pack_compact; simp)+
  show ?thesis
    unfolding GetCompact_def Let_def compact_sign_test nb first bit drop neg
    by (cases "M < 2 ^ 23") (simp_all only: pack simp_thms if_True if_False prod.case or.right_neutral)
qed

lemma compact_precision:
  assumes "0 < n"
  defines "M \<equiv> compact_mant n" and "k \<equiv> length (be_bytes n)"
  defines "v \<equiv> (if M < 2 ^ 23 then compact_val M k else compact_val (M div 256) (k + 1))"
  shows "v \<le> n \<and> (n - v) * 2 ^ 15 \<le> v"
proof -
  note M = compact_mant_bounds [OF assms(1), folded M_def]
  note b = be_bytes_bounds [OF assms(1), folded k_def]
  show ?thesis
  proof (cases "k \<le> 3")
    case True
    then have "k = 1 \<or> k = 2 \<or> k = 3" using b(3) by auto
    then show ?thesis
      using M b(1,2) unfolding v_def M_def
      by (auto simp: compact_mant_def compact_val_def Let_def simp flip: k_def)
  next
    case False
    then obtain j where j: "k = j + 3" by (metis add.commute le_Suc_ex nat_le_linear)
    let ?p = "256 ^ j :: nat"
    have Mn: "M = n div ?p" using False j by (simp add: M_def compact_mant_def Let_def flip: k_def)
    have le: "a * m \<le> n \<and> n - a * m < m" if "a = n div m" "0 < m" for a m
      using that div_times_less_eq_dividend [of n m] mod_less_divisor [of m n]
      by (simp add: minus_div_mult_eq_mod)
    show ?thesis
    proof (cases "M < 2 ^ 23")
      case True
      then have v: "v = M * ?p" using j False by (simp add: v_def compact_val_def)
      have "(n - v) * 2 ^ 15 \<le> ?p * 2 ^ 16" using le [OF Mn] v by (simp add: mult_le_mono)
      also have "\<dots> \<le> v" using M(2) v by (simp add: mult.commute)
      finally show ?thesis using le [OF Mn] v by simp
    next
      case big: False
      then have v: "v = (M div 256) * (256 * ?p)" using j False by (simp add: v_def compact_val_def)
      have Md: "M div 256 = n div (256 * ?p)" by (simp only: Mn mult.commute [of 256] div_mult2_eq)
      have "2 ^ 15 \<le> M div 256" using big by simp
      then have "(256 * ?p) * 2 ^ 15 \<le> v" using v by (simp add: mult.commute)
      moreover have "(n - v) * 2 ^ 15 \<le> (256 * ?p) * 2 ^ 15"
        using le [OF Md] v by (intro mult_le_mono1) simp
      ultimately have "(n - v) * 2 ^ 15 \<le> v" by (rule le_trans [rotated])
      then show ?thesis using le [OF Md] v by simp
    qed
  qed
qed

lemma compact_val_0 [simp]: "compact_val 0 k = 0"
  by (simp add: compact_val_def)

lemma SetCompact_GetCompact:
  assumes "bn_ok B" "n < 256 ^ 254"
  shows "\<exists>v. SetCompact B (GetCompact B (int n)) = int v \<and> v \<le> n \<and> (n - v) * 2 ^ 15 \<le> v"
proof (cases "n = 0")
  case True
  have "GetCompact B 0 = word_of_nat (0 + 0 * 2 ^ 24)"
    by (simp add: GetCompact_def Let_def bn_okD [OF assms(1)] be_bytes.simps)
  then show ?thesis using SetCompact_pack [OF assms(1), of 0 0] True by simp
next
  case False
  then have pos: "0 < n" by simp
  let ?M = "compact_mant n" and ?k = "length (be_bytes n)"
  have k: "?k \<le> 254" using length_be_bytes_le [OF assms(2)] .
  note M = compact_mant_bounds [OF pos]
  have "SetCompact B (GetCompact B (int n)) =
      int (if ?M < 2 ^ 23 then compact_val ?M ?k else compact_val (?M div 256) (?k + 1))"
    using SetCompact_pack [OF assms(1), of ?M ?k] SetCompact_pack [OF assms(1), of "?M div 256" "?k + 1"]
      M(1) k by (auto simp: GetCompact_mant [OF assms(1) pos] simp del: of_nat_add of_nat_mult of_nat_Suc)
  then show ?thesis using compact_precision [OF pos] by blast
qed

subsection \<open>Hexadecimal round trip\<close>

lemma of_int_res: "bn_ok B \<Longrightarrow> 0 \<le> n \<Longrightarrow> n < 2 ^ 63 \<Longrightarrow> CBigNum_of_int B n = Inr n"
  by (simp add: CBigNum_of_int_def setulong_def bn_okD uint_word_of_int_eq take_bit_int_eq_self)

definition hex_char :: "nat \<Rightarrow> char" where
  "hex_char d = ''0123456789abcdef'' ! d"

lemma hex_char_facts:
  assumes "d < 16"
  shows "isxdigit (hex_char d)" "table_at phexdigit0 (hex_char d) = int d" "\<not> isspace (hex_char d)"
    "hex_char d \<noteq> CHR ''-''" "hex_char d \<noteq> CHR ''x''" "hex_char d \<noteq> CHR ''X''"
    "hex_char d \<noteq> CHR 0x00" "hex_char d = CHR ''0'' \<longleftrightarrow> d = 0"
proof -
  have "list_all (\<lambda>d. isxdigit (hex_char d) \<and> table_at phexdigit0 (hex_char d) = int d \<and>
     \<not> isspace (hex_char d) \<and> hex_char d \<noteq> CHR ''-'' \<and> hex_char d \<noteq> CHR ''x'' \<and>
     hex_char d \<noteq> CHR ''X'' \<and> hex_char d \<noteq> CHR 0x00 \<and> (hex_char d = CHR ''0'' \<longleftrightarrow> d = 0)) [0..<16]"
    by code_simp
  with assms show "isxdigit (hex_char d)" "table_at phexdigit0 (hex_char d) = int d" "\<not> isspace (hex_char d)"
    "hex_char d \<noteq> CHR ''-''" "hex_char d \<noteq> CHR ''x''" "hex_char d \<noteq> CHR ''X''"
    "hex_char d \<noteq> CHR 0x00" "hex_char d = CHR ''0'' \<longleftrightarrow> d = 0"
    by (simp_all add: list_all_iff)
qed

fun hex_digits :: "nat \<Rightarrow> nat list" where
  "hex_digits n = (if n = 0 then [] else n mod 16 # hex_digits (n div 16))"

declare hex_digits.simps [simp del]

lemma digits_loop_hex:
  assumes "bn_ok B"
  shows "n < fuel \<Longrightarrow> digits_loop B fuel 16 (int n) = Inr (Some (map hex_char (hex_digits n)))"
proof (induction fuel arbitrary: n)
  case (Suc fuel)
  show ?case
  proof (cases "n = 0")
    case True
    then show ?thesis by (simp add: bn_okD [OF assms] hex_digits.simps)
  next
    case False
    have "trunc_div (int n) 16 = int (n div 16)" by (simp add: trunc_div_nonneg zdiv_int)
    moreover from this have "int n - trunc_div (int n) 16 * 16 = int (n mod 16)"
      by (simp add: zmod_int minus_div_mult_eq_mod zdiv_int)
    moreover have m: "\<bar>int (n mod 16)\<bar> < 2 ^ 64" 
    proof -
      have "n mod 16 < 16" by simp
      then have "int (n mod 16) < 16" by (simp del: of_nat_mod)
      then show ?thesis by (simp del: of_nat_mod)
    qed
    moreover have "unat (ucast (getulong B (int (n mod 16))) :: uint32) = n mod 16"
    proof -
      have "(ucast (word_of_nat (n mod 16) :: uint64) :: uint32) = word_of_nat (n mod 16)"
        by (rule ucast_word_of_nat)
      moreover have "BN_get_word B (int (n mod 16)) = word_of_nat (n mod 16)"
        using m by (simp add: bn_okD(2) [OF assms] del: of_nat_mod)
      ultimately show ?thesis by (simp add: getulong_def unat_of_nat)
    qed
    moreover have "char_at ''0123456789abcdef'' (n mod 16) = hex_char (n mod 16)"
      by (simp add: char_at_def hex_char_def)
    moreover have "n mod 16 < 16" by simp
    then have "\<not> n mod 16 > 16" by (simp only: not_less less_imp_le)
    moreover have "digits_loop B fuel 16 (int (n div 16)) =
        Inr (Some (map hex_char (hex_digits (n div 16))))"
      using Suc False by (intro Suc.IH) linarith
    ultimately show ?thesis
      using False by (simp add: bn_okD [OF assms] hex_digits.simps [of n] Let_def)
  qed
qed simp

lemma hex_digits_less: "d \<in> set (hex_digits n) \<Longrightarrow> d < 16"
proof (induction n rule: hex_digits.induct)
  case (1 n)
  then show ?case using hex_digits.simps [of n] by (auto split: if_splits)
qed

lemma hex_loop_digits:
  assumes "bn_ok B" "\<forall>d\<in>set ds. d < 16"
  shows "hex_loop B a (map hex_char ds) = Inr (foldl (\<lambda>v d. 16 * v + int d) a ds)"
  using assms(2)
proof (induction ds arbitrary: a)
  case (Cons d ds)
  have "CBigNum_of_int B (int d) = Inr (int d)" using Cons.prems assms(1) by (intro of_int_res) simp_all
  then show ?case
    using Cons hex_char_facts [of d] by (simp add: bn_okD [OF assms(1)] mult.commute)
qed simp

lemma foldl_hex_digits: "foldl (\<lambda>v d. 16 * v + int d) 0 (rev (hex_digits n)) = int n"
proof (induction n rule: hex_digits.induct)
  case (1 n)
  show ?case
  proof (cases "n = 0")
    case True
    then show ?thesis by (simp add: hex_digits.simps [of 0])
  next
    case False
    then show ?thesis using "1.IH" by (simp add: hex_digits.simps [of n] zdiv_int zmod_int)
  qed
qed

lemma hex_digits_last: "0 < n \<Longrightarrow> hex_digits n \<noteq> [] \<and> last (hex_digits n) \<noteq> 0"
proof (induction n rule: hex_digits.induct)
  case (1 n)
  then show ?case
    by (cases "n div 16 = 0") (auto simp: hex_digits.simps [of n] hex_digits.simps [of 0] div_eq_0_iff)
qed

lemma SetHex_digits:
  assumes "bn_ok B" "ds \<noteq> []" "\<forall>d\<in>set ds. d < 16" "length ds = 1 \<or> hd ds \<noteq> 0"
  defines "v \<equiv> foldl (\<lambda>v d. 16 * v + int d) 0 ds"
  shows "SetHex B (map hex_char ds) = Inr v" "SetHex B (CHR ''-'' # map hex_char ds) = Inr (- v)"
proof -
  let ?s = "map hex_char ds"
  obtain d ds' where ds: "ds = d # ds'" using assms(2) by (cases ds) auto
  have d: "\<not> isspace (hex_char d)" "hex_char d \<noteq> CHR ''-''" "d = 0 \<Longrightarrow> ds' = []"
    using hex_char_facts [of d] assms(3,4) ds by auto
  have nul: "c_str ?s = ?s" "c_str (CHR ''-'' # ?s) = CHR ''-'' # ?s"
    using assms(3) hex_char_facts(7) by (auto simp: c_str_def takeWhile_eq_all_conv)
  have sp: "dropWhile isspace ?s = ?s" "\<not> isspace (CHR ''-'')"
    using d ds by (simp_all add: isspace_def)
  have x: "(char_at ?s 0 = CHR ''0'' \<and> char_at ?s 1 \<in> {CHR ''x'', CHR ''X''}) = False"
    using d(3) ds hex_char_facts(8) [of d] assms(3) by (auto simp: char_at_def)
  have m: "char_at ?s 0 \<noteq> CHR ''-''" "char_at (CHR ''-'' # ?s) 0 = CHR ''-''"
    using d ds by (simp_all add: char_at_def)
  show "SetHex B ?s = Inr v"
    unfolding SetHex_def Let_def nul sp using m x
    by (simp only: if_False sp hex_loop_digits [OF assms(1,3)] bind_res_simps simp_thms v_def)
  show "SetHex B (CHR ''-'' # ?s) = Inr (- v)"
    unfolding SetHex_def Let_def nul using m x sp
    by (simp only: if_False if_True dropWhile.simps list.sel hex_loop_digits [OF assms(1,3)] bind_res_simps
        simp_thms bn_okD(11) [OF assms(1)] bn_check_Some v_def diff_0)
qed

lemma SetHex_GetHex:
  assumes "bn_ok B"
  shows "\<exists>str. GetHex B a = Inr (Some str) \<and> SetHex B str = Inr a"
proof (cases "a = 0")
  case True
  have "SetHex B (map hex_char [0]) = Inr 0"
    using SetHex_digits(1) [OF assms, of "[0]"] by simp
  moreover have "GetHex B 0 = Inr (Some (map hex_char [0]))"
    by (simp add: GetHex_def CBigNum_ToString_def of_int_res [OF assms] bn_okD [OF assms] Let_def
        hex_char_def)
  ultimately show ?thesis using True by blast
next
  case False
  define n where "n = nat \<bar>a\<bar>"
  then have n: "0 < n" "\<bar>a\<bar> = int n" using False by simp_all
  let ?ds = "rev (hex_digits n)"
  have loop: "digits_loop B (Suc (nat \<bar>a\<bar>)) 16 \<bar>a\<bar> = Inr (Some (map hex_char (hex_digits n)))"
    using digits_loop_hex [OF assms, of n "Suc n"] by (simp add: n(2))
  have ds: "?ds \<noteq> []" "\<forall>d\<in>set ?ds. d < 16" "hd ?ds \<noteq> 0"
    using hex_digits_last [OF n(1)] hex_digits_less by (auto simp: hd_rev)
  have "GetHex B a = Inr (Some (if a < 0 then CHR ''-'' # map hex_char ?ds else map hex_char ?ds))"
    unfolding GetHex_def CBigNum_ToString_def Let_def
    using False loop by (simp add: of_int_res [OF assms] bn_okD [OF assms] rev_map)
  moreover have "a = (if a < 0 then - int n else int n)" using n(2) by auto
  ultimately show ?thesis
    using SetHex_digits [OF assms ds(1,2)] ds(3) foldl_hex_digits [of n] by auto
qed

subsection \<open>Properties\<close>

text \<open>A BIGNUM library that meets the contract.\<close>

definition bn_std :: bn_ops where
  "bn_std = \<lparr> BN_set_word = (\<lambda>n. Some (uint n)),
     BN_get_word = (\<lambda>a. if \<bar>a\<bar> < 2 ^ 64 then word_of_int \<bar>a\<bar> else - 1),
     BN_is_negative = (\<lambda>a. a < 0), BN_set_negative = (\<lambda>a s. if s then - \<bar>a\<bar> else \<bar>a\<bar>),
     BN_lshift = (\<lambda>a n. Some (a * 2 ^ n)), BN_rshift = (\<lambda>a n. Some (sgn a * (\<bar>a\<bar> div 2 ^ n))),
     BN_num_bytes = (\<lambda>a. length (be_bytes (nat \<bar>a\<bar>))), BN_mpi2bn = (\<lambda>p. mpi_val (drop 4 p)),
     BN_bn2mpi = (\<lambda>a. be32 (length (mpi_body a)) @ mpi_body a),
     BN_add = (\<lambda>a b. Some (a + b)), BN_sub = (\<lambda>a b. Some (a - b)), BN_mul = (\<lambda>a b. Some (a * b)),
     BN_div = (\<lambda>a b. if b = 0 then None else Some (trunc_div a b, a - trunc_div a b * b)),
     BN_cmp = (\<lambda>a b. sgn (a - b)) \<rparr>"

lemma bn_ok_std: "bn_ok bn_std"
  by (simp add: bn_ok_def bn_std_def)

text \<open>Machine integers survive the conversion: \<open>setint64\<close> is exact on the whole signed range,
  including the minimum, \<open>setuint64\<close> and \<open>setuint256\<close> are exact, and \<open>getuint256\<close> gives the
  magnitude modulo 2^256, so it inverts \<open>setuint256\<close>.\<close>

theorem CBigNum_conversions:
  assumes "bn_ok B" "- (2 ^ 63) \<le> sn" "sn < 2 ^ 63"
  shows "setint64 B sn = sn \<and> setuint64 B n = uint n \<and> setuint256 B w = uint w \<and>
    getuint256 B a = word_of_int \<bar>a\<bar> \<and> getuint256 B (setuint256 B w) = w"
  using setint64_eq [OF assms] setuint64_eq [OF assms(1)] setuint256_eq [OF assms(1)]
    getuint256_eq [OF assms(1)] by simp

theorem CBigNum_conversions_witness:
  "setint64 bn_std (- (2 ^ 63)) = - (2 ^ 63) \<and> setuint64 bn_std (- 1) = uint (- 1 :: uint64) \<and>
   setuint256 bn_std 300 = uint (300 :: uint256) \<and> getuint256 bn_std (- 70000) = 70000 \<and>
   getuint256 bn_std (setuint256 bn_std 300) = 300"
proof -
  have r: "- (2 ^ 63) \<le> (- (2 ^ 63) :: int)" "- (2 ^ 63) < (2 ^ 63 :: int)"
    "word_of_int \<bar>- 70000\<bar> = (70000 :: uint256)" by simp_all
  show ?thesis
    using CBigNum_conversions [OF bn_ok_std r(1,2), of "- 1" 300 "- 70000"] unfolding r(3) .
qed

text \<open>The compact encoding of a target never exceeds the target and keeps at least fifteen
  significant bits of it.\<close>

theorem Compact_precision:
  assumes "bn_ok B" "0 \<le> n" "n < 256 ^ 254"
  defines "v \<equiv> SetCompact B (GetCompact B n)"
  shows "0 \<le> v \<and> v \<le> n \<and> (n - v) * 2 ^ 15 \<le> v"
proof -
  have "nat n < nat (256 ^ 254)" using assms(2,3) by (subst nat_less_eq_zless) simp_all
  then have "nat n < 256 ^ 254" by (simp add: nat_power_eq)
  from SetCompact_GetCompact [OF assms(1) this] obtain v' where
    "v = int v'" "v' \<le> nat n" "(nat n - v') * 2 ^ 15 \<le> v'" using assms(2) by (auto simp: v_def)
  then show ?thesis
    using assms(2) by (simp add: of_nat_diff flip: of_nat_le_iff [where ?'a = int])
qed

theorem Compact_precision_witness:
  "0 \<le> SetCompact bn_std (GetCompact bn_std 0x123456789a) \<and>
   SetCompact bn_std (GetCompact bn_std 0x123456789a) \<le> 0x123456789a \<and>
   (0x123456789a - SetCompact bn_std (GetCompact bn_std 0x123456789a)) * 2 ^ 15
      \<le> SetCompact bn_std (GetCompact bn_std 0x123456789a)"
  by (rule Compact_precision [OF bn_ok_std]) simp_all

text \<open>The byte vector and hexadecimal forms are faithful: \<open>setvch\<close> inverts \<open>getvch\<close>, and
  \<open>SetHex\<close> inverts \<open>GetHex\<close>, which returns, for every integer, negative ones included.\<close>

theorem CBigNum_text_roundtrip:
  assumes "bn_ok B" "length (getvch B a) < 2 ^ 32"
  shows "setvch B (getvch B a) = a \<and> (\<exists>str. GetHex B a = Inr (Some str) \<and> SetHex B str = Inr a)"
  using setvch_getvch [OF assms] SetHex_GetHex [OF assms(1)] by blast

theorem CBigNum_text_roundtrip_witness:
  "setvch bn_std (getvch bn_std (- 200)) = - 200 \<and>
   (\<exists>str. GetHex bn_std (- 200) = Inr (Some str) \<and> SetHex bn_std str = Inr (- 200))"
proof (rule CBigNum_text_roundtrip [OF bn_ok_std])
  have "length (getvch bn_std (- 200)) = 2"
    by (simp add: getvch_def bn_std_def Let_def mpi_body_def be_bytes.simps)
  then show "length (getvch bn_std (- 200)) < 2 ^ 32" by simp
qed

text \<open>\<open>operator>>\<close> divides a non-negative number by the power of two, and turns every negative
  number into zero.\<close>

theorem bn_shr_result:
  assumes "bn_ok B"
  shows "bn_shr B a shift = Inr (if a < 0 then 0 else a div 2 ^ unat shift)"
proof (cases "2 ^ unat shift > a")
  case True
  then show ?thesis
    by (auto simp: bn_shr_def of_int_res [OF assms] bn_okD [OF assms] div_pos_pos_trivial)
next
  case False
  then have "0 < a" by (metis less_le_trans linorder_not_less zero_less_numeral zero_less_power)
  with False show ?thesis by (simp add: bn_shr_def of_int_res [OF assms] bn_okD [OF assms])
qed

theorem bn_shr_result_witness:
  "bn_shr bn_std 1000 3 = Inr 125 \<and> bn_shr bn_std (- 1000) 3 = Inr 0"
  using bn_shr_result [OF bn_ok_std, of 1000 3] bn_shr_result [OF bn_ok_std, of "- 1000" 3] by simp

end
