(* ===== verification/Keys.thy ===== *)
theory Keys
  imports BigNum
begin

text \<open>
  \<open>CPubKey\<close> and \<open>CKey\<close> of \<open>key.h\<close> and \<open>key.cpp\<close>.  \<open>CECKey\<close>, the wrapper around OpenSSL's
  elliptic-curve keys, is the record \<open>ec_ops\<close>; the compact sizes and the bounded reads of
  \<open>serialize.h\<close> are the record \<open>blob_ops\<close>.  The arrays \<open>vch\<close> are lists of their fixed length:
  65 bytes for a public key, 32 for a private key.
\<close>

type_synonym uint160 = "160 word"

record blob_ops =
  WriteCompactSize :: "nat \<Rightarrow> bytes"
  ReadCompactSize :: "bytes \<Rightarrow> (nat \<times> bytes) option"
  stream_read :: "nat \<Rightarrow> bytes \<Rightarrow> (bytes \<times> bytes) option"

definition blob_ok :: "blob_ops \<Rightarrow> bool" where
  "blob_ok Q \<longleftrightarrow>
     (\<forall>n r. ReadCompactSize Q (WriteCompactSize Q n @ r) = Some (n, r)) \<and>
     (\<forall>n. n < 253 \<longrightarrow> length (WriteCompactSize Q n) = 1) \<and>
     (\<forall>p r. stream_read Q (length p) (p @ r) = Some (p, r)) \<and>
     (\<forall>n s p r. stream_read Q n s = Some (p, r) \<longrightarrow> s = p @ r \<and> length p = n)"

text \<open>\<open>CECKey\<close>: public key from the secret bytes, parsing and re-serialising a public key, public
  key recovery.\<close>

record ec_ops =
  ec_pub_of_secret :: "bytes \<Rightarrow> bool \<Rightarrow> bytes"
  ec_parse_pub :: "bytes \<Rightarrow> bool"
  ec_convert_pub :: "bytes \<Rightarrow> bool \<Rightarrow> bytes"
  ec_sign :: "bytes \<Rightarrow> uint256 \<Rightarrow> bytes option"
  ec_verify :: "bytes \<Rightarrow> uint256 \<Rightarrow> bytes \<Rightarrow> bool"
  ec_sign_compact :: "bytes \<Rightarrow> uint256 \<Rightarrow> (bytes \<times> int) option"
  ec_recover :: "uint256 \<Rightarrow> bytes \<Rightarrow> int \<Rightarrow> (bool \<Rightarrow> bytes) option"
  ec_secret_of_priv :: "bytes \<Rightarrow> bytes option"
  ec_priv_of_secret :: "bytes \<Rightarrow> bytes"

subsection \<open>CPubKey\<close>

record CPubKey =
  pk_vch :: bytes

definition CPubKey_wf :: "CPubKey \<Rightarrow> bool" where
  "CPubKey_wf k \<longleftrightarrow> length (pk_vch k) = 65"

definition GetLen :: "byte \<Rightarrow> nat" where
  "GetLen chHeader =
     (if chHeader = 2 \<or> chHeader = 3 then 33
      else if chHeader = 4 \<or> chHeader = 6 \<or> chHeader = 7 then 65
      else 0)"

definition CPubKey_Invalidate :: "CPubKey \<Rightarrow> CPubKey" where
  "CPubKey_Invalidate k = k\<lparr> pk_vch := (pk_vch k)[0 := 0xFF] \<rparr>"

definition CPubKey_Set :: "bytes \<Rightarrow> CPubKey \<Rightarrow> CPubKey" where
  "CPubKey_Set p k =
     (let len = (if p = [] then 0 else GetLen (p ! 0)) in
      if len \<noteq> 0 \<and> len = length p then k\<lparr> pk_vch := p @ drop len (pk_vch k) \<rparr>
      else CPubKey_Invalidate k)"

definition CPubKey_size :: "CPubKey \<Rightarrow> nat" where
  "CPubKey_size k = GetLen (pk_vch k ! 0)"

text \<open>The range from \<open>begin()\<close> to \<open>end()\<close>.\<close>

definition CPubKey_data :: "CPubKey \<Rightarrow> bytes" where
  "CPubKey_data k = take (CPubKey_size k) (pk_vch k)"

definition CPubKey_eq :: "CPubKey \<Rightarrow> CPubKey \<Rightarrow> bool" where
  "CPubKey_eq a b \<longleftrightarrow> pk_vch a ! 0 = pk_vch b ! 0 \<and>
     memcmp (take (CPubKey_size a) (pk_vch a)) (take (CPubKey_size a) (pk_vch b)) = 0"

definition CPubKey_less :: "CPubKey \<Rightarrow> CPubKey \<Rightarrow> bool" where
  "CPubKey_less a b \<longleftrightarrow> pk_vch a ! 0 < pk_vch b ! 0 \<or>
     (pk_vch a ! 0 = pk_vch b ! 0 \<and>
      memcmp (take (CPubKey_size a) (pk_vch a)) (take (CPubKey_size a) (pk_vch b)) < 0)"

definition CPubKey_IsValid :: "CPubKey \<Rightarrow> bool" where
  "CPubKey_IsValid k \<longleftrightarrow> CPubKey_size k > 0"

definition CPubKey_IsCompressed :: "CPubKey \<Rightarrow> bool" where
  "CPubKey_IsCompressed k \<longleftrightarrow> CPubKey_size k = 33"

definition CPubKey_GetID :: "'c sha_ops \<Rightarrow> CPubKey \<Rightarrow> uint160" where
  "CPubKey_GetID S k = Hash160 S (CPubKey_data k)"

definition CPubKey_GetHash :: "'c sha_ops \<Rightarrow> CPubKey \<Rightarrow> uint256" where
  "CPubKey_GetHash S k = Hash S (CPubKey_data k)"

definition CPubKey_GetSerializeSize :: "CPubKey \<Rightarrow> nat" where
  "CPubKey_GetSerializeSize k = CPubKey_size k + 1"

definition CPubKey_Serialize :: "blob_ops \<Rightarrow> CPubKey \<Rightarrow> bytes" where
  "CPubKey_Serialize Q k =
     (let len = CPubKey_size k in WriteCompactSize Q len @ take len (pk_vch k))"

text \<open>\<open>s.read\<close> throws when the stream has too few bytes.  In the second branch the bytes are read
  one by one into a dummy; reading them at once fails in the same cases.\<close>

definition CPubKey_Unserialize :: "blob_ops \<Rightarrow> bytes \<Rightarrow> CPubKey \<Rightarrow> (CPubKey \<times> bytes) option" where
  "CPubKey_Unserialize Q s k =
     (case ReadCompactSize Q s of
        None \<Rightarrow> None
      | Some (len, s1) \<Rightarrow>
          (case stream_read Q len s1 of
             None \<Rightarrow> None
           | Some (p, s2) \<Rightarrow>
               if len \<le> 65 then Some (k\<lparr> pk_vch := p @ drop len (pk_vch k) \<rparr>, s2)
               else Some (CPubKey_Invalidate k, s2)))"

definition CPubKey_Verify :: "ec_ops \<Rightarrow> CPubKey \<Rightarrow> uint256 \<Rightarrow> bytes \<Rightarrow> bool" where
  "CPubKey_Verify E k h vchSig =
     (if \<not> CPubKey_IsValid k then False
      else if \<not> ec_parse_pub E (CPubKey_data k) then False
      else if \<not> ec_verify E (CPubKey_data k) h vchSig then False
      else True)"

text \<open>\<open>(vchSig[0] - 27) & ~4\<close> and \<open>(vchSig[0] - 27) & 4\<close> on \<open>int\<close>.\<close>

definition CPubKey_RecoverCompact ::
  "ec_ops \<Rightarrow> uint256 \<Rightarrow> bytes \<Rightarrow> CPubKey \<Rightarrow> bool \<times> CPubKey" where
  "CPubKey_RecoverCompact E h vchSig k =
     (if length vchSig \<noteq> 65 then (False, k)
      else let rec = uint (vchSig ! 0) - 27 in
        case ec_recover E h (drop 1 vchSig) (rec AND NOT 4) of
          None \<Rightarrow> (False, k)
        | Some pub \<Rightarrow> (True, CPubKey_Set (pub (rec AND 4 \<noteq> 0)) k))"

definition CPubKey_VerifyCompact :: "ec_ops \<Rightarrow> CPubKey \<Rightarrow> uint256 \<Rightarrow> bytes \<Rightarrow> bool" where
  "CPubKey_VerifyCompact E k h vchSig =
     (if \<not> CPubKey_IsValid k then False
      else if length vchSig \<noteq> 65 then False
      else case ec_recover E h (drop 1 vchSig) ((uint (vchSig ! 0) - 27) AND NOT 4) of
          None \<Rightarrow> False
        | Some pub \<Rightarrow>
            CPubKey_eq k (CPubKey_Set (pub (CPubKey_IsCompressed k)) \<lparr> pk_vch = replicate 65 0 \<rparr>))"

definition CPubKey_IsFullyValid :: "ec_ops \<Rightarrow> CPubKey \<Rightarrow> bool" where
  "CPubKey_IsFullyValid E k \<longleftrightarrow> CPubKey_IsValid k \<and> ec_parse_pub E (CPubKey_data k)"

definition CPubKey_Decompress :: "ec_ops \<Rightarrow> CPubKey \<Rightarrow> bool \<times> CPubKey" where
  "CPubKey_Decompress E k =
     (if \<not> CPubKey_IsValid k then (False, k)
      else if \<not> ec_parse_pub E (CPubKey_data k) then (False, k)
      else (True, CPubKey_Set (ec_convert_pub E (CPubKey_data k) False) k))"

subsection \<open>CKey\<close>

record CKey =
  fValid :: bool
  fCompressed :: bool
  ck_vch :: bytes

definition vchMax :: bytes where
  "vchMax =
     [0xFF,0xFF,0xFF,0xFF,0xFF,0xFF,0xFF,0xFF,
      0xFF,0xFF,0xFF,0xFF,0xFF,0xFF,0xFF,0xFE,
      0xBA,0xAE,0xDC,0xE6,0xAF,0x48,0xA0,0x3B,
      0xBF,0xD2,0x5E,0x8C,0xD0,0x36,0x41,0x40]"

fun check_loop :: "bytes \<Rightarrow> bytes \<Rightarrow> bool" where
  "check_loop (v # vs) (m # ms) = (if v < m then True else if v > m then False else check_loop vs ms)"
| "check_loop _ _ = True"

definition CKey_Check :: "bytes \<Rightarrow> bool" where
  "CKey_Check vch =
     (if \<forall>i\<in>set [0..<32]. vch ! i = 0 then False else check_loop vch vchMax)"

definition CKey_Set :: "bytes \<Rightarrow> bool \<Rightarrow> CKey \<Rightarrow> CKey" where
  "CKey_Set p fCompressedIn k =
     (if length p \<noteq> 32 then k\<lparr> fValid := False \<rparr>
      else if CKey_Check p then k\<lparr> ck_vch := p, fValid := True, fCompressed := fCompressedIn \<rparr>
      else k\<lparr> fValid := False \<rparr>)"

definition CKey_size :: "CKey \<Rightarrow> nat" where
  "CKey_size k = (if fValid k then 32 else 0)"

definition CKey_data :: "CKey \<Rightarrow> bytes" where
  "CKey_data k = take (CKey_size k) (ck_vch k)"

text \<open>The random generator gives a list of candidate arrays; \<^term>\<open>None\<close> when all of them are
  rejected.\<close>

fun MakeNewKey :: "bool \<Rightarrow> bytes list \<Rightarrow> CKey \<Rightarrow> CKey option" where
  "MakeNewKey fCompressedIn [] k = None"
| "MakeNewKey fCompressedIn (r # rs) k =
     (if \<not> CKey_Check r then MakeNewKey fCompressedIn rs k
      else Some (k\<lparr> ck_vch := r, fValid := True, fCompressed := fCompressedIn \<rparr>))"

definition CKey_SetPrivKey :: "ec_ops \<Rightarrow> bytes \<Rightarrow> bool \<Rightarrow> CKey \<Rightarrow> bool \<times> CKey" where
  "CKey_SetPrivKey E privkey fCompressedIn k =
     (case ec_secret_of_priv E privkey of
        None \<Rightarrow> (False, k)
      | Some sec \<Rightarrow> (True, k\<lparr> ck_vch := sec, fCompressed := fCompressedIn, fValid := True \<rparr>))"

definition CKey_GetPrivKey :: "ec_ops \<Rightarrow> CKey \<Rightarrow> bytes res" where
  "CKey_GetPrivKey E k =
     (if \<not> fValid k then Inl AssertFailed else Inr (ec_priv_of_secret E (ck_vch k)))"

definition CKey_GetPubKey :: "ec_ops \<Rightarrow> CKey \<Rightarrow> CPubKey res" where
  "CKey_GetPubKey E k =
     (if \<not> fValid k then Inl AssertFailed
      else Inr (CPubKey_Set (ec_pub_of_secret E (ck_vch k) (fCompressed k))
                  \<lparr> pk_vch = replicate 65 0 \<rparr>))"

definition CKey_Sign :: "ec_ops \<Rightarrow> CKey \<Rightarrow> uint256 \<Rightarrow> bytes option" where
  "CKey_Sign E k h = (if \<not> fValid k then None else ec_sign E (ck_vch k) h)"

definition CKey_SignCompact :: "ec_ops \<Rightarrow> CKey \<Rightarrow> uint256 \<Rightarrow> bytes option res" where
  "CKey_SignCompact E k h =
     (if \<not> fValid k then Inr None
      else case ec_sign_compact E (ck_vch k) h of
        None \<Rightarrow> Inr None
      | Some (sig, rec) \<Rightarrow>
          if rec = - 1 then Inl AssertFailed
          else Inr (Some (word_of_int (27 + rec + (if fCompressed k then 4 else 0)) # sig)))"

subsection \<open>Facts\<close>

lemma memcmp_be_val:
  "length xs = length ys \<Longrightarrow> memcmp xs ys = sgn (int (be_val xs) - int (be_val ys))"
proof (induction xs ys rule: memcmp.induct)
  case (1 x xs y ys)
  let ?p = "256 ^ length xs :: nat"
  have l: "be_val xs < ?p" "be_val ys < ?p" using be_val_less [of xs] be_val_less [of ys] "1.prems" by simp_all
  have mono: "unat a * ?p + u < unat b * ?p + v" if "a < b" "u < ?p" for a b :: byte and u v
  proof -
    have "Suc (unat a) * ?p \<le> unat b * ?p" using that(1) by (intro mult_le_mono1) (simp add: word_less_nat_alt)
    then show ?thesis using that(2) by simp
  qed
  consider "x < y" | "y < x" | "x = y" by fastforce
  then show ?case
  proof cases
    case 1
    then have "be_val (x # xs) < be_val (y # ys)"
      using mono [of x y "be_val xs" "be_val ys"] l "1.prems" by (simp add: be_val_Cons)
    then show ?thesis using 1 by (simp add: sgn_if)
  next
    case 2
    then have "be_val (y # ys) < be_val (x # xs)"
      using mono [of y x "be_val ys" "be_val xs"] l "1.prems" by (simp add: be_val_Cons)
    then show ?thesis using 2 by (auto simp: sgn_if)
  next
    case 3
    then show ?thesis using 1 by (simp add: be_val_Cons)
  qed
qed (auto simp: be_val_Nil)

lemma check_loop_memcmp: "length vs = length ms \<Longrightarrow> check_loop vs ms \<longleftrightarrow> memcmp vs ms \<le> 0"
  by (induction vs ms rule: check_loop.induct) auto

text \<open>The order of the secp256k1 group.\<close>

definition secp256k1_n :: nat where
  "secp256k1_n = 0xFFFFFFFFFFFFFFFFFFFFFFFFFFFFFFFEBAAEDCE6AF48A03BBFD25E8CD0364141"

lemma vchMax_val: "Suc (be_val vchMax) = secp256k1_n" "length vchMax = 32"
  by (simp_all add: vchMax_def be_val_def secp256k1_n_def)

lemma be_val_eq_0: "be_val bs = 0 \<longleftrightarrow> (\<forall>b\<in>set bs. b = 0)"
  by (induction bs) (auto simp: be_val_Cons unat_eq_zero)

lemma CPubKey_wf_Invalidate [inv_intros]: "CPubKey_wf k \<Longrightarrow> CPubKey_wf (CPubKey_Invalidate k)"
  by (simp add: CPubKey_wf_def CPubKey_Invalidate_def)

lemma GetLen_cases: "GetLen b = 0 \<or> GetLen b = 33 \<or> GetLen b = 65"
  by (simp add: GetLen_def)

lemma CPubKey_wf_Set [inv_intros]: "CPubKey_wf k \<Longrightarrow> CPubKey_wf (CPubKey_Set p k)"
  using GetLen_cases [of "p ! 0"] CPubKey_wf_Invalidate [of k]
  by (auto simp: CPubKey_Set_def CPubKey_wf_def Let_def)

lemma Invalidate_not_valid: "CPubKey_wf k \<Longrightarrow> \<not> CPubKey_IsValid (CPubKey_Invalidate k)"
  by (auto simp: CPubKey_IsValid_def CPubKey_size_def CPubKey_Invalidate_def CPubKey_wf_def GetLen_def)

lemma CPubKey_size_le: "CPubKey_size k \<le> 65"
  using GetLen_cases [of "pk_vch k ! 0"] by (auto simp: CPubKey_size_def)

lemma CPubKey_eq_data:
  "CPubKey_wf a \<Longrightarrow> CPubKey_wf b \<Longrightarrow>
     CPubKey_eq a b \<longleftrightarrow> pk_vch a ! 0 = pk_vch b ! 0 \<and> CPubKey_data a = CPubKey_data b"
  by (auto simp: CPubKey_eq_def CPubKey_data_def CPubKey_size_def CPubKey_wf_def memcmp_eq_0)

lemma blob_okD:
  assumes "blob_ok Q"
  shows "ReadCompactSize Q (WriteCompactSize Q n @ r) = Some (n, r)"
    "n < 253 \<Longrightarrow> length (WriteCompactSize Q n) = 1"
    "stream_read Q (length p) (p @ r) = Some (p, r)"
    "stream_read Q n s = Some (p, r) \<Longrightarrow> s = p @ r \<and> length p = n"
  using assms unfolding blob_ok_def by blast+

subsection \<open>Properties\<close>

text \<open>\<open>CKey::Check\<close> accepts exactly the 32-byte arrays whose big-endian value is a valid
  secret for secp256k1, from one to the group order less one.\<close>

theorem CKey_Check_range:
  assumes "length vch = 32"
  shows "CKey_Check vch \<longleftrightarrow> 0 < be_val vch \<and> be_val vch < secp256k1_n"
proof -
  have "(\<forall>i\<in>set [0..<32]. vch ! i = 0) \<longleftrightarrow> be_val vch = 0"
    using assms unfolding be_val_eq_0 all_set_conv_all_nth [of vch] by (simp add: Ball_def)
  moreover have "check_loop vch vchMax \<longleftrightarrow> be_val vch < secp256k1_n"
    using assms vchMax_val by (auto simp: check_loop_memcmp memcmp_be_val sgn_if split: if_splits)
  ultimately show ?thesis by (auto simp: CKey_Check_def)
qed

theorem CKey_Check_range_witness:
  "CKey_Check (replicate 31 0 @ [7]) \<longleftrightarrow>
     0 < be_val (replicate 31 0 @ [7]) \<and> be_val (replicate 31 0 @ [7]) < secp256k1_n"
  by (rule CKey_Check_range) simp

text \<open>A public key read back from its serialised form compares equal to the original, and the
  size announced is the number of bytes written.\<close>

theorem CPubKey_roundtrip:
  assumes "blob_ok Q" "CPubKey_wf k" "CPubKey_wf k0" "CPubKey_IsValid k"
  shows "\<exists>k'. CPubKey_Unserialize Q (CPubKey_Serialize Q k @ r) k0 = Some (k', r) \<and>
    CPubKey_wf k' \<and> CPubKey_eq k' k \<and>
    length (CPubKey_Serialize Q k) = CPubKey_GetSerializeSize k"
proof -
  let ?n = "CPubKey_size k"
  let ?k' = "k0\<lparr> pk_vch := take ?n (pk_vch k) @ drop ?n (pk_vch k0) \<rparr>"
  have n: "?n \<le> 65" "0 < ?n" using CPubKey_size_le assms(4) by (simp_all add: CPubKey_IsValid_def)
  have len: "length (take ?n (pk_vch k)) = ?n" using n assms(2) by (simp add: CPubKey_wf_def)
  have "stream_read Q (length (take ?n (pk_vch k))) (take ?n (pk_vch k) @ r) = Some (take ?n (pk_vch k), r)"
    by (rule blob_okD(3) [OF assms(1)])
  then have "stream_read Q ?n (take ?n (pk_vch k) @ r) = Some (take ?n (pk_vch k), r)"
    by (simp only: len)
  then have "CPubKey_Unserialize Q (CPubKey_Serialize Q k @ r) k0 = Some (?k', r)"
    using n by (simp add: CPubKey_Unserialize_def CPubKey_Serialize_def Let_def blob_okD(1) [OF assms(1)])
  moreover have "CPubKey_wf ?k'" using n assms(2,3) by (simp add: CPubKey_wf_def)
  moreover have "pk_vch ?k' ! 0 = pk_vch k ! 0" using n len by (simp add: nth_append)
  then have "CPubKey_eq ?k' k"
    using len n by (simp add: CPubKey_eq_def CPubKey_size_def memcmp_eq_0 CPubKey_wf_def)
  moreover have "length (CPubKey_Serialize Q k) = CPubKey_GetSerializeSize k"
    using n len by (simp add: CPubKey_Serialize_def CPubKey_GetSerializeSize_def Let_def blob_okD(2) [OF assms(1)])
  ultimately show ?thesis by blast
qed

text \<open>A stream with one-byte sizes below 253 and unary sizes above.\<close>

definition demo_blob :: blob_ops where
  "demo_blob = \<lparr>
     WriteCompactSize = (\<lambda>n. if n < 253 then [word_of_nat n] else 255 # replicate n 1 @ [0]),
     ReadCompactSize = (\<lambda>s. case s of [] \<Rightarrow> None
       | b # r \<Rightarrow> if b = 255 then Some (length (takeWhile (\<lambda>x. x = 1) r), drop 1 (dropWhile (\<lambda>x. x = 1) r))
                  else Some (unat b, r)),
     stream_read = (\<lambda>n s. if n \<le> length s then Some (take n s, drop n s) else None) \<rparr>"

lemma demo_blob_ok: "blob_ok demo_blob"
proof -
  have "word_of_nat n \<noteq> (255 :: byte)" "unat (word_of_nat n :: byte) = n" if "n < 253" for n
    using that by (auto simp: word_unat_eq_iff unat_of_nat)
  moreover have "takeWhile (\<lambda>x. x = 1) (replicate n 1 @ 0 # r) = replicate n (1 :: byte)"
    "dropWhile (\<lambda>x. x = 1) (replicate n 1 @ 0 # r) = (0 :: byte) # r" for n r
    by (induction n) simp_all
  ultimately show ?thesis
    by (auto simp: blob_ok_def demo_blob_def split: if_splits)
qed

theorem CPubKey_roundtrip_witness:
  "\<exists>k'. CPubKey_Unserialize demo_blob
      (CPubKey_Serialize demo_blob \<lparr> pk_vch = 4 # replicate 64 9 \<rparr> @ [1]) \<lparr> pk_vch = replicate 65 0 \<rparr> =
        Some (k', [1]) \<and>
    CPubKey_wf k' \<and> CPubKey_eq k' \<lparr> pk_vch = 4 # replicate 64 9 \<rparr> \<and>
    length (CPubKey_Serialize demo_blob \<lparr> pk_vch = 4 # replicate 64 9 \<rparr>) =
      CPubKey_GetSerializeSize \<lparr> pk_vch = 4 # replicate 64 9 \<rparr>"
  by (rule CPubKey_roundtrip [OF demo_blob_ok])
    (simp_all add: CPubKey_wf_def CPubKey_IsValid_def CPubKey_size_def GetLen_def)

text \<open>\<open>CPubKey::Unserialize\<close> does not check that the announced length fits the header byte: a
  one-byte record with header 2 gives a key that \<open>IsValid\<close> accepts and whose other 32 bytes are
  whatever the object held before.\<close>

theorem CPubKey_Unserialize_stale:
  assumes "blob_ok Q" "CPubKey_wf k0"
  shows "\<exists>k'. CPubKey_Unserialize Q (WriteCompactSize Q 1 @ [2]) k0 = Some (k', []) \<and>
    CPubKey_IsValid k' \<and> CPubKey_size k' = 33 \<and> drop 1 (CPubKey_data k') = take 32 (drop 1 (pk_vch k0))"
proof -
  have "stream_read Q (Suc 0) [2] = Some ([2], [])"
    using blob_okD(3) [OF assms(1), of "[2]" "[]"] by simp
  then have "CPubKey_Unserialize Q (WriteCompactSize Q 1 @ [2]) k0 =
      Some (k0\<lparr> pk_vch := 2 # drop 1 (pk_vch k0) \<rparr>, [])"
    by (simp add: CPubKey_Unserialize_def blob_okD(1) [OF assms(1)])
  then show ?thesis
    by (simp add: CPubKey_IsValid_def CPubKey_size_def CPubKey_data_def GetLen_def drop_take)
qed

theorem CPubKey_Unserialize_stale_witness:
  "\<exists>k'. CPubKey_Unserialize demo_blob (WriteCompactSize demo_blob 1 @ [2]) \<lparr> pk_vch = replicate 65 0 \<rparr> =
      Some (k', []) \<and>
    CPubKey_IsValid k' \<and> CPubKey_size k' = 33 \<and>
    drop 1 (CPubKey_data k') = take 32 (drop 1 (pk_vch \<lparr> pk_vch = replicate 65 0 \<rparr>))"
  by (rule CPubKey_Unserialize_stale [OF demo_blob_ok]) (simp add: CPubKey_wf_def)

end
