(* ===== verification/Base58.thy ===== *)
theory Base58
  imports Core Keys
begin

text \<open>
  \<open>base58.h\<close>: the Base58 codec on top of \<open>CBigNum\<close>, its checksummed form, and the classes for
  addresses and private keys.  The hash is the double SHA-256 of \<open>hash.h\<close>; \<open>fTestNet\<close> is an
  argument of the functions that read this global.
\<close>

subsection \<open>Base58\<close>

definition pszBase58 :: string where
  "pszBase58 = ''123456789ABCDEFGHJKLMNPQRSTUVWXYZabcdefghijkmnopqrstuvwxyz''"

text \<open>The division loop; the first argument bounds its iterations, and the number itself plus one
  is enough.\<close>

fun encode58_loop :: "bn_ops \<Rightarrow> nat \<Rightarrow> CBigNum \<Rightarrow> string option res" where
  "encode58_loop B 0 bn = Inr None"
| "encode58_loop B (Suc fuel) bn =
     (if BN_cmp B bn 0 > 0 then
        bind_res (bn_check ''EncodeBase58 : BN_div failed'' (BN_div B bn 58)) (\<lambda>(dv, r).
          let c = unat (ucast (getulong B r) :: uint32) in
          if c > length pszBase58 then Inl OutOfRange
          else bind_res (encode58_loop B fuel dv) (\<lambda>rest.
            Inr (map_option ((#) (char_at pszBase58 c)) rest)))
      else Inr (Some []))"

definition EncodeBase58 :: "bn_ops \<Rightarrow> bytes \<Rightarrow> string option res" where
  "EncodeBase58 B p =
     (let vchTmp = rev p @ [0];
          bn = setvch B vchTmp
      in bind_res (encode58_loop B (Suc (nat bn)) bn) (\<lambda>str.
           Inr (map_option (\<lambda>s.
             rev (s @ replicate (length (takeWhile (\<lambda>b. b = 0) p)) (pszBase58 ! 0))) str)))"

definition strchr :: "string \<Rightarrow> char \<Rightarrow> nat option" where
  "strchr s c = (let n = length (takeWhile (\<lambda>x. x \<noteq> c) s) in if n < length s then Some n else None)"

text \<open>\<^term>\<open>Inr None\<close> is \<open>return false\<close>.\<close>

fun decode58_loop :: "bn_ops \<Rightarrow> CBigNum \<Rightarrow> string \<Rightarrow> CBigNum option res" where
  "decode58_loop B bn [] = Inr (Some bn)"
| "decode58_loop B bn (c # p) =
     (case strchr pszBase58 c of
        None \<Rightarrow> if dropWhile isspace (c # p) \<noteq> [] then Inr None else Inr (Some bn)
      | Some i \<Rightarrow>
          bind_res (setulong B (word_of_nat i)) (\<lambda>bnChar.
          bind_res (bn_check ''DecodeBase58 : BN_mul failed'' (BN_mul B bn 58)) (\<lambda>bn.
          bind_res (bn_check ''CBigNum::operator+= : BN_add failed'' (BN_add B bn bnChar)) (\<lambda>bn.
            decode58_loop B bn p))))"

definition trim_sign :: "bytes \<Rightarrow> bytes" where
  "trim_sign v =
     (if length v \<ge> 2 \<and> v ! (length v - 1) = 0 \<and> v ! (length v - 2) \<ge> 0x80 then butlast v else v)"

definition DecodeBase58 :: "bn_ops \<Rightarrow> string \<Rightarrow> bytes option res" where
  "DecodeBase58 B str =
     (let psz = dropWhile isspace str in
      bind_res (decode58_loop B 0 psz) (\<lambda>r.
        case r of
          None \<Rightarrow> Inr None
        | Some bn \<Rightarrow>
            let vchTmp = trim_sign (getvch B bn);
                nLeadingZeros = length (takeWhile (\<lambda>c. c = pszBase58 ! 0) psz)
            in Inr (Some (replicate nLeadingZeros 0 @ rev vchTmp))))"

subsection \<open>Checksums\<close>

text \<open>The first four bytes of the hash in memory.\<close>

definition checksum4 :: "'c sha_ops \<Rightarrow> bytes \<Rightarrow> bytes" where
  "checksum4 S v = take 4 (le_bytes 32 (Hash S v))"

definition EncodeBase58Check :: "bn_ops \<Rightarrow> 'c sha_ops \<Rightarrow> bytes \<Rightarrow> string option res" where
  "EncodeBase58Check B S vchIn = EncodeBase58 B (vchIn @ checksum4 S vchIn)"

text \<open>The result and \<open>vchRet\<close>, which is cleared on failure.\<close>

definition DecodeBase58Check :: "bn_ops \<Rightarrow> 'c sha_ops \<Rightarrow> string \<Rightarrow> (bool \<times> bytes) res" where
  "DecodeBase58Check B S psz =
     bind_res (DecodeBase58 B psz) (\<lambda>r.
       case r of
         None \<Rightarrow> Inr (False, [])
       | Some v \<Rightarrow>
           if length v < 4 then Inr (False, [])
           else let n = length v - 4 in
             if checksum4 S (take n v) \<noteq> drop n v then Inr (False, [])
             else Inr (True, take n v))"

subsection \<open>CBase58Data\<close>

record CBase58Data =
  b58_nVersion :: byte
  vchData :: bytes

definition CBase58Data_default :: CBase58Data where
  "CBase58Data_default = \<lparr> b58_nVersion = 0, vchData = [] \<rparr>"

definition SetData :: "int32 \<Rightarrow> bytes \<Rightarrow> CBase58Data \<Rightarrow> CBase58Data" where
  "SetData nVersionIn pdata d = d\<lparr> b58_nVersion := word_of_int nVersionIn, vchData := pdata \<rparr>"

definition SetString :: "bn_ops \<Rightarrow> 'c sha_ops \<Rightarrow> string \<Rightarrow> CBase58Data \<Rightarrow> (bool \<times> CBase58Data) res" where
  "SetString B S psz d =
     bind_res (DecodeBase58Check B S psz) (\<lambda>(ok, vchTemp).
       if vchTemp = [] then Inr (False, d\<lparr> vchData := [], b58_nVersion := 0 \<rparr>)
       else Inr (True, d\<lparr> b58_nVersion := vchTemp ! 0, vchData := drop 1 vchTemp \<rparr>))"

definition CBase58Data_ToString :: "bn_ops \<Rightarrow> 'c sha_ops \<Rightarrow> CBase58Data \<Rightarrow> string option res" where
  "CBase58Data_ToString B S d = EncodeBase58Check B S (b58_nVersion d # vchData d)"

text \<open>\<open>operator<\<close> on vectors is lexicographic.\<close>

fun vch_less :: "bytes \<Rightarrow> bytes \<Rightarrow> bool" where
  "vch_less [] [] = False"
| "vch_less [] (y # ys) = True"
| "vch_less (x # xs) [] = False"
| "vch_less (x # xs) (y # ys) = (x < y \<or> (x = y \<and> vch_less xs ys))"

definition CompareTo :: "CBase58Data \<Rightarrow> CBase58Data \<Rightarrow> int32" where
  "CompareTo a b58 =
     (if b58_nVersion a < b58_nVersion b58 then - 1
      else if b58_nVersion a > b58_nVersion b58 then 1
      else if vch_less (vchData a) (vchData b58) then - 1
      else if vch_less (vchData b58) (vchData a) then 1
      else 0)"

definition CBase58Data_less :: "CBase58Data \<Rightarrow> CBase58Data \<Rightarrow> bool" where
  "CBase58Data_less a b \<longleftrightarrow> CompareTo a b < 0"

subsection \<open>Addresses\<close>

datatype CTxDestination = CNoDestination | CKeyID uint160 | CScriptID uint160

definition PUBKEY_ADDRESS :: int32 where "PUBKEY_ADDRESS = 0"
definition SCRIPT_ADDRESS :: int32 where "SCRIPT_ADDRESS = 5"
definition PUBKEY_ADDRESS_TEST :: int32 where "PUBKEY_ADDRESS_TEST = 111"
definition SCRIPT_ADDRESS_TEST :: int32 where "SCRIPT_ADDRESS_TEST = 196"

text \<open>\<open>Set\<close> through the visitor: no destination leaves the address as it is.\<close>

fun CBitcoinAddress_Set :: "bool \<Rightarrow> CTxDestination \<Rightarrow> CBase58Data \<Rightarrow> bool \<times> CBase58Data" where
  "CBitcoinAddress_Set fTestNet (CKeyID i) d =
     (True, SetData (if fTestNet then PUBKEY_ADDRESS_TEST else PUBKEY_ADDRESS) (le_bytes 20 i) d)"
| "CBitcoinAddress_Set fTestNet (CScriptID i) d =
     (True, SetData (if fTestNet then SCRIPT_ADDRESS_TEST else SCRIPT_ADDRESS) (le_bytes 20 i) d)"
| "CBitcoinAddress_Set fTestNet CNoDestination d = (False, d)"

definition CBitcoinAddress_IsValid :: "bool \<Rightarrow> CBase58Data \<Rightarrow> bool" where
  "CBitcoinAddress_IsValid fTestNet d =
     (let v = uint (b58_nVersion d) in
      if v = PUBKEY_ADDRESS \<or> v = SCRIPT_ADDRESS then \<not> fTestNet \<and> length (vchData d) = 20
      else if v = PUBKEY_ADDRESS_TEST \<or> v = SCRIPT_ADDRESS_TEST then fTestNet \<and> length (vchData d) = 20
      else False)"

definition CBitcoinAddress_Get :: "bool \<Rightarrow> CBase58Data \<Rightarrow> CTxDestination" where
  "CBitcoinAddress_Get fTestNet d =
     (let v = uint (b58_nVersion d) in
      if \<not> CBitcoinAddress_IsValid fTestNet d then CNoDestination
      else if v = PUBKEY_ADDRESS \<or> v = PUBKEY_ADDRESS_TEST then CKeyID (le_word (take 20 (vchData d)))
      else if v = SCRIPT_ADDRESS \<or> v = SCRIPT_ADDRESS_TEST then CScriptID (le_word (take 20 (vchData d)))
      else CNoDestination)"

definition CBitcoinAddress_GetKeyID :: "bool \<Rightarrow> CBase58Data \<Rightarrow> uint160 option" where
  "CBitcoinAddress_GetKeyID fTestNet d =
     (let v = uint (b58_nVersion d) in
      if \<not> CBitcoinAddress_IsValid fTestNet d then None
      else if v = PUBKEY_ADDRESS \<or> v = PUBKEY_ADDRESS_TEST then Some (le_word (take 20 (vchData d)))
      else None)"

definition CBitcoinAddress_IsScript :: "bool \<Rightarrow> CBase58Data \<Rightarrow> bool" where
  "CBitcoinAddress_IsScript fTestNet d =
     (let v = uint (b58_nVersion d) in
      if \<not> CBitcoinAddress_IsValid fTestNet d then False
      else v = SCRIPT_ADDRESS \<or> v = SCRIPT_ADDRESS_TEST)"

subsection \<open>Private keys\<close>

definition CBitcoinSecret_SetKey :: "bool \<Rightarrow> CKey \<Rightarrow> CBase58Data \<Rightarrow> CBase58Data res" where
  "CBitcoinSecret_SetKey fTestNet key d =
     (if \<not> fValid key then Inl AssertFailed
      else let d1 = SetData (if fTestNet then 239 else 128) (CKey_data key) d
           in Inr (if fCompressed key then d1\<lparr> vchData := vchData d1 @ [1] \<rparr> else d1))"

definition CBitcoinSecret_GetKey :: "CBase58Data \<Rightarrow> CKey \<Rightarrow> CKey res" where
  "CBitcoinSecret_GetKey d ret =
     (if length (vchData d) < 32 then Inl OutOfRange
      else Inr (CKey_Set (take 32 (vchData d)) (length (vchData d) > 32 \<and> vchData d ! 32 = 1) ret))"

definition CBitcoinSecret_IsValid :: "bool \<Rightarrow> CBase58Data \<Rightarrow> bool" where
  "CBitcoinSecret_IsValid fTestNet d =
     (let szOk = (length (vchData d) = 32 \<or> (length (vchData d) = 33 \<and> vchData d ! 32 = 1)) in
      if b58_nVersion d = 128 then \<not> fTestNet \<and> szOk
      else if b58_nVersion d = 239 then fTestNet \<and> szOk
      else False)"

definition CBitcoinSecret_SetString ::
  "bn_ops \<Rightarrow> 'c sha_ops \<Rightarrow> bool \<Rightarrow> string \<Rightarrow> CBase58Data \<Rightarrow> (bool \<times> CBase58Data) res" where
  "CBitcoinSecret_SetString B S fTestNet pszSecret d =
     bind_res (SetString B S pszSecret d) (\<lambda>(ok, d'). Inr (ok \<and> CBitcoinSecret_IsValid fTestNet d', d'))"

subsection \<open>Facts on the digits\<close>

fun digits58 :: "nat \<Rightarrow> nat list" where
  "digits58 n = (if n = 0 then [] else n mod 58 # digits58 (n div 58))"

declare digits58.simps [simp del]

lemma length_pszBase58: "length pszBase58 = 58"
  by (simp add: pszBase58_def)

lemma strchr_digit: "d < 58 \<Longrightarrow> strchr pszBase58 (pszBase58 ! d) = Some d \<and> \<not> isspace (pszBase58 ! d) \<and>
    (pszBase58 ! d = pszBase58 ! 0 \<longleftrightarrow> d = 0)"
proof -
  have "list_all (\<lambda>d. strchr pszBase58 (pszBase58 ! d) = Some d \<and> \<not> isspace (pszBase58 ! d) \<and>
    (pszBase58 ! d = pszBase58 ! 0 \<longleftrightarrow> d = 0)) [0..<58]" by code_simp
  then show "d < 58 \<Longrightarrow> strchr pszBase58 (pszBase58 ! d) = Some d \<and> \<not> isspace (pszBase58 ! d) \<and>
    (pszBase58 ! d = pszBase58 ! 0 \<longleftrightarrow> d = 0)" by (simp add: list_all_iff)
qed

lemma getulong_small: "bn_ok B \<Longrightarrow> d < 58 \<Longrightarrow> unat (ucast (getulong B (int d)) :: uint32) = d"
  by (simp add: getulong_def bn_okD ucast_word_of_nat unat_of_nat)

lemma encode58_loop_eq:
  assumes "bn_ok B"
  shows "n < fuel \<Longrightarrow> encode58_loop B fuel (int n) = Inr (Some (map (\<lambda>d. pszBase58 ! d) (digits58 n)))"
proof (induction fuel arbitrary: n)
  case (Suc fuel)
  show ?case
  proof (cases "n = 0")
    case True
    then show ?thesis by (simp add: bn_okD [OF assms] digits58.simps)
  next
    case False
    have m: "n mod 58 < 58" by simp
    have d: "trunc_div (int n) 58 = int (n div 58)" by (simp add: trunc_div_nonneg zdiv_int)
    have r: "int n - int (n div 58) * 58 = int (n mod 58)"
      by (simp add: zmod_int minus_div_mult_eq_mod zdiv_int)
    have "encode58_loop B fuel (int (n div 58)) =
        Inr (Some (map (\<lambda>d. pszBase58 ! d) (digits58 (n div 58))))"
      using Suc.prems False by (intro Suc.IH) linarith
    moreover have "BN_cmp B (int n) 0 > 0" "BN_div B (int n) 58 = Some (int (n div 58), int (n mod 58))"
      using False by (simp_all only: bn_okD [OF assms] d r) simp_all
    ultimately show ?thesis
      using getulong_small [OF assms m] m False
      by (simp add: digits58.simps [of n] Let_def char_at_def length_pszBase58 del: of_nat_mod)
  qed
qed simp

lemma digits58_less: "d \<in> set (digits58 n) \<Longrightarrow> d < 58"
proof (induction n rule: digits58.induct)
  case (1 n)
  then show ?case using digits58.simps [of n] by (auto split: if_splits)
qed

lemma digits58_last: "0 < n \<Longrightarrow> digits58 n \<noteq> [] \<and> last (digits58 n) \<noteq> 0"
proof (induction n rule: digits58.induct)
  case (1 n)
  then show ?case
    by (cases "n div 58 = 0") (auto simp: digits58.simps [of n] digits58.simps [of 0] div_eq_0_iff)
qed

lemma foldl_digits58: "foldl (\<lambda>v d. 58 * v + int d) 0 (rev (digits58 n)) = int n"
proof (induction n rule: digits58.induct)
  case (1 n)
  show ?case
  proof (cases "n = 0")
    case True
    then show ?thesis by (simp add: digits58.simps [of 0])
  next
    case False
    then show ?thesis using "1.IH" by (simp add: digits58.simps [of n] zdiv_int zmod_int)
  qed
qed

lemma decode58_loop_eq:
  assumes "bn_ok B" "\<forall>d\<in>set ds. d < 58"
  shows "decode58_loop B a (map (\<lambda>d. pszBase58 ! d) ds) = Inr (Some (foldl (\<lambda>v d. 58 * v + int d) a ds))"
  using assms(2)
proof (induction ds arbitrary: a)
  case (Cons d ds)
  have "take_bit 64 (int d) = int d" using Cons.prems by (intro take_bit_int_eq_self) auto
  then have "uint (word_of_nat d :: uint64) = int d"
    using uint_word_of_int_eq [of "int d", where ?'a = 64] by simp
  then show ?case
    using Cons strchr_digit [of d] by (simp add: setulong_def bn_okD [OF assms(1)] mult.commute)
qed simp

lemma foldl_zeros: "foldl (\<lambda>v d. 58 * v + int d) 0 (replicate z 0) = 0"
  by (induction z) simp_all

lemma trim_sign_body: "trim_sign (rev (mpi_body (int n))) = rev (be_bytes n)"
proof (cases "be_bytes n")
  case (Cons b bs)
  have hi: "bit b 7 \<longleftrightarrow> b \<ge> 0x80"
  proof -
    have "unat b div 128 < 2" using unat_byte_less [of b] by (simp add: less_mult_imp_div_less)
    moreover have "unat b div 128 = 0 \<longleftrightarrow> unat b < 128" by (simp add: div_eq_0_iff)
    ultimately have "odd (unat b div 128) \<longleftrightarrow> 128 \<le> unat b" by (cases "unat b div 128 = 0") auto
    moreover have "bit b 7 \<longleftrightarrow> bit (unat b) 7" by (simp add: bit_unsigned_iff)
    ultimately show ?thesis by (simp add: bit_iff_odd word_le_nat_alt)
  qed
  have "b \<noteq> 0" using be_bytes_hd [OF Cons] .
  then show ?thesis
    using hi Cons by (auto simp: trim_sign_def mpi_body_def nth_append nth_Cons' butlast_append)
qed (simp add: mpi_body_def trim_sign_def)

lemma bytes_leading_zeros:
  "replicate (length (takeWhile (\<lambda>b. b = 0) p)) 0 @ dropWhile (\<lambda>x. x = 0) p = (p :: bytes)"
proof -
  have "takeWhile (\<lambda>b. b = 0) p = replicate (length (takeWhile (\<lambda>b. b = 0) p)) (0 :: byte)"
    by (rule replicate_eqI) (auto dest: set_takeWhileD)
  then show ?thesis by (metis takeWhile_dropWhile_id)
qed

lemma takeWhile_replicate_hd:
  "ys = [] \<or> hd ys \<noteq> c \<Longrightarrow> length (takeWhile (\<lambda>x. x = c) (replicate z c @ ys)) = z"
  by (induction z) (cases ys; auto)+

lemma Base58_encode_decode:
  assumes "bn_ok B" "length p < 2 ^ 31"
  shows "\<exists>str. EncodeBase58 B p = Inr (Some str) \<and> DecodeBase58 B str = Inr (Some p)"
proof -
  define n z where "n = be_val p" and "z = length (takeWhile (\<lambda>b. b = 0) p)"
  let ?ds = "replicate z 0 @ rev (digits58 n)"
  let ?str = "map (\<lambda>d. pszBase58 ! d) ?ds"
  have "setvch B (rev p @ [0]) = mpi_val (0 # p)"
    using bn_okD(8) [OF assms(1), of "0 # p"] assms(2) by (simp add: setvch_def)
  then have bn: "setvch B (rev p @ [0]) = int n" by (simp add: be_val_Cons n_def)
  have enc: "EncodeBase58 B p = Inr (Some ?str)"
    unfolding EncodeBase58_def Let_def bn
    using encode58_loop_eq [OF assms(1), of n "Suc n"] by (simp add: z_def rev_map)
  have small: "\<forall>d\<in>set ?ds. d < 58" using digits58_less by auto
  have "hd ?str \<notin> {c. isspace c} \<or> ?str = []"
    using small strchr_digit by (cases ?ds) auto
  then have sp: "dropWhile isspace ?str = ?str" by (cases ?str) auto
  have dec: "decode58_loop B 0 ?str = Inr (Some (int n))"
    using decode58_loop_eq [OF assms(1) small] by (simp add: foldl_zeros foldl_digits58)
  have "?str = replicate z (pszBase58 ! 0) @ map (\<lambda>d. pszBase58 ! d) (rev (digits58 n))" by simp
  moreover have "map (\<lambda>d. pszBase58 ! d) (rev (digits58 n)) = [] \<or>
      hd (map (\<lambda>d. pszBase58 ! d) (rev (digits58 n))) \<noteq> pszBase58 ! 0"
  proof (cases "n = 0")
    case False
    then have "digits58 n \<noteq> []" "last (digits58 n) \<noteq> 0" using digits58_last by auto
    moreover from this have "last (digits58 n) < 58" using digits58_less last_in_set by blast
    ultimately show ?thesis using strchr_digit by (simp add: hd_map hd_rev)
  qed (simp add: digits58.simps)
  ultimately have lz: "length (takeWhile (\<lambda>c. c = pszBase58 ! 0) ?str) = z"
    using takeWhile_replicate_hd by metis
  have "getvch B (int n) = rev (mpi_body (int n))" by (auto simp: getvch_def Let_def bn_okD [OF assms(1)])
  then have "DecodeBase58 B ?str = Inr (Some (replicate z 0 @ be_bytes n))"
    unfolding DecodeBase58_def Let_def sp dec lz by (simp add: trim_sign_body)
  also have "be_bytes n = dropWhile (\<lambda>x. x = 0) p" by (simp add: n_def be_bytes_val)
  finally show ?thesis using enc bytes_leading_zeros [of p] by (simp add: z_def)
qed

lemma length_checksum4 [simp]: "length (checksum4 S v) = 4"
  by (simp add: checksum4_def)

lemma Base58Check_encode_decode:
  assumes "bn_ok B" "length v < 2 ^ 30"
  shows "\<exists>str. EncodeBase58Check B S v = Inr (Some str) \<and> DecodeBase58Check B S str = Inr (True, v)"
proof -
  have "length (v @ checksum4 S v) < 2 ^ 31" using assms(2) by simp
  from Base58_encode_decode [OF assms(1) this] obtain str where
    "EncodeBase58 B (v @ checksum4 S v) = Inr (Some str)"
    "DecodeBase58 B str = Inr (Some (v @ checksum4 S v))" by blast
  then show ?thesis by (auto simp: EncodeBase58Check_def DecodeBase58Check_def Let_def)
qed

lemma SetString_ToString:
  assumes "bn_ok B" "length (vchData d) < 2 ^ 29"
  shows "\<exists>str. CBase58Data_ToString B S d = Inr (Some str) \<and> SetString B S str d0 = Inr (True, d)"
proof -
  have "length (b58_nVersion d # vchData d) < 2 ^ 30" using assms(2) by simp
  from Base58Check_encode_decode [OF assms(1) this, of S] obtain str where
    "CBase58Data_ToString B S d = Inr (Some str)"
    "DecodeBase58Check B S str = Inr (True, b58_nVersion d # vchData d)"
    by (auto simp: CBase58Data_ToString_def)
  then show ?thesis by (auto simp: SetString_def intro!: CBase58Data.equality)
qed

subsection \<open>The order of encoded data\<close>

lemma vch_less_irrefl: "\<not> vch_less x x"
  by (induction x) auto

lemma vch_less_trans: "vch_less x y \<Longrightarrow> vch_less y z \<Longrightarrow> vch_less x z"
proof (induction x y arbitrary: z rule: vch_less.induct)
  case (2 y ys)
  then show ?case by (cases z) auto
next
  case (4 x xs y ys)
  then show ?case by (cases z) auto
qed auto

lemma vch_less_total: "x \<noteq> y \<Longrightarrow> vch_less x y \<or> vch_less y x"
  by (induction x y rule: vch_less.induct) auto

lemma CBase58Data_less_iff:
  "CBase58Data_less a b \<longleftrightarrow> b58_nVersion a < b58_nVersion b \<or>
     (b58_nVersion a = b58_nVersion b \<and> vch_less (vchData a) (vchData b))"
  by (auto simp: CBase58Data_less_def CompareTo_def)

interpretation base58_order: key_order CBase58Data_less
proof
  fix a b c :: CBase58Data
  show "\<not> CBase58Data_less a a" by (simp add: CBase58Data_less_iff vch_less_irrefl)
  show "CBase58Data_less a b \<Longrightarrow> CBase58Data_less b c \<Longrightarrow> CBase58Data_less a c"
    using vch_less_trans [of "vchData a" "vchData b" "vchData c"] unfolding CBase58Data_less_iff
    by (auto dest: less_trans)
  show "a \<noteq> b \<Longrightarrow> CBase58Data_less a b \<or> CBase58Data_less b a"
    using vch_less_total [of "vchData a" "vchData b"]
    by (cases a; cases b) (auto simp: CBase58Data_less_iff)
qed

lemma CompareTo_0_iff: "CompareTo a b = 0 \<longleftrightarrow> a = b"
  using base58_order.equivalence_is_equality [of a b]
  by (auto simp: CBase58Data_less_def CompareTo_def split: if_splits)

subsection \<open>Properties\<close>

text \<open>C19. Base58 round trip: for every byte sequence the encoder returns a string that decodes to the
  sequence, leading zero bytes included; with the checksum as well, and a string accepted by
  \<open>DecodeBase58Check\<close> decodes to data followed by the checksum of that data.\<close>

theorem Base58_roundtrip:
  assumes "bn_ok B" "length v < 2 ^ 30"
  shows "(\<exists>str. EncodeBase58 B v = Inr (Some str) \<and> DecodeBase58 B str = Inr (Some v)) \<and>
    (\<exists>str. EncodeBase58Check B S v = Inr (Some str) \<and> DecodeBase58Check B S str = Inr (True, v)) \<and>
    (DecodeBase58Check B S s = Inr (True, u) \<longrightarrow> DecodeBase58 B s = Inr (Some (u @ checksum4 S u)))"
proof (intro conjI impI)
  show "\<exists>str. EncodeBase58 B v = Inr (Some str) \<and> DecodeBase58 B str = Inr (Some v)"
    using assms by (intro Base58_encode_decode) simp_all
  show "\<exists>str. EncodeBase58Check B S v = Inr (Some str) \<and> DecodeBase58Check B S str = Inr (True, v)"
    using assms by (rule Base58Check_encode_decode)
  assume "DecodeBase58Check B S s = Inr (True, u)"
  then show "DecodeBase58 B s = Inr (Some (u @ checksum4 S u))"
    by (auto simp: DecodeBase58Check_def bind_res_Inr_iff Let_def split: option.splits if_splits)
qed

theorem Base58_roundtrip_witness:
  "(\<exists>str. EncodeBase58 bn_std [0, 0, 5] = Inr (Some str) \<and> DecodeBase58 bn_std str = Inr (Some [0, 0, 5])) \<and>
   (\<exists>str. EncodeBase58Check bn_std demo_sha [0, 0, 5] = Inr (Some str) \<and>
      DecodeBase58Check bn_std demo_sha str = Inr (True, [0, 0, 5]))"
  using Base58_roundtrip [OF bn_ok_std, of "[0, 0, 5]" demo_sha] by simp

text \<open>C20. An address survives being written and read: the text of an address set to a key or script
  destination is accepted, gives the destination back on the same network, and is no
  destination on the other network.\<close>

theorem CBitcoinAddress_roundtrip:
  fixes fTestNet :: bool
  assumes "bn_ok B" "dest \<noteq> CNoDestination"
  defines "d \<equiv> snd (CBitcoinAddress_Set fTestNet dest CBase58Data_default)"
  shows "\<exists>str. CBase58Data_ToString B S d = Inr (Some str) \<and> SetString B S str d0 = Inr (True, d) \<and>
    CBitcoinAddress_Get fTestNet d = dest \<and> CBitcoinAddress_Get (\<not> fTestNet) d = CNoDestination"
proof -
  have "length (vchData d) < 2 ^ 29"
    using assms(2) by (cases dest) (simp_all add: d_def SetData_def)
  from SetString_ToString [OF assms(1) this] obtain str where
    "CBase58Data_ToString B S d = Inr (Some str)" "SetString B S str d0 = Inr (True, d)" by blast
  moreover have "le_word (le_bytes 20 i) = i" for i :: uint160 by (rule le_word_bytes) simp
  then have "CBitcoinAddress_Get fTestNet d = dest" "CBitcoinAddress_Get (\<not> fTestNet) d = CNoDestination"
    using assms(2) by (cases dest; cases fTestNet;
      simp add: d_def SetData_def CBitcoinAddress_Get_def CBitcoinAddress_IsValid_def Let_def
        PUBKEY_ADDRESS_def SCRIPT_ADDRESS_def PUBKEY_ADDRESS_TEST_def SCRIPT_ADDRESS_TEST_def)+
  ultimately show ?thesis by blast
qed

theorem CBitcoinAddress_roundtrip_witness:
  "\<exists>str. CBase58Data_ToString bn_std demo_sha (snd (CBitcoinAddress_Set True (CScriptID 9) CBase58Data_default)) =
      Inr (Some str) \<and>
    SetString bn_std demo_sha str CBase58Data_default =
      Inr (True, snd (CBitcoinAddress_Set True (CScriptID 9) CBase58Data_default)) \<and>
    CBitcoinAddress_Get True (snd (CBitcoinAddress_Set True (CScriptID 9) CBase58Data_default)) = CScriptID 9 \<and>
    CBitcoinAddress_Get (\<not> True) (snd (CBitcoinAddress_Set True (CScriptID 9) CBase58Data_default)) = CNoDestination"
  by (rule CBitcoinAddress_roundtrip [OF bn_ok_std]) simp

text \<open>A private key survives being written and read: for a valid key with 32 bytes in the range
  that \<open>CKey::Check\<close> accepts, the text of the secret is accepted on the same network and
  \<open>GetKey\<close> gives the bytes and the compression flag back.\<close>

theorem CBitcoinSecret_roundtrip:
  assumes "bn_ok B" "fValid key" "length (ck_vch key) = 32" "CKey_Check (ck_vch key)"
  shows "\<exists>d str. CBitcoinSecret_SetKey fTestNet key CBase58Data_default = Inr d \<and>
    CBase58Data_ToString B S d = Inr (Some str) \<and>
    CBitcoinSecret_SetString B S fTestNet str d0 = Inr (True, d) \<and>
    CBitcoinSecret_GetKey d k0 = Inr key"
proof -
  define d where "d = (let d1 = SetData (if fTestNet then 239 else 128) (CKey_data key) CBase58Data_default
     in if fCompressed key then d1\<lparr> vchData := vchData d1 @ [1] \<rparr> else d1)"
  have d: "vchData d = ck_vch key @ (if fCompressed key then [1] else [])"
    "b58_nVersion d = (if fTestNet then 239 else 128)"
    using assms(2,3) by (simp_all add: d_def Let_def SetData_def CKey_data_def CKey_size_def)
  then have "length (vchData d) < 2 ^ 29" using assms(3) by simp
  from SetString_ToString [OF assms(1) this] obtain str where str:
    "CBase58Data_ToString B S d = Inr (Some str)" "SetString B S str d0 = Inr (True, d)" by blast
  have "CBitcoinSecret_SetKey fTestNet key CBase58Data_default = Inr d"
    using assms(2) by (simp add: CBitcoinSecret_SetKey_def d_def Let_def)
  moreover have "CBitcoinSecret_IsValid fTestNet d"
    using assms(3) by (cases fTestNet) (simp_all add: CBitcoinSecret_IsValid_def d Let_def nth_append)
  moreover have "CBitcoinSecret_GetKey d k0 = Inr key"
    using assms(2-4) by (auto simp: CBitcoinSecret_GetKey_def d CKey_Set_def nth_append intro!: CKey.equality)
  ultimately show ?thesis using str by (auto simp: CBitcoinSecret_SetString_def)
qed

definition demo_key :: CKey where
  "demo_key = \<lparr> fValid = True, fCompressed = True, ck_vch = 1 # replicate 31 0 \<rparr>"

theorem CBitcoinSecret_roundtrip_witness:
  "\<exists>d str. CBitcoinSecret_SetKey False demo_key CBase58Data_default = Inr d \<and>
    CBase58Data_ToString bn_std demo_sha d = Inr (Some str) \<and>
    CBitcoinSecret_SetString bn_std demo_sha False str CBase58Data_default = Inr (True, d) \<and>
    CBitcoinSecret_GetKey d demo_key = Inr demo_key"
proof (rule CBitcoinSecret_roundtrip [OF bn_ok_std])
  have "CKey_Check (1 # replicate 31 0)" by code_simp
  then show "CKey_Check (ck_vch demo_key)" by (simp add: demo_key_def)
qed (simp_all add: demo_key_def)

text \<open>\<open>CompareTo\<close> is a strict total order consistent with equality, as the ordered containers
  of addresses need.\<close>

theorem CompareTo_order:
  "(CompareTo a b = 0 \<longleftrightarrow> a = b) \<and> (CompareTo a b < 0 \<longleftrightarrow> CompareTo b a > 0) \<and>
   (CompareTo a b < 0 \<and> CompareTo b c < 0 \<longrightarrow> CompareTo a c < 0)"
proof (intro conjI)
  show "CompareTo a b = 0 \<longleftrightarrow> a = b" by (rule CompareTo_0_iff)
  show "CompareTo a b < 0 \<longleftrightarrow> CompareTo b a > 0"
    using base58_order.asym [of a b] base58_order.total [of a b] base58_order.asym [of b a]
      CompareTo_0_iff [of b a] base58_order.irrefl [of a]
    unfolding CBase58Data_less_def by (cases "CompareTo b a" "0 :: int" rule: linorder_cases) auto
  show "CompareTo a b < 0 \<and> CompareTo b c < 0 \<longrightarrow> CompareTo a c < 0"
    using base58_order.trans [of a b c] by (simp add: CBase58Data_less_def)
qed

theorem CompareTo_order_witness:
  "CompareTo \<lparr> b58_nVersion = 0, vchData = [1] \<rparr> \<lparr> b58_nVersion = 5, vchData = [] \<rparr> < 0 \<and>
   CompareTo \<lparr> b58_nVersion = 5, vchData = [] \<rparr> \<lparr> b58_nVersion = 5, vchData = [0] \<rparr> < 0 \<and>
   CompareTo \<lparr> b58_nVersion = 0, vchData = [1] \<rparr> \<lparr> b58_nVersion = 5, vchData = [0] \<rparr> < 0"
  using CompareTo_order [of "\<lparr> b58_nVersion = 0, vchData = [1] \<rparr>" "\<lparr> b58_nVersion = 5, vchData = [] \<rparr>"
      "\<lparr> b58_nVersion = 5, vchData = [0] \<rparr>"]
  by (simp add: CompareTo_def)

end
