(* ===== verification/Draws.thy ===== *)
theory Draws
  imports Util
begin

text \<open>
  Code that draws random numbers.  A computation takes the 64-bit values that the generator will
  deliver and returns its result with the values left over; \<open>NoReturn\<close> is the outcome of a
  rejection loop that used all of them.  The judgement \<open>safe k m Q\<close> says that \<open>m\<close> raises no other
  fault, returns whenever its first \<open>k\<close> draws are below \<open>2^63\<close> (such a draw is never rejected), and
  returns only results satisfying \<open>Q\<close>.  Its rules are used for the address manager.
\<close>

type_synonym 'a rnd = "uint64 list \<Rightarrow> ('a \<times> uint64 list) res"

definition ret :: "'a \<Rightarrow> 'a rnd" where
  "ret x d = Inr (x, d)"

definition rbind :: "'a rnd \<Rightarrow> ('a \<Rightarrow> 'b rnd) \<Rightarrow> 'b rnd" where
  "rbind m k d = bind_res (m d) (\<lambda>(x, d'). k x d')"

text \<open>A computation that draws nothing, and one that faults.\<close>

definition lift :: "'a res \<Rightarrow> 'a rnd" where
  "lift r d = bind_res r (\<lambda>x. Inr (x, d))"

definition guard :: "bool \<Rightarrow> unit rnd" where
  "guard b d = (if b then Inr ((), d) else Inl AssertFailed)"

definition rand_int :: "int32 \<Rightarrow> int32 rnd" where
  "rand_int nMax d = (case GetRandInt nMax d of None \<Rightarrow> Inl NoReturn | Some r \<Rightarrow> Inr r)"

subsection \<open>Draws that no rejection loop refuses\<close>

definition low_draws :: "nat \<Rightarrow> uint64 list \<Rightarrow> bool" where
  "low_draws k d \<longleftrightarrow> k \<le> length d \<and> (\<forall>r\<in>set (take k d). unat r < 2 ^ 63)"

lemma low_draws_mono: "low_draws k d \<Longrightarrow> j \<le> k \<Longrightarrow> low_draws j d"
  unfolding low_draws_def by (meson le_trans set_take_subset_set_take subsetD)

lemma low_draws_Suc: "low_draws (Suc k) d \<longleftrightarrow> (\<exists>r d'. d = r # d' \<and> unat r < 2 ^ 63 \<and> low_draws k d')"
  by (cases d) (auto simp: low_draws_def)

definition safe :: "nat \<Rightarrow> 'a rnd \<Rightarrow> ('a \<Rightarrow> bool) \<Rightarrow> bool" where
  "safe k m Q \<longleftrightarrow> (\<forall>d. case m d of
      Inr (x, d') \<Rightarrow> Q x \<and> (\<forall>j. low_draws (k + j) d \<longrightarrow> low_draws j d')
    | Inl e \<Rightarrow> e = NoReturn \<and> \<not> low_draws k d)"

lemma safe_mono: "safe k m Q \<Longrightarrow> k \<le> k' \<Longrightarrow> (\<And>x. Q x \<Longrightarrow> Q' x) \<Longrightarrow> safe k' m Q'"
  unfolding safe_def
proof (intro allI)
  fix d
  assume s: "\<forall>d. case m d of Inl e \<Rightarrow> e = NoReturn \<and> \<not> low_draws k d
      | Inr (x, d') \<Rightarrow> Q x \<and> (\<forall>j. low_draws (k + j) d \<longrightarrow> low_draws j d')"
    and k: "k \<le> k'" and Q: "\<And>x. Q x \<Longrightarrow> Q' x"
  have m1: "low_draws (k + j) d" if "low_draws (k' + j) d" for j
    using low_draws_mono [OF that, of "k + j"] k by simp
  have m2: "low_draws k d" if "low_draws k' d" using low_draws_mono [OF that k] .
  show "case m d of Inl e \<Rightarrow> e = NoReturn \<and> \<not> low_draws k' d
      | Inr (x, d') \<Rightarrow> Q' x \<and> (\<forall>j. low_draws (k' + j) d \<longrightarrow> low_draws j d')"
    using s [rule_format, of d] Q m1 m2 by (auto split: sum.splits)
qed

lemma safe_ret: "Q x \<Longrightarrow> safe 0 (ret x) Q"
  by (simp add: safe_def ret_def)

lemma safe_return: "Q x \<Longrightarrow> safe k (ret x) Q"
  using safe_mono [OF safe_ret, of Q x k Q] by simp

lemma safe_lift: "r = Inr x \<Longrightarrow> Q x \<Longrightarrow> safe 0 (lift r) Q"
  by (simp add: safe_def lift_def)

lemma safe_guard: "b \<Longrightarrow> safe 0 (guard b) (\<lambda>_. True)"
  by (simp add: safe_def guard_def)

lemma safe_bind:
  assumes m: "safe k m P" and f: "\<And>x. P x \<Longrightarrow> safe j (f x) Q"
  shows "safe (k + j) (rbind m f) Q"
  unfolding safe_def
proof (intro allI)
  fix d
  show "case rbind m f d of Inl e \<Rightarrow> e = NoReturn \<and> \<not> low_draws (k + j) d
      | Inr (x, d') \<Rightarrow> Q x \<and> (\<forall>i. low_draws (k + j + i) d \<longrightarrow> low_draws i d')"
  proof (cases "m d")
    case (Inl e)
    then have "e = NoReturn \<and> \<not> low_draws k d" using m [unfolded safe_def, rule_format, of d] by simp
    with Inl show ?thesis using low_draws_mono [of "k + j" d k] by (auto simp: rbind_def)
  next
    case (Inr y)
    then obtain x d' where y: "m d = Inr (x, d')" by (cases y) auto
    then have x: "P x" and d': "low_draws (k + i) d \<longrightarrow> low_draws i d'" for i
      using m [unfolded safe_def, rule_format, of d] by auto
    from f [OF x, unfolded safe_def, rule_format, of d'] y d' [of j] d' show ?thesis
      by (auto simp: rbind_def add.assoc split: sum.splits)
  qed
qed

lemma safe_returns:
  assumes "safe k m Q" and "low_draws k d"
  shows "\<exists>x d'. m d = Inr (x, d') \<and> Q x"
  using assms(1) [unfolded safe_def, rule_format, of d] assms(2) by (cases "m d") auto

lemma safe_result: "safe k m Q \<Longrightarrow> m d = Inr (x, d') \<Longrightarrow> Q x"
  unfolding safe_def by (drule spec [of _ d]) simp

lemma safe_fault: "safe k m Q \<Longrightarrow> m d = Inl e \<Longrightarrow> e = NoReturn"
  unfolding safe_def by (drule spec [of _ d]) simp

subsection \<open>The generator\<close>

lemma accept_range:
  assumes "0 < m" "m < 2 ^ 31"
  shows "2 ^ 63 \<le> (2 ^ 64 - 1) div m * (m :: nat)"
proof -
  have "2 ^ 64 - 1 - (2 ^ 64 - 1) mod m = (2 ^ 64 - 1) div m * (m :: nat)"
    by (simp only: minus_mod_eq_div_mult)
  moreover have "(2 ^ 64 - 1) mod m < 2 ^ 31"
    using mod_less_divisor [OF assms(1), of "2 ^ 64 - 1"] assms(2) by linarith
  ultimately show ?thesis by simp
qed

lemma draw_below_range: "draw_below n d = Some (r, d') \<Longrightarrow> r < n"
  by (induction n d rule: draw_below.induct) (auto split: if_splits)

lemma draw_below_low:
  assumes "low_draws (Suc k) d" and "2 ^ 63 \<le> unat n"
  shows "\<exists>r d'. draw_below n d = Some (r, d') \<and> low_draws k d'"
  using assms by (cases d) (auto simp: low_draws_Suc word_le_nat_alt)

lemma draw_below_rest:
  "draw_below n d = Some (r, d') \<Longrightarrow> low_draws (Suc k) d \<Longrightarrow> 2 ^ 63 \<le> unat n \<Longrightarrow> low_draws k d'"
  using draw_below_low [of k d n] by auto

lemma safe_rand:
  assumes n: "0 < n" "n < 2 ^ 31"
  shows "safe 1 (rand_int n) (\<lambda>r. 0 \<le> r \<and> r < n)"
  unfolding safe_def
proof (intro allI)
  fix d
  define w :: uint64 where "w = word_of_int n"
  have uw: "uint w = n" using n by (simp add: w_def uint_word_of_int_eq take_bit_int_eq_self)
  then have w0: "w \<noteq> 0" and nw: "unat w = nat n" using n by (auto simp: nat_uint_eq [symmetric])
  define b where "b = ((- 1) div w) * w"
  have m1: "unat (- 1 :: uint64) = 2 ^ 64 - 1"
    by (simp add: unsigned_minus_1_eq_mask mask_eq_exp_minus_1)
  have b: "2 ^ 63 \<le> unat b"
  proof -
    have "unat b = (2 ^ 64 - 1) div unat w * unat w"
      using rand_range_less [of "unat w"] unfolding b_def
      by (subst unat_mult_lem [THEN iffD1]) (simp_all add: unat_div m1)
    moreover have "0 < unat w" "unat w < 2 ^ 31" using n by (simp_all only: nw zero_less_nat_eq nat_less_iff) simp_all
    ultimately show ?thesis using accept_range by metis
  qed
  have val: "signed_take_bit 31 (uint (r mod w)) = uint (r mod w)" "0 \<le> uint (r mod w)" "uint (r mod w) < n" for r
  proof -
    show lt: "uint (r mod w) < n" using n uw by (simp add: uint_mod)
    show "signed_take_bit 31 (uint (r mod w)) = uint (r mod w)"
      by (rule signed_take_bit_int_eq_self) (use lt n unsigned_greater_eq [of "r mod w", where ?'a = int] in \<open>linarith+\<close>)
  qed simp
  show "case rand_int n d of Inl e \<Rightarrow> e = NoReturn \<and> \<not> low_draws 1 d
      | Inr (x, d') \<Rightarrow> (0 \<le> x \<and> x < n) \<and> (\<forall>j. low_draws (1 + j) d \<longrightarrow> low_draws j d')"
  proof (cases "draw_below b d")
    case None
    then have "\<not> low_draws (Suc 0) d" using draw_below_low [OF _ b, of 0 d] by auto
    with None show ?thesis using w0 by (simp add: rand_int_def GetRandInt_def GetRand_def w_def [symmetric] b_def [symmetric])
  next
    case (Some x)
    obtain r d' where x: "x = (r, d')" by (cases x)
    have "rand_int n d = Inr (uint (r mod w), d')"
      using Some x w0 val(1) [of r] by (simp add: rand_int_def GetRandInt_def GetRand_def w_def [symmetric] b_def [symmetric])
    then show ?thesis using val [of r] draw_below_rest [OF Some [unfolded x] _ b] by simp
  qed
qed

subsection \<open>Loops without a bound on their draws\<close>

text \<open>The part of the judgement that does not promise a result.\<close>

definition psafe :: "'a rnd \<Rightarrow> ('a \<Rightarrow> bool) \<Rightarrow> bool" where
  "psafe m Q \<longleftrightarrow> (\<forall>d. case m d of Inr (x, d') \<Rightarrow> Q x | Inl e \<Rightarrow> e = NoReturn)"

lemma safe_psafe: "safe k m Q \<Longrightarrow> psafe m Q"
  unfolding safe_def psafe_def by (auto split: sum.splits)

lemma psafe_ret: "Q x \<Longrightarrow> psafe (ret x) Q"
  by (simp add: psafe_def ret_def)

lemma psafe_mono: "psafe m Q \<Longrightarrow> (\<And>x. Q x \<Longrightarrow> Q' x) \<Longrightarrow> psafe m Q'"
  unfolding psafe_def by (fastforce split: sum.splits)

lemma psafe_stuck: "psafe (lift (Inl NoReturn)) Q"
  by (simp add: psafe_def lift_def)

lemma psafe_bind:
  assumes m: "psafe m P" and f: "\<And>x. P x \<Longrightarrow> psafe (f x) Q"
  shows "psafe (rbind m f) Q"
  unfolding psafe_def
proof (intro allI)
  fix d
  show "case rbind m f d of Inl e \<Rightarrow> e = NoReturn | Inr (x, d') \<Rightarrow> Q x"
    using m [unfolded psafe_def, rule_format, of d] f [unfolded psafe_def]
    by (cases "m d") (auto simp: rbind_def)
qed

lemma psafe_cases:
  assumes "psafe m Q"
  obtains x d' where "m d = Inr (x, d')" "Q x" | "m d = Inl NoReturn"
  using assms [unfolded psafe_def, rule_format, of d] by (cases "m d") auto

end
