(* ===== verification/NetAddr.thy ===== *)
theory NetAddr
  imports Core Codec Util Hashing
begin

text \<open>
  Network addresses: \<open>CNetAddr\<close> and \<open>CService\<close> of \<open>netbase.cpp\<close>, name resolution and the proxy
  table.  An address is its array of sixteen bytes in network order.  The operating system's
  resolver and \<open>getnameinfo\<close> are arguments, as are the numeric values of \<open>enum Network\<close>
  (\<open>netbase.h\<close> is not part of the repository).  The code is modelled with \<open>USE_IPV6\<close> defined.
\<close>

subsection \<open>Networks and addresses\<close>

datatype Network = NET_UNROUTABLE | NET_IPV4 | NET_IPV6 | NET_TOR

record CNetAddr =
  na_ip :: bytes

record CService = CNetAddr +
  na_port :: "16 word"

definition NetAddr_wf :: "'a CNetAddr_scheme \<Rightarrow> bool" where
  "NetAddr_wf a \<longleftrightarrow> length (na_ip a) = 16"

definition to_lower :: "char \<Rightarrow> char" where
  "to_lower c = (if 65 \<le> (of_char c :: nat) \<and> (of_char c :: nat) \<le> 90 then char_of ((of_char c :: nat) + 32) else c)"

definition ParseNetwork :: "string \<Rightarrow> Network" where
  "ParseNetwork net =
     (let net = map to_lower net in
      if net = ''ipv4'' then NET_IPV4
      else if net = ''ipv6'' then NET_IPV6
      else if net = ''tor'' then NET_TOR
      else NET_UNROUTABLE)"

definition pchIPv4 :: bytes where
  "pchIPv4 = [0, 0, 0, 0, 0, 0, 0, 0, 0, 0, 0xff, 0xff]"

definition pchOnionCat :: bytes where
  "pchOnionCat = [0xFD,0x87,0xD8,0x7E,0xEB,0x43]"

definition CNetAddr_Init :: CNetAddr where
  "CNetAddr_Init = \<lparr> na_ip = replicate 16 0 \<rparr>"

definition SetIP :: "'b CNetAddr_scheme \<Rightarrow> 'a CNetAddr_scheme \<Rightarrow> 'a CNetAddr_scheme" where
  "SetIP ipIn a = a\<lparr> na_ip := na_ip ipIn \<rparr>"

text \<open>\<open>SetSpecial\<close> recognises onion names; the invalid flag of \<open>DecodeBase32\<close> is not asked for.\<close>

definition SetSpecial :: "string \<Rightarrow> 'a CNetAddr_scheme \<Rightarrow> bool \<times> 'a CNetAddr_scheme" where
  "SetSpecial strName a =
     (if length strName > 6 \<and> drop (length strName - 6) strName = ''.onion'' then
        let vchAddr = fst (DecodeBase32 (c_str (take (length strName - 6) strName))) in
        if length vchAddr \<noteq> 16 - length pchOnionCat then (False, a)
        else (True, a\<lparr> na_ip := pchOnionCat @ vchAddr \<rparr>)
      else (False, a))"

definition CNetAddr_of_in_addr :: "bytes \<Rightarrow> CNetAddr" where
  "CNetAddr_of_in_addr ipv4Addr = \<lparr> na_ip = pchIPv4 @ ipv4Addr \<rparr>"

definition CNetAddr_of_in6_addr :: "bytes \<Rightarrow> CNetAddr" where
  "CNetAddr_of_in6_addr ipv6Addr = \<lparr> na_ip = ipv6Addr \<rparr>"

definition GetByte :: "'a CNetAddr_scheme \<Rightarrow> nat \<Rightarrow> byte" where
  "GetByte a n = na_ip a ! (15 - n)"

text \<open>\<open>memcmp(ip, pch, sizeof(pch)) == 0\<close>.\<close>

definition ip_prefix :: "'a CNetAddr_scheme \<Rightarrow> bytes \<Rightarrow> bool" where
  "ip_prefix a pch \<longleftrightarrow> memcmp (take (length pch) (na_ip a)) pch = 0"

definition IsIPv4 :: "'a CNetAddr_scheme \<Rightarrow> bool" where
  "IsIPv4 a \<longleftrightarrow> ip_prefix a pchIPv4"

definition IsTor :: "'a CNetAddr_scheme \<Rightarrow> bool" where
  "IsTor a \<longleftrightarrow> ip_prefix a pchOnionCat"

definition IsIPv6 :: "'a CNetAddr_scheme \<Rightarrow> bool" where
  "IsIPv6 a \<longleftrightarrow> \<not> IsIPv4 a \<and> \<not> IsTor a"

definition IsRFC1918 :: "'a CNetAddr_scheme \<Rightarrow> bool" where
  "IsRFC1918 a \<longleftrightarrow> IsIPv4 a \<and>
     (GetByte a 3 = 10 \<or> (GetByte a 3 = 192 \<and> GetByte a 2 = 168) \<or>
      (GetByte a 3 = 172 \<and> (GetByte a 2 \<ge> 16 \<and> GetByte a 2 \<le> 31)))"

definition IsRFC3927 :: "'a CNetAddr_scheme \<Rightarrow> bool" where
  "IsRFC3927 a \<longleftrightarrow> IsIPv4 a \<and> (GetByte a 3 = 169 \<and> GetByte a 2 = 254)"

definition IsRFC3849 :: "'a CNetAddr_scheme \<Rightarrow> bool" where
  "IsRFC3849 a \<longleftrightarrow> GetByte a 15 = 0x20 \<and> GetByte a 14 = 0x01 \<and> GetByte a 13 = 0x0D \<and> GetByte a 12 = 0xB8"

definition IsRFC3964 :: "'a CNetAddr_scheme \<Rightarrow> bool" where
  "IsRFC3964 a \<longleftrightarrow> GetByte a 15 = 0x20 \<and> GetByte a 14 = 0x02"

definition IsRFC6052 :: "'a CNetAddr_scheme \<Rightarrow> bool" where
  "IsRFC6052 a \<longleftrightarrow> ip_prefix a [0,0x64,0xFF,0x9B,0,0,0,0,0,0,0,0]"

definition IsRFC4380 :: "'a CNetAddr_scheme \<Rightarrow> bool" where
  "IsRFC4380 a \<longleftrightarrow> GetByte a 15 = 0x20 \<and> GetByte a 14 = 0x01 \<and> GetByte a 13 = 0 \<and> GetByte a 12 = 0"

definition IsRFC4862 :: "'a CNetAddr_scheme \<Rightarrow> bool" where
  "IsRFC4862 a \<longleftrightarrow> ip_prefix a [0xFE,0x80,0,0,0,0,0,0]"

definition IsRFC4193 :: "'a CNetAddr_scheme \<Rightarrow> bool" where
  "IsRFC4193 a \<longleftrightarrow> GetByte a 15 AND 0xFE = 0xFC"

definition IsRFC6145 :: "'a CNetAddr_scheme \<Rightarrow> bool" where
  "IsRFC6145 a \<longleftrightarrow> ip_prefix a [0,0,0,0,0,0,0,0,0xFF,0xFF,0,0]"

definition IsRFC4843 :: "'a CNetAddr_scheme \<Rightarrow> bool" where
  "IsRFC4843 a \<longleftrightarrow> GetByte a 15 = 0x20 \<and> GetByte a 14 = 0x01 \<and> GetByte a 13 = 0x00 \<and>
     GetByte a 12 AND 0xF0 = 0x10"

definition IsLocal :: "'a CNetAddr_scheme \<Rightarrow> bool" where
  "IsLocal a =
     (if IsIPv4 a \<and> (GetByte a 3 = 127 \<or> GetByte a 3 = 0) then True
      else if ip_prefix a [0,0,0,0,0,0,0,0,0,0,0,0,0,0,0,1] then True
      else False)"

definition IsMulticast :: "'a CNetAddr_scheme \<Rightarrow> bool" where
  "IsMulticast a \<longleftrightarrow> (IsIPv4 a \<and> GetByte a 3 AND 0xF0 = 0xE0) \<or> GetByte a 15 = 0xFF"

definition NetAddr_IsValid :: "'a CNetAddr_scheme \<Rightarrow> bool" where
  "NetAddr_IsValid a =
     (if ip_prefix a (drop 3 pchIPv4) then False
      else if ip_prefix a (replicate 16 0) then False
      else if IsRFC3849 a then False
      else if IsIPv4 a \<and> drop 12 (na_ip a) = [0xff, 0xff, 0xff, 0xff] then False
      else if IsIPv4 a \<and> drop 12 (na_ip a) = [0, 0, 0, 0] then False
      else True)"

definition IsRoutable :: "'a CNetAddr_scheme \<Rightarrow> bool" where
  "IsRoutable a \<longleftrightarrow> NetAddr_IsValid a \<and>
     \<not> (IsRFC1918 a \<or> IsRFC3927 a \<or> IsRFC4862 a \<or> (IsRFC4193 a \<and> \<not> IsTor a) \<or> IsRFC4843 a \<or> IsLocal a)"

definition GetNetwork :: "'a CNetAddr_scheme \<Rightarrow> Network" where
  "GetNetwork a =
     (if \<not> IsRoutable a then NET_UNROUTABLE
      else if IsIPv4 a then NET_IPV4
      else if IsTor a then NET_TOR
      else NET_IPV6)"

definition NetAddr_eq :: "'a CNetAddr_scheme \<Rightarrow> 'b CNetAddr_scheme \<Rightarrow> bool" where
  "NetAddr_eq a b \<longleftrightarrow> memcmp (na_ip a) (na_ip b) = 0"

definition NetAddr_less :: "'a CNetAddr_scheme \<Rightarrow> 'b CNetAddr_scheme \<Rightarrow> bool" where
  "NetAddr_less a b \<longleftrightarrow> memcmp (na_ip a) (na_ip b) < 0"

definition GetInAddr :: "'a CNetAddr_scheme \<Rightarrow> bytes option" where
  "GetInAddr a = (if \<not> IsIPv4 a then None else Some (drop 12 (na_ip a)))"

definition GetIn6Addr :: "'a CNetAddr_scheme \<Rightarrow> bytes option" where
  "GetIn6Addr a = Some (na_ip a)"

subsection \<open>Groups\<close>

text \<open>The loop over \<open>nBits\<close> and the partial byte behind it.\<close>

function group_bytes :: "'a CNetAddr_scheme \<Rightarrow> nat \<Rightarrow> nat \<Rightarrow> bytes" where
  "group_bytes a nStartByte nBits =
     (if nBits \<ge> 8 then GetByte a (15 - nStartByte) # group_bytes a (nStartByte + 1) (nBits - 8)
      else if nBits > 0 then [GetByte a (15 - nStartByte) OR word_of_nat (2 ^ nBits - 1)]
      else [])"
  by pat_completeness auto
termination
  by (relation "measure (\<lambda>(a, s, n). n)") auto

declare group_bytes.simps [simp del]

text \<open>\<open>nc\<close> gives the numeric value of an enumerator.\<close>

definition GetGroup :: "(Network \<Rightarrow> int) \<Rightarrow> 'a CNetAddr_scheme \<Rightarrow> bytes" where
  "GetGroup nc a =
     (let (nClass, nBits) = (if IsLocal a then (255, 0) else (nc NET_IPV6, 16)) in
      if \<not> IsRoutable a then
        word_of_int (nc NET_UNROUTABLE) # group_bytes a 0 0
      else if IsIPv4 a \<or> IsRFC6145 a \<or> IsRFC6052 a then
        word_of_int (nc NET_IPV4) # group_bytes a 12 nBits
      else if IsRFC3964 a then
        word_of_int (nc NET_IPV4) # group_bytes a 2 nBits
      else if IsRFC4380 a then
        [word_of_int (nc NET_IPV4), GetByte a 3 XOR 0xFF, GetByte a 2 XOR 0xFF]
      else if IsTor a then
        word_of_int (nc NET_TOR) # group_bytes a 6 4
      else if GetByte a 15 = 0x20 \<and> GetByte a 14 = 0x11 \<and> GetByte a 13 = 0x04 \<and> GetByte a 12 = 0x70 then
        word_of_int nClass # group_bytes a 0 36
      else
        word_of_int nClass # group_bytes a 0 32)"

definition NetAddr_GetHash :: "'c sha_ops \<Rightarrow> 'a CNetAddr_scheme \<Rightarrow> uint64" where
  "NetAddr_GetHash S a = ucast (Hash S (na_ip a))"

subsection \<open>Reachability\<close>

datatype ExtNetwork = Net Network | NET_UNKNOWN | NET_TEREDO

datatype Reachability = REACH_UNREACHABLE | REACH_DEFAULT | REACH_TEREDO | REACH_IPV6_WEAK
  | REACH_IPV4 | REACH_IPV6_STRONG | REACH_PRIVATE

definition GetExtNetwork :: "'a CNetAddr_scheme option \<Rightarrow> ExtNetwork" where
  "GetExtNetwork addr =
     (case addr of
        None \<Rightarrow> NET_UNKNOWN
      | Some a \<Rightarrow> if IsRFC4380 a then NET_TEREDO else Net (GetNetwork a))"

fun reach_ipv4 :: "ExtNetwork \<Rightarrow> Reachability" where
  "reach_ipv4 (Net NET_IPV4) = REACH_IPV4"
| "reach_ipv4 _ = REACH_DEFAULT"

fun reach_ipv6 :: "bool \<Rightarrow> ExtNetwork \<Rightarrow> Reachability" where
  "reach_ipv6 fTunnel NET_TEREDO = REACH_TEREDO"
| "reach_ipv6 fTunnel (Net NET_IPV4) = REACH_IPV4"
| "reach_ipv6 fTunnel (Net NET_IPV6) = (if fTunnel then REACH_IPV6_WEAK else REACH_IPV6_STRONG)"
| "reach_ipv6 fTunnel _ = REACH_DEFAULT"

fun reach_tor :: "ExtNetwork \<Rightarrow> Reachability" where
  "reach_tor (Net NET_IPV4) = REACH_IPV4"
| "reach_tor (Net NET_TOR) = REACH_PRIVATE"
| "reach_tor _ = REACH_DEFAULT"

fun reach_teredo :: "ExtNetwork \<Rightarrow> Reachability" where
  "reach_teredo NET_TEREDO = REACH_TEREDO"
| "reach_teredo (Net NET_IPV6) = REACH_IPV6_WEAK"
| "reach_teredo (Net NET_IPV4) = REACH_IPV4"
| "reach_teredo _ = REACH_DEFAULT"

fun reach_unknown :: "ExtNetwork \<Rightarrow> Reachability" where
  "reach_unknown NET_TEREDO = REACH_TEREDO"
| "reach_unknown (Net NET_IPV6) = REACH_IPV6_WEAK"
| "reach_unknown (Net NET_IPV4) = REACH_IPV4"
| "reach_unknown (Net NET_TOR) = REACH_PRIVATE"
| "reach_unknown _ = REACH_DEFAULT"

definition GetReachabilityFrom ::
  "'a CNetAddr_scheme \<Rightarrow> 'b CNetAddr_scheme option \<Rightarrow> Reachability" where
  "GetReachabilityFrom a paddrPartner =
     (if \<not> IsRoutable a then REACH_UNREACHABLE
      else let ourNet = GetExtNetwork (Some a);
               theirNet = GetExtNetwork paddrPartner;
               fTunnel = IsRFC3964 a \<or> IsRFC6052 a \<or> IsRFC6145 a
           in case theirNet of
             Net NET_IPV4 \<Rightarrow> reach_ipv4 ourNet
           | Net NET_IPV6 \<Rightarrow> reach_ipv6 fTunnel ourNet
           | Net NET_TOR \<Rightarrow> reach_tor ourNet
           | NET_TEREDO \<Rightarrow> reach_teredo ourNet
           | _ \<Rightarrow> reach_unknown ourNet)"

subsection \<open>CService\<close>

definition CService_make :: "'a CNetAddr_scheme \<Rightarrow> 16 word \<Rightarrow> CService" where
  "CService_make cip portIn = \<lparr> na_ip = na_ip cip, na_port = portIn \<rparr>"

definition CService_Init :: CService where
  "CService_Init = \<lparr> na_ip = replicate 16 0, na_port = 0 \<rparr>"

text \<open>Socket addresses, with the port in network byte order.\<close>

datatype sockaddr = Sock_IN bytes "16 word" | Sock_IN6 bytes "16 word" | Sock_other

definition htons :: "16 word \<Rightarrow> 16 word" where
  "htons w = push_bit 8 w OR drop_bit 8 w"

definition SetSockAddr :: "sockaddr \<Rightarrow> CService \<Rightarrow> bool \<times> CService" where
  "SetSockAddr paddr s =
     (case paddr of
        Sock_IN a p \<Rightarrow> (True, CService_make (CNetAddr_of_in_addr a) (htons p))
      | Sock_IN6 a p \<Rightarrow> (True, CService_make (CNetAddr_of_in6_addr a) (htons p))
      | Sock_other \<Rightarrow> (False, s))"

text \<open>\<open>addrlen\<close> is the size of the buffer; \<open>sockaddr_in\<close> has 16 bytes and \<open>sockaddr_in6\<close> 28.\<close>

definition GetSockAddr :: "'a CService_scheme \<Rightarrow> nat \<Rightarrow> (sockaddr \<times> nat) option" where
  "GetSockAddr s addrlen =
     (if IsIPv4 s then
        if addrlen < 16 then None
        else case GetInAddr s of None \<Rightarrow> None | Some a \<Rightarrow> Some (Sock_IN a (htons (na_port s)), 16)
      else if IsIPv6 s then
        if addrlen < 28 then None
        else case GetIn6Addr s of None \<Rightarrow> None | Some a \<Rightarrow> Some (Sock_IN6 a (htons (na_port s)), 28)
      else None)"

definition Service_eq :: "'a CService_scheme \<Rightarrow> 'b CService_scheme \<Rightarrow> bool" where
  "Service_eq a b \<longleftrightarrow> NetAddr_eq a b \<and> na_port a = na_port b"

definition Service_less :: "'a CService_scheme \<Rightarrow> 'b CService_scheme \<Rightarrow> bool" where
  "Service_less a b \<longleftrightarrow> NetAddr_less a b \<or> (NetAddr_eq a b \<and> na_port a < na_port b)"

definition Service_GetKey :: "'a CService_scheme \<Rightarrow> bytes" where
  "Service_GetKey s = na_ip s @ [ucast (na_port s div 0x100), ucast (na_port s AND 0x0FF)]"

definition SetPort :: "16 word \<Rightarrow> 'a CService_scheme \<Rightarrow> 'a CService_scheme" where
  "SetPort portIn s = s\<lparr> na_port := portIn \<rparr>"

subsection \<open>Text\<close>

fun hex_string :: "nat \<Rightarrow> string" where
  "hex_string n =
     (if n < 16 then [''0123456789abcdef'' ! n] else hex_string (n div 16) @ [''0123456789abcdef'' ! (n mod 16)])"

declare hex_string.simps [simp del]

definition word16 :: "'a CNetAddr_scheme \<Rightarrow> nat \<Rightarrow> string" where
  "word16 a n = hex_string (unat (GetByte a n) * 256 + unat (GetByte a (n - 1)))"

text \<open>\<open>getnameinfo\<close> with \<open>NI_NUMERICHOST\<close>, or \<^term>\<open>None\<close> when it fails.\<close>

definition ToStringIP :: "(sockaddr \<Rightarrow> string option) \<Rightarrow> 'a CNetAddr_scheme \<Rightarrow> string" where
  "ToStringIP getnameinfo a =
     (if IsTor a then EncodeBase32 (take 10 (drop 6 (na_ip a))) @ ''.onion''
      else case (case GetSockAddr (CService_make a 0) 128 of
                   None \<Rightarrow> None | Some (sa, _) \<Rightarrow> getnameinfo sa) of
        Some name \<Rightarrow> name
      | None \<Rightarrow>
          if IsIPv4 a then
            dec_string (unat (GetByte a 3)) @ ''.'' @ dec_string (unat (GetByte a 2)) @ ''.'' @
            dec_string (unat (GetByte a 1)) @ ''.'' @ dec_string (unat (GetByte a 0))
          else
            word16 a 15 @ '':'' @ word16 a 13 @ '':'' @ word16 a 11 @ '':'' @ word16 a 9 @ '':'' @
            word16 a 7 @ '':'' @ word16 a 5 @ '':'' @ word16 a 3 @ '':'' @ word16 a 1)"

definition ToStringPort :: "'a CService_scheme \<Rightarrow> string" where
  "ToStringPort s = dec_string (unat (na_port s))"

definition ToStringIPPort :: "(sockaddr \<Rightarrow> string option) \<Rightarrow> 'a CService_scheme \<Rightarrow> string" where
  "ToStringIPPort getnameinfo s =
     (if IsIPv4 s \<or> IsTor s then ToStringIP getnameinfo s @ '':'' @ ToStringPort s
      else ''['' @ ToStringIP getnameinfo s @ '']:'' @ ToStringPort s)"

text \<open>\<open>strtol\<close> in base ten: white space, a sign, digits; the value saturates at the range of
  \<open>long\<close>, and \<open>endp\<close> is the start of the string when there are no digits.\<close>

definition strtol10 :: "string \<Rightarrow> int \<times> string" where
  "strtol10 s =
     (let t = dropWhile isspace s;
          neg = (char_at t 0 = CHR ''-'');
          u = (if char_at t 0 \<in> {CHR ''-'', CHR ''+''} then tl t else t);
          ds = takeWhile isdigit u
      in if ds = [] then (0, s)
         else (max (- (2 ^ 63)) (min (2 ^ 63 - 1) (if neg then - dec_val ds else dec_val ds)),
               dropWhile isdigit u))"

definition find_last_colon :: "string \<Rightarrow> nat option" where
  "find_last_colon s =
     (case filter (\<lambda>i. s ! i = CHR '':'') [0..<length s] of [] \<Rightarrow> None | is \<Rightarrow> Some (last is))"

definition SplitHostPort :: "string \<Rightarrow> int32 \<Rightarrow> int32 \<times> string" where
  "SplitHostPort str portOut =
     (let colon = find_last_colon str;
          fHaveColon = (colon \<noteq> None);
          c = the colon;
          fBracketed = (fHaveColon \<and> char_at str 0 = CHR ''['' \<and> char_at str (c - 1) = CHR '']'');
          fMultiColon = (fHaveColon \<and> (c = 0 \<or> find_last_colon (take c str) \<noteq> None));
          (str, portOut) =
            (if fHaveColon \<and> (c = 0 \<or> fBracketed \<or> \<not> fMultiColon) then
               let (v, endp) = strtol10 (drop (c + 1) str);
                   n = signed_take_bit 31 v
               in if endp = [] \<and> n \<ge> 0
                  then (take c str, if n > 0 \<and> n < 0x10000 then n else portOut)
                  else (str, portOut)
             else (str, portOut))
      in (portOut,
          if length str > 0 \<and> str ! 0 = CHR ''['' \<and> str ! (length str - 1) = CHR '']''
          then take (length str - 2) (drop 1 str) else str))"

subsection \<open>Name resolution\<close>

text \<open>The list that \<open>getaddrinfo\<close> returns, or \<^term>\<open>None\<close> for an error; the flag allows name
  lookups.\<close>

datatype addrinfo = AI_INET bytes | AI_INET6 bytes | AI_OTHER

type_synonym resolver = "string \<Rightarrow> bool \<Rightarrow> addrinfo list option"

fun collect_addrs :: "nat \<Rightarrow> CNetAddr list \<Rightarrow> addrinfo list \<Rightarrow> CNetAddr list" where
  "collect_addrs nMax vIP [] = vIP"
| "collect_addrs nMax vIP (ai # rest) =
     (if nMax = 0 \<or> length vIP < nMax then
        collect_addrs nMax
          (case ai of
             AI_INET a \<Rightarrow> vIP @ [CNetAddr_of_in_addr a]
           | AI_INET6 a \<Rightarrow> vIP @ [CNetAddr_of_in6_addr a]
           | AI_OTHER \<Rightarrow> vIP) rest
      else vIP)"

definition LookupIntern :: "resolver \<Rightarrow> string \<Rightarrow> nat \<Rightarrow> bool \<Rightarrow> bool \<times> CNetAddr list" where
  "LookupIntern getaddrinfo pszName nMaxSolutions fAllowLookup =
     (case SetSpecial pszName CNetAddr_Init of
        (True, addr) \<Rightarrow> (True, [addr])
      | (False, _) \<Rightarrow>
          (case getaddrinfo pszName fAllowLookup of
             None \<Rightarrow> (False, [])
           | Some aiRes \<Rightarrow>
               let vIP = collect_addrs nMaxSolutions [] aiRes in (length vIP > 0, vIP)))"

definition LookupHost :: "resolver \<Rightarrow> string \<Rightarrow> nat \<Rightarrow> bool \<Rightarrow> bool \<times> CNetAddr list" where
  "LookupHost R pszName nMaxSolutions fAllowLookup =
     (if pszName = [] then (False, [])
      else let strHost = (if hd pszName = CHR ''['' \<and> last pszName = CHR '']''
                          then take (length pszName - 2) (drop 1 pszName) else pszName)
           in LookupIntern R strHost nMaxSolutions fAllowLookup)"

definition LookupHostNumeric :: "resolver \<Rightarrow> string \<Rightarrow> nat \<Rightarrow> bool \<times> CNetAddr list" where
  "LookupHostNumeric R pszName nMaxSolutions = LookupHost R pszName nMaxSolutions False"

definition CNetAddr_of_string :: "resolver \<Rightarrow> string \<Rightarrow> bool \<Rightarrow> CNetAddr" where
  "CNetAddr_of_string R strIp fAllowLookup =
     (case LookupHost R strIp 1 fAllowLookup of
        (True, vIP) \<Rightarrow> vIP ! 0
      | (False, _) \<Rightarrow> CNetAddr_Init)"

definition Lookup_all ::
  "resolver \<Rightarrow> string \<Rightarrow> int32 \<Rightarrow> bool \<Rightarrow> nat \<Rightarrow> bool \<times> CService list" where
  "Lookup_all R pszName portDefault fAllowLookup nMaxSolutions =
     (if pszName = [] then (False, [])
      else case SplitHostPort pszName portDefault of
        (port, hostname) \<Rightarrow>
          (case LookupIntern R hostname nMaxSolutions fAllowLookup of
             (False, _) \<Rightarrow> (False, [])
           | (True, vIP) \<Rightarrow> (True, map (\<lambda>a. CService_make a (word_of_int port)) vIP)))"

definition Lookup_one :: "resolver \<Rightarrow> string \<Rightarrow> int32 \<Rightarrow> bool \<Rightarrow> CService \<Rightarrow> bool \<times> CService" where
  "Lookup_one R pszName portDefault fAllowLookup addr =
     (case Lookup_all R pszName portDefault fAllowLookup 1 of
        (False, _) \<Rightarrow> (False, addr)
      | (True, vService) \<Rightarrow> (True, vService ! 0))"

definition LookupNumeric :: "resolver \<Rightarrow> string \<Rightarrow> int32 \<Rightarrow> CService \<Rightarrow> bool \<times> CService" where
  "LookupNumeric R pszName portDefault addr = Lookup_one R pszName portDefault False addr"

definition CService_of_string :: "resolver \<Rightarrow> string \<Rightarrow> int32 \<Rightarrow> bool \<Rightarrow> CService" where
  "CService_of_string R strIpPort portDefault fAllowLookup =
     (case Lookup_one R strIpPort portDefault fAllowLookup CService_Init of
        (True, ip) \<Rightarrow> ip
      | (False, _) \<Rightarrow> CService_Init)"

subsection \<open>Proxies\<close>

record proxies =
  proxyInfo :: "Network \<Rightarrow> CService \<times> int32"
  nameproxyInfo :: "CService \<times> int32"

definition SetProxy :: "Network \<Rightarrow> CService \<Rightarrow> int32 \<Rightarrow> proxies \<Rightarrow> bool \<times> proxies" where
  "SetProxy net addrProxy nSocksVersion ps =
     (if nSocksVersion \<noteq> 0 \<and> nSocksVersion \<noteq> 4 \<and> nSocksVersion \<noteq> 5 then (False, ps)
      else if nSocksVersion \<noteq> 0 \<and> \<not> NetAddr_IsValid addrProxy then (False, ps)
      else (True, ps\<lparr> proxyInfo := (proxyInfo ps)(net := (addrProxy, nSocksVersion)) \<rparr>))"

definition GetProxy :: "Network \<Rightarrow> proxies \<Rightarrow> (CService \<times> int32) option" where
  "GetProxy net ps = (if snd (proxyInfo ps net) = 0 then None else Some (proxyInfo ps net))"

definition SetNameProxy :: "CService \<Rightarrow> int32 \<Rightarrow> proxies \<Rightarrow> bool \<times> proxies" where
  "SetNameProxy addrProxy nSocksVersion ps =
     (if nSocksVersion \<noteq> 0 \<and> nSocksVersion \<noteq> 5 then (False, ps)
      else if nSocksVersion \<noteq> 0 \<and> \<not> NetAddr_IsValid addrProxy then (False, ps)
      else (True, ps\<lparr> nameproxyInfo := (addrProxy, nSocksVersion) \<rparr>))"

definition GetNameProxy :: "proxies \<Rightarrow> (CService \<times> int32) option" where
  "GetNameProxy ps = (if snd (nameproxyInfo ps) = 0 then None else Some (nameproxyInfo ps))"

definition HaveNameProxy :: "proxies \<Rightarrow> bool" where
  "HaveNameProxy ps \<longleftrightarrow> snd (nameproxyInfo ps) \<noteq> 0"

definition IsProxy :: "'a CNetAddr_scheme \<Rightarrow> proxies \<Rightarrow> bool" where
  "IsProxy addr ps \<longleftrightarrow>
     (\<exists>i\<in>set [NET_UNROUTABLE, NET_IPV4, NET_IPV6, NET_TOR].
        snd (proxyInfo ps i) \<noteq> 0 \<and> NetAddr_eq addr (fst (proxyInfo ps i)))"

subsection \<open>Facts on addresses\<close>

lemma ip_prefix_iff:
  "NetAddr_wf a \<Longrightarrow> length pch \<le> 16 \<Longrightarrow> ip_prefix a pch \<longleftrightarrow> take (length pch) (na_ip a) = pch"
  by (simp add: ip_prefix_def NetAddr_wf_def memcmp_eq_0)

lemma wf_list:
  assumes "NetAddr_wf a"
  obtains b0 b1 b2 b3 b4 b5 b6 b7 b8 b9 b10 b11 b12 b13 b14 b15 where
    "na_ip a = [b0, b1, b2, b3, b4, b5, b6, b7, b8, b9, b10, b11, b12, b13, b14, b15]"
proof -
  have "length (na_ip a) = 16" using assms by (simp add: NetAddr_wf_def)
  then show ?thesis
    using that by (auto simp: numeral_eq_Suc length_Suc_conv)
qed

lemma pchIPv4_len: "length pchIPv4 = 12"
  by (simp add: pchIPv4_def)

lemma pchOnionCat_len: "length pchOnionCat = 6"
  by (simp add: pchOnionCat_def)

lemma IsIPv4_iff: "NetAddr_wf a \<Longrightarrow> IsIPv4 a \<longleftrightarrow> take 12 (na_ip a) = pchIPv4"
  using ip_prefix_iff [of a pchIPv4] by (simp add: IsIPv4_def pchIPv4_len)

lemma IsTor_iff: "NetAddr_wf a \<Longrightarrow> IsTor a \<longleftrightarrow> take 6 (na_ip a) = pchOnionCat"
  using ip_prefix_iff [of a pchOnionCat] by (simp add: IsTor_def pchOnionCat_len)

lemma NetAddr_eq_iff: "NetAddr_wf a \<Longrightarrow> NetAddr_wf b \<Longrightarrow> NetAddr_eq a b \<longleftrightarrow> na_ip a = na_ip b"
  by (simp add: NetAddr_eq_def NetAddr_wf_def memcmp_eq_0)

lemma routable_not_local: "IsRoutable a \<Longrightarrow> \<not> IsLocal a"
  by (simp add: IsRoutable_def)

lemma group_16: "group_bytes a k 16 = [GetByte a (15 - k), GetByte a (15 - (k + 1))]"
  by (simp add: group_bytes.simps [of a k 16] group_bytes.simps [of a "Suc k" 8]
      group_bytes.simps [of a "Suc (Suc k)" 0])

lemma group_0: "group_bytes a k 0 = []"
  by (simp add: group_bytes.simps)

lemma length_group_bytes: "length (group_bytes a k n) = (n + 7) div 8"
proof (induction a k n rule: group_bytes.induct)
  case (1 a k n)
  show ?case
  proof (cases "n \<ge> 8")
    case True
    then have "(n + 7) div 8 = Suc ((n - 8 + 7) div 8)" by (simp add: le_div_geq)
    with 1 True show ?thesis by (subst group_bytes.simps) simp
  next
    case False
    have "n = 0 \<or> (n + 7) div 8 = 1"
    proof (cases "n = 0")
      case pos: False
      then have "n + 7 = 8 * 1 + (n - 1)" "n - 1 < 8" using False by auto
      then show ?thesis by (metis div_mult_self4 div_less zero_neq_numeral add.right_neutral)
    qed simp
    then show ?thesis using False by (subst group_bytes.simps) auto
  qed
qed

lemma GetGroup_unroutable: "\<not> IsRoutable a \<Longrightarrow> GetGroup nc a = [word_of_int (nc NET_UNROUTABLE)]"
  by (auto simp: GetGroup_def Let_def group_0)

lemma GetGroup_ipv4:
  assumes "NetAddr_wf a" "IsRoutable a" "IsIPv4 a"
  shows "GetGroup nc a = [word_of_int (nc NET_IPV4), na_ip a ! 12, na_ip a ! 13]"
  using assms routable_not_local [OF assms(2)]
  by (auto simp: GetGroup_def group_16 GetByte_def)

lemma htons_htons: "htons (htons w) = w"
  by (rule bit_word_eqI) (auto simp: htons_def bit_simps)

subsection \<open>Properties\<close>

text \<open>All unroutable addresses, local ones included, form one group, and no routable address
  belongs to it; the group of a routable address has between two and six bytes.\<close>

theorem GetGroup_unroutable_iff:
  "(GetGroup nc a = [word_of_int (nc NET_UNROUTABLE)] \<longleftrightarrow> \<not> IsRoutable a) \<and>
   length (GetGroup nc a) \<le> 6"
proof (cases "IsRoutable a")
  case True
  then have "2 \<le> length (GetGroup nc a)" "length (GetGroup nc a) \<le> 6"
    using routable_not_local [OF True] by (auto simp: GetGroup_def Let_def length_group_bytes)
  then show ?thesis using True by auto
next
  case False
  then show ?thesis by (simp add: GetGroup_unroutable)
qed

text \<open>Tunnelled addresses belong to the group of the IPv4 address they carry: SIIT
  translation (RFC 6145), the well-known prefix (RFC 6052), 6to4 (RFC 3964) and Teredo
  (RFC 4380, where the address is stored complemented), whenever both are routable.\<close>

theorem GetGroup_tunnels:
  fixes v :: bytes and nc :: "Network \<Rightarrow> int"
  assumes "length v = 4" "IsRoutable (CNetAddr_of_in_addr v)"
    and "x \<in> {[0,0,0,0,0,0,0,0,0xFF,0xFF,0,0] @ v, [0,0x64,0xFF,0x9B,0,0,0,0,0,0,0,0] @ v,
           [0x20,0x02] @ v @ r10, [0x20,0x01,0,0] @ r8 @ map (\<lambda>b. b XOR 0xFF) v}"
    and "length r10 = 10" "length r8 = 8" "IsRoutable \<lparr> na_ip = x \<rparr>"
  shows "GetGroup nc \<lparr> na_ip = x \<rparr> = GetGroup nc (CNetAddr_of_in_addr v)"
proof -
  let ?a = "\<lparr> na_ip = x \<rparr>"
  obtain v0 v1 v2 v3 where v: "v = [v0, v1, v2, v3]"
    using assms(1) by (auto simp: numeral_eq_Suc length_Suc_conv)
  have wf: "NetAddr_wf ?a" "NetAddr_wf (CNetAddr_of_in_addr v)"
    using assms(1,3-5) by (auto simp: NetAddr_wf_def CNetAddr_of_in_addr_def pchIPv4_def)
  have "IsIPv4 (CNetAddr_of_in_addr v)"
    using wf(2) by (simp add: IsIPv4_iff CNetAddr_of_in_addr_def pchIPv4_def)
  then have v4: "GetGroup nc (CNetAddr_of_in_addr v) = [word_of_int (nc NET_IPV4), v0, v1]"
    using GetGroup_ipv4 [OF wf(2) assms(2)] by (simp add: v CNetAddr_of_in_addr_def pchIPv4_def)
  have xx: "(b XOR 0xFF) XOR 0xFF = b" for b :: byte
    by (rule bit_word_eqI) (auto simp: bit_simps)
  have loc: "\<not> IsLocal ?a" using routable_not_local [OF assms(6)] .
  consider "IsIPv4 ?a \<or> IsRFC6145 ?a \<or> IsRFC6052 ?a" "GetByte ?a 3 = v0" "GetByte ?a 2 = v1"
    | "\<not> (IsIPv4 ?a \<or> IsRFC6145 ?a \<or> IsRFC6052 ?a)" "IsRFC3964 ?a" "GetByte ?a 13 = v0" "GetByte ?a 12 = v1"
    | "\<not> (IsIPv4 ?a \<or> IsRFC6145 ?a \<or> IsRFC6052 ?a)" "\<not> IsRFC3964 ?a" "IsRFC4380 ?a"
      "GetByte ?a 3 = v0 XOR 0xFF" "GetByte ?a 2 = v1 XOR 0xFF"
    using assms(3-5) wf(1)
    by (auto simp: v IsIPv4_def IsRFC6145_def IsRFC6052_def IsRFC3964_def IsRFC4380_def ip_prefix_iff
        GetByte_def pchIPv4_def nth_append)
  then show ?thesis
  proof cases
    case 1
    then show ?thesis using assms(6) loc v4 by (simp add: GetGroup_def group_16)
  next
    case 2
    then show ?thesis using assms(6) loc v4 by (simp add: GetGroup_def group_16)
  next
    case 3
    then show ?thesis using assms(6) loc v4 xx by (simp add: GetGroup_def)
  qed
qed

definition demo_nc :: "Network \<Rightarrow> int" where
  "demo_nc n = (case n of NET_UNROUTABLE \<Rightarrow> 0 | NET_IPV4 \<Rightarrow> 1 | NET_IPV6 \<Rightarrow> 2 | NET_TOR \<Rightarrow> 3)"

theorem GetGroup_tunnels_witness:
  "GetGroup demo_nc \<lparr> na_ip = [0x20,0x02] @ [8,8,4,4] @ [1,2,3,4,5,6,7,8,9,10] \<rparr> =
     GetGroup demo_nc (CNetAddr_of_in_addr [8,8,4,4])"
proof (rule GetGroup_tunnels [where ?r10.0 = "[1,2,3,4,5,6,7,8,9,10]" and ?r8.0 = "replicate 8 0"])
  show "IsRoutable (CNetAddr_of_in_addr [8, 8, 4, 4])" by code_simp
  show "IsRoutable \<lparr> na_ip = [0x20,0x02] @ [8,8,4,4] @ [1,2,3,4,5,6,7,8,9,10] \<rparr>" by code_simp
qed simp_all

text \<open>An IPv4 or IPv6 service survives the conversion to a socket address and back, port byte
  order included; only onion addresses have no socket address.\<close>

theorem SockAddr_roundtrip:
  assumes "NetAddr_wf (s :: CService)"
  shows "(\<exists>sa n. GetSockAddr s 28 = Some (sa, n) \<and> SetSockAddr sa s0 = (True, s)) \<longleftrightarrow> \<not> IsTor s"
proof (cases "IsTor s")
  case True
  have "\<not> IsIPv4 s"
    using True assms by (rule_tac wf_list [OF assms]) (auto simp: IsIPv4_iff IsTor_iff pchIPv4_def pchOnionCat_def)
  then show ?thesis using True by (simp add: GetSockAddr_def IsIPv6_def)
next
  case False
  have "IsIPv4 s \<Longrightarrow> na_ip s = pchIPv4 @ drop 12 (na_ip s)"
    using assms append_take_drop_id [of 12 "na_ip s"] by (simp add: IsIPv4_iff)
  then have "\<exists>sa n. GetSockAddr s 28 = Some (sa, n) \<and> SetSockAddr sa s0 = (True, s)"
    using False by (cases "IsIPv4 s")
      (auto simp: GetSockAddr_def IsIPv6_def GetInAddr_def GetIn6Addr_def SetSockAddr_def htons_htons
        CService_make_def CNetAddr_of_in_addr_def CNetAddr_of_in6_addr_def intro!: CService.equality)
  then show ?thesis using False by simp
qed

theorem SockAddr_roundtrip_witness:
  "(\<exists>sa n. GetSockAddr (CService_make (CNetAddr_of_in_addr [1,2,3,4]) 8333) 28 = Some (sa, n) \<and>
      SetSockAddr sa CService_Init = (True, CService_make (CNetAddr_of_in_addr [1,2,3,4]) 8333)) \<longleftrightarrow>
   \<not> IsTor (CService_make (CNetAddr_of_in_addr [1,2,3,4]) 8333)"
  by (rule SockAddr_roundtrip)
    (simp add: NetAddr_wf_def CService_make_def CNetAddr_of_in_addr_def pchIPv4_def)

end
