(* ===== verification/Protocol.thy ===== *)
theory Protocol
  imports NetAddr
begin

text \<open>
  The message header, the timestamped network address and the inventory vector
  (\<open>protocol.cpp\<close>).  The constants of the missing header \<open>protocol.h\<close> (the start string, the
  width of the command field, \<open>MAX_SIZE\<close>, \<open>NODE_NETWORK\<close>) are the fields of a record.
\<close>

record proto_consts =
  pc_start :: bytes
  pc_command_size :: nat
  pc_max_size :: uint32
  pc_node_network :: uint64

record CMessageHeader =
  mh_start :: bytes
  mh_command :: string
  mh_size :: uint32
  mh_checksum :: uint32

abbreviation nul :: char where
  "nul \<equiv> CHR 0x00"

text \<open>\<open>strncpy\<close>: at most \<open>n\<close> characters, padded with zeros; it does not terminate a string of
  \<open>n\<close> or more characters.\<close>

definition strncpy :: "string \<Rightarrow> nat \<Rightarrow> string" where
  "strncpy s n = take n (c_str s) @ replicate (n - length (c_str s)) nul"

definition CMessageHeader_default :: "proto_consts \<Rightarrow> CMessageHeader" where
  "CMessageHeader_default P = \<lparr> mh_start = pc_start P,
     mh_command = (replicate (pc_command_size P) nul)[1 := CHR 0x01],
     mh_size = - 1, mh_checksum = 0 \<rparr>"

definition CMessageHeader_make :: "proto_consts \<Rightarrow> string \<Rightarrow> uint32 \<Rightarrow> CMessageHeader" where
  "CMessageHeader_make P pszCommand nMessageSizeIn = \<lparr> mh_start = pc_start P,
     mh_command = strncpy pszCommand (pc_command_size P),
     mh_size = nMessageSizeIn, mh_checksum = 0 \<rparr>"

definition Header_GetCommand :: "proto_consts \<Rightarrow> CMessageHeader \<Rightarrow> string" where
  "Header_GetCommand P h =
     (if char_at (mh_command h) (pc_command_size P - 1) = nul then c_str (mh_command h)
      else take (pc_command_size P) (mh_command h))"

text \<open>The scan of the command field.  After the first zero an inner loop runs the same pointer to
  the end of the field, so nothing is left for the outer one.\<close>

fun command_ok :: "string \<Rightarrow> bool" where
  "command_ok [] \<longleftrightarrow> True"
| "command_ok (c # cs) \<longleftrightarrow>
     (if c = nul then \<forall>x\<in>set (c # cs). x = nul
      else \<not> (of_char c < (32 :: nat) \<or> of_char c > (0x7E :: nat)) \<and> command_ok cs)"

definition Header_IsValid :: "proto_consts \<Rightarrow> CMessageHeader \<Rightarrow> bool" where
  "Header_IsValid P h \<longleftrightarrow>
     (if memcmp (mh_start h) (pc_start P) \<noteq> 0 then False
      else if \<not> command_ok (mh_command h) then False
      else if mh_size h > pc_max_size P then False
      else True)"

record CAddress = CService +
  nServices :: uint64
  ca_nTime :: uint32
  nLastTry :: int64

definition CAddress_of :: "proto_consts \<Rightarrow> CService \<Rightarrow> CAddress" where
  "CAddress_of P ipIn = CService.extend ipIn
     (CAddress.fields (pc_node_network P) 100000000 0)"

definition CAddress_Init :: "proto_consts \<Rightarrow> CAddress" where
  "CAddress_Init P = CAddress_of P CService_Init"

definition CAddress_make :: "proto_consts \<Rightarrow> CService \<Rightarrow> uint64 \<Rightarrow> CAddress" where
  "CAddress_make P ipIn nServicesIn = (CAddress_of P ipIn) \<lparr> nServices := nServicesIn \<rparr>"

definition ppszTypeName :: "string list" where
  "ppszTypeName = [''ERROR'', ''tx'', ''block'', ''filtered block'']"

record CInv =
  inv_type :: int32
  inv_hash :: uint256

definition CInv_default :: CInv where
  "CInv_default = \<lparr> inv_type = 0, inv_hash = 0 \<rparr>"

definition CInv_of_name :: "string \<Rightarrow> uint256 \<Rightarrow> CInv res" where
  "CInv_of_name strType hashIn =
     (case List.find (\<lambda>i. strType = ppszTypeName ! i) [1..<length ppszTypeName] of
        None \<Rightarrow> Inl (Thrown (''CInv::CInv(string, uint256) : unknown type '' @ [CHR 0x27] @ strType @ [CHR 0x27]))
      | Some i \<Rightarrow> Inr \<lparr> inv_type = int i, inv_hash = hashIn \<rparr>)"

definition CInv_less :: "CInv \<Rightarrow> CInv \<Rightarrow> bool" where
  "CInv_less a b \<longleftrightarrow> inv_type a < inv_type b \<or> inv_type a = inv_type b \<and> inv_hash a < inv_hash b"

definition IsKnownType :: "CInv \<Rightarrow> bool" where
  "IsKnownType i \<longleftrightarrow> inv_type i \<ge> 1 \<and> inv_type i < int (length ppszTypeName)"

definition Inv_GetCommand :: "CInv \<Rightarrow> string res" where
  "Inv_GetCommand i =
     (if \<not> IsKnownType i
      then Inl (Thrown (''CInv::GetCommand() : type='' @ fmt_d (inv_type i) @ '' unknown type''))
      else Inr (ppszTypeName ! nat (inv_type i)))"

interpretation inv_order: key_order CInv_less
proof
  fix a b c :: CInv
  show "\<not> CInv_less a a" by (simp add: CInv_less_def)
  show "\<lbrakk> CInv_less a b; CInv_less b c \<rbrakk> \<Longrightarrow> CInv_less a c" by (auto simp: CInv_less_def)
  show "a \<noteq> b \<Longrightarrow> CInv_less a b \<or> CInv_less b a" by (cases a; cases b) (auto simp: CInv_less_def)
qed

subsection \<open>Lemmas\<close>

definition proto_ok :: "proto_consts \<Rightarrow> bool" where
  "proto_ok P \<longleftrightarrow> 2 \<le> pc_command_size P"

definition printable :: "string \<Rightarrow> bool" where
  "printable s \<longleftrightarrow> (\<forall>c\<in>set s. 32 \<le> (of_char c :: nat) \<and> (of_char c :: nat) \<le> 0x7E)"

lemma nul_not_printable: "printable s \<Longrightarrow> nul \<notin> set s"
  by (auto simp: printable_def)

lemma c_str_id: "nul \<notin> set s \<Longrightarrow> c_str s = s"
  by (auto simp: c_str_def takeWhile_eq_all_conv)

lemma c_str_padded: "nul \<notin> set s \<Longrightarrow> 0 < k \<Longrightarrow> c_str (s @ replicate k nul) = s"
  by (cases k) (auto simp: c_str_def takeWhile_append)

lemma command_ok_padded: "printable s \<Longrightarrow> command_ok (s @ replicate k nul)"
proof (induction s)
  case Nil
  then show ?case by (cases k) auto
next
  case (Cons c s)
  then have "c \<noteq> nul" "32 \<le> (of_char c :: nat)" "(of_char c :: nat) \<le> 0x7E" "printable s"
    by (auto simp: printable_def)
  then show ?case using Cons.IH by auto
qed

lemma command_ok_iff: "command_ok cs \<longleftrightarrow> (\<exists>s k. cs = s @ replicate k nul \<and> printable s)"
proof
  show "command_ok cs \<Longrightarrow> \<exists>s k. cs = s @ replicate k nul \<and> printable s"
  proof (induction cs)
    case Nil
    show ?case by (rule exI [of _ "[]"], rule exI [of _ 0]) (simp add: printable_def)
  next
    case (Cons c cs)
    show ?case
    proof (cases "c = nul")
      case True
      with Cons.prems have "c # cs = [] @ replicate (length (c # cs)) nul"
        by (simp add: replicate_length_same)
      then show ?thesis by (metis empty_iff list.set(1) printable_def)
    next
      case False
      with Cons obtain s k where "cs = s @ replicate k nul" "printable s" by auto
      moreover have "printable (c # s)" using \<open>printable s\<close> False Cons.prems by (auto simp: printable_def)
      ultimately show ?thesis by (metis append_Cons)
    qed
  qed
qed (auto intro: command_ok_padded)

lemma CInv_of_name_cases:
  "CInv_of_name t h =
     (if t = ''tx'' then Inr \<lparr> inv_type = 1, inv_hash = h \<rparr>
      else if t = ''block'' then Inr \<lparr> inv_type = 2, inv_hash = h \<rparr>
      else if t = ''filtered block'' then Inr \<lparr> inv_type = 3, inv_hash = h \<rparr>
      else Inl (Thrown (''CInv::CInv(string, uint256) : unknown type '' @ [CHR 0x27] @ t @ [CHR 0x27])))"
proof -
  have "[1..<length ppszTypeName] = [1, 2, 3]" by (simp add: ppszTypeName_def upt_rec)
  then show ?thesis by (simp add: CInv_of_name_def ppszTypeName_def numeral_eq_Suc)
qed

lemma type_names:
  "length ppszTypeName = 4" "ppszTypeName ! Suc 0 = ''tx''" "ppszTypeName ! 2 = ''block''"
  "ppszTypeName ! 3 = ''filtered block''" "tl ppszTypeName = [''tx'', ''block'', ''filtered block'']"
  by (simp_all add: ppszTypeName_def)

lemma inv_commands:
  "Inv_GetCommand \<lparr> inv_type = 1, inv_hash = h \<rparr> = Inr ''tx''"
  "Inv_GetCommand \<lparr> inv_type = 2, inv_hash = h \<rparr> = Inr ''block''"
  "Inv_GetCommand \<lparr> inv_type = 3, inv_hash = h \<rparr> = Inr ''filtered block''"
  "CInv_of_name ''tx'' h = Inr \<lparr> inv_type = 1, inv_hash = h \<rparr>"
  "CInv_of_name ''block'' h = Inr \<lparr> inv_type = 2, inv_hash = h \<rparr>"
  "CInv_of_name ''filtered block'' h = Inr \<lparr> inv_type = 3, inv_hash = h \<rparr>"
  unfolding Inv_GetCommand_def IsKnownType_def CInv_of_name_cases using type_names
  by (simp_all split del: if_split)

lemma CInv_of_unknown:
  "t \<noteq> ''tx'' \<Longrightarrow> t \<noteq> ''block'' \<Longrightarrow> t \<noteq> ''filtered block'' \<Longrightarrow> \<exists>e. CInv_of_name t h = Inl e"
  unfolding CInv_of_name_cases by simp

subsection \<open>Properties\<close>

text \<open>A header is accepted exactly when it carries the network's start string, a command of
  printable characters followed by zeros only, and a size within the limit; a header built for a
  printable command of any length up to the field's width is accepted and gives the command back,
  and the default header never is.\<close>

theorem CMessageHeader_IsValid_iff:
  assumes "proto_ok P" and "length (mh_start h) = length (pc_start P)"
  shows "(Header_IsValid P h \<longleftrightarrow> mh_start h = pc_start P
        \<and> (\<exists>s k. mh_command h = s @ replicate k nul \<and> printable s) \<and> mh_size h \<le> pc_max_size P)
    \<and> (printable s \<and> length s \<le> pc_command_size P \<and> sz \<le> pc_max_size P \<longrightarrow>
         Header_IsValid P (CMessageHeader_make P s sz)
         \<and> Header_GetCommand P (CMessageHeader_make P s sz) = s)
    \<and> \<not> Header_IsValid P (CMessageHeader_default P)"
proof (intro conjI impI)
  show "Header_IsValid P h \<longleftrightarrow> mh_start h = pc_start P
        \<and> (\<exists>s k. mh_command h = s @ replicate k nul \<and> printable s) \<and> mh_size h \<le> pc_max_size P"
    using assms(2) by (auto simp: Header_IsValid_def memcmp_eq_0 command_ok_iff)
next
  assume a: "printable s \<and> length s \<le> pc_command_size P \<and> sz \<le> pc_max_size P"
  then have nn: "nul \<notin> set s" by (simp add: nul_not_printable)
  have cmd: "mh_command (CMessageHeader_make P s sz) = s @ replicate (pc_command_size P - length s) nul"
    using a by (simp add: CMessageHeader_make_def strncpy_def c_str_id [OF nn])
  show "Header_IsValid P (CMessageHeader_make P s sz)"
    using a cmd by (auto simp: Header_IsValid_def CMessageHeader_make_def memcmp_eq_0 command_ok_padded)
  show "Header_GetCommand P (CMessageHeader_make P s sz) = s"
  proof (cases "length s = pc_command_size P")
    case True
    then have "char_at s (pc_command_size P - 1) \<noteq> nul"
      using nn assms(1) by (auto simp: char_at_def proto_ok_def) (metis Suc_1 diff_less lessI less_le_trans nth_mem zero_less_Suc)
    with True show ?thesis by (simp add: Header_GetCommand_def cmd)
  next
    case False
    then have "char_at (s @ replicate (pc_command_size P - length s) nul) (pc_command_size P - 1) = nul"
      using a by (auto simp: char_at_def nth_append)
    with False a show ?thesis by (simp add: Header_GetCommand_def cmd c_str_padded nn)
  qed
next
  have "pc_command_size P = Suc (Suc (pc_command_size P - 2))" using assms(1) unfolding proto_ok_def by arith
  then obtain n where n: "pc_command_size P = Suc (Suc n)" by blast
  show "\<not> Header_IsValid P (CMessageHeader_default P)"
    by (simp add: Header_IsValid_def CMessageHeader_default_def n)
qed

definition demo_proto :: proto_consts where
  "demo_proto = \<lparr> pc_start = [0xf9, 0xbe, 0xb4, 0xd9], pc_command_size = 12, pc_max_size = 0x02000000, pc_node_network = 1 \<rparr>"

theorem CMessageHeader_IsValid_iff_witness:
  "Header_IsValid demo_proto (CMessageHeader_make demo_proto ''version'' 100)
   \<and> Header_GetCommand demo_proto (CMessageHeader_make demo_proto ''version'' 100) = ''version''"
  using CMessageHeader_IsValid_iff [of demo_proto "CMessageHeader_make demo_proto ''version'' 100" "''version''" 100]
  by (auto simp: proto_ok_def demo_proto_def CMessageHeader_make_def printable_def)

text \<open>Inventory types and their names are inverse to each other: a vector made from a type name
  has a known type whose command is that name, a vector of a known type is made from its
  command, and any other name or type raises an exception.\<close>

theorem CInv_names:
  "(case CInv_of_name t h of
      Inr i \<Rightarrow> IsKnownType i \<and> inv_hash i = h \<and> Inv_GetCommand i = Inr t
    | Inl e \<Rightarrow> t \<notin> set (tl ppszTypeName))
   \<and> (case Inv_GetCommand i of
      Inr t \<Rightarrow> IsKnownType i \<and> CInv_of_name t (inv_hash i) = Inr i
    | Inl e \<Rightarrow> \<not> IsKnownType i)"
proof (rule conjI)
  show "case CInv_of_name t h of
      Inr i \<Rightarrow> IsKnownType i \<and> inv_hash i = h \<and> Inv_GetCommand i = Inr t
    | Inl e \<Rightarrow> t \<notin> set (tl ppszTypeName)"
    using inv_commands [of h] CInv_of_unknown [of t h]
    by (cases "t = ''tx''"; cases "t = ''block''"; cases "t = ''filtered block''")
      (auto simp: type_names IsKnownType_def)
next
  show "case Inv_GetCommand i of
      Inr t \<Rightarrow> IsKnownType i \<and> CInv_of_name t (inv_hash i) = Inr i
    | Inl e \<Rightarrow> \<not> IsKnownType i"
  proof (cases "IsKnownType i")
    case True
    then have "inv_type i = 1 \<or> inv_type i = 2 \<or> inv_type i = 3"
      by (auto simp: IsKnownType_def type_names)
    then show ?thesis using True
      using inv_commands [of "inv_hash i"] by (cases i) auto
  qed (simp add: Inv_GetCommand_def)
qed

end
