(* ===== verification/AddrMan.thy ===== *)
theory AddrMan
  imports Draws Protocol Hashing
begin

text \<open>
  The stochastic address manager (\<open>addrman.h\<close>, \<open>addrman.cpp\<close>).  \<open>mapInfo\<close> and \<open>mapAddr\<close> are maps,
  a \<open>std::set\<close> of identifiers is a set that is iterated in ascending order, and a reference to an
  entry is the key under which \<open>mapInfo\<close> holds it.  \<open>GetAdjustedTime()\<close> is the argument \<open>nNow\<close>.
  What the bucket hashes take from missing headers (the numbers of the networks, the
  serialisation of a byte vector and of a \<open>uint64\<close>, \<open>uint256::Get64\<close>) is a record of functions.
\<close>

subsection \<open>Entries\<close>

record CAddrInfo = CAddress +
  ai_source :: CNetAddr
  nLastSuccess :: int64
  nAttempts :: int32
  nRefCount :: int32
  fInTried :: bool
  nRandomPos :: int32

definition ADDRMAN_TRIED_BUCKET_COUNT :: nat where "ADDRMAN_TRIED_BUCKET_COUNT = 64"
definition ADDRMAN_TRIED_BUCKET_SIZE :: nat where "ADDRMAN_TRIED_BUCKET_SIZE = 64"
definition ADDRMAN_NEW_BUCKET_COUNT :: nat where "ADDRMAN_NEW_BUCKET_COUNT = 256"
definition ADDRMAN_NEW_BUCKET_SIZE :: nat where "ADDRMAN_NEW_BUCKET_SIZE = 64"
definition ADDRMAN_TRIED_BUCKETS_PER_GROUP :: nat where "ADDRMAN_TRIED_BUCKETS_PER_GROUP = 4"
definition ADDRMAN_NEW_BUCKETS_PER_SOURCE_GROUP :: nat where "ADDRMAN_NEW_BUCKETS_PER_SOURCE_GROUP = 32"
definition ADDRMAN_NEW_BUCKETS_PER_ADDRESS :: int32 where "ADDRMAN_NEW_BUCKETS_PER_ADDRESS = 4"
definition ADDRMAN_TRIED_ENTRIES_INSPECT_ON_EVICT :: nat where "ADDRMAN_TRIED_ENTRIES_INSPECT_ON_EVICT = 4"
definition ADDRMAN_HORIZON_DAYS :: int32 where "ADDRMAN_HORIZON_DAYS = 30"
definition ADDRMAN_RETRIES :: int32 where "ADDRMAN_RETRIES = 3"
definition ADDRMAN_MAX_FAILURES :: int32 where "ADDRMAN_MAX_FAILURES = 10"
definition ADDRMAN_MIN_FAIL_DAYS :: int32 where "ADDRMAN_MIN_FAIL_DAYS = 7"
definition ADDRMAN_GETADDR_MAX_PCT :: nat where "ADDRMAN_GETADDR_MAX_PCT = 23"
definition ADDRMAN_GETADDR_MAX :: nat where "ADDRMAN_GETADDR_MAX = 2500"

lemmas addrman_consts =
  ADDRMAN_TRIED_BUCKET_COUNT_def ADDRMAN_TRIED_BUCKET_SIZE_def ADDRMAN_NEW_BUCKET_COUNT_def
  ADDRMAN_NEW_BUCKET_SIZE_def ADDRMAN_TRIED_BUCKETS_PER_GROUP_def
  ADDRMAN_NEW_BUCKETS_PER_SOURCE_GROUP_def ADDRMAN_NEW_BUCKETS_PER_ADDRESS_def
  ADDRMAN_TRIED_ENTRIES_INSPECT_ON_EVICT_def ADDRMAN_GETADDR_MAX_PCT_def ADDRMAN_GETADDR_MAX_def

definition CAddrInfo_make :: "CAddress \<Rightarrow> CNetAddr \<Rightarrow> CAddrInfo" where
  "CAddrInfo_make addrIn addrSource =
     CAddress.extend (addrIn \<lparr> nLastTry := 0 \<rparr>) (CAddrInfo.fields addrSource 0 0 0 False (- 1))"

definition CAddrInfo_default :: "proto_consts \<Rightarrow> CAddrInfo" where
  "CAddrInfo_default P = CAddrInfo_make (CAddress_Init P) CNetAddr_Init"

record 'c bucket_env =
  be_sha :: "'c sha_ops"
  be_nc :: "Network \<Rightarrow> int"
  be_put_vch :: "bytes \<Rightarrow> bytes"
  be_put_u64 :: "uint64 \<Rightarrow> bytes"
  be_get64 :: "uint256 \<Rightarrow> uint64"
  be_proto :: proto_consts

definition hash64 :: "'c bucket_env \<Rightarrow> bytes \<Rightarrow> nat" where
  "hash64 E ss = unat (be_get64 E (Hash (be_sha E) ss))"

definition GetTriedBucket :: "'c bucket_env \<Rightarrow> bytes \<Rightarrow> 'a CService_scheme \<Rightarrow> nat" where
  "GetTriedBucket E key info =
     (let hash1 = hash64 E (be_put_vch E key @ be_put_vch E (Service_GetKey info));
          hash2 = hash64 E (be_put_vch E key @ be_put_vch E (GetGroup (be_nc E) info)
                    @ be_put_u64 E (word_of_nat (hash1 mod ADDRMAN_TRIED_BUCKETS_PER_GROUP)))
      in hash2 mod ADDRMAN_TRIED_BUCKET_COUNT)"

definition GetNewBucket :: "'c bucket_env \<Rightarrow> bytes \<Rightarrow> 'a CNetAddr_scheme \<Rightarrow> 'b CNetAddr_scheme \<Rightarrow> nat" where
  "GetNewBucket E key info src =
     (let vchSourceGroupKey = GetGroup (be_nc E) src;
          hash1 = hash64 E (be_put_vch E key @ be_put_vch E (GetGroup (be_nc E) info)
                    @ be_put_vch E vchSourceGroupKey);
          hash2 = hash64 E (be_put_vch E key @ be_put_vch E vchSourceGroupKey
                    @ be_put_u64 E (word_of_nat (hash1 mod ADDRMAN_NEW_BUCKETS_PER_SOURCE_GROUP)))
      in hash2 mod ADDRMAN_NEW_BUCKET_COUNT)"

definition IsTerrible :: "int64 \<Rightarrow> CAddrInfo \<Rightarrow> bool" where
  "IsTerrible nNow info \<longleftrightarrow>
     (let t = uint (ca_nTime info) in
      if nLastTry info \<noteq> 0 \<and> nLastTry info \<ge> nNow - 60 then False
      else if t > nNow + 10 * 60 then True
      else if t = 0 \<or> nNow - t > ADDRMAN_HORIZON_DAYS * 86400 then True
      else if nLastSuccess info = 0 \<and> nAttempts info \<ge> ADDRMAN_RETRIES then True
      else if nNow - nLastSuccess info > ADDRMAN_MIN_FAIL_DAYS * 86400 \<and> nAttempts info \<ge> ADDRMAN_MAX_FAILURES then True
      else False)"

subsection \<open>The manager\<close>

record CAddrMan =
  nKey :: bytes
  nIdCount :: int32
  mapInfo :: "int32 \<rightharpoonup> CAddrInfo"
  mapAddr :: "CNetAddr \<rightharpoonup> int32"
  vRandom :: "int32 list"
  nTried :: int32
  vvTried :: "int32 list list"
  nNew :: int32
  vvNew :: "int32 set list"

definition CAddrMan_make :: "bytes \<Rightarrow> CAddrMan" where
  "CAddrMan_make key = \<lparr> nKey = key, nIdCount = 0, mapInfo = Map.empty, mapAddr = Map.empty, vRandom = [],
     nTried = 0, vvTried = replicate ADDRMAN_TRIED_BUCKET_COUNT [],
     nNew = 0, vvNew = replicate ADDRMAN_NEW_BUCKET_COUNT {} \<rparr>"

text \<open>The key of \<open>mapAddr\<close>: the order of \<open>CNetAddr\<close> looks at the address only, not at the port.\<close>

definition ip_key :: "'a CNetAddr_scheme \<Rightarrow> CNetAddr" where
  "ip_key a = \<lparr> na_ip = na_ip a \<rparr>"

definition Find :: "'a CNetAddr_scheme \<Rightarrow> CAddrMan \<Rightarrow> (int32 \<times> CAddrInfo) option" where
  "Find addr am =
     (case mapAddr am (ip_key addr) of
        None \<Rightarrow> None
      | Some nId \<Rightarrow> map_option (Pair nId) (mapInfo am nId))"

definition Create :: "CAddress \<Rightarrow> CNetAddr \<Rightarrow> CAddrMan \<Rightarrow> int32 \<times> CAddrMan" where
  "Create addr addrSource am =
     (let nId = nIdCount am in
      (nId, am \<lparr> nIdCount := nId + 1,
                 mapInfo := (mapInfo am)(nId \<mapsto> (CAddrInfo_make addr addrSource) \<lparr> nRandomPos := int (length (vRandom am)) \<rparr>),
                 mapAddr := (mapAddr am)(ip_key addr \<mapsto> nId),
                 vRandom := vRandom am @ [nId] \<rparr>))"

text \<open>An update through a reference to the entry \<open>nId\<close>.\<close>

definition upd_info :: "int32 \<Rightarrow> (CAddrInfo \<Rightarrow> CAddrInfo) \<Rightarrow> CAddrMan \<Rightarrow> CAddrMan" where
  "upd_info nId f am = am \<lparr> mapInfo := (mapInfo am)(nId := map_option f (mapInfo am nId)) \<rparr>"

definition SwapRandom :: "uint32 \<Rightarrow> uint32 \<Rightarrow> CAddrMan \<Rightarrow> CAddrMan res" where
  "SwapRandom nRndPos1 nRndPos2 am =
     (if nRndPos1 = nRndPos2 then Inr am
      else if \<not> (unat nRndPos1 < length (vRandom am) \<and> unat nRndPos2 < length (vRandom am)) then Inl AssertFailed
      else
        let nId1 = vRandom am ! unat nRndPos1; nId2 = vRandom am ! unat nRndPos2 in
        if mapInfo am nId1 = None \<or> mapInfo am nId2 = None then Inl AssertFailed
        else
          Inr ((upd_info nId2 (nRandomPos_update (\<lambda>_. int (unat nRndPos1)))
                 (upd_info nId1 (nRandomPos_update (\<lambda>_. int (unat nRndPos2))) am))
               \<lparr> vRandom := (vRandom am)[unat nRndPos1 := nId2, unat nRndPos2 := nId1] \<rparr>))"

text \<open>\<open>mapInfo[n]\<close> creates a default entry when there is none.\<close>

definition touch :: "proto_consts \<Rightarrow> int32 \<Rightarrow> CAddrMan \<Rightarrow> CAddrMan" where
  "touch P n am = (if mapInfo am n = None then am \<lparr> mapInfo := (mapInfo am)(n \<mapsto> CAddrInfo_default P) \<rparr> else am)"

function select_loop :: "proto_consts \<Rightarrow> nat \<Rightarrow> nat \<Rightarrow> int32 \<Rightarrow> int32 \<Rightarrow> CAddrMan \<Rightarrow> (int32 \<times> CAddrMan) rnd" where
  "select_loop P b i nOldest nOldestPos am =
     (let vTried = vvTried am ! b in
      if i < ADDRMAN_TRIED_ENTRIES_INSPECT_ON_EVICT \<and> i < length vTried then
        rbind (rand_int (int (length vTried) - int i)) (\<lambda>r.
          let nPos = nat (r + int i); nTemp = vTried ! nPos;
              am1 = am \<lparr> vvTried := (vvTried am)[b := vTried[nPos := vTried ! i, i := nTemp]] \<rparr>
          in rbind (guard (nOldest = - 1 \<or> mapInfo am1 nTemp \<noteq> None)) (\<lambda>_.
               if nOldest = - 1 then select_loop P b (i + 1) nTemp (int nPos) am1
               else let am2 = touch P nOldest am1 in
                 if nLastSuccess (the (mapInfo am2 nTemp)) < nLastSuccess (the (mapInfo am2 nOldest))
                 then select_loop P b (i + 1) nTemp (int nPos) am2
                 else select_loop P b (i + 1) nOldest nOldestPos am2))
      else ret (nOldestPos, am))"
  by pat_completeness auto
termination
  by (relation "measure (\<lambda>(P, b, i, _). ADDRMAN_TRIED_ENTRIES_INSPECT_ON_EVICT - i)") auto

declare select_loop.simps [simp del]

definition SelectTried :: "proto_consts \<Rightarrow> nat \<Rightarrow> CAddrMan \<Rightarrow> (int32 \<times> CAddrMan) rnd" where
  "SelectTried P nKBucket am =
     (if nKBucket < length (vvTried am) then select_loop P nKBucket 0 (- 1) (- 1) am else lift (Inl OutOfRange))"

text \<open>The common part of both branches of \<open>ShrinkNew\<close>: one reference less, and the entry is removed
  from all indexes when it was the last one.\<close>

definition drop_ref :: "int32 \<Rightarrow> CAddrMan \<Rightarrow> CAddrMan res" where
  "drop_ref nId am =
     (let am1 = upd_info nId (nRefCount_update (\<lambda>c. c - 1)) am; info = the (mapInfo am1 nId) in
      if nRefCount info = 0 then
        bind_res (SwapRandom (word_of_int (nRandomPos info)) (word_of_nat (length (vRandom am1)) - 1) am1) (\<lambda>am2.
          if vRandom am2 = [] then Inl OutOfRange
          else Inr (am2 \<lparr> vRandom := butlast (vRandom am2), mapAddr := (mapAddr am2)(ip_key info := None),
                          mapInfo := (mapInfo am2)(nId := None), nNew := nNew am2 - 1 \<rparr>))
      else Inr am1)"

fun find_terrible :: "int64 \<Rightarrow> (int32 \<rightharpoonup> CAddrInfo) \<Rightarrow> int32 list \<Rightarrow> int32 option res" where
  "find_terrible nNow m [] = Inr None"
| "find_terrible nNow m (n # ns) =
     (case m n of
        None \<Rightarrow> Inl AssertFailed
      | Some info \<Rightarrow> if IsTerrible nNow info then Inr (Some n) else find_terrible nNow m ns)"

fun oldest_loop :: "proto_consts \<Rightarrow> int32 list \<Rightarrow> int32 \<Rightarrow> int32 \<Rightarrow> int32 list \<Rightarrow> CAddrMan \<Rightarrow> (int32 \<times> CAddrMan) res" where
  "oldest_loop P n nI nOldest [] am = Inr (nOldest, am)"
| "oldest_loop P n nI nOldest (it # its) am =
     (if nI \<in> set n then
        if nOldest = - 1 then oldest_loop P n (nI + 1) it its am
        else if mapInfo am it = None then Inl AssertFailed
        else let am1 = touch P nOldest am in
          if ca_nTime (the (mapInfo am1 it)) < ca_nTime (the (mapInfo am1 nOldest))
          then oldest_loop P n (nI + 1) it its am1
          else oldest_loop P n (nI + 1) nOldest its am1
      else oldest_loop P n (nI + 1) nOldest its am)"

definition erase_new :: "nat \<Rightarrow> int32 \<Rightarrow> CAddrMan \<Rightarrow> CAddrMan" where
  "erase_new b n am = am \<lparr> vvNew := (vvNew am)[b := vvNew am ! b - {n}] \<rparr>"

definition ShrinkNew :: "proto_consts \<Rightarrow> int64 \<Rightarrow> int32 \<Rightarrow> CAddrMan \<Rightarrow> (int32 \<times> CAddrMan) rnd" where
  "ShrinkNew P nNow nUBucket am =
     rbind (guard (nUBucket \<ge> 0 \<and> nat nUBucket < length (vvNew am))) (\<lambda>_.
       let b = nat nUBucket; its = sorted_list_of_set (vvNew am ! b); sz = int (length its) in
       rbind (lift (find_terrible nNow (mapInfo am) its)) (\<lambda>t.
         case t of
           Some n \<Rightarrow> rbind (lift (drop_ref n am)) (\<lambda>am1. ret (0, erase_new b n am1))
         | None \<Rightarrow>
             rbind (rand_int sz) (\<lambda>n0. rbind (rand_int sz) (\<lambda>n1. rbind (rand_int sz) (\<lambda>n2. rbind (rand_int sz) (\<lambda>n3.
               rbind (lift (oldest_loop P [n0, n1, n2, n3] 0 (- 1) its am)) (\<lambda>(nOldest, am1).
                 rbind (guard (mapInfo am1 nOldest \<noteq> None)) (\<lambda>_.
                   rbind (lift (drop_ref nOldest am1)) (\<lambda>am2. ret (1, erase_new b nOldest am2))))))))))"

text \<open>\<open>MakeTried\<close>: the eviction of the tried entry at position \<open>nPos\<close> (the second half of the
  function), and the whole of it.\<close>

definition evict_tried :: "'c bucket_env \<Rightarrow> int32 \<Rightarrow> nat \<Rightarrow> nat \<Rightarrow> int32 \<Rightarrow> CAddrMan \<Rightarrow> CAddrMan rnd" where
  "evict_tried E nId nOrigin nKBucket nPos am =
     (let vTried = vvTried am ! nKBucket in
      if \<not> (0 \<le> nPos \<and> nat nPos < length vTried) then lift (Inl OutOfRange)
      else
        let nOld = vTried ! nat nPos in
        rbind (guard (mapInfo am nOld \<noteq> None)) (\<lambda>_.
          let infoOld = the (mapInfo am nOld);
              nUBucket = GetNewBucket E (nKey am) infoOld (ai_source infoOld);
              am1 = upd_info nOld (\<lambda>i. i \<lparr> fInTried := False, nRefCount := 1 \<rparr>) am;
              nTo = (if card (vvNew am1 ! nUBucket) < ADDRMAN_NEW_BUCKET_SIZE then nUBucket else nOrigin);
              am2 = am1 \<lparr> vvNew := (vvNew am1)[nTo := insert nOld (vvNew am1 ! nTo)], nNew := nNew am1 + 1,
                           vvTried := (vvTried am1)[nKBucket := vTried[nat nPos := nId]] \<rparr>
          in ret (upd_info nId (fInTried_update (\<lambda>_. True)) am2)))"

definition MakeTried :: "'c bucket_env \<Rightarrow> int32 \<Rightarrow> nat \<Rightarrow> CAddrMan \<Rightarrow> CAddrMan rnd" where
  "MakeTried E nId nOrigin am =
     rbind (if nOrigin < length (vvNew am) then guard (nId \<in> vvNew am ! nOrigin) else lift (Inl OutOfRange)) (\<lambda>_.
       let am1 = (upd_info nId (nRefCount_update (\<lambda>c. c - int (length (filter (\<lambda>s. nId \<in> s) (vvNew am))))) am)
                   \<lparr> vvNew := map (\<lambda>s. s - {nId}) (vvNew am), nNew := nNew am - 1 \<rparr>
       in rbind (guard (nRefCount (the (mapInfo am1 nId)) = 0)) (\<lambda>_.
         let nKBucket = GetTriedBucket E (nKey am1) (the (mapInfo am1 nId)) in
         if length (vvTried am1 ! nKBucket) < ADDRMAN_TRIED_BUCKET_SIZE then
           ret (upd_info nId (fInTried_update (\<lambda>_. True))
             (am1 \<lparr> vvTried := (vvTried am1)[nKBucket := (vvTried am1 ! nKBucket) @ [nId]], nTried := nTried am1 + 1 \<rparr>))
         else
           rbind (SelectTried (be_proto E) nKBucket am1) (\<lambda>(nPos, am2). evict_tried E nId nOrigin nKBucket nPos am2)))"

text \<open>Assignment of an \<open>int64\<close> time to the unsigned field.\<close>

definition set_time :: "int64 \<Rightarrow> CAddrInfo \<Rightarrow> CAddrInfo" where
  "set_time t i = i \<lparr> ca_nTime := word_of_int t \<rparr>"

definition AM_Good :: "'c bucket_env \<Rightarrow> 'a CService_scheme \<Rightarrow> int64 \<Rightarrow> CAddrMan \<Rightarrow> CAddrMan rnd" where
  "AM_Good E addr t am =
     (case Find addr am of
        None \<Rightarrow> ret am
      | Some (nId, info) \<Rightarrow>
          if \<not> Service_eq info addr then ret am
          else
            let am1 = upd_info nId (\<lambda>i. (set_time t i) \<lparr> nLastSuccess := t, nLastTry := t, nAttempts := 0 \<rparr>) am in
            if fInTried info then ret am1
            else
              rbind (rand_int (int (length (vvNew am1)))) (\<lambda>nRnd.
                case List.find (\<lambda>nB. nId \<in> vvNew am1 ! nB)
                       (map (\<lambda>n. (n + nat nRnd) mod length (vvNew am1)) [0..<length (vvNew am1)]) of
                  None \<Rightarrow> ret am1
                | Some nUBucket \<Rightarrow> MakeTried E nId nUBucket am1))"

definition update_known :: "int64 \<Rightarrow> int64 \<Rightarrow> CAddress \<Rightarrow> CAddrInfo \<Rightarrow> CAddrInfo" where
  "update_known nNow nTimePenalty addr info =
     (let fCurrentlyOnline = (nNow - uint (ca_nTime addr) < 24 * 60 * 60);
          nUpdateInterval = (if fCurrentlyOnline then 60 * 60 else 24 * 60 * 60);
          info1 = (if ca_nTime addr \<noteq> 0 \<and> (ca_nTime info = 0
                       \<or> uint (ca_nTime info) < uint (ca_nTime addr) - nUpdateInterval - nTimePenalty)
                   then set_time (max 0 (uint (ca_nTime addr) - nTimePenalty)) info else info)
      in info1 \<lparr> nServices := nServices info1 OR nServices addr \<rparr>)"

definition add_to_bucket :: "'c bucket_env \<Rightarrow> int64 \<Rightarrow> int32 \<Rightarrow> CNetAddr \<Rightarrow> CAddrMan \<Rightarrow> CAddrMan rnd" where
  "add_to_bucket E nNow nId src am =
     (let nUBucket = GetNewBucket E (nKey am) (the (mapInfo am nId)) src in
      if nId \<in> vvNew am ! nUBucket then ret am
      else
        let am1 = upd_info nId (nRefCount_update (\<lambda>c. c + 1)) am in
        rbind (if card (vvNew am1 ! nUBucket) = ADDRMAN_NEW_BUCKET_SIZE
               then rbind (ShrinkNew (be_proto E) nNow (int nUBucket) am1) (\<lambda>(_, am2). ret am2)
               else ret am1) (\<lambda>am2.
          ret (am2 \<lparr> vvNew := (vvNew am2)[nUBucket := insert nId (vvNew am2 ! nUBucket)] \<rparr>)))"

definition AM_Add :: "'c bucket_env \<Rightarrow> int64 \<Rightarrow> CAddress \<Rightarrow> CNetAddr \<Rightarrow> int64 \<Rightarrow> CAddrMan \<Rightarrow> (bool \<times> CAddrMan) rnd" where
  "AM_Add E nNow addr src nTimePenalty am =
     (if \<not> IsRoutable addr then ret (False, am)
      else case Find addr am of
        Some (nId, _) \<Rightarrow>
          let am1 = upd_info nId (update_known nNow nTimePenalty addr) am; info = the (mapInfo am1 nId) in
          if ca_nTime addr = 0 \<or> (ca_nTime info \<noteq> 0 \<and> ca_nTime addr \<le> ca_nTime info) then ret (False, am1)
          else if fInTried info then ret (False, am1)
          else if nRefCount info = ADDRMAN_NEW_BUCKETS_PER_ADDRESS then ret (False, am1)
          else
            let nFactor = 2 ^ nat (nRefCount info) in
            if nFactor > 1 then
              rbind (rand_int nFactor) (\<lambda>r.
                if r \<noteq> 0 then ret (False, am1)
                else rbind (add_to_bucket E nNow nId src am1) (\<lambda>am2. ret (False, am2)))
            else rbind (add_to_bucket E nNow nId src am1) (\<lambda>am2. ret (False, am2))
      | None \<Rightarrow>
          (case Create addr src am of
             (nId, am1) \<Rightarrow>
               let am2 = (upd_info nId (\<lambda>i. set_time (max 0 (uint (ca_nTime i) - nTimePenalty)) i) am1)
                           \<lparr> nNew := nNew am1 + 1 \<rparr>
               in rbind (add_to_bucket E nNow nId src am2) (\<lambda>am3. ret (True, am3))))"

definition AM_Attempt :: "'a CService_scheme \<Rightarrow> int64 \<Rightarrow> CAddrMan \<Rightarrow> CAddrMan" where
  "AM_Attempt addr t am =
     (case Find addr am of
        None \<Rightarrow> am
      | Some (nId, info) \<Rightarrow>
          if \<not> Service_eq info addr then am
          else upd_info nId (\<lambda>i. i \<lparr> nLastTry := t, nAttempts := nAttempts i + 1 \<rparr>) am)"

definition AM_Connected :: "'a CService_scheme \<Rightarrow> int64 \<Rightarrow> CAddrMan \<Rightarrow> CAddrMan" where
  "AM_Connected addr t am =
     (case Find addr am of
        None \<Rightarrow> am
      | Some (nId, info) \<Rightarrow>
          if \<not> Service_eq info addr then am
          else if t - uint (ca_nTime info) > 20 * 60 then upd_info nId (set_time t) am
          else am)"

fun getaddr_loop :: "nat \<Rightarrow> nat \<Rightarrow> CAddress list \<Rightarrow> CAddrMan \<Rightarrow> (CAddress list \<times> CAddrMan) rnd" where
  "getaddr_loop 0 n vAddr am = ret (vAddr, am)"
| "getaddr_loop (Suc k) n vAddr am =
     rbind (rand_int (int (length (vRandom am)) - int n)) (\<lambda>r.
       rbind (lift (SwapRandom (word_of_nat n) (word_of_int (r + int n)) am)) (\<lambda>am1.
         case mapInfo am1 (vRandom am1 ! n) of
           None \<Rightarrow> lift (Inl AssertFailed)
         | Some info \<Rightarrow> getaddr_loop k (n + 1) (vAddr @ [CAddress.truncate info]) am1))"

definition AM_GetAddr :: "CAddrMan \<Rightarrow> (CAddress list \<times> CAddrMan) rnd" where
  "AM_GetAddr am = getaddr_loop (min (ADDRMAN_GETADDR_MAX_PCT * length (vRandom am) div 100) ADDRMAN_GETADDR_MAX) 0 [] am"

subsection \<open>Selection of an address to connect to\<close>

text \<open>The two decisions that \<open>Select_\<close> takes in floating point are functions of the environment:
  whether the tried table is used, given \<open>nTried\<close>, \<open>nNew\<close>, the bias and a draw below \<open>2^30\<close>, and
  whether an entry is accepted after a number of rejections, given the current time and a draw.\<close>

record fp_env =
  fp_use_tried :: "int32 \<Rightarrow> int32 \<Rightarrow> int32 \<Rightarrow> int32 \<Rightarrow> bool"
  fp_accept :: "nat \<Rightarrow> CAddrInfo \<Rightarrow> int64 \<Rightarrow> int32 \<Rightarrow> bool"

text \<open>Both loops run until an entry is accepted.  The first argument bounds the number of rounds:
  each round draws at least once, so the number of draws given is bound enough.\<close>

fun select_tried_loop :: "nat \<Rightarrow> fp_env \<Rightarrow> int64 \<Rightarrow> nat \<Rightarrow> CAddrMan \<Rightarrow> CAddress rnd" where
  "select_tried_loop 0 F nNow k am = lift (Inl NoReturn)"
| "select_tried_loop (Suc fuel) F nNow k am =
     rbind (rand_int (int (length (vvTried am)))) (\<lambda>nKBucket.
       let vTried = vvTried am ! nat nKBucket in
       if length vTried = 0 then select_tried_loop fuel F nNow k am
       else rbind (rand_int (int (length vTried))) (\<lambda>nPos.
         case mapInfo am (vTried ! nat nPos) of
           None \<Rightarrow> lift (Inl AssertFailed)
         | Some info \<Rightarrow> rbind (rand_int (2 ^ 30)) (\<lambda>r.
             if fp_accept F k info nNow r then ret (CAddress.truncate info)
             else select_tried_loop fuel F nNow (k + 1) am)))"

fun select_new_loop :: "nat \<Rightarrow> fp_env \<Rightarrow> int64 \<Rightarrow> nat \<Rightarrow> CAddrMan \<Rightarrow> CAddress rnd" where
  "select_new_loop 0 F nNow k am = lift (Inl NoReturn)"
| "select_new_loop (Suc fuel) F nNow k am =
     rbind (rand_int (int (length (vvNew am)))) (\<lambda>nUBucket.
       let vNew = vvNew am ! nat nUBucket in
       if card vNew = 0 then select_new_loop fuel F nNow k am
       else rbind (rand_int (int (card vNew))) (\<lambda>nPos.
         case mapInfo am (sorted_list_of_set vNew ! nat nPos) of
           None \<Rightarrow> lift (Inl AssertFailed)
         | Some info \<Rightarrow> rbind (rand_int (2 ^ 30)) (\<lambda>r.
             if fp_accept F k info nNow r then ret (CAddress.truncate info)
             else select_new_loop fuel F nNow (k + 1) am)))"

definition AM_Select :: "proto_consts \<Rightarrow> fp_env \<Rightarrow> int64 \<Rightarrow> int32 \<Rightarrow> CAddrMan \<Rightarrow> CAddress rnd" where
  "AM_Select P F nNow nUnkBias am d =
     (if length (vRandom am) = 0 then ret (CAddress_Init P) d
      else rbind (rand_int (2 ^ 30)) (\<lambda>r.
             if fp_use_tried F (nTried am) (nNew am) nUnkBias r
             then select_tried_loop (length d) F nNow 0 am
             else select_new_loop (length d) F nNow 0 am) d)"

subsection \<open>The consistency check\<close>

text \<open>\<open>Check_\<close> returns an error code, or zero.  \<open>mapAddr[info]\<close> creates an entry with value zero when
  there is none.\<close>

fun check_infos :: "CAddrMan \<Rightarrow> int32 list \<Rightarrow> int32 set \<Rightarrow> (int32 \<rightharpoonup> int32) \<Rightarrow> (CNetAddr \<rightharpoonup> int32)
    \<Rightarrow> int32 + int32 set \<times> (int32 \<rightharpoonup> int32) \<times> (CNetAddr \<rightharpoonup> int32)" where
  "check_infos am [] setTried mapNew ma = Inr (setTried, mapNew, ma)"
| "check_infos am (n # ns) setTried mapNew ma =
     (let info = the (mapInfo am n);
          ma1 = (if ma (ip_key info) = None then ma(ip_key info \<mapsto> 0) else ma)
      in
      if fInTried info \<and> nLastSuccess info = 0 then Inl (- 1)
      else if fInTried info \<and> nRefCount info \<noteq> 0 then Inl (- 2)
      else if \<not> fInTried info \<and> (nRefCount info < 0 \<or> nRefCount info > ADDRMAN_NEW_BUCKETS_PER_ADDRESS) then Inl (- 3)
      else if \<not> fInTried info \<and> nRefCount info = 0 then Inl (- 4)
      else if the (ma1 (ip_key info)) \<noteq> n then Inl (- 5)
      else if nRandomPos info < 0 \<or> nRandomPos info \<ge> int (length (vRandom am)) \<or> vRandom am ! nat (nRandomPos info) \<noteq> n then Inl (- 14)
      else if nLastTry info < 0 then Inl (- 6)
      else if nLastSuccess info < 0 then Inl (- 8)
      else check_infos am ns (if fInTried info then insert n setTried else setTried)
             (if fInTried info then mapNew else mapNew(n \<mapsto> nRefCount info)) ma1)"

fun check_tried :: "int32 list \<Rightarrow> int32 set \<Rightarrow> int32 set option" where
  "check_tried [] setTried = Some setTried"
| "check_tried (n # ns) setTried = (if n \<notin> setTried then None else check_tried ns (setTried - {n}))"

fun check_new :: "int32 list \<Rightarrow> (int32 \<rightharpoonup> int32) \<Rightarrow> (int32 \<rightharpoonup> int32) option" where
  "check_new [] mapNew = Some mapNew"
| "check_new (n # ns) mapNew =
     (case mapNew n of
        None \<Rightarrow> None
      | Some c \<Rightarrow> check_new ns (if c - 1 = 0 then mapNew(n := None) else mapNew(n \<mapsto> c - 1)))"

definition AM_Check :: "CAddrMan \<Rightarrow> int32 \<times> CAddrMan" where
  "AM_Check am =
     (if int (length (vRandom am)) \<noteq> nTried am + nNew am then (- 7, am)
      else case check_infos am (sorted_list_of_set (dom (mapInfo am))) {} Map.empty (mapAddr am) of
        Inl e \<Rightarrow> (e, am)
      | Inr (setTried, mapNew, ma) \<Rightarrow>
          let am1 = am \<lparr> mapAddr := ma \<rparr> in
          if int (card setTried) \<noteq> nTried am then (- 9, am1)
          else if int (card (dom mapNew)) \<noteq> nNew am then (- 10, am1)
          else case check_tried (concat (vvTried am)) setTried of
            None \<Rightarrow> (- 11, am1)
          | Some setTried1 \<Rightarrow>
              (case check_new (concat (map sorted_list_of_set (vvNew am))) mapNew of
                 None \<Rightarrow> (- 12, am1)
               | Some mapNew1 \<Rightarrow>
                   if card setTried1 \<noteq> 0 then (- 13, am1)
                   else if card (dom mapNew1) \<noteq> 0 then (- 15, am1)
                   else (0, am1)))"

end
