(* ===== verification/AddrManInv.thy ===== *)
theory AddrManInv
  imports AddrMan "HOL-Library.Multiset"
begin

text \<open>
  The invariant of the address manager and its preservation.  The invariant says what \<open>Check_\<close>
  checks, and the limits on the buckets that \<open>Check_\<close> leaves out.  It has one parameter: the entry
  whose reference count \<open>Add_\<close> has already increased while the entry is not yet in its bucket,
  which is the state in which \<open>ShrinkNew\<close> runs.
\<close>

subsection \<open>The invariant\<close>

definition tried_ids :: "(int32 \<rightharpoonup> CAddrInfo) \<Rightarrow> int32 set" where
  "tried_ids m = {n. \<exists>i. m n = Some i \<and> fInTried i}"

definition new_ref :: "(int32 \<rightharpoonup> CAddrInfo) \<Rightarrow> int32 \<rightharpoonup> int32" where
  "new_ref m n = (case m n of None \<Rightarrow> None | Some i \<Rightarrow> if fInTried i then None else Some (nRefCount i))"

definition refs :: "int32 set list \<Rightarrow> int32 \<Rightarrow> nat" where
  "refs vs n = length (filter (\<lambda>s. n \<in> s) vs)"

definition index_ok :: "(int32 \<rightharpoonup> CAddrInfo) \<Rightarrow> (CNetAddr \<rightharpoonup> int32) \<Rightarrow> int32 \<Rightarrow> bool" where
  "index_ok m ma c \<longleftrightarrow> dom m \<subseteq> {0..<c} \<and> 0 \<le> c \<and> c < 2 ^ 31
     \<and> (\<forall>k n. ma k = Some n \<longleftrightarrow> (\<exists>i. m n = Some i \<and> ip_key i = k))"

definition random_ok :: "(int32 \<rightharpoonup> CAddrInfo) \<Rightarrow> int32 list \<Rightarrow> bool" where
  "random_ok m vr \<longleftrightarrow> distinct vr \<and> set vr = dom m
     \<and> (\<forall>p<length vr. \<forall>i. m (vr ! p) = Some i \<longrightarrow> nRandomPos i = int p)"

definition tried_ok :: "int32 set \<Rightarrow> int32 list list \<Rightarrow> int32 \<Rightarrow> bool" where
  "tried_ok T vt nt \<longleftrightarrow> length vt = ADDRMAN_TRIED_BUCKET_COUNT
     \<and> (\<forall>v\<in>set vt. length v \<le> ADDRMAN_TRIED_BUCKET_SIZE)
     \<and> finite T \<and> mset (concat vt) = mset_set T \<and> nt = int (card T)"

definition new_ok :: "int32 option \<Rightarrow> (int32 \<rightharpoonup> int32) \<Rightarrow> int32 set list \<Rightarrow> int32 \<Rightarrow> bool" where
  "new_ok pend r vn nn \<longleftrightarrow> length vn = ADDRMAN_NEW_BUCKET_COUNT
     \<and> (\<forall>s\<in>set vn. finite s \<and> card s \<le> ADDRMAN_NEW_BUCKET_SIZE \<and> s \<subseteq> dom r)
     \<and> (\<forall>n c. r n = Some c \<longrightarrow> c = int (refs vn n) + (if pend = Some n then 1 else 0)
          \<and> 1 \<le> c \<and> c \<le> ADDRMAN_NEW_BUCKETS_PER_ADDRESS)
     \<and> (\<forall>n. pend = Some n \<longrightarrow> n \<in> dom r) \<and> finite (dom r) \<and> nn = int (card (dom r))"

definition entry_ok :: "CAddrInfo \<Rightarrow> bool" where
  "entry_ok i \<longleftrightarrow> nLastTry i \<ge> 0 \<and> nLastSuccess i \<ge> 0
     \<and> (fInTried i \<longrightarrow> nLastSuccess i \<noteq> 0 \<and> nRefCount i = 0)"

definition am_inv :: "int32 option \<Rightarrow> CAddrMan \<Rightarrow> bool" where
  "am_inv pend am \<longleftrightarrow> index_ok (mapInfo am) (mapAddr am) (nIdCount am)
     \<and> random_ok (mapInfo am) (vRandom am)
     \<and> tried_ok (tried_ids (mapInfo am)) (vvTried am) (nTried am)
     \<and> new_ok pend (new_ref (mapInfo am)) (vvNew am) (nNew am)
     \<and> (\<forall>n i. mapInfo am n = Some i \<longrightarrow> entry_ok i)"

lemma am_invD:
  assumes "am_inv pend am"
  shows "index_ok (mapInfo am) (mapAddr am) (nIdCount am)" "random_ok (mapInfo am) (vRandom am)"
    "tried_ok (tried_ids (mapInfo am)) (vvTried am) (nTried am)"
    "new_ok pend (new_ref (mapInfo am)) (vvNew am) (nNew am)"
    "mapInfo am n = Some i \<Longrightarrow> entry_ok i"
  using assms by (auto simp: am_inv_def)

lemma am_inv_make: "am_inv None (CAddrMan_make key)"
proof -
  have r: "new_ref Map.empty = Map.empty" by (auto simp: new_ref_def)
  have t: "tried_ids Map.empty = {}" by (auto simp: tried_ids_def)
  have c: "concat (replicate k []) = ([] :: int32 list)" for k by (induction k) auto
  show ?thesis
    by (simp add: am_inv_def CAddrMan_make_def index_ok_def random_ok_def tried_ok_def new_ok_def r t c addrman_consts)
qed

subsection \<open>Entries that agree on what the indexes use\<close>

text \<open>Two tables with the same keys, addresses and positions.\<close>

definition same_index :: "(int32 \<rightharpoonup> CAddrInfo) \<Rightarrow> (int32 \<rightharpoonup> CAddrInfo) \<Rightarrow> bool" where
  "same_index m m' \<longleftrightarrow> (\<forall>n. rel_option (\<lambda>i j. ip_key i = ip_key j \<and> nRandomPos i = nRandomPos j) (m n) (m' n))"

lemma same_index_simps:
  assumes "same_index m m'"
  shows "dom m' = dom m" "(\<exists>i. m' n = Some i \<and> ip_key i = k) \<longleftrightarrow> (\<exists>i. m n = Some i \<and> ip_key i = k)"
    "m' n = Some j \<Longrightarrow> \<exists>i. m n = Some i \<and> nRandomPos i = nRandomPos j"
proof -
  have n: "rel_option (\<lambda>i j. ip_key i = ip_key j \<and> nRandomPos i = nRandomPos j) (m n) (m' n)" for n
    using assms by (simp add: same_index_def)
  show "dom m' = dom m"
  proof (intro set_eqI)
    fix x show "x \<in> dom m' \<longleftrightarrow> x \<in> dom m" using n [of x] by (cases "m x"; cases "m' x") auto
  qed
  show "(\<exists>i. m' n = Some i \<and> ip_key i = k) \<longleftrightarrow> (\<exists>i. m n = Some i \<and> ip_key i = k)"
    using n [of n] by (cases "m n"; cases "m' n") auto
  show "m' n = Some j \<Longrightarrow> \<exists>i. m n = Some i \<and> nRandomPos i = nRandomPos j"
    using n [of n] by (cases "m n") auto
qed

lemma same_index_ok: "same_index m m' \<Longrightarrow> index_ok m ma c \<Longrightarrow> index_ok m' ma c"
  by (simp add: index_ok_def same_index_simps)

lemma same_random_ok: "same_index m m' \<Longrightarrow> random_ok m vr \<Longrightarrow> random_ok m' vr"
  unfolding random_ok_def by (metis same_index_simps(1) same_index_simps(3))

lemma same_index_upd:
  "(\<And>i. m n = Some i \<Longrightarrow> ip_key (f i) = ip_key i \<and> nRandomPos (f i) = nRandomPos i)
     \<Longrightarrow> same_index m (m(n := map_option f (m n)))"
  by (auto simp: same_index_def option.rel_refl option.rel_map rel_option_iff split: option.splits)

lemma same_index_trans: "same_index a b \<Longrightarrow> same_index b c \<Longrightarrow> same_index a c"
  unfolding same_index_def
proof (intro allI)
  fix n
  assume a: "\<forall>n. rel_option (\<lambda>i j. ip_key i = ip_key j \<and> nRandomPos i = nRandomPos j) (a n) (b n)"
    and b: "\<forall>n. rel_option (\<lambda>i j. ip_key i = ip_key j \<and> nRandomPos i = nRandomPos j) (b n) (c n)"
  show "rel_option (\<lambda>i j. ip_key i = ip_key j \<and> nRandomPos i = nRandomPos j) (a n) (c n)"
    using a [rule_format, of n] b [rule_format, of n] by (cases "a n"; cases "b n"; cases "c n") auto
qed

lemma mapInfo_upd_info [simp]:
  "mapInfo (upd_info n f am) = (mapInfo am)(n := map_option f (mapInfo am n))"
  by (simp add: upd_info_def)

lemma upd_info_fields [simp]:
  "vRandom (upd_info n f am) = vRandom am" "mapAddr (upd_info n f am) = mapAddr am"
  "vvTried (upd_info n f am) = vvTried am" "vvNew (upd_info n f am) = vvNew am"
  "nTried (upd_info n f am) = nTried am" "nNew (upd_info n f am) = nNew am"
  "nIdCount (upd_info n f am) = nIdCount am" "nKey (upd_info n f am) = nKey am"
  by (simp_all add: upd_info_def)

lemma new_ref_upd:
  "new_ref (m(n \<mapsto> i)) = (new_ref m)(n := if fInTried i then None else Some (nRefCount i))"
  by (auto simp: new_ref_def)

lemma tried_ids_upd:
  "tried_ids (m(n \<mapsto> i)) = (if fInTried i then insert n (tried_ids m) else tried_ids m - {n})"
  by (auto simp: tried_ids_def)

lemma new_ref_del: "new_ref (m(n := None)) = (new_ref m)(n := None)"
  by (auto simp: new_ref_def)

lemma tried_ids_del: "tried_ids (m(n := None)) = tried_ids m - {n}"
  by (auto simp: tried_ids_def)

text \<open>An update of the statistics of one entry.\<close>

lemma am_inv_stats:
  assumes inv: "am_inv pend am"
    and f: "\<And>i. mapInfo am n = Some i \<Longrightarrow> ip_key (f i) = ip_key i \<and> nRandomPos (f i) = nRandomPos i
      \<and> fInTried (f i) = fInTried i \<and> nRefCount (f i) = nRefCount i \<and> entry_ok (f i)"
  shows "am_inv pend (upd_info n f am)"
proof (cases "mapInfo am n")
  case None
  then have "upd_info n f am = am" by (simp add: upd_info_def fun_upd_idem)
  with inv show ?thesis by simp
next
  case (Some i)
  note fi = f [OF Some]
  have s: "same_index (mapInfo am) ((mapInfo am)(n := map_option f (mapInfo am n)))"
    by (rule same_index_upd) (use f in auto)
  have r: "new_ref ((mapInfo am)(n \<mapsto> f i)) = new_ref (mapInfo am)"
    using fi Some by (auto simp: new_ref_def)
  have t: "tried_ids ((mapInfo am)(n \<mapsto> f i)) = tried_ids (mapInfo am)"
    using fi Some by (auto simp: tried_ids_def)
  show ?thesis
    using inv same_index_ok [OF s] same_random_ok [OF s] Some fi r t by (auto simp: am_inv_def)
qed

subsection \<open>The random order\<close>

text \<open>Two tables that differ in positions only.\<close>

definition pos_rel :: "(int32 \<rightharpoonup> CAddrInfo) \<Rightarrow> (int32 \<rightharpoonup> CAddrInfo) \<Rightarrow> bool" where
  "pos_rel m m' \<longleftrightarrow> (\<forall>n. rel_option (\<lambda>i j. \<exists>q. j = i \<lparr> nRandomPos := q \<rparr>) (m n) (m' n))"

lemma pos_rel_cases:
  assumes "pos_rel m m'"
  obtains "m n = None" "m' n = None" | i q where "m n = Some i" "m' n = Some (i \<lparr> nRandomPos := q \<rparr>)"
  using assms [unfolded pos_rel_def, rule_format, of n] by (cases "m n"; cases "m' n") auto

lemma pos_rel_ids: "pos_rel m m' \<Longrightarrow> tried_ids m' = tried_ids m"
  unfolding tried_ids_def by (rule Collect_cong) (erule pos_rel_cases; auto)

lemma pos_rel_new: "pos_rel m m' \<Longrightarrow> new_ref m' = new_ref m"
proof (rule ext)
  fix n assume "pos_rel m m'"
  then show "new_ref m' n = new_ref m n" by (rule pos_rel_cases [of _ _ n]) (auto simp: new_ref_def)
qed

lemma pos_rel_dom: "pos_rel m m' \<Longrightarrow> dom m' = dom m"
  unfolding dom_def by (rule Collect_cong) (erule pos_rel_cases; auto)

lemma pos_rel_entry: "pos_rel m m' \<Longrightarrow> m' n = Some j \<Longrightarrow> \<exists>i q. m n = Some i \<and> j = i \<lparr> nRandomPos := q \<rparr>"
  by (erule pos_rel_cases [of _ _ n]) auto

lemma ip_key_pos [simp]: "ip_key (i \<lparr> nRandomPos := q \<rparr>) = ip_key i"
  by (simp add: ip_key_def)

lemma entry_ok_pos [simp]: "entry_ok (i \<lparr> nRandomPos := q \<rparr>) = entry_ok i"
  by (simp add: entry_ok_def)

lemma pos_rel_index: "pos_rel m m' \<Longrightarrow> index_ok m ma c \<Longrightarrow> index_ok m' ma c"
proof -
  assume p: "pos_rel m m'" and ok: "index_ok m ma c"
  have "(\<exists>i. m' n = Some i \<and> ip_key i = k) \<longleftrightarrow> (\<exists>i. m n = Some i \<and> ip_key i = k)" for n k
    by (rule pos_rel_cases [OF p, of n]) auto
  with ok pos_rel_dom [OF p] show ?thesis by (simp add: index_ok_def)
qed

lemma SwapRandom_ok:
  assumes ro: "random_ok (mapInfo am) (vRandom am)"
    and p: "unat p1 < length (vRandom am)" "unat p2 < length (vRandom am)"
  shows "\<exists>m'. SwapRandom p1 p2 am = Inr (am \<lparr> mapInfo := m',
        vRandom := (vRandom am)[unat p1 := vRandom am ! unat p2, unat p2 := vRandom am ! unat p1] \<rparr>)
    \<and> pos_rel (mapInfo am) m'
    \<and> random_ok m' ((vRandom am)[unat p1 := vRandom am ! unat p2, unat p2 := vRandom am ! unat p1])"
proof (cases "p1 = p2")
  case True
  have "rel_option (\<lambda>i j. \<exists>q. j = i \<lparr> nRandomPos := q \<rparr>) (mapInfo am n) (mapInfo am n)" for n
    by (rule option.rel_refl) (metis CAddrInfo.surjective CAddrInfo.update_convs(6))
  with True ro show ?thesis by (intro exI [of _ "mapInfo am"]) (simp add: SwapRandom_def pos_rel_def)
next
  case False
  define vr where "vr = vRandom am"
  define a where "a = vr ! unat p1"
  define b where "b = vr ! unat p2"
  define vr' where "vr' = vr[unat p1 := b, unat p2 := a]"
  have d: "distinct vr" "set vr = dom (mapInfo am)"
    and pos: "q < length vr \<Longrightarrow> mapInfo am (vr ! q) = Some i \<Longrightarrow> nRandomPos i = int q" for q i
    using ro by (auto simp: random_ok_def vr_def)
  have pu: "unat p1 \<noteq> unat p2" using False by (simp add: word_unat_eq_iff)
  have ab: "a \<noteq> b" using d p pu by (simp add: a_def b_def vr_def nth_eq_iff_index_eq)
  have "a \<in> dom (mapInfo am)" "b \<in> dom (mapInfo am)" using d p by (auto simp: a_def b_def vr_def)
  then obtain ia ib where ia: "mapInfo am a = Some ia" and ib: "mapInfo am b = Some ib" by auto
  define m' where "m' = (mapInfo am)(a \<mapsto> ia \<lparr> nRandomPos := int (unat p2) \<rparr>, b \<mapsto> ib \<lparr> nRandomPos := int (unat p1) \<rparr>)"
  have eq: "SwapRandom p1 p2 am = Inr (am \<lparr> mapInfo := m', vRandom := vr' \<rparr>)"
    using False p ia ib ab
    by (simp add: SwapRandom_def Let_def upd_info_def m'_def vr'_def a_def [symmetric] b_def [symmetric] vr_def [symmetric])
  have rel: "rel_option (\<lambda>i j. \<exists>q. j = i \<lparr> nRandomPos := q \<rparr>) (mapInfo am n) (m' n)" for n
  proof -
    have "rel_option (\<lambda>i j. \<exists>q. j = i \<lparr> nRandomPos := q \<rparr>) (mapInfo am n) (mapInfo am n)"
      by (rule option.rel_refl) (metis CAddrInfo.surjective CAddrInfo.update_convs(6))
    then show ?thesis using ia ib by (auto simp: m'_def)
  qed
  have len: "length vr' = length vr" by (simp add: vr'_def)
  have dv: "distinct vr'" "set vr' = set vr"
    using p d by (simp_all add: vr'_def a_def b_def vr_def distinct_swap set_swap)
  have "nRandomPos i = int q" if q: "q < length vr'" and i: "m' (vr' ! q) = Some i" for q i
  proof -
    consider "q = unat p1" | "q = unat p2" | "q \<noteq> unat p1" "q \<noteq> unat p2" by blast
    then show ?thesis
    proof cases
      case 1
      then have "vr' ! q = b" using p pu by (simp add: vr'_def vr_def)
      with i 1 show ?thesis by (auto simp: m'_def)
    next
      case 2
      then have "vr' ! q = a" using p by (simp add: vr'_def vr_def)
      with i 2 ab show ?thesis by (auto simp: m'_def)
    next
      case 3
      then have v: "vr' ! q = vr ! q" by (simp add: vr'_def)
      have "vr ! q \<noteq> a" "vr ! q \<noteq> b"
        using 3 q len d(1) p by (auto simp: a_def b_def vr_def nth_eq_iff_index_eq)
      with i v pos [of q i] q len show ?thesis by (simp add: m'_def)
    qed
  qed
  moreover have "dom m' = dom (mapInfo am)" using ia ib by (auto simp: m'_def)
  ultimately have "random_ok m' vr'" using dv d(2) by (auto simp: random_ok_def)
  with eq rel show ?thesis by (intro exI [of _ m']) (simp add: pos_rel_def vr'_def a_def b_def vr_def)
qed

subsection \<open>The new table\<close>

lemma refs_map_diff: "refs (map (\<lambda>s. s - {n}) vn) x = (if x = n then 0 else refs vn x)"
  by (induction vn) (auto simp: refs_def)

lemma refs_Cons: "refs (s # vn) n = (if n \<in> s then 1 else 0) + refs vn n"
  by (simp add: refs_def)

lemma refs_upd:
  "b < length vn \<Longrightarrow> int (refs (vn[b := s]) x) =
     int (refs vn x) - (if x \<in> vn ! b then 1 else 0) + (if x \<in> s then 1 else 0)"
proof (induction vn arbitrary: b)
  case (Cons a vn)
  then show ?case by (cases b) (simp_all add: refs_Cons)
qed simp

lemma refs_pos: "b < length vn \<Longrightarrow> x \<in> vn ! b \<Longrightarrow> 0 < refs vn x"
  by (auto simp: refs_def filter_empty_conv intro: nth_mem)

lemma new_okD:
  assumes "new_ok pend r vn nn"
  shows "length vn = 256" "b < 256 \<Longrightarrow> finite (vn ! b)" "b < 256 \<Longrightarrow> card (vn ! b) \<le> 64"
    "b < 256 \<Longrightarrow> vn ! b \<subseteq> dom r"
    "r n = Some c \<Longrightarrow> c = int (refs vn n) + (if pend = Some n then 1 else 0)"
    "r n = Some c \<Longrightarrow> 1 \<le> c" "r n = Some c \<Longrightarrow> c \<le> 4"
    "pend = Some n \<Longrightarrow> n \<in> dom r" "finite (dom r)" "nn = int (card (dom r))"
  using assms by (auto simp: new_ok_def addrman_consts)

lemma bucket_upd_ok:
  assumes "new_ok pend r vn nn" "b < 256" "s \<subseteq> dom r'" "finite s" "card s \<le> 64"
    "\<And>t. t \<in> set vn \<Longrightarrow> t \<subseteq> dom r'" "t \<in> set (vn[b := s])"
  shows "finite t \<and> card t \<le> ADDRMAN_NEW_BUCKET_SIZE \<and> t \<subseteq> dom r'"
proof -
  have "t = s \<or> t \<in> set vn" using assms(7) set_update_subset_insert by fastforce
  with assms show ?thesis by (auto simp: new_ok_def addrman_consts)
qed

text \<open>An entry leaves one of its buckets, with its count decreased, or altogether.\<close>

lemma new_ok_drop:
  assumes ok: "new_ok pend r vn nn" and b: "b < 256" and n: "n \<in> vn ! b" "pend \<noteq> Some n"
    and c: "r n = Some c" "c \<noteq> 1"
  shows "new_ok pend (r(n \<mapsto> c - 1)) (vn[b := vn ! b - {n}]) nn"
proof -
  note D = new_okD [OF ok]
  have d: "dom (r(n \<mapsto> c - 1)) = dom r" using c by auto
  have bk: "finite t \<and> card t \<le> ADDRMAN_NEW_BUCKET_SIZE \<and> t \<subseteq> dom (r(n \<mapsto> c - 1))"
    if "t \<in> set (vn[b := vn ! b - {n}])" for t
    by (rule bucket_upd_ok [OF ok b _ _ _ _ that])
      (use ok D(2,3,4) [OF b] d in \<open>auto simp: new_ok_def intro: le_trans [OF card_Diff1_le]\<close>)
  have cnt: "c' = int (refs (vn[b := vn ! b - {n}]) x) + (if pend = Some x then 1 else 0) \<and> 1 \<le> c' \<and> c' \<le> 4"
    if "(r(n \<mapsto> c - 1)) x = Some c'" for x c'
  proof (cases "x = n")
    case True
    then show ?thesis using that n b c D(1) D(5-7) [OF c(1)] by (simp add: refs_upd)
  next
    case False
    then have "r x = Some c'" using that by simp
    then show ?thesis using False b D(1) D(5-7) by (simp add: refs_upd)
  qed
  show ?thesis unfolding new_ok_def
    using bk cnt D(1,8,9,10) d by (simp add: addrman_consts)
qed

lemma new_ok_remove:
  assumes ok: "new_ok pend r vn nn" and b: "b < 256" and n: "n \<in> vn ! b" "pend \<noteq> Some n"
    and c: "r n = Some 1"
  shows "new_ok pend (r(n := None)) (vn[b := vn ! b - {n}]) (nn - 1)"
proof -
  note D = new_okD [OF ok]
  have one: "refs vn n = 1" using D(5) [OF c] n by simp
  have "int (refs (vn[b := vn ! b - {n}]) n) = 0" using one n b D(1) by (simp add: refs_upd)
  then have gone: "n \<notin> t" if "t \<in> set (vn[b := vn ! b - {n}])" for t
    using that by (auto simp: refs_def filter_empty_conv)
  have d: "dom (r(n := None)) = dom r - {n}" by auto
  have bk: "finite t \<and> card t \<le> ADDRMAN_NEW_BUCKET_SIZE \<and> t \<subseteq> dom (r(n := None))"
    if t: "t \<in> set (vn[b := vn ! b - {n}])" for t
  proof -
    have "finite t \<and> card t \<le> ADDRMAN_NEW_BUCKET_SIZE \<and> t \<subseteq> dom r"
      by (rule bucket_upd_ok [OF ok b _ _ _ _ t])
        (use ok D(2,3,4) [OF b] in \<open>auto simp: new_ok_def intro: le_trans [OF card_Diff1_le]\<close>)
    with gone [OF t] show ?thesis by auto
  qed
  have cnt: "c' = int (refs (vn[b := vn ! b - {n}]) x) + (if pend = Some x then 1 else 0) \<and> 1 \<le> c' \<and> c' \<le> 4"
    if "(r(n := None)) x = Some c'" for x c'
  proof -
    have "x \<noteq> n" "r x = Some c'" using that by (auto split: if_splits)
    then show ?thesis using b D(1) D(5-7) by (simp add: refs_upd)
  qed
  have "card (dom r) = Suc (card (dom r - {n}))" using c D(9) by (metis card.remove domI)
  then show ?thesis unfolding new_ok_def
    using bk cnt D(1,8,9,10) n(2) d by (auto simp: addrman_consts)
qed

text \<open>The pending entry reaches its bucket.\<close>

lemma new_ok_insert:
  assumes ok: "new_ok (Some n) r vn nn" and b: "b < 256" and n: "n \<notin> vn ! b" and sz: "card (vn ! b) < 64"
  shows "new_ok None r (vn[b := insert n (vn ! b)]) nn"
proof -
  note D = new_okD [OF ok]
  have bk: "finite t \<and> card t \<le> ADDRMAN_NEW_BUCKET_SIZE \<and> t \<subseteq> dom r"
    if "t \<in> set (vn[b := insert n (vn ! b)])" for t
    by (rule bucket_upd_ok [OF ok b _ _ _ _ that])
      (use ok n sz D(2,3,4) [OF b] D(8) in \<open>auto simp: new_ok_def\<close>)
  have cnt: "c' = int (refs (vn[b := insert n (vn ! b)]) x) \<and> 1 \<le> c' \<and> c' \<le> 4" if "r x = Some c'" for x c'
    using that b n D(1) D(5-7) [OF that] by (auto simp: refs_upd)
  show ?thesis unfolding new_ok_def
    using bk cnt D(1,9,10) by (simp add: addrman_consts)
qed

text \<open>A count goes up before its bucket is filled: for a fresh entry and for a known one.\<close>

lemma new_ok_fresh:
  assumes ok: "new_ok None r vn nn" and n: "n \<notin> dom r"
  shows "new_ok (Some n) (r(n \<mapsto> 1)) vn (nn + 1)"
proof -
  note D = new_okD [OF ok]
  have "refs vn n = 0"
    using n ok by (auto simp: refs_def filter_empty_conv new_ok_def)
  then have cnt: "c' = int (refs vn x) + (if Some n = Some x then 1 else 0) \<and> 1 \<le> c' \<and> c' \<le> 4"
    if "(r(n \<mapsto> 1)) x = Some c'" for x c'
    using that D(5-7) by (auto split: if_splits)
  have "card (dom (r(n \<mapsto> 1))) = Suc (card (dom r))" using n D(9) by simp
  then show ?thesis unfolding new_ok_def
    using ok cnt D(9,10) by (auto simp: new_ok_def addrman_consts)
qed

lemma new_ok_bump:
  assumes ok: "new_ok None r vn nn" and c: "r n = Some c" "c \<noteq> 4"
  shows "new_ok (Some n) (r(n \<mapsto> c + 1)) vn nn"
proof -
  note D = new_okD [OF ok]
  have d: "dom (r(n \<mapsto> c + 1)) = dom r" using c by auto
  have cnt: "c' = int (refs vn x) + (if Some n = Some x then 1 else 0) \<and> 1 \<le> c' \<and> c' \<le> 4"
    if "(r(n \<mapsto> c + 1)) x = Some c'" for x c'
    using that c D(5-7) [OF c(1)] D(5-7) [of x c'] by (auto split: if_splits)
  show ?thesis unfolding new_ok_def
    using ok cnt d c by (auto simp: new_ok_def addrman_consts)
qed

text \<open>An entry moves to the tried table, and an evicted one comes back.\<close>

lemma new_ok_promote:
  assumes ok: "new_ok None r vn nn" and n: "n \<in> dom r"
  shows "new_ok None (r(n := None)) (map (\<lambda>s. s - {n}) vn) (nn - 1)"
proof -
  note D = new_okD [OF ok]
  have d: "dom (r(n := None)) = dom r - {n}" by auto
  have bk: "finite t \<and> card t \<le> ADDRMAN_NEW_BUCKET_SIZE \<and> t \<subseteq> dom r - {n}"
    if "t \<in> set (map (\<lambda>s. s - {n}) vn)" for t
    using that ok by (auto simp: new_ok_def intro: le_trans [OF card_Diff1_le])
  have cnt: "c' = int (refs (map (\<lambda>s. s - {n}) vn) x) \<and> 1 \<le> c' \<and> c' \<le> 4"
    if "(r(n := None)) x = Some c'" for x c'
    using that D(5-7) [of x c'] by (auto simp: refs_map_diff split: if_splits)
  have "card (dom r) = Suc (card (dom r - {n}))" using n D(9) by (metis card.remove)
  then show ?thesis unfolding new_ok_def
    using bk cnt D(1,9,10) d by (simp add: addrman_consts)
qed

lemma new_ok_demote:
  assumes ok: "new_ok None r vn nn" and n: "n \<notin> dom r" and b: "b < 256" and sz: "card (vn ! b) < 64"
  shows "new_ok None (r(n \<mapsto> 1)) (vn[b := insert n (vn ! b)]) (nn + 1)"
  by (rule new_ok_insert [OF new_ok_fresh [OF ok n] b _ sz]) (use n new_okD(4) [OF ok b] in auto)

subsection \<open>The tried table\<close>

lemma mset_concat_upd:
  "k < length vt \<Longrightarrow> mset (concat (vt[k := v])) + mset (vt ! k) = mset (concat vt) + mset v"
  by (induction vt arbitrary: k) (auto simp: nth_Cons split: nat.splits)

lemma tried_ok_nth: "tried_ok T vt nt \<Longrightarrow> k < 64 \<Longrightarrow> length (vt ! k) \<le> 64 \<and> set (vt ! k) \<subseteq> T"
proof -
  assume ok: "tried_ok T vt nt" and k: "k < 64"
  then have "vt ! k \<in> set vt" by (simp add: tried_ok_def addrman_consts)
  moreover have "set (concat vt) = T" using ok by (metis finite_set_mset_mset_set set_mset_mset tried_ok_def)
  ultimately show ?thesis using ok by (auto simp: tried_ok_def addrman_consts)
qed

lemma tried_ok_upd:
  assumes ok: "tried_ok T vt nt" and k: "k < 64" and len: "length v \<le> 64"
    and m: "mset v + mset_set T = mset (vt ! k) + mset_set T'" and fin: "finite T'"
  shows "tried_ok T' (vt[k := v]) (int (card T'))"
proof -
  have l: "length vt = 64" using ok by (simp add: tried_ok_def addrman_consts)
  have "mset (concat (vt[k := v])) + mset (vt ! k) = mset_set T + mset v"
    using mset_concat_upd [of k vt v] ok k l by (simp add: tried_ok_def)
  then have "mset (concat (vt[k := v])) = mset_set T'" using m by (metis add.commute add_right_cancel)
  moreover have "length t \<le> 64" if "t \<in> set (vt[k := v])" for t
    using that set_update_subset_insert [of vt k v] ok len by (auto simp: tried_ok_def addrman_consts)
  ultimately show ?thesis using l fin by (simp add: tried_ok_def addrman_consts)
qed

subsection \<open>Removal of an entry\<close>

lemma random_ok_butlast:
  assumes ok: "random_ok m vr" and n: "vr \<noteq> []" "last vr = n"
  shows "random_ok (m(n := None)) (butlast vr)"
proof -
  have vr: "vr = butlast vr @ [n]" using n by (metis append_butlast_last_id)
  have d: "distinct vr" "set vr = dom m" using ok by (auto simp: random_ok_def)
  have "distinct (butlast vr @ [n])" using d(1) vr by metis
  then have nb: "n \<notin> set (butlast vr)" "distinct (butlast vr)" by auto
  have "set vr = insert n (set (butlast vr))" by (subst vr) simp
  then have "set (butlast vr) = dom (m(n := None))" using nb(1) d(2) by auto
  moreover have "nRandomPos i = int p" if "p < length (butlast vr)" "(m(n := None)) (butlast vr ! p) = Some i" for p i
    using that ok by (auto simp: random_ok_def nth_butlast split: if_splits)
  ultimately show ?thesis using nb(2) by (simp add: random_ok_def)
qed

lemma index_ok_remove:
  assumes ok: "index_ok m ma c" and n: "m n = Some i"
  shows "index_ok (m(n := None)) (ma(ip_key i := None)) c"
proof -
  have iff: "ma k = Some x \<longleftrightarrow> (\<exists>j. m x = Some j \<and> ip_key j = k)" for k x using ok by (simp add: index_ok_def)
  have "ma (ip_key i) = Some n" using iff n by blast
  then have "ip_key j \<noteq> ip_key i" if "m x = Some j" "x \<noteq> n" for x j
    using iff [of "ip_key j" x] that by auto
  then have "(ma(ip_key i := None)) k = Some x \<longleftrightarrow> (\<exists>j. (m(n := None)) x = Some j \<and> ip_key j = k)" for k x
    using iff [of k x] n by (cases "x = n"; cases "k = ip_key i") auto
  with ok show ?thesis by (auto simp: index_ok_def)
qed

lemma vRandom_length:
  assumes "am_inv pend am"
  shows "length (vRandom am) < 2 ^ 31"
proof -
  have s: "dom (mapInfo am) \<subseteq> {0..<nIdCount am}" "nIdCount am < 2 ^ 31"
    and d: "distinct (vRandom am)" "set (vRandom am) = dom (mapInfo am)"
    using am_invD(1,2) [OF assms] by (auto simp: index_ok_def random_ok_def)
  have "length (vRandom am) = card (dom (mapInfo am))" using d by (metis distinct_card)
  also have "\<dots> \<le> card {0..<nIdCount am}" by (rule card_mono) (use s in auto)
  finally show ?thesis using s(2) by simp
qed

lemma swap_last:
  assumes "p < length vr"
  shows "last (vr[p := vr ! (length vr - 1), length vr - 1 := vr ! p]) = vr ! p"
  using assms by (subst last_conv_nth) auto

lemma drop_ref_ok:
  assumes inv: "am_inv pend am" and b: "b < 256" and n: "n \<in> vvNew am ! b" "pend \<noteq> Some n"
  shows "\<exists>am'. drop_ref n am = Inr am' \<and> am_inv pend (erase_new b n am')
    \<and> vvNew am' = vvNew am \<and> nKey am' = nKey am \<and> nIdCount am' = nIdCount am"
proof -
  note I = am_invD [OF inv]
  have "n \<in> dom (new_ref (mapInfo am))" using new_okD(4) [OF I(4) b] n(1) by auto
  then obtain i where i: "mapInfo am n = Some i" "\<not> fInTried i" "new_ref (mapInfo am) n = Some (nRefCount i)"
    by (auto simp: new_ref_def split: option.splits if_splits)
  define j where "j = nRefCount_update (\<lambda>c. c - 1) i"
  define m1 where "m1 = (mapInfo am)(n \<mapsto> j)"
  define am1 where "am1 = upd_info n (nRefCount_update (\<lambda>c. c - 1)) am"
  have am1: "am1 = am \<lparr> mapInfo := m1 \<rparr>" using i by (simp add: am1_def upd_info_def m1_def j_def)
  have ij: "ip_key j = ip_key i" "nRandomPos j = nRandomPos i" "entry_ok j" "\<not> fInTried j"
    using I(5) [OF i(1)] i(2) by (auto simp: j_def ip_key_def entry_ok_def)
  have si: "same_index (mapInfo am) m1"
    using same_index_upd [of "mapInfo am" n "\<lambda>_. j"] i ij by (simp add: m1_def)
  have x1: "index_ok m1 (mapAddr am) (nIdCount am)" "random_ok m1 (vRandom am)"
    using same_index_ok [OF si I(1)] same_random_ok [OF si I(2)] by auto
  have t1: "tried_ids m1 = tried_ids (mapInfo am)"
    using i ij by (auto simp: m1_def tried_ids_upd) (auto simp: tried_ids_def)
  have e1: "m1 x = Some y \<Longrightarrow> entry_ok y" for x y using I(5) ij by (auto simp: m1_def split: if_splits)
  show ?thesis
  proof (cases "nRefCount i = 1")
    case False
    then have "drop_ref n am = Inr am1" using i by (simp add: drop_ref_def Let_def am1_def)
    moreover have "new_ref m1 = (new_ref (mapInfo am))(n \<mapsto> nRefCount i - 1)"
      using ij by (simp add: m1_def new_ref_upd) (simp add: j_def)
    then have "am_inv pend (erase_new b n am1)"
      using x1 t1 e1 I(3) new_ok_drop [OF I(4) b n i(3) False] by (auto simp: am_inv_def erase_new_def am1)
    ultimately show ?thesis by (auto simp: am1)
  next
    case True
    define vr where "vr = vRandom am"
    have "n \<in> set vr" using I(2) i(1) by (auto simp: random_ok_def vr_def)
    then obtain p where p: "p < length vr" "vr ! p = n" by (auto simp: in_set_conv_nth)
    then have np: "nRandomPos i = int p" using I(2) i(1) by (auto simp: random_ok_def vr_def)
    have len: "length vr < 2 ^ 31" using vRandom_length [OF inv] by (simp add: vr_def)
    have u1: "unat (word_of_int (nRandomPos j) :: uint32) = p"
      using p len np ij(2) by (simp add: unat_of_nat)
    have u2: "unat ((word_of_nat (length vr) :: uint32) - 1) = length vr - 1"
    proof -
      have "(word_of_nat (length vr) :: uint32) - 1 = word_of_nat (length vr - 1)" using p by (cases "length vr") auto
      then show ?thesis using len by (simp add: unat_of_nat)
    qed
    define vr' where "vr' = vr[p := vr ! (length vr - 1), length vr - 1 := vr ! p]"
    have vr1: "vRandom am1 = vr" "mapInfo am1 = m1" by (simp_all add: am1 vr_def)
    have l1: "length vr - 1 < length vr" using p by simp
    obtain m' where sw: "SwapRandom (word_of_int (nRandomPos j)) (word_of_nat (length vr) - 1) am1
          = Inr (am1 \<lparr> mapInfo := m', vRandom := vr' \<rparr>)"
        and rel: "pos_rel m1 m'" and ro: "random_ok m' vr'"
      using SwapRandom_ok [of am1 "word_of_int (nRandomPos j)" "word_of_nat (length vr) - 1", unfolded u1 u2 vr1]
        x1(2) [folded vr_def] p(1) l1 unfolding vr'_def by blast
    have "vr' \<noteq> []" "last vr' = n" using p swap_last [of p vr] by (auto simp: vr'_def)
    note ro' = random_ok_butlast [OF ro this]
    obtain j' where j': "m' n = Some j'" "ip_key j' = ip_key i"
      by (rule pos_rel_cases [OF rel, of n]) (use ij in \<open>auto simp: m1_def\<close>)
    define am' where "am' = am \<lparr> mapInfo := m'(n := None), vRandom := butlast vr',
        mapAddr := (mapAddr am)(ip_key i := None), nNew := nNew am - 1 \<rparr>"
    have "drop_ref n am = Inr am'"
      using True i sw \<open>vr' \<noteq> []\<close> ij(1)
      by (simp add: drop_ref_def Let_def am1_def [symmetric]) (simp add: am1 m1_def j_def vr_def am'_def)
    moreover have "new_ref (m'(n := None)) = (new_ref (mapInfo am))(n := None)"
      by (simp add: new_ref_del pos_rel_new [OF rel]) (simp add: m1_def new_ref_upd)
    moreover have "tried_ids (m'(n := None)) = tried_ids (mapInfo am)"
      using i by (simp add: tried_ids_del pos_rel_ids [OF rel] t1) (auto simp: tried_ids_def)
    moreover have "index_ok (m'(n := None)) ((mapAddr am)(ip_key i := None)) (nIdCount am)"
      using index_ok_remove [OF pos_rel_index [OF rel x1(1)] j'(1)] j'(2) by simp
    moreover have "(m'(n := None)) x = Some y \<Longrightarrow> entry_ok y" for x y
      using pos_rel_entry [OF rel, of x y] e1 by (auto split: if_splits)
    ultimately show ?thesis
      using ro' I(3) new_ok_remove [OF I(4) b n] i(3) True
      by (auto simp: am_inv_def erase_new_def am'_def intro!: exI [of _ am'])
  qed
qed

subsection \<open>\<open>ShrinkNew\<close>\<close>

lemma safe_seq:
  assumes "safe k m P" and "\<And>x. P x \<Longrightarrow> safe j (f x) Q" and "k + j \<le> n"
  shows "safe n (rbind m f) Q"
  by (rule safe_mono [OF safe_bind [OF assms(1,2)] assms(3)])

lemma touch_id [simp]: "mapInfo am n \<noteq> None \<Longrightarrow> touch P n am = am"
  by (auto simp: touch_def)

lemma find_terrible_ok:
  "\<forall>n\<in>set ns. m n \<noteq> None \<Longrightarrow> \<exists>t. find_terrible nNow m ns = Inr t \<and> (\<forall>n. t = Some n \<longrightarrow> n \<in> set ns)"
  by (induction ns) auto

lemma oldest_loop_ok:
  assumes "\<forall>n\<in>set its. mapInfo am n \<noteq> None" "- 1 \<notin> set its" "nOld = - 1 \<or> mapInfo am nOld \<noteq> None"
  shows "\<exists>r. oldest_loop P ns nI nOld its am = Inr (r, am) \<and> (r = nOld \<or> r \<in> set its)
    \<and> (nOld \<noteq> - 1 \<or> (\<exists>k<length its. nI + int k \<in> set ns) \<longrightarrow> r \<noteq> - 1)"
  using assms
proof (induction its arbitrary: nI nOld)
  case (Cons it its)
  have hd: "mapInfo am it \<noteq> None" "it \<noteq> - 1" using Cons.prems by auto
  have hit: "(\<exists>k<length (it # its). nI + int k \<in> set ns) \<longleftrightarrow> nI \<in> set ns \<or> (\<exists>k<length its. (nI + 1) + int k \<in> set ns)"
    by (auto simp: less_Suc_eq_0_disj algebra_simps)
  have new: "\<exists>r. oldest_loop P ns (nI + 1) it its am = Inr (r, am) \<and> (r = it \<or> r \<in> set its) \<and> r \<noteq> - 1"
    using Cons.IH [of it "nI + 1"] Cons.prems hd by auto
  have old: "\<exists>r. oldest_loop P ns (nI + 1) nOld its am = Inr (r, am) \<and> (r = nOld \<or> r \<in> set its)
      \<and> (nOld \<noteq> - 1 \<or> (\<exists>k<length its. (nI + 1) + int k \<in> set ns) \<longrightarrow> r \<noteq> - 1)"
    using Cons.IH [of nOld "nI + 1"] Cons.prems by auto
  show ?case
  proof (cases "nI \<in> set ns")
    case True
    show ?thesis
    proof (cases "nOld = - 1")
      case True
      then show ?thesis using new \<open>nI \<in> set ns\<close> by auto
    next
      case False
      then have "mapInfo am nOld \<noteq> None" using Cons.prems by auto
      then show ?thesis using new old False hd \<open>nI \<in> set ns\<close> by (auto simp: Let_def)
    qed
  next
    case False
    then show ?thesis using old unfolding hit by auto
  qed
qed simp

lemma bucket_facts:
  assumes inv: "am_inv pend am" and b: "b < 256"
  shows "finite (vvNew am ! b)" "card (vvNew am ! b) \<le> 64"
    "n \<in> vvNew am ! b \<Longrightarrow> \<exists>i. mapInfo am n = Some i \<and> \<not> fInTried i \<and> 0 \<le> n"
    "length (vvNew am) = 256"
proof -
  note N = new_okD [OF am_invD(4) [OF inv]]
  show "finite (vvNew am ! b)" "card (vvNew am ! b) \<le> 64" "length (vvNew am) = 256" using N(1,2,3) b by auto
  show "\<exists>i. mapInfo am n = Some i \<and> \<not> fInTried i \<and> 0 \<le> n" if "n \<in> vvNew am ! b"
  proof -
    have "n \<in> dom (new_ref (mapInfo am))" using N(4) [OF b] that by auto
    then obtain i where i: "mapInfo am n = Some i" "\<not> fInTried i"
      by (auto simp: new_ref_def split: option.splits if_splits)
    moreover have "n \<in> dom (mapInfo am)" using i by auto
    then have "0 \<le> n" using am_invD(1) [OF inv] by (auto simp: index_ok_def)
    ultimately show ?thesis by blast
  qed
qed

definition shrunk :: "int32 option \<Rightarrow> nat \<Rightarrow> CAddrMan \<Rightarrow> CAddrMan \<Rightarrow> bool" where
  "shrunk pend b am am' \<longleftrightarrow> am_inv pend am' \<and> card (vvNew am' ! b) < 64 \<and> vvNew am' ! b \<subseteq> vvNew am ! b
     \<and> nKey am' = nKey am \<and> nIdCount am' = nIdCount am"

lemma drop_step:
  assumes inv: "am_inv pend am" and b: "b < 256" and n: "n \<in> vvNew am ! b" "pend \<noteq> Some n"
  shows "safe 0 (rbind (lift (drop_ref n am)) (\<lambda>am1. ret (c, erase_new b n am1))) (\<lambda>(_, am'). shrunk pend b am am')"
proof -
  obtain am1 where am1: "drop_ref n am = Inr am1" "am_inv pend (erase_new b n am1)" "vvNew am1 = vvNew am"
      "nKey am1 = nKey am" "nIdCount am1 = nIdCount am"
    using drop_ref_ok [OF inv b n] by auto
  have "card (vvNew am ! b - {n}) < card (vvNew am ! b)"
    using n(1) bucket_facts(1) [OF inv b] by (rule card_Diff1_less [rotated])
  then have "shrunk pend b am (erase_new b n am1)"
    using am1 b bucket_facts(2,4) [OF inv b] by (auto simp: shrunk_def erase_new_def)
  then show ?thesis by (intro safe_seq [OF safe_lift [OF am1(1), of "\<lambda>x. x = am1"]] safe_mono [OF safe_ret]) auto
qed

lemma ShrinkNew_ok:
  assumes inv: "am_inv pend am" and b: "b < 256" and ne: "vvNew am ! b \<noteq> {}" and p: "\<forall>n. pend = Some n \<longrightarrow> n \<notin> vvNew am ! b"
  shows "safe 4 (ShrinkNew P nNow (int b) am) (\<lambda>(_, am'). shrunk pend b am am')"
proof -
  note B = bucket_facts [OF inv b]
  define its where "its = sorted_list_of_set (vvNew am ! b)"
  have its: "set its = vvNew am ! b" "length its = card (vvNew am ! b)" using B(1) by (simp_all add: its_def)
  have dom: "\<forall>n\<in>set its. mapInfo am n \<noteq> None" "- 1 \<notin> set its" using B(3) its by fastforce+
  obtain t where t: "find_terrible nNow (mapInfo am) its = Inr t" "\<And>n. t = Some n \<Longrightarrow> n \<in> set its"
    using find_terrible_ok [OF dom(1)] by blast
  have sz: "0 < int (length its)" "int (length its) < 2 ^ 31" using its B(1,2) ne by (auto simp: card_gt_0_iff)
  note R = safe_rand [OF sz]
  let ?Q = "\<lambda>(_ :: int32, am'). shrunk pend b am am'"
  have pick: "safe 0 (rbind (lift (oldest_loop P [n0, n1, n2, n3] 0 (- 1) its am)) (\<lambda>(nOldest, am1).
      rbind (guard (mapInfo am1 nOldest \<noteq> None)) (\<lambda>_.
        rbind (lift (drop_ref nOldest am1)) (\<lambda>am2. ret (1, erase_new b nOldest am2))))) ?Q"
    if n0: "0 \<le> n0 \<and> n0 < int (length its)" for n0 n1 n2 n3
  proof -
    have "\<exists>k<length its. 0 + int k \<in> set [n0, n1, n2, n3]" using n0 by (intro exI [of _ "nat n0"]) auto
    then obtain r where r: "oldest_loop P [n0, n1, n2, n3] 0 (- 1) its am = Inr (r, am)" "r \<in> set its"
      using oldest_loop_ok [OF dom, of "- 1" P "[n0, n1, n2, n3]" 0] by auto
    have "safe 0 (rbind (lift (drop_ref r am)) (\<lambda>am2. ret (1, erase_new b r am2))) ?Q"
      by (rule drop_step [OF inv b]) (use r its p in auto)
    then have "safe 0 (rbind (guard (mapInfo am r \<noteq> None)) (\<lambda>_.
        rbind (lift (drop_ref r am)) (\<lambda>am2. ret (1, erase_new b r am2)))) ?Q"
      using dom r(2) by (intro safe_seq [OF safe_guard]) auto
    then show ?thesis by (intro safe_seq [OF safe_lift [OF r(1), of "\<lambda>x. x = (r, am)"]]) auto
  qed
  have rest: "safe 4 (case t of Some n \<Rightarrow> rbind (lift (drop_ref n am)) (\<lambda>am1. ret (0, erase_new b n am1))
      | None \<Rightarrow> rbind (rand_int (int (length its))) (\<lambda>n0. rbind (rand_int (int (length its))) (\<lambda>n1.
          rbind (rand_int (int (length its))) (\<lambda>n2. rbind (rand_int (int (length its))) (\<lambda>n3.
          rbind (lift (oldest_loop P [n0, n1, n2, n3] 0 (- 1) its am)) (\<lambda>(nOldest, am1).
            rbind (guard (mapInfo am1 nOldest \<noteq> None)) (\<lambda>_.
              rbind (lift (drop_ref nOldest am1)) (\<lambda>am2. ret (1, erase_new b nOldest am2))))))))) ?Q"
  proof (cases t)
    case None
    have "safe 3 (rbind (rand_int (int (length its))) (\<lambda>n1.
          rbind (rand_int (int (length its))) (\<lambda>n2. rbind (rand_int (int (length its))) (\<lambda>n3.
          rbind (lift (oldest_loop P [n0, n1, n2, n3] 0 (- 1) its am)) (\<lambda>(nOldest, am1).
            rbind (guard (mapInfo am1 nOldest \<noteq> None)) (\<lambda>_.
              rbind (lift (drop_ref nOldest am1)) (\<lambda>am2. ret (1, erase_new b nOldest am2)))))))) ?Q"
      if "0 \<le> n0 \<and> n0 < int (length its)" for n0
      by (rule safe_seq [where j = 2, OF R safe_seq [where j = 1, OF R safe_seq [where j = 0, OF R pick [OF that]]]]) simp_all
    then show ?thesis unfolding None by (simp del: of_nat_less_iff) (rule safe_seq [OF R], auto)
  next
    case (Some n)
    then have n: "n \<in> vvNew am ! b" "pend \<noteq> Some n" using t(2) p its by auto
    show ?thesis unfolding Some by simp (rule safe_mono [OF drop_step [OF inv b n]], auto)
  qed
  have step: "safe 4 (rbind (lift (Inr t)) f) ?Q" if "safe 4 (f t) ?Q" for f
    by (rule safe_seq [where j = 4, OF safe_lift [OF refl, of "\<lambda>x. x = t"]]) (use that in auto)
  show ?thesis
    unfolding ShrinkNew_def Let_def nat_int its_def [symmetric] t(1)
    by (rule safe_seq [where j = 4, OF safe_guard]) (use B(4) b in simp, rule step, rule rest, simp)
qed

subsection \<open>\<open>SelectTried\<close>\<close>

definition reordered :: "nat \<Rightarrow> CAddrMan \<Rightarrow> bool \<Rightarrow> int32 \<times> CAddrMan \<Rightarrow> bool" where
  "reordered b am picked res \<longleftrightarrow> (\<exists>v. snd res = am \<lparr> vvTried := (vvTried am)[b := v] \<rparr> \<and> mset v = mset (vvTried am ! b)
     \<and> (picked \<longrightarrow> 0 \<le> fst res \<and> nat (fst res) < length v))"

lemma reordered_trans:
  assumes "reordered b (am \<lparr> vvTried := (vvTried am)[b := v] \<rparr>) p res" "b < length (vvTried am)" "mset v = mset (vvTried am ! b)"
  shows "reordered b am p res"
  using assms by (auto simp: reordered_def)

lemma select_loop_ok:
  assumes "b < length (vvTried am)" "\<forall>n\<in>set (vvTried am ! b). mapInfo am n \<noteq> None \<and> n \<noteq> - 1"
    "length (vvTried am ! b) < 2 ^ 31"
    "nOld = - 1 \<or> mapInfo am nOld \<noteq> None \<and> 0 \<le> pos \<and> nat pos < length (vvTried am ! b)"
  shows "safe (4 - i) (select_loop P b i nOld pos am)
    (reordered b am (nOld \<noteq> - 1 \<or> i < 4 \<and> i < length (vvTried am ! b)))"
  using assms
proof (induction "4 - i" arbitrary: i nOld pos am rule: less_induct)
  case less
  define v where "v = vvTried am ! b"
  show ?case
  proof (cases "i < 4 \<and> i < length v")
    case False
    have "reordered b am (nOld \<noteq> - 1) (pos, am)"
      using less.prems by (auto simp: reordered_def list_update_same_conv intro!: exI [of _ "vvTried am ! b"])
    then have "safe (4 - i) (ret (pos, am)) (reordered b am (nOld \<noteq> - 1))"
      by (intro safe_mono [OF safe_ret]) auto
    then show ?thesis using False
      by (subst select_loop.simps) (auto simp: Let_def addrman_consts v_def [symmetric])
  next
    case True
    have R: "safe 1 (rand_int (int (length v) - int i)) (\<lambda>r. 0 \<le> r \<and> r < int (length v) - int i)"
      by (rule safe_rand) (use True less.prems(3) in \<open>auto simp: v_def\<close>)
    have body: "safe (4 - (i + 1)) (let nPos = nat (r + int i); nTemp = v ! nPos;
              am1 = am \<lparr> vvTried := (vvTried am)[b := v[nPos := v ! i, i := nTemp]] \<rparr>
          in rbind (guard (nOld = - 1 \<or> mapInfo am1 nTemp \<noteq> None)) (\<lambda>_.
               if nOld = - 1 then select_loop P b (i + 1) nTemp (int nPos) am1
               else let am2 = touch P nOld am1 in
                 if nLastSuccess (the (mapInfo am2 nTemp)) < nLastSuccess (the (mapInfo am2 nOld))
                 then select_loop P b (i + 1) nTemp (int nPos) am2
                 else select_loop P b (i + 1) nOld pos am2)) (reordered b am True)"
      if r: "0 \<le> r \<and> r < int (length v) - int i" for r
    proof -
      define nPos where "nPos = nat (r + int i)"
      define am1 where "am1 = am \<lparr> vvTried := (vvTried am)[b := v[nPos := v ! i, i := v ! nPos]] \<rparr>"
      have np: "nPos < length v" using r unfolding nPos_def by arith
      have ms: "mset (v[nPos := v ! i, i := v ! nPos]) = mset v" using np True by (simp add: mset_swap)
      have v1: "vvTried am1 ! b = v[nPos := v ! i, i := v ! nPos]" "length (vvTried am1) = length (vvTried am)"
        using less.prems(1) by (simp_all add: am1_def)
      then have s1: "set (vvTried am1 ! b) = set v" "length (vvTried am1 ! b) = length v"
        using ms by (metis set_mset_mset, simp)
      have m1: "mapInfo am1 = mapInfo am" by (simp add: am1_def)
      have tm: "mapInfo am (v ! nPos) \<noteq> None" "v ! nPos \<noteq> - 1" using less.prems(2) np by (auto simp: v_def)
      have pre: "b < length (vvTried am1)" "\<forall>n\<in>set (vvTried am1 ! b). mapInfo am1 n \<noteq> None \<and> n \<noteq> - 1"
        "length (vvTried am1 ! b) < 2 ^ 31"
        using less.prems v1 s1 m1 by (auto simp: v_def)
      have up: "reordered b am True res" if "reordered b am1 q res" "q" for q res
        using reordered_trans [of b am _ q res] that less.prems(1) ms by (auto simp: am1_def v_def)
      have a: "safe (4 - (i + 1)) (select_loop P b (i + 1) (v ! nPos) (int nPos) am1) (reordered b am True)"
        if "nOld = - 1 \<or> nLastSuccess (the (mapInfo am (v ! nPos))) < nLastSuccess (the (mapInfo am nOld))"
      proof -
        have "safe (4 - (i + 1)) (select_loop P b (i + 1) (v ! nPos) (int nPos) am1)
            (reordered b am1 (v ! nPos \<noteq> - 1 \<or> i + 1 < 4 \<and> i + 1 < length (vvTried am1 ! b)))"
          by (rule less.hyps) (use True np tm pre s1 m1 in auto)
        then show ?thesis by (rule safe_mono) (use tm up in auto)
      qed
      have c: "safe (4 - (i + 1)) (select_loop P b (i + 1) nOld pos am1) (reordered b am True)"
        if o: "nOld \<noteq> - 1" "\<not> nLastSuccess (the (mapInfo am (v ! nPos))) < nLastSuccess (the (mapInfo am nOld))"
      proof -
        have "safe (4 - (i + 1)) (select_loop P b (i + 1) nOld pos am1)
            (reordered b am1 (nOld \<noteq> - 1 \<or> i + 1 < 4 \<and> i + 1 < length (vvTried am1 ! b)))"
          by (rule less.hyps) (use True o pre s1 m1 less.prems(4) in \<open>auto simp: v_def\<close>)
        then show ?thesis by (rule safe_mono) (use o up in auto)
      qed
      have g: "safe 0 (guard (nOld = - 1 \<or> mapInfo am1 (v ! nPos) \<noteq> None)) (\<lambda>_. True)"
        by (rule safe_guard) (use tm m1 in simp)
      have t: "touch P nOld am1 = am1" if "nOld \<noteq> - 1" using that less.prems(4) m1 by auto
      show ?thesis
        unfolding nPos_def [symmetric] Let_def am1_def [symmetric]
        by (rule safe_seq [where j = "4 - (i + 1)", OF g]) (use a c t m1 in auto)
    qed
    have "safe (4 - i) (select_loop P b i nOld pos am) (reordered b am True)"
      by (subst select_loop.simps)
        (use True in \<open>simp add: Let_def addrman_consts v_def [symmetric] del: One_nat_def,
          intro safe_seq [where j = "4 - (i + 1)", OF R], use body in \<open>simp add: Let_def\<close>, use True in arith\<close>)
    then show ?thesis using True by (simp add: v_def)
  qed
qed

subsection \<open>The operations\<close>

lemma GetNewBucket_less: "GetNewBucket E key a s < 256"
  by (simp add: GetNewBucket_def Let_def addrman_consts)

lemma GetTriedBucket_less: "GetTriedBucket E key a < 64"
  by (simp add: GetTriedBucket_def Let_def addrman_consts)

lemma add_to_bucket_ok:
  assumes up: "am_inv (Some n) (upd_info n (nRefCount_update (\<lambda>c. c + 1)) am)"
    and known: "\<And>b. b < 256 \<Longrightarrow> n \<in> vvNew am ! b \<Longrightarrow> am_inv None am"
  shows "safe 4 (add_to_bucket E nNow n src am) (\<lambda>am'. am_inv None am' \<and> nIdCount am' = nIdCount am)"
proof -
  define b where "b = GetNewBucket E (nKey am) (the (mapInfo am n)) src"
  define am1 where "am1 = upd_info n (nRefCount_update (\<lambda>c. c + 1)) am"
  have b: "b < 256" by (simp add: b_def GetNewBucket_less)
  have f1: "vvNew am1 = vvNew am" "nIdCount am1 = nIdCount am" by (simp_all add: am1_def)
  have ins: "am_inv None (am2 \<lparr> vvNew := (vvNew am2)[b := insert n (vvNew am2 ! b)] \<rparr>)"
    if "am_inv (Some n) am2" "n \<notin> vvNew am2 ! b" "card (vvNew am2 ! b) < 64" for am2
    using that new_ok_insert [OF am_invD(4) [OF that(1)] b that(2,3)] by (auto simp: am_inv_def)
  show ?thesis
  proof (cases "n \<in> vvNew am ! b")
    case True
    then show ?thesis
      by (simp add: add_to_bucket_def Let_def b_def [symmetric])
        (intro safe_mono [OF safe_ret], use known [OF b] in auto)
  next
    case False
    have inv1: "am_inv (Some n) am1" using up by (simp add: am1_def)
    have shrink: "safe 4 (if card (vvNew am1 ! b) = ADDRMAN_NEW_BUCKET_SIZE
               then rbind (ShrinkNew (be_proto E) nNow (int b) am1) (\<lambda>(_, am2). ret am2) else ret am1)
        (\<lambda>am2. am_inv (Some n) am2 \<and> card (vvNew am2 ! b) < 64 \<and> n \<notin> vvNew am2 ! b \<and> nIdCount am2 = nIdCount am)"
    proof (cases "card (vvNew am1 ! b) = 64")
      case True
      then have "vvNew am1 ! b \<noteq> {}" by auto
      then have sh: "safe 4 (ShrinkNew (be_proto E) nNow (int b) am1) (\<lambda>(_, am'). shrunk (Some n) b am1 am')"
        by (rule ShrinkNew_ok [OF inv1 b]) (use False f1 in auto)
      show ?thesis using True
        by (simp add: addrman_consts)
          (rule safe_seq [where j = 0, OF sh], use False f1 in \<open>auto simp: shrunk_def intro!: safe_ret\<close>)
    next
      case ne: False
      then have "card (vvNew am1 ! b) < 64" using bucket_facts(2) [OF inv1 b] by simp
      then show ?thesis using ne inv1 False f1
        by (simp add: addrman_consts) (rule safe_mono [OF safe_ret], auto)
    qed
    show ?thesis
      unfolding add_to_bucket_def Let_def b_def [symmetric] am1_def [symmetric] if_not_P [OF False]
      by (rule safe_seq [where j = 0, OF shrink]) (use ins in \<open>auto intro!: safe_ret\<close>)
  qed
qed

lemma Find_Some:
  "Find addr am = Some (n, i) \<Longrightarrow> mapInfo am n = Some i \<and> mapAddr am (ip_key addr) = Some n"
  by (auto simp: Find_def split: option.splits)

lemma Find_None:
  assumes "am_inv pend am" "Find addr am = None"
  shows "mapAddr am (ip_key addr) = None"
proof (cases "mapAddr am (ip_key addr)")
  case (Some n)
  then obtain i where "mapInfo am n = Some i" using am_invD(1) [OF assms(1)] by (auto simp: index_ok_def)
  with Some assms(2) show ?thesis by (simp add: Find_def)
qed

lemma set_time_fields [simp]:
  "ip_key (set_time t i) = ip_key i" "nRandomPos (set_time t i) = nRandomPos i" "fInTried (set_time t i) = fInTried i"
  "nRefCount (set_time t i) = nRefCount i" "entry_ok (set_time t i) = entry_ok i" "nLastSuccess (set_time t i) = nLastSuccess i"
  "nLastTry (set_time t i) = nLastTry i"
  by (simp_all add: set_time_def ip_key_def entry_ok_def)

lemma update_known_fields [simp]:
  "ip_key (update_known a b c i) = ip_key i" "nRandomPos (update_known a b c i) = nRandomPos i"
  "fInTried (update_known a b c i) = fInTried i" "nRefCount (update_known a b c i) = nRefCount i"
  "entry_ok (update_known a b c i) = entry_ok i"
  by (simp_all add: update_known_def Let_def set_time_def ip_key_def entry_ok_def)

lemma AM_Attempt_ok: "am_inv None am \<Longrightarrow> 0 \<le> t \<Longrightarrow> am_inv None (AM_Attempt addr t am)"
  unfolding AM_Attempt_def
  by (auto split: option.splits intro!: am_inv_stats simp: ip_key_def entry_ok_def dest!: Find_Some)
    (auto dest: am_invD(5) simp: entry_ok_def)

lemma AM_Connected_ok: "am_inv None am \<Longrightarrow> am_inv None (AM_Connected addr t am)"
  unfolding AM_Connected_def by (auto split: option.splits intro!: am_inv_stats dest: am_invD(5))

text \<open>The two ways in which an entry reaches the tried table.\<close>

definition promotable :: "CAddrMan \<Rightarrow> int32 \<Rightarrow> CAddrInfo \<Rightarrow> CAddrInfo \<Rightarrow> bool" where
  "promotable am n i j \<longleftrightarrow> am_inv None am \<and> mapInfo am n = Some i \<and> \<not> fInTried i \<and> fInTried j
     \<and> ip_key j = ip_key i \<and> nRandomPos j = nRandomPos i \<and> entry_ok j"

lemma promotableD:
  assumes "promotable am n i j"
  shows "same_index (mapInfo am) ((mapInfo am)(n \<mapsto> j))" "n \<notin> tried_ids (mapInfo am)"
    "finite (tried_ids (mapInfo am))" "n \<in> dom (new_ref (mapInfo am))"
  using assms same_index_upd [of "mapInfo am" n "\<lambda>_. j"] am_invD(3) [of None am]
  by (auto simp: promotable_def tried_ids_def new_ref_def tried_ok_def)

lemma promote_room:
  assumes pr: "promotable am n i j" and k: "k < 64" and sz: "length (vvTried am ! k) < 64"
  shows "am_inv None (am \<lparr> mapInfo := (mapInfo am)(n \<mapsto> j), vvNew := map (\<lambda>s. s - {n}) (vvNew am), nNew := nNew am - 1,
      vvTried := (vvTried am)[k := (vvTried am ! k) @ [n]], nTried := nTried am + 1 \<rparr>)"
proof -
  have inv: "am_inv None am" and j: "fInTried j" "entry_ok j" using pr by (auto simp: promotable_def)
  note I = am_invD [OF inv]
  note D = promotableD [OF pr]
  define T where "T = tried_ids (mapInfo am)"
  have "tried_ok (insert n T) ((vvTried am)[k := vvTried am ! k @ [n]]) (int (card (insert n T)))"
    by (rule tried_ok_upd [OF I(3) [folded T_def] k]) (use sz D(2,3) in \<open>auto simp: T_def\<close>)
  moreover have "int (card (insert n T)) = nTried am + 1" using D(2,3) I(3) by (simp add: tried_ok_def T_def)
  ultimately show ?thesis
    using same_index_ok [OF D(1) I(1)] same_random_ok [OF D(1) I(2)] new_ok_promote [OF I(4) D(4)] I(5) j
    by (auto simp: am_inv_def tried_ids_upd new_ref_upd T_def [symmetric] split: if_splits)
qed

lemma tried_replace:
  assumes ok: "tried_ok T vt nt" and k: "k < 64" and n: "n \<notin> T"
    and v: "mset v = mset (vt ! k)" "p < length v"
  shows "tried_ok (insert n T - {v ! p}) (vt[k := v[p := n]]) nt \<and> v ! p \<in> T"
proof -
  note K = tried_ok_nth [OF ok k]
  have fin: "finite T" and nt: "nt = int (card T)" using ok by (auto simp: tried_ok_def)
  have vp: "v ! p \<in># mset v" using v(2) by simp
  then have oT: "v ! p \<in> T" using v(1) K by (metis set_mset_mset subsetD)
  have "mset (v[p := n]) = add_mset n (mset v - {#v ! p#})" using v(2) by (simp add: mset_update)
  then have A: "add_mset (v ! p) (mset (v[p := n])) = add_mset n (mset v)"
    using vp by (metis add_mset_commute insert_DiffM)
  have "mset_set (insert n T) = add_mset (v ! p) (mset_set (insert n T - {v ! p}))"
    by (rule mset_set.remove) (use oT fin in auto)
  then have B: "add_mset n (mset_set T) = add_mset (v ! p) (mset_set (insert n T - {v ! p}))"
    using n fin by simp
  have "add_mset (v ! p) (mset (v[p := n]) + mset_set T) = mset v + add_mset n (mset_set T)"
    using A by (metis add_mset_add_single union_mset_add_mset_left union_mset_add_mset_right)
  also have "\<dots> = add_mset (v ! p) (mset v + mset_set (insert n T - {v ! p}))" by (simp add: B)
  finally have "mset (v[p := n]) + mset_set T = mset (vt ! k) + mset_set (insert n T - {v ! p})" using v(1) by simp
  moreover have "length (v[p := n]) \<le> 64" using v(1) K by (metis length_list_update size_mset)
  ultimately have "tried_ok (insert n T - {v ! p}) (vt[k := v[p := n]]) (int (card (insert n T - {v ! p})))"
    using tried_ok_upd [OF ok k] fin by blast
  moreover have "card (insert n T - {v ! p}) = card T" using n oT fin by (auto simp: card_Diff_singleton_if)
  ultimately show ?thesis using nt oT by simp
qed

lemma promote_evict:
  assumes pr: "promotable am n i j" and k: "k < 64" and b: "b < 256" "card (map (\<lambda>s. s - {n}) (vvNew am) ! b) < 64"
    and v: "mset v = mset (vvTried am ! k)" "p < length v" "mapInfo am (v ! p) = Some ol"
  shows "am_inv None (am \<lparr> mapInfo := (mapInfo am)(n \<mapsto> j, v ! p \<mapsto> ol \<lparr> fInTried := False, nRefCount := 1 \<rparr>),
      vvNew := (map (\<lambda>s. s - {n}) (vvNew am))[b := insert (v ! p) (map (\<lambda>s. s - {n}) (vvNew am) ! b)],
      vvTried := (vvTried am)[k := v[p := n]] \<rparr>)"
proof -
  have inv: "am_inv None am" and j: "fInTried j" "entry_ok j" using pr by (auto simp: promotable_def)
  note I = am_invD [OF inv]
  note D = promotableD [OF pr]
  define ol' where "ol' = ol \<lparr> fInTried := False, nRefCount := 1 \<rparr>"
  define m' where "m' = (mapInfo am)(n \<mapsto> j, v ! p \<mapsto> ol')"
  note R = tried_replace [OF I(3) k D(2) v(1,2)]
  have o: "fInTried ol" "v ! p \<noteq> n" using R v(3) D(2) by (auto simp: tried_ids_def)
  have ol': "\<not> fInTried ol'" "nRefCount ol' = 1" "ip_key ol' = ip_key ol" "nRandomPos ol' = nRandomPos ol" "entry_ok ol'"
    using I(5) [OF v(3)] by (auto simp: ol'_def ip_key_def entry_ok_def)
  have si: "same_index (mapInfo am) m'"
    using same_index_trans [OF D(1) same_index_upd [of _ "v ! p" "\<lambda>_. ol'"]] v(3) o ol' by (simp add: m'_def)
  have r': "new_ref m' = (new_ref (mapInfo am))(n := None, v ! p \<mapsto> 1)"
    using j(1) ol' by (simp add: m'_def new_ref_upd)
  have "new_ok None (new_ref m') ((map (\<lambda>s. s - {n}) (vvNew am))[b := insert (v ! p) (map (\<lambda>s. s - {n}) (vvNew am) ! b)]) (nNew am - 1 + 1)"
    unfolding r' by (rule new_ok_demote [OF new_ok_promote [OF I(4) D(4)] _ b])
      (use o v(3) in \<open>auto simp: new_ref_def split: if_splits\<close>)
  moreover have "tried_ids m' = insert n (tried_ids (mapInfo am)) - {v ! p}"
    using j(1) ol' by (simp add: m'_def tried_ids_upd)
  moreover have "m' x = Some y \<Longrightarrow> entry_ok y" for x y using I(5) j ol' by (auto simp: m'_def split: if_splits)
  ultimately show ?thesis
    using same_index_ok [OF si I(1)] same_random_ok [OF si I(2)] R by (auto simp: am_inv_def m'_def ol'_def)
qed

lemma am_inv_cong:
  assumes "am_inv pend am" "mapInfo am' = mapInfo am" "mapAddr am' = mapAddr am" "nIdCount am' = nIdCount am"
    "vRandom am' = vRandom am" "vvTried am' = vvTried am" "nTried am' = nTried am" "vvNew am' = vvNew am" "nNew am' = nNew am"
  shows "am_inv pend am'"
  using assms by (simp add: am_inv_def)

text \<open>The state of \<open>MakeTried\<close> after the entry was removed from all new buckets, and before it is
  in the tried table.\<close>

definition between :: "int32 \<Rightarrow> CAddrInfo \<Rightarrow> CAddrMan \<Rightarrow> CAddrMan" where
  "between n j am = am \<lparr> mapInfo := (mapInfo am)(n \<mapsto> j), vvNew := map (\<lambda>s. s - {n}) (vvNew am), nNew := nNew am - 1 \<rparr>"

lemma evict_tried_ok:
  assumes pr: "promotable am n i (j \<lparr> fInTried := True \<rparr>)" and k: "k < 64" and b: "b < 256" and n: "n \<in> vvNew am ! b"
    and re: "reordered k (between n j am) True (nPos, am2)"
  shows "safe 0 (evict_tried E n b k nPos am2) (\<lambda>am'. am_inv None am' \<and> nIdCount am' = nIdCount am)"
proof -
  have inv: "am_inv None am" using pr by (simp add: promotable_def)
  note I = am_invD [OF inv]
  note N = new_okD [OF I(4)]
  have vt: "length (vvTried am) = 64" using I(3) by (simp add: tried_ok_def addrman_consts)
  define vn where "vn = map (\<lambda>s. s - {n}) (vvNew am)"
  obtain v where v: "am2 = (between n j am) \<lparr> vvTried := (vvTried am)[k := v] \<rparr>" "mset v = mset (vvTried am ! k)"
      "0 \<le> nPos" "nat nPos < length v"
    using re by (auto simp: reordered_def between_def)
  define old where "old = v ! nat nPos"
  have "old \<in> tried_ids (mapInfo am)" and on: "old \<noteq> n"
    using tried_replace [OF I(3) k promotableD(2) [OF pr] v(2,4)] promotableD(2) [OF pr] by (auto simp: old_def)
  then obtain ol where ol: "mapInfo am old = Some ol" by (auto simp: tried_ids_def)
  define b' where "b' = (if card (vn ! GetNewBucket E (nKey am) ol (ai_source ol)) < 64
      then GetNewBucket E (nKey am) ol (ai_source ol) else b)"
  have b': "b' < 256" using b by (simp add: b'_def GetNewBucket_less)
  have "card (vvNew am ! b - {n}) < card (vvNew am ! b)"
    using n N(2) [OF b] by (rule card_Diff1_less [rotated])
  then have "card (vn ! b) < 64" using N(1) N(3) [OF b] b by (simp add: vn_def)
  then have bsz: "card (vn ! b') < 64" by (simp add: b'_def)
  have m2: "vvTried am2 ! k = v" "mapInfo am2 old = Some ol" "nKey am2 = nKey am" "vvNew am2 = vn" "nIdCount am2 = nIdCount am"
    using v(1) k vt ol on by (auto simp: between_def vn_def)
  define am' where "am' = upd_info n (fInTried_update (\<lambda>_. True)) ((upd_info old (\<lambda>i. i \<lparr> fInTried := False, nRefCount := 1 \<rparr>) am2)
      \<lparr> vvNew := vn[b' := insert old (vn ! b')], nNew := nNew am2 + 1, vvTried := (vvTried am2)[k := v[nat nPos := n]] \<rparr>)"
  have inv': "am_inv None am'"
    by (rule am_inv_cong [OF promote_evict [OF pr k b' bsz [unfolded vn_def] v(2,4) ol [unfolded old_def]]])
      (use v(1) on ol in \<open>simp_all add: am'_def between_def vn_def old_def fun_upd_twist\<close>)
  have "evict_tried E n b k nPos am2 = rbind (guard True) (\<lambda>_. ret am')"
    unfolding evict_tried_def Let_def m2 using v(3,4)
    by (simp add: old_def [symmetric] m2 b'_def am'_def addrman_consts)
  then show ?thesis
    using inv' m2(5) by (auto intro!: safe_seq [where j = 0, OF safe_guard] safe_ret simp: am'_def)
qed

lemma MakeTried_ok:
  assumes inv: "am_inv None am" and b: "b < 256" and n: "n \<in> vvNew am ! b"
    and i: "mapInfo am n = Some i" "nLastSuccess i \<noteq> 0"
  shows "safe 4 (MakeTried E n b am) (\<lambda>am'. am_inv None am' \<and> nIdCount am' = nIdCount am)"
proof -
  note I = am_invD [OF inv]
  note N = new_okD [OF I(4)]
  have nt: "\<not> fInTried i" using bucket_facts(3) [OF inv b n] i(1) by auto
  have "nRefCount i = int (refs (vvNew am) n)" using N(5) [of n "nRefCount i"] i(1) nt by (simp add: new_ref_def)
  then have cnt: "nRefCount i - int (length (filter (\<lambda>s. n \<in> s) (vvNew am))) = 0" by (simp add: refs_def)
  define j where "j = nRefCount_update (\<lambda>c. c - int (length (filter (\<lambda>s. n \<in> s) (vvNew am)))) i"
  define am1 where "am1 = between n j am"
  have am1: "(upd_info n (nRefCount_update (\<lambda>c. c - int (length (filter (\<lambda>s. n \<in> s) (vvNew am))))) am)
      \<lparr> vvNew := map (\<lambda>s. s - {n}) (vvNew am), nNew := nNew am - 1 \<rparr> = am1"
    using i by (simp add: am1_def between_def upd_info_def j_def)
  have j0: "nRefCount (the (mapInfo am1 n)) = 0" using cnt by (simp add: am1_def between_def j_def)
  define k where "k = GetTriedBucket E (nKey am1) (the (mapInfo am1 n))"
  have k: "k < 64" by (simp add: k_def GetTriedBucket_less)
  have pr: "promotable am n i (j \<lparr> fInTried := True \<rparr>)"
    using inv i nt cnt I(5) [OF i(1)] by (auto simp: promotable_def j_def ip_key_def entry_ok_def)
  have vt: "length (vvTried am) = 64" "vvTried am1 = vvTried am"
    using I(3) by (simp_all add: tried_ok_def addrman_consts am1_def between_def)
  have K: "n' \<in> set (vvTried am ! k) \<Longrightarrow> mapInfo am1 n' \<noteq> None \<and> n' \<noteq> - 1" for n'
  proof -
    assume "n' \<in> set (vvTried am ! k)"
    then obtain x where x: "mapInfo am n' = Some x" using tried_ok_nth [OF I(3) k] by (auto simp: tried_ids_def)
    then have "n' \<in> dom (mapInfo am)" by auto
    then have "0 \<le> n'" using I(1) by (auto simp: index_ok_def)
    with x show ?thesis by (auto simp: am1_def between_def)
  qed
  let ?Q = "\<lambda>am'. am_inv None am' \<and> nIdCount am' = nIdCount am"
  have rest: "safe 4 (if length (vvTried am1 ! k) < ADDRMAN_TRIED_BUCKET_SIZE then
           ret (upd_info n (fInTried_update (\<lambda>_. True))
             (am1 \<lparr> vvTried := (vvTried am1)[k := (vvTried am1 ! k) @ [n]], nTried := nTried am1 + 1 \<rparr>))
         else rbind (SelectTried (be_proto E) k am1) (\<lambda>(nPos, am2). evict_tried E n b k nPos am2)) ?Q"
  proof (cases "length (vvTried am ! k) < 64")
    case True
    have "?Q (upd_info n (fInTried_update (\<lambda>_. True))
      (am1 \<lparr> vvTried := (vvTried am1)[k := (vvTried am1 ! k) @ [n]], nTried := nTried am1 + 1 \<rparr>))"
      by (rule conjI, rule am_inv_cong [OF promote_room [OF pr k True]]) (simp_all add: am1_def between_def)
    then show ?thesis using True by (simp add: vt addrman_consts) (rule safe_mono [OF safe_ret], auto)
  next
    case False
    then have sel: "safe 4 (SelectTried (be_proto E) k am1) (reordered k am1 True)"
      unfolding SelectTried_def using select_loop_ok [of k am1 "- 1" "- 1" 0 "be_proto E"] K k vt tried_ok_nth [OF I(3) k]
      by (cases "vvTried am ! k") auto
    show ?thesis using False
      by (simp add: vt addrman_consts)
        (rule safe_seq [where j = 0, OF sel], use evict_tried_ok [OF pr k b n] in \<open>auto simp: am1_def\<close>)
  qed
  have g1: "safe 0 (if b < length (vvNew am) then guard (n \<in> vvNew am ! b) else lift (Inl OutOfRange)) (\<lambda>_. True)"
    using b n N(1) by (simp add: safe_guard)
  show ?thesis
    unfolding MakeTried_def am1 Let_def k_def [symmetric]
    by (rule safe_seq [where j = 4, OF g1 safe_seq [where j = 4, OF safe_guard [OF j0] rest]]) simp_all
qed

lemma AM_Good_ok:
  assumes inv: "am_inv None am" and t: "0 < t"
  shows "safe 5 (AM_Good E addr t am) (\<lambda>am'. am_inv None am' \<and> nIdCount am' = nIdCount am)"
proof (cases "Find addr am")
  case None
  then show ?thesis unfolding AM_Good_def by simp (rule safe_mono [OF safe_ret], use inv in auto)
next
  case (Some ni)
  obtain n i where ni: "ni = (n, i)" by (cases ni)
  have i: "mapInfo am n = Some i" using Find_Some Some ni by blast
  define f where "f = (\<lambda>i. (set_time t i) \<lparr> nLastSuccess := t, nLastTry := t, nAttempts := 0 \<rparr>)"
  define am1 where "am1 = upd_info n f am"
  have f: "ip_key (f x) = ip_key x" "nRandomPos (f x) = nRandomPos x" "fInTried (f x) = fInTried x"
      "nRefCount (f x) = nRefCount x" "nLastSuccess (f x) = t" "nLastTry (f x) = t" for x
    by (simp_all add: f_def set_time_def ip_key_def)
  have inv1: "am_inv None am1"
    unfolding am1_def by (rule am_inv_stats [OF inv]) (use am_invD(5) [OF inv] t f in \<open>auto simp: entry_ok_def\<close>)
  have id: "nIdCount am1 = nIdCount am" by (simp add: am1_def)
  have len: "length (vvNew am1) = 256" using bucket_facts(4) [OF inv1, of 0] by simp
  let ?Q = "\<lambda>am'. am_inv None am' \<and> nIdCount am' = nIdCount am"
  have R: "safe 1 (rand_int (int (length (vvNew am1)))) (\<lambda>r. 0 \<le> r \<and> r < int (length (vvNew am1)))"
    by (rule safe_rand) (simp_all add: len)
  have mk: "safe 4 (case List.find (\<lambda>nB. n \<in> vvNew am1 ! nB)
        (map (\<lambda>x. (x + nat r) mod length (vvNew am1)) [0..<length (vvNew am1)]) of
      None \<Rightarrow> ret am1 | Some b \<Rightarrow> MakeTried E n b am1) ?Q" for r
  proof (cases "List.find (\<lambda>nB. n \<in> vvNew am1 ! nB) (map (\<lambda>x. (x + nat r) mod length (vvNew am1)) [0..<length (vvNew am1)])")
    case None
    show ?thesis unfolding None by simp (rule safe_mono [OF safe_ret], use inv1 id in auto)
  next
    case (Some b)
    then have "n \<in> vvNew am1 ! b" "b < 256" by (auto simp: find_Some_iff len)
    then show ?thesis unfolding Some
      by simp (rule safe_mono [OF MakeTried_ok [OF inv1 _ _, of b n "f i"]], use i id t f in \<open>auto simp: am1_def\<close>)
  qed
  show ?thesis
  proof (cases "\<not> Service_eq i addr \<or> fInTried i")
    case True
    then show ?thesis unfolding AM_Good_def Some ni using inv inv1 id
      by (auto simp: Let_def f_def [symmetric] am1_def [symmetric] intro!: safe_return)
  next
    case False
    then have "AM_Good E addr t am = rbind (rand_int (int (length (vvNew am1)))) (\<lambda>r.
        case List.find (\<lambda>nB. n \<in> vvNew am1 ! nB)
          (map (\<lambda>x. (x + nat r) mod length (vvNew am1)) [0..<length (vvNew am1)]) of
          None \<Rightarrow> ret am1 | Some b \<Rightarrow> MakeTried E n b am1)"
      unfolding AM_Good_def Some ni option.case prod.case Let_def f_def [symmetric] am1_def [symmetric] by simp
    then show ?thesis using safe_seq [where j = 4, OF R mk, of 5] by simp
  qed
qed

lemma fresh_id: "am_inv pend am \<Longrightarrow> mapInfo am (nIdCount am) = None"
  by (drule am_invD(1)) (auto simp: index_ok_def)

lemma Create_ok:
  assumes inv: "am_inv None am" and F: "mapAddr am (ip_key addr) = None" and c: "nIdCount am + 1 < 2 ^ 31"
    and m: "Create addr src am = (n, am1)" and f: "\<And>i. ip_key (f i) = ip_key i \<and> nRandomPos (f i) = nRandomPos i
      \<and> fInTried (f i) = fInTried i \<and> nRefCount (f i) = nRefCount i + 1 \<and> (entry_ok i \<and> \<not> fInTried i \<longrightarrow> entry_ok (f i))"
  shows "am_inv (Some n) ((upd_info n f am1) \<lparr> nNew := nNew am1 + 1 \<rparr>)"
proof -
  note I = am_invD [OF inv]
  define i where "i = (CAddrInfo_make addr src) \<lparr> nRandomPos := int (length (vRandom am)) \<rparr>"
  have i: "ip_key i = ip_key addr" "nRandomPos i = int (length (vRandom am))" "\<not> fInTried i" "nRefCount i = 0" "entry_ok i"
    by (simp_all add: i_def CAddrInfo_make_def CAddress.defs CAddrInfo.defs ip_key_def entry_ok_def)
  note fi = f [of i]
  have n: "n = nIdCount am" and am1: "am1 = am \<lparr> nIdCount := n + 1, mapInfo := (mapInfo am)(n \<mapsto> i),
      mapAddr := (mapAddr am)(ip_key addr \<mapsto> n), vRandom := vRandom am @ [n] \<rparr>"
    using m by (auto simp: Create_def Let_def i_def)
  have nd: "mapInfo am n = None" using I(1) by (auto simp: index_ok_def n)
  have idx: "index_ok ((mapInfo am)(n \<mapsto> f i)) ((mapAddr am)(ip_key addr \<mapsto> n)) (n + 1)"
  proof -
    have iff: "mapAddr am k = Some x \<longleftrightarrow> (\<exists>y. mapInfo am x = Some y \<and> ip_key y = k)" for k x
      using I(1) by (simp add: index_ok_def)
    have "((mapAddr am)(ip_key addr \<mapsto> n)) k = Some x \<longleftrightarrow> (\<exists>y. ((mapInfo am)(n \<mapsto> f i)) x = Some y \<and> ip_key y = k)" for k x
      using iff [of k x] F nd fi i(1) by (cases "x = n"; cases "k = ip_key addr") (auto simp: iff)
    then show ?thesis using I(1) c by (auto simp: index_ok_def n)
  qed
  have rnd: "random_ok ((mapInfo am)(n \<mapsto> f i)) (vRandom am @ [n])"
  proof -
    have nv: "n \<notin> set (vRandom am)" using I(2) nd by (auto simp: random_ok_def)
    then have "p < length (vRandom am) \<Longrightarrow> vRandom am ! p \<noteq> n" for p by (metis nth_mem)
    then show ?thesis using I(2) nv fi i(2) by (auto simp: random_ok_def nth_append less_Suc_eq split: if_splits)
  qed
  have "new_ok (Some n) (new_ref ((mapInfo am)(n \<mapsto> f i))) (vvNew am) (nNew am + 1)"
  proof -
    have "n \<notin> dom (new_ref (mapInfo am))" using nd by (auto simp: new_ref_def)
    from new_ok_fresh [OF I(4) this] show ?thesis using fi i by (simp add: new_ref_upd)
  qed
  moreover have "tried_ids ((mapInfo am)(n \<mapsto> f i)) = tried_ids (mapInfo am)"
    using nd fi i by (auto simp: tried_ids_def)
  ultimately show ?thesis
    using idx rnd I(3,5) fi i by (auto simp: am_inv_def am1 split: if_splits)
qed

lemma AM_Add_ok:
  assumes inv: "am_inv None am" and c: "nIdCount am + 1 < 2 ^ 31"
  shows "safe 5 (AM_Add E nNow addr src pen am) (\<lambda>(_, am'). am_inv None am' \<and> nIdCount am \<le> nIdCount am' \<and> nIdCount am' \<le> nIdCount am + 1)"
    (is "safe 5 _ ?Q")
proof (cases "IsRoutable addr")
  case False
  then show ?thesis unfolding AM_Add_def by simp (rule safe_mono [OF safe_ret], use inv in auto)
next
  case routable: True
  have add: "safe 4 (rbind (add_to_bucket E nNow n src a) (\<lambda>am2. ret (r, am2))) ?Q"
    if "am_inv (Some n) (upd_info n (nRefCount_update (\<lambda>c. c + 1)) a)"
      "\<And>b. b < 256 \<Longrightarrow> n \<in> vvNew a ! b \<Longrightarrow> am_inv None a" "nIdCount am \<le> nIdCount a" "nIdCount a \<le> nIdCount am + 1" for n a r
    by (rule safe_seq [where j = 0, OF add_to_bucket_ok [OF that(1,2)]]) (use that(3,4) in \<open>auto intro!: safe_ret\<close>)
  show ?thesis
  proof (cases "Find addr am")
    case None
    obtain n am1 where cr: "Create addr src am = (n, am1)" by fastforce
    define g where "g = (\<lambda>i. set_time (max 0 (uint (ca_nTime i) - pen)) i)"
    define am2 where "am2 = (upd_info n g am1) \<lparr> nNew := nNew am1 + 1 \<rparr>"
    have n: "n = nIdCount am" and id1: "nIdCount am1 = nIdCount am + 1" and vn: "vvNew am1 = vvNew am"
      using cr by (auto simp: Create_def Let_def)
    have u: "upd_info n (nRefCount_update (\<lambda>c. c + 1)) am2 = (upd_info n (nRefCount_update (\<lambda>c. c + 1) \<circ> g) am1) \<lparr> nNew := nNew am1 + 1 \<rparr>"
      by (simp add: am2_def upd_info_def option.map_comp)
    have "am_inv (Some n) (upd_info n (nRefCount_update (\<lambda>c. c + 1)) am2)"
      unfolding u by (rule Create_ok [OF inv Find_None [OF inv None] c cr])
        (auto simp: g_def set_time_def ip_key_def entry_ok_def)
    moreover have "n \<notin> vvNew am2 ! b" if "b < 256" for b
      using bucket_facts(3) [OF inv that, of n] fresh_id [OF inv] by (auto simp: am2_def vn n)
    ultimately have "safe 4 (rbind (add_to_bucket E nNow n src am2) (\<lambda>am2. ret (True, am2))) ?Q"
      by (intro add) (auto simp: am2_def id1)
    then show ?thesis unfolding AM_Add_def None cr using routable
      by (simp add: Let_def g_def [symmetric] am2_def [symmetric]) (rule safe_mono, auto)
  next
    case (Some ni)
    obtain n i where ni: "ni = (n, i)" by (cases ni)
    have i: "mapInfo am n = Some i" using Find_Some Some ni by blast
    define am1 where "am1 = upd_info n (update_known nNow pen addr) am"
    define j where "j = the (mapInfo am1 n)"
    have inv1: "am_inv None am1"
      unfolding am1_def by (rule am_inv_stats [OF inv]) (use am_invD(5) [OF inv] in auto)
    have j: "mapInfo am1 n = Some j" and id: "nIdCount am1 = nIdCount am" using i by (auto simp: am1_def j_def)
    have stop: "safe k (ret (False, am1)) ?Q" for k by (rule safe_mono [OF safe_ret]) (use inv1 id in auto)
    have go: "safe 4 (rbind (add_to_bucket E nNow n src am1) (\<lambda>am2. ret (False, am2))) ?Q"
      if nt: "\<not> fInTried j" "nRefCount j \<noteq> 4"
    proof (rule add)
      note I = am_invD [OF inv1]
      have r: "new_ref (mapInfo am1) n = Some (nRefCount j)" using j nt by (simp add: new_ref_def)
      define j' where "j' = nRefCount_update (\<lambda>c. c + 1) j"
      have m: "mapInfo (upd_info n (nRefCount_update (\<lambda>c. c + 1)) am1) = (mapInfo am1)(n \<mapsto> j')"
        using j by (simp add: j'_def)
      have si: "same_index (mapInfo am1) ((mapInfo am1)(n \<mapsto> j'))"
        using same_index_upd [of "mapInfo am1" n "\<lambda>_. j'"] j by (simp add: j'_def ip_key_def)
      have t': "tried_ids ((mapInfo am1)(n \<mapsto> j')) = tried_ids (mapInfo am1)"
        using j nt by (auto simp: tried_ids_def j'_def)
      have r': "new_ref ((mapInfo am1)(n \<mapsto> j')) = (new_ref (mapInfo am1))(n \<mapsto> nRefCount j + 1)"
        using nt by (simp add: new_ref_upd j'_def)
      have "entry_ok j'" using I(5) [OF j] nt by (simp add: entry_ok_def j'_def)
      then show "am_inv (Some n) (upd_info n (nRefCount_update (\<lambda>c. c + 1)) am1)"
        using same_index_ok [OF si I(1)] same_random_ok [OF si I(2)] I(3,5) t' r' new_ok_bump [OF I(4) r nt(2)]
        unfolding am_inv_def m by (auto split: if_splits)
    qed (use inv1 id in auto)
    have "safe 5 (rbind (rand_int (2 ^ nat (nRefCount j))) (\<lambda>r. if r \<noteq> 0 then ret (False, am1)
        else rbind (add_to_bucket E nNow n src am1) (\<lambda>am2. ret (False, am2)))) ?Q"
      if nt: "\<not> fInTried j" "nRefCount j \<noteq> 4"
    proof -
      have "nRefCount j \<le> 4" using new_okD(7) [OF am_invD(4) [OF inv1], of n] j nt by (simp add: new_ref_def)
      then have "(2 :: int) ^ nat (nRefCount j) \<le> 2 ^ 4" by (intro power_increasing) auto
      then have R: "safe 1 (rand_int (2 ^ nat (nRefCount j))) (\<lambda>r. 0 \<le> r \<and> r < 2 ^ nat (nRefCount j))"
        by (intro safe_rand) auto
      show ?thesis by (rule safe_seq [where j = 4, OF R]) (use go nt stop in auto)
    qed
    then show ?thesis
      unfolding AM_Add_def Some ni option.case prod.case Let_def am1_def [symmetric] j_def [symmetric]
      using routable stop safe_mono [OF go, of 5] by (auto simp: addrman_consts)
  qed
qed

subsection \<open>\<open>GetAddr_\<close>\<close>

definition first_addrs :: "nat \<Rightarrow> CAddrMan \<Rightarrow> CAddress list" where
  "first_addrs n am = map (\<lambda>p. CAddress.truncate (the (mapInfo am (vRandom am ! p)))) [0..<n]"

lemma truncate_pos [simp]: "CAddress.truncate (i \<lparr> nRandomPos := q \<rparr>) = CAddress.truncate i"
  by (simp add: CAddress.truncate_def)

lemma SwapRandom_inv:
  assumes inv: "am_inv None am" and p: "p < length (vRandom am)" "q < length (vRandom am)" "n \<le> p" "n \<le> q"
  shows "\<exists>am'. SwapRandom (word_of_nat p) (word_of_nat q) am = Inr am' \<and> am_inv None am'
    \<and> length (vRandom am') = length (vRandom am) \<and> first_addrs n am' = first_addrs n am \<and> nIdCount am' = nIdCount am"
proof -
  note I = am_invD [OF inv]
  have u: "unat (word_of_nat p :: uint32) = p" "unat (word_of_nat q :: uint32) = q"
    using vRandom_length [OF inv] p by (simp_all add: unat_of_nat)
  define vr where "vr = (vRandom am)[p := vRandom am ! q, q := vRandom am ! p]"
  obtain m' where sw: "SwapRandom (word_of_nat p) (word_of_nat q) am = Inr (am \<lparr> mapInfo := m', vRandom := vr \<rparr>)"
      and rel: "pos_rel (mapInfo am) m'" and ro: "random_ok m' vr"
    using SwapRandom_ok [OF I(2), of "word_of_nat p" "word_of_nat q", unfolded u] p unfolding vr_def by blast
  have "am_inv None (am \<lparr> mapInfo := m', vRandom := vr \<rparr>)"
    using ro pos_rel_index [OF rel I(1)] pos_rel_ids [OF rel] pos_rel_new [OF rel] I(3,4) I(5) pos_rel_entry [OF rel]
    by (fastforce simp: am_inv_def)
  moreover have "CAddress.truncate (the (m' (vr ! x))) = CAddress.truncate (the (mapInfo am (vRandom am ! x)))" if x: "x < n" for x
  proof -
    have v: "vr ! x = vRandom am ! x" using x p by (simp add: vr_def)
    show ?thesis unfolding v by (rule pos_rel_cases [OF rel, of "vRandom am ! x"]) auto
  qed
  ultimately show ?thesis using sw by (auto simp: first_addrs_def vr_def)
qed

lemma getaddr_loop_ok:
  "am_inv None am \<Longrightarrow> n + k \<le> length (vRandom am) \<Longrightarrow> va = first_addrs n am \<Longrightarrow>
     safe k (getaddr_loop k n va am) (\<lambda>(va', am'). am_inv None am' \<and> va' = first_addrs (n + k) am'
       \<and> length (vRandom am') = length (vRandom am) \<and> nIdCount am' = nIdCount am)"
proof (induction k arbitrary: n va am)
  case 0
  then show ?case by (auto intro!: safe_return)
next
  case (Suc k)
  note inv = Suc.prems(1)
  have R: "safe 1 (rand_int (int (length (vRandom am)) - int n)) (\<lambda>r. 0 \<le> r \<and> r < int (length (vRandom am)) - int n)"
    by (rule safe_rand) (use Suc.prems vRandom_length [OF inv] in auto)
  have "safe k (rbind (lift (SwapRandom (word_of_nat n) (word_of_int (r + int n)) am)) (\<lambda>am1.
         case mapInfo am1 (vRandom am1 ! n) of
           None \<Rightarrow> lift (Inl AssertFailed)
         | Some info \<Rightarrow> getaddr_loop k (n + 1) (va @ [CAddress.truncate info]) am1))
      (\<lambda>(va', am'). am_inv None am' \<and> va' = first_addrs (n + Suc k) am'
       \<and> length (vRandom am') = length (vRandom am) \<and> nIdCount am' = nIdCount am)"
    if r: "0 \<le> r \<and> r < int (length (vRandom am)) - int n" for r
  proof -
    define q where "q = nat r + n"
    have q: "word_of_int (r + int n) = (word_of_nat q :: uint32)" "q < length (vRandom am)" "n \<le> q"
      using r by (auto simp: q_def)
    obtain am1 where am1: "SwapRandom (word_of_nat n) (word_of_nat q) am = Inr am1" "am_inv None am1"
        "length (vRandom am1) = length (vRandom am)" "first_addrs n am1 = first_addrs n am" "nIdCount am1 = nIdCount am"
      using SwapRandom_inv [OF inv _ q(2) le_refl q(3)] Suc.prems(2) by auto
    have "vRandom am1 ! n \<in> dom (mapInfo am1)"
      using am_invD(2) [OF am1(2)] am1(3) Suc.prems(2) by (auto simp: random_ok_def)
    then obtain info where info: "mapInfo am1 (vRandom am1 ! n) = Some info" by auto
    have "safe k (getaddr_loop k (n + 1) (va @ [CAddress.truncate info]) am1)
        (\<lambda>(va', am'). am_inv None am' \<and> va' = first_addrs (n + 1 + k) am' \<and> length (vRandom am') = length (vRandom am1) \<and> nIdCount am' = nIdCount am1)"
      by (rule Suc.IH [OF am1(2)]) (use Suc.prems am1 info in \<open>auto simp: first_addrs_def\<close>)
    then have "safe k (getaddr_loop k (n + 1) (va @ [CAddress.truncate info]) am1)
        (\<lambda>(va', am'). am_inv None am' \<and> va' = first_addrs (n + Suc k) am' \<and> length (vRandom am') = length (vRandom am) \<and> nIdCount am' = nIdCount am)"
      by (rule safe_mono) (auto simp: am1)
    then show ?thesis unfolding q(1)
      by (intro safe_seq [where j = k, OF safe_lift [OF am1(1), of "\<lambda>x. x = am1"]]) (auto simp: info)
  qed
  then show ?case by (simp, intro safe_seq [where j = k, OF R]) auto
qed

lemma first_addrs_facts:
  assumes inv: "am_inv None am" and n: "n \<le> length (vRandom am)"
  shows "distinct (map ip_key (first_addrs n am))" "length (first_addrs n am) = n"
    "a \<in> set (first_addrs n am) \<Longrightarrow> \<exists>id i. Find a am = Some (id, i) \<and> a = CAddress.truncate i"
proof -
  note I = am_invD [OF inv]
  have ro: "distinct (vRandom am)" "set (vRandom am) = dom (mapInfo am)" using I(2) by (auto simp: random_ok_def)
  have iff: "mapAddr am k = Some x \<longleftrightarrow> (\<exists>i. mapInfo am x = Some i \<and> ip_key i = k)" for k x
    using I(1) by (simp add: index_ok_def)
  have tr: "ip_key (CAddress.truncate i) = ip_key i" for i :: CAddrInfo by (simp add: ip_key_def CAddress.truncate_def)
  have ent: "\<exists>i. mapInfo am (vRandom am ! p) = Some i" if "p < n" for p
    using that n ro(2) nth_mem [of p "vRandom am"] by auto
  show "length (first_addrs n am) = n" by (simp add: first_addrs_def)
  show "distinct (map ip_key (first_addrs n am))"
    unfolding first_addrs_def map_map distinct_map
  proof (intro conjI inj_onI)
    fix p q assume "p \<in> set [0..<n]" "q \<in> set [0..<n]"
      and e: "(ip_key \<circ> (\<lambda>p. CAddress.truncate (the (mapInfo am (vRandom am ! p))))) p = (ip_key \<circ> (\<lambda>p. CAddress.truncate (the (mapInfo am (vRandom am ! p))))) q"
    then have pq: "p < n" "q < n" by auto
    obtain i j where i: "mapInfo am (vRandom am ! p) = Some i" and j: "mapInfo am (vRandom am ! q) = Some j"
      using ent pq by blast
    then have "ip_key i = ip_key j" using e by (simp add: tr)
    then have "vRandom am ! p = vRandom am ! q" using iff [of "ip_key i" "vRandom am ! p"] iff [of "ip_key i" "vRandom am ! q"] i j by auto
    then show "p = q" using ro(1) pq n by (simp add: nth_eq_iff_index_eq)
  qed simp
  show "\<exists>id i. Find a am = Some (id, i) \<and> a = CAddress.truncate i" if a: "a \<in> set (first_addrs n am)"
  proof -
    obtain p where p: "p < n" "a = CAddress.truncate (the (mapInfo am (vRandom am ! p)))" using a by (auto simp: first_addrs_def)
    obtain i where i: "mapInfo am (vRandom am ! p) = Some i" using ent p by blast
    then have "mapAddr am (ip_key a) = Some (vRandom am ! p)" using p iff by (auto simp: tr)
    then show ?thesis using i p by (auto simp: Find_def)
  qed
qed

end
