(* ===== verification/AddrManProps.thy ===== *)
theory AddrManProps
  imports AddrManInv
begin

text \<open>
  What the invariant of the address manager gives: the consistency check never reports an error in
  a reachable state, no assertion fails, the operations return, and the addresses handed out
  are distinct entries of the table.  The limits on the buckets that one group of addresses can
  reach do not need the invariant.
\<close>

subsection \<open>The consistency check passes\<close>

lemma check_infos_ok:
  assumes inv: "am_inv None am"
  shows "set ns \<subseteq> dom (mapInfo am) \<Longrightarrow>
    check_infos am ns S M (mapAddr am)
      = Inr (S \<union> {n \<in> set ns. n \<in> tried_ids (mapInfo am)}, M ++ (new_ref (mapInfo am) |` set ns), mapAddr am)"
proof (induction ns arbitrary: S M)
  case Nil
  then show ?case by simp
next
  case (Cons n ns)
  note I = am_invD [OF inv]
  obtain i where i: "mapInfo am n = Some i" using Cons.prems by auto
  have ma: "mapAddr am (ip_key i) = Some n" using I(1) i by (auto simp: index_ok_def)
  have "n \<in> set (vRandom am)" using I(2) i by (auto simp: random_ok_def)
  then obtain p where p: "p < length (vRandom am)" "vRandom am ! p = n" by (auto simp: in_set_conv_nth)
  then have pos: "nRandomPos i = int p" using I(2) i by (auto simp: random_ok_def)
  have e: "entry_ok i" by (rule I(5) [OF i])
  show ?case
  proof (cases "fInTried i")
    case True
    then have "check_infos am (n # ns) S M (mapAddr am) = check_infos am ns (insert n S) M (mapAddr am)"
      using i ma pos p e by (simp add: Let_def entry_ok_def)
    moreover have "new_ref (mapInfo am) |` set (n # ns) = new_ref (mapInfo am) |` set ns"
      using i True by (auto simp: restrict_map_def new_ref_def fun_eq_iff)
    moreover have "insert n S \<union> {x \<in> set ns. x \<in> tried_ids (mapInfo am)} = S \<union> {x \<in> set (n # ns). x \<in> tried_ids (mapInfo am)}"
      using i True by (auto simp: tried_ids_def)
    ultimately show ?thesis using Cons.IH [of "insert n S" M] Cons.prems by (simp only: set_simps insert_subset simp_thms)
  next
    case False
    then have r: "new_ref (mapInfo am) n = Some (nRefCount i)" using i by (simp add: new_ref_def)
    note c = new_okD(6,7) [OF I(4) r]
    have "check_infos am (n # ns) S M (mapAddr am) = check_infos am ns S (M(n \<mapsto> nRefCount i)) (mapAddr am)"
      using i ma pos p e False c by (simp add: Let_def entry_ok_def addrman_consts)
    moreover have "M(n \<mapsto> nRefCount i) ++ (new_ref (mapInfo am) |` set ns) = M ++ (new_ref (mapInfo am) |` set (n # ns))"
      using r by (auto simp: fun_eq_iff map_add_def restrict_map_def split: option.splits)
    moreover have "S \<union> {x \<in> set ns. x \<in> tried_ids (mapInfo am)} = S \<union> {x \<in> set (n # ns). x \<in> tried_ids (mapInfo am)}"
      using i False by (auto simp: tried_ids_def)
    ultimately show ?thesis using Cons.IH [of S "M(n \<mapsto> nRefCount i)"] Cons.prems by (simp only: set_simps insert_subset simp_thms)
  qed
qed

lemma check_tried_ok: "distinct ns \<Longrightarrow> check_tried ns (set ns) = Some {}"
proof (induction ns)
  case (Cons n ns)
  then have "insert n (set ns) - {n} = set ns" by auto
  with Cons show ?case by simp
qed simp

definition occ_map :: "int32 list \<Rightarrow> int32 \<rightharpoonup> int32" where
  "occ_map ns n = (if count_list ns n = 0 then None else Some (int (count_list ns n)))"

lemma check_new_ok: "check_new ns (occ_map ns) = Some Map.empty"
proof (induction ns)
  case Nil
  then show ?case by (auto simp: occ_map_def)
next
  case (Cons n ns)
  have "occ_map (n # ns) n = Some (int (count_list ns n) + 1)" by (simp add: occ_map_def)
  moreover have "(if int (count_list ns n) + 1 - 1 = 0 then (occ_map (n # ns))(n := None)
      else (occ_map (n # ns))(n \<mapsto> int (count_list ns n) + 1 - 1)) = occ_map ns"
    by (auto simp: occ_map_def fun_eq_iff)
  ultimately show ?case using Cons by simp
qed

lemma count_sorted: "finite s \<Longrightarrow> count_list (sorted_list_of_set s) n = (if n \<in> s then 1 else 0)"
  by (metis count_list_0_iff distinct_count_atmost_1 count_mset distinct_sorted_list_of_set set_sorted_list_of_set)

lemma refs_count: "\<forall>s\<in>set vn. finite s \<Longrightarrow> count_list (concat (map sorted_list_of_set vn)) n = refs vn n"
  by (induction vn) (auto simp: refs_Cons count_sorted, simp add: refs_def)

lemma AM_Check_ok:
  assumes inv: "am_inv None am"
  shows "AM_Check am = (0, am)"
proof -
  note I = am_invD [OF inv]
  note N = new_okD [OF I(4)]
  define m where "m = mapInfo am"
  have fin: "finite (dom m)" using I(2) by (auto simp: random_ok_def m_def) (metis List.finite_set)
  have split: "dom m = tried_ids m \<union> dom (new_ref m)" "tried_ids m \<inter> dom (new_ref m) = {}"
    by (auto simp: tried_ids_def new_ref_def split: option.splits if_splits)
  have T: "mset (concat (vvTried am)) = mset_set (tried_ids m)" "nTried am = int (card (tried_ids m))" "finite (tried_ids m)"
    using I(3) by (auto simp: tried_ok_def m_def)
  have d: "distinct (concat (vvTried am))" "set (concat (vvTried am)) = tried_ids m"
    using T(1,3) by (metis distinct_count_atmost_1 count_mset_set(1) count_mset_set(3) finite_set_mset_mset_set set_mset_mset, metis T(1,3) finite_set_mset_mset_set set_mset_mset)
  have size: "int (length (vRandom am)) = nTried am + nNew am"
  proof -
    have "length (vRandom am) = card (dom m)" using I(2) unfolding random_ok_def m_def by (metis distinct_card)
    also have "\<dots> = card (tried_ids m) + card (dom (new_ref m))" using split N(9) T(3) by (metis card_Un_disjoint m_def)
    finally show ?thesis using T(2) N(10) by (simp add: m_def)
  qed
  have ci: "check_infos am (sorted_list_of_set (dom m)) {} Map.empty (mapAddr am) = Inr (tried_ids m, new_ref m, mapAddr am)"
  proof -
    have "new_ref m |` dom m = new_ref m" using split(1) by (auto simp: restrict_map_def fun_eq_iff)
    moreover have "{n \<in> dom m. n \<in> tried_ids m} = tried_ids m" using split(1) by auto
    ultimately show ?thesis using check_infos_ok [OF inv, of "sorted_list_of_set (dom m)" "{}" Map.empty] fin by (simp add: m_def)
  qed
  have "new_ref m = occ_map (concat (map sorted_list_of_set (vvNew am)))"
  proof
    fix n
    have fs: "\<forall>s\<in>set (vvNew am). finite s" using I(4) by (simp add: new_ok_def)
    have z: "refs (vvNew am) n = 0" if "new_ref m n = None"
      using I(4) that by (auto simp: refs_def filter_empty_conv new_ok_def m_def domIff)
    show "new_ref m n = occ_map (concat (map sorted_list_of_set (vvNew am))) n"
      using N(5,6) [of n] z by (cases "new_ref m n") (auto simp: occ_map_def refs_count [OF fs] m_def)
  qed
  then have cn: "check_new (concat (map sorted_list_of_set (vvNew am))) (new_ref m) = Some Map.empty"
    by (simp add: check_new_ok)
  have ct: "check_tried (concat (vvTried am)) (tried_ids m) = Some {}" using check_tried_ok [OF d(1)] d(2) by simp
  show ?thesis
    unfolding AM_Check_def m_def [symmetric] ci using size T(2) N(10) cn ct by (simp add: m_def Let_def)
qed

subsection \<open>Selection\<close>

lemma select_tried_loop_ok:
  assumes inv: "am_inv None am"
  shows "psafe (select_tried_loop fuel F nNow k am) (\<lambda>a. \<exists>n i. mapInfo am n = Some i \<and> fInTried i \<and> a = CAddress.truncate i)"
proof (induction fuel arbitrary: k)
  case 0
  then show ?case by (simp add: psafe_stuck)
next
  case (Suc fuel)
  note I = am_invD [OF inv]
  let ?Q = "\<lambda>a. \<exists>n i. mapInfo am n = Some i \<and> fInTried i \<and> a = CAddress.truncate i"
  have len: "length (vvTried am) = 64" using I(3) by (simp add: tried_ok_def addrman_consts)
  have bucket: "psafe (rbind (rand_int (int (length v))) (\<lambda>nPos.
         case mapInfo am (v ! nat nPos) of
           None \<Rightarrow> lift (Inl AssertFailed)
         | Some info \<Rightarrow> rbind (rand_int (2 ^ 30)) (\<lambda>r.
             if fp_accept F k info nNow r then ret (CAddress.truncate info)
             else select_tried_loop fuel F nNow (k + 1) am))) ?Q"
    if v: "length v \<le> 64" "set v \<subseteq> tried_ids (mapInfo am)" "length v \<noteq> 0" for v
  proof (rule psafe_bind [OF safe_psafe [OF safe_rand]])
    fix q assume q: "0 \<le> q \<and> q < int (length v)"
    then have "v ! nat q \<in> set v" by (simp add: nat_less_iff)
    then obtain i where i: "mapInfo am (v ! nat q) = Some i" "fInTried i" using v(2) by (auto simp: tried_ids_def)
    have "psafe (rbind (rand_int (2 ^ 30)) (\<lambda>r. if fp_accept F k i nNow r then ret (CAddress.truncate i)
             else select_tried_loop fuel F nNow (k + 1) am)) ?Q"
      by (rule psafe_bind [OF safe_psafe [OF safe_rand]]) (use Suc.IH i in \<open>auto intro: psafe_ret\<close>)
    with i show "psafe (case mapInfo am (v ! nat q) of
           None \<Rightarrow> lift (Inl AssertFailed)
         | Some info \<Rightarrow> rbind (rand_int (2 ^ 30)) (\<lambda>r.
             if fp_accept F k info nNow r then ret (CAddress.truncate info)
             else select_tried_loop fuel F nNow (k + 1) am)) ?Q" by simp
  qed (use v in auto)
  show ?case
    unfolding select_tried_loop.simps Let_def
  proof (rule psafe_bind [OF safe_psafe [OF safe_rand]])
    fix b assume b: "0 \<le> b \<and> b < int (length (vvTried am))"
    then have "nat b < 64" using len by auto
    then have "length (vvTried am ! nat b) \<le> 64" "set (vvTried am ! nat b) \<subseteq> tried_ids (mapInfo am)"
      using tried_ok_nth [OF I(3)] by blast+
    from bucket [OF this] Suc.IH [of k]
    show "psafe (if length (vvTried am ! nat b) = 0 then select_tried_loop fuel F nNow k am
       else rbind (rand_int (int (length (vvTried am ! nat b)))) (\<lambda>nPos.
         case mapInfo am (vvTried am ! nat b ! nat nPos) of
           None \<Rightarrow> lift (Inl AssertFailed)
         | Some info \<Rightarrow> rbind (rand_int (2 ^ 30)) (\<lambda>r.
             if fp_accept F k info nNow r then ret (CAddress.truncate info)
             else select_tried_loop fuel F nNow (k + 1) am))) ?Q" by simp
  qed (use len in auto)
qed

lemma select_new_loop_ok:
  assumes inv: "am_inv None am"
  shows "psafe (select_new_loop fuel F nNow k am) (\<lambda>a. \<exists>n i. mapInfo am n = Some i \<and> \<not> fInTried i \<and> a = CAddress.truncate i)"
proof (induction fuel arbitrary: k)
  case 0
  then show ?case by (simp add: psafe_stuck)
next
  case (Suc fuel)
  let ?Q = "\<lambda>a. \<exists>n i. mapInfo am n = Some i \<and> \<not> fInTried i \<and> a = CAddress.truncate i"
  have len: "length (vvNew am) = 256" using bucket_facts(4) [OF inv, of 0] by simp
  have bucket: "psafe (rbind (rand_int (int (card (vvNew am ! b)))) (\<lambda>nPos.
         case mapInfo am (sorted_list_of_set (vvNew am ! b) ! nat nPos) of
           None \<Rightarrow> lift (Inl AssertFailed)
         | Some info \<Rightarrow> rbind (rand_int (2 ^ 30)) (\<lambda>r.
             if fp_accept F k info nNow r then ret (CAddress.truncate info)
             else select_new_loop fuel F nNow (k + 1) am))) ?Q"
    if b: "b < 256" "card (vvNew am ! b) \<noteq> 0" for b
  proof (rule psafe_bind [OF safe_psafe [OF safe_rand]])
    note B = bucket_facts [OF inv b(1)]
    fix q assume q: "0 \<le> q \<and> q < int (card (vvNew am ! b))"
    then have "sorted_list_of_set (vvNew am ! b) ! nat q \<in> set (sorted_list_of_set (vvNew am ! b))"
      using B(1) by (intro nth_mem) (simp add: nat_less_iff)
    then obtain i where i: "mapInfo am (sorted_list_of_set (vvNew am ! b) ! nat q) = Some i" "\<not> fInTried i"
      using B(1,3) by auto
    have "psafe (rbind (rand_int (2 ^ 30)) (\<lambda>r. if fp_accept F k i nNow r then ret (CAddress.truncate i)
             else select_new_loop fuel F nNow (k + 1) am)) ?Q"
      by (rule psafe_bind [OF safe_psafe [OF safe_rand]]) (use Suc.IH i in \<open>auto intro: psafe_ret\<close>)
    with i show "psafe (case mapInfo am (sorted_list_of_set (vvNew am ! b) ! nat q) of
           None \<Rightarrow> lift (Inl AssertFailed)
         | Some info \<Rightarrow> rbind (rand_int (2 ^ 30)) (\<lambda>r.
             if fp_accept F k info nNow r then ret (CAddress.truncate info)
             else select_new_loop fuel F nNow (k + 1) am)) ?Q" by simp
  qed (use b bucket_facts(2) [OF inv b(1)] in auto)
  show ?case
    unfolding select_new_loop.simps Let_def
  proof (rule psafe_bind [OF safe_psafe [OF safe_rand]])
    fix b assume b: "0 \<le> b \<and> b < int (length (vvNew am))"
    then have "nat b < 256" using len by auto
    from bucket [OF this] Suc.IH [of k]
    show "psafe (if card (vvNew am ! nat b) = 0 then select_new_loop fuel F nNow k am
       else rbind (rand_int (int (card (vvNew am ! nat b)))) (\<lambda>nPos.
         case mapInfo am (sorted_list_of_set (vvNew am ! nat b) ! nat nPos) of
           None \<Rightarrow> lift (Inl AssertFailed)
         | Some info \<Rightarrow> rbind (rand_int (2 ^ 30)) (\<lambda>r.
             if fp_accept F k info nNow r then ret (CAddress.truncate info)
             else select_new_loop fuel F nNow (k + 1) am))) ?Q" by simp
  qed (use len in auto)
qed

subsection \<open>Reachable states\<close>

text \<open>The public operations, each with the draws it was given; a call that uses up its draws has not
  returned and gives no new state.  Times are those of a clock past 1970, and the identifiers
  have not reached the end of \<open>int\<close>.\<close>

inductive am_reach :: "'c bucket_env \<Rightarrow> CAddrMan \<Rightarrow> bool" for E where
  init: "am_reach E (CAddrMan_make key)"
| add: "\<lbrakk> am_reach E am; nIdCount am + 1 < 2 ^ 31; AM_Add E nNow addr src pen am d = Inr ((fRet, am'), d') \<rbrakk> \<Longrightarrow> am_reach E am'"
| good: "\<lbrakk> am_reach E am; 0 < t; AM_Good E (addr :: CService) t am d = Inr (am', d') \<rbrakk> \<Longrightarrow> am_reach E am'"
| attempt: "\<lbrakk> am_reach E am; 0 \<le> t \<rbrakk> \<Longrightarrow> am_reach E (AM_Attempt (addr :: CService) t am)"
| connected: "am_reach E am \<Longrightarrow> am_reach E (AM_Connected (addr :: CService) t am)"
| getaddr: "\<lbrakk> am_reach E am; AM_GetAddr am d = Inr ((vAddr, am'), d') \<rbrakk> \<Longrightarrow> am_reach E am'"

lemma AM_GetAddr_ok:
  assumes inv: "am_inv None am" and n: "n = min (23 * length (vRandom am) div 100) 2500"
  shows "safe 2500 (AM_GetAddr am) (\<lambda>(va, am'). am_inv None am' \<and> va = first_addrs n am'
    \<and> length (vRandom am') = length (vRandom am) \<and> nIdCount am' = nIdCount am)"
proof -
  have le: "0 + n \<le> length (vRandom am)" using n by auto
  have "safe n (getaddr_loop n 0 [] am) (\<lambda>(va, am'). am_inv None am' \<and> va = first_addrs (0 + n) am'
    \<and> length (vRandom am') = length (vRandom am) \<and> nIdCount am' = nIdCount am)"
    by (rule getaddr_loop_ok [OF inv le]) (simp add: first_addrs_def)
  then have "safe 2500 (getaddr_loop n 0 [] am) (\<lambda>(va, am'). am_inv None am' \<and> va = first_addrs n am'
    \<and> length (vRandom am') = length (vRandom am) \<and> nIdCount am' = nIdCount am)"
    by (rule safe_mono) (use n in auto)
  then show ?thesis by (simp add: AM_GetAddr_def addrman_consts n)
qed

lemma am_reach_inv: "am_reach E am \<Longrightarrow> am_inv None am"
proof (induction rule: am_reach.induct)
  case (init key)
  show ?case by (rule am_inv_make)
next
  case (add am nNow addr src pen d fRet am' d')
  then show ?case using safe_result [OF AM_Add_ok [OF add.IH add.hyps(2)] add.hyps(3)] by simp
next
  case (good am t addr d am' d')
  then show ?case using safe_result [OF AM_Good_ok [OF good.IH good.hyps(2)] good.hyps(3)] by simp
next
  case (attempt am t addr)
  then show ?case by (simp add: AM_Attempt_ok)
next
  case (connected am addr t)
  then show ?case by (simp add: AM_Connected_ok)
next
  case (getaddr am d vAddr am' d')
  then show ?case using safe_result [OF AM_GetAddr_ok [OF getaddr.IH refl] getaddr.hyps(2)] by simp
qed

subsection \<open>Groups and buckets\<close>

lemma card_image_mod: "card (f ` ((\<lambda>x. g x mod k) ` A)) \<le> (k :: nat)" if "0 < k"
proof -
  have "(\<lambda>x. g x mod k) ` A \<subseteq> {..<k}" using that by auto
  then have "card ((\<lambda>x. g x mod k) ` A) \<le> k" by (metis card_lessThan card_mono finite_lessThan)
  moreover have "finite ((\<lambda>x. g x mod k) ` A)" using \<open>_ \<subseteq> {..<k}\<close> by (rule finite_subset) simp
  ultimately show ?thesis by (meson card_image_le le_trans)
qed

subsection \<open>Properties\<close>

text \<open>C1. The consistency check of the address manager reports no error in any state that the public
  operations reach, the buckets keep their limits (which the check leaves out), and every stored
  address is found under the identifier that stores it.\<close>

theorem AddrMan_consistent:
  assumes "am_reach E am"
  shows "AM_Check am = (0, am)
    \<and> length (vvTried am) = 64 \<and> (\<forall>v\<in>set (vvTried am). length v \<le> 64)
    \<and> length (vvNew am) = 256 \<and> (\<forall>s\<in>set (vvNew am). card s \<le> 64)
    \<and> (\<forall>n i. mapInfo am n = Some i \<longrightarrow> Find i am = Some (n, i))"
proof -
  note inv = am_reach_inv [OF assms]
  note I = am_invD [OF inv]
  have "Find i am = Some (n, i)" if "mapInfo am n = Some i" for n i
  proof -
    have "mapAddr am (ip_key i) = Some n" using I(1) that by (auto simp: index_ok_def)
    with that show ?thesis by (simp add: Find_def)
  qed
  then show ?thesis using AM_Check_ok [OF inv] I(3,4) by (auto simp: tried_ok_def new_ok_def addrman_consts)
qed

definition demo_env :: "bytes bucket_env" where
  "demo_env = \<lparr> be_sha = demo_sha, be_nc = demo_nc, be_put_vch = (\<lambda>v. v), be_put_u64 = le_bytes 8,
     be_get64 = ucast, be_proto = demo_proto \<rparr>"

definition demo_addr :: CAddress where
  "demo_addr = CAddress_make demo_proto (CService_make (CNetAddr_of_in_addr [8, 8, 4, 4]) 8333) 1"

lemma demo_reach:
  "\<exists>am. AM_Add demo_env 100000100 demo_addr (CNetAddr_of_in_addr [9, 9, 9, 9]) 0 (CAddrMan_make []) (replicate 5 0)
      = Inr ((True, am), replicate 5 0) \<and> am_reach demo_env am \<and> length (vRandom am) = 1 \<and> nIdCount am = 1"
proof -
  have "IsRoutable demo_addr" by code_simp
  then obtain am where a: "AM_Add demo_env 100000100 demo_addr (CNetAddr_of_in_addr [9, 9, 9, 9]) 0 (CAddrMan_make []) (replicate 5 0)
      = Inr ((True, am), replicate 5 0)" "length (vRandom am) = 1 \<and> nIdCount am = 1"
    by (simp add: AM_Add_def Find_def CAddrMan_make_def Create_def Let_def add_to_bucket_def addrman_consts
        rbind_def ret_def upd_info_def GetNewBucket_def)
  have "am_reach demo_env am"
    by (rule am_reach.add [OF am_reach.init _ a(1)]) (simp add: CAddrMan_make_def)
  with a show ?thesis by blast
qed

theorem AddrMan_consistent_witness:
  "\<exists>am. am_reach demo_env am \<and> length (vRandom am) = 1 \<and> AM_Check am = (0, am)"
  using demo_reach AddrMan_consistent by blast



text \<open>\<open>GetAddr_\<close> hands out 23 percent of the table, at most 2500 addresses, no two of them for the
  same host, and each one an entry of the table.\<close>

theorem GetAddr_sample:
  assumes r: "am_reach E am" and g: "AM_GetAddr am d = Inr ((vAddr, am'), d')"
  shows "length vAddr = min (23 * length (vRandom am) div 100) 2500 \<and> distinct (map ip_key vAddr)
    \<and> (\<forall>a\<in>set vAddr. \<exists>n i. Find a am' = Some (n, i) \<and> a = CAddress.truncate i)
    \<and> length (vRandom am') = length (vRandom am)"
proof -
  define n where "n = min (23 * length (vRandom am) div 100) 2500"
  have R: "am_inv None am'" "vAddr = first_addrs n am'" "length (vRandom am') = length (vRandom am)"
    using safe_result [OF AM_GetAddr_ok [OF am_reach_inv [OF r] n_def] g] by auto
  have "n \<le> length (vRandom am')" using R(3) by (auto simp: n_def)
  from first_addrs_facts [OF R(1) this] show ?thesis using R(2,3) by (auto simp: n_def)
qed

theorem GetAddr_sample_witness:
  "\<exists>am am' vAddr. am_reach demo_env am \<and> AM_GetAddr am [] = Inr ((vAddr, am'), []) \<and> length (vRandom am') = 1 \<and> distinct (map ip_key vAddr)"
proof -
  obtain am where am: "am_reach demo_env am" "length (vRandom am) = 1" using demo_reach by blast
  then have g: "AM_GetAddr am [] = Inr (([], am), [])" by (simp add: AM_GetAddr_def addrman_consts ret_def)
  from GetAddr_sample [OF am(1) g] am g show ?thesis by (intro exI [of _ am]) auto
qed

text \<open>\<open>Select_\<close> returns the default address exactly on an empty table; otherwise what it returns is
  an entry of the table, a tried one when the bias decided for the tried table and a new one
  when not, and the only way not to return is to go on drawing.\<close>

theorem Select_entry:
  assumes r: "am_reach E am"
  shows "(vRandom am = [] \<longrightarrow> AM_Select P F nNow bias am d = Inr (CAddress_Init P, d))
    \<and> (vRandom am \<noteq> [] \<longrightarrow> AM_Select P F nNow bias am d = Inl NoReturn
       \<or> (\<exists>rd n i d'. AM_Select P F nNow bias am d = Inr (CAddress.truncate i, d')
            \<and> mapInfo am n = Some i \<and> fInTried i = fp_use_tried F (nTried am) (nNew am) bias rd))"
proof -
  note inv = am_reach_inv [OF r]
  have "psafe (\<lambda>d. rbind (rand_int (2 ^ 30)) (\<lambda>rd.
             if fp_use_tried F (nTried am) (nNew am) bias rd
             then select_tried_loop k F nNow 0 am else select_new_loop k F nNow 0 am) d)
      (\<lambda>a. \<exists>rd n i. mapInfo am n = Some i \<and> fInTried i = fp_use_tried F (nTried am) (nNew am) bias rd \<and> a = CAddress.truncate i)" for k
  proof (rule psafe_bind [OF safe_psafe [OF safe_rand]])
    fix rd :: int32
    show "psafe (if fp_use_tried F (nTried am) (nNew am) bias rd
             then select_tried_loop k F nNow 0 am else select_new_loop k F nNow 0 am)
      (\<lambda>a. \<exists>rd n i. mapInfo am n = Some i \<and> fInTried i = fp_use_tried F (nTried am) (nNew am) bias rd \<and> a = CAddress.truncate i)"
    proof (cases "fp_use_tried F (nTried am) (nNew am) bias rd")
      case True
      then show ?thesis by simp (rule psafe_mono [OF select_tried_loop_ok [OF inv]], blast)
    next
      case False
      then show ?thesis by simp (rule psafe_mono [OF select_new_loop_ok [OF inv]], blast)
    qed
  qed auto
  note cases = psafe_cases [OF this [of "length d"], of d]
  show ?thesis
  proof (rule conjI; rule impI)
    assume "vRandom am \<noteq> []"
    then have S: "AM_Select P F nNow bias am d = rbind (rand_int (2 ^ 30)) (\<lambda>rd.
             if fp_use_tried F (nTried am) (nNew am) bias rd
             then select_tried_loop (length d) F nNow 0 am else select_new_loop (length d) F nNow 0 am) d"
      by (simp add: AM_Select_def)
    show "AM_Select P F nNow bias am d = Inl NoReturn
       \<or> (\<exists>rd n i d'. AM_Select P F nNow bias am d = Inr (CAddress.truncate i, d')
            \<and> mapInfo am n = Some i \<and> fInTried i = fp_use_tried F (nTried am) (nNew am) bias rd)"
      unfolding S by (rule cases) blast+
  qed (simp add: AM_Select_def ret_def)
qed

theorem Select_entry_witness:
  "AM_Select demo_proto \<lparr> fp_use_tried = (\<lambda>_ _ _ _. False), fp_accept = (\<lambda>_ _ _ _. True) \<rparr> 0 50 (CAddrMan_make []) []
     = Inr (CAddress_Init demo_proto, [])"
  using Select_entry [OF am_reach.init [of _ "[]"],
      of demo_proto "\<lparr> fp_use_tried = (\<lambda>_ _ _ _. False), fp_accept = (\<lambda>_ _ _ _. True) \<rparr>" 0 50 "[]"] by (simp add: CAddrMan_make_def)

text \<open>C3. Against an attacker with one range of addresses: for a fixed key, all addresses of one group
  reach at most 4 of the 64 tried buckets, and all addresses announced by sources of one group
  reach at most 32 of the 256 new buckets.\<close>

theorem bucket_limits:
  "card {GetTriedBucket E key a | a :: CService. GetGroup (be_nc E) a = g} \<le> 4
   \<and> card {GetNewBucket E key (a :: CService) (s :: CNetAddr) | a s. GetGroup (be_nc E) s = g} \<le> 32"
proof (rule conjI)
  define h where "h a = hash64 E (be_put_vch E key @ be_put_vch E (Service_GetKey a))" for a :: CService
  define f where "f x = hash64 E (be_put_vch E key @ be_put_vch E g @ be_put_u64 E (word_of_nat x)) mod 64" for x
  have "{GetTriedBucket E key a | a :: CService. GetGroup (be_nc E) a = g}
      = f ` ((\<lambda>a. h a mod 4) ` {a. GetGroup (be_nc E) a = g})"
    by (auto simp: GetTriedBucket_def Let_def f_def h_def addrman_consts image_image)
  then show "card {GetTriedBucket E key a | a :: CService. GetGroup (be_nc E) a = g} \<le> 4"
    using card_image_mod [of 4 f h] by simp
next
  define h where "h p = hash64 E (be_put_vch E key @ be_put_vch E (GetGroup (be_nc E) (fst p)) @ be_put_vch E g)" for p :: "CService \<times> CNetAddr"
  define f where "f x = hash64 E (be_put_vch E key @ be_put_vch E g @ be_put_u64 E (word_of_nat x)) mod 256" for x
  have "GetNewBucket E key a s = f (h (a, s) mod 32)" if "GetGroup (be_nc E) s = g" for a :: CService and s :: CNetAddr
    using that by (simp add: GetNewBucket_def Let_def f_def h_def addrman_consts)
  then have "{GetNewBucket E key (a :: CService) (s :: CNetAddr) | a s. GetGroup (be_nc E) s = g}
      = (\<lambda>p. f (h p mod 32)) ` {p. GetGroup (be_nc E) (snd p) = g}"
    by (intro set_eqI iffI) (auto intro!: rev_image_eqI [of "(_, _)"], metis prod.collapse)
  then have "{GetNewBucket E key (a :: CService) (s :: CNetAddr) | a s. GetGroup (be_nc E) s = g}
      = f ` ((\<lambda>p. h p mod 32) ` {p. GetGroup (be_nc E) (snd p) = g})"
    by (simp only: image_image)
  then show "card {GetNewBucket E key (a :: CService) (s :: CNetAddr) | a s. GetGroup (be_nc E) s = g} \<le> 32"
    using card_image_mod [of 32 f h] by simp
qed

text \<open>\<open>SelectTried\<close> does not return the position of the entry it selects.  It swaps the entry it
  looks at to the front but records the position it came from, which now holds the other entry:
  here the bucket holds entries with last successes 9 and 3, both are inspected, and the
  position returned is that of the entry with last success 9.\<close>

theorem SelectTried_wrong_position:
  "\<exists>am am'. vvTried am ! 0 = [0, 1] \<and> map_option nLastSuccess (mapInfo am 0) = Some 9
     \<and> map_option nLastSuccess (mapInfo am 1) = Some 3
     \<and> SelectTried P 0 am [1, 0] = Inr ((1, am'), []) \<and> vvTried am' ! 0 ! 1 = 0"
proof -
  define e where "e t = (CAddrInfo_default P) \<lparr> nLastSuccess := t, fInTried := True \<rparr>" for t
  define am where "am = (CAddrMan_make []) \<lparr> mapInfo := [0 \<mapsto> e 9, 1 \<mapsto> e 3], vvTried := (replicate 64 [])[0 := [0, 1]] \<rparr>"
  have r2: "rand_int 2 [1, 0] = Inr (1, [0])" by code_simp
  have r1: "rand_int 1 [0] = Inr (0, [])" by code_simp
  have "SelectTried P 0 am [1, 0] = Inr ((1, am \<lparr> vvTried := (replicate 64 [])[0 := [1, 0]] \<rparr>), [])"
    by (simp add: SelectTried_def am_def select_loop.simps Let_def addrman_consts rbind_def guard_def r1 r2 ret_def e_def)
  then show ?thesis
    by (intro exI [of _ am] exI [of _ "am \<lparr> vvTried := (replicate 64 [])[0 := [1, 0]] \<rparr>"]) (simp add: am_def e_def)
qed

end
