(* ===== verification/Validation.thy ===== *)
theory Validation
  imports Merkle BigNum Util
begin

text \<open>
  The rules that decide on transactions and blocks (\<open>dust_coin/bitcoin_messages_handlers.cpp\<close>) and
  the checkpoints (\<open>checkpoints.cpp\<close>).  A rejected object is the penalty that \<open>state.DoS\<close> or
  \<open>state.Invalid\<close> (penalty zero) records, with the message; an accepted one is \<open>None\<close>.  What the
  missing headers define (limits, serialised sizes, hashes, script operations, the median time of a
  block index) is a record of parameters.
\<close>

record chain_env =
  ce_txhash :: "CTransaction \<Rightarrow> uint256"
  ce_merkle :: "uint256 \<Rightarrow> uint256 \<Rightarrow> uint256"
  ce_header_hash :: "CBlockHeader \<Rightarrow> uint256"
  ce_tx_size :: "CTransaction \<Rightarrow> nat"
  ce_block_size :: "CBlock \<Rightarrow> nat"
  ce_sigops :: "CScript \<Rightarrow> uint32"
  ce_push_int :: "int32 \<Rightarrow> CScript"
  ce_money_range :: "int64 \<Rightarrow> bool"
  ce_max_money :: int64
  ce_max_block_size :: nat
  ce_max_sigops :: uint32
  ce_locktime_threshold :: int64
  ce_testnet :: bool
  ce_bn :: bn_ops

definition chain_ok :: "chain_env \<Rightarrow> bool" where
  "chain_ok E \<longleftrightarrow> (\<forall>n. ce_money_range E n \<longleftrightarrow> 0 \<le> n \<and> n \<le> ce_max_money E) \<and> 0 \<le> ce_max_money E
     \<and> ce_max_money E < 2 ^ 62 \<and> bn_ok (ce_bn E)"

lemma chain_okD:
  assumes "chain_ok E"
  shows "ce_money_range E n \<longleftrightarrow> 0 \<le> n \<and> n \<le> ce_max_money E" "0 \<le> ce_max_money E" "ce_max_money E < 2 ^ 62" "bn_ok (ce_bn E)"
  using assms by (auto simp: chain_ok_def)

type_synonym verdict = "(int32 \<times> string) option"

subsection \<open>Transactions\<close>

definition IsFinalTx :: "chain_env \<Rightarrow> int32 \<Rightarrow> int64 \<Rightarrow> CTransaction \<Rightarrow> int32 \<Rightarrow> int64 \<Rightarrow> bool" where
  "IsFinalTx E nBestHeight nAdjustedTime tx nBlockHeight nBlockTime \<longleftrightarrow>
     (if nLockTime tx = 0 then True
      else
        let h = (if nBlockHeight = 0 then nBestHeight else nBlockHeight);
            t = (if nBlockTime = 0 then nAdjustedTime else nBlockTime);
            lock = uint (nLockTime tx)
        in if lock < (if lock < ce_locktime_threshold E then h else t) then True
           else list_all CTxIn_IsFinal (vin tx))"

fun check_values :: "chain_env \<Rightarrow> int64 \<Rightarrow> CTxOut list \<Rightarrow> verdict" where
  "check_values E nValueOut [] = None"
| "check_values E nValueOut (txout # vs) =
     (if nValue txout < 0 then Some (100, ''CheckTransaction() : txout.nValue negative'')
      else if nValue txout > ce_max_money E then Some (100, ''CheckTransaction() : txout.nValue too high'')
      else if \<not> ce_money_range E (nValueOut + nValue txout)
        then Some (100, ''CTransaction::CheckTransaction() : txout total out of range'')
      else check_values E (nValueOut + nValue txout) vs)"

fun check_inputs :: "COutPoint set \<Rightarrow> CTxIn list \<Rightarrow> verdict" where
  "check_inputs vInOutPoints [] = None"
| "check_inputs vInOutPoints (txin # ins) =
     (if prevout txin \<in> vInOutPoints
      then Some (100, ''CTransaction::CheckTransaction() : duplicate inputs'')
      else check_inputs (insert (prevout txin) vInOutPoints) ins)"

definition or_else :: "verdict \<Rightarrow> verdict \<Rightarrow> verdict" where
  "or_else a b = (case a of None \<Rightarrow> b | Some _ \<Rightarrow> a)"

lemma or_else_None [simp]: "or_else a b = None \<longleftrightarrow> a = None \<and> b = None" "or_else None b = b"
  by (auto simp: or_else_def split: option.splits)

definition CheckTransaction :: "chain_env \<Rightarrow> CTransaction \<Rightarrow> verdict" where
  "CheckTransaction E tx =
     (if vin tx = [] then Some (10, ''CheckTransaction() : vin empty'')
      else if vout tx = [] then Some (10, ''CheckTransaction() : vout empty'')
      else if ce_tx_size E tx > ce_max_block_size E
        then Some (100, ''CTransaction::CheckTransaction() : size limits failed'')
      else or_else (check_values E 0 (vout tx))
          (or_else (check_inputs {} (vin tx))
            (if IsCoinBase tx then
               (if length (scriptSig (hd (vin tx))) < 2 \<or> length (scriptSig (hd (vin tx))) > 100
                then Some (100, ''CheckTransaction() : coinbase script size'') else None)
             else if list_ex (\<lambda>txin. COutPoint_IsNull (prevout txin)) (vin tx)
               then Some (10, ''CheckTransaction() : prevout is null'') else None)))"

definition GetLegacySigOpCount :: "chain_env \<Rightarrow> CTransaction \<Rightarrow> uint32" where
  "GetLegacySigOpCount E tx =
     fold (\<lambda>txout n. n + ce_sigops E (scriptPubKey txout)) (vout tx)
       (fold (\<lambda>txin n. n + ce_sigops E (scriptSig txin)) (vin tx) 0)"

subsection \<open>Proof of work\<close>

definition nTargetSpacing :: int64 where "nTargetSpacing = 10 * 60"
definition nTargetTimespan :: int64 where "nTargetTimespan = 14 * 24 * 60 * 60"

definition bnProofOfWorkLimit :: "chain_env \<Rightarrow> CBigNum" where
  "bnProofOfWorkLimit E = setuint256 (ce_bn E) (drop_bit 32 (NOT 0))"

definition CheckProofOfWork :: "chain_env \<Rightarrow> uint256 \<Rightarrow> uint32 \<Rightarrow> bool" where
  "CheckProofOfWork E hash nBits =
     (let B = ce_bn E; bnTarget = SetCompact B nBits in
      if BN_cmp B bnTarget 0 \<le> 0 \<or> BN_cmp B bnTarget (bnProofOfWorkLimit E) > 0 then False
      else if hash > getuint256 B bnTarget then False
      else True)"

text \<open>The loop of \<open>ComputeMinWork\<close> stops because every round takes eight weeks off \<open>nTime\<close>.\<close>

function min_work_loop :: "chain_env \<Rightarrow> CBigNum \<Rightarrow> int64 \<Rightarrow> CBigNum res" where
  "min_work_loop E bnResult t =
     (if t > 0 \<and> bn_less (ce_bn E) bnResult (bnProofOfWorkLimit E)
      then bind_res (bn_times (ce_bn E) bnResult 4) (\<lambda>r. min_work_loop E r (t - nTargetTimespan * 4))
      else Inr bnResult)"
  by pat_completeness auto
termination
  by (relation "measure (\<lambda>(E, r, t). nat t)") (auto simp: nTargetTimespan_def)

declare min_work_loop.simps [simp del]

definition ComputeMinWork :: "chain_env \<Rightarrow> uint32 \<Rightarrow> int64 \<Rightarrow> uint32 res" where
  "ComputeMinWork E nBase t =
     (let B = ce_bn E in
      if ce_testnet E \<and> t > nTargetSpacing * 2 then Inr (GetCompact B (bnProofOfWorkLimit E))
      else bind_res (min_work_loop E (SetCompact B nBase) t) (\<lambda>bnResult.
        Inr (GetCompact B (if BN_cmp B bnResult (bnProofOfWorkLimit E) > 0 then bnProofOfWorkLimit E else bnResult))))"

subsection \<open>Blocks\<close>

definition Block_GetHash :: "chain_env \<Rightarrow> 'a CBlockHeader_scheme \<Rightarrow> uint256" where
  "Block_GetHash E b = ce_header_hash E (CBlockHeader.truncate b)"

fun check_txs :: "chain_env \<Rightarrow> CTransaction list \<Rightarrow> verdict" where
  "check_txs E [] = None"
| "check_txs E (tx # txs) = or_else (CheckTransaction E tx) (check_txs E txs)"

text \<open>The transaction hashes that \<open>GetTxHash\<close> reads off the tree just built.\<close>

fun tx_hashes :: "CBlock \<Rightarrow> nat list \<Rightarrow> uint256 set \<Rightarrow> uint256 set res" where
  "tx_hashes b [] S = Inr S"
| "tx_hashes b (i # is) S = bind_res (GetTxHash b i) (\<lambda>h. tx_hashes b is (insert h S))"

definition CheckBlock :: "chain_env \<Rightarrow> int64 \<Rightarrow> CBlock \<Rightarrow> bool \<Rightarrow> bool \<Rightarrow> (verdict \<times> CBlock) res" where
  "CheckBlock E nAdjustedTime b fCheckPOW fCheckMerkleRoot =
     (if vtx b = [] \<or> length (vtx b) > ce_max_block_size E \<or> ce_block_size E b > ce_max_block_size E
        then Inr (Some (100, ''CheckBlock() : size limits failed''), b)
      else if fCheckPOW \<and> \<not> CheckProofOfWork E (Block_GetHash E b) (bh_nBits b)
        then Inr (Some (50, ''CheckBlock() : proof of work failed''), b)
      else if GetBlockTime b > nAdjustedTime + 2 * 60 * 60
        then Inr (Some (0, ''CheckBlock() : block timestamp too far in the future''), b)
      else if vtx b = [] \<or> \<not> IsCoinBase (hd (vtx b))
        then Inr (Some (100, ''CheckBlock() : first tx is not coinbase''), b)
      else if list_ex IsCoinBase (tl (vtx b))
        then Inr (Some (100, ''CheckBlock() : more than one coinbase''), b)
      else case check_txs E (vtx b) of
        Some r \<Rightarrow> Inr (Some r, b)
      | None \<Rightarrow>
          (let (root, b1) = BuildMerkleTree (ce_txhash E) (ce_merkle E) b in
           bind_res (tx_hashes b1 [0..<length (vtx b1)] {}) (\<lambda>uniqueTx.
             if card uniqueTx \<noteq> length (vtx b1)
               then Inr (Some (100, ''CheckBlock() : duplicate transaction''), b1)
             else if fold (\<lambda>tx n. n + GetLegacySigOpCount E tx) (vtx b1) 0 > ce_max_sigops E
               then Inr (Some (100, ''CheckBlock() : out-of-bounds SigOpCount''), b1)
             else if fCheckMerkleRoot \<and> hashMerkleRoot b1 \<noteq> fst (BuildMerkleTree (ce_txhash E) (ce_merkle E) b1)
               then Inr (Some (100, ''CheckBlock() : hashMerkleRoot mismatch''), b1)
             else Inr (None, b1))))"

subsection \<open>Checkpoints\<close>

definition mapCheckpoints :: "(int32 \<times> uint256) list" where
  "mapCheckpoints =
     [(11111, 0x0000000069e244f73d78e8fd29ba2fd2ed618bd6fa2ee92559f542fdb26e7c1d),
      (33333, 0x000000002dd5588a74784eaa7ab0507a18ad16a236e7b1ce69f00d7ddfb5d0a6),
      (74000, 0x0000000000573993a3c9e41ce34471c079dcf5f52a0e824a81e7f953b8661a20),
      (105000, 0x00000000000291ce28027faea320c8d2b054b2e0fe44a773f3eefb151d6bdc97),
      (134444, 0x00000000000005b12ffd4cd315cd34ffd4a594f430ac814c91184a0d42d2b0fe),
      (168000, 0x000000000000099e61ea72015e79632f216fe6cb33d7899acb35b75c8303b763),
      (193000, 0x000000000000059f452a5f7340de6682a977387c17010ff6e6c3bd83ca8b1317),
      (210000, 0x000000000000048b95347e83192f69cf0366076336c639f9b7228e9ba171342e),
      (216116, 0x00000000000001b4f4b433e81ee46494af945cf96014816a4e2370f11b23df4e),
      (225430, 0x00000000000001c108384350f74090433e7fcf79a606b8e797f065b130575932)]"

definition mapCheckpointsTestnet :: "(int32 \<times> uint256) list" where
  "mapCheckpointsTestnet = [(546, 0x000000002a936ca763904c3c35fce2f3556c559c0214345d31b1bcebf76acb70)]"

definition Checkpoints :: "bool \<Rightarrow> (int32 \<times> uint256) list" where
  "Checkpoints fTestNet = (if fTestNet then mapCheckpointsTestnet else mapCheckpoints)"

definition Checkpoints_CheckBlock :: "bool \<Rightarrow> bool \<Rightarrow> int32 \<Rightarrow> uint256 \<Rightarrow> bool" where
  "Checkpoints_CheckBlock fEnabled fTestNet nHeight hash =
     (if \<not> fEnabled then True
      else case map_of (Checkpoints fTestNet) nHeight of None \<Rightarrow> True | Some h \<Rightarrow> hash = h)"

definition GetTotalBlocksEstimate :: "bool \<Rightarrow> bool \<Rightarrow> int32" where
  "GetTotalBlocksEstimate fEnabled fTestNet = (if \<not> fEnabled then 0 else fst (last (Checkpoints fTestNet)))"

text \<open>A pointer to a block index is the hash under which \<open>mapBlockIndex\<close> holds it.  The last field is
  the value of \<open>GetMedianTimePast\<close>, which is defined in a missing header.\<close>

record CBlockIndex =
  bi_nVersion :: int32
  bi_nHeight :: int32
  bi_nTime :: uint32
  bi_nBits :: uint32
  bi_pprev :: "uint256 option"
  bi_median_time :: int64

definition GetLastCheckpoint :: "bool \<Rightarrow> bool \<Rightarrow> (uint256 \<rightharpoonup> CBlockIndex) \<Rightarrow> uint256 option" where
  "GetLastCheckpoint fEnabled fTestNet mapBlockIndex =
     (if \<not> fEnabled then None
      else List.find (\<lambda>hash. mapBlockIndex hash \<noteq> None) (map snd (rev (Checkpoints fTestNet))))"

subsection \<open>Acceptance of a block\<close>

fun super_loop :: "(uint256 \<rightharpoonup> CBlockIndex) \<Rightarrow> int32 \<Rightarrow> nat \<Rightarrow> nat \<Rightarrow> nat \<Rightarrow> uint256 option \<Rightarrow> nat" where
  "super_loop m minVersion nRequired 0 nFound pstart = nFound"
| "super_loop m minVersion nRequired (Suc n) nFound pstart =
     (if \<not> nFound < nRequired then nFound
      else case Option.bind pstart m of
        None \<Rightarrow> nFound
      | Some i \<Rightarrow> super_loop m minVersion nRequired n
                   (if bi_nVersion i \<ge> minVersion then nFound + 1 else nFound) (bi_pprev i))"

definition IsSuperMajority :: "(uint256 \<rightharpoonup> CBlockIndex) \<Rightarrow> int32 \<Rightarrow> uint256 option \<Rightarrow> nat \<Rightarrow> nat \<Rightarrow> bool" where
  "IsSuperMajority m minVersion pstart nRequired nToCheck \<longleftrightarrow>
     super_loop m minVersion nRequired nToCheck 0 pstart \<ge> nRequired"

text \<open>\<open>std::equal\<close> compares as many bytes as the first script has; a shorter second script is read
  past its end.\<close>

definition std_equal :: "'a list \<Rightarrow> 'a list \<Rightarrow> bool res" where
  "std_equal xs ys =
     (if take (length ys) xs \<noteq> take (length xs) ys then Inr False
      else if length ys < length xs then Inl OutOfRange else Inr True)"

definition coinbase_height_ok :: "chain_env \<Rightarrow> (uint256 \<rightharpoonup> CBlockIndex) \<Rightarrow> uint256 \<Rightarrow> int32 \<Rightarrow> CBlock \<Rightarrow> bool res" where
  "coinbase_height_ok E m prev nHeight b =
     (if bh_nVersion b \<ge> 2 \<and> ((\<not> ce_testnet E \<and> IsSuperMajority m 2 (Some prev) 750 1000)
          \<or> (ce_testnet E \<and> IsSuperMajority m 2 (Some prev) 51 100))
      then (case vtx b of
              [] \<Rightarrow> Inl OutOfRange
            | tx # _ \<Rightarrow> (case vin tx of [] \<Rightarrow> Inl OutOfRange
                         | txin # _ \<Rightarrow> std_equal (ce_push_int E nHeight) (scriptSig txin)))
      else Inr True)"

definition AcceptBlock ::
  "chain_env \<Rightarrow> bool \<Rightarrow> uint256 \<Rightarrow> int32 \<Rightarrow> int64 \<Rightarrow> (uint256 \<rightharpoonup> CBlockIndex) \<Rightarrow> CBlock \<Rightarrow> verdict res" where
  "AcceptBlock E fCheckpoints hashGenesisBlock nBestHeight nAdjustedTime m b =
     (let hash = Block_GetHash E b in
      if m hash \<noteq> None then Inr (Some (0, ''AcceptBlock() : block already in mapBlockIndex''))
      else if hash = hashGenesisBlock then Inr None
      else case m (hashPrevBlock b) of
        None \<Rightarrow> Inr (Some (10, ''AcceptBlock() : prev block not found''))
      | Some prev \<Rightarrow>
          let nHeight = bi_nHeight prev + 1 in
          if GetBlockTime b \<le> bi_median_time prev
            then Inr (Some (0, ''AcceptBlock() : block'' @ [CHR 0x27] @ ''s timestamp is too early''))
          else if list_ex (\<lambda>tx. \<not> IsFinalTx E nBestHeight nAdjustedTime tx nHeight (GetBlockTime b)) (vtx b)
            then Inr (Some (10, ''AcceptBlock() : contains a non-final transaction''))
          else if \<not> Checkpoints_CheckBlock fCheckpoints (ce_testnet E) nHeight hash
            then Inr (Some (100, ''AcceptBlock() : rejected by checkpoint lock-in at '' @ fmt_d nHeight))
          else if bh_nVersion b < 2 \<and> ((\<not> ce_testnet E \<and> IsSuperMajority m 2 (Some (hashPrevBlock b)) 950 1000)
               \<or> (ce_testnet E \<and> IsSuperMajority m 2 (Some (hashPrevBlock b)) 75 100))
            then Inr (Some (0, ''AcceptBlock() : rejected nVersion=1 block''))
          else bind_res (coinbase_height_ok E m (hashPrevBlock b) nHeight b) (\<lambda>ok.
            if \<not> ok then Inr (Some (100, ''AcceptBlock() : block height mismatch in coinbase'')) else Inr None))"

subsection \<open>Orphan blocks\<close>

text \<open>The loop follows the previous blocks for as long as they are orphans; on a cycle of orphans it
  does not end.\<close>

partial_function (option) GetOrphanRoot :: "chain_env \<Rightarrow> (uint256 \<rightharpoonup> CBlock) \<Rightarrow> CBlock \<Rightarrow> uint256 option" where
  "GetOrphanRoot E orphans b =
     (case orphans (hashPrevBlock b) of
        None \<Rightarrow> Some (Block_GetHash E b)
      | Some p \<Rightarrow> GetOrphanRoot E orphans p)"

subsection \<open>Lemmas\<close>

lemma check_values_None:
  assumes E: "chain_ok E"
  shows "0 \<le> acc \<Longrightarrow> acc \<le> ce_max_money E \<Longrightarrow>
    check_values E acc vs = None \<longleftrightarrow> (\<forall>x\<in>set vs. 0 \<le> nValue x) \<and> acc + sum_list (map nValue vs) \<le> ce_max_money E"
proof (induction vs arbitrary: acc)
  case (Cons y vs)
  note R = chain_okD(1) [OF E]
  show ?case
  proof (cases "0 \<le> nValue y \<and> acc + nValue y \<le> ce_max_money E")
    case True
    then show ?thesis using Cons.IH [of "acc + nValue y"] Cons.prems by (auto simp: R)
  next
    case False
    have "acc + nValue y \<le> acc + sum_list (map nValue (y # vs))" if "\<forall>x\<in>set vs. 0 \<le> nValue x"
      using sum_list_nonneg [of "map nValue vs"] that by auto
    then show ?thesis using False Cons.prems by (auto simp: R)
  qed
qed simp

lemma check_inputs_None: "check_inputs S ins = None \<longleftrightarrow> distinct (map prevout ins) \<and> set (map prevout ins) \<inter> S = {}"
  by (induction ins arbitrary: S) auto

lemma check_txs_None: "check_txs E txs = None \<longleftrightarrow> (\<forall>tx\<in>set txs. CheckTransaction E tx = None)"
  by (induction txs) auto

lemma tx_hashes_built:
  assumes b1: "b1 = snd (BuildMerkleTree txhash H b)" "vtx b \<noteq> []"
  shows "set is \<subseteq> {..<length (vtx b)} \<Longrightarrow> tx_hashes b1 is S = Inr (S \<union> (\<lambda>i. txhash (vtx b ! i)) ` set is)"
proof (induction "is" arbitrary: S)
  case (Cons i "is")
  have "i < length (vtx b)" using Cons.prems by simp
  then have "GetTxHash b1 i = Inr (txhash (vtx b ! i))"
    using BuildMerkleTree_leaves b1 by blast
  with Cons show ?case by auto
qed simp

lemma merkle_root_None: "merkle_root H xs = None \<longleftrightarrow> xs = []"
proof (induction H xs rule: merkle_root.induct)
  case (1 H xs)
  have "next_level H xs \<noteq> []" if "xs \<noteq> []" using that by (cases "(H, xs)" rule: next_level.cases) auto
  then show ?case using 1 by (subst merkle_root.simps) (auto split: list.splits)
qed

lemma card_hashes:
  "card ((\<lambda>i. f (xs ! i)) ` {0..<length xs}) = length xs \<longleftrightarrow> distinct (map f xs)"
proof -
  have "(\<lambda>i. f (xs ! i)) ` {0..<length xs} = f ` (nth xs ` {0..<length xs})" by (simp add: image_image)
  also have "\<dots> = set (map f xs)" by (simp add: nth_image)
  finally have "(\<lambda>i. f (xs ! i)) ` {0..<length xs} = set (map f xs)" .
  then show ?thesis by (metis card_distinct distinct_card length_map)
qed

definition block_rules :: "chain_env \<Rightarrow> int64 \<Rightarrow> CBlock \<Rightarrow> bool" where
  "block_rules E nNow b \<longleftrightarrow> vtx b \<noteq> [] \<and> length (vtx b) \<le> ce_max_block_size E \<and> ce_block_size E b \<le> ce_max_block_size E
     \<and> GetBlockTime b \<le> nNow + 7200 \<and> IsCoinBase (hd (vtx b)) \<and> (\<forall>tx\<in>set (tl (vtx b)). \<not> IsCoinBase tx)
     \<and> (\<forall>tx\<in>set (vtx b). CheckTransaction E tx = None) \<and> distinct (map (ce_txhash E) (vtx b))
     \<and> fold (\<lambda>tx n. n + GetLegacySigOpCount E tx) (vtx b) 0 \<le> ce_max_sigops E"

lemma CheckBlock_cases:
  "\<exists>v b'. CheckBlock E nNow b pow mr = Inr (v, b') \<and>
     (v = None \<longleftrightarrow> block_rules E nNow b \<and> (pow \<longrightarrow> CheckProofOfWork E (Block_GetHash E b) (bh_nBits b))
        \<and> (mr \<longrightarrow> merkle_root (ce_merkle E) (map (ce_txhash E) (vtx b)) = Some (hashMerkleRoot b)))"
proof -
  define b1 where "b1 = snd (BuildMerkleTree (ce_txhash E) (ce_merkle E) b)"
  define r0 where "r0 = fst (BuildMerkleTree (ce_txhash E) (ce_merkle E) b)"
  have bt: "BuildMerkleTree (ce_txhash E) (ce_merkle E) b = (r0, b1)" by (simp add: b1_def r0_def)
  have f1: "vtx b1 = vtx b" "hashMerkleRoot b1 = hashMerkleRoot b" by (simp_all add: b1_def BuildMerkleTree_eq)
  have root: "hashMerkleRoot b1 = fst (BuildMerkleTree (ce_txhash E) (ce_merkle E) b1)
      \<longleftrightarrow> merkle_root (ce_merkle E) (map (ce_txhash E) (vtx b)) = Some (hashMerkleRoot b)" if "vtx b \<noteq> []"
    using that f1 merkle_root_None [of "ce_merkle E" "map (ce_txhash E) (vtx b)"]
    by (auto simp: BuildMerkleTree_eq split: option.splits)
  have th: "tx_hashes b1 [0..<length (vtx b1)] {} = Inr ((\<lambda>i. ce_txhash E (vtx b ! i)) ` {0..<length (vtx b)})" if "vtx b \<noteq> []"
    using tx_hashes_built [OF b1_def that, of "[0..<length (vtx b)]" "{}"] f1 by (simp add: lessThan_atLeast0)
  note ch = card_hashes [of "ce_txhash E" "vtx b"]
  have step: "CheckBlock E nNow b pow mr = Inr (if card ((\<lambda>i. ce_txhash E (vtx b ! i)) ` {0..<length (vtx b)}) \<noteq> length (vtx b)
        then (Some (100, ''CheckBlock() : duplicate transaction''), b1)
      else if fold (\<lambda>tx n. n + GetLegacySigOpCount E tx) (vtx b) 0 > ce_max_sigops E
        then (Some (100, ''CheckBlock() : out-of-bounds SigOpCount''), b1)
      else if mr \<and> hashMerkleRoot b1 \<noteq> fst (BuildMerkleTree (ce_txhash E) (ce_merkle E) b1)
        then (Some (100, ''CheckBlock() : hashMerkleRoot mismatch''), b1)
      else (None, b1))"
    if "check_txs E (vtx b) = None" "vtx b \<noteq> []" "length (vtx b) \<le> ce_max_block_size E" "ce_block_size E b \<le> ce_max_block_size E"
      "pow \<longrightarrow> CheckProofOfWork E (Block_GetHash E b) (bh_nBits b)" "GetBlockTime b \<le> nNow + 7200"
      "IsCoinBase (hd (vtx b))" "\<forall>tx\<in>set (tl (vtx b)). \<not> IsCoinBase tx"
    using that th by (simp add: CheckBlock_def bt f1 list_ex_iff)
  show ?thesis
  proof (cases "check_txs E (vtx b) = None \<and> vtx b \<noteq> [] \<and> length (vtx b) \<le> ce_max_block_size E \<and> ce_block_size E b \<le> ce_max_block_size E
      \<and> (pow \<longrightarrow> CheckProofOfWork E (Block_GetHash E b) (bh_nBits b)) \<and> GetBlockTime b \<le> nNow + 7200
      \<and> IsCoinBase (hd (vtx b)) \<and> (\<forall>tx\<in>set (tl (vtx b)). \<not> IsCoinBase tx)")
    case True
    then show ?thesis using step root ch unfolding block_rules_def check_txs_None by simp (auto simp: not_less)
  next
    case False
    then have "\<exists>r. CheckBlock E nNow b pow mr = Inr (Some r, b)"
      unfolding CheckBlock_def by (auto simp: list_ex_iff not_le not_less split: option.splits)
    with False show ?thesis unfolding block_rules_def check_txs_None by auto
  qed
qed

lemma bnLimit: "bn_ok (ce_bn E) \<Longrightarrow> bnProofOfWorkLimit E = 2 ^ 224 - 1"
proof -
  assume B: "bn_ok (ce_bn E)"
  have "uint (drop_bit 32 (NOT 0) :: uint256) = 2 ^ 224 - 1" by (simp add: mask_eq_exp_minus_1 unsigned_minus_1_eq_mask uint_word_of_int take_bit_eq_mod)
  then show ?thesis using setuint256_eq [OF B] by (simp add: bnProofOfWorkLimit_def)
qed

definition rounds :: "int64 \<Rightarrow> nat" where
  "rounds t = nat ((t + nTargetTimespan * 4 - 1) div (nTargetTimespan * 4))"

lemma rounds_step: "0 < t \<Longrightarrow> rounds t = Suc (rounds (t - nTargetTimespan * 4))"
proof -
  assume "0 < t"
  have "(t + nTargetTimespan * 4 - 1) div (nTargetTimespan * 4) = (t - 1) div (nTargetTimespan * 4) + 1"
    by (simp add: nTargetTimespan_def)
  moreover have "0 \<le> (t - 1) div (nTargetTimespan * 4)" using \<open>0 < t\<close> by (simp add: nTargetTimespan_def pos_imp_zdiv_nonneg_iff)
  ultimately show ?thesis by (simp add: rounds_def nat_add_distrib)
qed

lemma rounds_nonpos: "t \<le> 0 \<Longrightarrow> rounds t = 0"
proof -
  assume "t \<le> 0"
  then have "(t + nTargetTimespan * 4 - 1) div (nTargetTimespan * 4) \<le> (nTargetTimespan * 4 - 1) div (nTargetTimespan * 4)"
    by (intro zdiv_mono1) (simp_all add: nTargetTimespan_def)
  also have "\<dots> = 0" by (simp add: nTargetTimespan_def)
  finally show ?thesis by (simp add: rounds_def)
qed

lemma min_work_loop_min:
  assumes "bn_ok (ce_bn E)"
  shows "\<exists>r'. min_work_loop E r t = Inr r' \<and> min (2 ^ 224 - 1) r' = min (2 ^ 224 - 1) (r * 4 ^ rounds t)"
  using assms
proof (induction E r t rule: min_work_loop.induct)
  case (1 E r t)
  note B = bn_okD [OF 1(2)] and L = bnLimit [OF 1(2)]
  show ?case
  proof (cases "t > 0 \<and> bn_less (ce_bn E) r (bnProofOfWorkLimit E)")
    case True
    have "min_work_loop E r t = min_work_loop E (r * 4) (t - nTargetTimespan * 4)"
      using True by (subst min_work_loop.simps) (simp add: bn_times_def B)
    moreover have "\<exists>r'. min_work_loop E (r * 4) (t - nTargetTimespan * 4) = Inr r' \<and>
        min (2 ^ 224 - 1) r' = min (2 ^ 224 - 1) (r * 4 * 4 ^ rounds (t - nTargetTimespan * 4))"
      using 1 True by (simp add: bn_times_def B)
    ultimately show ?thesis using rounds_step [of t] True by (simp add: algebra_simps)
  next
    case False
    then have "min_work_loop E r t = Inr r" by (subst min_work_loop.simps) auto
    moreover have "rounds t = 0" if "\<not> t > 0" using that rounds_nonpos by simp
    moreover have "r * 1 \<le> r * 4 ^ rounds t" "2 ^ 224 - 1 \<le> r" if "\<not> bn_less (ce_bn E) r (bnProofOfWorkLimit E)"
    proof -
      show *: "2 ^ 224 - 1 \<le> r" using that by (simp add: bn_less_def B L sgn_if split: if_splits)
      have "0 \<le> r" using * order_trans [of 0 "2 ^ 224 - 1" r] by simp
      then show "r * 1 \<le> r * 4 ^ rounds t" by (rule mult_left_mono [rotated]) simp
    qed
    ultimately show ?thesis using False by fastforce
  qed
qed

text \<open>The block index entries that the loop of \<open>IsSuperMajority\<close> looks at.\<close>

fun ancestors :: "(uint256 \<rightharpoonup> CBlockIndex) \<Rightarrow> nat \<Rightarrow> uint256 option \<Rightarrow> CBlockIndex list" where
  "ancestors m 0 p = []"
| "ancestors m (Suc n) p = (case Option.bind p m of None \<Rightarrow> [] | Some i \<Rightarrow> i # ancestors m n (bi_pprev i))"

abbreviation new_versions :: "(uint256 \<rightharpoonup> CBlockIndex) \<Rightarrow> int32 \<Rightarrow> nat \<Rightarrow> uint256 option \<Rightarrow> nat" where
  "new_versions m v n p \<equiv> length (filter (\<lambda>i. bi_nVersion i \<ge> v) (ancestors m n p))"

lemma super_loop_count: "super_loop m v req n k p = (if k < req then min req (k + new_versions m v n p) else k)"
proof (induction n arbitrary: k p)
  case (Suc n)
  show ?case
  proof (cases "Option.bind p m")
    case (Some i)
    then show ?thesis using Suc [of "if bi_nVersion i \<ge> v then k + 1 else k" "bi_pprev i"] by auto
  qed simp
qed simp

lemma IsSuperMajority_count: "IsSuperMajority m v p req n \<longleftrightarrow> req \<le> new_versions m v n p"
  unfolding IsSuperMajority_def super_loop_count by auto

lemma std_equal_True: "std_equal xs ys = Inr True \<longleftrightarrow> (\<exists>zs. ys = xs @ zs)"
proof
  assume "std_equal xs ys = Inr True"
  then have "take (length ys) xs = take (length xs) ys" "length xs \<le> length ys"
    by (auto simp: std_equal_def split: if_splits)
  then have "ys = xs @ drop (length xs) ys" by (metis append_take_drop_id take_all)
  then show "\<exists>zs. ys = xs @ zs" by blast
qed (auto simp: std_equal_def)

text \<open>A concrete environment for the witnesses.\<close>

definition demo_chain :: chain_env where
  "demo_chain = \<lparr> ce_txhash = (\<lambda>tx. ucast (of_nat (length (vout tx)) + nLockTime tx)),
     ce_merkle = (\<lambda>x y. 3 * x + 5 * y + 1), ce_header_hash = (\<lambda>h. 2 * ucast (nNonce h) + 7),
     ce_tx_size = (\<lambda>tx. 60), ce_block_size = (\<lambda>b. 200), ce_sigops = (\<lambda>sc. of_nat (length sc)),
     ce_push_int = (\<lambda>n. [3, word_of_int n, word_of_int (n div 256), word_of_int (n div 65536)]),
     ce_money_range = (\<lambda>n. 0 \<le> n \<and> n \<le> 2100000000000000), ce_max_money = 2100000000000000,
     ce_max_block_size = 1000000, ce_max_sigops = 20000, ce_locktime_threshold = 500000000,
     ce_testnet = False, ce_bn = bn_std \<rparr>"

lemma demo_chain_ok: "chain_ok demo_chain"
  by (simp add: chain_ok_def demo_chain_def bn_ok_std)

definition demo_coinbase :: "bytes \<Rightarrow> CTransaction" where
  "demo_coinbase sc = \<lparr> tx_nVersion = 1, vin = [\<lparr> prevout = COutPoint_SetNull, scriptSig = sc, nSequence = - 1 \<rparr>],
     vout = [\<lparr> nValue = 5000000000, scriptPubKey = [] \<rparr>], nLockTime = 0 \<rparr>"

text \<open>C7. \<open>CheckTransaction\<close> accepts a transaction exactly if it has inputs and outputs, fits in a block,
  pays no negative amount and in total at most \<open>MAX_MONEY\<close>, spends no output twice, and either is a
  coinbase whose script has 2 to 100 bytes or refers to no null output.  Because each partial sum is
  compared with \<open>MAX_MONEY\<close>, a total that would wrap around cannot pass.\<close>

theorem CheckTransaction_iff:
  assumes "chain_ok E"
  shows "CheckTransaction E tx = None \<longleftrightarrow>
    vin tx \<noteq> [] \<and> vout tx \<noteq> [] \<and> ce_tx_size E tx \<le> ce_max_block_size E \<and>
    (\<forall>x\<in>set (vout tx). 0 \<le> nValue x) \<and> sum_list (map nValue (vout tx)) \<le> ce_max_money E \<and>
    distinct (map prevout (vin tx)) \<and>
    (if IsCoinBase tx then length (scriptSig (hd (vin tx))) \<in> {2..100}
     else (\<forall>x\<in>set (vin tx). \<not> COutPoint_IsNull (prevout x)))"
proof -
  have "check_values E 0 (vout tx) = None \<longleftrightarrow>
      (\<forall>x\<in>set (vout tx). 0 \<le> nValue x) \<and> sum_list (map nValue (vout tx)) \<le> ce_max_money E"
    using check_values_None [OF assms, of 0] chain_okD(2) [OF assms] by simp
  then show ?thesis
    unfolding CheckTransaction_def by (auto simp: check_inputs_None list_ex_iff not_less not_le)
qed

theorem CheckTransaction_iff_witness:
  "CheckTransaction demo_chain (demo_coinbase [1, 2]) = None \<and> CheckTransaction demo_chain (demo_coinbase [1]) \<noteq> None"
  unfolding CheckTransaction_iff [OF demo_chain_ok]
  by (simp add: demo_coinbase_def demo_chain_def IsCoinBase_def COutPoint_IsNull_def COutPoint_SetNull_def)

text \<open>C6. \<open>CheckBlock\<close> always returns, and it accepts a block exactly if the block obeys the size, time,
  coinbase, transaction, uniqueness and signature operation rules and, as far as the flags ask for
  it, its hash meets the target and its Merkle root is the root of its transactions.\<close>

theorem CheckBlock_iff:
  "\<exists>v b'. CheckBlock E nNow b pow mr = Inr (v, b') \<and>
     (v = None \<longleftrightarrow> block_rules E nNow b \<and> (pow \<longrightarrow> CheckProofOfWork E (Block_GetHash E b) (bh_nBits b))
        \<and> (mr \<longrightarrow> merkle_root (ce_merkle E) (map (ce_txhash E) (vtx b)) = Some (hashMerkleRoot b)))"
  by (rule CheckBlock_cases)

theorem CheckBlock_iff_witness:
  "\<exists>v b'. CheckBlock demo_chain 0 (demo_block [demo_coinbase [1, 2]]) False False = Inr (v, b') \<and> v = None"
proof -
  have "block_rules demo_chain 0 (demo_block [demo_coinbase [1, 2]])"
    using check_txs_None [of demo_chain "[demo_coinbase [1, 2]]"]
    by (simp add: block_rules_def demo_block_def CBlock_SetNull_def CBlockHeader.defs CBlock.defs GetBlockTime_def CBlockHeader_SetNull_def
        demo_coinbase_def demo_chain_def IsCoinBase_def COutPoint_IsNull_def COutPoint_SetNull_def
        CheckTransaction_def GetLegacySigOpCount_def)
  then show ?thesis using CheckBlock_iff [of demo_chain 0 "demo_block [demo_coinbase [1, 2]]" False False] by auto
qed

text \<open>The Merkle root alone does not fix the transactions of a block: repeating the last transaction
  of a block with an odd number of them keeps the root.  \<open>CheckBlock\<close> rejects every such copy,
  whatever the block and the flags are.\<close>

theorem CheckBlock_rejects_duplicated_tail:
  assumes "vtx b \<noteq> []"
  shows "\<exists>r b'. CheckBlock E nNow (b\<lparr> vtx := vtx b @ [last (vtx b)] \<rparr>) pow mr = Inr (Some r, b')"
proof -
  let ?b = "b\<lparr> vtx := vtx b @ [last (vtx b)] \<rparr>"
  have "last (vtx b) \<in> set (vtx b)" using assms by simp
  then have "\<not> block_rules E nNow ?b" by (auto simp: block_rules_def)
  then show ?thesis using CheckBlock_cases [of E nNow ?b pow mr] by fastforce
qed

theorem CheckBlock_rejects_duplicated_tail_witness:
  "\<exists>r b'. CheckBlock demo_chain 0 (demo_block [demo_coinbase [1, 2], demo_coinbase [1, 2]]) False False = Inr (Some r, b')"
  using CheckBlock_rejects_duplicated_tail [of "demo_block [demo_coinbase [1, 2]]" demo_chain 0 False False]
  by (simp add: demo_block_def)

text \<open>\<open>CheckProofOfWork\<close> accepts a hash exactly if the target that \<open>nBits\<close> encodes is positive, is at
  most the proof-of-work limit \<open>2 ^ 224 - 1\<close>, and is not below the hash read as a number: the
  conversion of the target to 256 bits loses nothing.\<close>

theorem CheckProofOfWork_iff:
  assumes "bn_ok (ce_bn E)"
  shows "CheckProofOfWork E hash nBits \<longleftrightarrow>
    0 < SetCompact (ce_bn E) nBits \<and> SetCompact (ce_bn E) nBits < 2 ^ 224 \<and> uint hash \<le> SetCompact (ce_bn E) nBits"
proof -
  define T where "T = SetCompact (ce_bn E) nBits"
  have "hash \<le> getuint256 (ce_bn E) T \<longleftrightarrow> uint hash \<le> T" if "0 < T" "T < 2 ^ 224"
  proof -
    have "T < 2 ^ 256" using that(2) by (rule less_trans) simp
    then have "uint (word_of_int T :: uint256) = T" using that by (simp add: uint_word_of_int)
    then show ?thesis using that by (simp add: getuint256_eq [OF assms] word_le_def)
  qed
  then show ?thesis
    unfolding CheckProofOfWork_def Let_def T_def [symmetric] bnLimit [OF assms] bn_okD [OF assms]
    by (auto simp: sgn_if not_less not_le)
qed

theorem CheckProofOfWork_iff_witness:
  "CheckProofOfWork demo_chain 0x7fffff 0x037fffff \<and> \<not> CheckProofOfWork demo_chain 0x800000 0x037fffff"
proof -
  have B: "bn_ok (ce_bn demo_chain)" using demo_chain_ok by (simp add: chain_ok_def)
  have "SetCompact (ce_bn demo_chain) 0x037fffff = 0x7fffff"
    by (simp add: SetCompact_def demo_chain_def bn_std_def Let_def bn_ignore_def)
  then show ?thesis using CheckProofOfWork_iff [OF B, of _ "0x037fffff"] by simp
qed

text \<open>\<open>ComputeMinWork\<close> always returns, and its loop computes the closed form: the base target times
  four for every started period of eight weeks, cut off at the proof-of-work limit, in compact form.\<close>

theorem ComputeMinWork_closed_form:
  assumes "bn_ok (ce_bn E)" and "ce_testnet E \<longrightarrow> t \<le> 1200"
  shows "ComputeMinWork E nBase t =
    Inr (GetCompact (ce_bn E) (min (2 ^ 224 - 1) (SetCompact (ce_bn E) nBase * 4 ^ rounds t)))"
proof -
  let ?r = "SetCompact (ce_bn E) nBase"
  obtain r' where r': "min_work_loop E ?r t = Inr r'" "min (2 ^ 224 - 1) r' = min (2 ^ 224 - 1) (?r * 4 ^ rounds t)"
    using min_work_loop_min [OF assms(1)] by blast
  have "(if BN_cmp (ce_bn E) r' (2 ^ 224 - 1) > 0 then 2 ^ 224 - 1 else r') = min (2 ^ 224 - 1) r'"
    unfolding bn_okD [OF assms(1)] by (auto simp: sgn_if min_def)
  moreover have "\<not> (ce_testnet E \<and> t > nTargetSpacing * 2)" using assms(2) by (auto simp: nTargetSpacing_def)
  ultimately show ?thesis
    unfolding ComputeMinWork_def Let_def r'(1) bnLimit [OF assms(1)] bind_res_simps using r'(2) by auto
qed

theorem ComputeMinWork_closed_form_witness:
  "ComputeMinWork demo_chain 0x030000ff (5 * 7 * 24 * 3600) = Inr (GetCompact bn_std 1020)"
proof -
  have B: "bn_ok (ce_bn demo_chain)" "ce_testnet demo_chain \<longrightarrow> 5 * 7 * 24 * 3600 \<le> (1200 :: int)" "ce_bn demo_chain = bn_std"
    using demo_chain_ok by (simp_all add: chain_ok_def demo_chain_def)
  have "SetCompact bn_std 0x030000ff = 255" by (simp add: SetCompact_def bn_std_def Let_def bn_ignore_def)
  moreover have "rounds (5 * 7 * 24 * 3600) = 1" by (simp add: rounds_def nTargetTimespan_def)
  ultimately show ?thesis
    using ComputeMinWork_closed_form [OF B(1,2), of "0x030000ff"] unfolding B(3) by simp
qed

text \<open>\<open>GetOrphanRoot\<close> ends whenever every stored orphan is filed under its own hash and no chain of
  hashes leads back to itself (a rank on hashes that grows from a block's parent to the block); it
  then returns the hash of a block reached from the given one whose parent is not an orphan.\<close>

theorem GetOrphanRoot_terminates:
  assumes "\<forall>h p. orphans h = Some p \<longrightarrow> h = Block_GetHash E p"
    and "\<forall>p \<in> ran orphans. (rank :: uint256 \<Rightarrow> nat) (hashPrevBlock p) < rank (Block_GetHash E p)"
  shows "\<exists>r. GetOrphanRoot E orphans b = Some (Block_GetHash E r) \<and> orphans (hashPrevBlock r) = None \<and>
    (\<lambda>c p. orphans (hashPrevBlock c) = Some p)\<^sup>*\<^sup>* b r"
proof (induction "rank (hashPrevBlock b)" arbitrary: b rule: less_induct)
  case less
  show ?case
  proof (cases "orphans (hashPrevBlock b)")
    case None
    then show ?thesis by (subst GetOrphanRoot.simps) auto
  next
    case (Some p)
    then have "rank (hashPrevBlock p) < rank (hashPrevBlock b)" using assms by (metis ranI)
    from less [OF this] obtain r where
      r: "GetOrphanRoot E orphans p = Some (Block_GetHash E r)" "orphans (hashPrevBlock r) = None"
         "(\<lambda>c p. orphans (hashPrevBlock c) = Some p)\<^sup>*\<^sup>* p r" by blast
    have "GetOrphanRoot E orphans b = GetOrphanRoot E orphans p" using Some by (subst GetOrphanRoot.simps) simp
    with r Some show ?thesis by (metis (mono_tags, lifting) converse_rtranclp_into_rtranclp)
  qed
qed

definition demo_orphan :: "uint256 \<Rightarrow> uint32 \<Rightarrow> CBlock" where
  "demo_orphan prev n = CBlock_SetNull\<lparr> hashPrevBlock := prev, nNonce := n \<rparr>"

theorem GetOrphanRoot_terminates_witness:
  "\<exists>r. GetOrphanRoot demo_chain [9 \<mapsto> demo_orphan 8 1] (demo_orphan 9 2) = Some (Block_GetHash demo_chain r) \<and>
     [9 \<mapsto> demo_orphan 8 1] (hashPrevBlock r) = None \<and>
     (\<lambda>c p. [9 \<mapsto> demo_orphan 8 1] (hashPrevBlock c) = Some p)\<^sup>*\<^sup>* (demo_orphan 9 2) r"
  by (rule GetOrphanRoot_terminates [where rank = unat])
    (simp_all add: demo_orphan_def demo_chain_def Block_GetHash_def CBlockHeader.defs CBlock.defs CBlock_SetNull_def)

abbreviation upgraded :: "chain_env \<Rightarrow> (uint256 \<rightharpoonup> CBlockIndex) \<Rightarrow> nat \<Rightarrow> nat \<Rightarrow> uint256 \<Rightarrow> bool" where
  "upgraded E m main test h \<equiv>
     (if ce_testnet E then test \<le> new_versions m 2 100 (Some h) else main \<le> new_versions m 2 1000 (Some h))"

lemma coinbase_height_ok_True:
  "coinbase_height_ok E m h n b = Inr True \<longleftrightarrow>
     (2 \<le> bh_nVersion b \<and> upgraded E m 750 51 h \<longrightarrow>
       (\<exists>tx txs txin ins rest. vtx b = tx # txs \<and> vin tx = txin # ins \<and> scriptSig txin = ce_push_int E n @ rest))"
  unfolding coinbase_height_ok_def IsSuperMajority_count
  by (auto simp: std_equal_True split: list.splits)

text \<open>C8. A new block on a known parent is accepted by \<open>AcceptBlock\<close> exactly if its time is after the median
  time of the parent, all its transactions are final, it agrees with the checkpoints, it has
  version 2 once 950 of the last 1000 blocks (75 of 100 on the test network) have it, and it starts
  its coinbase with its height once 750 of 1000 (51 of 100) have it.\<close>

theorem AcceptBlock_iff:
  assumes "m (Block_GetHash E b) = None" "Block_GetHash E b \<noteq> hashGenesis" "m (hashPrevBlock b) = Some prev"
  shows "AcceptBlock E cp hashGenesis nBest nNow m b = Inr None \<longleftrightarrow>
    bi_median_time prev < GetBlockTime b \<and>
    (\<forall>tx\<in>set (vtx b). IsFinalTx E nBest nNow tx (bi_nHeight prev + 1) (GetBlockTime b)) \<and>
    Checkpoints_CheckBlock cp (ce_testnet E) (bi_nHeight prev + 1) (Block_GetHash E b) \<and>
    (upgraded E m 950 75 (hashPrevBlock b) \<longrightarrow> 2 \<le> bh_nVersion b) \<and>
    (2 \<le> bh_nVersion b \<and> upgraded E m 750 51 (hashPrevBlock b) \<longrightarrow>
       (\<exists>tx txs txin ins rest. vtx b = tx # txs \<and> vin tx = txin # ins \<and>
          scriptSig txin = ce_push_int E (bi_nHeight prev + 1) @ rest))"
proof -
  have bind: "bind_res r (\<lambda>ok. if \<not> ok then Inr (Some v) else Inr None) = Inr None \<longleftrightarrow> r = Inr True" for r :: "bool res" and v
    by (cases r) auto
  show ?thesis
    unfolding AcceptBlock_def Let_def coinbase_height_ok_True [symmetric] IsSuperMajority_count
    using assms by (auto simp: bind list_ex_iff not_le not_less)
qed

definition demo_index :: "uint256 \<rightharpoonup> CBlockIndex" where
  "demo_index h = (if h < 3 then Some \<lparr> bi_nVersion = 2, bi_nHeight = uint h, bi_nTime = 10, bi_nBits = 0x037fffff,
     bi_pprev = (if h = 0 then None else Some (h - 1)), bi_median_time = 5 \<rparr> else None)"

definition demo_next :: CBlock where
  "demo_next = (demo_block [demo_coinbase [1, 2]])\<lparr> bh_nVersion := 2, bh_nTime := 20, hashPrevBlock := 2 \<rparr>"

theorem AcceptBlock_iff_witness: "AcceptBlock demo_chain True 0 2 30 demo_index demo_next = Inr None"
proof -
  have "ancestors demo_index (Suc (Suc (Suc (Suc k)))) (Some 2) = map (\<lambda>h. the (demo_index h)) [2, 1, 0]" for k
    by (simp add: demo_index_def)
  from this [of 996] have "ancestors demo_index 1000 (Some 2) = map (\<lambda>h. the (demo_index h)) [2, 1, 0]"
    by (simp del: ancestors.simps)
  moreover have "length (filter P (map f [a, b, c])) \<le> 3" for P f and a b c :: uint256
    by (rule order_trans [OF length_filter_le]) simp
  ultimately have "new_versions demo_index 2 1000 (Some 2) \<le> 3" by (simp only:)
  then have up: "\<not> upgraded demo_chain demo_index 750 51 2" "\<not> upgraded demo_chain demo_index 950 75 2"
    by (simp_all add: demo_chain_def)
  have f: "demo_index (Block_GetHash demo_chain demo_next) = None" "Block_GetHash demo_chain demo_next \<noteq> 0"
    "demo_index (hashPrevBlock demo_next) = Some (the (demo_index 2))" "hashPrevBlock demo_next = 2"
    by (simp_all add: demo_index_def demo_next_def demo_block_def demo_chain_def Block_GetHash_def CBlockHeader.defs
        CBlock.defs CBlock_SetNull_def CBlockHeader_SetNull_def)
  have "bi_median_time (the (demo_index 2)) < GetBlockTime demo_next"
    "\<forall>tx\<in>set (vtx demo_next). IsFinalTx demo_chain 2 30 tx (bi_nHeight (the (demo_index 2)) + 1) (GetBlockTime demo_next)"
    "Checkpoints_CheckBlock True (ce_testnet demo_chain) (bi_nHeight (the (demo_index 2)) + 1) (Block_GetHash demo_chain demo_next)"
    by (simp_all add: demo_index_def demo_next_def demo_block_def GetBlockTime_def demo_coinbase_def IsFinalTx_def
        Checkpoints_CheckBlock_def Checkpoints_def mapCheckpoints_def demo_chain_def CBlockHeader.defs CBlock.defs CBlock_SetNull_def)
  then show ?thesis using AcceptBlock_iff [OF f(1-3), of True 2 30] up unfolding f(4) by blast
qed

text \<open>\<open>AcceptBlock\<close> compares the height that the coinbase has to start with by \<open>std::equal\<close>, which reads
  as many bytes as the expected prefix has.  A coinbase script that is a proper prefix of it is read
  past its end, although \<open>CheckTransaction\<close> accepts any script of at least two bytes.\<close>

theorem AcceptBlock_reads_past_coinbase:
  assumes "2 \<le> bh_nVersion b" "upgraded E m 750 51 prev" "vtx b = tx # txs" "vin tx = txin # ins"
    "ce_push_int E nHeight = scriptSig txin @ rest" "rest \<noteq> []"
  shows "coinbase_height_ok E m prev nHeight b = Inl OutOfRange"
  unfolding coinbase_height_ok_def IsSuperMajority_count using assms by (auto simp: std_equal_def)

text \<open>\<open>GetLastCheckpoint\<close> returns the known checkpoint block of the greatest height.\<close>

theorem GetLastCheckpoint_highest:
  "GetLastCheckpoint True fTestNet m = Some h \<longleftrightarrow>
     (\<exists>n. (n, h) \<in> set (Checkpoints fTestNet) \<and> m h \<noteq> None \<and>
        (\<forall>(n', h')\<in>set (Checkpoints fTestNet). m h' \<noteq> None \<longrightarrow> n' \<le> n))"
proof -
  have sorted: "sorted_wrt (\<lambda>a b. fst b < fst a) (rev (Checkpoints fTestNet))"
    by (simp add: Checkpoints_def mapCheckpoints_def mapCheckpointsTestnet_def)
  have "List.find (\<lambda>hash. m hash \<noteq> None) (map snd cs) = Some h \<longleftrightarrow>
      (\<exists>n. (n, h) \<in> set cs \<and> m h \<noteq> None \<and> (\<forall>(n', h')\<in>set cs. m h' \<noteq> None \<longrightarrow> n' \<le> n))"
    if "sorted_wrt (\<lambda>a b. fst b < fst a) cs" for cs :: "(int32 \<times> uint256) list"
    using that
  proof (induction cs)
    case (Cons c cs)
    obtain n0 h0 where c: "c = (n0, h0)" by fastforce
    have lt: "n' < n0" if "(n', h') \<in> set cs" for n' h' using that Cons.prems by (auto simp: c)
    show ?case
    proof (cases "m h0")
      case None
      then show ?thesis using Cons by (auto simp: c)
    next
      case (Some i)
      then show ?thesis using lt by (force simp: c)
    qed
  qed simp
  from this [OF sorted] show ?thesis by (simp add: GetLastCheckpoint_def)
qed

end
