(* ===== verification/Wire.thy ===== *)
theory Wire
  imports Protocol Bloom
begin

text \<open>
  Framing of the byte stream between two peers (\<open>net.cpp\<close>): \<open>CNetMessage::readHeader\<close> and
  \<open>readData\<close>, the loop \<open>CNode::ReceiveMsgBytes\<close> that cuts the received bytes into messages, and
  \<open>SocketSendData\<close>, which hands the queued messages to the socket.  The class \<open>CNetMessage\<close> and the
  serialisation of a header are in missing headers: the constructor, \<open>complete\<close> and the reading of
  a header are the fields of \<open>wire_env\<close>, and \<open>wire_ok\<close> is what the code relies on.
\<close>

record CNetMessage =
  in_data :: bool
  hdrbuf :: bytes
  nHdrPos :: uint32
  nm_hdr :: CMessageHeader
  nm_vRecv :: bytes
  nDataPos :: uint32

record wire_env =
  we_new :: "int32 \<Rightarrow> CNetMessage"
  we_complete :: "CNetMessage \<Rightarrow> bool"
  we_read_hdr :: "bytes \<Rightarrow> (CMessageHeader \<times> bytes) option"
  we_max_size :: uint32

definition wire_ok :: "wire_env \<Rightarrow> bool" where
  "wire_ok W \<longleftrightarrow>
     (\<forall>m. we_complete W m \<longleftrightarrow> in_data m \<and> nDataPos m = mh_size (nm_hdr m)) \<and>
     (\<forall>v. \<not> in_data (we_new W v) \<and> nHdrPos (we_new W v) = 0 \<and> nDataPos (we_new W v) = 0 \<and>
          length (hdrbuf (we_new W v)) = 24)"

lemma wire_okD:
  assumes "wire_ok W"
  shows "we_complete W m \<longleftrightarrow> in_data m \<and> nDataPos m = mh_size (nm_hdr m)"
    "\<not> in_data (we_new W v)" "nHdrPos (we_new W v) = 0" "nDataPos (we_new W v) = 0" "length (hdrbuf (we_new W v)) = 24"
  using assms by (auto simp: wire_ok_def)

subsection \<open>Receiving\<close>

text \<open>\<open>memcpy\<close> into a buffer from a position on.\<close>

definition write_at :: "nat \<Rightarrow> bytes \<Rightarrow> bytes \<Rightarrow> bytes res" where
  "write_at p src buf =
     (if length buf < p + length src then Inl OutOfRange
      else Inr (take p buf @ src @ drop (p + length src) buf))"

text \<open>\<open>vRecv.resize(n)\<close>: cut off or filled with zeros.\<close>

definition resize :: "nat \<Rightarrow> bytes \<Rightarrow> bytes" where
  "resize n bs = take n bs @ replicate (n - length bs) 0"

definition readHeader :: "wire_env \<Rightarrow> CNetMessage \<Rightarrow> bytes \<Rightarrow> (int32 \<times> CNetMessage) res" where
  "readHeader W m pch =
     (let nRemaining = 24 - nHdrPos m;
          nCopy = min nRemaining (word_of_nat (length pch))
      in bind_res (write_at (unat (nHdrPos m)) (take (unat nCopy) pch) (hdrbuf m)) (\<lambda>buf.
           let m1 = m\<lparr> hdrbuf := buf, nHdrPos := nHdrPos m + nCopy \<rparr> in
           if nHdrPos m1 < 24 then Inr (sint nCopy, m1)
           else case we_read_hdr W buf of
             None \<Rightarrow> Inr (- 1, m1)
           | Some (h, rest) \<Rightarrow>
               let m2 = m1\<lparr> hdrbuf := rest, nm_hdr := h \<rparr> in
               if mh_size h > we_max_size W then Inr (- 1, m2)
               else Inr (sint nCopy, m2\<lparr> in_data := True, nm_vRecv := resize (unat (mh_size h)) (nm_vRecv m2) \<rparr>)))"

definition readData :: "CNetMessage \<Rightarrow> bytes \<Rightarrow> (int32 \<times> CNetMessage) res" where
  "readData m pch =
     (let nRemaining = mh_size (nm_hdr m) - nDataPos m;
          nCopy = min nRemaining (word_of_nat (length pch))
      in bind_res (write_at (unat (nDataPos m)) (take (unat nCopy) pch) (nm_vRecv m)) (\<lambda>buf.
           Inr (sint nCopy, m\<lparr> nm_vRecv := buf, nDataPos := nDataPos m + nCopy \<rparr>)))"

text \<open>The loop makes no progress when a message takes no byte; not returning is \<^term>\<open>None\<close>.\<close>

partial_function (option) ReceiveMsgBytes ::
  "wire_env \<Rightarrow> int32 \<Rightarrow> CNetMessage list \<Rightarrow> bytes \<Rightarrow> (bool \<times> CNetMessage list) res option" where
  "ReceiveMsgBytes W nRecvVersion q pch =
     (if pch = [] then Some (Inr (True, q))
      else
        let q1 = (if q = [] \<or> we_complete W (last q) then q @ [we_new W nRecvVersion] else q);
            msg = last q1
        in case (if \<not> in_data msg then readHeader W msg pch else readData msg pch) of
             Inl e \<Rightarrow> Some (Inl e)
           | Inr (handled, msg1) \<Rightarrow>
               let q2 = butlast q1 @ [msg1] in
               if handled < 0 then Some (Inr (False, q2))
               else ReceiveMsgBytes W nRecvVersion q2 (drop (nat handled) pch))"

subsection \<open>The stream as a sequence of frames\<close>

text \<open>What the loop is to compute: the bytes are a sequence of frames, a 24-byte header and as many
  bytes as it announces.  A header that cannot be read or announces too much ends the stream.\<close>

function split_frames :: "wire_env \<Rightarrow> bytes \<Rightarrow> ((CMessageHeader \<times> bytes) list \<times> bytes) option" where
  "split_frames W bs =
     (if length bs < 24 then Some ([], bs)
      else case we_read_hdr W (take 24 bs) of
        None \<Rightarrow> None
      | Some (h, _) \<Rightarrow>
          if mh_size h > we_max_size W then None
          else if length bs < 24 + unat (mh_size h) then Some ([], bs)
          else map_option (\<lambda>(fs, rest). ((h, take (unat (mh_size h)) (drop 24 bs)) # fs, rest))
                 (split_frames W (drop (24 + unat (mh_size h)) bs)))"
  by pat_completeness auto
termination
  by (relation "measure (\<lambda>(W, bs). length bs)") auto

declare split_frames.simps [simp del]

text \<open>A message under construction stands for the bytes of it that have arrived.\<close>

definition pending :: "wire_env \<Rightarrow> CNetMessage \<Rightarrow> bytes \<Rightarrow> bool" where
  "pending W m p \<longleftrightarrow>
     (if in_data m then
        (\<exists>hb rest. length hb = 24 \<and> we_read_hdr W hb = Some (nm_hdr m, rest) \<and> mh_size (nm_hdr m) \<le> we_max_size W \<and>
           length (nm_vRecv m) = unat (mh_size (nm_hdr m)) \<and> nDataPos m \<le> mh_size (nm_hdr m) \<and>
           p = hb @ take (unat (nDataPos m)) (nm_vRecv m))
      else length (hdrbuf m) = 24 \<and> unat (nHdrPos m) < 24 \<and> nDataPos m = 0 \<and> p = take (unat (nHdrPos m)) (hdrbuf m))"

definition frame :: "CNetMessage \<Rightarrow> CMessageHeader \<times> bytes" where
  "frame m = (nm_hdr m, nm_vRecv m)"

text \<open>The queue stands for the frames received and the bytes of an unfinished one.\<close>

definition received :: "wire_env \<Rightarrow> CNetMessage list \<Rightarrow> (CMessageHeader \<times> bytes) list \<Rightarrow> bytes \<Rightarrow> bool" where
  "received W q fs p \<longleftrightarrow>
     (\<exists>ds. (\<forall>m\<in>set ds. we_complete W m \<and> length (nm_vRecv m) = unat (mh_size (nm_hdr m))) \<and> fs = map frame ds \<and>
        (q = ds \<and> p = [] \<or> (\<exists>m. q = ds @ [m] \<and> \<not> we_complete W m \<and> pending W m p)))"

lemma split_complete:
  assumes "length hb = 24" "we_read_hdr W hb = Some (h, r)" "mh_size h \<le> we_max_size W" "length d = unat (mh_size h)"
  shows "split_frames W (hb @ d @ rest) = map_option (\<lambda>(fs, p). ((h, d) # fs, p)) (split_frames W rest)"
  using assms by (subst split_frames.simps) (auto simp: not_less dest: leD)

lemma split_reject:
  assumes "length hb = 24" "we_read_hdr W hb = None \<or> (\<exists>h r. we_read_hdr W hb = Some (h, r) \<and> we_max_size W < mh_size h)"
  shows "split_frames W (hb @ rest) = None"
  using assms by (subst split_frames.simps) auto

lemma pending_split:
  assumes "wire_ok W" "pending W m p" "\<not> we_complete W m"
  shows "split_frames W p = Some ([], p)"
proof (cases "in_data m")
  case True
  then obtain hb rest where hb: "length hb = 24" "we_read_hdr W hb = Some (nm_hdr m, rest)" "mh_size (nm_hdr m) \<le> we_max_size W"
      "length (nm_vRecv m) = unat (mh_size (nm_hdr m))" "nDataPos m \<le> mh_size (nm_hdr m)" "p = hb @ take (unat (nDataPos m)) (nm_vRecv m)"
    using assms(2) by (auto simp: pending_def)
  have "nDataPos m \<noteq> mh_size (nm_hdr m)" using assms True by (simp add: wire_okD)
  then have "unat (nDataPos m) < unat (mh_size (nm_hdr m))" using hb(5) by (simp add: word_less_nat_alt [symmetric])
  then show ?thesis using hb by (subst split_frames.simps) (simp add: not_less)
qed (use assms in \<open>subst split_frames.simps, simp add: pending_def\<close>)

lemma write_at_ok: "p + length src \<le> length buf \<Longrightarrow> write_at p src buf = Inr (take p buf @ src @ drop (p + length src) buf)"
  by (simp add: write_at_def)

lemma length_resize [simp]: "length (resize n bs) = n"
  by (simp add: resize_def)

text \<open>The number of bytes copied: the rest of the part, or all that is left.\<close>

lemma copy_count:
  fixes a b :: uint32
  assumes "b \<le> a" "length pch < 2 ^ 31"
  defines "c \<equiv> min (a - b) (word_of_nat (length pch))"
  shows "unat c = min (unat a - unat b) (length pch)" "sint c = int (unat c)" "unat (b + c) = unat b + unat c"
proof -
  have l: "unat (word_of_nat (length pch) :: uint32) = length pch"
    using assms(2) by (simp add: unsigned_of_nat take_bit_nat_eq_self)
  have s: "unat (a - b) = unat a - unat b" using assms(1) by (rule unat_sub)
  show c: "unat c = min (unat a - unat b) (length pch)"
    unfolding c_def by (simp add: min_def word_le_nat_alt l s)
  then have small: "unat c < 2 ^ 31" using assms(2) by linarith
  have u: "uint c = int (unat c)" by simp
  have "int (unat c) < int (2 ^ 31)" using small by (simp only: of_nat_less_iff)
  then have b: "0 \<le> uint c" "uint c < 2 ^ 31" by simp_all
  have "sint c = signed_take_bit 31 (uint c)" by (simp add: sint_uint)
  also have "\<dots> = uint c" by (rule signed_take_bit_int_eq_self) (use b in linarith)+
  finally show "sint c = int (unat c)" by simp
  have "unat b + unat c < 2 ^ 32" using c unsigned_less [of a, where ?'a = nat] assms(1) by (simp add: word_le_nat_alt)
  then show "unat (b + c) = unat b + unat c" by (simp add: unat_add_lem [THEN iffD1])
qed

lemma readHeader_ok:
  assumes W: "wire_ok W" and m: "\<not> in_data m" "pending W m p" and pch: "length pch < 2 ^ 31"
  defines "k \<equiv> min (24 - length p) (length pch)"
  defines "p' \<equiv> p @ take k pch"
  shows "length p < 24" and
    "length p' < 24 \<Longrightarrow> \<exists>m'. readHeader W m pch = Inr (int k, m') \<and> \<not> in_data m' \<and> pending W m' p'"
    "\<lbrakk> length p' = 24; we_read_hdr W p' = None \<or> (\<exists>h r. we_read_hdr W p' = Some (h, r) \<and> we_max_size W < mh_size h) \<rbrakk>
      \<Longrightarrow> \<exists>m'. readHeader W m pch = Inr (- 1, m')"
    "\<lbrakk> length p' = 24; we_read_hdr W p' = Some (h, r); mh_size h \<le> we_max_size W \<rbrakk>
      \<Longrightarrow> \<exists>m'. readHeader W m pch = Inr (int k, m') \<and> in_data m' \<and> nm_hdr m' = h \<and> pending W m' p'"
proof -
  have P: "length (hdrbuf m) = 24" "unat (nHdrPos m) < 24" "nDataPos m = 0" "p = take (unat (nHdrPos m)) (hdrbuf m)"
    using m by (auto simp: pending_def)
  then show lp: "length p < 24" by simp
  have lp': "length p = unat (nHdrPos m)" using P by simp
  define c where "c = min (24 - nHdrPos m) (word_of_nat (length pch))"
  have le: "nHdrPos m \<le> 24" using P(2) by (simp add: word_le_nat_alt)
  note cc = copy_count [OF le pch, folded c_def]
  have ck: "unat c = k" using cc(1) lp' by (simp add: k_def)
  have kle: "length p + k \<le> 24" "k \<le> length pch" using lp by (simp_all add: k_def)
  define buf where "buf = p' @ drop (length p + k) (hdrbuf m)"
  have buf: "write_at (unat (nHdrPos m)) (take (unat c) pch) (hdrbuf m) = Inr buf"
  proof -
    have "write_at (unat (nHdrPos m)) (take k pch) (hdrbuf m) =
        Inr (take (unat (nHdrPos m)) (hdrbuf m) @ take k pch @ drop (unat (nHdrPos m) + length (take k pch)) (hdrbuf m))"
      by (rule write_at_ok) (use P(1) kle lp' in simp)
    then show ?thesis using kle unfolding ck buf_def p'_def lp' P(4) [symmetric] by (simp add: min_def)
  qed
  have pos: "unat (nHdrPos m + c) = length p'" using cc(3) kle lp' by (simp add: ck p'_def)
  have lt: "nHdrPos m + c < 24 \<longleftrightarrow> length p' < 24" using pos by (simp add: word_less_nat_alt)
  have lb: "length buf = 24" "take (length p') buf = p'" using kle P by (simp_all add: buf_def p'_def)
  have sk: "sint c = int k" using cc(2) ck by simp
  have R: "readHeader W m pch = (let m1 = m\<lparr> hdrbuf := buf, nHdrPos := nHdrPos m + c \<rparr> in
           if length p' < 24 then Inr (int k, m1)
           else case we_read_hdr W buf of
             None \<Rightarrow> Inr (- 1, m1)
           | Some (h, rest) \<Rightarrow>
               let m2 = m1\<lparr> hdrbuf := rest, nm_hdr := h \<rparr> in
               if mh_size h > we_max_size W then Inr (- 1, m2)
               else Inr (int k, m2\<lparr> in_data := True, nm_vRecv := resize (unat (mh_size h)) (nm_vRecv m2) \<rparr>))"
    unfolding readHeader_def Let_def c_def [symmetric] buf bind_res_simps sk by (simp add: lt)
  have full: "buf = p'" if "length p' = 24" using that lb by (metis take_all order_refl)
  show "\<exists>m'. readHeader W m pch = Inr (int k, m') \<and> \<not> in_data m' \<and> pending W m' p'" if "length p' < 24"
    using that m(1) P(3) lb pos unfolding R by (simp add: pending_def)
  show "\<exists>m'. readHeader W m pch = Inr (- 1, m')" if "length p' = 24"
    "we_read_hdr W p' = None \<or> (\<exists>h r. we_read_hdr W p' = Some (h, r) \<and> we_max_size W < mh_size h)"
    using that full unfolding R by auto
  show "\<exists>m'. readHeader W m pch = Inr (int k, m') \<and> in_data m' \<and> nm_hdr m' = h \<and> pending W m' p'"
    if "length p' = 24" "we_read_hdr W p' = Some (h, r)" "mh_size h \<le> we_max_size W"
    using that full P(3) leD [OF that(3)] unfolding R by (simp add: pending_def)
qed

lemma readData_ok:
  assumes W: "wire_ok W" and m: "in_data m" "pending W m p" "\<not> we_complete W m" and pch: "length pch < 2 ^ 31"
  defines "k \<equiv> min (unat (mh_size (nm_hdr m)) - unat (nDataPos m)) (length pch)"
  shows "unat (nDataPos m) < unat (mh_size (nm_hdr m))"
    and "\<exists>m'. readData m pch = Inr (int k, m') \<and> in_data m' \<and> nm_hdr m' = nm_hdr m \<and> pending W m' (p @ take k pch)"
proof -
  obtain hb rest where P: "length hb = 24" "we_read_hdr W hb = Some (nm_hdr m, rest)" "mh_size (nm_hdr m) \<le> we_max_size W"
      "length (nm_vRecv m) = unat (mh_size (nm_hdr m))" "nDataPos m \<le> mh_size (nm_hdr m)" "p = hb @ take (unat (nDataPos m)) (nm_vRecv m)"
    using m by (auto simp: pending_def)
  have "nDataPos m \<noteq> mh_size (nm_hdr m)" using W m by (simp add: wire_okD)
  then show lt: "unat (nDataPos m) < unat (mh_size (nm_hdr m))" using P(5) by (simp add: word_less_nat_alt [symmetric])
  define c where "c = min (mh_size (nm_hdr m) - nDataPos m) (word_of_nat (length pch))"
  note cc = copy_count [OF P(5) pch, folded c_def]
  have ck: "unat c = k" using cc(1) by (simp add: k_def)
  have kle: "unat (nDataPos m) + k \<le> length (nm_vRecv m)" "k \<le> length pch" using lt P(4) by (simp_all add: k_def)
  define buf where "buf = take (unat (nDataPos m)) (nm_vRecv m) @ take k pch @ drop (unat (nDataPos m) + k) (nm_vRecv m)"
  have buf: "write_at (unat (nDataPos m)) (take (unat c) pch) (nm_vRecv m) = Inr buf"
    using kle by (simp add: write_at_ok ck buf_def min_def)
  have R: "readData m pch = Inr (int k, m\<lparr> nm_vRecv := buf, nDataPos := nDataPos m + c \<rparr>)"
    unfolding readData_def Let_def c_def [symmetric] buf bind_res_simps using cc(2) by (simp add: ck)
  have "length buf = length (nm_vRecv m)" "take (unat (nDataPos m) + k) buf = take (unat (nDataPos m)) (nm_vRecv m) @ take k pch"
    using kle by (simp_all add: buf_def)
  moreover have "nDataPos m + c \<le> mh_size (nm_hdr m)" using cc(3) ck kle P(4) by (simp add: word_le_nat_alt)
  ultimately show "\<exists>m'. readData m pch = Inr (int k, m') \<and> in_data m' \<and> nm_hdr m' = nm_hdr m \<and> pending W m' (p @ take k pch)"
    using m(1) P cc(3) ck unfolding R pending_def by auto
qed

text \<open>One round of the loop on the message under construction.\<close>

definition read_some :: "wire_env \<Rightarrow> CNetMessage \<Rightarrow> bytes \<Rightarrow> (int32 \<times> CNetMessage) res" where
  "read_some W m pch = (if \<not> in_data m then readHeader W m pch else readData m pch)"

lemma read_some_cases:
  assumes W: "wire_ok W" and m: "pending W m p" "\<not> we_complete W m" and pch: "pch \<noteq> []" "length pch < 2 ^ 31"
  obtains (reject) m' where "read_some W m pch = Inr (- 1, m')" "split_frames W (p @ pch) = None"
  | (more) k m' where "0 < k" "k \<le> length pch" "read_some W m pch = Inr (int k, m')" "pending W m' (p @ take k pch)"
proof (cases "in_data m")
  case True
  note R = readData_ok [OF W True m pch(2)]
  show ?thesis using R pch(1) that(2) by (fastforce simp: read_some_def True)
next
  case False
  note R = readHeader_ok [OF W False m(1) pch(2)]
  let ?k = "min (24 - length p) (length pch)"
  let ?p = "p @ take ?k pch"
  have k: "0 < ?k" "?k \<le> length pch" using R(1) pch(1) by auto
  have eq: "p @ pch = ?p @ drop ?k pch" by simp
  consider "length ?p < 24" | "length ?p = 24" using R(1) by fastforce
  then show ?thesis
  proof cases
    case 1
    with R(2) obtain m' where "readHeader W m pch = Inr (int ?k, m')" "pending W m' ?p" by blast
    then show ?thesis using that(2) k False by (simp add: read_some_def)
  next
    case 2
    show ?thesis
    proof (cases "we_read_hdr W ?p = None \<or> (\<exists>h r. we_read_hdr W ?p = Some (h, r) \<and> we_max_size W < mh_size h)")
      case True
      have "split_frames W (p @ pch) = None" unfolding eq by (rule split_reject [OF 2 True])
      then show ?thesis using R(3) [OF 2 True] that(1) False by (auto simp: read_some_def)
    next
      case no: False
      then obtain h r where hr: "we_read_hdr W ?p = Some (h, r)" "mh_size h \<le> we_max_size W"
        by (metis not_None_eq not_le_imp_less surj_pair)
      from R(4) [OF 2 hr] obtain m' where "readHeader W m pch = Inr (int ?k, m')" "pending W m' ?p" by blast
      then show ?thesis using that(2) k False by (simp add: read_some_def)
    qed
  qed
qed

lemma received_open:
  assumes "wire_ok W" "received W q fs p"
  obtains ds m where "(if q = [] \<or> we_complete W (last q) then q @ [we_new W v] else q) = ds @ [m]"
    "\<forall>m\<in>set ds. we_complete W m \<and> length (nm_vRecv m) = unat (mh_size (nm_hdr m))" "fs = map frame ds"
    "\<not> we_complete W m" "pending W m p"
proof -
  from assms(2) obtain ds where d: "\<forall>m\<in>set ds. we_complete W m \<and> length (nm_vRecv m) = unat (mh_size (nm_hdr m))"
      "fs = map frame ds" "q = ds \<and> p = [] \<or> (\<exists>m. q = ds @ [m] \<and> \<not> we_complete W m \<and> pending W m p)"
    by (auto simp: received_def)
  have new: "\<not> we_complete W (we_new W v)" "pending W (we_new W v) []"
    using assms(1) by (simp_all add: wire_okD pending_def)
  from d(3) show ?thesis
  proof
    assume "q = ds \<and> p = []"
    then show ?thesis using that [of ds "we_new W v"] d new by (cases "ds = []") auto
  next
    assume "\<exists>m. q = ds @ [m] \<and> \<not> we_complete W m \<and> pending W m p"
    then show ?thesis using that d by auto
  qed
qed

lemma received_nil: "wire_ok W \<Longrightarrow> received W q fs p \<Longrightarrow> split_frames W p = Some ([], p)"
  unfolding received_def using pending_split by (fastforce simp: split_frames.simps [of W "[]"])

lemma pending_complete:
  assumes "wire_ok W" "pending W m p" "we_complete W m"
  shows "length (nm_vRecv m) = unat (mh_size (nm_hdr m))"
    and "split_frames W (p @ rest) = map_option (\<lambda>(fs, p). (frame m # fs, p)) (split_frames W rest)"
proof -
  have c: "in_data m" "nDataPos m = mh_size (nm_hdr m)" using assms by (auto simp: wire_okD)
  then obtain hb r where P: "length hb = 24" "we_read_hdr W hb = Some (nm_hdr m, r)" "mh_size (nm_hdr m) \<le> we_max_size W"
      "length (nm_vRecv m) = unat (mh_size (nm_hdr m))" "p = hb @ nm_vRecv m"
    using assms(2) by (auto simp: pending_def)
  then show "length (nm_vRecv m) = unat (mh_size (nm_hdr m))"
    "split_frames W (p @ rest) = map_option (\<lambda>(fs, p). (frame m # fs, p)) (split_frames W rest)"
    using split_complete [OF P(1-4), of rest] by (simp_all add: frame_def)
qed

lemma ReceiveMsgBytes_frames:
  assumes W: "wire_ok W"
  shows "\<lbrakk> received W q fs p; length pch < 2 ^ 31 \<rbrakk> \<Longrightarrow>
    \<exists>ok q'. ReceiveMsgBytes W v q pch = Some (Inr (ok, q')) \<and>
      (case split_frames W (p @ pch) of None \<Rightarrow> \<not> ok
       | Some (fs', p') \<Rightarrow> ok \<and> received W q' (fs @ fs') p')"
proof (induction "length pch" arbitrary: q fs p pch rule: less_induct)
  case less
  show ?case
  proof (cases "pch = []")
    case True
    then show ?thesis using received_nil [OF W less(2)] less(2) by (subst ReceiveMsgBytes.simps) auto
  next
    case False
    obtain ds m where d: "(if q = [] \<or> we_complete W (last q) then q @ [we_new W v] else q) = ds @ [m]"
        "\<forall>m\<in>set ds. we_complete W m \<and> length (nm_vRecv m) = unat (mh_size (nm_hdr m))" "fs = map frame ds"
        "\<not> we_complete W m" "pending W m p"
      using received_open [OF W less(2)] .
    have unf: "ReceiveMsgBytes W v q pch =
        (case read_some W m pch of
             Inl e \<Rightarrow> Some (Inl e)
           | Inr (handled, msg1) \<Rightarrow>
               if handled < 0 then Some (Inr (False, ds @ [msg1]))
               else ReceiveMsgBytes W v (ds @ [msg1]) (drop (nat handled) pch))"
      unfolding read_some_def
      by (subst ReceiveMsgBytes.simps) (simp only: d(1) Let_def False if_False last_snoc butlast_snoc)
    from W d(5,4) False less(3) show ?thesis
    proof (cases rule: read_some_cases)
      case (reject m')
      then show ?thesis by (auto simp: unf)
    next
      case (more k m')
      let ?q = "ds @ [m']" and ?r = "drop k pch"
      have go: "ReceiveMsgBytes W v q pch = ReceiveMsgBytes W v ?q ?r" using more by (simp add: unf)
      have lt: "length ?r < length pch" "length ?r < 2 ^ 31" using more False less(3) by simp_all
      have eq: "p @ pch = (p @ take k pch) @ ?r" by simp
      show ?thesis
      proof (cases "we_complete W m'")
        case True
        note pc = pending_complete [OF W more(4) True]
        have "received W ?q (fs @ [frame m']) []" unfolding received_def using d(2,3) True pc(1) by fastforce
        from less(1) [OF lt(1) this lt(2)] show ?thesis
          unfolding go eq pc(2) by (auto split: option.splits)
      next
        case no: False
        have "received W ?q fs (p @ take k pch)" unfolding received_def using d(2,3) no more(4) by blast
        from less(1) [OF lt(1) this lt(2)] show ?thesis unfolding go eq .
      qed
    qed
  qed
qed

lemma split_frames_append:
  "split_frames W (xs @ ys) =
     (case split_frames W xs of None \<Rightarrow> None
      | Some (fs, r) \<Rightarrow> map_option (\<lambda>(fs', r'). (fs @ fs', r')) (split_frames W (r @ ys)))"
proof (induction W xs rule: split_frames.induct)
  case (1 W xs)
  show ?case
  proof (cases "split_frames W xs = Some ([], xs)")
    case True
    then show ?thesis by (cases "split_frames W (xs @ ys)") auto
  next
    case False
    then have len: "24 \<le> length xs" by (subst (asm) split_frames.simps) (auto split: if_splits)
    show ?thesis
    proof (cases "we_read_hdr W (take 24 xs)")
      case None
      then show ?thesis using len by (simp add: split_frames.simps [of W "xs @ ys"] split_frames.simps [of W xs])
    next
      case (Some hr)
      obtain h r where hr: "hr = (h, r)" by fastforce
      show ?thesis
      proof (cases "we_max_size W < mh_size h")
        case True
        then show ?thesis using len Some hr by (simp add: split_frames.simps [of W "xs @ ys"] split_frames.simps [of W xs])
      next
        case small: False
        then have long: "24 + unat (mh_size h) \<le> length xs"
          using False len Some hr by (subst (asm) split_frames.simps) (auto split: if_splits)
        let ?rest = "drop (24 + unat (mh_size h)) xs" and ?d = "take (unat (mh_size h)) (drop 24 xs)"
        have X: "split_frames W xs = map_option (\<lambda>(fs, rest). ((h, ?d) # fs, rest)) (split_frames W ?rest)"
          using len Some hr small long by (subst split_frames.simps) simp
        have Y: "split_frames W (xs @ ys) = map_option (\<lambda>(fs, rest). ((h, ?d) # fs, rest)) (split_frames W (?rest @ ys))"
          using len Some hr small long by (subst split_frames.simps) simp
        have IH: "split_frames W (?rest @ ys) =
           (case split_frames W ?rest of None \<Rightarrow> None
            | Some (fs, r) \<Rightarrow> map_option (\<lambda>(fs', r'). (fs @ fs', r')) (split_frames W (r @ ys)))"
          using 1 len Some hr small long by simp
        show ?thesis unfolding X Y IH by (auto split: option.splits simp: option.map_comp comp_def case_prod_unfold)
      qed
    qed
  qed
qed

text \<open>The bytes of a sequence of frames are read back, frame by frame.\<close>

definition wf_frame :: "wire_env \<Rightarrow> bytes \<times> bytes \<Rightarrow> CMessageHeader \<Rightarrow> bool" where
  "wf_frame W f h \<longleftrightarrow> length (fst f) = 24 \<and> (\<exists>r. we_read_hdr W (fst f) = Some (h, r)) \<and>
     mh_size h \<le> we_max_size W \<and> length (snd f) = unat (mh_size h)"

lemma split_frames_concat:
  "list_all2 (wf_frame W) fs hs \<Longrightarrow>
     split_frames W (concat (map (\<lambda>f. fst f @ snd f) fs)) = Some (zip hs (map snd fs), [])"
proof (induction rule: list_all2_induct)
  case Nil
  then show ?case by (subst split_frames.simps) simp
next
  case (Cons f fs h hs)
  then show ?case using split_complete [of "fst f" W h _ "snd f"] by (auto simp: wf_frame_def)
qed

subsection \<open>Incremental reading\<close>

text \<open>A parser of a stream of frames whose result on a longer stream continues the result on the
  shorter one; feeding it the stream in pieces then gives the result on the whole stream.\<close>

locale frame_parser =
  fixes parse :: "'b list \<Rightarrow> ('f list \<times> 'b list) option"
  assumes parse_append: "parse (xs @ ys) =
     (case parse xs of None \<Rightarrow> None
      | Some (fs, r) \<Rightarrow> map_option (\<lambda>(fs', r'). (fs @ fs', r')) (parse (r @ ys)))"
begin

fun feed :: "'b list \<Rightarrow> 'b list list \<Rightarrow> ('f list \<times> 'b list) option" where
  "feed p [] = Some ([], p)"
| "feed p (c # cs) =
     (case parse (p @ c) of None \<Rightarrow> None
      | Some (fs, r) \<Rightarrow> map_option (\<lambda>(fs', r'). (fs @ fs', r')) (feed r cs))"

lemma feed_concat: "parse p = Some ([], p) \<Longrightarrow> feed p cs = parse (p @ concat cs)"
proof (induction cs arbitrary: p)
  case (Cons c cs)
  show ?case
  proof (cases "parse (p @ c)")
    case None
    then show ?thesis using parse_append [of "p @ c" "concat cs"] by simp
  next
    case (Some fr)
    obtain fs r where fr: "fr = (fs, r)" by fastforce
    have "parse (p @ c) = map_option (\<lambda>(fs', r'). (fs @ fs', r')) (parse r)"
      using parse_append [of "p @ c" "[]"] Some fr by simp
    then have "parse r = Some ([], r)" using Some fr by (cases "parse r") auto
    from Cons.IH [OF this] show ?thesis
      using parse_append [of "p @ c" "concat cs"] Some fr by simp
  qed
qed simp

end

interpretation frames: frame_parser "split_frames W" for W
  by unfold_locales (rule split_frames_append)

text \<open>The bytes of successive \<open>recv\<close> calls, handed to \<open>ReceiveMsgBytes\<close> one after the other
  (\<open>ThreadSocketHandler\<close> closes the connection after the first failure).\<close>

fun receive_all :: "wire_env \<Rightarrow> int32 \<Rightarrow> CNetMessage list \<Rightarrow> bytes list \<Rightarrow> (bool \<times> CNetMessage list) res option" where
  "receive_all W v q [] = Some (Inr (True, q))"
| "receive_all W v q (c # cs) =
     (case ReceiveMsgBytes W v q c of
        Some (Inr (True, q')) \<Rightarrow> receive_all W v q' cs
      | r \<Rightarrow> r)"

lemma receive_all_feed:
  assumes W: "wire_ok W"
  shows "\<lbrakk> received W q fs p; \<forall>c\<in>set cs. length c < 2 ^ 31 \<rbrakk> \<Longrightarrow>
    \<exists>ok q'. receive_all W v q cs = Some (Inr (ok, q')) \<and>
      (case frames.feed W p cs of None \<Rightarrow> \<not> ok | Some (fs', p') \<Rightarrow> ok \<and> received W q' (fs @ fs') p')"
proof (induction cs arbitrary: q fs p)
  case (Cons c cs)
  then have "length c < 2 ^ 31" by simp
  from ReceiveMsgBytes_frames [OF W Cons.prems(1) this, of v] obtain ok q' where
    r: "ReceiveMsgBytes W v q c = Some (Inr (ok, q'))"
       "case split_frames W (p @ c) of None \<Rightarrow> \<not> ok | Some (fs', p') \<Rightarrow> ok \<and> received W q' (fs @ fs') p'" by blast
  show ?case
  proof (cases "split_frames W (p @ c)")
    case None
    then show ?thesis using r by auto
  next
    case (Some fr)
    obtain fs1 p1 where fr: "fr = (fs1, p1)" by fastforce
    then have ok: ok "received W q' (fs @ fs1) p1" using r(2) Some by auto
    from Cons.IH [OF ok(2)] Cons.prems(2) obtain ok2 q2 where
      "receive_all W v q' cs = Some (Inr (ok2, q2))"
      "case frames.feed W p1 cs of None \<Rightarrow> \<not> ok2 | Some (fs', p') \<Rightarrow> ok2 \<and> received W q2 ((fs @ fs1) @ fs') p'" by auto
    then show ?thesis using r(1) ok(1) Some fr by (auto split: option.splits)
  qed
qed auto

lemma received_empty: "received W [] [] []"
  by (simp add: received_def)

lemma received_complete: "received W q fs [] \<Longrightarrow> \<forall>m\<in>set q. pending W m [] \<longrightarrow> we_complete W m \<Longrightarrow> map frame q = fs"
  by (auto simp: received_def)

lemma receive_all_split:
  assumes "wire_ok W" "\<forall>c\<in>set cs. length c < 2 ^ 31" "split_frames W (concat cs) = Some (fs, p)"
  shows "\<exists>q. receive_all W v [] cs = Some (Inr (True, q)) \<and> received W q fs p"
proof -
  have "frames.feed W [] cs = split_frames W (concat cs)"
    using frames.feed_concat [of W "[]" cs] by (simp add: split_frames.simps [of W "[]"])
  then show ?thesis
    using receive_all_feed [OF assms(1) received_empty assms(2), of v] assms(3) by auto
qed

text \<open>C10. \<open>ReceiveMsgBytes\<close> implements the stream of frames.  It returns, stays inside its buffers, and
  fails exactly if the bytes of the unfinished message followed by the new ones contain a header that
  cannot be read or announces more than \<open>MAX_SIZE\<close>; otherwise the queue then holds the old frames,
  the new complete frames in order, and the bytes of the next unfinished message.\<close>

theorem ReceiveMsgBytes_refines:
  assumes "wire_ok W" "received W q fs p" "length pch < 2 ^ 31"
  shows "\<exists>ok q'. ReceiveMsgBytes W v q pch = Some (Inr (ok, q')) \<and>
      (case split_frames W (p @ pch) of None \<Rightarrow> \<not> ok
       | Some (fs', p') \<Rightarrow> ok \<and> received W q' (fs @ fs') p')"
  by (rule ReceiveMsgBytes_frames [OF assms])

definition demo_wire :: wire_env where
  "demo_wire = \<lparr> we_new = (\<lambda>v. \<lparr> in_data = False, hdrbuf = replicate 24 0, nHdrPos = 0,
       nm_hdr = \<lparr> mh_start = [], mh_command = [], mh_size = 0, mh_checksum = 0 \<rparr>, nm_vRecv = [], nDataPos = 0 \<rparr>),
     we_complete = (\<lambda>m. in_data m \<and> nDataPos m = mh_size (nm_hdr m)),
     we_read_hdr = (\<lambda>bs. Some (\<lparr> mh_start = take 4 bs, mh_command = [], mh_size = ucast (bs ! 16), mh_checksum = 0 \<rparr>, [])),
     we_max_size = 100 \<rparr>"

lemma wire_ok_demo: "wire_ok demo_wire"
  by (simp add: wire_ok_def demo_wire_def)

definition demo_hdr :: bytes where
  "demo_hdr = [1, 1, 1, 1, 0, 0, 0, 0, 0, 0, 0, 0, 0, 0, 0, 0, 2, 0, 0, 0, 0, 0, 0, 0]"

abbreviation demo_header :: CMessageHeader where
  "demo_header \<equiv> \<lparr> mh_start = [1, 1, 1, 1], mh_command = [], mh_size = 2, mh_checksum = 0 \<rparr>"

lemma demo_hdr_facts:
  "length demo_hdr = 24" "we_read_hdr demo_wire demo_hdr = Some (demo_header, [])"
  "mh_size demo_header \<le> we_max_size demo_wire" "length [5 :: byte, 6] = unat (mh_size demo_header)"
  by (simp_all add: demo_hdr_def demo_wire_def)

theorem ReceiveMsgBytes_refines_witness:
  "\<exists>q'. ReceiveMsgBytes demo_wire 0 [] (demo_hdr @ [5, 6, 9]) = Some (Inr (True, q')) \<and>
     received demo_wire q' [(demo_header, [5, 6])] [9]"
proof -
  have s: "split_frames demo_wire ([] @ demo_hdr @ [5, 6, 9]) = Some ([(demo_header, [5, 6])], [9])"
    using split_complete [OF demo_hdr_facts, of "[9]"] by (simp add: split_frames.simps [of _ "[9]"])
  have l: "length (demo_hdr @ [5, 6, 9]) < 2 ^ 31" by (simp add: demo_hdr_facts)
  show ?thesis
    using ReceiveMsgBytes_refines [OF wire_ok_demo received_empty l, of 0] unfolding s by auto
qed

text \<open>C11. However the network cuts the stream into pieces, the receiver reassembles the messages: if
  the pieces together are the bytes of well-formed frames, feeding them to \<open>ReceiveMsgBytes\<close> one after
  the other succeeds, and the queue then stands for exactly these frames with nothing left over.\<close>

theorem receive_all_reassembles:
  assumes "wire_ok W" "list_all2 (wf_frame W) fs hs" "\<forall>c\<in>set cs. length c < 2 ^ 31"
    and "concat cs = concat (map (\<lambda>f. fst f @ snd f) fs)"
  shows "\<exists>q. receive_all W v [] cs = Some (Inr (True, q)) \<and> received W q (zip hs (map snd fs)) []"
  using receive_all_split [OF assms(1,3)] split_frames_concat [OF assms(2)] assms(4) by simp

theorem receive_all_reassembles_witness:
  "\<exists>q. receive_all demo_wire 0 [] [take 10 demo_hdr, drop 10 demo_hdr @ [5], [6]] = Some (Inr (True, q)) \<and>
     received demo_wire q [(demo_header, [5, 6])] []"
proof -
  have "list_all2 (wf_frame demo_wire) [(demo_hdr, [5, 6])] [demo_header]"
    using demo_hdr_facts by (simp add: wf_frame_def)
  from receive_all_reassembles [OF wire_ok_demo this, of "[take 10 demo_hdr, drop 10 demo_hdr @ [5], [6]]" 0]
  show ?thesis using demo_hdr_facts(1) by simp
qed

end
