(* ===== verification/Node.thy ===== *)
theory Node
  imports Wire AddrMan
begin

text \<open>
  The peers of the node (\<open>net.cpp\<close>): sending and receiving on their sockets, misbehaviour and bans,
  the local addresses offered to peers, the choice of outbound connections, synchronisation and the
  relay of transactions.  The class \<open>CNode\<close> is in a missing header: the record has the members that
  the code uses, \<open>nd_hidden\<close> stands for the members that only the missing methods use, and these
  methods are fields of \<open>net_env\<close>.  A \<open>CNode*\<close> is a natural number; whether a \<open>TRY_LOCK\<close> succeeds,
  the clock and the results of system calls are arguments.
\<close>

record 'r CNode =
  nd_addr :: CAddress
  nd_addrName :: string
  nd_addrLocal :: CService
  nd_nVersion :: int32
  nd_nServices :: uint64
  strSubVer :: string
  nStartingHeight :: int32
  fInbound :: bool
  fNetworkNode :: bool
  fOneShot :: bool
  fClient :: bool
  fSuccessfullyConnected :: bool
  fDisconnect :: bool
  fGetAddr :: bool
  fStartSync :: bool
  fRelayTxes :: bool
  nMisbehavior :: int32
  nLastSend :: int64
  nLastRecv :: int64
  nLastSendEmpty :: int64
  nTimeConnected :: int64
  hSocket :: "nat option"
  vSendMsg :: "bytes list"
  nSendOffset :: nat
  nSendSize :: uint64
  nSendBytes :: uint64
  nRecvBytes :: uint64
  vRecvMsg :: "CNetMessage list"
  nRecvVersion :: int32
  vRecvGetData :: "CInv list"
  vAddrToSend :: "CAddress list"
  nd_setKnown :: "uint256 set"
  pfilter :: "CBloomFilter option"
  mapAskFor :: "(int64 \<times> CInv) list"
  pindexLastGetBlocksBegin :: "uint256 option"
  hashLastGetBlocksEnd :: uint256
  nd_hidden :: 'r

record LocalServiceInfo =
  ls_nScore :: int32
  ls_nPort :: int32

record 'r net =
  vNodes :: "nat list"
  node :: "nat \<Rightarrow> 'r CNode"
  next_node :: nat
  pnodeSync :: "nat option"
  setBanned :: "CNetAddr \<rightharpoonup> int64"
  mapLocalHost :: "(CNetAddr \<times> LocalServiceInfo) list"
  vfReachable :: "Network \<Rightarrow> bool"
  vfLimited :: "Network \<Rightarrow> bool"
  nLocalServices :: uint64
  vOneShots :: "string list"
  addrman :: CAddrMan
  mapRelay :: "CInv \<rightharpoonup> bytes"
  vRelayExpiration :: "(int64 \<times> CInv) list"
  setservAddNodeAddresses :: "CNetAddr set"
  closed_sockets :: "nat list"

record 'r net_env =
  ne_proto :: proto_consts
  ne_wire :: wire_env
  ne_resolver :: resolver
  ne_class :: "Network \<Rightarrow> int"
  ne_push_address :: "CAddress \<Rightarrow> 'r CNode \<Rightarrow> 'r CNode"
  ne_push_inventory :: "CInv \<Rightarrow> 'r CNode \<Rightarrow> 'r CNode"
  ne_new_node :: "nat \<Rightarrow> CAddress \<Rightarrow> string \<Rightarrow> bool \<Rightarrow> 'r CNode"
  ne_grant_to :: "'r CNode \<Rightarrow> 'r CNode"
  ne_banscore :: int64
  ne_bantime :: int64
  ne_local_manual :: int32
  ne_listen_port :: "16 word"
  ne_default_port :: "16 word"
  ne_fDiscover :: bool
  ne_fNoListen :: bool
  ne_noblks_start :: int32
  ne_noblks_end :: int32
  ne_nMaxConnections :: int32

definition upd_node :: "nat \<Rightarrow> ('r CNode \<Rightarrow> 'r CNode) \<Rightarrow> 'r net \<Rightarrow> 'r net" where
  "upd_node i f s = s\<lparr> node := (node s)(i := f (node s i)) \<rparr>"

definition MAX_OUTBOUND_CONNECTIONS :: int32 where "MAX_OUTBOUND_CONNECTIONS = 8"

subsection \<open>Local addresses\<close>

definition reach_val :: "Reachability \<Rightarrow> int32" where
  "reach_val r = (case r of REACH_UNREACHABLE \<Rightarrow> 0 | REACH_DEFAULT \<Rightarrow> 1 | REACH_TEREDO \<Rightarrow> 2
     | REACH_IPV6_WEAK \<Rightarrow> 3 | REACH_IPV4 \<Rightarrow> 4 | REACH_IPV6_STRONG \<Rightarrow> 5 | REACH_PRIVATE \<Rightarrow> 6)"

fun local_loop ::
  "CNetAddr option \<Rightarrow> (CNetAddr \<times> LocalServiceInfo) list \<Rightarrow> int32 \<times> int32 \<times> CService \<Rightarrow> int32 \<times> int32 \<times> CService" where
  "local_loop peer [] best = best"
| "local_loop peer ((a, info) # rest) (nBestReachability, nBestScore, addr) =
     (let nScore = ls_nScore info; nReachability = reach_val (GetReachabilityFrom a peer) in
      local_loop peer rest
        (if nReachability > nBestReachability \<or> (nReachability = nBestReachability \<and> nScore > nBestScore)
         then (nReachability, nScore, CService_make a (word_of_int (ls_nPort info)))
         else (nBestReachability, nBestScore, addr)))"

definition GetLocal :: "'r net_env \<Rightarrow> CNetAddr option \<Rightarrow> 'r net \<Rightarrow> CService \<Rightarrow> bool \<times> CService" where
  "GetLocal E peer s addr =
     (if ne_fNoListen E then (False, addr)
      else case local_loop peer (mapLocalHost s) (- 1, - 1, addr) of
        (_, nBestScore, best) \<Rightarrow> (nBestScore \<ge> 0, best))"

definition GetLocalAddress :: "'r net_env \<Rightarrow> int64 \<Rightarrow> CNetAddr option \<Rightarrow> 'r net \<Rightarrow> CAddress" where
  "GetLocalAddress E nAdjustedTime peer s =
     (case GetLocal E peer s CService_Init of
        (True, addr) \<Rightarrow> (CAddress_of (ne_proto E) addr)\<lparr> nServices := nLocalServices s, ca_nTime := word_of_int nAdjustedTime \<rparr>
      | (False, _) \<Rightarrow> CAddress_make (ne_proto E) (CService_of_string (ne_resolver E) ''0.0.0.0'' 0 False) 0)"

definition advertize_to :: "'r net_env \<Rightarrow> int64 \<Rightarrow> nat \<Rightarrow> 'r net \<Rightarrow> 'r net" where
  "advertize_to E nAdjustedTime i s =
     (let n = node s i in
      if fSuccessfullyConnected n then
        let addrLocal = GetLocalAddress E nAdjustedTime (Some (ip_key (nd_addr n))) s in
        if IsRoutable addrLocal \<and> \<not> Service_eq addrLocal (nd_addrLocal n)
        then upd_node i (\<lambda>n. (ne_push_address E addrLocal n)\<lparr> nd_addrLocal := CService.truncate addrLocal \<rparr>) s
        else s
      else s)"

definition AdvertizeLocal :: "'r net_env \<Rightarrow> int64 \<Rightarrow> 'r net \<Rightarrow> 'r net" where
  "AdvertizeLocal E nAdjustedTime s = fold (advertize_to E nAdjustedTime) (vNodes s) s"

definition SetReachable :: "Network \<Rightarrow> bool \<Rightarrow> 'r net \<Rightarrow> 'r net" where
  "SetReachable net fFlag s =
     (let s1 = s\<lparr> vfReachable := (vfReachable s)(net := fFlag) \<rparr> in
      if net = NET_IPV6 \<and> fFlag then s1\<lparr> vfReachable := (vfReachable s1)(NET_IPV4 := True) \<rparr> else s1)"

definition SetLimited :: "Network \<Rightarrow> bool \<Rightarrow> 'r net \<Rightarrow> 'r net" where
  "SetLimited net fLimited s =
     (if net = NET_UNROUTABLE then s else s\<lparr> vfLimited := (vfLimited s)(net := fLimited) \<rparr>)"

definition IsLimited :: "'a CNetAddr_scheme \<Rightarrow> 'r net \<Rightarrow> bool" where
  "IsLimited addr s = vfLimited s (GetNetwork addr)"

definition IsReachable :: "'a CNetAddr_scheme \<Rightarrow> 'r net \<Rightarrow> bool" where
  "IsReachable addr s \<longleftrightarrow> vfReachable s (GetNetwork addr) \<and> \<not> vfLimited s (GetNetwork addr)"

text \<open>The map is kept in the order of its keys; \<open>put_local\<close> is the assignment \<open>mapLocalHost[addr] = info\<close>.\<close>

fun put_local :: "CNetAddr \<Rightarrow> LocalServiceInfo \<Rightarrow> (CNetAddr \<times> LocalServiceInfo) list \<Rightarrow> (CNetAddr \<times> LocalServiceInfo) list" where
  "put_local a info [] = [(a, info)]"
| "put_local a info ((b, v) # m) =
     (if NetAddr_less a b then (a, info) # (b, v) # m
      else if NetAddr_less b a then (b, v) # put_local a info m
      else (b, info) # m)"

definition is_local :: "'a CNetAddr_scheme \<Rightarrow> 'r net \<Rightarrow> bool" where
  "is_local addr s \<longleftrightarrow> map_of (mapLocalHost s) (ip_key addr) \<noteq> None"

definition AddLocal :: "'r net_env \<Rightarrow> int64 \<Rightarrow> CService \<Rightarrow> int32 \<Rightarrow> 'r net \<Rightarrow> bool \<times> 'r net" where
  "AddLocal E nAdjustedTime addr nScore s =
     (if \<not> IsRoutable addr then (False, s)
      else if \<not> ne_fDiscover E \<and> nScore < ne_local_manual E then (False, s)
      else if IsLimited addr s then (False, s)
      else
        let info = (case map_of (mapLocalHost s) (ip_key addr) of
                      None \<Rightarrow> \<lparr> ls_nScore = nScore, ls_nPort = uint (na_port addr) \<rparr>
                    | Some i \<Rightarrow> if nScore \<ge> ls_nScore i
                                then \<lparr> ls_nScore = nScore + 1, ls_nPort = uint (na_port addr) \<rparr> else i);
            s1 = s\<lparr> mapLocalHost := put_local (ip_key addr) info (mapLocalHost s) \<rparr>
        in (True, AdvertizeLocal E nAdjustedTime (SetReachable (GetNetwork addr) True s1)))"

definition AddLocal_addr :: "'r net_env \<Rightarrow> int64 \<Rightarrow> CNetAddr \<Rightarrow> int32 \<Rightarrow> 'r net \<Rightarrow> bool \<times> 'r net" where
  "AddLocal_addr E nAdjustedTime addr nScore s = AddLocal E nAdjustedTime (CService_make addr (ne_listen_port E)) nScore s"

definition SeenLocal :: "'r net_env \<Rightarrow> int64 \<Rightarrow> 'a CService_scheme \<Rightarrow> 'r net \<Rightarrow> bool \<times> 'r net" where
  "SeenLocal E nAdjustedTime addr s =
     (case map_of (mapLocalHost s) (ip_key addr) of
        None \<Rightarrow> (False, s)
      | Some i \<Rightarrow> (True, AdvertizeLocal E nAdjustedTime
          (s\<lparr> mapLocalHost := put_local (ip_key addr) (i\<lparr> ls_nScore := ls_nScore i + 1 \<rparr>) (mapLocalHost s) \<rparr>)))"

subsection \<open>Closing, misbehaviour and bans\<close>

definition CloseSocketDisconnect :: "bool \<Rightarrow> nat \<Rightarrow> 'r net \<Rightarrow> 'r net" where
  "CloseSocketDisconnect lockRecv i s =
     (let n = node s i;
          s1 = upd_node i (\<lambda>n. n\<lparr> fDisconnect := True, hSocket := None,
                                 vRecvMsg := (if lockRecv then [] else vRecvMsg n) \<rparr>) s;
          s2 = (case hSocket n of None \<Rightarrow> s1 | Some h \<Rightarrow> s1\<lparr> closed_sockets := closed_sockets s1 @ [h] \<rparr>)
      in if pnodeSync s2 = Some i then s2\<lparr> pnodeSync := None \<rparr> else s2)"

definition ClearBanned :: "'r net \<Rightarrow> 'r net" where
  "ClearBanned s = s\<lparr> setBanned := Map.empty \<rparr>"

definition IsBanned :: "int64 \<Rightarrow> 'a CNetAddr_scheme \<Rightarrow> 'r net \<Rightarrow> bool" where
  "IsBanned nNow ip s = (case setBanned s (ip_key ip) of None \<Rightarrow> False | Some t \<Rightarrow> nNow < t)"

definition Misbehaving :: "'r net_env \<Rightarrow> bool \<Rightarrow> int64 \<Rightarrow> int32 \<Rightarrow> nat \<Rightarrow> 'r net \<Rightarrow> bool \<times> 'r net" where
  "Misbehaving E lockRecv nNow howmuch i s =
     (if IsLocal (nd_addr (node s i)) then (False, s)
      else
        let s1 = upd_node i (\<lambda>n. n\<lparr> nMisbehavior := nMisbehavior n + howmuch \<rparr>) s; n = node s1 i in
        if nMisbehavior n \<ge> ne_banscore E then
          let banTime = nNow + ne_bantime E;
              k = ip_key (nd_addr n);
              old = (case setBanned s1 k of None \<Rightarrow> 0 | Some t \<Rightarrow> t);
              s2 = s1\<lparr> setBanned := (setBanned s1)(k \<mapsto> (if old < banTime then banTime else old)) \<rparr>
          in (True, CloseSocketDisconnect lockRecv i s2)
        else (False, s1))"

subsection \<open>Sockets\<close>

datatype sock_error = WSAEWOULDBLOCK | WSAEMSGSIZE | WSAEINTR | WSAEINPROGRESS | Other_error

text \<open>The result of a call of \<open>send\<close>, by the number of the call and the bytes offered.\<close>

type_synonym send_call = "nat \<Rightarrow> bytes \<Rightarrow> int32 \<times> sock_error"

fun send_loop :: "send_call \<Rightarrow> bool \<Rightarrow> int64 \<Rightarrow> nat \<Rightarrow> nat \<Rightarrow> bytes list \<Rightarrow> 'r net \<Rightarrow> bytes \<Rightarrow> (bytes list \<times> 'r net \<times> bytes) res" where
  "send_loop snd_call lockRecv nNow i k [] s out = Inr ([], s, out)"
| "send_loop snd_call lockRecv nNow i k (data # rest) s out =
     (let off = nSendOffset (node s i) in
      if \<not> length data > off then Inl AssertFailed
      else case snd_call k (drop off data) of (nBytes, nErr) \<Rightarrow>
        if nBytes > 0 then
          let s1 = upd_node i (\<lambda>n. n\<lparr> nLastSend := nNow, nSendBytes := nSendBytes n + word_of_int nBytes,
                                     nSendOffset := off + nat nBytes \<rparr>) s;
              out1 = out @ take (nat nBytes) (drop off data)
          in if off + nat nBytes = length data then
               send_loop snd_call lockRecv nNow i (k + 1) rest
                 (upd_node i (\<lambda>n. n\<lparr> nSendOffset := 0, nSendSize := nSendSize n - word_of_nat (length data) \<rparr>) s1) out1
             else Inr (data # rest, s1, out1)
        else if nBytes < 0 \<and> nErr \<notin> {WSAEWOULDBLOCK, WSAEMSGSIZE, WSAEINTR, WSAEINPROGRESS}
          then Inr (data # rest, CloseSocketDisconnect lockRecv i s, out)
        else Inr (data # rest, s, out))"

definition SocketSendData :: "send_call \<Rightarrow> bool \<Rightarrow> int64 \<Rightarrow> nat \<Rightarrow> 'r net \<Rightarrow> ('r net \<times> bytes) res" where
  "SocketSendData snd_call lockRecv nNow i s =
     bind_res (send_loop snd_call lockRecv nNow i 0 (vSendMsg (node s i)) s []) (\<lambda>(left, s1, out).
       if left = [] \<and> \<not> (nSendOffset (node s1 i) = 0 \<and> nSendSize (node s1 i) = 0) then Inl AssertFailed
       else Inr (upd_node i (\<lambda>n. n\<lparr> vSendMsg := left \<rparr>) s1, out))"

text \<open>The receiving half of the service of a socket in \<open>ThreadSocketHandler\<close>: \<open>recv\<close> gave bytes, the end
  of the stream, or an error.\<close>

datatype recv_result = Received bytes | Stream_end | Recv_error sock_error

definition socket_receive :: "'r net_env \<Rightarrow> bool \<Rightarrow> int64 \<Rightarrow> recv_result \<Rightarrow> nat \<Rightarrow> 'r net \<Rightarrow> 'r net res option" where
  "socket_receive E lockRecv nNow r i s =
     (case r of
        Received bs \<Rightarrow>
          (case ReceiveMsgBytes (ne_wire E) (nRecvVersion (node s i)) (vRecvMsg (node s i)) bs of
             None \<Rightarrow> None
           | Some (Inl e) \<Rightarrow> Some (Inl e)
           | Some (Inr (ok, q)) \<Rightarrow>
               let s1 = upd_node i (\<lambda>n. n\<lparr> vRecvMsg := q \<rparr>) s;
                   s2 = (if ok then s1 else CloseSocketDisconnect lockRecv i s1)
               in Some (Inr (upd_node i (\<lambda>n. n\<lparr> nLastRecv := nNow, nRecvBytes := nRecvBytes n + word_of_nat (length bs) \<rparr>) s2)))
      | Stream_end \<Rightarrow> Some (Inr (CloseSocketDisconnect lockRecv i s))
      | Recv_error nErr \<Rightarrow> Some (Inr (if nErr \<notin> {WSAEWOULDBLOCK, WSAEMSGSIZE, WSAEINTR, WSAEINPROGRESS}
                                       then CloseSocketDisconnect lockRecv i s else s)))"

definition check_inactivity :: "int64 \<Rightarrow> nat \<Rightarrow> 'r net \<Rightarrow> 'r net" where
  "check_inactivity nNow i s =
     (let s1 = (if vSendMsg (node s i) = [] then upd_node i (\<lambda>n. n\<lparr> nLastSendEmpty := nNow \<rparr>) s else s);
          n = node s1 i
      in if nNow - nTimeConnected n > 60 \<and>
            (nLastRecv n = 0 \<or> nLastSend n = 0
             \<or> (nNow - nLastSend n > 90 * 60 \<and> nNow - nLastSendEmpty n > 90 * 60)
             \<or> nNow - nLastRecv n > 90 * 60)
         then upd_node i (\<lambda>n. n\<lparr> fDisconnect := True \<rparr>) s1
         else s1)"

text \<open>An incoming connection: the socket that \<open>accept\<close> returned and the address of the peer.\<close>

definition accept_connection :: "'r net_env \<Rightarrow> int64 \<Rightarrow> nat \<Rightarrow> CAddress \<Rightarrow> 'r net \<Rightarrow> 'r net" where
  "accept_connection E nNow h addr s =
     (let nInbound = int (length (filter (\<lambda>i. fInbound (node s i)) (vNodes s))) in
      if nInbound \<ge> ne_nMaxConnections E - MAX_OUTBOUND_CONNECTIONS then
        (if ip_key addr \<notin> setservAddNodeAddresses s then s\<lparr> closed_sockets := closed_sockets s @ [h] \<rparr> else s)
      else if IsBanned nNow addr s then s\<lparr> closed_sockets := closed_sockets s @ [h] \<rparr>
      else s\<lparr> node := (node s)(next_node s := ne_new_node E h addr [] True), next_node := next_node s + 1,
              vNodes := vNodes s @ [next_node s] \<rparr>)"

subsection \<open>Outbound connections\<close>

definition FindNode_ip :: "CNetAddr \<Rightarrow> 'r net \<Rightarrow> nat option" where
  "FindNode_ip ip s = List.find (\<lambda>i. NetAddr_eq (nd_addr (node s i)) ip) (vNodes s)"

definition FindNode_name :: "string \<Rightarrow> 'r net \<Rightarrow> nat option" where
  "FindNode_name addrName s = List.find (\<lambda>i. nd_addrName (node s i) = addrName) (vNodes s)"

definition FindNode_service :: "CService \<Rightarrow> 'r net \<Rightarrow> nat option" where
  "FindNode_service addr s = List.find (\<lambda>i. Service_eq (nd_addr (node s i)) addr) (vNodes s)"

text \<open>The outcome of \<open>ConnectSocket\<close> or \<open>ConnectSocketByName\<close>: the socket and the address connected to.
  The reference counts of nodes are not part of the model.\<close>

definition ConnectNode ::
  "'r net_env \<Rightarrow> int64 \<Rightarrow> int64 \<Rightarrow> (nat \<times> CAddress) option \<Rightarrow> CAddress \<Rightarrow> string option \<Rightarrow> 'r net \<Rightarrow> nat option \<times> 'r net" where
  "ConnectNode E nNow nAdjustedTime conn addrConnect pszDest s =
     (if pszDest = None \<and> is_local addrConnect s then (None, s)
      else if pszDest = None \<and> FindNode_service (CService.truncate addrConnect) s \<noteq> None
        then (FindNode_service (CService.truncate addrConnect) s, s)
      else case conn of
        None \<Rightarrow> (None, s)
      | Some (h, addr) \<Rightarrow>
          let i = next_node s;
              n = (ne_new_node E h addr (case pszDest of None \<Rightarrow> [] | Some d \<Rightarrow> d) False)\<lparr> nTimeConnected := nNow \<rparr>
          in (Some i, s\<lparr> addrman := AM_Attempt addr nAdjustedTime (addrman s), node := (node s)(i := n),
                         next_node := i + 1, vNodes := vNodes s @ [i] \<rparr>))"

definition OpenNetworkConnection ::
  "'r net_env \<Rightarrow> (sockaddr \<Rightarrow> string option) \<Rightarrow> int64 \<Rightarrow> int64 \<Rightarrow> (nat \<times> CAddress) option \<Rightarrow>
     CAddress \<Rightarrow> bool \<Rightarrow> string option \<Rightarrow> bool \<Rightarrow> 'r net \<Rightarrow> bool \<times> 'r net" where
  "OpenNetworkConnection E ni nNow nAdjustedTime conn addrConnect grant strDest oneShot s =
     (if strDest = None \<and> (is_local addrConnect s \<or> FindNode_ip (ip_key addrConnect) s \<noteq> None
           \<or> IsBanned nNow addrConnect s \<or> FindNode_name (ToStringIPPort ni addrConnect) s \<noteq> None) then (False, s)
      else if (case strDest of None \<Rightarrow> False | Some d \<Rightarrow> FindNode_name d s \<noteq> None) then (False, s)
      else case ConnectNode E nNow nAdjustedTime conn addrConnect strDest s of
        (None, s1) \<Rightarrow> (False, s1)
      | (Some i, s1) \<Rightarrow>
          let s2 = (if grant then upd_node i (ne_grant_to E) s1 else s1);
              s3 = upd_node i (\<lambda>n. n\<lparr> fNetworkNode := True \<rparr>) s2
          in (True, if oneShot then upd_node i (\<lambda>n. n\<lparr> fOneShot := True \<rparr>) s3 else s3))"

text \<open>The inner loop of \<open>ThreadOpenConnections\<close>.  It ends after at most 101 selections, so 101 rounds are
  enough; \<open>sel\<close> is the call of \<open>addrman.Select\<close>.\<close>

fun outbound_loop :: "'r net_env \<Rightarrow> CAddress rnd \<Rightarrow> bytes set \<Rightarrow> int64 \<Rightarrow> 'r net \<Rightarrow> nat \<Rightarrow> int32 \<Rightarrow> CAddress rnd" where
  "outbound_loop E sel setConnected nANow s 0 nTries = lift (Inl NoReturn)"
| "outbound_loop E sel setConnected nANow s (Suc fuel) nTries =
     rbind sel (\<lambda>addr.
       if \<not> NetAddr_IsValid addr \<or> GetGroup (ne_class E) addr \<in> setConnected \<or> is_local addr s then ret (CAddress_Init (ne_proto E))
       else if nTries + 1 > 100 then ret (CAddress_Init (ne_proto E))
       else if IsLimited addr s then outbound_loop E sel setConnected nANow s fuel (nTries + 1)
       else if nANow - nLastTry addr < 600 \<and> nTries + 1 < 30 then outbound_loop E sel setConnected nANow s fuel (nTries + 1)
       else if na_port addr \<noteq> ne_default_port E \<and> nTries + 1 < 50 then outbound_loop E sel setConnected nANow s fuel (nTries + 1)
       else ret addr)"

definition outbound_nodes :: "'r net \<Rightarrow> nat list" where
  "outbound_nodes s = filter (\<lambda>i. \<not> fInbound (node s i)) (vNodes s)"

definition choose_outbound :: "'r net_env \<Rightarrow> fp_env \<Rightarrow> int64 \<Rightarrow> 'r net \<Rightarrow> CAddress rnd" where
  "choose_outbound E F nANow s =
     (let setConnected = (\<lambda>i. GetGroup (ne_class E) (nd_addr (node s i))) ` set (outbound_nodes s);
          nOutbound = int (length (outbound_nodes s))
      in outbound_loop E (AM_Select (ne_proto E) F nANow (10 + min nOutbound 8 * 10) (addrman s)) setConnected nANow s 101 0)"

text \<open>One round of \<open>ThreadOpenConnections\<close> after the seeding.\<close>

definition open_round ::
  "'r net_env \<Rightarrow> fp_env \<Rightarrow> (sockaddr \<Rightarrow> string option) \<Rightarrow> int64 \<Rightarrow> int64 \<Rightarrow> (CAddress \<Rightarrow> nat option) \<Rightarrow> 'r net \<Rightarrow> 'r net rnd" where
  "open_round E F ni nNow nAdjustedTime connect s =
     rbind (choose_outbound E F nAdjustedTime s) (\<lambda>addrConnect.
       if NetAddr_IsValid addrConnect
       then ret (snd (OpenNetworkConnection E ni nNow nAdjustedTime
                        (map_option (\<lambda>h. (h, addrConnect)) (connect addrConnect)) addrConnect True None False s))
       else ret s)"

subsection \<open>Synchronisation and relay\<close>

definition sync_candidate :: "'r net_env \<Rightarrow> int32 \<Rightarrow> 'r CNode \<Rightarrow> bool" where
  "sync_candidate E nBestHeight n \<longleftrightarrow>
     \<not> fClient n \<and> \<not> fOneShot n \<and> \<not> fDisconnect n \<and> fSuccessfullyConnected n \<and> nStartingHeight n > nBestHeight - 144
     \<and> (nd_nVersion n < ne_noblks_start E \<or> nd_nVersion n \<ge> ne_noblks_end E)"

definition NodeSyncScore :: "'r CNode \<Rightarrow> int64" where
  "NodeSyncScore n = - nLastRecv n"

fun sync_loop :: "'r net_env \<Rightarrow> int32 \<Rightarrow> (nat \<Rightarrow> 'r CNode) \<Rightarrow> nat list \<Rightarrow> (nat \<times> int64) option \<Rightarrow> (nat \<times> int64) option" where
  "sync_loop E nBestHeight nd [] best = best"
| "sync_loop E nBestHeight nd (i # is) best =
     sync_loop E nBestHeight nd is
       (if sync_candidate E nBestHeight (nd i)
           \<and> (case best of None \<Rightarrow> True | Some (_, dBestScore) \<Rightarrow> NodeSyncScore (nd i) > dBestScore)
        then Some (i, NodeSyncScore (nd i)) else best)"

definition StartSync :: "'r net_env \<Rightarrow> int32 \<Rightarrow> nat list \<Rightarrow> 'r net \<Rightarrow> 'r net" where
  "StartSync E nBestHeight nodes s =
     (case sync_loop E nBestHeight (node s) nodes None of
        None \<Rightarrow> s
      | Some (i, _) \<Rightarrow> (upd_node i (\<lambda>n. n\<lparr> fStartSync := True \<rparr>) s)\<lparr> pnodeSync := Some i \<rparr>)"

definition expire_relay :: "int64 \<Rightarrow> 'r net \<Rightarrow> 'r net" where
  "expire_relay nNow s =
     (let old = takeWhile (\<lambda>(t, iv). t < nNow) (vRelayExpiration s) in
      s\<lparr> mapRelay := fold (\<lambda>(t, iv) m. m(iv := None)) old (mapRelay s),
         vRelayExpiration := dropWhile (\<lambda>(t, iv). t < nNow) (vRelayExpiration s) \<rparr>)"

definition relay_to :: "'r net_env \<Rightarrow> 'ty script_ops \<Rightarrow> CTransaction \<Rightarrow> uint256 \<Rightarrow> CInv \<Rightarrow> nat \<Rightarrow> 'r net \<Rightarrow> 'r net res" where
  "relay_to E S tx hash iv i s =
     (let n = node s i in
      if \<not> fRelayTxes n then Inr s
      else case pfilter n of
        None \<Rightarrow> Inr (upd_node i (ne_push_inventory E iv) s)
      | Some f \<Rightarrow> bind_res (IsRelevantAndUpdate S tx hash f) (\<lambda>(rel, f1).
          let s1 = upd_node i (\<lambda>n. n\<lparr> pfilter := Some f1 \<rparr>) s in
          Inr (if rel then upd_node i (ne_push_inventory E iv) s1 else s1)))"

fun relay_all :: "'r net_env \<Rightarrow> 'ty script_ops \<Rightarrow> CTransaction \<Rightarrow> uint256 \<Rightarrow> CInv \<Rightarrow> nat list \<Rightarrow> 'r net \<Rightarrow> 'r net res" where
  "relay_all E S tx hash iv [] s = Inr s"
| "relay_all E S tx hash iv (i # is) s = bind_res (relay_to E S tx hash iv i s) (relay_all E S tx hash iv is)"

definition RelayTransaction ::
  "'r net_env \<Rightarrow> 'ty script_ops \<Rightarrow> int32 \<Rightarrow> int64 \<Rightarrow> CTransaction \<Rightarrow> uint256 \<Rightarrow> bytes \<Rightarrow> 'r net \<Rightarrow> 'r net res" where
  "RelayTransaction E S MSG_TX nNow tx hash ss s =
     (let iv = \<lparr> inv_type = MSG_TX, inv_hash = hash \<rparr>;
          s1 = expire_relay nNow s;
          s2 = s1\<lparr> mapRelay := (case mapRelay s1 iv of None \<Rightarrow> (mapRelay s1)(iv \<mapsto> ss) | Some _ \<Rightarrow> mapRelay s1),
                   vRelayExpiration := vRelayExpiration s1 @ [(nNow + 15 * 60, iv)] \<rparr>
      in relay_all E S tx hash iv (vNodes s2) s2)"

end
