(* ===== verification/NodeProps.thy ===== *)
theory NodeProps
  imports Node
begin

text \<open>
  Properties of the peers: nothing that is queued for a peer is lost or reordered, misbehaving peers
  are banned and stay out, outbound connections go to different address groups, and the local
  address offered to a peer is the best one.
\<close>

lemma upd_node_simps [simp]:
  "node (upd_node i f s) j = (if j = i then f (node s i) else node s j)"
  "vNodes (upd_node i f s) = vNodes s" "next_node (upd_node i f s) = next_node s" "setBanned (upd_node i f s) = setBanned s"
  "pnodeSync (upd_node i f s) = pnodeSync s" "closed_sockets (upd_node i f s) = closed_sockets s"
  "mapLocalHost (upd_node i f s) = mapLocalHost s" "vfLimited (upd_node i f s) = vfLimited s" "addrman (upd_node i f s) = addrman s"
  by (simp_all add: upd_node_def)

lemma CloseSocketDisconnect_simps [simp]:
  "node (CloseSocketDisconnect l i s) j = (if j = i then (node s i)\<lparr> fDisconnect := True, hSocket := None,
       vRecvMsg := (if l then [] else vRecvMsg (node s i)) \<rparr> else node s j)"
  "vNodes (CloseSocketDisconnect l i s) = vNodes s" "setBanned (CloseSocketDisconnect l i s) = setBanned s"
  "next_node (CloseSocketDisconnect l i s) = next_node s"
  by (simp_all add: CloseSocketDisconnect_def Let_def split: option.splits)

subsection \<open>Sending\<close>

definition queue_ok :: "bytes list \<Rightarrow> nat \<Rightarrow> uint64 \<Rightarrow> bool" where
  "queue_ok ds off sz \<longleftrightarrow> sz = word_of_nat (sum_list (map length ds)) \<and> [] \<notin> set ds \<and>
     (if ds = [] then off = 0 else off < length (hd ds))"

abbreviation send_ok :: "'r CNode \<Rightarrow> bool" where
  "send_ok n \<equiv> queue_ok (vSendMsg n) (nSendOffset n) (nSendSize n)"

definition unsent :: "'r CNode \<Rightarrow> bytes" where
  "unsent n = drop (nSendOffset n) (concat (vSendMsg n))"

text \<open>\<open>send\<close> takes at most the bytes it is offered.\<close>

definition send_call_ok :: "send_call \<Rightarrow> bool" where
  "send_call_ok c \<longleftrightarrow> (\<forall>k d. fst (c k d) \<le> int (length d))"

lemma send_loop_fifo:
  assumes c: "send_call_ok c"
  shows "queue_ok ds (nSendOffset (node s i)) (nSendSize (node s i)) \<Longrightarrow>
    \<exists>left s' out'. send_loop c l nNow i k ds s out = Inr (left, s', out') \<and>
      queue_ok left (nSendOffset (node s' i)) (nSendSize (node s' i)) \<and>
      out' @ drop (nSendOffset (node s' i)) (concat left) = out @ drop (nSendOffset (node s i)) (concat ds) \<and>
      (\<forall>j. j \<noteq> i \<longrightarrow> node s' j = node s j)"
proof (induction ds arbitrary: k s out)
  case (Cons d ds)
  let ?off = "nSendOffset (node s i)"
  have q: "?off < length d" "[] \<notin> set ds" "nSendSize (node s i) - word_of_nat (length d) = word_of_nat (sum_list (map length ds))"
    using Cons.prems by (auto simp: queue_ok_def)
  obtain n e where ne: "c k (drop ?off d) = (n, e)" by fastforce
  have "fst (c k (drop ?off d)) \<le> int (length (drop ?off d))" using c unfolding send_call_ok_def by blast
  then have le: "n \<le> int (length d - ?off)" using ne by simp
  show ?case
  proof (cases "n > 0")
    case False
    then show ?thesis using q Cons.prems ne by (auto simp: Let_def queue_ok_def)
  next
    case pos: True
    show ?thesis
    proof (cases "?off + nat n = length d")
      case True
      define s2 where "s2 = upd_node i (\<lambda>n. n\<lparr> nSendOffset := 0, nSendSize := nSendSize n - word_of_nat (length d) \<rparr>)
          (upd_node i (\<lambda>m. m\<lparr> nLastSend := nNow, nSendBytes := nSendBytes m + word_of_int n, nSendOffset := ?off + nat n \<rparr>) s)"
      have ok: "queue_ok ds (nSendOffset (node s2 i)) (nSendSize (node s2 i))" "nSendOffset (node s2 i) = 0"
        using q by (cases ds; auto simp: s2_def queue_ok_def)+
      have all: "take (nat n) (drop ?off d) = drop ?off d" using True by simp
      have "send_loop c l nNow i k (d # ds) s out = send_loop c l nNow i (k + 1) ds s2 (out @ drop ?off d)"
        using q ne pos True all by (simp add: Let_def s2_def)
      moreover from Cons.IH [OF ok(1), of "k + 1" "out @ drop ?off d"] obtain left s' out' where
        "send_loop c l nNow i (k + 1) ds s2 (out @ drop ?off d) = Inr (left, s', out')"
        "queue_ok left (nSendOffset (node s' i)) (nSendSize (node s' i))"
        "out' @ drop (nSendOffset (node s' i)) (concat left) = (out @ drop ?off d) @ drop (nSendOffset (node s2 i)) (concat ds)"
        "\<forall>j. j \<noteq> i \<longrightarrow> node s' j = node s2 j" by blast
      ultimately show ?thesis using ok(2) q(1) by (auto simp: s2_def)
    next
      case False
      have "?off + nat n < length d" using False le pos q(1) by linarith
      moreover have "drop ?off (d @ concat ds) = take (nat n) (drop ?off d) @ drop (?off + nat n) (d @ concat ds)"
        using calculation by (simp add: add.commute drop_drop [symmetric] del: drop_drop)
      ultimately show ?thesis using q Cons.prems ne pos by (auto simp: Let_def queue_ok_def)
    qed
  qed
qed (auto simp: queue_ok_def)

lemma SocketSendData_ok:
  assumes "send_call_ok c" "send_ok (node s i)"
  shows "\<exists>s' out. SocketSendData c l nNow i s = Inr (s', out) \<and> send_ok (node s' i) \<and>
    out @ unsent (node s' i) = unsent (node s i) \<and> (\<forall>j. j \<noteq> i \<longrightarrow> node s' j = node s j)"
proof -
  obtain left s' out' where r: "send_loop c l nNow i 0 (vSendMsg (node s i)) s [] = Inr (left, s', out')"
      "queue_ok left (nSendOffset (node s' i)) (nSendSize (node s' i))"
      "out' @ drop (nSendOffset (node s' i)) (concat left) = unsent (node s i)" "\<forall>j. j \<noteq> i \<longrightarrow> node s' j = node s j"
    using send_loop_fifo [OF assms, of l nNow 0 "[]"] by (auto simp: unsent_def)
  have "left = [] \<Longrightarrow> nSendOffset (node s' i) = 0 \<and> nSendSize (node s' i) = 0" using r(2) by (auto simp: queue_ok_def)
  then show ?thesis using r by (auto simp: SocketSendData_def unsent_def)
qed

text \<open>C12. Nothing queued for a peer is lost, repeated or reordered: whatever \<open>send\<close> accepts, no assertion of
  \<open>SocketSendData\<close> fails, the counters of the send queue stay consistent, the bytes handed to the socket
  followed by the bytes still queued are the bytes queued before, and no other peer is touched.\<close>

theorem SocketSendData_fifo:
  assumes "send_call_ok c" "send_ok (node s i)"
  shows "\<exists>s' out. SocketSendData c l nNow i s = Inr (s', out) \<and> send_ok (node s' i) \<and>
    out @ unsent (node s' i) = unsent (node s i) \<and> (\<forall>j. j \<noteq> i \<longrightarrow> node s' j = node s j)"
  by (rule SocketSendData_ok [OF assms])

subsection \<open>Bans\<close>

lemma Misbehaving_cases:
  "Misbehaving E l nNow h i s =
     (let n = node s i; total = nMisbehavior n + h in
      if IsLocal (nd_addr n) then (False, s)
      else let s1 = upd_node i (\<lambda>n. n\<lparr> nMisbehavior := total \<rparr>) s in
        if total \<ge> ne_banscore E then
          (True, CloseSocketDisconnect l i (s1\<lparr> setBanned := (setBanned s)(ip_key (nd_addr n) \<mapsto>
              max (case setBanned s (ip_key (nd_addr n)) of None \<Rightarrow> 0 | Some t \<Rightarrow> t) (nNow + ne_bantime E)) \<rparr>))
        else (False, s1))"
  by (simp add: Misbehaving_def Let_def max_def upd_node_def)

lemma ip_key_truncate [simp]: "ip_key (ip_key a) = ip_key a"
  by (simp add: ip_key_def)

lemma Misbehaving_keeps_bans: "IsBanned t a s \<Longrightarrow> IsBanned t a (snd (Misbehaving E l nNow h i s))"
  unfolding Misbehaving_cases Let_def by (auto simp: IsBanned_def split: option.splits)

fun misbehave_all :: "'r net_env \<Rightarrow> (bool \<times> int64 \<times> int32) list \<Rightarrow> nat \<Rightarrow> 'r net \<Rightarrow> 'r net" where
  "misbehave_all E [] i s = s"
| "misbehave_all E ((l, nNow, h) # es) i s = misbehave_all E es i (snd (Misbehaving E l nNow h i s))"

lemma Misbehaving_keeps:
  "nd_addr (node (snd (Misbehaving E l nNow h i s)) i) = nd_addr (node s i)"
  "fDisconnect (node s i) \<Longrightarrow> fDisconnect (node (snd (Misbehaving E l nNow h i s)) i)"
  unfolding Misbehaving_cases Let_def by auto

lemma misbehave_all_keeps:
  "IsBanned t a s \<and> fDisconnect (node s i) \<Longrightarrow>
     IsBanned t a (misbehave_all E es i s) \<and> fDisconnect (node (misbehave_all E es i s) i)"
proof (induction es arbitrary: s)
  case (Cons e es)
  obtain l nNow h where e: "e = (l, nNow, h)" by (cases e) auto
  show ?case
    unfolding e misbehave_all.simps
    by (rule Cons.IH) (use Cons.prems in \<open>simp add: Misbehaving_keeps Misbehaving_keeps_bans\<close>)
qed simp

lemma misbehave_all_score:
  assumes "\<not> IsLocal (nd_addr (node s i))" "\<forall>e\<in>set es. 0 \<le> snd (snd e) \<and> t < fst (snd e) + ne_bantime E"
    "es \<noteq> []" "ne_banscore E \<le> nMisbehavior (node s i) + sum_list (map (snd \<circ> snd) es)"
  shows "IsBanned t (nd_addr (node s i)) (misbehave_all E es i s) \<and> fDisconnect (node (misbehave_all E es i s) i)"
  using assms
proof (induction es arbitrary: s)
  case (Cons e es)
  obtain l nNow h where e: "e = (l, nNow, h)" by (cases e) auto
  let ?s = "snd (Misbehaving E l nNow h i s)"
  have addr: "nd_addr (node ?s i) = nd_addr (node s i)" "nMisbehavior (node ?s i) = nMisbehavior (node s i) + h"
    using Cons.prems(1) unfolding Misbehaving_cases Let_def by auto
  show ?case
  proof (cases "ne_banscore E \<le> nMisbehavior (node s i) + h")
    case True
    have "IsBanned t (nd_addr (node s i)) ?s" "fDisconnect (node ?s i)"
      using True Cons.prems(1,2) unfolding Misbehaving_cases Let_def by (auto simp: IsBanned_def e)
    then show ?thesis unfolding e misbehave_all.simps using misbehave_all_keeps by blast
  next
    case False
    then have "es \<noteq> []" using Cons.prems(4) by (auto simp: e)
    then show ?thesis using Cons.IH [of ?s] Cons.prems addr by (simp add: e algebra_simps)
  qed
qed simp


subsection \<open>Synchronisation\<close>

lemma sync_loop_best:
  "sync_loop E h nd is best = Some (j, sc) \<Longrightarrow>
     (best = Some (j, sc) \<or> j \<in> set is \<and> sync_candidate E h (nd j) \<and> sc = NodeSyncScore (nd j)) \<and>
     (\<forall>i\<in>set is. sync_candidate E h (nd i) \<longrightarrow> NodeSyncScore (nd i) \<le> sc) \<and>
     (\<forall>k sk. best = Some (k, sk) \<longrightarrow> sk \<le> sc)"
proof (induction "is" arbitrary: best)
  case (Cons i "is")
  let ?c = "sync_candidate E h (nd i) \<and> (case best of None \<Rightarrow> True | Some (_, d) \<Rightarrow> NodeSyncScore (nd i) > d)"
  have "sync_loop E h nd is (if ?c then Some (i, NodeSyncScore (nd i)) else best) = Some (j, sc)" using Cons.prems by simp
  note IH = Cons.IH [OF this]
  show ?case
  proof (cases ?c)
    case True
    then show ?thesis using IH by (cases best) auto
  next
    case False
    then show ?thesis using IH by (cases best) auto
  qed
qed auto

text \<open>\<open>StartSync\<close> chooses, among the peers that are usable for synchronisation, one with the least
  \<open>nLastRecv\<close>: the peer from which nothing has been received for the longest time.\<close>

theorem StartSync_longest_silent:
  assumes "pnodeSync (StartSync E nBestHeight nodes s) \<noteq> pnodeSync s"
  shows "\<exists>j\<in>set nodes. pnodeSync (StartSync E nBestHeight nodes s) = Some j \<and> sync_candidate E nBestHeight (node s j) \<and>
    fStartSync (node (StartSync E nBestHeight nodes s) j) \<and>
    (\<forall>i\<in>set nodes. sync_candidate E nBestHeight (node s i) \<longrightarrow> nLastRecv (node s j) \<le> nLastRecv (node s i))"
proof (cases "sync_loop E nBestHeight (node s) nodes None")
  case None
  then show ?thesis using assms by (simp add: StartSync_def)
next
  case (Some jc)
  obtain j sc where jc: "jc = (j, sc)" by fastforce
  with Some have "sync_loop E nBestHeight (node s) nodes None = Some (j, sc)" by simp
  note B = sync_loop_best [OF this]
  show ?thesis
    using Some jc B by (intro bexI [of _ j]) (auto simp: StartSync_def NodeSyncScore_def)
qed

subsection \<open>Outbound connections\<close>

text \<open>What the loop of \<open>ThreadOpenConnections\<close> may choose.\<close>

definition good_choice :: "'r net_env \<Rightarrow> bytes set \<Rightarrow> 'r net \<Rightarrow> CAddress \<Rightarrow> bool" where
  "good_choice E groups s a \<longleftrightarrow> NetAddr_IsValid a \<and> GetGroup (ne_class E) a \<notin> groups \<and> \<not> is_local a s \<and> \<not> IsLimited a s"

lemma outbound_loop_choice:
  "outbound_loop E sel groups t s fuel n d = Inr (a, d') \<Longrightarrow> a = CAddress_Init (ne_proto E) \<or> good_choice E groups s a"
proof (induction fuel arbitrary: n d)
  case (Suc fuel)
  show ?case
  proof (cases "sel d")
    case (Inl e)
    then show ?thesis using Suc.prems by (simp add: rbind_def)
  next
    case (Inr r)
    obtain addr d1 where "r = (addr, d1)" by fastforce
    then show ?thesis
      using Inr Suc.prems Suc.IH [of "n + 1" d1]
      by (auto simp: rbind_def ret_def good_choice_def split: if_splits)
  qed
qed (simp add: lift_def)

lemma outbound_loop_fuel:
  "int fuel + n = 101 \<Longrightarrow> outbound_loop E sel groups t s (fuel + k) n = outbound_loop E sel groups t s fuel n \<or> fuel = 0"
proof (induction fuel arbitrary: n)
  case (Suc fuel)
  show ?case
  proof (cases "n + 1 > 100")
    case True
    then show ?thesis by (intro disjI1) (simp only: outbound_loop.simps add_Suc if_True)
  next
    case False
    then have eq: "outbound_loop E sel groups t s (fuel + k) (n + 1) = outbound_loop E sel groups t s fuel (n + 1)"
      using Suc.IH [of "n + 1"] Suc.prems by auto
    show ?thesis unfolding add_Suc outbound_loop.simps eq by simp
  qed
qed simp

lemma CAddress_Init_invalid: "\<not> NetAddr_IsValid (CAddress_Init P)"
proof -
  have "ip_prefix (CAddress_Init P) (replicate 16 0)"
    by (simp add: ip_prefix_def memcmp_eq_0 CAddress_Init_def CAddress_of_def CService_Init_def CService.defs CAddress.defs)
  then show ?thesis by (simp add: NetAddr_IsValid_def)
qed

lemma outbound_loop_invalid:
  "sel d = Inr (CAddress_Init P, d') \<Longrightarrow> outbound_loop E sel g t s (Suc f) n d = Inr (CAddress_Init (ne_proto E), d')"
  using CAddress_Init_invalid [of P] by (simp add: rbind_def ret_def)

text \<open>What the missing constructor and \<open>CSemaphoreGrant::MoveTo\<close> promise.\<close>

definition node_ok :: "'r net_env \<Rightarrow> bool" where
  "node_ok E \<longleftrightarrow> (\<forall>h a nm inb. nd_addr (ne_new_node E h a nm inb) = a \<and> fInbound (ne_new_node E h a nm inb) = inb) \<and>
     (\<forall>n. nd_addr (ne_grant_to E n) = nd_addr n \<and> fInbound (ne_grant_to E n) = fInbound n)"

definition diverse :: "'r net_env \<Rightarrow> 'r net \<Rightarrow> bool" where
  "diverse E s \<longleftrightarrow> (\<forall>i\<in>set (vNodes s). i < next_node s) \<and>
     distinct (map (\<lambda>i. GetGroup (ne_class E) (nd_addr (node s i))) (outbound_nodes s))"

lemma find_None: "List.find P xs = None \<longleftrightarrow> (\<forall>x\<in>set xs. \<not> P x)"
  by (induction xs) auto

lemma open_round_diverse:
  assumes E: "node_ok E" and s: "diverse E s" and r: "open_round E F ni t t' conn s d = Inr (s', d')"
  shows "diverse E s'"
proof -
  from r obtain a d1 where a: "choose_outbound E F t' s d = Inr (a, d1)"
    by (cases "choose_outbound E F t' s d") (auto simp: open_round_def rbind_def)
  show ?thesis
  proof (cases "NetAddr_IsValid a")
    case False
    then show ?thesis using a r s by (auto simp: open_round_def rbind_def ret_def)
  next
    case True
    then have g: "GetGroup (ne_class E) a \<notin> (\<lambda>i. GetGroup (ne_class E) (nd_addr (node s i))) ` set (outbound_nodes s)"
      using outbound_loop_choice a CAddress_Init_invalid unfolding choose_outbound_def Let_def good_choice_def by metis
    define o1 where "o1 = OpenNetworkConnection E ni t t' (map_option (\<lambda>h. (h, a)) (conn a)) a True None False s"
    have s': "s' = snd o1" using a r True by (auto simp: open_round_def rbind_def ret_def o1_def)
    show ?thesis
    proof (cases "fst o1")
      case False
      then have "snd o1 = s" unfolding o1_def OpenNetworkConnection_def ConnectNode_def
        by (auto simp: Let_def split: option.splits if_splits)
      then show ?thesis using s s' by simp
    next
      case True
      then have no: "FindNode_ip (ip_key a) s = None" "\<not> is_local a s"
        by (auto simp: o1_def OpenNetworkConnection_def split: if_splits)
      then have "FindNode_service (CService.truncate a) s = None"
        by (auto simp: FindNode_ip_def FindNode_service_def find_None Service_eq_def NetAddr_eq_def ip_key_def CService.defs)
      then obtain h where h: "conn a = Some h"
        using True no by (auto simp: o1_def OpenNetworkConnection_def ConnectNode_def split: option.splits if_splits)
      have i: "next_node s \<notin> set (vNodes s)" using s by (auto simp: diverse_def)
      have S: "vNodes s' = vNodes s @ [next_node s]" "next_node s' = next_node s + 1"
        "\<forall>j\<in>set (vNodes s). node s' j = node s j" "nd_addr (node s' (next_node s)) = a" "\<not> fInbound (node s' (next_node s))"
        using True no h i E \<open>FindNode_service (CService.truncate a) s = None\<close>
        by (auto simp: s' o1_def OpenNetworkConnection_def ConnectNode_def Let_def node_ok_def split: if_splits)
      have out: "outbound_nodes s' = outbound_nodes s @ [next_node s]"
        using S by (auto simp: outbound_nodes_def intro: filter_cong)
      have same: "map (\<lambda>i. GetGroup (ne_class E) (nd_addr (node s' i))) (outbound_nodes s)
          = map (\<lambda>i. GetGroup (ne_class E) (nd_addr (node s i))) (outbound_nodes s)"
        using S(3) by (auto simp: outbound_nodes_def)
      show ?thesis using s S g unfolding diverse_def out map_append same by (auto simp: less_Suc_eq)
    qed
  qed
qed

text \<open>The outbound connections that \<open>ThreadOpenConnections\<close> opens stay in different address groups: a
  round, whatever it draws and whether the connection succeeds, keeps the groups of the outbound peers
  distinct.\<close>

theorem outbound_groups_distinct:
  assumes "node_ok E" "diverse E s" "open_round E F ni t t' conn s d = Inr (s', d')"
  shows "diverse E s'"
  by (rule open_round_diverse [OF assms])

text \<open>The bound of 101 rounds on the inner loop cuts nothing off.\<close>

lemma outbound_fuel_enough: "outbound_loop E sel groups t s (101 + k) 0 = outbound_loop E sel groups t s 101 0"
  using outbound_loop_fuel [of 101 0] by simp

subsection \<open>Local addresses\<close>

abbreviation rank_of :: "CNetAddr option \<Rightarrow> CNetAddr \<times> LocalServiceInfo \<Rightarrow> int32 \<times> int32" where
  "rank_of peer e \<equiv> (reach_val (GetReachabilityFrom (fst e) peer), ls_nScore (snd e))"

definition rank_le :: "int32 \<times> int32 \<Rightarrow> int32 \<times> int32 \<Rightarrow> bool" where
  "rank_le x y \<longleftrightarrow> fst x < fst y \<or> fst x = fst y \<and> snd x \<le> snd y"

lemma rank_le_trans: "rank_le x y \<Longrightarrow> rank_le y z \<Longrightarrow> rank_le x z"
  by (auto simp: rank_le_def)

lemma local_loop_best:
  "local_loop peer m (r, sc, ad) = (r', sc', ad') \<Longrightarrow>
     rank_le (r, sc) (r', sc') \<and> (\<forall>e\<in>set m. rank_le (rank_of peer e) (r', sc')) \<and>
     ((r', sc', ad') = (r, sc, ad) \<or>
      (\<exists>e\<in>set m. (r', sc') = rank_of peer e \<and> ad' = CService_make (fst e) (word_of_int (ls_nPort (snd e)))))"
proof (induction m arbitrary: r sc ad)
  case (Cons e m)
  obtain a info where e: "e = (a, info)" by fastforce
  let ?b = "reach_val (GetReachabilityFrom a peer) > r \<or> (reach_val (GetReachabilityFrom a peer) = r \<and> ls_nScore info > sc)"
  show ?case
  proof (cases ?b)
    case True
    then have "local_loop peer m (reach_val (GetReachabilityFrom a peer), ls_nScore info, CService_make a (word_of_int (ls_nPort info))) = (r', sc', ad')"
      using Cons.prems by (simp add: e Let_def)
    note IH = Cons.IH [OF this]
    have "rank_le (r, sc) (rank_of peer e)" using True by (auto simp: rank_le_def e)
    then show ?thesis using IH rank_le_trans by (auto simp: e)
  next
    case False
    have "local_loop peer m (r, sc, ad) = (r', sc', ad')"
      using Cons.prems by (simp only: e local_loop.simps Let_def if_not_P [OF False])
    note IH = Cons.IH [OF this]
    have "rank_le (rank_of peer e) (r, sc)" using False by (auto simp: rank_le_def e)
    then show ?thesis using IH rank_le_trans by (auto simp: e)
  qed
qed (auto simp: rank_le_def)

lemma reach_val_nonneg: "0 \<le> reach_val r"
  by (cases r) (simp_all add: reach_val_def)

text \<open>\<open>GetLocal\<close> finds a local address whenever one is known, and it is one that is best reachable
  from the peer and, among these, has the highest score.\<close>

theorem GetLocal_best:
  assumes "\<not> ne_fNoListen E" "mapLocalHost s \<noteq> []" "\<forall>e\<in>set (mapLocalHost s). 0 \<le> ls_nScore (snd e)"
  shows "\<exists>e\<in>set (mapLocalHost s). GetLocal E peer s addr = (True, CService_make (fst e) (word_of_int (ls_nPort (snd e)))) \<and>
    (\<forall>e'\<in>set (mapLocalHost s). rank_le (rank_of peer e') (rank_of peer e))"
proof -
  obtain r sc ad where l: "local_loop peer (mapLocalHost s) (- 1, - 1, addr) = (r, sc, ad)" by (cases "local_loop peer (mapLocalHost s) (- 1, - 1, addr)") auto
  note B = local_loop_best [OF l]
  obtain e0 where e0: "e0 \<in> set (mapLocalHost s)" using assms(2) by (meson list.set_sel(1))
  then have "rank_le (rank_of peer e0) (r, sc)" using B by blast
  then have "(r, sc, ad) \<noteq> (- 1, - 1, addr)" using reach_val_nonneg [of "GetReachabilityFrom (fst e0) peer"] by (auto simp: rank_le_def)
  then obtain e where e: "e \<in> set (mapLocalHost s)" "(r, sc) = rank_of peer e" "ad = CService_make (fst e) (word_of_int (ls_nPort (snd e)))"
    using B by blast
  then have "GetLocal E peer s addr = (True, CService_make (fst e) (word_of_int (ls_nPort (snd e))))"
    using assms(1,3) l by (auto simp: GetLocal_def)
  then show ?thesis using B e by (metis (no_types, lifting))
qed

subsection \<open>A leaked socket\<close>

text \<open>When the inbound connections are used up, the socket of a peer that was named by \<open>-addnode\<close> is
  neither closed nor handed to a node.\<close>

lemma accept_connection_leak:
  assumes "int (length (filter (\<lambda>i. fInbound (node s i)) (vNodes s))) \<ge> ne_nMaxConnections E - MAX_OUTBOUND_CONNECTIONS"
    "ip_key addr \<in> setservAddNodeAddresses s"
  shows "accept_connection E nNow h addr s = s"
  using assms by (simp add: accept_connection_def)

subsection \<open>Witnesses\<close>

definition demo_addr :: "byte \<Rightarrow> CAddress" where
  "demo_addr b = CAddress_of demo_proto \<lparr> na_ip = pchIPv4 @ [b, 8, 8, 8], na_port = 8333 \<rparr>"

definition demo_node :: "nat \<Rightarrow> CAddress \<Rightarrow> string \<Rightarrow> bool \<Rightarrow> unit CNode" where
  "demo_node h a nm inb = \<lparr> nd_addr = a, nd_addrName = nm, nd_addrLocal = CService_Init, nd_nVersion = 70001, nd_nServices = 1,
     strSubVer = [], nStartingHeight = 5, fInbound = inb, fNetworkNode = False, fOneShot = False, fClient = False,
     fSuccessfullyConnected = True, fDisconnect = False, fGetAddr = False, fStartSync = False, fRelayTxes = True,
     nMisbehavior = 0, nLastSend = 0, nLastRecv = int h, nLastSendEmpty = 0, nTimeConnected = 0, hSocket = Some h,
     vSendMsg = [[1, 2, 3], [4]], nSendOffset = 1, nSendSize = 4, nSendBytes = 0, nRecvBytes = 0, vRecvMsg = [], nRecvVersion = 0,
     vRecvGetData = [], vAddrToSend = [], nd_setKnown = {}, pfilter = None, mapAskFor = [],
     pindexLastGetBlocksBegin = None, hashLastGetBlocksEnd = 0, nd_hidden = () \<rparr>"

definition demo_net :: "unit net" where
  "demo_net = \<lparr> vNodes = [0, 1], node = (\<lambda>i. demo_node (7 - i) (demo_addr (word_of_nat (i + 8))) [] False), next_node = 2, pnodeSync = None,
     setBanned = Map.empty, mapLocalHost = [(ip_key (demo_addr 9), \<lparr> ls_nScore = 4, ls_nPort = 8333 \<rparr>)],
     vfReachable = (\<lambda>_. True), vfLimited = (\<lambda>_. False), nLocalServices = 1, vOneShots = [], addrman = CAddrMan_make [],
     mapRelay = Map.empty, vRelayExpiration = [], setservAddNodeAddresses = {}, closed_sockets = [] \<rparr>"

definition demo_env :: "unit net_env" where
  "demo_env = \<lparr> ne_proto = demo_proto, ne_wire = demo_wire, ne_resolver = (\<lambda>_ _. None), ne_class = demo_nc,
     ne_push_address = (\<lambda>_ n. n), ne_push_inventory = (\<lambda>_ n. n), ne_new_node = demo_node, ne_grant_to = (\<lambda>n. n),
     ne_banscore = 100, ne_bantime = 86400, ne_local_manual = 4, ne_listen_port = 8333, ne_default_port = 8333,
     ne_fDiscover = True, ne_fNoListen = False, ne_noblks_start = 32000, ne_noblks_end = 32400, ne_nMaxConnections = 125 \<rparr>"

lemma demo_not_local: "\<not> IsLocal (demo_addr 8)"
  by (simp add: IsLocal_def demo_addr_def CAddress_of_def CService.defs CAddress.defs IsIPv4_def ip_prefix_def GetByte_def
      pchIPv4_def memcmp_eq_0)

theorem SocketSendData_fifo_witness:
  "\<exists>s' out. SocketSendData (\<lambda>k d. (min 1 (int (length d)), WSAEINTR)) True 5 0 demo_net = Inr (s', out) \<and>
     send_ok (node s' 0) \<and> out @ unsent (node s' 0) = unsent (node demo_net 0) \<and> (\<forall>j. j \<noteq> 0 \<longrightarrow> node s' j = node demo_net j)"
  by (rule SocketSendData_fifo) (simp_all add: send_call_ok_def queue_ok_def demo_net_def demo_node_def)


theorem StartSync_longest_silent_witness:
  "\<exists>j\<in>set [0, 1]. pnodeSync (StartSync demo_env 0 [0, 1] demo_net) = Some j \<and> sync_candidate demo_env 0 (node demo_net j) \<and>
     fStartSync (node (StartSync demo_env 0 [0, 1] demo_net) j) \<and>
     (\<forall>i\<in>set [0, 1]. sync_candidate demo_env 0 (node demo_net i) \<longrightarrow> nLastRecv (node demo_net j) \<le> nLastRecv (node demo_net i))"
  by (rule StartSync_longest_silent)
    (simp add: StartSync_def sync_candidate_def NodeSyncScore_def demo_net_def demo_node_def demo_env_def)

theorem GetLocal_best_witness:
  "\<exists>e\<in>set (mapLocalHost demo_net).
     GetLocal demo_env None demo_net CService_Init = (True, CService_make (fst e) (word_of_int (ls_nPort (snd e)))) \<and>
     (\<forall>e'\<in>set (mapLocalHost demo_net). rank_le (rank_of None e') (rank_of None e))"
  by (rule GetLocal_best) (simp_all add: demo_env_def demo_net_def)

theorem outbound_groups_distinct_witness:
  "open_round demo_env \<lparr> fp_use_tried = (\<lambda>_ _ _ _. True), fp_accept = (\<lambda>_ _ _ _. True) \<rparr> (\<lambda>_. None) 9 9 (\<lambda>_. None)
     (demo_net\<lparr> vNodes := [0] \<rparr>) [] = Inr (demo_net\<lparr> vNodes := [0] \<rparr>, []) \<and> diverse demo_env (demo_net\<lparr> vNodes := [0] \<rparr>)"
proof -
  let ?F = "\<lparr> fp_use_tried = (\<lambda>_ _ _ _. True), fp_accept = (\<lambda>_ _ _ _. True) \<rparr>" and ?s = "demo_net\<lparr> vNodes := [0] \<rparr>"
  have "AM_Select (ne_proto demo_env) ?F 9 k (addrman ?s) [] = Inr (CAddress_Init demo_proto, [])" for k
    by (simp add: AM_Select_def ret_def demo_net_def demo_env_def CAddrMan_make_def)
  then have "choose_outbound demo_env ?F 9 ?s [] = Inr (CAddress_Init demo_proto, [])"
    using outbound_loop_invalid [of _ "[]" demo_proto "[]" demo_env _ 9 ?s 100 0]
    unfolding choose_outbound_def Let_def by (simp add: demo_env_def)
  then have r: "open_round demo_env ?F (\<lambda>_. None) 9 9 (\<lambda>_. None) ?s [] = Inr (?s, [])"
    unfolding open_round_def rbind_def using CAddress_Init_invalid [of demo_proto] by (simp add: ret_def)
  moreover have "diverse demo_env ?s"
    by (rule outbound_groups_distinct [OF _ _ r]) (simp_all add: node_ok_def demo_env_def demo_node_def diverse_def demo_net_def outbound_nodes_def)
  ultimately show ?thesis by simp
qed

end
