(* ===== verification/Alerts.thy ===== *)
theory Alerts
  imports Node Keys Codec
begin

text \<open>
  The alert system (\<open>alert.h\<close>, \<open>alert.cpp\<close>) and the clock adjusted by the peers (\<open>AddTimeData\<close> in
  \<open>util.cpp\<close>).  \<open>mapAlerts\<close> is the list of its entries in the order of the keys.  Parameters are the
  hash and signature functions, the reading of an alert from its serialised form (missing
  serialisation headers), \<open>boost::replace_all\<close>, \<open>PROTOCOL_VERSION\<close>, the sending of a message, and the
  class \<open>CMedianFilter\<close>.  The command run for an alert is part of the result.
\<close>

record CUnsignedAlert =
  al_nVersion :: int32
  nRelayUntil :: int64
  nExpiration :: int64
  nID :: int32
  nCancel :: int32
  setCancel :: "int32 set"
  nMinVer :: int32
  nMaxVer :: int32
  setSubVer :: "string set"
  nPriority :: int32
  strComment :: string
  strStatusBar :: string
  strReserved :: string

record CAlert = CUnsignedAlert +
  vchMsg :: bytes
  al_vchSig :: bytes

record ('c, 'r) alert_env =
  ae_sha :: "'c sha_ops"
  ae_ec :: ec_ops
  ae_read :: "bytes \<Rightarrow> CAlert \<Rightarrow> CAlert res"
  ae_replace_all :: "string \<Rightarrow> string \<Rightarrow> string \<Rightarrow> string"
  ae_push_alert :: "CAlert \<Rightarrow> 'r CNode \<Rightarrow> 'r CNode"
  ae_protocol_version :: int32
  ae_client_version :: int32
  ae_testnet :: bool
  ae_alertnotify :: string

definition pszMainKey :: string where
  "pszMainKey = ''04fc9702847840aaf195de8442ebecedf5b095cdbb9bc716bda9110971b28a49e0ead8564ff0db22209e0374782c093bb899692d524e9d6a6956e7c5ecbcd68284''"

definition pszTestKey :: string where
  "pszTestKey = ''04302390343f91cc401d56d68b123028bf52e5fca1939df127f63c6467cdf9c8e2c14b61104cf817d0b780da337893ecc4aaff1309e536162dabbdb45200ca2b0a''"

definition CUnsignedAlert_SetNull :: CUnsignedAlert where
  "CUnsignedAlert_SetNull = \<lparr> al_nVersion = 1, nRelayUntil = 0, nExpiration = 0, nID = 0, nCancel = 0, setCancel = {},
     nMinVer = 0, nMaxVer = 0, setSubVer = {}, nPriority = 0, strComment = [], strStatusBar = [], strReserved = [] \<rparr>"

definition CAlert_SetNull :: CAlert where
  "CAlert_SetNull = CUnsignedAlert.extend CUnsignedAlert_SetNull (CAlert.fields [] [])"

definition CAlert_IsNull :: "CAlert \<Rightarrow> bool" where
  "CAlert_IsNull a \<longleftrightarrow> nExpiration a = 0"

definition CAlert_GetHash :: "('c, 'r) alert_env \<Rightarrow> CAlert \<Rightarrow> uint256" where
  "CAlert_GetHash E a = Hash (ae_sha E) (vchMsg a)"

definition IsInEffect :: "int64 \<Rightarrow> CAlert \<Rightarrow> bool" where
  "IsInEffect nAdjustedTime a \<longleftrightarrow> nAdjustedTime < nExpiration a"

definition Cancels :: "int64 \<Rightarrow> CAlert \<Rightarrow> CAlert \<Rightarrow> bool" where
  "Cancels t a alert \<longleftrightarrow> (if \<not> IsInEffect t a then False else nID alert \<le> nCancel a \<or> nID alert \<in> setCancel a)"

definition AppliesTo :: "int64 \<Rightarrow> CAlert \<Rightarrow> int32 \<Rightarrow> string \<Rightarrow> bool" where
  "AppliesTo t a nVersion strSubVerIn \<longleftrightarrow>
     IsInEffect t a \<and> nMinVer a \<le> nVersion \<and> nVersion \<le> nMaxVer a \<and> (setSubVer a = {} \<or> strSubVerIn \<in> setSubVer a)"

definition AppliesToMe :: "('c, 'r) alert_env \<Rightarrow> int64 \<Rightarrow> CAlert \<Rightarrow> bool" where
  "AppliesToMe E t a \<longleftrightarrow> AppliesTo t a (ae_protocol_version E) (FormatSubVersion ''Satoshi'' (ae_client_version E) [])"

definition RelayTo :: "('c, 'r) alert_env \<Rightarrow> int64 \<Rightarrow> CAlert \<Rightarrow> 'r CNode \<Rightarrow> bool \<times> 'r CNode" where
  "RelayTo E t a n =
     (if \<not> IsInEffect t a then (False, n)
      else if CAlert_GetHash E a \<in> nd_setKnown n then (False, n)
      else
        let n1 = n\<lparr> nd_setKnown := insert (CAlert_GetHash E a) (nd_setKnown n) \<rparr> in
        if AppliesTo t a (nd_nVersion n1) (strSubVer n1) \<or> AppliesToMe E t a \<or> t < nRelayUntil a
        then (True, ae_push_alert E a n1)
        else (False, n1))"

text \<open>The object whose signature is checked also receives the fields read from the message.\<close>

definition CheckSignature :: "('c, 'r) alert_env \<Rightarrow> CAlert \<Rightarrow> (bool \<times> CAlert) res" where
  "CheckSignature E a =
     (let key = CPubKey_Set (ParseHex (if ae_testnet E then pszTestKey else pszMainKey)) \<lparr> pk_vch = replicate 65 0 \<rparr> in
      if \<not> CPubKey_Verify (ae_ec E) key (Hash (ae_sha E) (vchMsg a)) (al_vchSig a) then Inr (False, a)
      else bind_res (ae_read E (vchMsg a) a) (\<lambda>a1. Inr (True, a1)))"

type_synonym alert_map = "(uint256 \<times> CAlert) list"

definition getAlertByHash :: "alert_map \<Rightarrow> uint256 \<Rightarrow> CAlert" where
  "getAlertByHash m hash = (case map_of m hash of None \<Rightarrow> CAlert_SetNull | Some a \<Rightarrow> a)"

text \<open>\<open>map::insert\<close>, which keeps an entry that is there.\<close>

fun insert_alert :: "uint256 \<Rightarrow> CAlert \<Rightarrow> alert_map \<Rightarrow> alert_map" where
  "insert_alert h a [] = [(h, a)]"
| "insert_alert h a ((k, b) # m) =
     (if h < k then (h, a) # (k, b) # m else if h = k then (k, b) # m else (k, b) # insert_alert h a m)"

definition maxInt :: int32 where "maxInt = 2147483647"

definition final_alert :: "CAlert \<Rightarrow> bool" where
  "final_alert a \<longleftrightarrow> nExpiration a = maxInt \<and> nCancel a = maxInt - 1 \<and> nMinVer a = 0 \<and> nMaxVer a = maxInt \<and> setSubVer a = {}
     \<and> nPriority a = maxInt \<and> strStatusBar a = ''URGENT: Alert key compromised, upgrade required''"

definition safeChars :: string where
  "safeChars = ''abcdefghijklmnopqrstuvwxyzABCDEFGHIJKLMNOPQRSTUVWXYZ01234567890 .,;_/:?@''"

definition safe_status :: "string \<Rightarrow> string" where
  "safe_status s = [CHR 0x27] @ filter (\<lambda>c. c \<in> set safeChars) s @ [CHR 0x27]"

definition alert_command :: "('c, 'r) alert_env \<Rightarrow> CAlert \<Rightarrow> string option" where
  "alert_command E a =
     (if ae_alertnotify E \<noteq> [] then Some (ae_replace_all E (ae_alertnotify E) ''%s'' (safe_status (strStatusBar a))) else None)"

text \<open>The verdict, the map, the alert as read and the command that is run.\<close>

definition ProcessAlert ::
  "('c, 'r) alert_env \<Rightarrow> int64 \<Rightarrow> CAlert \<Rightarrow> alert_map \<Rightarrow> (bool \<times> alert_map \<times> CAlert \<times> string option) res" where
  "ProcessAlert E t a0 m =
     bind_res (CheckSignature E a0) (\<lambda>(ok, a).
       if \<not> ok then Inr (False, m, a, None)
       else if \<not> IsInEffect t a then Inr (False, m, a, None)
       else if nID a = maxInt \<and> \<not> final_alert a then Inr (False, m, a, None)
       else
         let m1 = filter (\<lambda>(h, alert). \<not> (Cancels t a alert \<or> \<not> IsInEffect t alert)) m in
         if list_ex (\<lambda>(h, alert). Cancels t alert a) m1 then Inr (False, m1, a, None)
         else
           let m2 = insert_alert (CAlert_GetHash E a) a m1 in
           Inr (True, m2, a, if AppliesToMe E t a then alert_command E a else None))"

subsection \<open>The adjusted clock\<close>

record 'f median_ops =
  mf_input :: "int64 \<Rightarrow> 'f \<Rightarrow> 'f"
  mf_size :: "'f \<Rightarrow> nat"
  mf_median :: "'f \<Rightarrow> int64"
  mf_sorted :: "'f \<Rightarrow> int64 list"

record 'f clock =
  nMockTime :: int64
  nTimeOffset :: int64
  vTimeOffsets :: 'f
  setKnownTime :: "CNetAddr set"
  fDone :: bool

definition GetTime :: "int64 \<Rightarrow> 'f clock \<Rightarrow> int64" where
  "GetTime now c = (if nMockTime c \<noteq> 0 then nMockTime c else now)"

definition SetMockTime :: "int64 \<Rightarrow> 'f clock \<Rightarrow> 'f clock" where
  "SetMockTime t c = c\<lparr> nMockTime := t \<rparr>"

definition GetTimeOffset :: "'f clock \<Rightarrow> int64" where
  "GetTimeOffset c = nTimeOffset c"

definition GetAdjustedTime :: "int64 \<Rightarrow> 'f clock \<Rightarrow> int64" where
  "GetAdjustedTime now c = GetTime now c + GetTimeOffset c"

definition AddTimeData :: "'f median_ops \<Rightarrow> int64 \<Rightarrow> 'a CNetAddr_scheme \<Rightarrow> int64 \<Rightarrow> 'f clock \<Rightarrow> 'f clock" where
  "AddTimeData M now ip nTime c =
     (let nOffsetSample = nTime - GetTime now c in
      if ip_key ip \<in> setKnownTime c then c
      else
        let c1 = c\<lparr> setKnownTime := insert (ip_key ip) (setKnownTime c), vTimeOffsets := mf_input M nOffsetSample (vTimeOffsets c) \<rparr>;
            v = vTimeOffsets c1
        in if mf_size M v \<ge> 5 \<and> mf_size M v mod 2 = 1 then
             let nMedian = mf_median M v; vSorted = mf_sorted M v in
             if \<bar>nMedian\<bar> < 70 * 60 then c1\<lparr> nTimeOffset := nMedian \<rparr>
             else
               let c2 = c1\<lparr> nTimeOffset := 0 \<rparr>;
                   fMatch = list_ex (\<lambda>nOffset. nOffset \<noteq> 0 \<and> \<bar>nOffset\<bar> < 5 * 60) vSorted
               in if \<not> fDone c2 \<and> \<not> fMatch then c2\<lparr> fDone := True \<rparr> else c2
           else c1)"

subsection \<open>The map of alerts\<close>

lemma Cancels_mono: "t \<le> t' \<Longrightarrow> Cancels t' a b \<Longrightarrow> Cancels t a b"
  by (auto simp: Cancels_def IsInEffect_def split: if_splits)

lemma set_insert_alert: "set (insert_alert h a m) \<subseteq> insert (h, a) (set m)"
  by (induction m) (auto split: if_splits)

lemma sorted_insert_alert:
  "sorted_wrt (<) (map fst m) \<Longrightarrow> sorted_wrt (<) (map fst (insert_alert h a m))"
proof (induction m)
  case (Cons e m)
  obtain k b where e: "e = (k, b)" by fastforce
  have "k < fst x" if "x \<in> set (insert_alert h a m)" "\<not> h < k" "h \<noteq> k" for x
    using that Cons.prems set_insert_alert [of h a m] by (auto simp: e)
  with Cons show ?case by (auto simp: e)
qed simp

lemma sorted_filter: "sorted_wrt (<) (map fst m) \<Longrightarrow> sorted_wrt (<) (map fst (filter P m))"
  by (induction m) auto

definition alerts_ok :: "('c, 'r) alert_env \<Rightarrow> int64 \<Rightarrow> alert_map \<Rightarrow> bool" where
  "alerts_ok E t m \<longleftrightarrow> sorted_wrt (<) (map fst m) \<and> (\<forall>(h, a)\<in>set m. h = CAlert_GetHash E a) \<and>
     (\<forall>x\<in>set m. \<forall>y\<in>set m. x \<noteq> y \<longrightarrow> \<not> Cancels t (snd x) (snd y))"

lemma alerts_ok_time: "alerts_ok E t m \<Longrightarrow> t \<le> t' \<Longrightarrow> alerts_ok E t' m"
  unfolding alerts_ok_def by (blast dest: Cancels_mono)

lemma alerts_ok_filter: "alerts_ok E t m \<Longrightarrow> alerts_ok E t (filter P m)"
  by (auto simp: alerts_ok_def sorted_filter)

lemma ProcessAlert_ok:
  assumes m: "alerts_ok E t m" and r: "ProcessAlert E t a0 m = Inr (ok, m', a, cmd)"
  shows "alerts_ok E t m'"
proof (cases "CheckSignature E a0")
  case (Inl e)
  then show ?thesis using r by (simp add: ProcessAlert_def)
next
  case (Inr x)
  obtain sg a1 where x: "x = (sg, a1)" by fastforce
  define m1 where "m1 = filter (\<lambda>(h, alert). \<not> (Cancels t a1 alert \<or> \<not> IsInEffect t alert)) m"
  have ok1: "alerts_ok E t m1" using m by (simp add: m1_def alerts_ok_filter)
  have no: "\<not> Cancels t a1 b" if "(h, b) \<in> set m1" for h b using that by (auto simp: m1_def)
  show ?thesis
  proof (cases "m' = insert_alert (CAlert_GetHash E a1) a1 m1 \<and> \<not> list_ex (\<lambda>(h, alert). Cancels t alert a1) m1")
    case True
    then have no': "\<not> Cancels t b a1" if "(h, b) \<in> set m1" for h b using that by (auto simp: list_ex_iff)
    show ?thesis unfolding alerts_ok_def
    proof (intro conjI ballI impI)
      show "sorted_wrt (<) (map fst m')" using ok1 True by (simp add: alerts_ok_def sorted_insert_alert)
      show "case x of (h, a) \<Rightarrow> h = CAlert_GetHash E a" if "x \<in> set m'" for x
        using that ok1 True set_insert_alert by (fastforce simp: alerts_ok_def)
      show "\<not> Cancels t (snd x) (snd y)" if "x \<in> set m'" "y \<in> set m'" "x \<noteq> y" for x y
      proof -
        have "x \<in> insert (CAlert_GetHash E a1, a1) (set m1)" "y \<in> insert (CAlert_GetHash E a1, a1) (set m1)"
          using that True set_insert_alert by blast+
        moreover have "\<not> Cancels t (snd x) (snd y)" if "x \<in> set m1" "y \<in> set m1"
          using that \<open>x \<noteq> y\<close> ok1 unfolding alerts_ok_def by blast
        ultimately show ?thesis using that(3) no no' by (cases x; cases y) auto
      qed
    qed
  next
    case False
    then have "m' = m \<or> m' = m1"
      using r Inr x unfolding ProcessAlert_def m1_def by (auto simp: Let_def split: if_splits)
    then show ?thesis using m ok1 by blast
  qed
qed

text \<open>Processing alerts while time passes.\<close>

inductive alert_run :: "('c, 'r) alert_env \<Rightarrow> int64 \<Rightarrow> alert_map \<Rightarrow> bool" for E :: "('c, 'r) alert_env" where
  start: "alert_run E t []"
| later: "alert_run E t m \<Longrightarrow> t \<le> t' \<Longrightarrow> alert_run E t' m"
| alert: "alert_run E t m \<Longrightarrow> ProcessAlert E t a0 m = Inr (ok, m', a, cmd) \<Longrightarrow> alert_run E t m'"

text \<open>In every state reached by processing alerts while time passes, the map is in the order of its
  keys, files each alert under its hash, and no alert of it cancels another one.\<close>

theorem alert_map_consistent:
  assumes "alert_run E t m"
  shows "alerts_ok E t m"
  using assms
proof (induction rule: alert_run.induct)
  case (start t)
  then show ?case by (simp add: alerts_ok_def)
next
  case (later t m t')
  then show ?case by (blast intro: alerts_ok_time)
next
  case (alert t m a0 ok m' a cmd)
  then show ?case by (blast intro: ProcessAlert_ok)
qed

definition demo_alert_env :: "(bytes, unit) alert_env" where
  "demo_alert_env = \<lparr> ae_sha = \<lparr> SHA256_Init = [], SHA256_Update = (\<lambda>c b. c @ b), SHA256_Final = (\<lambda>c. take 32 (c @ replicate 32 0)),
        SHA256 = (\<lambda>b. take 32 (b @ replicate 32 0)), RIPEMD160 = (\<lambda>b. take 20 (b @ replicate 20 0)) \<rparr>,
     ae_ec = \<lparr> ec_pub_of_secret = (\<lambda>b c. []), ec_parse_pub = (\<lambda>b. True), ec_convert_pub = (\<lambda>b c. b), ec_sign = (\<lambda>b h. None),
        ec_verify = (\<lambda>k h s. s = [7]), ec_sign_compact = (\<lambda>b h. None), ec_recover = (\<lambda>h b i. None),
        ec_secret_of_priv = (\<lambda>b. None), ec_priv_of_secret = (\<lambda>b. []) \<rparr>,
     ae_read = (\<lambda>b a. Inr a), ae_replace_all = (\<lambda>s x y. s @ y), ae_push_alert = (\<lambda>a n. n), ae_protocol_version = 70001,
     ae_client_version = 89900, ae_testnet = False, ae_alertnotify = ''echo '' \<rparr>"

definition demo_alert :: "int32 \<Rightarrow> int32 \<Rightarrow> byte \<Rightarrow> CAlert" where
  "demo_alert i c b = CAlert_SetNull\<lparr> nID := i, nCancel := c, nExpiration := 1000, nMaxVer := maxInt, strStatusBar := ''a;b'',
     vchMsg := [b], al_vchSig := [7] \<rparr>"

text \<open>C17. The alert that announces a compromised alert key stays: no alert that does not name the
  reserved identifier itself is accepted beside it, whoever signed it.\<close>

theorem final_alert_stays:
  assumes "(h, f) \<in> set m" "nID f = maxInt" "final_alert f" "t < maxInt"
    and "ProcessAlert E t a0 m = Inr (ok, m', a, cmd)" "nID a < maxInt" "nCancel a < maxInt" "maxInt \<notin> setCancel a"
  shows "\<not> ok \<and> (h, f) \<in> set m'"
proof (cases "CheckSignature E a0")
  case (Inl e)
  then show ?thesis using assms(5) by (simp add: ProcessAlert_def)
next
  case (Inr x)
  obtain sg a1 where x: "x = (sg, a1)" by fastforce
  then have a1: "a1 = a" using Inr assms(5) by (auto simp: ProcessAlert_def Let_def split: if_splits)
  have f: "IsInEffect t f" "\<not> Cancels t a f" "Cancels t f a"
    using assms by (auto simp: IsInEffect_def Cancels_def final_alert_def)
  then have "(h, f) \<in> set (filter (\<lambda>(h, alert). \<not> (Cancels t a alert \<or> \<not> IsInEffect t alert)) m)" using assms(1) by auto
  moreover from this have "list_ex (\<lambda>(h, alert). Cancels t alert a) (filter (\<lambda>(h, alert). \<not> (Cancels t a alert \<or> \<not> IsInEffect t alert)) m)"
    using f(3) by (auto simp: list_ex_iff)
  ultimately show ?thesis using assms(1,5) Inr x a1 unfolding ProcessAlert_def by (auto simp: Let_def split: if_splits)
qed

text \<open>But one that claims to cancel the reserved identifier as well wipes it out.\<close>

lemma final_alert_cancelled:
  assumes "CheckSignature E a0 = Inr (True, a)" "IsInEffect t a" "nID a \<noteq> maxInt" "nCancel a = maxInt" "\<forall>(h, b)\<in>set m. nID b \<le> maxInt"
  shows "\<exists>cmd. ProcessAlert E t a0 m = Inr (True, [(CAlert_GetHash E a, a)], a, cmd)"
proof -
  have "filter (\<lambda>(h, alert). \<not> (Cancels t a alert \<or> \<not> IsInEffect t alert)) m = []"
    using assms(2,4,5) by (auto simp: filter_empty_conv Cancels_def)
  then show ?thesis using assms by (simp add: ProcessAlert_def Let_def)
qed

text \<open>The text of an alert cannot break out of its quotes: a command is run only for a signed alert
  that applies to this node, and it is the configured command with \<open>%s\<close> replaced by a quoted text of
  letters, digits, blanks and harmless punctuation.\<close>

theorem alert_command_quoted:
  assumes "ProcessAlert E t a0 m = Inr (ok, m', a, Some cmd)"
  shows "ok \<and> CheckSignature E a0 = Inr (True, a) \<and> AppliesToMe E t a \<and>
    (\<exists>w. cmd = ae_replace_all E (ae_alertnotify E) ''%s'' ([CHR 0x27] @ w @ [CHR 0x27]) \<and> set w \<subseteq> set safeChars \<and>
       set w \<inter> {CHR 0x27, CHR 0x22, CHR 0x5C, CHR 0x60, CHR 0x24, CHR 0x0A, CHR 0x00} = {})"
proof -
  obtain sg a1 where s: "CheckSignature E a0 = Inr (sg, a1)" using assms by (cases "CheckSignature E a0") (auto simp: ProcessAlert_def)
  then have r: "sg" "a1 = a" "ok" "AppliesToMe E t a" "alert_command E a = Some cmd"
    using assms unfolding ProcessAlert_def by (auto simp: Let_def split: if_splits)
  have "set (filter (\<lambda>c. c \<in> set safeChars) (strStatusBar a)) \<subseteq> set safeChars" by auto
  moreover have "set safeChars \<inter> {CHR 0x27, CHR 0x22, CHR 0x5C, CHR 0x60, CHR 0x24, CHR 0x0A, CHR 0x00} = {}"
    by (simp add: safeChars_def)
  ultimately show ?thesis using r s unfolding alert_command_def safe_status_def by (auto split: if_splits)
qed

text \<open>Other nodes move the clock by less than seventy minutes, whatever they report, and a second
  report from the same address changes nothing.\<close>

theorem clock_adjustment_bounded:
  fixes samples :: "(int64 \<times> CNetAddr \<times> int64) list"
  assumes "\<bar>nTimeOffset c\<bar> < 70 * 60"
  shows "let c' = fold (\<lambda>(now, ip, tm). AddTimeData M now ip tm) samples c in
    \<bar>GetAdjustedTime now c' - GetTime now c'\<bar> < 70 * 60 \<and>
    (\<forall>(now', ip, tm)\<in>set samples. AddTimeData M now' ip tm' c' = c')"
proof -
  have step: "\<bar>nTimeOffset (AddTimeData M n ip tm c)\<bar> < 70 * 60 \<and> setKnownTime (AddTimeData M n ip tm c) = insert (ip_key ip) (setKnownTime c)"
    if "\<bar>nTimeOffset c\<bar> < 70 * 60" for n tm and ip :: CNetAddr and c
    using that by (auto simp: AddTimeData_def Let_def)
  have "\<bar>nTimeOffset (fold (\<lambda>(now, ip, tm). AddTimeData M now ip tm) samples c)\<bar> < 70 * 60 \<and>
      setKnownTime (fold (\<lambda>(now, ip, tm). AddTimeData M now ip tm) samples c) = (\<lambda>(now, ip, tm). ip_key ip) ` set samples \<union> setKnownTime c"
    using assms
  proof (induction samples arbitrary: c)
    case (Cons x xs)
    obtain n ip tm where x: "x = (n, ip, tm)" by (cases x) auto
    show ?case using Cons.IH [of "AddTimeData M n ip tm c"] step [OF Cons.prems, of n ip tm] by (auto simp: x)
  qed simp
  moreover have "AddTimeData M n ip tm c = c" if "ip_key ip \<in> setKnownTime c" for n tm and ip :: CNetAddr and c
    using that by (simp add: AddTimeData_def)
  ultimately show ?thesis unfolding Let_def GetAdjustedTime_def GetTimeOffset_def by force
qed

subsection \<open>Witnesses\<close>

lemma pszMainKey_parse: "length (ParseHex pszMainKey) = 65" "ParseHex pszMainKey ! 0 = 4"
  by code_simp+

lemma demo_signature:
  assumes "al_vchSig a = [7]"
  shows "CheckSignature demo_alert_env a = Inr (True, a)"
proof -
  obtain r where p: "ParseHex pszMainKey = 4 # r" using pszMainKey_parse by (cases "ParseHex pszMainKey") auto
  then have "CPubKey_Set (ParseHex pszMainKey) \<lparr> pk_vch = replicate 65 0 \<rparr> = \<lparr> pk_vch = 4 # r \<rparr>"
    using pszMainKey_parse(1) by (simp add: CPubKey_Set_def GetLen_def)
  then show ?thesis
    using assms by (simp add: CheckSignature_def demo_alert_env_def CPubKey_Verify_def CPubKey_IsValid_def CPubKey_size_def GetLen_def)
qed

lemma demo_alert_fields [simp]:
  "nID (demo_alert i c b) = i" "nCancel (demo_alert i c b) = c" "setCancel (demo_alert i c b) = {}"
  "nExpiration (demo_alert i c b) = 1000" "al_vchSig (demo_alert i c b) = [7]" "strStatusBar (demo_alert i c b) = ''a;b''"
  "nMinVer (demo_alert i c b) = 0" "nMaxVer (demo_alert i c b) = maxInt" "setSubVer (demo_alert i c b) = {}"
  by (simp_all add: demo_alert_def CAlert_SetNull_def CUnsignedAlert_SetNull_def CUnsignedAlert.defs CAlert.defs)

theorem alert_map_consistent_witness:
  "alerts_ok demo_alert_env 10 [(CAlert_GetHash demo_alert_env (demo_alert 5 4 9), demo_alert 5 4 9)]"
proof (rule alert_map_consistent)
  have "\<exists>cmd. ProcessAlert demo_alert_env 10 (demo_alert 5 4 9) [] =
      Inr (True, [(CAlert_GetHash demo_alert_env (demo_alert 5 4 9), demo_alert 5 4 9)], demo_alert 5 4 9, cmd)"
    by (simp add: ProcessAlert_def demo_signature IsInEffect_def maxInt_def)
  then show "alert_run demo_alert_env 10 [(CAlert_GetHash demo_alert_env (demo_alert 5 4 9), demo_alert 5 4 9)]"
    using alert_run.alert [OF alert_run.start] by blast
qed

definition demo_final :: CAlert where
  "demo_final = CAlert_SetNull\<lparr> nID := maxInt, nExpiration := maxInt, nCancel := maxInt - 1, nMinVer := 0, nMaxVer := maxInt,
     nPriority := maxInt, strStatusBar := ''URGENT: Alert key compromised, upgrade required'', vchMsg := [1], al_vchSig := [7] \<rparr>"

theorem final_alert_stays_witness:
  "\<exists>ok m'. ProcessAlert demo_alert_env 10 (demo_alert 5 4 9) [(0, demo_final)] = Inr (ok, m', demo_alert 5 4 9, None) \<and>
     \<not> ok \<and> (0, demo_final) \<in> set m'"
proof -
  have f: "nID demo_final = maxInt" "final_alert demo_final" "nExpiration demo_final = maxInt" "nCancel demo_final = maxInt - 1"
    by (simp_all add: demo_final_def final_alert_def CAlert_SetNull_def CUnsignedAlert_SetNull_def CUnsignedAlert.defs CAlert.defs)
  have "\<exists>ok m'. ProcessAlert demo_alert_env 10 (demo_alert 5 4 9) [(0, demo_final)] = Inr (ok, m', demo_alert 5 4 9, None)"
    using f by (auto simp: ProcessAlert_def demo_signature IsInEffect_def Cancels_def maxInt_def Let_def)
  then obtain ok m' where r: "ProcessAlert demo_alert_env 10 (demo_alert 5 4 9) [(0, demo_final)] = Inr (ok, m', demo_alert 5 4 9, None)" by blast
  have "\<not> ok \<and> (0, demo_final) \<in> set m'"
    by (rule final_alert_stays [OF _ f(1,2) _ r]) (simp_all add: maxInt_def)
  with r show ?thesis by blast
qed

theorem alert_command_quoted_witness:
  "\<exists>m' cmd w. ProcessAlert demo_alert_env 10 (demo_alert 5 4 9) [] = Inr (True, m', demo_alert 5 4 9, Some cmd) \<and>
     cmd = ae_replace_all demo_alert_env (ae_alertnotify demo_alert_env) ''%s'' ([CHR 0x27] @ w @ [CHR 0x27]) \<and>
     set w \<subseteq> set safeChars"
proof -
  have "\<exists>m' cmd. ProcessAlert demo_alert_env 10 (demo_alert 5 4 9) [] = Inr (True, m', demo_alert 5 4 9, Some cmd)"
  proof -
    have "AppliesTo 10 (demo_alert 5 4 9) 70001 str" for str by (simp add: AppliesTo_def IsInEffect_def maxInt_def)
    moreover have "ae_protocol_version demo_alert_env = 70001" by (simp add: demo_alert_env_def)
    ultimately have "AppliesToMe demo_alert_env 10 (demo_alert 5 4 9)" unfolding AppliesToMe_def by (simp only:)
    moreover have "alert_command demo_alert_env (demo_alert 5 4 9) \<noteq> None" by (simp add: alert_command_def demo_alert_env_def)
    ultimately show ?thesis by (auto simp: ProcessAlert_def demo_signature IsInEffect_def maxInt_def)
  qed
  then obtain m' cmd where r: "ProcessAlert demo_alert_env 10 (demo_alert 5 4 9) [] = Inr (True, m', demo_alert 5 4 9, Some cmd)" by blast
  from alert_command_quoted [OF r] obtain w where
    "cmd = ae_replace_all demo_alert_env (ae_alertnotify demo_alert_env) ''%s'' ([CHR 0x27] @ w @ [CHR 0x27])" "set w \<subseteq> set safeChars"
    by (elim conjE exE) (rule that)
  with r show ?thesis by (intro exI conjI)
qed

definition demo_median :: "int64 list median_ops" where
  "demo_median = \<lparr> mf_input = (\<lambda>x v. v @ [x]), mf_size = length, mf_median = (\<lambda>v. sort v ! (length v div 2)), mf_sorted = sort \<rparr>"

theorem clock_adjustment_bounded_witness:
  "let samples = [(100, CNetAddr_Init, 300), (100, \<lparr> na_ip = [1] \<rparr>, 9000)];
       c' = fold (\<lambda>(now, ip, tm). AddTimeData demo_median now ip tm) samples \<lparr> nMockTime = 0, nTimeOffset = 0, vTimeOffsets = [], setKnownTime = {}, fDone = False \<rparr>
   in \<bar>GetAdjustedTime 100 c' - GetTime 100 c'\<bar> < 70 * 60 \<and>
      (\<forall>(now', ip, tm)\<in>set samples. AddTimeData demo_median now' ip 77 c' = c')"
proof -
  let ?c = "\<lparr> nMockTime = 0, nTimeOffset = 0, vTimeOffsets = [], setKnownTime = {}, fDone = False \<rparr> :: int64 list clock"
  have "\<bar>nTimeOffset ?c\<bar> < 70 * 60" by simp
  from clock_adjustment_bounded [OF this, of demo_median "[(100, CNetAddr_Init, 300), (100, \<lparr> na_ip = [1] \<rparr>, 9000)]" 100 77]
  show ?thesis unfolding Let_def .
qed

end
