(* ===== verification/Messages.thy ===== *)
theory Messages
  imports Validation NodeProps Alerts
begin

text \<open>
  The message handler (\<open>dust_coin/bitcoin_messages_handlers.cpp\<close>): what the node does with the messages
  of a peer and what it sends on its own.  The state is the peers of theory \<open>Node\<close>, the chain data, the
  alerts, the clock, the random draws not yet used, and the rest of the message being read.  A
  handler is a function on the state that can fault; the state after a fault is kept, because
  \<open>ProcessMessages\<close> catches exceptions and goes on.  Reading a value off a stream, the methods of
  \<open>CNode\<close> in missing headers and the protocol constants are parameters.
\<close>

datatype message =
    Msg_version int32 uint64 int64 CAddress CAddress uint64 string int32
  | Msg_verack | Msg_getaddr | Msg_ping_old | Msg_ping uint64 | Msg_pong uint64
  | Msg_getblocks "uint256 list" uint256 | Msg_getdata "CInv list" | Msg_notfound "CInv list"

type_synonym 'a reader = "bytes \<Rightarrow> ('a \<times> bytes) res"

record ('c, 'f, 'r) msg_env =
  me_chain :: chain_env
  me_net :: "'r net_env"
  me_alert :: "('c, 'r) alert_env"
  me_bucket :: "'c bucket_env"
  me_median :: "'f median_ops"
  me_proxies :: proxies
  me_push :: "message \<Rightarrow> 'r CNode \<Rightarrow> 'r CNode"
  me_add_address_known :: "CAddress \<Rightarrow> 'r CNode \<Rightarrow> 'r CNode"
  me_clear_address_known :: "'r CNode \<Rightarrow> 'r CNode"
  me_add_inventory_known :: "CInv \<Rightarrow> 'r CNode \<Rightarrow> 'r CNode"
  me_ask_for :: "CInv \<Rightarrow> (CInv \<rightharpoonup> int64) \<times> 'r CNode \<Rightarrow> (CInv \<rightharpoonup> int64) \<times> 'r CNode"
  me_set_recv_version :: "int32 \<Rightarrow> 'r CNode \<Rightarrow> 'r CNode"
  me_set_send_version :: "int32 \<Rightarrow> 'r CNode \<Rightarrow> 'r CNode"
  me_locator :: "uint256 option \<Rightarrow> uint256 list"
  me_pointer :: "nat \<Rightarrow> uint32"
  rd_int :: "int32 reader"
  rd_int64 :: "int64 reader"
  rd_uint64 :: "uint64 reader"
  rd_bool :: "bool reader"
  rd_string :: "string reader"
  rd_address :: "CAddress reader"
  rd_addresses :: "CAddress list reader"
  rd_invs :: "CInv list reader"
  rd_tx :: "CTransaction reader"
  rd_block :: "CBlock reader"
  rd_alert :: "CAlert reader"
  rd_filter :: "CBloomFilter reader"
  rd_vector :: "bytes reader"
  MIN_PROTO_VERSION :: int32
  CADDR_TIME_VERSION :: int32
  BIP0031_VERSION :: int32
  MAX_INV_SZ :: nat
  MSG_TX :: int32
  MSG_BLOCK :: int32
  MAX_SCRIPT_ELEMENT_SIZE :: nat
  SendBufferSize :: uint64
  fImporting :: bool
  fReindex :: bool
  fCheckpoints :: bool
  nBestHeight :: int32

record ('f, 'r) world =
  w_net :: "'r net"
  w_clock :: "'f clock"
  cPeerBlockCounts :: 'f
  mapAlerts :: alert_map
  mapBlockIndex :: "uint256 \<rightharpoonup> CBlockIndex"
  mapOrphanBlocks :: "uint256 \<rightharpoonup> CBlock"
  mapOrphanBlocksByPrev :: "(uint256 \<times> CBlock) list"
  pindexBest :: "uint256 option"
  hashBestChain :: uint256
  gate_blocks :: "CBlock list"
  mapAlreadyAskedFor :: "CInv \<rightharpoonup> int64"
  nLocalHostNonce :: uint64
  hashSalt :: uint256
  nLastRebroadcast :: int64
  w_draws :: "uint64 list"
  vRecv :: bytes

subsection \<open>Handlers\<close>

type_synonym ('w, 'a) proc = "'w \<Rightarrow> 'a res \<times> 'w"

definition pret :: "'a \<Rightarrow> ('w, 'a) proc" where
  "pret x = (\<lambda>w. (Inr x, w))"

definition pbind :: "('w, 'a) proc \<Rightarrow> ('a \<Rightarrow> ('w, 'b) proc) \<Rightarrow> ('w, 'b) proc" where
  "pbind m k = (\<lambda>w. case m w of (Inl e, w') \<Rightarrow> (Inl e, w') | (Inr x, w') \<Rightarrow> k x w')"

definition pthen :: "('w, 'a) proc \<Rightarrow> ('w, 'b) proc \<Rightarrow> ('w, 'b) proc" where
  "pthen m k = pbind m (\<lambda>_. k)"

definition pget :: "('w \<Rightarrow> 'a) \<Rightarrow> ('w, 'a) proc" where
  "pget f = (\<lambda>w. (Inr (f w), w))"

definition pmod :: "('w \<Rightarrow> 'w) \<Rightarrow> ('w, unit) proc" where
  "pmod f = (\<lambda>w. (Inr (), f w))"

definition plift :: "'a res \<Rightarrow> ('w, 'a) proc" where
  "plift r = (\<lambda>w. (r, w))"

definition pwhen :: "bool \<Rightarrow> ('w, unit) proc \<Rightarrow> ('w, unit) proc" where
  "pwhen b m = (if b then m else pret ())"

fun pfor :: "'a list \<Rightarrow> ('a \<Rightarrow> ('w, unit) proc) \<Rightarrow> ('w, unit) proc" where
  "pfor [] f = pret ()"
| "pfor (x # xs) f = pthen (f x) (pfor xs f)"

text \<open>Changes of one node, and access to it.\<close>

definition the_node :: "nat \<Rightarrow> ('f, 'r) world \<Rightarrow> 'r CNode" where
  "the_node i w = node (w_net w) i"

definition on_node :: "nat \<Rightarrow> ('r CNode \<Rightarrow> 'r CNode) \<Rightarrow> (('f, 'r) world, unit) proc" where
  "on_node i f = pmod (\<lambda>w. w\<lparr> w_net := upd_node i f (w_net w) \<rparr>)"

definition on_net :: "('r net \<Rightarrow> 'r net) \<Rightarrow> (('f, 'r) world, unit) proc" where
  "on_net f = pmod (\<lambda>w. w\<lparr> w_net := f (w_net w) \<rparr>)"

definition on_addrman :: "(CAddrMan \<Rightarrow> ('a \<times> CAddrMan) rnd) \<Rightarrow> (('f, 'r) world, 'a) proc" where
  "on_addrman f = (\<lambda>w. case f (addrman (w_net w)) (w_draws w) of
      Inl e \<Rightarrow> (Inl e, w)
    | Inr ((x, am), d) \<Rightarrow> (Inr x, w\<lparr> w_net := (w_net w)\<lparr> addrman := am \<rparr>, w_draws := d \<rparr>))"

definition next_draw :: "(('f, 'r) world, uint64) proc" where
  "next_draw = (\<lambda>w. case w_draws w of [] \<Rightarrow> (Inl NoReturn, w) | d # ds \<Rightarrow> (Inr d, w\<lparr> w_draws := ds \<rparr>))"

text \<open>\<open>vRecv >> x\<close>\<close>

definition read_val :: "'a reader \<Rightarrow> (('f, 'r) world, 'a) proc" where
  "read_val rd = (\<lambda>w. case rd (vRecv w) of Inl e \<Rightarrow> (Inl e, w) | Inr (x, rest) \<Rightarrow> (Inr x, w\<lparr> vRecv := rest \<rparr>))"

definition read_opt :: "'a reader \<Rightarrow> 'a \<Rightarrow> (('f, 'r) world, 'a) proc" where
  "read_opt rd dflt = pbind (pget vRecv) (\<lambda>bs. if bs \<noteq> [] then read_val rd else pret dflt)"

definition misbehave :: "('c, 'f, 'r) msg_env \<Rightarrow> int64 \<Rightarrow> int32 \<Rightarrow> nat \<Rightarrow> (('f, 'r) world, unit) proc" where
  "misbehave M now howmuch i = pbind (pget w_clock) (\<lambda>c.
     on_net (\<lambda>s. snd (Misbehaving (me_net M) True (GetTime now c) howmuch i s)))"

subsection \<open>Blocks\<close>

definition ProcessGetData :: "('c, 'f, 'r) msg_env \<Rightarrow> nat \<Rightarrow> (('f, 'r) world, unit) proc" where
  "ProcessGetData M i = on_node i (me_push M (Msg_notfound []))"

definition IsInitialBlockDownload :: bool where "IsInitialBlockDownload = True"

definition AlreadyHave :: "('c, 'f, 'r) msg_env \<Rightarrow> CInv \<Rightarrow> ('f, 'r) world \<Rightarrow> bool" where
  "AlreadyHave M iv w =
     (if inv_type iv = MSG_TX M then True
      else if inv_type iv = MSG_BLOCK M then mapBlockIndex w (inv_hash iv) \<noteq> None \<or> mapOrphanBlocks w (inv_hash iv) \<noteq> None
      else True)"

definition PushGetBlocks :: "('c, 'f, 'r) msg_env \<Rightarrow> nat \<Rightarrow> uint256 option \<Rightarrow> uint256 \<Rightarrow> (('f, 'r) world, unit) proc" where
  "PushGetBlocks M i pindexBegin hashEnd = on_node i (\<lambda>n.
     if pindexBegin = pindexLastGetBlocksBegin n \<and> hashEnd = hashLastGetBlocksEnd n then n
     else me_push M (Msg_getblocks (me_locator M pindexBegin) hashEnd)
            (n\<lparr> pindexLastGetBlocksBegin := pindexBegin, hashLastGetBlocksEnd := hashEnd \<rparr>))"

definition orphan_root :: "('c, 'f, 'r) msg_env \<Rightarrow> CBlock \<Rightarrow> (('f, 'r) world, uint256) proc" where
  "orphan_root M b = pbind (pget mapOrphanBlocks) (\<lambda>orphans.
     plift (case GetOrphanRoot (me_chain M) orphans b of None \<Rightarrow> Inl NoReturn | Some h \<Rightarrow> Inr h))"

text \<open>The verdict is the state left in \<open>CValidationState\<close>.\<close>

definition ProcessBlock :: "('c, 'f, 'r) msg_env \<Rightarrow> int64 \<Rightarrow> nat option \<Rightarrow> CBlock \<Rightarrow> (('f, 'r) world, bool \<times> verdict) proc" where
  "ProcessBlock M now pfrom b0 = pbind (pget id) (\<lambda>w.
     let C = me_chain M; hash = Block_GetHash C b0 in
     if mapBlockIndex w hash \<noteq> None then pret (False, Some (0, ''ProcessBlock() : already have block''))
     else if mapOrphanBlocks w hash \<noteq> None then pret (False, Some (0, ''ProcessBlock() : already have block (orphan)''))
     else pbind (plift (CheckBlock C (GetAdjustedTime now (w_clock w)) b0 True True)) (\<lambda>(v, b).
       if v \<noteq> None then pret (False, v)
       else pbind (case Option.bind (GetLastCheckpoint (fCheckpoints M) (ce_testnet C) (mapBlockIndex w)) (mapBlockIndex w) of
           None \<Rightarrow> pret None
         | Some pcheckpoint \<Rightarrow>
             if hashPrevBlock b \<noteq> hashBestChain w then
               let deltaTime = GetBlockTime b - uint (bi_nTime pcheckpoint) in
               if deltaTime < 0 then pret (Some (100, ''ProcessBlock() : block with timestamp before last checkpoint''))
               else pbind (plift (ComputeMinWork C (bi_nBits pcheckpoint) deltaTime)) (\<lambda>required.
                 if BN_cmp (ce_bn C) (SetCompact (ce_bn C) (bh_nBits b)) (SetCompact (ce_bn C) required) > 0
                 then pret (Some (100, ''ProcessBlock() : block with too little proof-of-work''))
                 else pret None)
             else pret None) (\<lambda>v2.
         if v2 \<noteq> None then pret (False, v2)
         else if hashPrevBlock b \<noteq> 0 \<and> mapBlockIndex w (hashPrevBlock b) = None then
           (case pfrom of
              None \<Rightarrow> pret (True, None)
            | Some i \<Rightarrow>
                pthen (pmod (\<lambda>w. w\<lparr> mapOrphanBlocks := (case mapOrphanBlocks w hash of None \<Rightarrow> (mapOrphanBlocks w)(hash \<mapsto> b) | Some _ \<Rightarrow> mapOrphanBlocks w),
                                    mapOrphanBlocksByPrev := mapOrphanBlocksByPrev w @ [(hashPrevBlock b, b)] \<rparr>))
                  (pbind (orphan_root M b) (\<lambda>root.
                    pthen (PushGetBlocks M i (pindexBest w) root) (pret (True, None)))))
         else pthen (pmod (\<lambda>w. w\<lparr> gate_blocks := gate_blocks w @ [b] \<rparr>)) (pret (True, None)))))"

subsection \<open>The commands\<close>

text \<open>A handler ends with the value of a \<open>return\<close> inside it, or \<^term>\<open>None\<close> when control reaches the code
  behind the chain of commands.\<close>

type_synonym ('f, 'r) handler = "(('f, 'r) world, bool option) proc"

definition PushVersion :: "('c, 'f, 'r) msg_env \<Rightarrow> int64 \<Rightarrow> nat \<Rightarrow> (('f, 'r) world, unit) proc" where
  "PushVersion M now i = pbind next_draw (\<lambda>nonce. pbind (pget id) (\<lambda>w.
     let E = me_net M; n = the_node i w; a = nd_addr n;
         nTime = (if fInbound n then GetAdjustedTime now (w_clock w) else GetTime now (w_clock w));
         addrZero = CAddress_of (ne_proto E) (CService_of_string (ne_resolver E) ''0.0.0.0'' 0 False);
         addrYou = (if IsRoutable a \<and> \<not> IsProxy a (me_proxies M) then a else addrZero);
         addrMe = GetLocalAddress E (GetAdjustedTime now (w_clock w)) (Some (ip_key a)) (w_net w)
     in pthen (pmod (\<lambda>w. w\<lparr> nLocalHostNonce := nonce \<rparr>))
          (on_node i (me_push M (Msg_version (ae_protocol_version (me_alert M)) (nLocalServices (w_net w)) nTime addrYou addrMe nonce
             (FormatSubVersion ''Satoshi'' (ae_client_version (me_alert M)) []) (nBestHeight M))))))"

definition relay_alert :: "('c, 'f, 'r) msg_env \<Rightarrow> int64 \<Rightarrow> CAlert \<Rightarrow> nat \<Rightarrow> (('f, 'r) world, unit) proc" where
  "relay_alert M now a i = pbind (pget w_clock) (\<lambda>c. on_node i (\<lambda>n. snd (RelayTo (me_alert M) (GetAdjustedTime now c) a n)))"

definition push_address :: "('c, 'f, 'r) msg_env \<Rightarrow> CAddress \<Rightarrow> nat \<Rightarrow> (('f, 'r) world, unit) proc" where
  "push_address M addr i = on_node i (ne_push_address (me_net M) addr)"

definition advertise_to_peer :: "('c, 'f, 'r) msg_env \<Rightarrow> int64 \<Rightarrow> nat \<Rightarrow> (('f, 'r) world, unit) proc" where
  "advertise_to_peer M now i = pbind (pget id) (\<lambda>w.
     let addr = GetLocalAddress (me_net M) (GetAdjustedTime now (w_clock w)) (Some (ip_key (nd_addr (the_node i w)))) (w_net w)
     in pwhen (IsRoutable addr) (push_address M addr i))"

text \<open>What \<open>version\<close> does once the fields are read.\<close>

definition version_accepted ::
  "('c, 'f, 'r) msg_env \<Rightarrow> int64 \<Rightarrow> nat \<Rightarrow> int64 \<Rightarrow> CAddress \<Rightarrow> ('f, 'r) handler" where
  "version_accepted M now i nTime addrFrom =
     pthen (pbind (pget (the_node i)) (\<lambda>n. pwhen (fInbound n) (PushVersion M now i)))
    (pthen (on_node i (\<lambda>n. n\<lparr> fClient := (nd_nServices n AND pc_node_network (ne_proto (me_net M)) = 0) \<rparr>))
    (pthen (pmod (\<lambda>w. w\<lparr> w_clock := AddTimeData (me_median M) now (nd_addr (the_node i w)) nTime (w_clock w) \<rparr>))
    (pthen (on_node i (me_push M Msg_verack))
    (pthen (on_node i (\<lambda>n. me_set_send_version M (min (nd_nVersion n) (ae_protocol_version (me_alert M))) n))
    (pthen (pbind (pget (the_node i)) (\<lambda>n. pbind (pget w_clock) (\<lambda>c.
        let tA = GetAdjustedTime now c in
        if \<not> fInbound n then
          pthen (pwhen (\<not> ne_fNoListen (me_net M) \<and> \<not> IsInitialBlockDownload) (advertise_to_peer M now i))
         (pthen (pbind (pget (\<lambda>w. length (vRandom (addrman (w_net w))))) (\<lambda>sz.
            pwhen (fOneShot n \<or> nd_nVersion n \<ge> CADDR_TIME_VERSION M \<or> sz < 1000)
              (pthen (on_node i (me_push M Msg_getaddr)) (on_node i (\<lambda>n. n\<lparr> fGetAddr := True \<rparr>)))))
          (on_addrman (\<lambda>am. rbind (AM_Good (me_bucket M) (nd_addr n) tA am) (\<lambda>am. ret ((), am)))))
        else pwhen (NetAddr_eq (nd_addr n) addrFrom)
          (pthen (on_addrman (\<lambda>am. rbind (AM_Add (me_bucket M) tA addrFrom (ip_key addrFrom) 0 am) (\<lambda>(_, am). ret ((), am))))
                 (on_addrman (\<lambda>am. rbind (AM_Good (me_bucket M) addrFrom tA am) (\<lambda>am. ret ((), am))))))))
    (pthen (pbind (pget mapAlerts) (\<lambda>m. pfor m (\<lambda>(_, a). relay_alert M now a i)))
    (pthen (on_node i (\<lambda>n. n\<lparr> fSuccessfullyConnected := True \<rparr>))
    (pthen (pmod (\<lambda>w. w\<lparr> cPeerBlockCounts := mf_input (me_median M) (nStartingHeight (the_node i w)) (cPeerBlockCounts w) \<rparr>))
      (pret None)))))))))"

definition on_version :: "('c, 'f, 'r) msg_env \<Rightarrow> int64 \<Rightarrow> nat \<Rightarrow> ('f, 'r) handler" where
  "on_version M now i = pbind (pget (the_node i)) (\<lambda>n.
     if nd_nVersion n \<noteq> 0 then pthen (misbehave M now 1 i) (pret (Some False))
     else
       pbind (read_val (rd_int M)) (\<lambda>nVersion. pthen (on_node i (\<lambda>n. n\<lparr> nd_nVersion := nVersion \<rparr>))
      (pbind (read_val (rd_uint64 M)) (\<lambda>services. pthen (on_node i (\<lambda>n. n\<lparr> nd_nServices := services \<rparr>))
      (pbind (read_val (rd_int64 M)) (\<lambda>nTime.
       pbind (read_val (rd_address M)) (\<lambda>addrMe.
       if nVersion < MIN_PROTO_VERSION M then pthen (on_node i (\<lambda>n. n\<lparr> fDisconnect := True \<rparr>)) (pret (Some False))
       else
         pthen (pwhen (nVersion = 10300) (on_node i (\<lambda>n. n\<lparr> nd_nVersion := 300 \<rparr>)))
        (pbind (pbind (pget vRecv) (\<lambda>bs.
           if bs \<noteq> [] then pbind (read_val (rd_address M)) (\<lambda>a. pbind (read_val (rd_uint64 M)) (\<lambda>k. pret (a, k)))
           else pret (CAddress_Init (ne_proto (me_net M)), 1))) (\<lambda>(addrFrom, nNonce).
         pthen (pbind (pget vRecv) (\<lambda>bs. pwhen (bs \<noteq> []) (pbind (read_val (rd_string M)) (\<lambda>s. on_node i (\<lambda>n. n\<lparr> strSubVer := s \<rparr>)))))
        (pthen (pbind (pget vRecv) (\<lambda>bs. pwhen (bs \<noteq> []) (pbind (read_val (rd_int M)) (\<lambda>h. on_node i (\<lambda>n. n\<lparr> nStartingHeight := h \<rparr>)))))
        (pthen (pbind (pget vRecv) (\<lambda>bs. if bs \<noteq> [] then pbind (read_val (rd_bool M)) (\<lambda>b. on_node i (\<lambda>n. n\<lparr> fRelayTxes := b \<rparr>))
                                         else on_node i (\<lambda>n. n\<lparr> fRelayTxes := True \<rparr>)))
        (pthen (pbind (pget w_clock) (\<lambda>c. pwhen (fInbound n \<and> IsRoutable addrMe)
                  (pthen (on_node i (\<lambda>n. n\<lparr> nd_addrLocal := CService.truncate addrMe \<rparr>))
                         (on_net (\<lambda>s. snd (SeenLocal (me_net M) (GetAdjustedTime now c) addrMe s))))))
        (pbind (pget nLocalHostNonce) (\<lambda>own.
           if nNonce = own \<and> nNonce > 1 then pthen (on_node i (\<lambda>n. n\<lparr> fDisconnect := True \<rparr>)) (pret (Some True))
           else version_accepted M now i nTime addrFrom))))))))))))))"

definition on_verack :: "('c, 'f, 'r) msg_env \<Rightarrow> nat \<Rightarrow> ('f, 'r) handler" where
  "on_verack M i = pthen (on_node i (\<lambda>n. me_set_recv_version M (min (nd_nVersion n) (ae_protocol_version (me_alert M))) n)) (pret None)"

text \<open>The peers that an address is relayed to: the first ones in the order of salted hashes.\<close>

definition relay_key :: "('c, 'f, 'r) msg_env \<Rightarrow> uint256 \<Rightarrow> nat \<Rightarrow> uint256" where
  "relay_key M hashRand k = Hash (ae_sha (me_alert M)) (le_bytes 32 (hashRand XOR ucast (me_pointer M k)))"

definition relay_peers :: "('c, 'f, 'r) msg_env \<Rightarrow> int64 \<Rightarrow> uint256 \<Rightarrow> CAddress \<Rightarrow> ('f, 'r) world \<Rightarrow> nat list" where
  "relay_peers M now salt addr w =
     (let hashAddr = NetAddr_GetHash (ae_sha (me_alert M)) addr;
          hashRand = salt XOR ucast (push_bit 32 hashAddr)
             XOR ucast ((word_of_int (GetTime now (w_clock w)) + hashAddr) div (24 * 60 * 60) :: uint64);
          hashRand = Hash (ae_sha (me_alert M)) (le_bytes 32 hashRand)
      in sort_key (relay_key M hashRand) (filter (\<lambda>k. \<not> nd_nVersion (the_node k w) < CADDR_TIME_VERSION M) (vNodes (w_net w))))"

definition relay_address :: "('c, 'f, 'r) msg_env \<Rightarrow> int64 \<Rightarrow> bool \<Rightarrow> CAddress \<Rightarrow> (('f, 'r) world, unit) proc" where
  "relay_address M now fReachable addr =
     pthen (pbind (pget hashSalt) (\<lambda>salt. pwhen (salt = 0) (pbind next_draw (\<lambda>a. pbind next_draw (\<lambda>b. pbind next_draw (\<lambda>c. pbind next_draw (\<lambda>d.
              pmod (\<lambda>w. w\<lparr> hashSalt := le_word (le_bytes 8 a @ le_bytes 8 b @ le_bytes 8 c @ le_bytes 8 d) \<rparr>))))))))
    (pbind (pget id) (\<lambda>w. pfor (take (if fReachable then 2 else 1) (relay_peers M now (hashSalt w) addr w)) (push_address M addr)))"

fun addr_loop :: "('c, 'f, 'r) msg_env \<Rightarrow> int64 \<Rightarrow> nat \<Rightarrow> int64 \<Rightarrow> nat \<Rightarrow> CAddress list \<Rightarrow> CAddress list \<Rightarrow> (('f, 'r) world, CAddress list) proc" where
  "addr_loop M now i tA nAddrs [] vAddrOk = pret vAddrOk"
| "addr_loop M now i tA nAddrs (a # addrs) vAddrOk =
     (let addr = (if uint (ca_nTime a) \<le> 100000000 \<or> uint (ca_nTime a) > tA + 10 * 60
                  then a\<lparr> ca_nTime := word_of_int (tA - 5 * 24 * 60 * 60) \<rparr> else a)
      in pthen (on_node i (me_add_address_known M addr))
        (pbind (pget id) (\<lambda>w.
          let fReachable = IsReachable addr (w_net w) in
          pthen (pwhen (uint (ca_nTime addr) > tA - 10 * 60 \<and> \<not> fGetAddr (the_node i w) \<and> nAddrs \<le> 10 \<and> IsRoutable addr)
                   (relay_address M now fReachable addr))
            (addr_loop M now i tA nAddrs addrs (if fReachable then vAddrOk @ [addr] else vAddrOk)))))"

fun add_all :: "'c bucket_env \<Rightarrow> int64 \<Rightarrow> CNetAddr \<Rightarrow> int64 \<Rightarrow> CAddress list \<Rightarrow> CAddrMan \<Rightarrow> (int32 \<times> CAddrMan) rnd" where
  "add_all B tA src penalty [] am = ret (0, am)"
| "add_all B tA src penalty (a # addrs) am =
     rbind (AM_Add B tA a src penalty am) (\<lambda>(added, am1).
       rbind (add_all B tA src penalty addrs am1) (\<lambda>(k, am2). ret ((if added then 1 else 0) + k, am2)))"

definition on_addr :: "('c, 'f, 'r) msg_env \<Rightarrow> int64 \<Rightarrow> nat \<Rightarrow> ('f, 'r) handler" where
  "on_addr M now i = pbind (read_val (rd_addresses M)) (\<lambda>vAddr. pbind (pget id) (\<lambda>w.
     let tA = GetAdjustedTime now (w_clock w) in
     if nd_nVersion (the_node i w) < CADDR_TIME_VERSION M \<and> length (vRandom (addrman (w_net w))) > 1000 then pret (Some True)
     else if length vAddr > 1000 then pthen (misbehave M now 20 i) (pret (Some False))
     else pbind (addr_loop M now i tA (length vAddr) vAddr []) (\<lambda>vAddrOk.
       pthen (on_addrman (\<lambda>am. add_all (me_bucket M) tA (ip_key (nd_addr (the_node i w))) (2 * 60 * 60) vAddrOk am))
      (pthen (pwhen (length vAddr < 1000) (on_node i (\<lambda>n. n\<lparr> fGetAddr := False \<rparr>)))
      (pthen (on_node i (\<lambda>n. if fOneShot n then n\<lparr> fDisconnect := True \<rparr> else n)) (pret None))))))"

text \<open>The position of the last block in the vector, or none.\<close>

definition last_block :: "('c, 'f, 'r) msg_env \<Rightarrow> CInv list \<Rightarrow> nat option" where
  "last_block M vInv = List.find (\<lambda>k. inv_type (vInv ! k) = MSG_BLOCK M) (rev [0..<length vInv])"

definition on_one_inv :: "('c, 'f, 'r) msg_env \<Rightarrow> nat \<Rightarrow> nat option \<Rightarrow> nat \<times> CInv \<Rightarrow> (('f, 'r) world, unit) proc" where
  "on_one_inv M i nLastBlock = (\<lambda>(nInv, iv).
     pthen (on_node i (me_add_inventory_known M iv)) (pbind (pget id) (\<lambda>w.
       if \<not> AlreadyHave M iv w then
         pwhen (\<not> fImporting M \<and> \<not> fReindex M)
           (pmod (\<lambda>w. case me_ask_for M iv (mapAlreadyAskedFor w, the_node i w) of
              (m, n) \<Rightarrow> w\<lparr> mapAlreadyAskedFor := m, w_net := upd_node i (\<lambda>_. n) (w_net w) \<rparr>))
       else case (if inv_type iv = MSG_BLOCK M then mapOrphanBlocks w (inv_hash iv) else None) of
         Some b \<Rightarrow> pbind (orphan_root M b) (\<lambda>root. PushGetBlocks M i (pindexBest w) root)
       | None \<Rightarrow>
           if nLastBlock = Some nInv then
             PushGetBlocks M i (map_option (\<lambda>_. inv_hash iv) (mapBlockIndex w (inv_hash iv))) 0
           else pret ())))"

definition on_inv :: "('c, 'f, 'r) msg_env \<Rightarrow> int64 \<Rightarrow> nat \<Rightarrow> ('f, 'r) handler" where
  "on_inv M now i = pbind (read_val (rd_invs M)) (\<lambda>vInv.
     if length vInv > MAX_INV_SZ M then pthen (misbehave M now 20 i) (pret (Some False))
     else pthen (pfor (enumerate 0 vInv) (on_one_inv M i (last_block M vInv))) (pret None))"

definition on_getdata :: "('c, 'f, 'r) msg_env \<Rightarrow> int64 \<Rightarrow> nat \<Rightarrow> ('f, 'r) handler" where
  "on_getdata M now i = pbind (read_val (rd_invs M)) (\<lambda>vInv.
     if length vInv > MAX_INV_SZ M then pthen (misbehave M now 20 i) (pret (Some False))
     else pthen (on_node i (\<lambda>n. n\<lparr> vRecvGetData := vRecvGetData n @ vInv \<rparr>)) (pthen (ProcessGetData M i) (pret None)))"

definition on_tx :: "('c, 'f, 'r) msg_env \<Rightarrow> nat \<Rightarrow> ('f, 'r) handler" where
  "on_tx M i = pbind (read_val (rd_tx M)) (\<lambda>tx.
     let iv = \<lparr> inv_type = MSG_TX M, inv_hash = ce_txhash (me_chain M) tx \<rparr> in
     pthen (on_node i (me_add_inventory_known M iv))
    (pthen (pmod (\<lambda>w. w\<lparr> mapAlreadyAskedFor := (mapAlreadyAskedFor w)(iv := None) \<rparr>)) (pret None)))"

definition on_block :: "('c, 'f, 'r) msg_env \<Rightarrow> int64 \<Rightarrow> nat \<Rightarrow> ('f, 'r) handler" where
  "on_block M now i = pbind (read_val (rd_block M)) (\<lambda>b.
     let iv = \<lparr> inv_type = MSG_BLOCK M, inv_hash = Block_GetHash (me_chain M) b \<rparr> in
     pthen (on_node i (me_add_inventory_known M iv))
    (pbind (ProcessBlock M now (Some i) b) (\<lambda>(ok, v).
       pthen (pwhen ok (pmod (\<lambda>w. w\<lparr> mapAlreadyAskedFor := (mapAlreadyAskedFor w)(iv := None) \<rparr>)))
      (pthen (case v of None \<Rightarrow> pret () | Some (nDoS, _) \<Rightarrow> misbehave M now nDoS i) (pret None)))))"

definition on_getaddr :: "('c, 'f, 'r) msg_env \<Rightarrow> nat \<Rightarrow> ('f, 'r) handler" where
  "on_getaddr M i = pthen (on_node i (\<lambda>n. n\<lparr> vAddrToSend := [] \<rparr>))
    (pbind (on_addrman AM_GetAddr) (\<lambda>vAddr. pthen (pfor vAddr (\<lambda>a. push_address M a i)) (pret None)))"

definition on_ping :: "('c, 'f, 'r) msg_env \<Rightarrow> nat \<Rightarrow> ('f, 'r) handler" where
  "on_ping M i = pbind (pget (the_node i)) (\<lambda>n.
     pthen (pwhen (nd_nVersion n > BIP0031_VERSION M) (pbind (read_val (rd_uint64 M)) (\<lambda>nonce. on_node i (me_push M (Msg_pong nonce)))))
      (pret None))"

definition on_alert :: "('c, 'f, 'r) msg_env \<Rightarrow> int64 \<Rightarrow> nat \<Rightarrow> ('f, 'r) handler" where
  "on_alert M now i = pbind (read_val (rd_alert M)) (\<lambda>a0. pbind (pget id) (\<lambda>w.
     let alertHash = CAlert_GetHash (me_alert M) a0; tA = GetAdjustedTime now (w_clock w) in
     if alertHash \<in> nd_setKnown (the_node i w) then pret None
     else pbind (plift (ProcessAlert (me_alert M) tA a0 (mapAlerts w))) (\<lambda>(ok, m, a, cmd).
       pthen (pmod (\<lambda>w. w\<lparr> mapAlerts := m \<rparr>))
      (pthen (if ok then pthen (on_node i (\<lambda>n. n\<lparr> nd_setKnown := insert alertHash (nd_setKnown n) \<rparr>))
                               (pfor (vNodes (w_net w)) (relay_alert M now a))
              else misbehave M now 10 i) (pret None)))))"

definition on_filterload :: "('c, 'f, 'r) msg_env \<Rightarrow> int64 \<Rightarrow> nat \<Rightarrow> ('f, 'r) handler" where
  "on_filterload M now i = pbind (read_val (rd_filter M)) (\<lambda>f.
     pthen (if \<not> IsWithinSizeConstraints f then misbehave M now 100 i else on_node i (\<lambda>n. n\<lparr> pfilter := Some f \<rparr>))
    (pthen (on_node i (\<lambda>n. n\<lparr> fRelayTxes := True \<rparr>)) (pret None)))"

definition on_filteradd :: "('c, 'f, 'r) msg_env \<Rightarrow> int64 \<Rightarrow> nat \<Rightarrow> ('f, 'r) handler" where
  "on_filteradd M now i = pbind (read_val (rd_vector M)) (\<lambda>v. pbind (pget (the_node i)) (\<lambda>n.
     pthen (if length v > MAX_SCRIPT_ELEMENT_SIZE M then misbehave M now 100 i
            else case pfilter n of
              Some f \<Rightarrow> pbind (plift (insert_key v f)) (\<lambda>f1. on_node i (\<lambda>n. n\<lparr> pfilter := Some f1 \<rparr>))
            | None \<Rightarrow> misbehave M now 100 i) (pret None)))"

definition on_filterclear :: "nat \<Rightarrow> ('f, 'r) handler" where
  "on_filterclear i = pthen (on_node i (\<lambda>n. n\<lparr> pfilter := None, fRelayTxes := True \<rparr>)) (pret None)"

text \<open>The chain of commands.  A message of a peer that has not sent its version is not handled.\<close>

definition run_command :: "('c, 'f, 'r) msg_env \<Rightarrow> int64 \<Rightarrow> nat \<Rightarrow> string \<Rightarrow> ('f, 'r) handler" where
  "run_command M now i strCommand = pbind (pget (the_node i)) (\<lambda>n.
     if strCommand = ''version'' then on_version M now i
     else if nd_nVersion n = 0 then pthen (misbehave M now 1 i) (pret (Some False))
     else if strCommand = ''verack'' then on_verack M i
     else if strCommand = ''addr'' then on_addr M now i
     else if strCommand = ''inv'' then on_inv M now i
     else if strCommand = ''getdata'' then on_getdata M now i
     else if strCommand = ''getblocks'' then pret None
     else if strCommand = ''getheaders'' then pret None
     else if strCommand = ''tx'' then on_tx M i
     else if strCommand = ''block'' \<and> \<not> fImporting M \<and> \<not> fReindex M then on_block M now i
     else if strCommand = ''getaddr'' then on_getaddr M i
     else if strCommand = ''mempool'' then pret None
     else if strCommand = ''ping'' then on_ping M i
     else if strCommand = ''alert'' then on_alert M now i
     else if strCommand = ''filterload'' then on_filterload M now i
     else if strCommand = ''filteradd'' then on_filteradd M now i
     else if strCommand = ''filterclear'' then on_filterclear i
     else pret None)"

definition AddressCurrentlyConnected :: "int64 \<Rightarrow> 'a CService_scheme \<Rightarrow> (('f, 'r) world, unit) proc" where
  "AddressCurrentlyConnected tA addr = on_net (\<lambda>s. s\<lparr> addrman := AM_Connected addr tA (addrman s) \<rparr>)"

text \<open>\<open>fDropped\<close> is the choice of the test option that drops messages.  The function ends without a
  \<open>return\<close>: the result \<^term>\<open>None\<close> is no value.\<close>

definition ProcessMessage :: "('c, 'f, 'r) msg_env \<Rightarrow> int64 \<Rightarrow> bool \<Rightarrow> nat \<Rightarrow> string \<Rightarrow> ('f, 'r) handler" where
  "ProcessMessage M now fDropped i strCommand =
     (if fDropped then pret (Some True)
      else pbind (run_command M now i strCommand) (\<lambda>r. case r of
        Some b \<Rightarrow> pret (Some b)
      | None \<Rightarrow> pbind (pget id) (\<lambda>w.
          pthen (pwhen (fNetworkNode (the_node i w) \<and> strCommand \<in> {''version'', ''addr'', ''inv'', ''getdata'', ''ping''})
                   (AddressCurrentlyConnected (GetAdjustedTime now (w_clock w)) (nd_addr (the_node i w))))
            (pret None))))"

text \<open>Exceptions are caught; the other faults are not.\<close>

definition catch_thrown :: "(('f, 'r) world, 'a) proc \<Rightarrow> (('f, 'r) world, unit) proc" where
  "catch_thrown m = (\<lambda>w. case m w of
      (Inr x, w') \<Rightarrow> (Inr (), w')
    | (Inl (Thrown e), w') \<Rightarrow> (Inr (), w')
    | (Inl e, w') \<Rightarrow> (Inl e, w'))"

text \<open>The loop over the queue; it returns the value of \<open>fOk\<close> and the number of messages consumed.\<close>

fun process_loop :: "('c, 'f, 'r) msg_env \<Rightarrow> int64 \<Rightarrow> bool \<Rightarrow> nat \<Rightarrow> CNetMessage list \<Rightarrow> nat \<Rightarrow> (('f, 'r) world, bool \<times> nat) proc" where
  "process_loop M now fDropped i [] it = pret (True, it)"
| "process_loop M now fDropped i (msg # msgs) it = pbind (pget (the_node i)) (\<lambda>n.
     if fDisconnect n then pret (True, it)
     else if nSendSize n \<ge> SendBufferSize M then pret (True, it)
     else if \<not> we_complete (ne_wire (me_net M)) msg then pret (True, it)
     else if mh_start (nm_hdr msg) \<noteq> pc_start (ne_proto (me_net M)) then pret (False, it + 1)
     else if \<not> Header_IsValid (ne_proto (me_net M)) (nm_hdr msg) then process_loop M now fDropped i msgs (it + 1)
     else if ucast (Hash (ae_sha (me_alert M)) (take (unat (mh_size (nm_hdr msg))) (nm_vRecv msg))) \<noteq> mh_checksum (nm_hdr msg)
       then process_loop M now fDropped i msgs (it + 1)
     else pthen (pmod (\<lambda>w. w\<lparr> vRecv := nm_vRecv msg \<rparr>))
         (pthen (catch_thrown (ProcessMessage M now fDropped i (Header_GetCommand (ne_proto (me_net M)) (nm_hdr msg))))
           (process_loop M now fDropped i msgs (it + 1))))"

definition ProcessMessages :: "('c, 'f, 'r) msg_env \<Rightarrow> int64 \<Rightarrow> bool \<Rightarrow> nat \<Rightarrow> (('f, 'r) world, bool) proc" where
  "ProcessMessages M now fDropped i = pbind (pget (the_node i)) (\<lambda>n.
     pthen (pwhen (vRecvGetData n \<noteq> []) (ProcessGetData M i))
    (pbind (process_loop M now fDropped i (vRecvMsg n) 0) (\<lambda>(fOk, it).
       pthen (on_node i (\<lambda>n. if fDisconnect n then n else n\<lparr> vRecvMsg := drop it (vRecvMsg n) \<rparr>)) (pret fOk))))"

subsection \<open>What the node sends on its own\<close>

definition rebroadcast :: "('c, 'f, 'r) msg_env \<Rightarrow> int64 \<Rightarrow> (('f, 'r) world, unit) proc" where
  "rebroadcast M now = pbind (pget id) (\<lambda>w0.
     pthen (pfor (vNodes (w_net w0)) (\<lambda>k.
        pthen (pwhen (nLastRebroadcast w0 \<noteq> 0) (on_node k (me_clear_address_known M)))
              (pwhen (\<not> ne_fNoListen (me_net M)) (advertise_to_peer M now k))))
      (pmod (\<lambda>w. w\<lparr> nLastRebroadcast := GetTime now (w_clock w) \<rparr>)))"

fun ask_loop :: "('c, 'f, 'r) msg_env \<Rightarrow> int64 \<Rightarrow> nat \<Rightarrow> (int64 \<times> CInv) list \<Rightarrow> CInv list \<Rightarrow> (('f, 'r) world, CInv list) proc" where
  "ask_loop M nNow i [] vGetData = pret vGetData"
| "ask_loop M nNow i ((t, iv) # asks) vGetData =
     (if t \<le> nNow then
        pbind (pget id) (\<lambda>w.
          let v = (if \<not> AlreadyHave M iv w then vGetData @ [iv] else vGetData);
              full = (\<not> AlreadyHave M iv w \<and> length v \<ge> 1000)
          in pthen (pwhen full (on_node i (me_push M (Msg_getdata v))))
            (pthen (on_node i (\<lambda>n. n\<lparr> mapAskFor := tl (mapAskFor n) \<rparr>))
              (ask_loop M nNow i asks (if full then [] else v))))
      else pret vGetData)"

definition SendMessages :: "('c, 'f, 'r) msg_env \<Rightarrow> int64 \<Rightarrow> bool \<Rightarrow> nat \<Rightarrow> (('f, 'r) world, bool) proc" where
  "SendMessages M now lockMain i = pbind (pget id) (\<lambda>w.
     let n = the_node i w; t = GetTime now (w_clock w) in
     if \<not> lockMain then pret True
     else if nd_nVersion n = 0 then pret True
     else
       pthen (pwhen (nLastSend n \<noteq> 0 \<and> t - nLastSend n > 30 * 60 \<and> vSendMsg n = [])
                (on_node i (me_push M (if nd_nVersion n > BIP0031_VERSION M then Msg_ping 0 else Msg_ping_old))))
      (pthen (pwhen (fStartSync n \<and> \<not> fImporting M \<and> \<not> fReindex M)
                (pthen (on_node i (\<lambda>n. n\<lparr> fStartSync := False \<rparr>)) (PushGetBlocks M i (pindexBest w) 0)))
      (pthen (pwhen (\<not> IsInitialBlockDownload \<and> t - nLastRebroadcast w > 24 * 60 * 60) (rebroadcast M now))
      (pbind (ask_loop M (t * 1000000) i (mapAskFor n) []) (\<lambda>vGetData.
         pthen (pwhen (vGetData \<noteq> []) (on_node i (me_push M (Msg_getdata vGetData)))) (pret True))))))"

end
