(* ===== verification/MessagesProps.thy ===== *)
theory MessagesProps
  imports Messages AddrManProps
begin

text \<open>
  Properties of the message handler, by a judgement \<open>pres P m\<close>: the handler \<open>m\<close> keeps the predicate
  \<open>P\<close> on the state, whether it returns or faults.
\<close>

definition pres :: "('w \<Rightarrow> bool) \<Rightarrow> ('w, 'a) proc \<Rightarrow> bool" where
  "pres P m \<longleftrightarrow> (\<forall>w. P w \<longrightarrow> P (snd (m w)))"

named_theorems pres_intros \<open>rules of the judgement\<close>

lemma presD: "pres P m \<Longrightarrow> P w \<Longrightarrow> P (snd (m w))"
  by (simp add: pres_def)

lemma pres_ret [pres_intros]: "pres P (pret x)"
  and pres_get [pres_intros]: "pres P (pget f)"
  and pres_lift [pres_intros]: "pres P (plift r)"
  by (simp_all add: pres_def pret_def pget_def plift_def)

lemma pres_mod: "(\<And>w. P w \<Longrightarrow> P (f w)) \<Longrightarrow> pres P (pmod f)"
  by (simp add: pres_def pmod_def)

lemma pres_bind [pres_intros]:
  assumes "pres P m" "\<And>x. pres P (k x)"
  shows "pres P (pbind m k)"
  unfolding pres_def
proof (intro allI impI)
  fix w
  assume "P w"
  then have "P (snd (m w))" using assms(1) by (simp add: pres_def)
  then show "P (snd (pbind m k w))"
    using assms(2) by (cases "m w"; cases "fst (m w)") (auto simp: pbind_def pres_def)
qed

lemma pres_get_bind: "(\<And>w. P w \<Longrightarrow> P (snd (k (f w) w))) \<Longrightarrow> pres P (pbind (pget f) k)"
  by (simp add: pres_def pbind_def pget_def)

lemma pres_then [pres_intros]: "pres P m \<Longrightarrow> pres P k \<Longrightarrow> pres P (pthen m k)"
  unfolding pthen_def by (rule pres_bind)

lemma pres_when [pres_intros]: "pres P m \<Longrightarrow> pres P (pwhen b m)"
  by (simp add: pwhen_def pres_ret)

lemma pres_for [pres_intros]: "(\<And>x. pres P (f x)) \<Longrightarrow> pres P (pfor xs f)"
  by (induction xs) (simp_all add: pres_ret pres_then)

lemma pres_if [pres_intros]: "pres P a \<Longrightarrow> pres P b \<Longrightarrow> pres P (if c then a else b)"
  by simp

lemma pres_option [pres_intros]: "pres P a \<Longrightarrow> (\<And>x. pres P (b x)) \<Longrightarrow> pres P (case r of None \<Rightarrow> a | Some x \<Rightarrow> b x)"
  by (cases r) simp_all

lemma pres_prod [pres_intros]: "(\<And>x y. pres P (f x y)) \<Longrightarrow> pres P (case p of (x, y) \<Rightarrow> f x y)"
  by (cases p) simp

lemma pres_let [pres_intros]: "pres P (f x) \<Longrightarrow> pres P (Let x f)"
  by simp

subsection \<open>Which blocks are let in\<close>

lemma CheckBlock_same:
  assumes "CheckBlock C t b pow mr = Inr (v, b')"
  shows "CBlockHeader.truncate b' = CBlockHeader.truncate b \<and> vtx b' = vtx b"
proof -
  have bt: "CBlockHeader.truncate (snd (BuildMerkleTree H1 H2 b)) = CBlockHeader.truncate b \<and> vtx (snd (BuildMerkleTree H1 H2 b)) = vtx b"
    for H1 :: "CTransaction \<Rightarrow> uint256" and H2
    by (simp add: BuildMerkleTree_eq CBlockHeader.truncate_def)
  have "b' = b \<or> b' = snd (BuildMerkleTree (ce_txhash C) (ce_merkle C) b)"
    using assms unfolding CheckBlock_def
    by (auto simp: Let_def bind_res_Inr_iff split: if_splits option.splits prod.splits)
  then show ?thesis using bt by auto
qed

text \<open>What a block has passed when it is stored or handed on: the proof of work, the Merkle root, and
  the rules on its transactions.\<close>

definition admitted :: "chain_env \<Rightarrow> CBlock \<Rightarrow> bool" where
  "admitted C b \<longleftrightarrow> CheckProofOfWork C (Block_GetHash C b) (bh_nBits b) \<and>
     merkle_root (ce_merkle C) (map (ce_txhash C) (vtx b)) = Some (hashMerkleRoot b) \<and>
     (\<forall>tx\<in>set (vtx b). CheckTransaction C tx = None) \<and> distinct (map (ce_txhash C) (vtx b)) \<and>
     vtx b \<noteq> [] \<and> IsCoinBase (hd (vtx b)) \<and> (\<forall>tx\<in>set (tl (vtx b)). \<not> IsCoinBase tx)"

lemma CheckBlock_admitted:
  assumes r: "CheckBlock C t b0 True True = Inr (None, b)"
  shows "admitted C b" "Block_GetHash C b = Block_GetHash C b0"
proof -
  have same: "CBlockHeader.truncate b = CBlockHeader.truncate b0" "vtx b = vtx b0" using CheckBlock_same [OF r] by auto
  then have f: "bh_nBits b = bh_nBits b0" "hashMerkleRoot b = hashMerkleRoot b0"
    by (simp_all add: CBlockHeader.truncate_def)
  show h: "Block_GetHash C b = Block_GetHash C b0" using same by (simp add: Block_GetHash_def)
  show "admitted C b"
    using CheckBlock_cases [of C t b0 True True] r unfolding admitted_def h f same block_rules_def by simp
qed

definition store_orphan :: "chain_env \<Rightarrow> CBlock \<Rightarrow> ('f, 'r) world \<Rightarrow> ('f, 'r) world" where
  "store_orphan C b w = w\<lparr> mapOrphanBlocks := (mapOrphanBlocks w)(Block_GetHash C b \<mapsto> b),
     mapOrphanBlocksByPrev := mapOrphanBlocksByPrev w @ [(hashPrevBlock b, b)] \<rparr>"

subsection \<open>The chain data\<close>

text \<open>A predicate that looks at the chain data only: it survives every change of the peers, the clock,
  the alerts, the draws and the bookkeeping of requests.\<close>

locale chain_pred =
  fixes P :: "('f, 'r) world \<Rightarrow> bool"
  assumes net: "P w \<Longrightarrow> P (w\<lparr> w_net := s \<rparr>)"
    and clock: "P w \<Longrightarrow> P (w\<lparr> w_clock := c \<rparr>)"
    and counts: "P w \<Longrightarrow> P (w\<lparr> cPeerBlockCounts := k \<rparr>)"
    and alerts: "P w \<Longrightarrow> P (w\<lparr> mapAlerts := m \<rparr>)"
    and asked: "P w \<Longrightarrow> P (w\<lparr> mapAlreadyAskedFor := q \<rparr>)"
    and nonce: "P w \<Longrightarrow> P (w\<lparr> nLocalHostNonce := n \<rparr>)"
    and salt: "P w \<Longrightarrow> P (w\<lparr> hashSalt := h \<rparr>)"
    and rebro: "P w \<Longrightarrow> P (w\<lparr> nLastRebroadcast := t \<rparr>)"
    and draws: "P w \<Longrightarrow> P (w\<lparr> w_draws := d \<rparr>)"
    and recv: "P w \<Longrightarrow> P (w\<lparr> vRecv := bs \<rparr>)"
begin

lemma net_draws: "P w \<Longrightarrow> P (w\<lparr> w_net := s, w_draws := d \<rparr>)"
  by (drule net [of _ s], drule draws [of _ d]) simp

lemma on_node: "pres P (on_node i f)" unfolding on_node_def by (rule pres_mod) (rule net)
lemma on_net: "pres P (on_net f)" unfolding on_net_def by (rule pres_mod) (rule net)

lemma on_addrman: "pres P (on_addrman f)"
  by (auto simp: pres_def on_addrman_def net_draws split: sum.splits)

lemma next_draw: "pres P next_draw"
  by (auto simp: pres_def next_draw_def draws split: list.splits)

lemma read_val: "pres P (read_val rd)"
  by (auto simp: pres_def read_val_def recv split: sum.splits)

lemma asked_mod: "pres P (pmod (\<lambda>w. w\<lparr> mapAlreadyAskedFor := f w \<rparr>))" by (rule pres_mod) (rule asked)
lemma recv_mod: "pres P (pmod (\<lambda>w. w\<lparr> vRecv := f w \<rparr>))" by (rule pres_mod) (rule recv)
lemma alerts_mod: "pres P (pmod (\<lambda>w. w\<lparr> mapAlerts := f w \<rparr>))" by (rule pres_mod) (rule alerts)
lemma nonce_mod: "pres P (pmod (\<lambda>w. w\<lparr> nLocalHostNonce := f w \<rparr>))" by (rule pres_mod) (rule nonce)
lemma salt_mod: "pres P (pmod (\<lambda>w. w\<lparr> hashSalt := f w \<rparr>))" by (rule pres_mod) (rule salt)
lemma clock_mod: "pres P (pmod (\<lambda>w. w\<lparr> w_clock := f w \<rparr>))" by (rule pres_mod) (rule clock)
lemma counts_mod: "pres P (pmod (\<lambda>w. w\<lparr> cPeerBlockCounts := f w \<rparr>))" by (rule pres_mod) (rule counts)
lemma rebro_mod: "pres P (pmod (\<lambda>w. w\<lparr> nLastRebroadcast := f w \<rparr>))" by (rule pres_mod) (rule rebro)

lemma ask_mod: "pres P (pmod (\<lambda>w. case g w of (m, n) \<Rightarrow> w\<lparr> mapAlreadyAskedFor := m, w_net := h w n \<rparr>))"
  by (rule pres_mod) (auto intro: net asked split: prod.splits)

lemmas basic = on_node on_net on_addrman next_draw read_val asked_mod recv_mod alerts_mod nonce_mod salt_mod clock_mod counts_mod
  rebro_mod ask_mod

lemmas steps = pres_intros basic

lemma misbehave: "pres P (misbehave M now k i)"
  unfolding misbehave_def by (intro steps)

lemma small:
  "pres P (PushVersion M now i)" "pres P (relay_alert M now a i)" "pres P (push_address M addr i)" "pres P (advertise_to_peer M now i)"
  "pres P (ProcessGetData M i)" "pres P (PushGetBlocks M i p h)" "pres P (orphan_root M b)" "pres P (AddressCurrentlyConnected t ad)"
  unfolding PushVersion_def relay_alert_def push_address_def advertise_to_peer_def ProcessGetData_def PushGetBlocks_def
    orphan_root_def AddressCurrentlyConnected_def Let_def
  by (intro steps)+

lemma version_accepted: "pres P (version_accepted M now i t a)"
  unfolding version_accepted_def Let_def by (intro steps small misbehave)

lemma on_version: "pres P (on_version M now i)"
  unfolding on_version_def Let_def by (intro steps small misbehave version_accepted)

lemma relay_address: "pres P (relay_address M now r a)"
  unfolding relay_address_def Let_def by (intro steps small)

lemma addr_loop: "pres P (addr_loop M now i tA k addrs ok)"
  by (induction addrs arbitrary: ok) (simp_all only: addr_loop.simps Let_def, (intro steps small relay_address | assumption)+)

lemma on_addr: "pres P (on_addr M now i)"
  unfolding on_addr_def Let_def by (intro steps small misbehave addr_loop)

lemma on_one_inv: "pres P (on_one_inv M i l x)"
  unfolding on_one_inv_def Let_def by (intro steps small misbehave)

lemma others:
  "pres P (on_inv M now i)" "pres P (on_getdata M now i)" "pres P (on_tx M i)" "pres P (on_getaddr M i)" "pres P (on_ping M i)"
  "pres P (on_alert M now i)" "pres P (on_filterload M now i)" "pres P (on_filteradd M now i)" "pres P (on_filterclear i)"
  "pres P (on_verack M i)"
  unfolding on_inv_def on_getdata_def on_tx_def on_getaddr_def on_ping_def on_alert_def on_filterload_def on_filteradd_def
    on_filterclear_def on_verack_def Let_def
  by (intro steps small misbehave on_one_inv)+

lemma ProcessBlock:
  assumes orphan: "\<And>w b. \<lbrakk> P w; admitted (me_chain M) b; hashPrevBlock b \<noteq> 0; mapBlockIndex w (hashPrevBlock b) = None;
      mapOrphanBlocks w (Block_GetHash (me_chain M) b) = None \<rbrakk> \<Longrightarrow> P (store_orphan (me_chain M) b w)"
    and gate: "\<And>w b. \<lbrakk> P w; admitted (me_chain M) b; hashPrevBlock b = 0 \<or> mapBlockIndex w (hashPrevBlock b) \<noteq> None \<rbrakk> \<Longrightarrow>
      P (w\<lparr> gate_blocks := gate_blocks w @ [b] \<rparr>)"
  shows "pres P (ProcessBlock M now pf b0)"
  unfolding pres_def
proof (intro allI impI)
  fix w
  assume w: "P w"
  let ?C = "me_chain M" and ?h = "Block_GetHash (me_chain M) b0"
  show "P (snd (ProcessBlock M now pf b0 w))"
  proof (cases "mapBlockIndex w ?h = None \<and> mapOrphanBlocks w ?h = None")
    case False
    then show ?thesis using w by (auto simp: ProcessBlock_def pbind_def pget_def pret_def Let_def)
  next
    case new: True
    show ?thesis
    proof (cases "\<exists>b. CheckBlock ?C (GetAdjustedTime now (w_clock w)) b0 True True = Inr (None, b)")
      case False
      then show ?thesis using w new
        by (cases "CheckBlock ?C (GetAdjustedTime now (w_clock w)) b0 True True")
          (auto simp: ProcessBlock_def pbind_def pget_def pret_def plift_def Let_def)
    next
      case True
      then obtain b where b: "CheckBlock ?C (GetAdjustedTime now (w_clock w)) b0 True True = Inr (None, b)" by blast
      note adm = CheckBlock_admitted [OF b]
      define ck :: "(('f, 'r) world, verdict) proc" where "ck = (case Option.bind (GetLastCheckpoint (fCheckpoints M) (ce_testnet ?C) (mapBlockIndex w)) (mapBlockIndex w) of
           None \<Rightarrow> pret None
         | Some pcheckpoint \<Rightarrow>
             if hashPrevBlock b \<noteq> hashBestChain w then
               let deltaTime = GetBlockTime b - uint (bi_nTime pcheckpoint) in
               if deltaTime < 0 then pret (Some (100, ''ProcessBlock() : block with timestamp before last checkpoint''))
               else pbind (plift (ComputeMinWork ?C (bi_nBits pcheckpoint) deltaTime)) (\<lambda>required.
                 if BN_cmp (ce_bn ?C) (SetCompact (ce_bn ?C) (bh_nBits b)) (SetCompact (ce_bn ?C) required) > 0
                 then pret (Some (100, ''ProcessBlock() : block with too little proof-of-work''))
                 else pret None)
             else pret None)"
      have ckw: "snd (ck w) = w"
        unfolding ck_def by (auto simp: pbind_def plift_def pret_def Let_def split: option.splits sum.splits)
      define rest where "rest = (if hashPrevBlock b \<noteq> 0 \<and> mapBlockIndex w (hashPrevBlock b) = None then
           (case pf of
              None \<Rightarrow> pret (True, None)
            | Some i \<Rightarrow>
                pthen (pmod (\<lambda>w. w\<lparr> mapOrphanBlocks := (case mapOrphanBlocks w ?h of None \<Rightarrow> (mapOrphanBlocks w)(?h \<mapsto> b) | Some _ \<Rightarrow> mapOrphanBlocks w),
                                    mapOrphanBlocksByPrev := mapOrphanBlocksByPrev w @ [(hashPrevBlock b, b)] \<rparr>))
                  (pbind (orphan_root M b) (\<lambda>root.
                    pthen (PushGetBlocks M i (pindexBest w) root) (pret (True, None)))))
         else pthen (pmod (\<lambda>w. w\<lparr> gate_blocks := gate_blocks w @ [b] \<rparr>)) (pret (True, None :: verdict)))"
      have eq: "ProcessBlock M now pf b0 w = pbind ck (\<lambda>v2. if v2 \<noteq> None then pret (False, v2) else rest) w"
        using new b unfolding ProcessBlock_def ck_def rest_def by (simp add: pbind_def pget_def plift_def pret_def Let_def)
      have tail: "pres P (pbind (orphan_root M b) (\<lambda>root. pthen (PushGetBlocks M i p root) (pret (True, None :: verdict))))" for i p
        by (intro steps small)
      have "P (snd (rest w))"
      proof (cases "hashPrevBlock b \<noteq> 0 \<and> mapBlockIndex w (hashPrevBlock b) = None")
        case True
        then have "P (store_orphan ?C b w)" using orphan [OF w adm(1)] new adm(2) by simp
        then show ?thesis using True new w presD [OF tail] adm(2)
          by (cases pf) (auto simp: rest_def pthen_def pbind_def pmod_def pret_def store_orphan_def)
      next
        case False
        then have "P (w\<lparr> gate_blocks := gate_blocks w @ [b] \<rparr>)" using gate [OF w adm(1)] by blast
        then show ?thesis using False by (auto simp: rest_def pthen_def pbind_def pmod_def pret_def)
      qed
      then show ?thesis using ckw w unfolding eq by (cases "ck w"; cases "fst (ck w)") (auto simp: pbind_def pret_def)
    qed
  qed
qed

lemma on_block: "(\<And>b. pres P (ProcessBlock M now (Some i) b)) \<Longrightarrow> pres P (on_block M now i)"
  unfolding on_block_def Let_def by (intro steps small misbehave)

lemma run_command: "(\<And>b. pres P (ProcessBlock M now (Some i) b)) \<Longrightarrow> pres P (run_command M now i cmd)"
  unfolding run_command_def by (intro steps misbehave on_version on_addr others on_block)

lemma ProcessMessage: "(\<And>b. pres P (ProcessBlock M now (Some i) b)) \<Longrightarrow> pres P (ProcessMessage M now d i cmd)"
  unfolding ProcessMessage_def by (intro steps small run_command)

lemma catch_thrown: "pres P m \<Longrightarrow> pres P (catch_thrown m)"
  by (auto simp: pres_def catch_thrown_def split: prod.splits sum.splits fault.splits)

lemma process_loop: "(\<And>b. pres P (ProcessBlock M now (Some i) b)) \<Longrightarrow> pres P (process_loop M now d i msgs it)"
proof (induction msgs arbitrary: it)
  case (Cons msg msgs)
  show ?case unfolding process_loop.simps by (intro steps catch_thrown ProcessMessage Cons.prems Cons.IH)
qed (simp add: pres_ret)

lemma ProcessMessages: "(\<And>b. pres P (ProcessBlock M now (Some i) b)) \<Longrightarrow> pres P (ProcessMessages M now d i)"
  unfolding ProcessMessages_def by (intro steps small process_loop)

lemma ask_loop: "pres P (ask_loop M t i asks v)"
  by (induction asks arbitrary: v) (simp_all only: ask_loop.simps Let_def split_paired_all, (intro steps | assumption)+)

lemma SendMessages: "pres P (SendMessages M now l i)"
  unfolding SendMessages_def rebroadcast_def Let_def by (intro steps small ask_loop)

end

text \<open>No message changes the block index, the best block or the best chain.\<close>

interpretation index: chain_pred "\<lambda>w :: ('f, 'r) world. mapBlockIndex w = m \<and> pindexBest w = p \<and> hashBestChain w = h" for m p h
  by unfold_locales simp_all

definition chain_inv :: "chain_env \<Rightarrow> ('f, 'r) world \<Rightarrow> bool" where
  "chain_inv C w \<longleftrightarrow>
     (\<forall>h b. mapOrphanBlocks w h = Some b \<longrightarrow> h = Block_GetHash C b \<and> admitted C b \<and> hashPrevBlock b \<noteq> 0 \<and> mapBlockIndex w (hashPrevBlock b) = None) \<and>
     (\<forall>b\<in>set (gate_blocks w). admitted C b \<and> (hashPrevBlock b = 0 \<or> mapBlockIndex w (hashPrevBlock b) \<noteq> None))"

lemma chain_inv_blind [simp]:
  "chain_inv C (w\<lparr> w_net := s \<rparr>) = chain_inv C w" "chain_inv C (w\<lparr> w_clock := c \<rparr>) = chain_inv C w"
  "chain_inv C (w\<lparr> cPeerBlockCounts := k \<rparr>) = chain_inv C w" "chain_inv C (w\<lparr> mapAlerts := m \<rparr>) = chain_inv C w"
  "chain_inv C (w\<lparr> mapAlreadyAskedFor := q \<rparr>) = chain_inv C w" "chain_inv C (w\<lparr> nLocalHostNonce := n \<rparr>) = chain_inv C w"
  "chain_inv C (w\<lparr> hashSalt := h \<rparr>) = chain_inv C w" "chain_inv C (w\<lparr> nLastRebroadcast := t \<rparr>) = chain_inv C w"
  "chain_inv C (w\<lparr> w_draws := d \<rparr>) = chain_inv C w" "chain_inv C (w\<lparr> vRecv := bs \<rparr>) = chain_inv C w"
  by (simp_all add: chain_inv_def)

text \<open>The invariant of the chain data together with what stays as it was.\<close>

definition chain_kept :: "chain_env \<Rightarrow> ('f, 'r) world \<Rightarrow> ('f, 'r) world \<Rightarrow> bool" where
  "chain_kept C w0 w \<longleftrightarrow> chain_inv C w \<and> mapBlockIndex w = mapBlockIndex w0 \<and> pindexBest w = pindexBest w0 \<and>
     hashBestChain w = hashBestChain w0 \<and> mapOrphanBlocks w0 \<subseteq>\<^sub>m mapOrphanBlocks w"

interpretation kept: chain_pred "chain_kept C w0" for C :: chain_env and w0 :: "('f, 'r) world"
  by unfold_locales (simp_all add: chain_kept_def)

lemma kept_ProcessBlock: "pres (chain_kept (me_chain M) w0) (ProcessBlock M now pf b0)"
proof (rule kept.ProcessBlock)
  fix w b
  assume w: "chain_kept (me_chain M) w0 w" "mapOrphanBlocks w (Block_GetHash (me_chain M) b) = None"
    and b: "admitted (me_chain M) b" "hashPrevBlock b \<noteq> 0" "mapBlockIndex w (hashPrevBlock b) = None"
  have "mapOrphanBlocks w0 \<subseteq>\<^sub>m (mapOrphanBlocks w)(Block_GetHash (me_chain M) b \<mapsto> b)"
    using w by (auto simp: chain_kept_def map_le_def dom_def)
  then show "chain_kept (me_chain M) w0 (store_orphan (me_chain M) b w)"
    using w b by (auto simp: chain_kept_def chain_inv_def store_orphan_def)
qed (auto simp: chain_kept_def chain_inv_def)

text \<open>Runs of the node: messages are processed, messages are sent, and in between the rest of the node
  may do anything to the peers and draw random numbers.\<close>

inductive node_run :: "('c, 'f, 'r) msg_env \<Rightarrow> ('f, 'r) world \<Rightarrow> ('f, 'r) world \<Rightarrow> bool" for M :: "('c, 'f, 'r) msg_env" where
  refl: "node_run M w w"
| receive: "node_run M w w1 \<Longrightarrow> node_run M w (snd (ProcessMessages M now d i w1))"
| send: "node_run M w w1 \<Longrightarrow> node_run M w (snd (SendMessages M now l i w1))"
| peers: "node_run M w w1 \<Longrightarrow> node_run M w (w1\<lparr> w_net := s \<rparr>)"
| draw: "node_run M w w1 \<Longrightarrow> node_run M w (w1\<lparr> w_draws := ds \<rparr>)"

subsection \<open>Properties\<close>

text \<open>C15. Whatever messages arrive, from whichever peers and in whichever order, a block is stored as an
  orphan or handed on only after the proof of work, the Merkle root and the rules on its
  transactions were checked; an orphan is filed under its hash and its parent is unknown, a block
  handed on has a known parent or none.  The block index and the best block never change, and no
  orphan is ever dropped.\<close>

theorem blocks_let_in:
  assumes "node_run M w w'" "chain_inv (me_chain M) w"
  shows "chain_inv (me_chain M) w' \<and> mapBlockIndex w' = mapBlockIndex w \<and> pindexBest w' = pindexBest w \<and>
    hashBestChain w' = hashBestChain w \<and> mapOrphanBlocks w \<subseteq>\<^sub>m mapOrphanBlocks w'"
proof -
  have "chain_kept (me_chain M) w w'"
    using assms
  proof (induction rule: node_run.induct)
    case (refl w)
    then show ?case by (simp add: chain_kept_def)
  next
    case (receive w w1 now d i)
    then show ?case by (blast intro: presD kept.ProcessMessages kept_ProcessBlock)
  next
    case (send w w1 now l i)
    then show ?case by (blast intro: presD kept.SendMessages)
  next
    case (peers w w1 s)
    then show ?case by (blast intro: kept.net)
  next
    case (draw w w1 ds)
    then show ?case by (blast intro: kept.draws)
  qed
  then show ?thesis by (simp add: chain_kept_def)
qed

text \<open>The version handshake comes first and only once: any other message of a peer that has not sent
  its version, and a second version message, has no effect but a penalty of one.\<close>

theorem version_first_and_once:
  assumes "nd_nVersion (the_node i w) = 0 \<longleftrightarrow> cmd \<noteq> ''version''"
  shows "ProcessMessage M now False i cmd w = (Inr (Some False), snd (misbehave M now 1 i w))"
proof -
  obtain w1 where m: "misbehave M now 1 i w = (Inr (), w1)"
    by (simp add: misbehave_def pbind_def pget_def on_net_def pmod_def)
  have r: "run_command M now i cmd w = (Inr (Some False), snd (misbehave M now 1 i w))"
    using assms m by (cases "cmd = ''version''") (simp_all add: run_command_def on_version_def pbind_def pget_def pthen_def pret_def)
  then show ?thesis by (simp add: ProcessMessage_def pbind_def pret_def)
qed

text \<open>A ping of a peer that speaks BIP 31 is answered by a pong with its nonce, and no other peer is
  affected.\<close>

theorem ping_is_answered:
  assumes "BIP0031_VERSION M < nd_nVersion (the_node i w)" "nd_nVersion (the_node i w) \<noteq> 0"
    "rd_uint64 M (vRecv w) = Inr (nonce, rest)"
  shows "\<exists>w'. ProcessMessage M now False i ''ping'' w = (Inr None, w') \<and>
    the_node i w' = me_push M (Msg_pong nonce) (the_node i w) \<and> (\<forall>j. j \<noteq> i \<longrightarrow> the_node j w' = the_node j w)"
proof -
  have r: "run_command M now i ''ping'' w = on_ping M i w" using assms(2) by (simp add: run_command_def pbind_def pget_def)
  define w1 where "w1 = w\<lparr> vRecv := rest, w_net := upd_node i (me_push M (Msg_pong nonce)) (w_net w) \<rparr>"
  have p: "on_ping M i w = (Inr None, w1)"
    using assms by (simp add: on_ping_def pbind_def pget_def pthen_def pwhen_def read_val_def on_node_def pmod_def pret_def w1_def)
  have c: "\<exists>w2. pwhen b (AddressCurrentlyConnected t a) w1 = (Inr (), w2) \<and> node (w_net w2) = node (w_net w1)" for b t and a :: CAddress
    by (cases b) (simp_all add: pwhen_def AddressCurrentlyConnected_def on_net_def pmod_def pret_def)
  obtain w2 where w2: "pwhen (fNetworkNode (the_node i w1) \<and> ''ping'' \<in> {''version'', ''addr'', ''inv'', ''getdata'', ''ping''})
      (AddressCurrentlyConnected (GetAdjustedTime now (w_clock w1)) (nd_addr (the_node i w1))) w1 = (Inr (), w2)"
    "node (w_net w2) = node (w_net w1)" using c by blast
  have e: "ProcessMessage M now False i ''ping'' w = (Inr None, w2)"
    using w2(1) by (simp add: ProcessMessage_def pbind_def r p pget_def pthen_def pret_def)
  show ?thesis
    by (intro exI [of _ w2] conjI e) (use w2(2) in \<open>simp_all add: the_node_def w1_def\<close>)
qed

text \<open>\<open>ProcessMessages\<close> lets no exception out, and its loop goes through the queue until the queue is
  used up, the peer is disconnected, its send buffer is full, the next message is not complete, or
  a message does not start with the start string; the messages it went through leave the queue.\<close>

lemma process_loop_stops:
  "process_loop M now d i q it w = (r, w') \<Longrightarrow>
     (\<forall>e. r \<noteq> Inl (Thrown e)) \<and>
     (\<forall>ok k. r = Inr (ok, k) \<longrightarrow> it \<le> k \<and> k \<le> it + length q \<and>
        (k = it + length q \<or> fDisconnect (the_node i w') \<or> nSendSize (the_node i w') \<ge> SendBufferSize M \<or>
         \<not> we_complete (ne_wire (me_net M)) (q ! (k - it)) \<or> \<not> ok))"
proof (induction q arbitrary: it w)
  case Nil
  then show ?case by (auto simp: pret_def)
next
  case (Cons msg q)
  have cont: ?case if loop: "process_loop M now d i q (it + 1) w1 = (r, w')" for w1
  proof -
    note IH = Cons.IH [OF loop]
    have "(msg # q) ! (k - it) = q ! (k - (it + 1))" if "it + 1 \<le> k" for k using that by (simp add: nth_Cons')
    then show ?thesis using IH by fastforce
  qed
  show ?case
  proof (cases "fDisconnect (the_node i w) \<or> nSendSize (the_node i w) \<ge> SendBufferSize M \<or> \<not> we_complete (ne_wire (me_net M)) msg
      \<or> mh_start (nm_hdr msg) \<noteq> pc_start (ne_proto (me_net M))")
    case True
    then show ?thesis using Cons.prems by (auto simp: pbind_def pget_def pret_def split: if_splits)
  next
    case go: False
    show ?thesis
    proof (cases "\<not> Header_IsValid (ne_proto (me_net M)) (nm_hdr msg) \<or>
        ucast (Hash (ae_sha (me_alert M)) (take (unat (mh_size (nm_hdr msg))) (nm_vRecv msg))) \<noteq> mh_checksum (nm_hdr msg)")
      case True
      then have "process_loop M now d i q (it + 1) w = (r, w')" using Cons.prems go by (auto simp: pbind_def pget_def split: if_splits)
      then show ?thesis by (rule cont)
    next
      case False
      define w1 where "w1 = w\<lparr> vRecv := nm_vRecv msg \<rparr>"
      define m where "m = ProcessMessage M now d i (Header_GetCommand (ne_proto (me_net M)) (nm_hdr msg))"
      have run: "pthen (catch_thrown m) (process_loop M now d i q (it + 1)) w1 = (r, w')"
        using Cons.prems go False by (simp add: pbind_def pget_def pthen_def pmod_def w1_def m_def)
      obtain rm w2 where rm: "m w1 = (rm, w2)" by fastforce
      have "process_loop M now d i q (it + 1) w2 = (r, w') \<or> (\<exists>e. r = Inl e \<and> (\<forall>s. e \<noteq> Thrown s))"
        using run rm by (auto simp: pthen_def pbind_def catch_thrown_def split: fault.splits sum.splits)
      then show ?thesis using cont by auto
    qed
  qed
qed


subsection \<open>A filter without bytes\<close>

text \<open>Two messages of a peer crash the node.  A \<open>filterload\<close> whose filter has no data bytes passes
  \<open>IsWithinSizeConstraints\<close> and is installed; the next \<open>filteradd\<close> divides by the number of its bits.  The
  fault is no exception, so \<open>ProcessMessages\<close> does not contain it.\<close>

theorem empty_filter_crashes:
  assumes "nd_nVersion (the_node i w) \<noteq> 0" "fNetworkNode (the_node i w) = False"
    and "rd_filter M (vRecv w) = Inr (f, [])" "vData f = []" "0 < nHashFuncs f" "nHashFuncs f \<le> 50"
    and "rd_vector M bs = Inr (v, [])" "length v \<le> MAX_SCRIPT_ELEMENT_SIZE M"
  shows "\<exists>w1. ProcessMessage M now False i ''filterload'' w = (Inr None, w1) \<and>
    fst (catch_thrown (ProcessMessage M now False i ''filteradd'') (w1\<lparr> vRecv := bs \<rparr>)) = Inl DivByZero"
proof -
  have ok: "IsWithinSizeConstraints f" using assms(4-6) by (simp add: IsWithinSizeConstraints_def MAX_BLOOM_FILTER_SIZE_def MAX_HASH_FUNCS_def)
  define w1 where "w1 = w\<lparr> vRecv := [], w_net := upd_node i (\<lambda>n. n\<lparr> fRelayTxes := True \<rparr>) (upd_node i (\<lambda>n. n\<lparr> pfilter := Some f \<rparr>) (w_net w)) \<rparr>"
  have "on_filterload M now i w = (Inr None, w1)"
    using assms(3) ok by (simp add: on_filterload_def pbind_def pget_def pthen_def read_val_def on_node_def pmod_def pret_def w1_def)
  then have a: "ProcessMessage M now False i ''filterload'' w = (Inr None, w1)"
    using assms(1,2) by (simp add: ProcessMessage_def run_command_def pbind_def pget_def pthen_def pwhen_def pret_def)
  have n1: "the_node i (w1\<lparr> vRecv := bs \<rparr>) = (the_node i w)\<lparr> pfilter := Some f, fRelayTxes := True \<rparr>"
    by (simp add: w1_def the_node_def)
  have "unat (nHashFuncs f) \<noteq> 0" using assms(5) by (simp add: unat_eq_0)
  then have "insert_key v f = Inl DivByZero"
    using assms(4) by (cases "hash_nums f") (auto simp: insert_key_def Bloom_full_def Bloom_Hash_def hash_nums_def)
  then have "fst (on_filteradd M now i (w1\<lparr> vRecv := bs \<rparr>)) = Inl DivByZero"
    using assms(7,8) n1 by (simp add: on_filteradd_def pbind_def pget_def pthen_def read_val_def plift_def the_node_def)
  then obtain w2 where "on_filteradd M now i (w1\<lparr> vRecv := bs \<rparr>) = (Inl DivByZero, w2)" by (metis prod.collapse)
  then have "ProcessMessage M now False i ''filteradd'' (w1\<lparr> vRecv := bs \<rparr>) = (Inl DivByZero, w2)"
    using assms(1) n1 by (simp add: ProcessMessage_def run_command_def pbind_def pget_def)
  then show ?thesis using a by (auto simp: catch_thrown_def)
qed

subsection \<open>Witnesses\<close>

definition demo_reader :: "'a \<Rightarrow> 'a reader" where
  "demo_reader x = (\<lambda>bs. case bs of [] \<Rightarrow> Inl (Thrown ''end of data'') | _ # rest \<Rightarrow> Inr (x, rest))"

definition demo_msgs :: "(bytes, int64 list, unit) msg_env" where
  "demo_msgs = \<lparr> me_chain = demo_chain, me_net = NodeProps.demo_env, me_alert = demo_alert_env, me_bucket = AddrManProps.demo_env,
     me_median = demo_median, me_proxies = \<lparr> proxyInfo = (\<lambda>_. (CService_Init, 0)), nameproxyInfo = (CService_Init, 0) \<rparr>,
     me_push = (\<lambda>m n. n\<lparr> vSendMsg := vSendMsg n @ [case m of Msg_pong k \<Rightarrow> [4, ucast k] | _ \<Rightarrow> [0]] \<rparr>),
     me_add_address_known = (\<lambda>a n. n), me_clear_address_known = (\<lambda>n. n), me_add_inventory_known = (\<lambda>iv n. n),
     me_ask_for = (\<lambda>iv (m, n). (m(iv \<mapsto> 5), n\<lparr> mapAskFor := mapAskFor n @ [(5, iv)] \<rparr>)),
     me_set_recv_version = (\<lambda>v n. n\<lparr> nRecvVersion := v \<rparr>), me_set_send_version = (\<lambda>v n. n),
     me_locator = (\<lambda>p. case p of None \<Rightarrow> [] | Some h \<Rightarrow> [h]), me_pointer = word_of_nat,
     rd_int = demo_reader 60001, rd_int64 = demo_reader 100, rd_uint64 = demo_reader 77, rd_bool = demo_reader True,
     rd_string = demo_reader ''/demo/'', rd_address = demo_reader (NodeProps.demo_addr 8), rd_addresses = demo_reader [NodeProps.demo_addr 10],
     rd_invs = demo_reader [\<lparr> inv_type = 2, inv_hash = 9 \<rparr>], rd_tx = demo_reader (demo_coinbase [1, 2]),
     rd_block = demo_reader (demo_orphan 9 2), rd_alert = demo_reader (demo_alert 5 4 9),
     rd_filter = demo_reader \<lparr> vData = [], nHashFuncs = 3, nTweak = 0, nFlags = 0 \<rparr>,
     rd_vector = demo_reader [1, 2],
     MIN_PROTO_VERSION = 209, CADDR_TIME_VERSION = 31402, BIP0031_VERSION = 60000, MAX_INV_SZ = 50000, MSG_TX = 1, MSG_BLOCK = 2,
     MAX_SCRIPT_ELEMENT_SIZE = 520, SendBufferSize = 1000000, fImporting = False, fReindex = False, fCheckpoints = True,
     nBestHeight = 2 \<rparr>"

definition demo_world :: "(int64 list, unit) world" where
  "demo_world = \<lparr> w_net = demo_net,
     w_clock = \<lparr> nMockTime = 0, nTimeOffset = 0, vTimeOffsets = [], setKnownTime = {}, fDone = False \<rparr>,
     cPeerBlockCounts = [], mapAlerts = [], mapBlockIndex = demo_index, mapOrphanBlocks = Map.empty, mapOrphanBlocksByPrev = [],
     pindexBest = Some 2, hashBestChain = 2, gate_blocks = [], mapAlreadyAskedFor = Map.empty, nLocalHostNonce = 0, hashSalt = 0,
     nLastRebroadcast = 0, w_draws = [], vRecv = [1] \<rparr>"

definition demo_block_msg :: CNetMessage where
  "demo_block_msg = \<lparr> in_data = True, hdrbuf = [], nHdrPos = 24, nm_hdr = \<lparr> mh_start = pc_start demo_proto,
       mh_command = ''block'' @ replicate 7 nul, mh_size = 1, mh_checksum = ucast (Hash (ae_sha demo_alert_env) [9]) \<rparr>,
     nm_vRecv = [9], nDataPos = 1 \<rparr>"

definition demo_queued :: "(int64 list, unit) world" where
  "demo_queued = demo_world\<lparr> w_net := upd_node 0 (\<lambda>n. n\<lparr> vRecvMsg := [demo_block_msg] \<rparr>) demo_net \<rparr>"

theorem blocks_let_in_witness:
  "let w' = snd (SendMessages demo_msgs 60 True 1 (snd (ProcessMessages demo_msgs 50 False 0 demo_queued))) in
   chain_inv demo_chain w' \<and> mapBlockIndex w' = demo_index \<and> pindexBest w' = Some 2"
proof -
  let ?w' = "snd (SendMessages demo_msgs 60 True 1 (snd (ProcessMessages demo_msgs 50 False 0 demo_queued)))"
  have "node_run demo_msgs demo_queued ?w'" by (intro node_run.send node_run.receive node_run.refl)
  moreover have "chain_inv (me_chain demo_msgs) demo_queued" by (simp add: chain_inv_def demo_queued_def demo_world_def)
  ultimately have "chain_inv (me_chain demo_msgs) ?w' \<and> mapBlockIndex ?w' = mapBlockIndex demo_queued \<and> pindexBest ?w' = pindexBest demo_queued"
    using blocks_let_in by blast
  then show ?thesis unfolding Let_def by (simp add: demo_msgs_def demo_queued_def demo_world_def)
qed

theorem version_first_and_once_witness:
  "ProcessMessage demo_msgs 50 False 0 ''version'' demo_world = (Inr (Some False), snd (misbehave demo_msgs 50 1 0 demo_world))"
  by (rule version_first_and_once) (simp add: the_node_def demo_world_def demo_net_def demo_node_def)

theorem ping_is_answered_witness:
  "\<exists>w'. ProcessMessage demo_msgs 50 False 0 ''ping'' demo_world = (Inr None, w') \<and>
     the_node 0 w' = me_push demo_msgs (Msg_pong 77) (the_node 0 demo_world) \<and> (\<forall>j. j \<noteq> 0 \<longrightarrow> the_node j w' = the_node j demo_world)"
  by (rule ping_is_answered)
    (simp_all add: the_node_def demo_world_def demo_net_def demo_node_def demo_msgs_def demo_reader_def)


theorem empty_filter_crashes_witness:
  "\<exists>w1. ProcessMessage demo_msgs 50 False 0 ''filterload'' demo_world = (Inr None, w1) \<and>
     fst (catch_thrown (ProcessMessage demo_msgs 50 False 0 ''filteradd'') (w1\<lparr> vRecv := [1] \<rparr>)) = Inl DivByZero"
  by (rule empty_filter_crashes [where f = "\<lparr> vData = [], nHashFuncs = 3, nTweak = 0, nFlags = 0 \<rparr>" and v = "[1, 2]"])
    (simp_all add: the_node_def demo_world_def demo_net_def demo_node_def demo_msgs_def demo_reader_def)

end
