(* ===== verification/CheckQueue.thy ===== *)
theory CheckQueue
  imports Prelude
begin

text \<open>
  The queue of verifications (\<open>checkqueue.h\<close>): a master pushes batches of jobs, worker threads and, at
  the end, the master itself process them.  The code between the acquisition of the mutex and its
  release, or the wait on a condition variable, is one step; the steps of the threads interleave in
  any order.  A job is a value of \<open>'j\<close> and \<open>check()\<close> is the parameter \<open>run\<close>.  Thread 0 is the master;
  \<open>N\<close> is the number of workers.  \<open>fQuit\<close> is never set in the code.
\<close>

record 'j CCheckQueue =
  cq_queue :: "'j list"
  cq_nIdle :: int32
  cq_nTotal :: int32
  cq_fAllOk :: bool
  cq_nTodo :: uint32
  cq_fQuit :: bool
  cq_nBatchSize :: uint32

definition CCheckQueue_make :: "uint32 \<Rightarrow> 'j CCheckQueue" where
  "CCheckQueue_make nBatchSizeIn = \<lparr> cq_queue = [], cq_nIdle = 0, cq_nTotal = 0, cq_fAllOk = True, cq_nTodo = 0,
     cq_fQuit = False, cq_nBatchSize = nBatchSizeIn \<rparr>"

text \<open>Where a thread is: outside \<open>Loop\<close>, before the mutex with its local \<open>nNow\<close> and \<open>fOk\<close>, executing the
  jobs \<open>vChecks\<close>, waiting on its condition variable (and notified or not), or back with a result.\<close>

datatype 'j thread =
    Outside
  | At_top uint32 bool
  | Executing uint32 bool "'j list"
  | Waiting bool
  | Returned bool

definition batch_size :: "'j CCheckQueue \<Rightarrow> uint32" where
  "batch_size q = max 1 (min (cq_nBatchSize q)
     (word_of_nat (length (cq_queue q)) div word_of_int (cq_nTotal q + cq_nIdle q + 1)))"

text \<open>From the head of the inner loop on: return, wait, or take a batch from the back of the queue.\<close>

definition Loop_head :: "bool \<Rightarrow> 'j CCheckQueue \<Rightarrow> 'j CCheckQueue \<times> 'j thread" where
  "Loop_head fMaster q =
     (if cq_queue q = [] then
        if (fMaster \<or> cq_fQuit q) \<and> cq_nTodo q = 0 then
          (q\<lparr> cq_nTotal := cq_nTotal q - 1, cq_fAllOk := (if fMaster then True else cq_fAllOk q) \<rparr>, Returned (cq_fAllOk q))
        else (q\<lparr> cq_nIdle := cq_nIdle q + 1 \<rparr>, Waiting False)
      else
        let nNow = batch_size q; k = length (cq_queue q) - unat nNow in
        (q\<lparr> cq_queue := take k (cq_queue q) \<rparr>, Executing nNow (cq_fAllOk q) (rev (drop k (cq_queue q)))))"

text \<open>The clean-up of the previous round, or the registration of a new thread; the flag tells whether
  the master is notified.\<close>

definition Loop_cleanup :: "bool \<Rightarrow> uint32 \<Rightarrow> bool \<Rightarrow> 'j CCheckQueue \<Rightarrow> 'j CCheckQueue \<times> bool" where
  "Loop_cleanup fMaster nNow fOk q =
     (if nNow \<noteq> 0 then
        let q1 = q\<lparr> cq_fAllOk := (cq_fAllOk q \<and> fOk), cq_nTodo := cq_nTodo q - nNow \<rparr>
        in (q1, cq_nTodo q1 = 0 \<and> \<not> fMaster)
      else (q\<lparr> cq_nTotal := cq_nTotal q + 1 \<rparr>, False))"

fun run_checks :: "('j \<Rightarrow> bool) \<Rightarrow> 'j list \<Rightarrow> bool \<Rightarrow> bool" where
  "run_checks run [] fOk = fOk"
| "run_checks run (check # vChecks) fOk = run_checks run vChecks (if fOk then run check else fOk)"

definition CQ_Add :: "'j list \<Rightarrow> 'j CCheckQueue \<Rightarrow> 'j CCheckQueue" where
  "CQ_Add vChecks q = q\<lparr> cq_queue := cq_queue q @ vChecks, cq_nTodo := cq_nTodo q + word_of_nat (length vChecks) \<rparr>"

text \<open>The constructor of \<open>CCheckQueueControl\<close> asserts that the queue is unused.\<close>

definition control_asserts :: "'j CCheckQueue \<Rightarrow> bool" where
  "control_asserts q \<longleftrightarrow> cq_nTotal q = cq_nIdle q \<and> cq_nTodo q = 0 \<and> cq_fAllOk q = True"

subsection \<open>All threads together\<close>

text \<open>\<open>sy_added\<close> is a history variable: the jobs added since the master last got a result.\<close>

record 'j cq_system =
  sy_q :: "'j CCheckQueue"
  sy_thread :: "nat \<Rightarrow> 'j thread"
  sy_added :: "'j list"

definition wake :: "nat set \<Rightarrow> (nat \<Rightarrow> 'j thread) \<Rightarrow> nat \<Rightarrow> 'j thread" where
  "wake A th = (\<lambda>i. case th i of Waiting b \<Rightarrow> Waiting (b \<or> i \<in> A) | x \<Rightarrow> x)"

definition enter_top :: "nat \<Rightarrow> uint32 \<Rightarrow> bool \<Rightarrow> 'j cq_system \<Rightarrow> 'j cq_system" where
  "enter_top i nNow fOk s =
     (let (q1, notify) = Loop_cleanup (i = 0) nNow fOk (sy_q s);
          (q2, t) = Loop_head (i = 0) q1
      in s\<lparr> sy_q := q2, sy_thread := (wake (if notify then {0} else {}) (sy_thread s))(i := t) \<rparr>)"

definition wake_up :: "nat \<Rightarrow> 'j cq_system \<Rightarrow> 'j cq_system" where
  "wake_up i s =
     (let q1 = (sy_q s)\<lparr> cq_nIdle := cq_nIdle (sy_q s) - 1 \<rparr>; (q2, t) = Loop_head (i = 0) q1
      in s\<lparr> sy_q := q2, sy_thread := (sy_thread s)(i := t) \<rparr>)"

text \<open>The sets of workers that \<open>Add\<close> may notify: one of those that wait for a single job, all for several.\<close>

definition notified_workers :: "nat \<Rightarrow> nat \<Rightarrow> (nat \<Rightarrow> 'j thread) \<Rightarrow> nat set set" where
  "notified_workers N k th =
     (let W = {i \<in> {1..N}. th i = Waiting False} in
      if k = 1 then (if W = {} then {{}} else (\<lambda>i. {i}) ` W) else if k > 1 then {W} else {{}})"

text \<open>The steps that make progress: a thread runs its jobs, enters the critical section, or has been
  notified and goes on.\<close>

inductive prompt_step :: "('j \<Rightarrow> bool) \<Rightarrow> nat \<Rightarrow> 'j cq_system \<Rightarrow> 'j cq_system \<Rightarrow> bool" for run :: "'j \<Rightarrow> bool" and N :: nat where
  top: "i \<le> N \<Longrightarrow> sy_thread s i = At_top n ok \<Longrightarrow> prompt_step run N s (enter_top i n ok s)"
| work: "i \<le> N \<Longrightarrow> sy_thread s i = Executing n ok js \<Longrightarrow>
    prompt_step run N s (s\<lparr> sy_thread := (sy_thread s)(i := At_top n (run_checks run js ok)) \<rparr>)"
| notified: "i \<le> N \<Longrightarrow> sy_thread s i = Waiting True \<Longrightarrow> prompt_step run N s (wake_up i s)"

text \<open>All steps: a wait may also end spuriously; a worker starts; the master, outside \<open>Loop\<close>, adds jobs
  (a single one notifies at most one waiting worker, several notify all of them) or waits for the result.\<close>

inductive cq_step :: "('j \<Rightarrow> bool) \<Rightarrow> nat \<Rightarrow> 'j cq_system \<Rightarrow> 'j cq_system \<Rightarrow> bool" for run :: "'j \<Rightarrow> bool" and N :: nat where
  prompt: "prompt_step run N s s' \<Longrightarrow> cq_step run N s s'"
| spurious: "i \<le> N \<Longrightarrow> sy_thread s i = Waiting False \<Longrightarrow> cq_step run N s (wake_up i s)"
| worker: "0 < i \<Longrightarrow> i \<le> N \<Longrightarrow> sy_thread s i = Outside \<Longrightarrow>
    cq_step run N s (s\<lparr> sy_thread := (sy_thread s)(i := At_top 0 True) \<rparr>)"
| add: "sy_thread s 0 = Outside \<Longrightarrow> length (sy_added s) + length js < 2 ^ 32 \<Longrightarrow>
    A \<in> notified_workers N (length js) (sy_thread s) \<Longrightarrow>
    cq_step run N s (s\<lparr> sy_q := CQ_Add js (sy_q s), sy_thread := wake A (sy_thread s), sy_added := sy_added s @ js \<rparr>)"
| wait: "sy_thread s 0 = Outside \<Longrightarrow> cq_step run N s (s\<lparr> sy_thread := (sy_thread s)(0 := At_top 0 True) \<rparr>)"
| collect: "sy_thread s 0 = Returned r \<Longrightarrow> cq_step run N s (s\<lparr> sy_thread := (sy_thread s)(0 := Outside), sy_added := [] \<rparr>)"

definition cq_start :: "uint32 \<Rightarrow> 'j cq_system" where
  "cq_start nBatchSizeIn = \<lparr> sy_q = CCheckQueue_make nBatchSizeIn, sy_thread = (\<lambda>_. Outside), sy_added = [] \<rparr>"

inductive cq_reach :: "('j \<Rightarrow> bool) \<Rightarrow> nat \<Rightarrow> 'j cq_system \<Rightarrow> bool" for run :: "'j \<Rightarrow> bool" and N :: nat where
  start: "cq_reach run N (cq_start b)"
| step: "cq_reach run N s \<Longrightarrow> cq_step run N s s' \<Longrightarrow> cq_reach run N s'"

inductive_cases prompt_stepE: "prompt_step run N s s'"

subsection \<open>Counting over the threads\<close>

definition over :: "nat \<Rightarrow> ('j thread \<Rightarrow> nat) \<Rightarrow> (nat \<Rightarrow> 'j thread) \<Rightarrow> nat" where
  "over N f th = (\<Sum>i\<le>N. f (th i))"

lemma over_upd: "i \<le> N \<Longrightarrow> over N f (th(i := t)) + f (th i) = over N f th + f t"
proof -
  assume i: "i \<le> N"
  have "over N f th' = f (th' i) + (\<Sum>k\<in>{..N} - {i}. f (th' k))" for th'
    unfolding over_def by (rule sum.remove) (use i in auto)
  from this [of th] this [of "th(i := t)"] show ?thesis by simp
qed

lemma over_cong: "(\<And>i. f (th' i) = f (th i)) \<Longrightarrow> over N f th' = over N f th"
  by (simp add: over_def)

lemma over_mem: "i \<le> N \<Longrightarrow> f (th i) \<le> over N f th"
  unfolding over_def by (rule member_le_sum) auto

lemma over_0: "over N f th = 0 \<Longrightarrow> i \<le> N \<Longrightarrow> f (th i) = 0"
  by (simp add: over_def)

text \<open>Jobs a thread has taken, whether it is counted in \<open>nTotal\<close>, and whether it is idle.\<close>

fun load :: "'j thread \<Rightarrow> nat" where
  "load (At_top n ok) = unat n"
| "load (Executing n ok js) = unat n"
| "load _ = 0"

fun entered :: "'j thread \<Rightarrow> nat" where
  "entered (At_top n ok) = (if n = 0 then 0 else 1)"
| "entered (Executing n ok js) = 1"
| "entered (Waiting b) = 1"
| "entered _ = 0"

fun idle :: "'j thread \<Rightarrow> nat" where
  "idle (Waiting b) = 1"
| "idle _ = 0"

lemma wake_simps [simp]:
  "load (wake A th i) = load (th i)" "entered (wake A th i) = entered (th i)" "idle (wake A th i) = idle (th i)"
  "wake A th i = At_top n ok \<longleftrightarrow> th i = At_top n ok" "wake A th i = Executing n ok js \<longleftrightarrow> th i = Executing n ok js"
  "wake A th i = Returned r \<longleftrightarrow> th i = Returned r" "wake A th i = Outside \<longleftrightarrow> th i = Outside"
  by (cases "th i"; simp add: wake_def)+

lemma wake_waiting [simp]: "wake A th i = Waiting b \<longleftrightarrow> (\<exists>b'. th i = Waiting b' \<and> b = (b' \<or> i \<in> A))"
  by (cases "th i") (auto simp: wake_def)

lemma over_wake [simp]:
  "over N load (wake A th) = over N load th" "over N entered (wake A th) = over N entered th" "over N idle (wake A th) = over N idle th"
  by (simp_all add: over_def)

lemma run_checks_iff: "run_checks run js ok \<longleftrightarrow> ok \<and> (\<forall>j\<in>set js. run j)"
  by (induction js arbitrary: ok) auto

lemma batch_size_bounds:
  assumes "cq_queue q \<noteq> []" "length (cq_queue q) < 2 ^ 32"
  shows "0 < unat (batch_size q)" "unat (batch_size q) \<le> length (cq_queue q)"
proof -
  let ?d = "word_of_nat (length (cq_queue q)) div word_of_int (cq_nTotal q + cq_nIdle q + 1) :: uint32"
  have "unat ?d \<le> length (cq_queue q)"
  proof -
    have "unat (word_of_nat (length (cq_queue q)) :: uint32) = length (cq_queue q)"
      using assms(2) by (simp only: unat_of_nat) simp
    then show ?thesis unfolding unat_div by (metis div_le_dividend)
  qed
  moreover have "unat (1 :: uint32) \<le> length (cq_queue q)" using assms(1) by (cases "cq_queue q") auto
  moreover have "batch_size q = 1 \<or> batch_size q \<le> ?d" unfolding batch_size_def by (auto simp: max_def min_def)
  ultimately show "unat (batch_size q) \<le> length (cq_queue q)"
    unfolding word_le_nat_alt by (elim disjE) simp_all
  have "1 \<le> batch_size q" unfolding batch_size_def by simp
  then show "0 < unat (batch_size q)" by (simp add: word_le_nat_alt)
qed

subsection \<open>The invariant\<close>

text \<open>The counters count what they say; the flag is false only if a job failed, and true only if every
  job added is still in the queue, being executed, or succeeded; and while the master waits without
  having been notified, jobs are outstanding.\<close>

fun good_thread :: "('j \<Rightarrow> bool) \<Rightarrow> 'j list \<Rightarrow> 'j thread \<Rightarrow> bool" where
  "good_thread run js (At_top n ok) = (ok \<or> n \<noteq> 0 \<and> (\<exists>j\<in>set js. \<not> run j))"
| "good_thread run js (Executing n ok vs) =
     (n \<noteq> 0 \<and> length vs = unat n \<and> set vs \<subseteq> set js \<and> (ok \<or> (\<exists>j\<in>set js. \<not> run j)))"
| "good_thread run js _ = True"

definition counted :: "nat \<Rightarrow> 'j cq_system \<Rightarrow> bool" where
  "counted N s \<longleftrightarrow>
     length (cq_queue (sy_q s)) + over N load (sy_thread s) \<le> length (sy_added s) \<and> length (sy_added s) < 2 ^ 32 \<and>
     cq_nTodo (sy_q s) = word_of_nat (length (cq_queue (sy_q s)) + over N load (sy_thread s)) \<and>
     cq_nTotal (sy_q s) = int (over N entered (sy_thread s)) \<and>
     cq_nIdle (sy_q s) = int (over N idle (sy_thread s)) \<and> \<not> cq_fQuit (sy_q s)"

text \<open>The verdict a thread carries.\<close>

fun so_far :: "'j thread \<Rightarrow> bool" where
  "so_far (At_top n ok) = ok"
| "so_far (Executing n ok vs) = ok"
| "so_far _ = True"

fun taken :: "'j thread \<Rightarrow> 'j set" where
  "taken (Executing n ok vs) = set vs"
| "taken _ = {}"

definition accounted :: "('j \<Rightarrow> bool) \<Rightarrow> nat \<Rightarrow> 'j cq_system \<Rightarrow> bool" where
  "accounted run N s \<longleftrightarrow>
     (cq_fAllOk (sy_q s) \<or> (\<exists>j\<in>set (sy_added s). \<not> run j)) \<and>
     (cq_fAllOk (sy_q s) \<and> (\<forall>i\<le>N. so_far (sy_thread s i)) \<longrightarrow>
        (\<forall>j\<in>set (sy_added s). j \<in> set (cq_queue (sy_q s)) \<or> run j \<or> (\<exists>i\<le>N. j \<in> taken (sy_thread s i))))"

definition cq_inv :: "('j \<Rightarrow> bool) \<Rightarrow> nat \<Rightarrow> 'j cq_system \<Rightarrow> bool" where
  "cq_inv run N s \<longleftrightarrow> counted N s \<and> set (cq_queue (sy_q s)) \<subseteq> set (sy_added s) \<and>
     (\<forall>i\<le>N. good_thread run (sy_added s) (sy_thread s i)) \<and> (\<forall>i r. sy_thread s i = Returned r \<longrightarrow> i = 0) \<and>
     (sy_thread s 0 = Waiting False \<longrightarrow> cq_nTodo (sy_q s) \<noteq> 0 \<and> cq_queue (sy_q s) = []) \<and>
     (case sy_thread s 0 of
        Returned r \<Rightarrow> cq_nTodo (sy_q s) = 0 \<and> cq_fAllOk (sy_q s) \<and> (r \<longleftrightarrow> (\<forall>j\<in>set (sy_added s). run j))
      | _ \<Rightarrow> accounted run N s)"

text \<open>The invariant while the master has no result to collect.\<close>

lemma cq_inv_open:
  assumes "\<And>r. sy_thread s 0 \<noteq> Returned r"
  shows "cq_inv run N s \<longleftrightarrow> counted N s \<and> set (cq_queue (sy_q s)) \<subseteq> set (sy_added s) \<and>
     (\<forall>i\<le>N. good_thread run (sy_added s) (sy_thread s i)) \<and> (\<forall>i r. sy_thread s i = Returned r \<longrightarrow> i = 0) \<and>
     (sy_thread s 0 = Waiting False \<longrightarrow> cq_nTodo (sy_q s) \<noteq> 0 \<and> cq_queue (sy_q s) = []) \<and> accounted run N s"
  using assms by (cases "sy_thread s 0") (auto simp: cq_inv_def)

text \<open>The sums over the threads when one of them changes, with its old share taken out.\<close>

lemma over_thread:
  assumes "i \<le> N"
  shows "over N f (th(i := t)) = over N f th - f (th i) + f t" "f (th i) \<le> over N f th"
  using over_upd [OF assms, of f th t] over_mem [OF assms, of f th] by auto

lemma word_counts:
  assumes "a + b < 2 ^ 32"
  shows "word_of_nat (a + b) = (0 :: uint32) \<longleftrightarrow> a = 0 \<and> b = 0"
proof -
  have "word_of_nat (a + b) = (0 :: uint32) \<longleftrightarrow> a + b = 0"
    using assms by (simp only: word_unat_eq_iff unat_of_nat unat_0) simp
  then show ?thesis by simp
qed

lemma cq_invD:
  assumes "cq_inv run N s"
  shows "length (cq_queue (sy_q s)) + over N load (sy_thread s) \<le> length (sy_added s)" "length (sy_added s) < 2 ^ 32"
    "\<not> cq_fQuit (sy_q s)" "set (cq_queue (sy_q s)) \<subseteq> set (sy_added s)"
    "\<And>i. i \<le> N \<Longrightarrow> good_thread run (sy_added s) (sy_thread s i)" "\<And>i r. sy_thread s i = Returned r \<Longrightarrow> i = 0"
    "cq_nTodo (sy_q s) = 0 \<longleftrightarrow> cq_queue (sy_q s) = [] \<and> over N load (sy_thread s) = 0"
  using assms word_counts [of "length (cq_queue (sy_q s))" "over N load (sy_thread s)"] by (auto simp: cq_inv_def counted_def)

lemma Returned_clean:
  assumes "cq_inv run N s" "sy_thread s 0 = Returned r" "i \<le> N"
  shows "cq_queue (sy_q s) = []" "load (sy_thread s i) = 0" "so_far (sy_thread s i)" "taken (sy_thread s i) = {}"
proof -
  have z: "cq_nTodo (sy_q s) = 0" using assms(1,2) by (simp add: cq_inv_def)
  then show "cq_queue (sy_q s) = []" using cq_invD(7) [OF assms(1)] by simp
  show l: "load (sy_thread s i) = 0" using z cq_invD(7) [OF assms(1)] over_0 [OF _ assms(3)] by blast
  show "so_far (sy_thread s i)" "taken (sy_thread s i) = {}"
    using l cq_invD(5) [OF assms(1,3)] by (cases "sy_thread s i"; auto simp: unat_eq_0)+
qed

subsection \<open>Preservation\<close>

lemma inv_work:
  assumes inv: "cq_inv run N s" and i: "i \<le> N" "sy_thread s i = Executing n ok js"
  shows "cq_inv run N (s\<lparr> sy_thread := (sy_thread s)(i := At_top n (run_checks run js ok)) \<rparr>)"
    (is "cq_inv run N ?s")
proof -
  note D = cq_invD [OF inv]
  have g: "n \<noteq> 0" "length js = unat n" "set js \<subseteq> set (sy_added s)" "ok \<or> (\<exists>j\<in>set (sy_added s). \<not> run j)"
    using D(5) [OF i(1)] by (simp_all add: i(2))
  have nr: "sy_thread s 0 \<noteq> Returned r" for r using Returned_clean(2) [OF inv _ i(1)] g(1) by (auto simp: i(2) unat_eq_0)
  have sums: "over N f (sy_thread ?s) = over N f (sy_thread s)"
    if "f (At_top n (run_checks run js ok)) = f (Executing n ok js)" for f
    using over_upd [OF i(1), of f "sy_thread s" "At_top n (run_checks run js ok)"] that by (simp add: i(2))
  have "counted N s" using inv by (simp add: cq_inv_def)
  then have c: "counted N ?s" using sums [of load] sums [of entered] sums [of idle] g(1) by (simp add: counted_def)
  have acc: "accounted run N s" using inv nr by (auto simp: cq_inv_def split: thread.splits)
  have "accounted run N ?s"
    unfolding accounted_def
  proof (intro conjI impI ballI)
    show "cq_fAllOk (sy_q ?s) \<or> (\<exists>j\<in>set (sy_added ?s). \<not> run j)" using acc by (simp add: accounted_def)
  next
    fix j
    assume p: "cq_fAllOk (sy_q ?s) \<and> (\<forall>i\<le>N. so_far (sy_thread ?s i))" and j: "j \<in> set (sy_added ?s)"
    then have ok: "ok" "\<forall>j\<in>set js. run j" using i(1) by (auto simp: run_checks_iff)
    have "so_far (sy_thread s k)" if "k \<le> N" for k using p that ok(1) by (cases "k = i") (auto simp: i(2))
    then have "j \<in> set (cq_queue (sy_q s)) \<or> run j \<or> (\<exists>i\<le>N. j \<in> taken (sy_thread s i))"
      using acc p j by (simp add: accounted_def)
    then show "j \<in> set (cq_queue (sy_q ?s)) \<or> run j \<or> (\<exists>i\<le>N. j \<in> taken (sy_thread ?s i))"
      using ok(2) i(2) by (metis (no_types, lifting) cq_system.select_convs(1,2) cq_system.surjective cq_system.update_convs(2) fun_upd_other taken.simps(1))
  qed
  moreover have "good_thread run (sy_added s) (At_top n (run_checks run js ok))" using g by (auto simp: run_checks_iff)
  ultimately show ?thesis using inv c nr i(2)
    by (auto simp: cq_inv_def split: thread.splits)
qed

lemma inv_wake:
  assumes inv: "cq_inv run N s" and i: "i \<le> N" "sy_thread s i = Waiting b"
  shows "cq_inv run N (wake_up i s)"
proof -
  note D = cq_invD [OF inv]
  let ?q = "sy_q s" and ?th = "sy_thread s"
  have cnt: "counted N s" using inv by (simp add: cq_inv_def)
  have sums: "over N load (?th(i := t)) = over N load ?th + load t" "over N entered (?th(i := t)) + 1 = over N entered ?th + entered t"
    "over N idle (?th(i := t)) + 1 = over N idle ?th + idle t" for t
    using over_upd [OF i(1), of load ?th t] over_upd [OF i(1), of entered ?th t] over_upd [OF i(1), of idle ?th t] by (simp_all add: i(2))
  show ?thesis
  proof (cases "cq_queue ?q = []")
    case empty: True
    show ?thesis
    proof (cases "i = 0 \<and> cq_nTodo ?q = 0")
      case True
      then have w: "wake_up i s = s\<lparr> sy_q := ?q\<lparr> cq_nIdle := cq_nIdle ?q - 1, cq_nTotal := cq_nTotal ?q - 1, cq_fAllOk := True \<rparr>,
          sy_thread := ?th(i := Returned (cq_fAllOk ?q)) \<rparr>"
        using empty by (simp add: wake_up_def Loop_head_def)
      have l0: "over N load ?th = 0" using True D(7) by simp
      have acc: "accounted run N s" using inv True i(2) by (simp add: cq_inv_def)
      have "so_far (?th k)" "taken (?th k) = {}" if "k \<le> N" for k
        using over_0 [OF l0 that] D(5) [OF that] by (cases "?th k"; auto simp: unat_eq_0)+
      then have "cq_fAllOk ?q \<longleftrightarrow> (\<forall>j\<in>set (sy_added s). run j)" using acc empty by (auto simp: accounted_def)
      moreover have "counted N (wake_up i s)" using cnt sums(1) [of "Returned (cq_fAllOk ?q)"] sums(2) [of "Returned (cq_fAllOk ?q)"]
          sums(3) [of "Returned (cq_fAllOk ?q)"] by (simp add: counted_def w)
      ultimately show ?thesis using inv True empty unfolding w cq_inv_def by simp
    next
      case False
      then have w: "wake_up i s = s\<lparr> sy_thread := ?th(i := Waiting False) \<rparr>"
        using empty D(3) by (auto simp: wake_up_def Loop_head_def Let_def)
      have "counted N (wake_up i s)" using cnt sums [of "Waiting False"] by (simp add: counted_def w)
      moreover have "accounted run N (wake_up i s) \<longleftrightarrow> accounted run N s"
      proof -
        have "so_far ((?th(i := Waiting False)) k) = so_far (?th k)" "taken ((?th(i := Waiting False)) k) = taken (?th k)" for k
          by (simp_all add: i(2))
        then show ?thesis by (simp add: accounted_def w del: fun_upd_apply)
      qed
      ultimately show ?thesis using inv False empty i(2) by (auto simp: cq_inv_def w split: thread.splits)
    qed
  next
    case full: False
    define q1 where "q1 = ?q\<lparr> cq_nIdle := cq_nIdle ?q - 1 \<rparr>"
    define n where "n = batch_size q1"
    define k where "k = length (cq_queue ?q) - unat n"
    define e where "e = Executing n (cq_fAllOk ?q) (rev (drop k (cq_queue ?q)))"
    have w: "wake_up i s = s\<lparr> sy_q := q1\<lparr> cq_queue := take k (cq_queue ?q) \<rparr>, sy_thread := ?th(i := e) \<rparr>"
      using full by (simp add: wake_up_def Loop_head_def q1_def n_def k_def e_def Let_def)
    have n: "0 < unat n" "unat n \<le> length (cq_queue ?q)"
      using batch_size_bounds [of q1] full D(1,2) unfolding n_def by (simp_all add: q1_def)
    have len: "length (take k (cq_queue ?q)) + unat n = length (cq_queue ?q)" "length (drop k (cq_queue ?q)) = unat n" "n \<noteq> 0"
      using n by (auto simp: k_def)
    have nr: "?th 0 \<noteq> Returned r" for r using Returned_clean(1) [OF inv _ i(1)] full by blast
    have nw: "?th 0 \<noteq> Waiting False" using inv full by (auto simp: cq_inv_def)
    have l: "over N load (?th(i := e)) = over N load ?th + unat n" using sums(1) [of e] by (simp add: e_def)
    have "counted N (wake_up i s)"
      using cnt l len(1) sums(2,3) [of e] by (auto simp: counted_def w q1_def e_def add.assoc add.left_commute)
    moreover have "set (take k (cq_queue ?q)) \<subseteq> set (sy_added s)" "set (drop k (cq_queue ?q)) \<subseteq> set (sy_added s)"
      using D(4) set_take_subset set_drop_subset by (meson order_trans)+
    moreover have acc: "accounted run N s" using inv nr by (auto simp: cq_inv_def split: thread.splits)
    moreover have "accounted run N (wake_up i s)"
      unfolding accounted_def
    proof (intro conjI impI ballI)
      show "cq_fAllOk (sy_q (wake_up i s)) \<or> (\<exists>j\<in>set (sy_added (wake_up i s)). \<not> run j)"
        using acc by (simp add: accounted_def w q1_def)
    next
      fix j
      assume p: "cq_fAllOk (sy_q (wake_up i s)) \<and> (\<forall>k\<le>N. so_far (sy_thread (wake_up i s) k))" and j: "j \<in> set (sy_added (wake_up i s))"
      have "so_far (?th m)" if "m \<le> N" for m using p that by (cases "m = i") (auto simp: i(2) w)
      then have "j \<in> set (cq_queue ?q) \<or> run j \<or> (\<exists>m\<le>N. j \<in> taken (?th m))"
        using acc p j by (simp add: accounted_def w q1_def)
      then show "j \<in> set (cq_queue (sy_q (wake_up i s))) \<or> run j \<or> (\<exists>m\<le>N. j \<in> taken (sy_thread (wake_up i s) m))"
      proof (elim disjE exE conjE)
        assume "j \<in> set (cq_queue ?q)"
        then have "j \<in> set (take k (cq_queue ?q)) \<or> j \<in> set (drop k (cq_queue ?q))"
          by (metis Un_iff append_take_drop_id set_append)
        moreover have "taken (sy_thread (wake_up i s) i) = set (drop k (cq_queue ?q))" by (simp add: w e_def)
        ultimately show ?thesis using i(1) by (auto simp: w)
      next
        fix m
        assume "m \<le> N" "j \<in> taken (?th m)"
        moreover have "m \<noteq> i" using \<open>j \<in> taken (?th m)\<close> i(2) by auto
        ultimately show ?thesis by (auto simp: w)
      qed simp
    qed
    moreover have "good_thread run (sy_added s) e"
      using acc len calculation(3) by (auto simp: e_def accounted_def)
    ultimately show ?thesis
      using inv nr nw by (auto simp: cq_inv_def w e_def split: thread.splits)
  qed
qed

text \<open>Entering from the top is the clean-up followed by the end of a wait.\<close>

definition cleaned :: "nat \<Rightarrow> uint32 \<Rightarrow> bool \<Rightarrow> 'j cq_system \<Rightarrow> 'j cq_system" where
  "cleaned i n ok s =
     (let (q1, notify) = Loop_cleanup (i = 0) n ok (sy_q s)
      in s\<lparr> sy_q := q1\<lparr> cq_nIdle := cq_nIdle q1 + 1 \<rparr>,
            sy_thread := (wake (if notify then {0} else {}) (sy_thread s))(i := Waiting True) \<rparr>)"

lemma enter_top_split: "enter_top i n ok s = wake_up i (cleaned i n ok s)"
  by (simp add: enter_top_def wake_up_def cleaned_def Let_def split: prod.splits)

lemma inv_cleaned:
  assumes inv: "cq_inv run N s" and i: "i \<le> N" "sy_thread s i = At_top n ok"
  shows "cq_inv run N (cleaned i n ok s)"
proof -
  note D = cq_invD [OF inv]
  let ?q = "sy_q s" and ?th = "sy_thread s"
  have g: "ok \<or> n \<noteq> 0 \<and> (\<exists>j\<in>set (sy_added s). \<not> run j)" using D(5) [OF i(1)] by (simp add: i(2))
  have cnt: "counted N s" using inv by (simp add: cq_inv_def)
  have sums: "over N load (th(i := Waiting True)) + unat n = over N load th"
      "over N entered (th(i := Waiting True)) + (if n = 0 then 0 else 1) = over N entered th + 1"
      "over N idle (th(i := Waiting True)) = over N idle th + 1" if "th i = At_top n ok" for th :: "nat \<Rightarrow> 'a thread"
    using over_upd [OF i(1), of load th "Waiting True"] over_upd [OF i(1), of entered th "Waiting True"]
      over_upd [OF i(1), of idle th "Waiting True"] by (simp_all add: that)
  have sf: "\<forall>k\<le>N. so_far (((wake A ?th)(i := Waiting True)) k) \<Longrightarrow> ok \<Longrightarrow> m \<le> N \<Longrightarrow> so_far (?th m)" for A m
    by (cases "m = i"; cases "?th m") (auto simp: i(2) wake_def dest!: spec [of _ m])
  have tk: "taken (((wake A ?th)(i := Waiting True)) m) = taken (?th m)" for A m
    by (cases "?th m") (auto simp: i(2) wake_def)
  show ?thesis
  proof (cases "n = 0")
    case True
    then have c: "cleaned i n ok s = s\<lparr> sy_q := ?q\<lparr> cq_nIdle := cq_nIdle ?q + 1, cq_nTotal := cq_nTotal ?q + 1 \<rparr>,
        sy_thread := (wake {} ?th)(i := Waiting True) \<rparr>"
      by (simp add: cleaned_def Loop_cleanup_def)
    have w: "wake {} ?th = ?th" by (rule ext) (simp add: wake_def split: thread.splits)
    have "counted N (cleaned i n ok s)" using cnt sums [of ?th, OF i(2)] True unfolding counted_def c w by simp
    moreover have "accounted run N s \<Longrightarrow> accounted run N (cleaned i n ok s)"
      using sf [of "{}"] tk [of "{}"] g True unfolding accounted_def c by (auto simp del: fun_upd_apply)
    ultimately show ?thesis using inv i unfolding cq_inv_def c w by (auto split: thread.splits)
  next
    case False
    define q1 where "q1 = ?q\<lparr> cq_fAllOk := (cq_fAllOk ?q \<and> ok), cq_nTodo := cq_nTodo ?q - n \<rparr>"
    define A where "A = (if cq_nTodo q1 = 0 \<and> i \<noteq> 0 then {0} else {} :: nat set)"
    have c: "cleaned i n ok s = s\<lparr> sy_q := q1\<lparr> cq_nIdle := cq_nIdle ?q + 1 \<rparr>, sy_thread := (wake A ?th)(i := Waiting True) \<rparr>"
      using False by (simp add: cleaned_def Loop_cleanup_def q1_def A_def Let_def)
    have nr: "?th 0 \<noteq> Returned r" for r using Returned_clean(2) [OF inv _ i(1)] False by (auto simp: i(2) unat_eq_0)
    have acc: "accounted run N s" using inv nr by (auto simp: cq_inv_def split: thread.splits)
    note S = sums [of "wake A ?th", unfolded wake_simps, OF i(2)]
    have "word_of_nat (length (cq_queue ?q) + over N load ?th) - n =
        word_of_nat (length (cq_queue ?q) + over N load ((wake A ?th)(i := Waiting True)))" (is ?nTodo)
    proof -
      have "over N load ?th = over N load ((wake A ?th)(i := Waiting True)) + unat n" using S(1) by simp
      then show ?thesis by simp
    qed
    then have "counted N (cleaned i n ok s)" using cnt S False by (simp add: counted_def c q1_def)
    moreover have "accounted run N (cleaned i n ok s)"
      using acc sf [of A] tk [of A] g by (auto simp: accounted_def c q1_def simp del: fun_upd_apply)
    moreover have "good_thread run (sy_added s) (wake A ?th m)" if "m \<le> N" for m
      using D(5) [OF that] by (cases "?th m") (auto simp: wake_def)
    moreover have "((wake A ?th)(i := Waiting True)) 0 = Waiting False \<Longrightarrow> cq_nTodo q1 \<noteq> 0 \<and> cq_queue q1 = []"
      using inv by (auto simp: cq_inv_def A_def q1_def split: if_splits)
    moreover have o: "\<And>r. sy_thread (cleaned i n ok s) 0 \<noteq> Returned r" using nr by (simp add: c)
    moreover have "sy_thread (cleaned i n ok s) m = Returned r \<Longrightarrow> m = 0" for m r using D(6) [of m r] by (auto simp: c split: if_splits)
    moreover have "sy_q (cleaned i n ok s) = q1\<lparr> cq_nIdle := cq_nIdle ?q + 1 \<rparr>" "sy_added (cleaned i n ok s) = sy_added s"
      "sy_thread (cleaned i n ok s) = (wake A ?th)(i := Waiting True)" by (simp_all add: c)
    moreover have "set (cq_queue q1) \<subseteq> set (sy_added s)" using D(4) by (simp add: q1_def)
    ultimately show ?thesis unfolding cq_inv_open [OF o] by simp
  qed
qed

text \<open>A thread that enters \<open>Loop\<close>.\<close>

lemma inv_fresh:
  assumes inv: "cq_inv run N s" and i: "i \<le> N" "sy_thread s i = Outside"
  shows "cq_inv run N (s\<lparr> sy_thread := (sy_thread s)(i := At_top 0 True) \<rparr>)"
proof -
  let ?th = "sy_thread s"
  have sums: "over N f (?th(i := At_top 0 True)) = over N f ?th" if "f Outside = f (At_top 0 True)" for f
    using over_upd [OF i(1), of f ?th "At_top 0 True"] that by (simp add: i(2))
  have "counted N s" using inv by (simp add: cq_inv_def)
  then have c: "counted N (s\<lparr> sy_thread := ?th(i := At_top 0 True) \<rparr>)"
    by (simp add: counted_def sums)
  have "so_far ((?th(i := At_top 0 True)) k) = so_far (?th k)" "taken ((?th(i := At_top 0 True)) k) = taken (?th k)" for k
    by (simp_all add: i(2))
  then have "accounted run N (s\<lparr> sy_thread := ?th(i := At_top 0 True) \<rparr>) \<longleftrightarrow> accounted run N s"
    by (simp add: accounted_def del: fun_upd_apply)
  then show ?thesis using inv c i(2) by (auto simp: cq_inv_def split: thread.splits)
qed

lemma inv_add:
  assumes inv: "cq_inv run N s" and o: "sy_thread s 0 = Outside" and len: "length (sy_added s) + length js < 2 ^ 32"
  shows "cq_inv run N (s\<lparr> sy_q := CQ_Add js (sy_q s), sy_thread := wake A (sy_thread s), sy_added := sy_added s @ js \<rparr>)"
    (is "cq_inv run N ?s")
proof -
  note D = cq_invD [OF inv]
  have "counted N s" using inv by (simp add: cq_inv_def)
  then have "counted N ?s" using len by (simp add: counted_def CQ_Add_def)
  moreover have "accounted run N ?s"
  proof -
    have "so_far (wake A (sy_thread s) k) = so_far (sy_thread s k)" "taken (wake A (sy_thread s) k) = taken (sy_thread s k)" for k
      by (cases "sy_thread s k"; simp add: wake_def)+
    moreover have "accounted run N s" using inv o by (simp add: cq_inv_def)
    ultimately show ?thesis by (auto simp: accounted_def CQ_Add_def)
  qed
  moreover have "good_thread run (sy_added s @ js) (wake A (sy_thread s) m)" if "m \<le> N" for m
    using D(5) [OF that] by (cases "sy_thread s m") (auto simp: wake_def)
  moreover have z: "\<And>r. sy_thread ?s 0 \<noteq> Returned r" using o by simp
  moreover have "set (cq_queue (sy_q ?s)) \<subseteq> set (sy_added s @ js)" using D(4) by (auto simp: CQ_Add_def)
  moreover have "sy_thread ?s m = Returned r \<Longrightarrow> m = 0" for m r using D(6) [of m r] by simp
  ultimately show ?thesis unfolding cq_inv_open [OF z] by (simp add: o)
qed

lemma inv_collect:
  assumes inv: "cq_inv run N s" and r: "sy_thread s 0 = Returned r"
  shows "cq_inv run N (s\<lparr> sy_thread := (sy_thread s)(0 := Outside), sy_added := [] \<rparr>)"
proof -
  note C = Returned_clean [OF inv r]
  have z: "cq_nTodo (sy_q s) = 0" "cq_fAllOk (sy_q s)" using inv r by (simp_all add: cq_inv_def)
  have q: "cq_queue (sy_q s) = []" "over N load (sy_thread s) = 0" using z(1) cq_invD(7) [OF inv] by simp_all
  have sums: "over N f ((sy_thread s)(0 := Outside)) = over N f (sy_thread s)" if "f Outside = f (Returned r)" for f
    using over_upd [of 0 N f "sy_thread s" Outside] that by (simp add: r)
  have "counted N s" using inv by (simp add: cq_inv_def)
  then have "counted N (s\<lparr> sy_thread := (sy_thread s)(0 := Outside), sy_added := [] \<rparr>)" using q by (simp add: counted_def sums)
  moreover have "good_thread run [] (sy_thread s m)" if "m \<le> N" for m
    using C(2,3) [OF that] cq_invD(5) [OF inv that] by (cases "sy_thread s m") (auto simp: unat_eq_0)
  ultimately show ?thesis using z q cq_invD(6) [OF inv] by (auto simp: cq_inv_def accounted_def)
qed

lemma inv_prompt: "prompt_step run N s s' \<Longrightarrow> cq_inv run N s \<Longrightarrow> cq_inv run N s'"
proof (induction rule: prompt_step.induct)
  case (top i s n ok)
  moreover have "sy_thread (cleaned i n ok s) i = Waiting True" by (simp add: cleaned_def split: prod.splits)
  ultimately show ?case unfolding enter_top_split by (intro inv_wake inv_cleaned)
qed (auto intro: inv_work inv_wake)

lemma inv_step:
  assumes "cq_step run N s s'" "cq_inv run N s"
  shows "cq_inv run N s'"
  using assms
proof (induction rule: cq_step.induct)
  case (add s js A)
  then show ?case by (intro inv_add) auto
qed (auto intro: inv_prompt inv_wake inv_fresh inv_collect)

lemma cq_reach_inv: "cq_reach run N s \<Longrightarrow> cq_inv run N s"
proof (induction rule: cq_reach.induct)
  case (start b)
  show ?case by (simp add: cq_inv_def counted_def accounted_def cq_start_def CCheckQueue_make_def over_def)
qed (blast intro: inv_step)

subsection \<open>Properties\<close>

text \<open>C22. In every interleaving of the master and any number of workers, the result \<open>Wait\<close> returns is true
  exactly if all the checks added since the last result hold, and nothing is left in the queue or with
  a worker.\<close>

theorem Wait_result:
  assumes "cq_reach run N s" "sy_thread s 0 = Returned r"
  shows "(r \<longleftrightarrow> (\<forall>j\<in>set (sy_added s). run j)) \<and> cq_queue (sy_q s) = [] \<and> cq_nTodo (sy_q s) = 0 \<and>
    (\<forall>i\<le>N. taken (sy_thread s i) = {})"
proof -
  note inv = cq_reach_inv [OF assms(1)]
  show ?thesis
    using inv assms(2) Returned_clean(1) [OF inv assms(2), of 0] Returned_clean(4) [OF inv assms(2)] unfolding cq_inv_def by simp
qed

text \<open>Whenever the master is outside \<open>Loop\<close> and has added nothing since the last result, the assertions
  in the constructor of \<open>CCheckQueueControl\<close> hold, whatever the workers are doing.\<close>

theorem control_asserts_hold:
  assumes "cq_reach run N s" "sy_thread s 0 = Outside" "sy_added s = []"
  shows "control_asserts (sy_q s)"
proof -
  note inv = cq_reach_inv [OF assms(1)]
  have l0: "over N load (sy_thread s) = 0" and q: "cq_queue (sy_q s) = []" using cq_invD(1) [OF inv] assms(3) by simp_all
  have "entered (sy_thread s i) = idle (sy_thread s i)" if "i \<le> N" for i
    using over_0 [OF l0 that] cq_invD(5,6) [OF inv, of i] that assms(2) by (cases "sy_thread s i") (auto simp: unat_eq_0)
  then have "over N entered (sy_thread s) = over N idle (sy_thread s)" unfolding over_def by (intro sum.cong) auto
  then show ?thesis using inv assms l0 q by (simp add: control_asserts_def cq_inv_def counted_def accounted_def)
qed

subsection \<open>The master gets its result\<close>

fun weight :: "'j thread \<Rightarrow> nat" where
  "weight (At_top n ok) = 3"
| "weight (Executing n ok vs) = 4"
| "weight (Waiting b) = (if b then 2 else 0)"
| "weight _ = 0"

definition work_left :: "nat \<Rightarrow> 'j cq_system \<Rightarrow> nat" where
  "work_left N s = 5 * length (cq_queue (sy_q s)) + over N weight (sy_thread s)"

definition in_Loop :: "'j thread \<Rightarrow> bool" where
  "in_Loop t \<longleftrightarrow> (case t of Outside \<Rightarrow> False | Returned r \<Rightarrow> False | _ \<Rightarrow> True)"

lemma over_weight_wake: "over N weight (wake (if b then {0} else {}) th) \<le> over N weight th + 2"
proof -
  have "wake (if b then {0} else {}) th = (if b \<and> th 0 = Waiting False then th(0 := Waiting True) else th)"
    by (rule ext) (auto simp: wake_def split: thread.splits)
  then show ?thesis using over_upd [of 0 N weight th "Waiting True"] by auto
qed

lemma work_left_wake_up:
  assumes inv: "cq_inv run N s" and i: "i \<le> N" "sy_thread s i = Waiting True"
  shows "work_left N (wake_up i s) + 2 \<le> work_left N s"
proof -
  define q1 where "q1 = (sy_q s)\<lparr> cq_nIdle := cq_nIdle (sy_q s) - 1 \<rparr>"
  have q: "cq_queue q1 = cq_queue (sy_q s)" by (simp add: q1_def)
  obtain q2 t where l: "Loop_head (i = 0) q1 = (q2, t)" by fastforce
  then have w: "wake_up i s = s\<lparr> sy_q := q2, sy_thread := (sy_thread s)(i := t) \<rparr>" by (simp add: wake_up_def q1_def Let_def)
  have "5 * length (cq_queue q2) + weight t \<le> 5 * length (cq_queue (sy_q s))"
  proof (cases "cq_queue (sy_q s) = []")
    case True
    then show ?thesis using l q by (auto simp: Loop_head_def split: if_splits)
  next
    case False
    then have "0 < unat (batch_size q1)" "unat (batch_size q1) \<le> length (cq_queue (sy_q s))"
      using batch_size_bounds [of q1] cq_invD(1,2) [OF inv] q by auto
    then show ?thesis using False l q by (auto simp: Loop_head_def Let_def)
  qed
  then show ?thesis using over_upd [OF i(1), of weight "sy_thread s" t] i(2) by (simp add: work_left_def w)
qed

lemma work_left_cleaned:
  assumes "i \<le> N" "sy_thread s i = At_top n ok"
  shows "work_left N (cleaned i n ok s) \<le> work_left N s + 1"
proof -
  obtain q1 b where c: "Loop_cleanup (i = 0) n ok (sy_q s) = (q1, b)" by fastforce
  have q: "cq_queue q1 = cq_queue (sy_q s)" using c by (auto simp: Loop_cleanup_def Let_def split: if_splits)
  let ?th = "wake (if b then {0} else {}) (sy_thread s)"
  have t: "?th i = At_top n ok" by (simp only: wake_simps assms(2))
  have "over N weight (?th(i := Waiting True)) + 3 = over N weight ?th + 2"
    using over_upd [OF assms(1), of weight ?th "Waiting True"] unfolding t by (simp only: weight.simps if_True)
  then show ?thesis using over_weight_wake [of N b "sy_thread s"] by (simp add: work_left_def cleaned_def c q)
qed

lemma prompt_decreases:
  assumes "prompt_step run N s s'" "cq_inv run N s"
  shows "work_left N s' < work_left N s"
  using assms
proof (induction rule: prompt_step.induct)
  case (top i s n ok)
  have "sy_thread (cleaned i n ok s) i = Waiting True" by (simp add: cleaned_def split: prod.splits)
  then show ?case unfolding enter_top_split
    using work_left_wake_up [OF inv_cleaned [OF top(3,1,2)] top(1)] work_left_cleaned [OF top(1,2)] by simp
next
  case (work i s n ok js)
  then show ?case
    using over_upd [OF work(1), of weight "sy_thread s" "At_top n (run_checks run js ok)"] by (simp add: work_left_def)
next
  case (notified i s)
  then show ?case using work_left_wake_up [of run N s i] by simp
qed

lemma progress:
  assumes inv: "cq_inv run N s" and m: "in_Loop (sy_thread s 0)"
  shows "\<exists>s'. prompt_step run N s s'"
proof -
  have busy: "\<exists>s'. prompt_step run N s s'" if "i \<le> N" "load (sy_thread s i) \<noteq> 0" for i
    using that by (cases "sy_thread s i") (auto intro: prompt_step.intros)
  show ?thesis
  proof (cases "sy_thread s 0")
    case (Waiting b)
    show ?thesis
    proof (cases b)
      case False
      then have "cq_nTodo (sy_q s) \<noteq> 0" "cq_queue (sy_q s) = []" using inv Waiting by (auto simp: cq_inv_def)
      then have "over N load (sy_thread s) \<noteq> 0" using cq_invD(7) [OF inv] by simp
      then show ?thesis using busy unfolding over_def by (meson atMost_iff sum.neutral)
    qed (use Waiting in \<open>auto intro: prompt_step.notified\<close>)
  qed (use m in \<open>auto simp: in_Loop_def intro: prompt_step.intros\<close>)
qed

lemma prompt_master:
  assumes "prompt_step run N s s'" "in_Loop (sy_thread s 0)"
  shows "in_Loop (sy_thread s' 0) \<or> (\<exists>r. sy_thread s' 0 = Returned r)"
proof -
  have w: "in_Loop (wake A (sy_thread s) 0)" for A using assms(2) by (cases "sy_thread s 0") (auto simp: in_Loop_def wake_def)
  have h: "in_Loop t \<or> (\<exists>r. t = Returned r)" if "Loop_head b q = (q', t)" for b and q q' :: "'a CCheckQueue" and t
    using that by (auto simp: Loop_head_def in_Loop_def Let_def split: if_splits)
  show ?thesis
    using assms(1)
  proof (cases rule: prompt_step.cases)
    case (top i n ok)
    then show ?thesis using w h by (auto simp: enter_top_def split: prod.splits)
  next
    case (work i n ok js)
    then show ?thesis using assms(2) by (auto simp: in_Loop_def)
  next
    case (notified i)
    then show ?thesis using assms(2) h by (auto simp: wake_up_def Let_def split: prod.splits)
  qed
qed

lemma prompt_steps:
  assumes "(prompt_step run N ^^ k) s t" "cq_inv run N s" "in_Loop (sy_thread s 0) \<or> (\<exists>r. sy_thread s 0 = Returned r)"
  shows "cq_inv run N t \<and> k + work_left N t \<le> work_left N s \<and> (in_Loop (sy_thread t 0) \<or> (\<exists>r. sy_thread t 0 = Returned r))"
  using assms
proof (induction k arbitrary: t)
  case (Suc k)
  then obtain u where u: "(prompt_step run N ^^ k) s u" "prompt_step run N u t" by auto
  note IH = Suc.IH [OF u(1) Suc.prems(2,3)]
  have keep: "sy_thread t 0 = Returned r" if "sy_thread u 0 = Returned r" for r
    using u(2) that
  proof (cases rule: prompt_step.cases)
    case (top i n ok)
    then show ?thesis using that by (auto simp: enter_top_def split: prod.splits)
  next
    case (notified i)
    then show ?thesis using that by (auto simp: wake_up_def Let_def split: prod.splits)
  qed (use that in \<open>auto intro: gr0I\<close>)
  show ?case using IH prompt_decreases [OF u(2)] inv_prompt [OF u(2)] prompt_master [OF u(2)] keep by fastforce
qed simp


subsection \<open>Witnesses\<close>

text \<open>The master adds two jobs, of which one fails, and works them off with its one worker not started.\<close>

definition demo_wait :: "nat cq_system" where
  "demo_wait = (let s = cq_start 128
     in s\<lparr> sy_q := CQ_Add [4, 3] (sy_q s), sy_thread := (wake {} (sy_thread s))(0 := At_top 0 True), sy_added := [4, 3] \<rparr>)"

definition demo_run :: "nat cq_system \<Rightarrow> nat cq_system" where
  "demo_run s = (case sy_thread s 0 of
      At_top n ok \<Rightarrow> enter_top 0 n ok s
    | Executing n ok js \<Rightarrow> s\<lparr> sy_thread := (sy_thread s)(0 := At_top n (run_checks even js ok)) \<rparr>
    | _ \<Rightarrow> s)"

lemma demo_wait_reach: "cq_reach even 1 demo_wait"
proof -
  have "cq_reach even 1 (cq_start 128 :: nat cq_system)" by (rule cq_reach.start)
  moreover have "cq_step even 1 (cq_start 128) ((cq_start 128)\<lparr> sy_q := CQ_Add [4, 3] (sy_q (cq_start 128)),
      sy_thread := wake {} (sy_thread (cq_start 128)), sy_added := sy_added (cq_start 128) @ [4, 3 :: nat] \<rparr>)"
    by (rule cq_step.add) (simp_all add: cq_start_def notified_workers_def)
  ultimately have "cq_reach even 1 ((cq_start 128)\<lparr> sy_q := CQ_Add [4, 3] (sy_q (cq_start 128)),
      sy_thread := wake {} (sy_thread (cq_start 128)), sy_added := sy_added (cq_start 128) @ [4, 3 :: nat] \<rparr>)"
    by (rule cq_reach.step)
  from cq_reach.step [OF this cq_step.wait] show ?thesis by (simp add: demo_wait_def Let_def cq_start_def)
qed

lemma demo_run_step:
  assumes "in_Loop (sy_thread s 0)" "\<And>b. sy_thread s 0 \<noteq> Waiting b"
  shows "prompt_step even 1 s (demo_run s)"
  using assms by (cases "sy_thread s 0") (auto simp: demo_run_def in_Loop_def intro: prompt_step.intros)

lemma demo_threads:
  "sy_thread demo_wait 0 = At_top 0 True" "sy_thread (demo_run demo_wait) 0 = Executing 1 True [3]"
  "sy_thread ((demo_run ^^ 2) demo_wait) 0 = At_top 1 False" "sy_thread ((demo_run ^^ 3) demo_wait) 0 = Executing 1 False [4]"
  "sy_thread ((demo_run ^^ 4) demo_wait) 0 = At_top 1 False" "sy_thread ((demo_run ^^ 5) demo_wait) 0 = Returned False"
  by code_simp+

lemma demo_step:
  assumes "k < 5"
  shows "prompt_step even 1 ((demo_run ^^ k) demo_wait) ((demo_run ^^ Suc k) demo_wait)"
proof -
  have "in_Loop (sy_thread ((demo_run ^^ k) demo_wait) 0) \<and> (\<forall>b. sy_thread ((demo_run ^^ k) demo_wait) 0 \<noteq> Waiting b)"
  proof -
    have "k = 0 \<or> k = 1 \<or> k = 2 \<or> k = 3 \<or> k = 4" using assms by linarith
    then show ?thesis using demo_threads by (auto simp: in_Loop_def)
  qed
  then show ?thesis using demo_run_step by simp
qed

lemma demo_added: "sy_added ((demo_run ^^ k) demo_wait) = [4, 3]"
proof (induction k)
  case (Suc k)
  then show ?case by (auto simp: demo_run_def enter_top_def split: thread.splits prod.splits)
qed (simp add: demo_wait_def cq_start_def)

lemma demo_run_reach: "k \<le> 5 \<Longrightarrow> cq_reach even 1 ((demo_run ^^ k) demo_wait)"
proof (induction k)
  case (Suc k)
  then show ?case using cq_reach.step [OF _ cq_step.prompt [OF demo_step [of k]]] by simp
qed (use demo_wait_reach in simp)

theorem Wait_result_witness:
  "(False \<longleftrightarrow> (\<forall>j\<in>set [4, 3 :: nat]. even j)) \<and> cq_queue (sy_q ((demo_run ^^ 5) demo_wait)) = [] \<and>
   cq_nTodo (sy_q ((demo_run ^^ 5) demo_wait)) = 0"
  using Wait_result [OF demo_run_reach demo_threads(6)] unfolding demo_added by simp

theorem control_asserts_hold_witness: "control_asserts (sy_q (cq_start 128 :: nat cq_system))"
  by (rule control_asserts_hold [where run = even and N = 1, OF cq_reach.start]) (simp_all add: cq_start_def)


end
