(* ===== verification/LockedPages.thy ===== *)
theory LockedPages
  imports Prelude "HOL-Library.Multiset"
begin

text \<open>
  \<open>LockedPageManagerBase\<close> (\<open>allocators.h\<close>), which keeps memory with keys out of the swap: it counts,
  for every page, the ranges that need the page locked, because the locks of the operating system do
  not stack.  The calls to the template parameter \<open>Locker\<close> are recorded.  A loop over the pages may
  run forever at the end of the address space, so the loops are partial functions.
\<close>

datatype page_call = Call_Lock uint64 uint64 | Call_Unlock uint64 uint64

record page_manager =
  page_size :: uint64
  page_mask :: uint64
  histogram :: "uint64 \<rightharpoonup> int32"
  locker :: "page_call list"

definition LockedPageManagerBase_make :: "uint64 \<Rightarrow> page_manager res" where
  "LockedPageManagerBase_make psize =
     (if psize AND (psize - 1) \<noteq> 0 then Inl AssertFailed
      else Inr \<lparr> page_size = psize, page_mask = NOT (psize - 1), histogram = Map.empty, locker = [] \<rparr>)"

definition lock_page :: "uint64 \<Rightarrow> page_manager \<Rightarrow> page_manager" where
  "lock_page page m =
     (case histogram m page of
        None \<Rightarrow> m\<lparr> locker := locker m @ [Call_Lock page (page_size m)], histogram := (histogram m)(page \<mapsto> 1) \<rparr>
      | Some c \<Rightarrow> m\<lparr> histogram := (histogram m)(page \<mapsto> c + 1) \<rparr>)"

definition unlock_page :: "uint64 \<Rightarrow> page_manager \<Rightarrow> page_manager res" where
  "unlock_page page m =
     (case histogram m page of
        None \<Rightarrow> Inl AssertFailed
      | Some c \<Rightarrow>
          if c - 1 = 0
          then Inr (m\<lparr> locker := locker m @ [Call_Unlock page (page_size m)], histogram := (histogram m)(page := None) \<rparr>)
          else Inr (m\<lparr> histogram := (histogram m)(page \<mapsto> c - 1) \<rparr>))"

partial_function (option) lock_loop :: "uint64 \<Rightarrow> uint64 \<Rightarrow> page_manager \<Rightarrow> page_manager option" where
  "lock_loop end_page page m =
     (if page \<le> end_page then lock_loop end_page (page + page_size m) (lock_page page m) else Some m)"

partial_function (option) unlock_loop :: "uint64 \<Rightarrow> uint64 \<Rightarrow> page_manager \<Rightarrow> page_manager res option" where
  "unlock_loop end_page page m =
     (if page \<le> end_page then
        (case unlock_page page m of
           Inl e \<Rightarrow> Some (Inl e)
         | Inr m1 \<Rightarrow> unlock_loop end_page (page + page_size m) m1)
      else Some (Inr m))"

definition LockRange :: "uint64 \<Rightarrow> uint64 \<Rightarrow> page_manager \<Rightarrow> page_manager option" where
  "LockRange base_addr sz m =
     (if sz = 0 then Some m
      else lock_loop ((base_addr + sz - 1) AND page_mask m) (base_addr AND page_mask m) m)"

definition UnlockRange :: "uint64 \<Rightarrow> uint64 \<Rightarrow> page_manager \<Rightarrow> page_manager res option" where
  "UnlockRange base_addr sz m =
     (if sz = 0 then Some (Inr m)
      else unlock_loop ((base_addr + sz - 1) AND page_mask m) (base_addr AND page_mask m) m)"

definition GetLockedPageCount :: "page_manager \<Rightarrow> int32" where
  "GetLockedPageCount m = int (card (dom (histogram m)))"

text \<open>What the operating system does with the calls: a page is locked or not, however often it was
  locked before.\<close>

definition os_step :: "page_call \<Rightarrow> uint64 set \<Rightarrow> uint64 set" where
  "os_step c S = (case c of Call_Lock p n \<Rightarrow> insert p S | Call_Unlock p n \<Rightarrow> S - {p})"

definition os_pages :: "page_call list \<Rightarrow> uint64 set" where
  "os_pages cs = fold os_step cs {}"

lemma os_pages_snoc [simp]:
  "os_pages [] = {}" "os_pages (cs @ [Call_Lock p n]) = insert p (os_pages cs)" "os_pages (cs @ [Call_Unlock p n]) = os_pages cs - {p}"
  by (simp_all add: os_pages_def os_step_def)

subsection \<open>Pages as numbers\<close>

lemma unat_and_mask:
  fixes a :: uint64
  assumes "k < 64"
  shows "unat (a AND NOT (2 ^ k - 1)) = 2 ^ k * (unat a div 2 ^ k)"
proof -
  have m: "2 ^ k - 1 = (mask k :: uint64)" by (simp add: mask_eq_exp_minus_1)
  have "a = (a AND NOT (mask k)) + (a AND mask k)"
  proof -
    have "(a AND NOT (mask k)) AND (a AND mask k) = 0" by (intro bit_word_eqI) (auto simp: bit_simps)
    moreover have "(a AND NOT (mask k)) OR (a AND mask k) = a" by (intro bit_word_eqI) (auto simp: bit_simps)
    ultimately show ?thesis by (metis disjunctive_add_eq_or)
  qed
  then have "a AND NOT (mask k) = a - take_bit k a" by (simp add: take_bit_eq_mask algebra_simps)
  moreover have "unat (take_bit k a) = unat a mod 2 ^ k" by (simp only: unsigned_take_bit_eq flip: take_bit_eq_mod)
  moreover have "take_bit k a \<le> a" by (simp add: word_le_nat_alt calculation(2))
  ultimately have "unat (a AND NOT (mask k)) = unat a - unat a mod 2 ^ k" by (simp add: unat_sub)
  then show ?thesis unfolding m by (simp add: minus_mod_eq_mult_div)
qed

text \<open>The loops visit the pages from the first to the last one.\<close>

definition page_list :: "nat \<Rightarrow> nat \<Rightarrow> nat \<Rightarrow> uint64 list" where
  "page_list k a b = map (\<lambda>j. word_of_nat (2 ^ k * j)) [a..<Suc b]"

lemma page_list_Cons: "a \<le> b \<Longrightarrow> page_list k a b = word_of_nat (2 ^ k * a) # page_list k (Suc a) b"
  unfolding page_list_def by (subst upt_conv_Cons) auto

lemma page_list_Nil: "b < a \<Longrightarrow> page_list k a b = []"
  by (simp add: page_list_def)

fun unlock_pages :: "uint64 list \<Rightarrow> page_manager \<Rightarrow> page_manager res" where
  "unlock_pages [] m = Inr m"
| "unlock_pages (p # ps) m = bind_res (unlock_page p m) (unlock_pages ps)"

lemma page_size_kept [simp]:
  "page_size (lock_page p m) = page_size m" "page_mask (lock_page p m) = page_mask m"
  by (simp_all add: lock_page_def split: option.splits)

lemma unlock_page_size: "unlock_page p m = Inr m' \<Longrightarrow> page_size m' = page_size m \<and> page_mask m' = page_mask m"
  by (auto simp: unlock_page_def split: option.splits if_splits)

lemma page_order:
  assumes "2 ^ k * Suc b < (2 :: nat) ^ 64" "a \<le> Suc b"
  shows "(word_of_nat (2 ^ k * a) :: uint64) \<le> word_of_nat (2 ^ k * b) \<longleftrightarrow> a \<le> b"
    "(word_of_nat (2 ^ k * a) :: uint64) + 2 ^ k = word_of_nat (2 ^ k * Suc a)"
proof -
  have "2 ^ k * a \<le> 2 ^ k * Suc b" "2 ^ k * b \<le> 2 ^ k * Suc b" using assms(2) by (intro mult_le_mono2; simp)+
  then have "2 ^ k * a < (2 :: nat) ^ 64" "2 ^ k * b < (2 :: nat) ^ 64" using assms(1) by linarith+
  then have "unat (word_of_nat (2 ^ k * a) :: uint64) = 2 ^ k * a" "unat (word_of_nat (2 ^ k * b) :: uint64) = 2 ^ k * b"
    by (simp_all only: unat_of_nat mod_less) simp_all
  then show "(word_of_nat (2 ^ k * a) :: uint64) \<le> word_of_nat (2 ^ k * b) \<longleftrightarrow> a \<le> b"
    by (simp add: word_le_nat_alt)
  show "(word_of_nat (2 ^ k * a) :: uint64) + 2 ^ k = word_of_nat (2 ^ k * Suc a)" by simp
qed

lemma lock_loop_pages:
  assumes "page_size m = 2 ^ k" "2 ^ k * Suc b < (2 :: nat) ^ 64" "a \<le> Suc b"
  shows "lock_loop (word_of_nat (2 ^ k * b)) (word_of_nat (2 ^ k * a)) m = Some (fold lock_page (page_list k a b) m)"
  using assms
proof (induction "Suc b - a" arbitrary: a m)
  case 0
  then show ?case by (subst lock_loop.simps) (simp add: page_order page_list_Nil del: of_nat_mult of_nat_Suc of_nat_power)
next
  case (Suc n)
  then have ab: "a \<le> b" by linarith
  have "lock_loop (word_of_nat (2 ^ k * b)) (word_of_nat (2 ^ k * Suc a)) (lock_page (word_of_nat (2 ^ k * a)) m) =
      Some (fold lock_page (page_list k (Suc a) b) (lock_page (word_of_nat (2 ^ k * a)) m))"
    using Suc ab by (intro Suc.hyps(1)) auto
  then show ?case
    using ab Suc.prems by (subst lock_loop.simps) (simp only: page_order page_list_Cons if_True fold_Cons o_apply)
qed

lemma unlock_loop_pages:
  assumes "page_size m = 2 ^ k" "2 ^ k * Suc b < (2 :: nat) ^ 64" "a \<le> Suc b"
  shows "unlock_loop (word_of_nat (2 ^ k * b)) (word_of_nat (2 ^ k * a)) m = Some (unlock_pages (page_list k a b) m)"
  using assms
proof (induction "Suc b - a" arbitrary: a m)
  case 0
  then show ?case by (subst unlock_loop.simps) (simp add: page_order page_list_Nil del: of_nat_mult of_nat_Suc of_nat_power)
next
  case (Suc n)
  then have ab: "a \<le> b" by linarith
  have "unlock_loop (word_of_nat (2 ^ k * b)) (word_of_nat (2 ^ k * Suc a)) m1 = Some (unlock_pages (page_list k (Suc a) b) m1)"
    if "unlock_page (word_of_nat (2 ^ k * a)) m = Inr m1" for m1
    using Suc ab unlock_page_size [OF that] by (intro Suc.hyps(1)) auto
  then show ?case
    using ab Suc.prems
    by (subst unlock_loop.simps, cases "unlock_page (word_of_nat (2 ^ k * a)) m")
      (simp_all only: page_order page_list_Cons if_True unlock_pages.simps bind_res_simps sum.case)
qed

subsection \<open>Counting ranges\<close>

text \<open>The abstract state is the multiset of the ranges that are locked; a page is needed by the ranges
  that touch it.\<close>

type_synonym mem_range = "uint64 \<times> uint64"

definition range_pages :: "nat \<Rightarrow> mem_range \<Rightarrow> uint64 list" where
  "range_pages k r = (case r of (p, n) \<Rightarrow>
     if n = 0 then [] else page_list k (unat p div 2 ^ k) ((unat p + unat n - 1) div 2 ^ k))"

definition range_ok :: "nat \<Rightarrow> mem_range \<Rightarrow> bool" where
  "range_ok k r \<longleftrightarrow> (case r of (p, n) \<Rightarrow> unat p + unat n + 2 ^ k < 2 ^ 64)"

definition needed :: "nat \<Rightarrow> mem_range multiset \<Rightarrow> uint64 \<Rightarrow> nat" where
  "needed k live page = size (filter_mset (\<lambda>r. page \<in> set (range_pages k r)) live)"

definition counts :: "page_manager \<Rightarrow> (uint64 \<Rightarrow> nat) \<Rightarrow> bool" where
  "counts m f \<longleftrightarrow> (\<forall>p. histogram m p = (if f p = 0 then None else Some (int (f p)))) \<and> os_pages (locker m) = {p. f p \<noteq> 0}"

definition represents :: "nat \<Rightarrow> page_manager \<Rightarrow> mem_range multiset \<Rightarrow> bool" where
  "represents k m live \<longleftrightarrow> page_size m = 2 ^ k \<and> page_mask m = NOT (2 ^ k - 1) \<and> counts m (needed k live)"

lemma range_bound:
  assumes "range_ok k (p, n)" "n \<noteq> 0" "k < 64"
  shows "2 ^ k * Suc ((unat p + unat n - 1) div 2 ^ k) < (2 :: nat) ^ 64" "unat p div 2 ^ k \<le> (unat p + unat n - 1) div 2 ^ k"
    "unat (p + n - 1) = unat p + unat n - 1"
proof -
  have n: "0 < unat n" using assms(2) by (simp add: unat_gt_0)
  have "2 ^ k * ((unat p + unat n - 1) div 2 ^ k) \<le> unat p + unat n - 1" by (rule times_div_less_eq_dividend)
  then show "2 ^ k * Suc ((unat p + unat n - 1) div 2 ^ k) < (2 :: nat) ^ 64"
    using assms(1) unfolding range_ok_def prod.case mult_Suc_right by linarith
  show "unat p div 2 ^ k \<le> (unat p + unat n - 1) div 2 ^ k" using n by (intro div_le_mono) linarith
  have "unat p + unat n < (2 :: nat) ^ 64" using assms(1) unfolding range_ok_def prod.case by linarith
  then have s: "unat (p + n) = unat p + unat n" by (simp add: unat_word_ariths)
  moreover have "1 \<le> p + n" using n s by (simp add: word_le_nat_alt)
  ultimately show "unat (p + n - 1) = unat p + unat n - 1" by (simp add: unat_sub)
qed

lemma masked_page:
  assumes "k < 64"
  shows "(a :: uint64) AND NOT (2 ^ k - 1) = word_of_nat (2 ^ k * (unat a div 2 ^ k))"
proof -
  have "word_of_nat (unat (a AND NOT (2 ^ k - 1))) = a AND NOT (2 ^ k - 1)" by simp
  then show ?thesis unfolding unat_and_mask [OF assms] by (rule sym)
qed

lemma set_page_list: "q \<in> set (page_list k a b) \<longleftrightarrow> (\<exists>j. a \<le> j \<and> j \<le> b \<and> q = word_of_nat (2 ^ k * j))"
  by (auto simp: page_list_def simp del: of_nat_mult)

lemma distinct_page_list:
  assumes "2 ^ k * Suc b < (2 :: nat) ^ 64"
  shows "distinct (page_list k a b)"
proof -
  have "unat (word_of_nat (2 ^ k * j) :: uint64) = 2 ^ k * j" if "j \<le> b" for j
  proof -
    have "2 ^ k * j \<le> 2 ^ k * Suc b" using that by (intro mult_le_mono2) simp
    then have "2 ^ k * j < (2 :: nat) ^ 64" using assms by linarith
    then show ?thesis by (simp only: unat_of_nat mod_less) simp
  qed
  then have "inj_on (\<lambda>j. word_of_nat (2 ^ k * j) :: uint64) {a..<Suc b}"
    by (intro inj_onI) (metis atLeastLessThan_iff less_Suc_eq_le mult_left_cancel power_not_zero zero_neq_numeral)
  then show ?thesis unfolding page_list_def by (simp only: distinct_map distinct_upt set_upt simp_thms)
qed

lemma counts_lock_page: "counts m f \<Longrightarrow> counts (lock_page p m) (f(p := f p + 1))"
  by (cases "f p = 0") (auto simp: counts_def lock_page_def)

lemma counts_lock_pages:
  "distinct ps \<Longrightarrow> counts m f \<Longrightarrow> counts (fold lock_page ps m) (\<lambda>q. f q + (if q \<in> set ps then 1 else 0))"
proof (induction ps arbitrary: m f)
  case (Cons p ps)
  from Cons.IH [OF _ counts_lock_page [OF Cons.prems(2), of p]] Cons.prems(1)
  have "counts (fold lock_page ps (lock_page p m)) (\<lambda>q. (f(p := f p + 1)) q + (if q \<in> set ps then 1 else 0))" by simp
  moreover have "(\<lambda>q. (f(p := f p + 1)) q + (if q \<in> set ps then 1 else 0)) = (\<lambda>q. f q + (if q \<in> set (p # ps) then 1 else 0))"
    using Cons.prems(1) by (intro ext) auto
  ultimately show ?case by simp
qed simp

lemma counts_unlock_page:
  assumes "counts m f" "f p \<noteq> 0"
  shows "\<exists>m'. unlock_page p m = Inr m' \<and> counts m' (f(p := f p - 1))"
proof -
  have h: "histogram m p = Some (int (f p))" using assms by (simp add: counts_def)
  have "int (f p) - 1 = 0 \<longleftrightarrow> f p = 1" by auto
  then show ?thesis using assms h by (auto simp: counts_def unlock_page_def of_nat_diff)
qed

lemma counts_unlock_pages:
  assumes "distinct ps" "counts m f" "\<forall>p\<in>set ps. f p \<noteq> 0"
  shows "\<exists>m'. unlock_pages ps m = Inr m' \<and> counts m' (\<lambda>q. f q - (if q \<in> set ps then 1 else 0)) \<and>
    page_size m' = page_size m \<and> page_mask m' = page_mask m"
  using assms
proof (induction ps arbitrary: m f)
  case (Cons p ps)
  have "f p \<noteq> 0" using Cons.prems(3) by simp
  from counts_unlock_page [OF Cons.prems(2) this]
  obtain m1 where m1: "unlock_page p m = Inr m1" "counts m1 (f(p := f p - 1))" by blast
  have "\<forall>q\<in>set ps. (f(p := f p - 1)) q \<noteq> 0" using Cons.prems by auto
  from Cons.IH [OF _ m1(2) this] Cons.prems(1)
  obtain m2 where "unlock_pages ps m1 = Inr m2" "counts m2 (\<lambda>q. (f(p := f p - 1)) q - (if q \<in> set ps then 1 else 0))"
    "page_size m2 = page_size m1 \<and> page_mask m2 = page_mask m1" by auto
  moreover have "(\<lambda>q. (f(p := f p - 1)) q - (if q \<in> set ps then 1 else 0)) = (\<lambda>q. f q - (if q \<in> set (p # ps) then 1 else 0))"
    using Cons.prems(1) by (intro ext) auto
  ultimately show ?case using m1(1) unlock_page_size [OF m1(1)] by auto
qed simp

lemma fold_lock_page_size [simp]:
  "page_size (fold lock_page ps m) = page_size m" "page_mask (fold lock_page ps m) = page_mask m"
  by (induction ps arbitrary: m) simp_all

lemma range_loops:
  assumes "k < 64" "range_ok k (p, n)" "page_size m = 2 ^ k" "page_mask m = NOT (2 ^ k - 1)"
  shows "LockRange p n m = Some (fold lock_page (range_pages k (p, n)) m)"
    "UnlockRange p n m = Some (unlock_pages (range_pages k (p, n)) m)" "distinct (range_pages k (p, n))"
proof -
  have "LockRange p n m = Some (fold lock_page (range_pages k (p, n)) m) \<and>
    UnlockRange p n m = Some (unlock_pages (range_pages k (p, n)) m) \<and> distinct (range_pages k (p, n))"
  proof (cases "n = 0")
    case False
    note b = range_bound [OF assms(2) False assms(1)]
    note l = lock_loop_pages [OF assms(3) b(1) le_SucI [OF b(2)]] and u = unlock_loop_pages [OF assms(3) b(1) le_SucI [OF b(2)]]
    have r: "range_pages k (p, n) = page_list k (unat p div 2 ^ k) ((unat p + unat n - 1) div 2 ^ k)"
      using False by (simp only: range_pages_def prod.case if_False)
    show ?thesis
      unfolding LockRange_def UnlockRange_def r assms(4) masked_page [OF assms(1)] b(3)
      using l u distinct_page_list [OF b(1)] False by (simp only: if_False simp_thms)
  qed (simp add: LockRange_def UnlockRange_def range_pages_def)
  then show "LockRange p n m = Some (fold lock_page (range_pages k (p, n)) m)"
    "UnlockRange p n m = Some (unlock_pages (range_pages k (p, n)) m)" "distinct (range_pages k (p, n))" by auto
qed

lemma LockRange_represents:
  assumes "k < 64" "range_ok k (p, n)" "represents k m live"
  shows "\<exists>m'. LockRange p n m = Some m' \<and> represents k m' (add_mset (p, n) live)"
proof -
  have c: "counts m (needed k live)" "page_size m = 2 ^ k" "page_mask m = NOT (2 ^ k - 1)" using assms(3) by (simp_all add: represents_def)
  note L = range_loops [OF assms(1,2) c(2,3)]
  have "(\<lambda>q. needed k live q + (if q \<in> set (range_pages k (p, n)) then 1 else 0)) = needed k (add_mset (p, n) live)"
    by (rule ext) (simp add: needed_def)
  then show ?thesis using counts_lock_pages [OF L(3) c(1)] L(1) c(2,3) by (simp add: represents_def)
qed

lemma UnlockRange_represents:
  assumes "k < 64" "range_ok k (p, n)" "represents k m live" "(p, n) \<in># live"
  shows "\<exists>m'. UnlockRange p n m = Some (Inr m') \<and> represents k m' (live - {#(p, n)#})"
proof -
  have c: "counts m (needed k live)" "page_size m = 2 ^ k" "page_mask m = NOT (2 ^ k - 1)" using assms(3) by (simp_all add: represents_def)
  note L = range_loops [OF assms(1,2) c(2,3)]
  obtain rest where rest: "live = add_mset (p, n) rest" using assms(4) by (metis mset_add)
  have "\<forall>q\<in>set (range_pages k (p, n)). needed k live q \<noteq> 0" by (simp add: needed_def rest)
  from counts_unlock_pages [OF L(3) c(1) this] obtain m' where
    m': "unlock_pages (range_pages k (p, n)) m = Inr m'"
      "counts m' (\<lambda>q. needed k live q - (if q \<in> set (range_pages k (p, n)) then 1 else 0))"
      "page_size m' = page_size m" "page_mask m' = page_mask m" by blast
  moreover have "(\<lambda>q. needed k live q - (if q \<in> set (range_pages k (p, n)) then 1 else 0)) = needed k (live - {#(p, n)#})"
    by (rule ext) (simp add: needed_def rest)
  ultimately show ?thesis using L(2) c(2,3) by (simp add: represents_def)
qed

text \<open>Runs of the manager in which a range is unlocked only while it is locked.\<close>

inductive lp_run :: "nat \<Rightarrow> page_manager \<Rightarrow> mem_range multiset \<Rightarrow> bool" for k :: nat where
  start: "LockedPageManagerBase_make (2 ^ k) = Inr m \<Longrightarrow> lp_run k m {#}"
| lock: "lp_run k m live \<Longrightarrow> range_ok k (p, n) \<Longrightarrow> LockRange p n m = Some m' \<Longrightarrow> lp_run k m' (add_mset (p, n) live)"
| unlock: "lp_run k m live \<Longrightarrow> range_ok k (p, n) \<Longrightarrow> (p, n) \<in># live \<Longrightarrow> UnlockRange p n m = Some (Inr m') \<Longrightarrow>
    lp_run k m' (live - {#(p, n)#})"

lemma lp_run_represents:
  assumes "k < 64" "lp_run k m live"
  shows "represents k m live"
  using assms(2)
proof (induction rule: lp_run.induct)
  case (start m)
  then show ?case
    by (auto simp: represents_def counts_def needed_def LockedPageManagerBase_make_def split: if_splits)
next
  case (lock m live p n m')
  then show ?case using LockRange_represents [OF assms(1) lock(2)] by fastforce
next
  case (unlock m live p n m')
  then show ?case using UnlockRange_represents [OF assms(1) unlock(2)] by fastforce
qed

text \<open>C24. The page manager implements the multiset of locked ranges: the operations return, no assertion
  fails, and after any sequence of them the operating system has exactly those pages locked that some
  range still needs, although its locks do not stack.\<close>

theorem LockedPages_refines:
  assumes "k < 64" "lp_run k m live" "range_ok k (p, n)"
  shows "os_pages (locker m) = {page. \<exists>r\<in>#live. page \<in> set (range_pages k r)} \<and>
    (\<exists>m'. LockRange p n m = Some m' \<and> lp_run k m' (add_mset (p, n) live)) \<and>
    ((p, n) \<in># live \<longrightarrow> (\<exists>m'. UnlockRange p n m = Some (Inr m') \<and> lp_run k m' (live - {#(p, n)#})))"
proof -
  have rep: "represents k m live" using assms(1,2) by (rule lp_run_represents)
  have "os_pages (locker m) = {q. needed k live q \<noteq> 0}" using rep by (simp add: represents_def counts_def)
  moreover have "needed k live q \<noteq> 0 \<longleftrightarrow> (\<exists>r\<in>#live. q \<in> set (range_pages k r))" for q
    by (auto simp: needed_def)
  ultimately show ?thesis
    using LockRange_represents [OF assms(1,3) rep] UnlockRange_represents [OF assms(1,3) rep] lp_run.lock [OF assms(2,3)]
      lp_run.unlock [OF assms(2,3)] by blast
qed

theorem LockedPages_refines_witness:
  "\<exists>m m1 m2. LockedPageManagerBase_make 4096 = Inr m \<and> LockRange 8190 4 m = Some m1 \<and> os_pages (locker m1) = {4096, 8192} \<and>
     UnlockRange 8190 4 m1 = Some (Inr m2) \<and> os_pages (locker m2) = {}"
proof -
  obtain m where m: "LockedPageManagerBase_make (2 ^ 12) = Inr m" by (simp add: LockedPageManagerBase_make_def)
  note r0 = lp_run.start [OF m]
  have ok: "range_ok 12 (8190, 4)" by (simp add: range_ok_def)
  from LockedPages_refines [OF _ r0 ok] obtain m1 where m1: "LockRange 8190 4 m = Some m1" "lp_run 12 m1 {#(8190, 4)#}" by auto
  from LockedPages_refines [OF _ m1(2) ok] obtain m2 where
    m2: "UnlockRange 8190 4 m1 = Some (Inr m2)" "lp_run 12 m2 {#}"
      "os_pages (locker m1) = {page. \<exists>r\<in>#{#(8190, 4)#}. page \<in> set (range_pages 12 r)}" by auto
  have "set (range_pages 12 (8190, 4)) = {4096, 8192}" by (simp add: range_pages_def page_list_def upt_conv_Cons insert_commute)
  moreover have "os_pages (locker m2) = {}" using LockedPages_refines [OF _ m2(2) ok] by simp
  ultimately show ?thesis using m m1(1) m2 by auto
qed

text \<open>At the last page of the address space the loop never ends: the next page is zero again.\<close>

lemma lock_loop_wraps:
  assumes k: "k < 64" and r: "lock_loop e p m = Some r"
  shows "\<not> (e = NOT (2 ^ k - 1) \<and> p AND (2 ^ k - 1) = 0 \<and> page_size m = 2 ^ k)"
  using r
proof (rule lock_loop.raw_induct [rotated])
  fix rec e p m r
  assume 1: "\<And>e p m r. rec e p m = Some r \<Longrightarrow> \<not> (e = NOT (2 ^ k - 1) \<and> p AND (2 ^ k - 1) = 0 \<and> page_size m = 2 ^ k)"
    "(if p \<le> e then rec e (p + page_size m) (lock_page p m) else Some m) = Some r"
  show "\<not> (e = NOT (2 ^ k - 1) \<and> p AND (2 ^ k - 1) = 0 \<and> page_size m = 2 ^ k)"
  proof
    assume h: "e = NOT (2 ^ k - 1) \<and> p AND (2 ^ k - 1) = 0 \<and> page_size m = 2 ^ k"
    have mk: "2 ^ k - 1 = (mask k :: uint64)" by (simp add: mask_eq_exp_minus_1)
    have "p = p AND NOT (mask k)"
    proof (rule bit_word_eqI)
      fix n
      have "\<not> bit (p AND mask k) n" using h unfolding mk by simp
      then show "bit p n \<longleftrightarrow> bit (p AND NOT (mask k)) n" by (auto simp: bit_simps dest: bit_imp_le_length)
    qed
    then have "p \<le> e" using h unfolding mk by (metis word_and_le1)
    then have "rec e (p + page_size m) (lock_page p m) = Some r" using 1(2) by simp
    moreover have "(p + 2 ^ k) AND (2 ^ k - 1) = 0"
    proof -
      have tb: "unat (w AND mask k) = unat w mod 2 ^ k" for w :: uint64
        by (simp only: unsigned_take_bit_eq flip: take_bit_eq_mod take_bit_eq_mask)
      have "unat p mod 2 ^ k = 0" using h tb [of p] unfolding mk by simp
      moreover have "unat (2 ^ k :: uint64) = 2 ^ k"
      proof -
        have "(2 :: nat) ^ k < 2 ^ 64" using k by (intro power_strict_increasing) simp_all
        then have "unat (word_of_nat (2 ^ k) :: uint64) = 2 ^ k" by (simp only: unat_of_nat mod_less) simp
        then show ?thesis by simp
      qed
      moreover have "(2 :: nat) ^ k dvd 2 ^ 64" using k by (intro le_imp_power_dvd) simp
      ultimately have "unat ((p + 2 ^ k) AND mask k) = 0"
        unfolding tb unat_word_ariths by (simp add: mod_mod_cancel mod_0_imp_dvd)
      then show ?thesis unfolding mk by (simp add: unat_eq_0)
    qed
    ultimately show False using 1(1) [of e "p + page_size m" "lock_page p m" r] h by simp
  qed
qed

end
