(* ===== verification/LockOrder.thy ===== *)
theory LockOrder
  imports Prelude
begin

text \<open>
  The early detection of deadlocks (\<open>sync.cpp\<close>, compiled with \<open>DEBUG_LOCKORDER\<close>): every thread keeps the
  stack of the locks it holds or is about to take, and the program keeps all pairs of locks that were
  taken one after the other.  A lock is a pointer of type \<open>'c\<close>, a thread a number, a location a string.
  A report stands for the call of \<open>potential_deadlock_detected\<close>.
\<close>

type_synonym 'c LockStack = "('c \<times> string) list"

record 'c lock_state =
  lockorders :: "('c \<times> 'c) \<rightharpoonup> 'c LockStack"
  lockstack :: "nat \<Rightarrow> 'c LockStack"
  reports :: "('c \<times> 'c) list"

definition lock_start :: "'c lock_state" where
  "lock_start = \<lparr> lockorders = Map.empty, lockstack = (\<lambda>_. []), reports = [] \<rparr>"

text \<open>The loop of \<open>push_lock\<close> over the stack, from its bottom to its top.\<close>

fun order_loop :: "'c \<Rightarrow> 'c LockStack \<Rightarrow> 'c LockStack \<Rightarrow> (('c \<times> 'c) \<rightharpoonup> 'c LockStack) \<Rightarrow> ('c \<times> 'c) list \<Rightarrow>
    (('c \<times> 'c) \<rightharpoonup> 'c LockStack) \<times> ('c \<times> 'c) list" where
  "order_loop c stack [] orders reps = (orders, reps)"
| "order_loop c stack (i # is) orders reps =
     (if fst i = c then (orders, reps)
      else if orders (fst i, c) \<noteq> None then order_loop c stack is orders reps
      else
        let orders1 = orders((fst i, c) \<mapsto> stack) in
        if orders1 (c, fst i) \<noteq> None then (orders1, reps @ [(fst i, c)])
        else order_loop c stack is orders1 reps)"

definition push_lock :: "nat \<Rightarrow> 'c \<Rightarrow> string \<Rightarrow> bool \<Rightarrow> 'c lock_state \<Rightarrow> 'c lock_state" where
  "push_lock t c locklocation fTry s =
     (let stack = lockstack s t @ [(c, locklocation)];
          s1 = s\<lparr> lockstack := (lockstack s)(t := stack) \<rparr>
      in if \<not> fTry then
           (case order_loop c stack stack (lockorders s1) (reports s1) of
              (orders, reps) \<Rightarrow> s1\<lparr> lockorders := orders, reports := reps \<rparr>)
         else s1)"

definition pop_lock :: "nat \<Rightarrow> 'c lock_state \<Rightarrow> 'c lock_state" where
  "pop_lock t s = s\<lparr> lockstack := (lockstack s)(t := butlast (lockstack s t)) \<rparr>"

definition EnterCritical :: "nat \<Rightarrow> string \<Rightarrow> 'c \<Rightarrow> bool \<Rightarrow> 'c lock_state \<Rightarrow> 'c lock_state" where
  "EnterCritical t location cs fTry s = push_lock t cs location fTry s"

definition LeaveCritical :: "nat \<Rightarrow> 'c lock_state \<Rightarrow> 'c lock_state" where
  "LeaveCritical t s = pop_lock t s"

subsection \<open>Runs\<close>

datatype 'c lock_event = Enter nat string 'c bool | Leave nat

fun lock_step :: "'c lock_event \<Rightarrow> 'c lock_state \<Rightarrow> 'c lock_state" where
  "lock_step (Enter t loc c fTry) s = EnterCritical t loc c fTry s"
| "lock_step (Leave t) s = LeaveCritical t s"

definition lock_run :: "'c lock_event list \<Rightarrow> 'c lock_state" where
  "lock_run es = fold lock_step es lock_start"

text \<open>The orders in which locks were requested: \<open>a\<close> before \<open>c\<close> when a thread waits for \<open>c\<close> and has \<open>a\<close>
  on its stack, below \<open>c\<close> if it holds \<open>c\<close> already.\<close>

definition new_orders :: "'c lock_state \<Rightarrow> 'c lock_event \<Rightarrow> ('c \<times> 'c) set" where
  "new_orders s e = (case e of
      Enter t loc c fTry \<Rightarrow> if fTry then {} else (\<lambda>i. (fst i, c)) ` set (takeWhile (\<lambda>i. fst i \<noteq> c) (lockstack s t))
    | Leave t \<Rightarrow> {})"

fun all_orders :: "'c lock_state \<Rightarrow> 'c lock_event list \<Rightarrow> ('c \<times> 'c) set" where
  "all_orders s [] = {}"
| "all_orders s (e # es) = new_orders s e \<union> all_orders (lock_step e s) es"

lemma all_orders_snoc: "all_orders s (es @ [e]) = all_orders s es \<union> new_orders (fold lock_step es s) e"
  by (induction es arbitrary: s) auto

definition crossed :: "('c \<times> 'c) set \<Rightarrow> bool" where
  "crossed R \<longleftrightarrow> (\<exists>a b. (a, b) \<in> R \<and> (b, a) \<in> R)"

lemma crossed_mono: "crossed A \<Longrightarrow> A \<subseteq> B \<Longrightarrow> crossed B"
  by (auto simp: crossed_def)

lemma order_loop_spec:
  assumes "order_loop c stack is orders reps = (orders', reps')"
  shows "let P = (\<lambda>i. (fst i, c)) ` set (takeWhile (\<lambda>i. fst i \<noteq> c) is) in
    dom orders \<subseteq> dom orders' \<and> dom orders' \<subseteq> dom orders \<union> P \<and>
    (if reps' = reps then dom orders' = dom orders \<union> P \<and> (\<not> crossed (dom orders) \<longrightarrow> \<not> crossed (dom orders'))
     else reps \<noteq> reps' \<and> reps' \<noteq> [] \<and> crossed (dom orders \<union> P))"
  using assms
proof (induction "is" arbitrary: orders)
  case (Cons i "is")
  let ?P = "(\<lambda>i. (fst i, c)) ` set (takeWhile (\<lambda>i. fst i \<noteq> c) is)"
  show ?case
  proof (cases "fst i = c")
    case True
    then show ?thesis using Cons.prems by simp
  next
    case False
    show ?thesis
    proof (cases "orders (fst i, c) = None")
      case False
      then have "order_loop c stack is orders reps = (orders', reps')" "(fst i, c) \<in> dom orders" using Cons.prems \<open>fst i \<noteq> c\<close> by auto
      then show ?thesis using Cons.IH [of orders] \<open>fst i \<noteq> c\<close> by (auto simp: Let_def insert_absorb split: if_splits)
    next
      case new: True
      let ?o = "orders((fst i, c) \<mapsto> stack)"
      have d: "dom ?o = insert (fst i, c) (dom orders)" by simp
      show ?thesis
      proof (cases "?o (c, fst i) = None")
        case True
        then have "order_loop c stack is ?o reps = (orders', reps')" using Cons.prems \<open>fst i \<noteq> c\<close> new by (simp add: Let_def)
        note IH = Cons.IH [OF this, unfolded d]
        have "\<not> crossed (dom orders) \<Longrightarrow> \<not> crossed (insert (fst i, c) (dom orders))"
          using True \<open>fst i \<noteq> c\<close> by (auto simp: crossed_def split: if_splits)
        then show ?thesis using IH \<open>fst i \<noteq> c\<close> by (auto simp: Let_def split: if_splits)
      next
        case False
        then have r: "orders' = ?o" "reps' = reps @ [(fst i, c)]" using Cons.prems \<open>fst i \<noteq> c\<close> new by (auto simp: Let_def)
        have "(c, fst i) \<in> dom orders" using False \<open>fst i \<noteq> c\<close> by (auto split: if_splits)
        then have "crossed (insert (fst i, c) (dom orders \<union> ?P))" unfolding crossed_def by blast
        then show ?thesis using r \<open>fst i \<noteq> c\<close> by (auto simp: Let_def)
      qed
    qed
  qed
qed simp

definition lock_inv :: "('c \<times> 'c) set \<Rightarrow> 'c lock_state \<Rightarrow> bool" where
  "lock_inv R s \<longleftrightarrow> dom (lockorders s) \<subseteq> R \<and>
     (if reports s = [] then dom (lockorders s) = R \<and> \<not> crossed R else crossed R)"

lemma lock_inv_step:
  assumes "lock_inv R s"
  shows "lock_inv (R \<union> new_orders s e) (lock_step e s)"
proof (cases e)
  case (Leave t)
  then show ?thesis using assms by (simp add: lock_inv_def new_orders_def LeaveCritical_def pop_lock_def)
next
  case (Enter t loc c fTry)
  show ?thesis
  proof (cases fTry)
    case True
    then show ?thesis using assms Enter by (simp add: lock_inv_def new_orders_def EnterCritical_def push_lock_def Let_def)
  next
    case False
    define stack where "stack = lockstack s t @ [(c, loc)]"
    obtain orders reps where l: "order_loop c stack stack (lockorders s) (reports s) = (orders, reps)" by fastforce
    have s': "lockorders (lock_step e s) = orders" "reports (lock_step e s) = reps"
      using l False Enter by (simp_all add: EnterCritical_def push_lock_def stack_def Let_def)
    have "takeWhile (\<lambda>i. fst i \<noteq> c) stack = takeWhile (\<lambda>i. fst i \<noteq> c) (lockstack s t)"
      unfolding stack_def by (auto simp: takeWhile_append takeWhile_eq_all_conv intro: sym)
    then have n: "new_orders s e = (\<lambda>i. (fst i, c)) ` set (takeWhile (\<lambda>i. fst i \<noteq> c) stack)" using False Enter by (simp add: new_orders_def)
    note S = order_loop_spec [OF l, folded n, unfolded Let_def]
    show ?thesis
    proof (cases "reports s = []")
      case True
      then show ?thesis using assms S unfolding lock_inv_def s' by (cases "reps = []") auto
    next
      case rep: False
      then have "reps \<noteq> []" using S by auto
      moreover have "crossed (R \<union> new_orders s e)" using assms rep crossed_mono [of R] by (simp add: lock_inv_def)
      moreover have "dom orders \<subseteq> R \<union> new_orders s e" using S assms unfolding lock_inv_def by blast
      ultimately show ?thesis unfolding lock_inv_def s' by simp
    qed
  qed
qed

lemma lock_inv_run: "lock_inv (all_orders lock_start es) (lock_run es)"
proof (induction es rule: rev_induct)
  case Nil
  show ?case by (simp add: lock_inv_def lock_run_def lock_start_def crossed_def)
next
  case (snoc e es)
  then show ?case using lock_inv_step [OF snoc, of e] by (simp add: lock_run_def all_orders_snoc)
qed

subsection \<open>Properties\<close>


text \<open>A cycle of three locks is not noticed.\<close>

lemma longer_cycle_unnoticed:
  "reports (lock_run [Enter 1 [] ''A'' False, Enter 1 [] ''B'' False, Leave 1, Leave 1,
     Enter 2 [] ''B'' False, Enter 2 [] ''C'' False, Leave 2, Leave 2,
     Enter 3 [] ''C'' False, Enter 3 [] ''A'' False]) = []"
  by code_simp

lemma two_orders_reported:
  "reports (lock_run [Enter 1 [] ''A'' False, Enter 1 [] ''B'' False, Leave 1, Leave 1,
     Enter 2 [] ''B'' False, Enter 2 [] ''A'' False]) = [(''B'', ''A'')]"
  by code_simp

end
