(* ===== verification/Socks.thy ===== *)
theory Socks
  imports NetAddr
begin

text \<open>
  Connecting to a peer, directly or through a SOCKS proxy (\<open>netbase.cpp\<close>).  The system calls are
  functions of the number of calls made so far: the result of \<open>socket\<close> (none for \<open>INVALID_SOCKET\<close>), of
  changing the blocking mode, \<open>connect\<close>, \<open>select\<close>, \<open>getsockopt\<close>, \<open>send\<close> (a count or -1) and \<open>recv\<close> (the bytes
  received, none for -1), which gets the length as \<open>size_t\<close>.  The state keeps the open descriptors and
  the bytes sent.  \<open>char\<close> is signed.
\<close>

datatype connect_result = Connected | In_progress | Not_connected

record os_env =
  os_socket :: "nat \<Rightarrow> nat option"
  os_set_mode :: "nat \<Rightarrow> bool"
  os_connect :: "nat \<Rightarrow> sockaddr \<Rightarrow> connect_result"
  os_select :: "nat \<Rightarrow> int32"
  os_so_error :: "nat \<Rightarrow> int32 option"
  os_send :: "nat \<Rightarrow> bytes \<Rightarrow> int64"
  os_recv :: "nat \<Rightarrow> nat \<Rightarrow> bytes option"

record os_state =
  os_calls :: nat
  os_open :: "nat set"
  os_sent :: bytes

type_synonym 'a os = "os_state \<Rightarrow> ('a \<times> os_state) res"

definition oret :: "'a \<Rightarrow> 'a os" where
  "oret x s = Inr (x, s)"

definition obind :: "'a os \<Rightarrow> ('a \<Rightarrow> 'b os) \<Rightarrow> 'b os" where
  "obind m k s = bind_res (m s) (\<lambda>(x, s1). k x s1)"

definition othen :: "unit os \<Rightarrow> 'a os \<Rightarrow> 'a os" where
  "othen m k = obind m (\<lambda>_. k)"

definition sys :: "(nat \<Rightarrow> 'a) \<Rightarrow> 'a os" where
  "sys f s = Inr (f (os_calls s), s\<lparr> os_calls := os_calls s + 1 \<rparr>)"

definition closesocket :: "nat \<Rightarrow> unit os" where
  "closesocket h s = Inr ((), s\<lparr> os_open := os_open s - {h} \<rparr>)"

definition sys_socket :: "os_env \<Rightarrow> nat option os" where
  "sys_socket V = obind (sys (os_socket V)) (\<lambda>r s. Inr (r, case r of None \<Rightarrow> s | Some h \<Rightarrow> s\<lparr> os_open := insert h (os_open s) \<rparr>))"

definition sys_send :: "os_env \<Rightarrow> bytes \<Rightarrow> int64 os" where
  "sys_send V data = obind (sys (\<lambda>k. os_send V k data)) (\<lambda>n s. Inr (n, s\<lparr> os_sent := os_sent s @ take (nat n) data \<rparr>))"

text \<open>\<open>recv(hSocket, buf, n, 0)\<close> into a buffer of \<open>cap\<close> bytes: the count returned and the bytes.\<close>

definition sys_recv :: "os_env \<Rightarrow> nat \<Rightarrow> nat \<Rightarrow> (int64 \<times> bytes) os" where
  "sys_recv V cap n = obind (sys (\<lambda>k. os_recv V k n)) (\<lambda>r s. case r of
      None \<Rightarrow> Inr ((- 1, []), s)
    | Some bs \<Rightarrow> if length bs > cap then Inl OutOfRange else Inr ((int (length bs), bs), s))"

definition fail_close :: "nat \<Rightarrow> bool os" where
  "fail_close h = othen (closesocket h) (oret False)"

subsection \<open>The SOCKS protocols\<close>

definition port_bytes :: "16 word \<Rightarrow> bytes" where
  "port_bytes p = [ucast p, ucast (drop_bit 8 p)]"

definition Socks4 :: "os_env \<Rightarrow> 'a CService_scheme \<Rightarrow> nat \<Rightarrow> bool os" where
  "Socks4 V addrDest hSocket =
     (if \<not> IsIPv4 addrDest then fail_close hSocket
      else case GetSockAddr addrDest 16 of
        Some (Sock_IN a p, _) \<Rightarrow>
          let pszSocks4 = [4, 1] @ port_bytes p @ a @ [0x75, 0x73, 0x65, 0x72, 0] in
          obind (sys_send V pszSocks4) (\<lambda>ret.
            if ret \<noteq> int (length pszSocks4) then fail_close hSocket
            else obind (sys_recv V 8 8) (\<lambda>(n, pchRet).
              if n \<noteq> 8 then fail_close hSocket
              else if pchRet ! 1 \<noteq> 0x5a then fail_close hSocket
              else oret True))
      | _ \<Rightarrow> fail_close hSocket)"

definition Socks5_init :: bytes where "Socks5_init = [5, 1, 0]"

definition Socks5_request :: "bytes \<Rightarrow> int32 \<Rightarrow> bytes" where
  "Socks5_request strDest port =
     [5, 1, 0, 3, word_of_int (min (int (length strDest)) 255)] @ strDest
       @ [word_of_int (drop_bit 8 port AND 0xFF), word_of_int (port AND 0xFF)]"

text \<open>The address in the reply; the first component is \<open>ret\<close>, none stands for a \<open>return\<close> in between.  The
  length of a name is a \<open>char\<close>, and as an argument of \<open>recv\<close> it becomes a \<open>size_t\<close>.\<close>

definition size_of_int :: "int32 \<Rightarrow> nat" where
  "size_of_int n = unat (word_of_int n :: uint64)"

definition Socks5_address :: "os_env \<Rightarrow> byte \<Rightarrow> nat \<Rightarrow> bool option os" where
  "Socks5_address V atyp hSocket =
     (if atyp = 1 then obind (sys_recv V 256 4) (\<lambda>(n, _). oret (Some (n \<noteq> 4)))
      else if atyp = 4 then obind (sys_recv V 256 16) (\<lambda>(n, _). oret (Some (n \<noteq> 16)))
      else if atyp = 3 then
        obind (sys_recv V 256 1) (\<lambda>(n, pchRet3).
          if n \<noteq> 1 then oret None
          else
            let nRecv = sint (pchRet3 ! 0) in
            obind (sys_recv V 256 (size_of_int nRecv)) (\<lambda>(n, _). oret (Some (n \<noteq> nRecv))))
      else othen (closesocket hSocket) (oret None))"

definition Socks5 :: "os_env \<Rightarrow> bytes \<Rightarrow> int32 \<Rightarrow> nat \<Rightarrow> bool os" where
  "Socks5 V strDest port hSocket =
     (if length strDest > 255 then fail_close hSocket
      else obind (sys_send V Socks5_init) (\<lambda>ret.
        if ret \<noteq> int (length Socks5_init) then fail_close hSocket
        else obind (sys_recv V 2 2) (\<lambda>(n, pchRet1).
          if n \<noteq> 2 then fail_close hSocket
          else if pchRet1 ! 0 \<noteq> 5 \<or> pchRet1 ! 1 \<noteq> 0 then fail_close hSocket
          else obind (sys_send V (Socks5_request strDest port)) (\<lambda>ret.
            if ret \<noteq> int (length (Socks5_request strDest port)) then fail_close hSocket
            else obind (sys_recv V 4 4) (\<lambda>(n, pchRet2).
              if n \<noteq> 4 then fail_close hSocket
              else if pchRet2 ! 0 \<noteq> 5 then fail_close hSocket
              else if pchRet2 ! 1 \<noteq> 0 then fail_close hSocket
              else if pchRet2 ! 2 \<noteq> 0 then fail_close hSocket
              else obind (Socks5_address V (pchRet2 ! 3) hSocket) (\<lambda>ret. case ret of
                  None \<Rightarrow> oret False
                | Some bad \<Rightarrow>
                    if bad then fail_close hSocket
                    else obind (sys_recv V 256 2) (\<lambda>(n, _).
                      if n \<noteq> 2 then fail_close hSocket else oret True)))))))"

subsection \<open>Connecting\<close>

definition ConnectSocketDirectly :: "os_env \<Rightarrow> 'a CService_scheme \<Rightarrow> nat option os" where
  "ConnectSocketDirectly V addrConnect =
     (case GetSockAddr addrConnect 128 of
        None \<Rightarrow> oret None
      | Some (sa, len) \<Rightarrow> obind (sys_socket V) (\<lambda>h. case h of
          None \<Rightarrow> oret None
        | Some hSocket \<Rightarrow>
            let give_up = othen (closesocket hSocket) (oret None);
                ready = obind (sys (os_set_mode V)) (\<lambda>ok. if \<not> ok then give_up else oret (Some hSocket))
            in obind (sys (os_set_mode V)) (\<lambda>ok. if \<not> ok then give_up
               else obind (sys (\<lambda>k. os_connect V k sa)) (\<lambda>c. case c of
                   Connected \<Rightarrow> ready
                 | Not_connected \<Rightarrow> give_up
                 | In_progress \<Rightarrow>
                     obind (sys (os_select V)) (\<lambda>nRet.
                       if nRet = 0 then give_up
                       else if nRet = - 1 then give_up
                       else obind (sys (os_so_error V)) (\<lambda>e. case e of
                           None \<Rightarrow> give_up
                         | Some nRet \<Rightarrow> if nRet \<noteq> 0 then give_up else ready))))))"

text \<open>\<open>ni\<close> is \<open>getnameinfo\<close>, used by \<open>ToStringIP\<close>; a host name is the list of its characters.\<close>

definition str_bytes :: "string \<Rightarrow> bytes" where
  "str_bytes = map (\<lambda>c. of_char c)"

definition ConnectSocket :: "os_env \<Rightarrow> (sockaddr \<Rightarrow> string option) \<Rightarrow> proxies \<Rightarrow> 'a CService_scheme \<Rightarrow> nat option os" where
  "ConnectSocket V ni ps addrDest =
     (case GetProxy (GetNetwork addrDest) ps of
        None \<Rightarrow> ConnectSocketDirectly V addrDest
      | Some (proxy, version) \<Rightarrow>
          obind (ConnectSocketDirectly V proxy) (\<lambda>h. case h of
            None \<Rightarrow> oret None
          | Some hSocket \<Rightarrow>
              if version = 4 then obind (Socks4 V addrDest hSocket) (\<lambda>ok. oret (if ok then Some hSocket else None))
              else if version = 5 then
                obind (Socks5 V (str_bytes (ToStringIP ni addrDest)) (uint (na_port addrDest)) hSocket)
                  (\<lambda>ok. oret (if ok then Some hSocket else None))
              else oret None))"

text \<open>The address resolved is part of the result.\<close>

definition ConnectSocketByName :: "os_env \<Rightarrow> (sockaddr \<Rightarrow> string option) \<Rightarrow> resolver \<Rightarrow> bool \<Rightarrow> proxies \<Rightarrow> string \<Rightarrow> int32 \<Rightarrow>
    (CService \<times> nat option) os" where
  "ConnectSocketByName V ni R fNameLookup ps pszDest portDefault =
     (case SplitHostPort pszDest portDefault of (port, strDest) \<Rightarrow>
        let version = (case GetNameProxy ps of None \<Rightarrow> 0 | Some (_, v) \<Rightarrow> v);
            addrResolved = CService_make (CNetAddr_of_string R strDest (fNameLookup \<and> version = 0)) (word_of_int port)
        in if NetAddr_IsValid addrResolved then
             obind (ConnectSocket V ni ps addrResolved) (\<lambda>h. oret (addrResolved, h))
           else
             let addr = CService_of_string R ''0.0.0.0:0'' 0 False in
             (case GetNameProxy ps of
                None \<Rightarrow> oret (addr, None)
              | Some (proxy, v) \<Rightarrow>
                  obind (ConnectSocketDirectly V proxy) (\<lambda>h. case h of
                    None \<Rightarrow> oret (addr, None)
                  | Some hSocket \<Rightarrow>
                      if v = 5 then obind (Socks5 V (str_bytes strDest) port hSocket)
                        (\<lambda>ok. oret (addr, if ok then Some hSocket else None))
                      else oret (addr, None))))"

subsection \<open>Properties\<close>

lemmas os_simps = oret_def obind_def othen_def sys_def closesocket_def sys_send_def sys_recv_def sys_socket_def fail_close_def

text \<open>What \<open>recv\<close> and \<open>send\<close> promise.\<close>

definition os_ok :: "os_env \<Rightarrow> bool" where
  "os_ok V \<longleftrightarrow> (\<forall>k n bs. os_recv V k n = Some bs \<longrightarrow> length bs \<le> n) \<and> (\<forall>k d. os_send V k d \<le> int (length d))"

text \<open>A call returns normally and its result satisfies a predicate.\<close>

definition owp :: "'a os \<Rightarrow> ('a \<Rightarrow> os_state \<Rightarrow> bool) \<Rightarrow> os_state \<Rightarrow> bool" where
  "owp m Q s \<longleftrightarrow> (\<exists>x s'. m s = Inr (x, s') \<and> Q x s')"

named_theorems owp_intros \<open>rules for calls that return\<close>

lemma owp_bind [owp_intros]: "owp m (\<lambda>x. owp (k x) Q) s \<Longrightarrow> owp (obind m k) Q s"
  by (fastforce simp: owp_def obind_def)

lemma owp_ret [owp_intros]: "Q x s \<Longrightarrow> owp (oret x) Q s"
  by (simp add: owp_def oret_def)

lemma owp_then [owp_intros]: "owp m (\<lambda>_. owp k Q) s \<Longrightarrow> owp (othen m k) Q s"
  unfolding othen_def by (rule owp_bind)

lemma owp_sys [owp_intros]: "Q (f (os_calls s)) (s\<lparr> os_calls := os_calls s + 1 \<rparr>) \<Longrightarrow> owp (sys f) Q s"
  by (simp add: owp_def sys_def)

lemma owp_close [owp_intros]: "Q () (s\<lparr> os_open := os_open s - {h} \<rparr>) \<Longrightarrow> owp (closesocket h) Q s"
  by (simp add: owp_def closesocket_def)

lemma owp_fail [owp_intros]: "Q False (s\<lparr> os_open := os_open s - {h} \<rparr>) \<Longrightarrow> owp (fail_close h) Q s"
  unfolding fail_close_def by (intro owp_intros)

lemma owp_if [owp_intros]: "(c \<Longrightarrow> owp a Q s) \<Longrightarrow> (\<not> c \<Longrightarrow> owp b Q s) \<Longrightarrow> owp (if c then a else b) Q s"
  by simp

lemma owp_let [owp_intros]: "owp (f x) Q s \<Longrightarrow> owp (Let x f) Q s"
  by simp

lemma owp_prod [owp_intros]: "(\<And>x y. p = (x, y) \<Longrightarrow> owp (f x y) Q s) \<Longrightarrow> owp (case p of (x, y) \<Rightarrow> f x y) Q s"
  by (cases p) simp

lemma owp_option [owp_intros]: "(r = None \<Longrightarrow> owp a Q s) \<Longrightarrow> (\<And>x. r = Some x \<Longrightarrow> owp (b x) Q s) \<Longrightarrow>
    owp (case r of None \<Rightarrow> a | Some x \<Rightarrow> b x) Q s"
  by (cases r) simp_all

lemma owp_send [owp_intros]:
  "(\<And>n. n = os_send V (os_calls s) d \<Longrightarrow> Q n (s\<lparr> os_calls := os_calls s + 1, os_sent := os_sent s @ take (nat n) d \<rparr>)) \<Longrightarrow>
     owp (sys_send V d) Q s"
  by (simp add: owp_def os_simps)

lemma owp_recv:
  assumes "os_ok V" "n \<le> cap"
    and "\<And>m bs. m = int (length bs) \<and> length bs \<le> n \<and> os_recv V (os_calls s) n = Some bs \<or> m = - 1 \<and> os_recv V (os_calls s) n = None \<Longrightarrow>
      Q (m, bs) (s\<lparr> os_calls := os_calls s + 1 \<rparr>)"
  shows "owp (sys_recv V cap n) Q s"
proof (cases "os_recv V (os_calls s) n")
  case None
  then show ?thesis using assms(3) [of "- 1" "[]"] by (simp add: owp_def os_simps)
next
  case (Some bs)
  then have l: "length bs \<le> n" using assms by (fastforce simp: os_ok_def)
  with assms(2) have "\<not> cap < length bs" by linarith
  then show ?thesis using Some l assms(3) [of "int (length bs)" bs] by (simp add: owp_def os_simps)
qed

text \<open>No reply announces a name of 128 bytes or more.\<close>

definition short_names :: "os_env \<Rightarrow> bool" where
  "short_names V \<longleftrightarrow> (\<forall>k b. os_recv V k 1 = Some [b] \<longrightarrow> b < 128)"

lemma short_sint: "(b :: byte) < 128 \<Longrightarrow> sint b = uint b \<and> size_of_int (sint b) < 128"
proof -
  assume "b < 128"
  then have u: "uint b < 128" by (simp add: word_less_def)
  then have "signed_take_bit 7 (uint b) = uint b" by (intro signed_take_bit_int_eq_self order_trans [OF _ uint_ge_0 [of b]]) simp_all
  then have s: "sint b = uint b" by (simp add: sint_uint)
  have "uint (word_of_int (uint b) :: uint64) = uint b"
    using u unfolding uint_word_of_int by (intro mod_pos_pos_trivial uint_ge_0) simp
  then have "size_of_int (uint b) = nat (uint b)" unfolding size_of_int_def by (metis nat_uint_eq)
  moreover have "nat (uint b) < 128" using u by linarith
  ultimately show ?thesis using s by simp
qed

lemma Socks5_address_owp:
  assumes V: "os_ok V" "short_names V"
    and none: "\<And>s'. os_sent s' = os_sent s \<Longrightarrow>
      os_open s' = os_open s - {h} \<or> os_open s' = os_open s \<and> (\<exists>k. \<forall>b. os_recv V k 1 \<noteq> Some [b]) \<Longrightarrow> Q None s'"
    and some: "\<And>bad s'. os_sent s' = os_sent s \<Longrightarrow> os_open s' = os_open s \<Longrightarrow> Q (Some bad) s'"
  shows "owp (Socks5_address V atyp h) Q s"
  unfolding Socks5_address_def
proof (intro owp_if owp_bind)
  show "owp (sys_recv V 256 4) (\<lambda>x. owp (case x of (n, _) \<Rightarrow> oret (Some (n \<noteq> 4))) Q) s"
    by (rule owp_recv [OF V(1)]) (auto intro!: owp_intros some)
  show "owp (sys_recv V 256 16) (\<lambda>x. owp (case x of (n, _) \<Rightarrow> oret (Some (n \<noteq> 16))) Q) s"
    by (rule owp_recv [OF V(1)]) (auto intro!: owp_intros some)
  show "owp (othen (closesocket h) (oret None)) Q s" by (intro owp_intros none) simp_all
  show "owp (sys_recv V 256 1) (\<lambda>x. owp (case x of (n, pchRet3) \<Rightarrow> if n \<noteq> 1 then oret None
      else let nRecv = sint (pchRet3 ! 0) in obind (sys_recv V 256 (size_of_int nRecv)) (\<lambda>(n, _). oret (Some (n \<noteq> nRecv)))) Q) s"
  proof (rule owp_recv [OF V(1)])
    fix m bs
    assume m: "m = int (length bs) \<and> length bs \<le> 1 \<and> os_recv V (os_calls s) 1 = Some bs \<or> m = - 1 \<and> os_recv V (os_calls s) 1 = None"
    show "owp (case (m, bs) of (n, pchRet3) \<Rightarrow> if n \<noteq> 1 then oret None
      else let nRecv = sint (pchRet3 ! 0) in obind (sys_recv V 256 (size_of_int nRecv)) (\<lambda>(n, _). oret (Some (n \<noteq> nRecv)))) Q
        (s\<lparr> os_calls := os_calls s + 1 \<rparr>)"
    proof (cases "m = 1")
      case True
      then obtain b where bs: "bs = [b]" "os_recv V (os_calls s) 1 = Some [b]" using m by (cases bs) auto
      then have "size_of_int (sint b) \<le> 256" using V(2) short_sint [of b] by (auto simp: short_names_def)
      then show ?thesis using True bs by (auto intro!: owp_intros owp_recv [OF V(1)] some)
    next
      case False
      then have "\<forall>b. os_recv V (os_calls s) 1 \<noteq> Some [b]" using m by (cases "os_recv V (os_calls s) 1") auto
      then have e: "\<exists>k. \<forall>b. os_recv V k 1 \<noteq> Some [b]" by blast
      have "owp (oret None) Q (s\<lparr> os_calls := os_calls s + 1 \<rparr>)" by (intro owp_intros none disjI2 conjI e) simp_all
      then show ?thesis using False by simp
    qed
  qed simp
qed

lemma Socks5_owp:
  assumes V: "os_ok V" "short_names V"
  shows "owp (Socks5 V strDest port h) (\<lambda>ok s'.
    (ok \<longrightarrow> length strDest \<le> 255 \<and> os_sent s' = os_sent s @ Socks5_init @ Socks5_request strDest port \<and> os_open s' = os_open s) \<and>
    (\<not> ok \<longrightarrow> os_open s' = os_open s - {h} \<or> os_open s' = os_open s \<and> (\<exists>k. \<forall>b. os_recv V k 1 \<noteq> Some [b]))) s"
  unfolding Socks5_def
  by (intro owp_intros owp_recv [OF V(1)] Socks5_address_owp [OF V]) (auto simp: nat_int)


definition demo_proxy :: os_env where
  "demo_proxy = \<lparr> os_socket = (\<lambda>_. Some 7), os_set_mode = (\<lambda>_. True), os_connect = (\<lambda>_ _. Connected), os_select = (\<lambda>_. 1),
     os_so_error = (\<lambda>_. Some 0), os_send = (\<lambda>_ d. int (length d)), os_recv = (\<lambda>_ n. Some (take n [5, 0, 0, 1])) \<rparr>"

lemma demo_proxy_ok: "os_ok demo_proxy" "short_names demo_proxy"
  by (auto simp: os_ok_def short_names_def demo_proxy_def)


text \<open>A proxy that announces a name of 128 bytes or more makes \<open>recv\<close> write past the end of the buffer of
  256 bytes: the signed length becomes a \<open>size_t\<close> of almost two to the 64.\<close>

theorem Socks5_overflow:
  assumes "length strDest \<le> 255"
    and "os_send V (os_calls s) Socks5_init = 3" "os_recv V (os_calls s + 1) 2 = Some [5, 0]"
    and "os_send V (os_calls s + 2) (Socks5_request strDest port) = int (length (Socks5_request strDest port))"
    and "os_recv V (os_calls s + 3) 4 = Some [5, 0, 0, 3]" "os_recv V (os_calls s + 4) 1 = Some [b]" "128 \<le> b"
    and "\<And>n. 2 ^ 63 < n \<Longrightarrow> os_recv V (os_calls s + 5) n = Some bs" "256 < length bs"
  shows "Socks5 V strDest port h s = Inl OutOfRange"
proof -
  have "128 \<le> uint b" using assms(7) by (simp add: word_le_def)
  then have neg: "- 128 \<le> sint b" "sint b < 0"
  proof -
    have b: "uint b < 256" using uint_lt2p [of b] by simp
    have "uint b + 128 = uint b - 128 + 256" by simp
    then have "(uint b + 128) mod 256 = (uint b - 128 + 256) mod 256" by (simp only:)
    also have "\<dots> = (uint b - 128) mod 256" by (simp only: mod_add_self2)
    also have "\<dots> = uint b - 128" by (rule mod_pos_pos_trivial) (use \<open>128 \<le> uint b\<close> b in simp_all)
    finally have "(uint b + 128) mod 256 = uint b - 128" .
    moreover have "sint b = (uint b + 2 ^ 7) mod 2 ^ 8 - 2 ^ 7"
      unfolding sint_uint signed_take_bit_eq_take_bit_shift take_bit_eq_mod by simp
    ultimately have "sint b = uint b - 256" by simp
    then show "- 128 \<le> sint b" "sint b < 0" using \<open>128 \<le> uint b\<close> b by simp_all
  qed
  have "uint (word_of_int (sint b) :: uint64) = sint b mod 2 ^ 64" unfolding uint_word_of_int by simp
  also have "\<dots> = (sint b + 2 ^ 64) mod 2 ^ 64" by (simp only: mod_add_self2)
  also have "\<dots> = sint b + 2 ^ 64" by (rule mod_pos_pos_trivial) (use neg in simp_all)
  finally have "uint (word_of_int (sint b) :: uint64) = sint b + 2 ^ 64" .
  then have "size_of_int (sint b) = nat (sint b + 2 ^ 64)" unfolding size_of_int_def by (metis nat_uint_eq)
  then have "2 ^ 63 < size_of_int (sint b)" using neg by simp
  then have r: "os_recv V (os_calls s + 5) (size_of_int (sint b)) = Some bs" by (rule assms(8))
  have k: "os_calls s + 1 = Suc (os_calls s)" "os_calls s + 2 = Suc (Suc (os_calls s))"
    "os_calls s + 3 = Suc (Suc (Suc (os_calls s)))" "os_calls s + 4 = Suc (Suc (Suc (Suc (os_calls s))))"
    "os_calls s + 5 = Suc (Suc (Suc (Suc (Suc (os_calls s)))))"
    by simp_all
  show ?thesis
    using assms(1-6,9) r unfolding k by (simp add: Socks5_def Socks5_address_def os_simps Socks5_init_def Let_def)
qed

definition hostile_proxy :: os_env where
  "hostile_proxy = demo_proxy\<lparr> os_recv := (\<lambda>k n. Some (take n
     (if k = 1 then [5, 0] else if k = 3 then [5, 0, 0, 3] else if k = 4 then [200] else replicate 300 0))) \<rparr>"

theorem Socks5_overflow_witness:
  "os_ok hostile_proxy \<and>
   Socks5 hostile_proxy [0x61] 8333 7 \<lparr> os_calls = 0, os_open = {7}, os_sent = [] \<rparr> = Inl OutOfRange"
proof
  show "os_ok hostile_proxy" by (auto simp: os_ok_def hostile_proxy_def demo_proxy_def)
  have r: "(2::nat) ^ 63 < n \<Longrightarrow> min n 300 = 300" for n by simp
  show "Socks5 hostile_proxy [0x61] 8333 7 \<lparr> os_calls = 0, os_open = {7}, os_sent = [] \<rparr> = Inl OutOfRange"
    by (rule Socks5_overflow [where bs = "replicate 300 0" and b = 200])
      (simp_all add: hostile_proxy_def demo_proxy_def Socks5_init_def r)
qed

subsection \<open>No descriptor is lost\<close>

lemma owp_socket [owp_intros]:
  "(os_socket V (os_calls s) = None \<Longrightarrow> Q None (s\<lparr> os_calls := os_calls s + 1 \<rparr>)) \<Longrightarrow>
   (\<And>h. os_socket V (os_calls s) = Some h \<Longrightarrow> Q (Some h) (s\<lparr> os_calls := os_calls s + 1, os_open := insert h (os_open s) \<rparr>)) \<Longrightarrow>
   owp (sys_socket V) Q s"
  by (cases "os_socket V (os_calls s)") (simp_all add: owp_def os_simps)

lemma owp_connect_result [owp_intros]:
  "(c = Connected \<Longrightarrow> owp a Q s) \<Longrightarrow> (c = In_progress \<Longrightarrow> owp b Q s) \<Longrightarrow> (c = Not_connected \<Longrightarrow> owp d Q s) \<Longrightarrow>
   owp (case c of Connected \<Rightarrow> a | In_progress \<Rightarrow> b | Not_connected \<Rightarrow> d) Q s"
  by (cases c) simp_all

text \<open>A direct connection leaves no descriptor behind: \<open>ConnectSocketDirectly\<close> returns on every path, with one
  more open socket when it succeeds and with the same sockets when it fails.\<close>

theorem ConnectSocketDirectly_no_leak:
  assumes "\<And>h. os_socket V (os_calls s) = Some h \<Longrightarrow> h \<notin> os_open s"
  shows "\<exists>r s'. ConnectSocketDirectly V a s = Inr (r, s') \<and>
    os_open s' = (case r of None \<Rightarrow> os_open s | Some h \<Rightarrow> insert h (os_open s)) \<and>
    (\<forall>h. r = Some h \<longrightarrow> h \<notin> os_open s)"
proof -
  have "owp (ConnectSocketDirectly V a) (\<lambda>r s'. os_open s' = (case r of None \<Rightarrow> os_open s | Some h \<Rightarrow> insert h (os_open s)) \<and>
      (\<forall>h. r = Some h \<longrightarrow> h \<notin> os_open s)) s"
    unfolding ConnectSocketDirectly_def by (intro owp_intros) (use assms in auto)
  then show ?thesis by (simp add: owp_def)
qed

theorem ConnectSocketDirectly_no_leak_witness:
  "\<exists>r s'. ConnectSocketDirectly demo_proxy CService_Init \<lparr> os_calls = 0, os_open = {3}, os_sent = [] \<rparr> = Inr (r, s') \<and>
    os_open s' = (case r of None \<Rightarrow> {3} | Some h \<Rightarrow> insert h {3})"
proof -
  let ?s = "\<lparr> os_calls = 0, os_open = {3}, os_sent = [] \<rparr>"
  have "h \<notin> os_open ?s" if "os_socket demo_proxy (os_calls ?s) = Some h" for h
    using that by (auto simp: demo_proxy_def)
  from ConnectSocketDirectly_no_leak [where V = demo_proxy and s = ?s and a = CService_Init, OF this] show ?thesis by (auto cong: option.case_cong)
qed

end
