(* ===== verification/Crypter.thy ===== *)
theory Crypter
  imports Hashing
begin

text \<open>
  Encryption of secrets (\<open>crypter.h\<close>, \<open>crypter.cpp\<close>).  The key derivation and the cipher of OpenSSL are the
  record \<open>evp_ops\<close>: \<open>EVP_BytesToKey\<close> for AES-256-CBC and SHA-512 gives the length returned, the key
  and the initialisation vector; \<open>Init\<close>, \<open>Update\<close> and \<open>Final\<close> of a context give the bytes they write, or
  none for an error.  A failed call leaves a ciphertext or plaintext that the callers do not use; it is
  left out.  Locking the pages of the key is \<open>LockedPages\<close>.
\<close>

definition WALLET_CRYPTO_KEY_SIZE :: nat where "WALLET_CRYPTO_KEY_SIZE = 32"
definition WALLET_CRYPTO_SALT_SIZE :: nat where "WALLET_CRYPTO_SALT_SIZE = 8"
definition AES_BLOCK_SIZE :: nat where "AES_BLOCK_SIZE = 16"

record 'x evp_ops =
  EVP_BytesToKey :: "bytes \<Rightarrow> bytes \<Rightarrow> uint32 \<Rightarrow> int32 \<times> bytes \<times> bytes"
  EVP_EncryptInit :: "bytes \<Rightarrow> bytes \<Rightarrow> 'x option"
  EVP_EncryptUpdate :: "bytes \<Rightarrow> 'x \<Rightarrow> (bytes \<times> 'x) option"
  EVP_EncryptFinal :: "'x \<Rightarrow> bytes option"
  EVP_DecryptInit :: "bytes \<Rightarrow> bytes \<Rightarrow> 'x option"
  EVP_DecryptUpdate :: "bytes \<Rightarrow> 'x \<Rightarrow> (bytes \<times> 'x) option"
  EVP_DecryptFinal :: "'x \<Rightarrow> bytes option"

record CMasterKey =
  mk_vchCryptedKey :: bytes
  mk_vchSalt :: bytes
  mk_nDerivationMethod :: uint32
  mk_nDeriveIterations :: uint32
  mk_vchOtherDerivationParameters :: bytes

definition CMasterKey_make :: CMasterKey where
  "CMasterKey_make = \<lparr> mk_vchCryptedKey = [], mk_vchSalt = [], mk_nDerivationMethod = 0, mk_nDeriveIterations = 25000,
     mk_vchOtherDerivationParameters = [] \<rparr>"

record CCrypter =
  chKey :: bytes
  chIV :: bytes
  fKeySet :: bool

text \<open>The constructor leaves the arrays with whatever the memory held.\<close>

definition CCrypter_make :: "bytes \<Rightarrow> bytes \<Rightarrow> CCrypter" where
  "CCrypter_make k iv = \<lparr> chKey = k, chIV = iv, fKeySet = False \<rparr>"

definition cleanse :: "bytes \<Rightarrow> bytes" where
  "cleanse bs = replicate (length bs) 0"

definition CleanKey :: "CCrypter \<Rightarrow> CCrypter" where
  "CleanKey c = c\<lparr> chKey := cleanse (chKey c), chIV := cleanse (chIV c), fKeySet := False \<rparr>"

definition SetKeyFromPassphrase :: "'x evp_ops \<Rightarrow> bytes \<Rightarrow> bytes \<Rightarrow> uint32 \<Rightarrow> uint32 \<Rightarrow> CCrypter \<Rightarrow> bool \<times> CCrypter" where
  "SetKeyFromPassphrase V strKeyData chSalt nRounds nDerivationMethod c =
     (if nRounds < 1 \<or> length chSalt \<noteq> WALLET_CRYPTO_SALT_SIZE then (False, c)
      else
        let (i, c1) = (if nDerivationMethod = 0 then
               (case EVP_BytesToKey V chSalt strKeyData nRounds of
                  (i, k, iv) \<Rightarrow> (i, c\<lparr> chKey := k, chIV := iv @ drop (length iv) (chIV c) \<rparr>))
             else (0, c))
        in if i \<noteq> int WALLET_CRYPTO_KEY_SIZE
           then (False, c1\<lparr> chKey := cleanse (chKey c1), chIV := cleanse (chIV c1) \<rparr>)
           else (True, c1\<lparr> fKeySet := True \<rparr>))"

definition Crypter_SetKey :: "bytes \<Rightarrow> bytes \<Rightarrow> CCrypter \<Rightarrow> bool \<times> CCrypter" where
  "Crypter_SetKey chNewKey chNewIV c =
     (if length chNewKey \<noteq> WALLET_CRYPTO_KEY_SIZE \<or> length chNewIV \<noteq> WALLET_CRYPTO_KEY_SIZE then (False, c)
      else (True, c\<lparr> chKey := chNewKey, chIV := chNewIV, fKeySet := True \<rparr>))"

text \<open>A buffer that is too short for the bytes written, and the address of the first element of an empty
  vector, are faults.\<close>

definition Encrypt :: "'x evp_ops \<Rightarrow> CCrypter \<Rightarrow> bytes \<Rightarrow> bytes option res" where
  "Encrypt V c vchPlaintext =
     (if \<not> fKeySet c then Inr None
      else if vchPlaintext = [] then Inl OutOfRange
      else case EVP_EncryptInit V (chKey c) (take AES_BLOCK_SIZE (chIV c)) of None \<Rightarrow> Inr None
      | Some ctx \<Rightarrow> (case EVP_EncryptUpdate V vchPlaintext ctx of None \<Rightarrow> Inr None
        | Some (c1, ctx) \<Rightarrow> (case EVP_EncryptFinal V ctx of None \<Rightarrow> Inr None
          | Some c2 \<Rightarrow> if length (c1 @ c2) > length vchPlaintext + AES_BLOCK_SIZE then Inl OutOfRange
                       else Inr (Some (c1 @ c2)))))"

definition Decrypt :: "'x evp_ops \<Rightarrow> CCrypter \<Rightarrow> bytes \<Rightarrow> bytes option res" where
  "Decrypt V c vchCiphertext =
     (if \<not> fKeySet c then Inr None
      else if vchCiphertext = [] then Inl OutOfRange
      else case EVP_DecryptInit V (chKey c) (take AES_BLOCK_SIZE (chIV c)) of None \<Rightarrow> Inr None
      | Some ctx \<Rightarrow> (case EVP_DecryptUpdate V vchCiphertext ctx of None \<Rightarrow> Inr None
        | Some (p1, ctx) \<Rightarrow> (case EVP_DecryptFinal V ctx of None \<Rightarrow> Inr None
          | Some p2 \<Rightarrow> if length (p1 @ p2) > length vchCiphertext then Inl OutOfRange else Inr (Some (p1 @ p2)))))"

text \<open>\<open>m\<close> and \<open>m'\<close> are what the memory of the local object holds.\<close>

definition EncryptSecret :: "'x evp_ops \<Rightarrow> bytes \<Rightarrow> bytes \<Rightarrow> bytes \<Rightarrow> bytes \<Rightarrow> uint256 \<Rightarrow> bytes option res" where
  "EncryptSecret V m m' vMasterKey vchPlaintext nIV =
     (case Crypter_SetKey vMasterKey (le_bytes WALLET_CRYPTO_KEY_SIZE nIV) (CCrypter_make m m') of
        (ok, c) \<Rightarrow> if \<not> ok then Inr None else Encrypt V c vchPlaintext)"

definition DecryptSecret :: "'x evp_ops \<Rightarrow> bytes \<Rightarrow> bytes \<Rightarrow> bytes \<Rightarrow> bytes \<Rightarrow> uint256 \<Rightarrow> bytes option res" where
  "DecryptSecret V m m' vMasterKey vchCiphertext nIV =
     (case Crypter_SetKey vMasterKey (le_bytes WALLET_CRYPTO_KEY_SIZE nIV) (CCrypter_make m m') of
        (ok, c) \<Rightarrow> if \<not> ok then Inr None else Decrypt V c vchCiphertext)"

subsection \<open>What the cipher promises\<close>

text \<open>With a key of 32 and a vector of 16 bytes encryption works and writes at most one block more than it
  reads; decrypting its output gives the input back; \<open>EVP_BytesToKey\<close> gives a key and a vector of these
  sizes.\<close>

definition evp_ok :: "'x evp_ops \<Rightarrow> bool" where
  "evp_ok V \<longleftrightarrow>
     (\<forall>salt pass n. \<exists>k iv. EVP_BytesToKey V salt pass n = (32, k, iv) \<and> length k = 32 \<and> length iv = 16) \<and>
     (\<forall>k iv p. length k = 32 \<longrightarrow> length iv = 16 \<longrightarrow>
        (\<exists>x c1 x1 c2 y p1 y1 p2. EVP_EncryptInit V k iv = Some x \<and> EVP_EncryptUpdate V p x = Some (c1, x1) \<and>
           EVP_EncryptFinal V x1 = Some c2 \<and> length p \<le> length (c1 @ c2) \<and> length (c1 @ c2) \<le> length p + 16 \<and>
           EVP_DecryptInit V k iv = Some y \<and> EVP_DecryptUpdate V (c1 @ c2) y = Some (p1, y1) \<and>
           EVP_DecryptFinal V y1 = Some p2 \<and> p1 @ p2 = p))"

definition key_ready :: "CCrypter \<Rightarrow> bool" where
  "key_ready c \<longleftrightarrow> fKeySet c \<and> length (chKey c) = 32 \<and> length (chIV c) = 32"

lemma crypt_roundtrip:
  assumes "evp_ok V" "key_ready c" "p \<noteq> []"
  shows "\<exists>ct. Encrypt V c p = Inr (Some ct) \<and> ct \<noteq> [] \<and> Decrypt V c ct = Inr (Some p)"
proof -
  have "length (chKey c) = 32" "length (take 16 (chIV c)) = 16" "fKeySet c" using assms(2) by (auto simp: key_ready_def)
  then obtain x c1 x1 c2 y p1 y1 p2 where *: "EVP_EncryptInit V (chKey c) (take 16 (chIV c)) = Some x"
    "EVP_EncryptUpdate V p x = Some (c1, x1)" "EVP_EncryptFinal V x1 = Some c2" "length p \<le> length (c1 @ c2)"
    "length (c1 @ c2) \<le> length p + 16" "EVP_DecryptInit V (chKey c) (take 16 (chIV c)) = Some y"
    "EVP_DecryptUpdate V (c1 @ c2) y = Some (p1, y1)" "EVP_DecryptFinal V y1 = Some p2" "p1 @ p2 = p"
    using assms(1) unfolding evp_ok_def by metis
  have "c1 @ c2 \<noteq> []" using *(4) assms(3) by (metis le_zero_eq length_0_conv list.size(3))
  moreover have "length (p1 @ p2) \<le> length (c1 @ c2)" using * by simp
  ultimately show ?thesis
    using * assms(3) \<open>fKeySet c\<close> by (intro exI [of _ "c1 @ c2"]) (simp add: Encrypt_def Decrypt_def AES_BLOCK_SIZE_def)
qed

lemma passphrase_key:
  assumes "evp_ok V" "1 \<le> n" "length salt = 8" "length (chIV c) = 32"
  shows "\<exists>k iv. SetKeyFromPassphrase V pass salt n 0 c = (True, c\<lparr> chKey := k, chIV := iv @ drop 16 (chIV c), fKeySet := True \<rparr>) \<and>
    length k = 32 \<and> length iv = 16 \<and> EVP_BytesToKey V salt pass n = (32, k, iv)"
proof -
  obtain k iv where "EVP_BytesToKey V salt pass n = (32, k, iv)" "length k = 32" "length iv = 16"
    using assms(1) unfolding evp_ok_def by blast
  moreover have "\<not> n < 1" using assms(2) by (simp only: not_less)
  ultimately show ?thesis
    using assms(3) by (simp add: SetKeyFromPassphrase_def WALLET_CRYPTO_SALT_SIZE_def WALLET_CRYPTO_KEY_SIZE_def)
qed

subsection \<open>Properties\<close>

text \<open>A secret encrypted under a master key of 32 bytes is decrypted by \<open>DecryptSecret\<close> with the same master
  key and vector, whatever the memory of the local objects held; a master key of another length encrypts
  nothing.\<close>

theorem Secret_roundtrip:
  assumes "evp_ok V" "vchPlaintext \<noteq> []"
  shows "(length vMasterKey = 32 \<longrightarrow> (\<exists>ct. EncryptSecret V m m' vMasterKey vchPlaintext nIV = Inr (Some ct) \<and>
      DecryptSecret V n n' vMasterKey ct nIV = Inr (Some vchPlaintext))) \<and>
    (length vMasterKey \<noteq> 32 \<longrightarrow> EncryptSecret V m m' vMasterKey vchPlaintext nIV = Inr None)"
proof -
  let ?c = "\<lparr> chKey = vMasterKey, chIV = le_bytes 32 nIV, fKeySet = True \<rparr>"
  have "\<exists>ct. Encrypt V ?c vchPlaintext = Inr (Some ct) \<and> ct \<noteq> [] \<and> Decrypt V ?c ct = Inr (Some vchPlaintext)"
    if "length vMasterKey = 32"
    by (rule crypt_roundtrip [OF assms(1) _ assms(2)]) (simp add: key_ready_def that)
  then show ?thesis
    by (auto simp: EncryptSecret_def DecryptSecret_def Crypter_SetKey_def CCrypter_make_def WALLET_CRYPTO_KEY_SIZE_def)
qed

text \<open>A crypter that has a key keeps \<open>fKeySet\<close> when a later derivation fails: it goes on to encrypt, with the key
  of zeros that the failed call left.\<close>

theorem failed_derivation_leaves_zero_key:
  assumes "fKeySet c" "length (chKey c) = 32" "length (chIV c) = 32" "1 \<le> n" "length salt = 8" "method \<noteq> 0"
  shows "SetKeyFromPassphrase V pass salt n method c = (False, \<lparr> chKey = replicate 32 0, chIV = replicate 32 0, fKeySet = True \<rparr>)"
proof -
  have "\<not> n < 1" using assms(4) by (simp only: not_less)
  then show ?thesis
    using assms by (cases c) (simp add: SetKeyFromPassphrase_def cleanse_def WALLET_CRYPTO_SALT_SIZE_def WALLET_CRYPTO_KEY_SIZE_def)
qed

subsection \<open>Witnesses\<close>

text \<open>A cipher that adds the first byte of the key to every byte and appends one block.\<close>

definition demo_evp :: "(bool \<times> byte) evp_ops" where
  "demo_evp = \<lparr> EVP_BytesToKey = (\<lambda>salt pass n. (32, replicate 32 (sum_list pass + sum_list salt), replicate 16 7)),
     EVP_EncryptInit = (\<lambda>k iv. Some (True, hd k)), EVP_EncryptUpdate = (\<lambda>p (b, k). Some (map (\<lambda>x. x + k) p, (b, k))),
     EVP_EncryptFinal = (\<lambda>_. Some (replicate 16 0)),
     EVP_DecryptInit = (\<lambda>k iv. Some (False, hd k)),
     EVP_DecryptUpdate = (\<lambda>c (b, k). Some (map (\<lambda>x. x - k) (take (length c - 16) c), (b, k))),
     EVP_DecryptFinal = (\<lambda>_. Some []) \<rparr>"

lemma demo_evp_ok: "evp_ok demo_evp"
  by (auto simp: evp_ok_def demo_evp_def comp_def)

theorem Secret_roundtrip_witness:
  "\<exists>ct. EncryptSecret demo_evp [] [] (replicate 32 3) [1, 2] 5 = Inr (Some ct) \<and>
    DecryptSecret demo_evp [] [] (replicate 32 3) ct 5 = Inr (Some [1, 2])"
  using Secret_roundtrip [OF demo_evp_ok, of "[1, 2]" "replicate 32 3"] by simp

theorem failed_derivation_leaves_zero_key_witness:
  "SetKeyFromPassphrase demo_evp [1] (replicate 8 1) 25000 1 \<lparr> chKey = replicate 32 9, chIV = replicate 32 9, fKeySet = True \<rparr> =
    (False, \<lparr> chKey = replicate 32 0, chIV = replicate 32 0, fKeySet = True \<rparr>)"
  by (rule failed_derivation_leaves_zero_key) simp_all

end
