(* ===== verification/Wallet.thy ===== *)
theory Wallet
  imports Validation Keys Base58 Crypter
begin

text \<open>
  The wallet (\<open>wallet.cpp\<close>).  Its header is missing: the classes are the sets of members the code uses, and
  the member functions defined there (whether an output is spent or ours, depths, credits) are the
  parameter \<open>wallet_env\<close>, as are the key store, of state \<open>'k\<close>, and the wallet file, of state \<open>'d\<close>.  The map of
  transactions is the list of its pairs in the order of the hashes.  Notifications of the user interface
  are output.
\<close>

subsection \<open>Transactions of the wallet\<close>

record CMerkleTx = CTransaction +
  mt_hashBlock :: uint256
  mt_vMerkleBranch :: "uint256 list"
  mt_nIndex :: int32

record CWalletTx = CMerkleTx +
  vtxPrev :: "CMerkleTx list"
  fTimeReceivedIsTxTime :: uint32
  nTimeReceived :: uint32
  nTimeSmart :: uint32
  fFromMe :: bool
  strFromAccount :: string
  vfSpent :: "bool list"
  nOrderPos :: int64

abbreviation tx_of :: "'a CTransaction_scheme \<Rightarrow> CTransaction" where
  "tx_of \<equiv> CTransaction.truncate"

lemma tx_of_simps [simp]:
  "vin (tx_of t) = vin t" "vout (tx_of t) = vout t" "nLockTime (tx_of t) = nLockTime t" "tx_nVersion (tx_of t) = tx_nVersion t"
  by (simp_all add: CTransaction.truncate_def)

record CKeyPool =
  kp_nTime :: int64
  kp_vchPubKey :: CPubKey

record ('k, 'd) CWallet =
  fFileBacked :: bool
  mapWallet :: "(uint256 \<times> CWalletTx) list"
  nOrderPosNext :: int64
  mapRequestCount :: "uint256 \<rightharpoonup> int32"
  mapAddressBook :: "CTxDestination \<rightharpoonup> string"
  vchDefaultKey :: CPubKey
  setLockedCoins :: "COutPoint set"
  setKeyPool :: "int64 set"
  nTimeFirstKey :: int64
  nWalletVersion :: int32
  nWalletMaxVersion :: int32
  mapMasterKeys :: "(uint32 \<times> CMasterKey) list"
  nMasterKeyMaxID :: uint32
  w_keys :: 'k
  w_db :: 'd

record ('k, 'd) wallet_env =
  we_chain :: chain_env
  we_height :: int32
  we_adjusted :: int64
  we_depth :: "CMerkleTx \<Rightarrow> int32"
  we_maturity :: "CMerkleTx \<Rightarrow> int32"
  we_IsSpent :: "nat \<Rightarrow> CWalletTx \<Rightarrow> bool"
  we_MarkSpent :: "nat \<Rightarrow> CWalletTx \<Rightarrow> CWalletTx"
  we_UpdateSpent :: "bool list \<Rightarrow> CWalletTx \<Rightarrow> bool \<times> CWalletTx"
  we_IsMine :: "'k \<Rightarrow> CTxOut \<Rightarrow> bool"
  we_IsMine_dest :: "'k \<Rightarrow> CTxDestination \<Rightarrow> bool"
  we_ExtractDestination :: "CScript \<Rightarrow> CTxDestination option"
  we_SetDestination :: "CTxDestination \<Rightarrow> CScript"
  we_IsConfirmed :: "('k, 'd) CWallet \<Rightarrow> CWalletTx \<Rightarrow> bool"
  we_GetDebit :: "('k, 'd) CWallet \<Rightarrow> CTransaction \<Rightarrow> int64"
  we_IsFromMe :: "('k, 'd) CWallet \<Rightarrow> CTransaction \<Rightarrow> bool"
  we_IsMine_tx :: "'k \<Rightarrow> CTransaction \<Rightarrow> bool"
  we_make :: "CTransaction \<Rightarrow> CWalletTx"
  we_GetAvailableCredit :: "('k, 'd) CWallet \<Rightarrow> CWalletTx \<Rightarrow> int64"
  we_GetImmatureCredit :: "('k, 'd) CWallet \<Rightarrow> CWalletTx \<Rightarrow> int64"
  we_GetValueOut :: "CTransaction \<Rightarrow> int64"
  we_WriteTx :: "uint256 \<Rightarrow> CWalletTx \<Rightarrow> 'd \<Rightarrow> bool \<times> 'd"
  we_EraseTx :: "uint256 \<Rightarrow> 'd \<Rightarrow> 'd"
  we_WriteOrderPosNext :: "int64 \<Rightarrow> 'd \<Rightarrow> 'd"
  we_WriteName :: "string \<Rightarrow> string \<Rightarrow> 'd \<Rightarrow> bool \<times> 'd"
  we_EraseName :: "string \<Rightarrow> 'd \<Rightarrow> bool \<times> 'd"

definition GetHash :: "('k, 'd) wallet_env \<Rightarrow> 'a CTransaction_scheme \<Rightarrow> uint256" where
  "GetHash E t = ce_txhash (we_chain E) (tx_of t)"

definition wtx_final :: "('k, 'd) wallet_env \<Rightarrow> 'a CTransaction_scheme \<Rightarrow> bool" where
  "wtx_final E t = IsFinalTx (we_chain E) (we_height E) (we_adjusted E) (tx_of t) 0 0"

abbreviation depth_of :: "('k, 'd) wallet_env \<Rightarrow> CWalletTx \<Rightarrow> int32" where
  "depth_of E w \<equiv> we_depth E (CMerkleTx.truncate w)"

text \<open>\<open>IsFromMe\<close> of a transaction in the wallet.\<close>

definition from_me :: "('k, 'd) wallet_env \<Rightarrow> ('k, 'd) CWallet \<Rightarrow> CWalletTx \<Rightarrow> bool" where
  "from_me E w t \<longleftrightarrow> we_IsFromMe E w (tx_of t)"

subsection \<open>Coins the user has locked\<close>

definition LockCoin :: "COutPoint \<Rightarrow> ('k, 'd) CWallet \<Rightarrow> ('k, 'd) CWallet" where
  "LockCoin outp w = w\<lparr> setLockedCoins := insert outp (setLockedCoins w) \<rparr>"

definition UnlockCoin :: "COutPoint \<Rightarrow> ('k, 'd) CWallet \<Rightarrow> ('k, 'd) CWallet" where
  "UnlockCoin outp w = w\<lparr> setLockedCoins := setLockedCoins w - {outp} \<rparr>"

definition UnlockAllCoins :: "('k, 'd) CWallet \<Rightarrow> ('k, 'd) CWallet" where
  "UnlockAllCoins w = w\<lparr> setLockedCoins := {} \<rparr>"

definition IsLockedCoin :: "('k, 'd) CWallet \<Rightarrow> uint256 \<Rightarrow> uint32 \<Rightarrow> bool" where
  "IsLockedCoin w h n \<longleftrightarrow> COutPoint h n \<in> setLockedCoins w"

subsection \<open>What is ours\<close>

definition IsMine_in :: "('k, 'd) wallet_env \<Rightarrow> ('k, 'd) CWallet \<Rightarrow> CTxIn \<Rightarrow> bool" where
  "IsMine_in E w txin =
     (case map_of (mapWallet w) (op_hash (prevout txin)) of
        None \<Rightarrow> False
      | Some prev \<Rightarrow>
          let n = unat (op_n (prevout txin))
          in n < length (vout prev) \<and> we_IsMine E (w_keys w) (vout prev ! n))"

definition GetDebit_in :: "('k, 'd) wallet_env \<Rightarrow> ('k, 'd) CWallet \<Rightarrow> CTxIn \<Rightarrow> int64" where
  "GetDebit_in E w txin =
     (case map_of (mapWallet w) (op_hash (prevout txin)) of
        None \<Rightarrow> 0
      | Some prev \<Rightarrow>
          let n = unat (op_n (prevout txin))
          in if n < length (vout prev) \<and> we_IsMine E (w_keys w) (vout prev ! n) then nValue (vout prev ! n) else 0)"

definition IsChange :: "('k, 'd) wallet_env \<Rightarrow> ('k, 'd) CWallet \<Rightarrow> CTxOut \<Rightarrow> bool" where
  "IsChange E w txout =
     (case we_ExtractDestination E (scriptPubKey txout) of
        None \<Rightarrow> False
      | Some address \<Rightarrow> we_IsMine_dest E (w_keys w) address \<and> mapAddressBook w address = None)"

subsection \<open>Balances\<close>

definition GetBalance :: "('k, 'd) wallet_env \<Rightarrow> ('k, 'd) CWallet \<Rightarrow> int64" where
  "GetBalance E w =
     (\<Sum>(h, t)\<leftarrow>mapWallet w. if we_IsConfirmed E w t then we_GetAvailableCredit E w t else 0)"

definition GetUnconfirmedBalance :: "('k, 'd) wallet_env \<Rightarrow> ('k, 'd) CWallet \<Rightarrow> int64" where
  "GetUnconfirmedBalance E w =
     (\<Sum>(h, t)\<leftarrow>mapWallet w. if \<not> wtx_final E t \<or> \<not> we_IsConfirmed E w t then we_GetAvailableCredit E w t else 0)"

definition GetImmatureBalance :: "('k, 'd) wallet_env \<Rightarrow> ('k, 'd) CWallet \<Rightarrow> int64" where
  "GetImmatureBalance E w = (\<Sum>(h, t)\<leftarrow>mapWallet w. we_GetImmatureCredit E w t)"

subsection \<open>A small wallet\<close>

text \<open>An instance for the examples: one transaction per wallet file entry, every output ours, \<open>vfSpent\<close> read as it is.\<close>

definition spent_at :: "nat \<Rightarrow> CWalletTx \<Rightarrow> bool" where
  "spent_at i t \<longleftrightarrow> i < length (vfSpent t) \<and> vfSpent t ! i"

definition wallet_tx :: "CTransaction \<Rightarrow> CWalletTx" where
  "wallet_tx t = \<lparr> tx_nVersion = tx_nVersion t, vin = vin t, vout = vout t, nLockTime = nLockTime t,
     mt_hashBlock = 0, mt_vMerkleBranch = [], mt_nIndex = - 1, vtxPrev = [], fTimeReceivedIsTxTime = 0, nTimeReceived = 0,
     nTimeSmart = 0, fFromMe = False, strFromAccount = [], vfSpent = [], nOrderPos = 0 \<rparr>"

definition demo_wallet_env :: "('k, 'd) wallet_env" where
  "demo_wallet_env = \<lparr> we_chain = demo_chain, we_height = 100, we_adjusted = 1000, we_depth = (\<lambda>_. 10), we_maturity = (\<lambda>_. 0),
     we_IsSpent = spent_at,
     we_MarkSpent = (\<lambda>i t. t\<lparr> vfSpent := (vfSpent t @ replicate (i + 1 - length (vfSpent t)) False)[i := True] \<rparr>),
     we_UpdateSpent = (\<lambda>v t. let u = map (\<lambda>i. vfSpent t ! i \<or> i < length v \<and> v ! i) [0..<length (vfSpent t)] in (u \<noteq> vfSpent t, t\<lparr> vfSpent := u \<rparr>)),
     we_IsMine = (\<lambda>_ _. True), we_IsMine_dest = (\<lambda>_ _. True), we_ExtractDestination = (\<lambda>_. Some (CKeyID 1)), we_SetDestination = (\<lambda>_. []),
     we_IsConfirmed = (\<lambda>_ _. True), we_GetDebit = (\<lambda>_ _. 0), we_IsFromMe = (\<lambda>_ _. False), we_IsMine_tx = (\<lambda>_ _. True), we_make = wallet_tx,
     we_GetAvailableCredit = (\<lambda>_ _. 0), we_GetImmatureCredit = (\<lambda>_ _. 0),
     we_GetValueOut = (\<lambda>t. \<Sum>out\<leftarrow>vout t. nValue out),
     we_WriteTx = (\<lambda>_ _ d. (True, d)), we_EraseTx = (\<lambda>_ d. d), we_WriteOrderPosNext = (\<lambda>_ d. d),
     we_WriteName = (\<lambda>_ _ d. (True, d)), we_EraseName = (\<lambda>_ d. (True, d)) \<rparr>"

definition demo_wallet :: "CWalletTx list \<Rightarrow> (unit, unit) CWallet" where
  "demo_wallet ts = \<lparr> fFileBacked = True, mapWallet = zip (map word_of_nat [1..<length ts + 1]) ts, nOrderPosNext = 0,
     mapRequestCount = (\<lambda>_. None), mapAddressBook = (\<lambda>_. None), vchDefaultKey = \<lparr> pk_vch = replicate 65 0xFF \<rparr>, setLockedCoins = {},
     setKeyPool = {}, nTimeFirstKey = 0, nWalletVersion = 0, nWalletMaxVersion = 0, mapMasterKeys = [], nMasterKeyMaxID = 0,
     w_keys = (), w_db = () \<rparr>"

definition demo_coin_tx :: "int64 \<Rightarrow> CWalletTx" where
  "demo_coin_tx v = wallet_tx \<lparr> tx_nVersion = 1, vin = [], vout = [\<lparr> nValue = v, scriptPubKey = [] \<rparr>], nLockTime = 0 \<rparr>"

end
