(* ===== verification/WalletCoins.thy ===== *)
theory WalletCoins
  imports Wallet "HOL-Library.Multiset"
begin

text \<open>
  Choosing the coins of a payment (\<open>wallet.cpp\<close>): the list of spendable outputs, the stochastic
  approximation of a best subset, and the selection with a required number of confirmations.  A pointer
  to a transaction of the wallet is the hash under which the wallet keeps it.  \<open>coin_env\<close> stands for what
  the result may depend on: \<open>random_shuffle\<close>, the order that \<open>sort\<close> gives coins of equal value, the bits of
  \<open>insecure_rand\<close> (by the number of the run and of the call in it), and the constant \<open>CENT\<close>.
\<close>

type_synonym coin_id = "uint256 \<times> nat"
type_synonym coin = "int64 \<times> coin_id"

record COutput =
  out_tx :: "uint256 \<times> CWalletTx"
  out_i :: nat
  out_nDepth :: int32

record coin_env =
  random_shuffle :: "COutput list \<Rightarrow> COutput list"
  sort_values :: "coin list \<Rightarrow> coin list"
  insecure_bit :: "nat \<Rightarrow> nat \<Rightarrow> bool"
  CENT :: int64

definition AvailableCoins :: "('k, 'd) wallet_env \<Rightarrow> bool \<Rightarrow> ('k, 'd) CWallet \<Rightarrow> COutput list" where
  "AvailableCoins E fOnlyConfirmed w =
     concat (map (\<lambda>(h, t).
       if \<not> wtx_final E t then []
       else if fOnlyConfirmed \<and> \<not> we_IsConfirmed E w t then []
       else if IsCoinBase (tx_of t) \<and> we_maturity E (CMerkleTx.truncate t) > 0 then []
       else map (\<lambda>i. \<lparr> out_tx = (h, t), out_i = i, out_nDepth = depth_of E t \<rparr>)
              (filter (\<lambda>i. \<not> we_IsSpent E i t \<and> we_IsMine E (w_keys w) (vout t ! i) \<and> \<not> IsLockedCoin w h (word_of_nat i) \<and>
                 nValue (vout t ! i) > 0) [0..<length (vout t)]))
       (mapWallet w))"

subsection \<open>The approximation\<close>

record approx =
  vfIncluded :: "bool list"
  nTotal :: int64
  fReachedTarget :: bool
  vfBest :: "bool list"
  nBest :: int64
  nCalls :: nat

text \<open>The body of the inner loop at position \<open>i\<close>; the first pass draws a bit, the second takes what the first left.\<close>

definition approx_visit :: "(nat \<Rightarrow> bool) \<Rightarrow> (int64 \<times> 'c) list \<Rightarrow> int64 \<Rightarrow> bool \<Rightarrow> nat \<Rightarrow> approx \<Rightarrow> approx" where
  "approx_visit rnd vValue nTargetValue fFirst i s0 =
     (let (add, s) = (if fFirst then (rnd (nCalls s0), s0\<lparr> nCalls := nCalls s0 + 1 \<rparr>) else (\<not> vfIncluded s0 ! i, s0)) in
      if add then
        let total = nTotal s + fst (vValue ! i); inc = (vfIncluded s)[i := True] in
        if total \<ge> nTargetValue then
          let s1 = (if total < nBest s then s\<lparr> nBest := total, vfBest := inc \<rparr> else s)
          in s1\<lparr> fReachedTarget := True, nTotal := total - fst (vValue ! i), vfIncluded := inc[i := False] \<rparr>
        else s\<lparr> nTotal := total, vfIncluded := inc \<rparr>
      else s)"

definition approx_round :: "(nat \<Rightarrow> bool) \<Rightarrow> (int64 \<times> 'c) list \<Rightarrow> int64 \<Rightarrow> approx \<Rightarrow> approx" where
  "approx_round rnd vValue nTargetValue s =
     (let s0 = s\<lparr> vfIncluded := replicate (length vValue) False, nTotal := 0, fReachedTarget := False \<rparr>;
          s1 = fold (approx_visit rnd vValue nTargetValue True) [0..<length vValue] s0
      in if fReachedTarget s1 then s1 else fold (approx_visit rnd vValue nTargetValue False) [0..<length vValue] s1)"

fun approx_rounds :: "(nat \<Rightarrow> bool) \<Rightarrow> (int64 \<times> 'c) list \<Rightarrow> int64 \<Rightarrow> nat \<Rightarrow> approx \<Rightarrow> approx" where
  "approx_rounds rnd vValue nTargetValue 0 s = s"
| "approx_rounds rnd vValue nTargetValue (Suc iterations) s =
     (if nBest s = nTargetValue then s
      else approx_rounds rnd vValue nTargetValue iterations (approx_round rnd vValue nTargetValue s))"

definition ApproximateBestSubset :: "(nat \<Rightarrow> bool) \<Rightarrow> (int64 \<times> 'c) list \<Rightarrow> int64 \<Rightarrow> int64 \<Rightarrow> nat \<Rightarrow> bool list \<times> int64" where
  "ApproximateBestSubset rnd vValue nTotalLower nTargetValue iterations =
     (let s = approx_rounds rnd vValue nTargetValue iterations
            \<lparr> vfIncluded = [], nTotal = 0, fReachedTarget = False, vfBest = replicate (length vValue) True,
              nBest = nTotalLower, nCalls = 0 \<rparr>
      in (vfBest s, nBest s))"

subsection \<open>Selection\<close>

datatype 'c classified = Exact 'c | Sorted_out "'c list" int64 "'c option"

text \<open>The first loop of \<open>SelectCoinsMinConf\<close>; no \<open>coinLowestLarger\<close> has the largest \<open>int64\<close> as its value.\<close>

fun classify :: "int64 \<Rightarrow> int64 \<Rightarrow> (int64 \<times> 'i) list \<Rightarrow> (int64 \<times> 'i) list \<Rightarrow> int64 \<Rightarrow> (int64 \<times> 'i) option \<Rightarrow> (int64 \<times> 'i) classified" where
  "classify nTargetValue cent [] vValue nTotalLower larger = Sorted_out vValue nTotalLower larger"
| "classify nTargetValue cent (c # cs) vValue nTotalLower larger =
     (if fst c = nTargetValue then Exact c
      else if fst c < nTargetValue + cent then classify nTargetValue cent cs (vValue @ [c]) (nTotalLower + fst c) larger
      else if fst c < (case larger of None \<Rightarrow> 2 ^ 63 - 1 | Some l \<Rightarrow> fst l) then
        classify nTargetValue cent cs vValue nTotalLower (Some c)
      else classify nTargetValue cent cs vValue nTotalLower larger)"

definition coin_of :: "COutput \<Rightarrow> coin" where
  "coin_of out = (nValue (vout (snd (out_tx out)) ! out_i out), (fst (out_tx out), out_i out))"

definition deep_enough :: "('k, 'd) wallet_env \<Rightarrow> ('k, 'd) CWallet \<Rightarrow> int32 \<Rightarrow> int32 \<Rightarrow> COutput \<Rightarrow> bool" where
  "deep_enough E w nConfMine nConfTheirs out \<longleftrightarrow>
     \<not> out_nDepth out < (if from_me E w (snd (out_tx out)) then nConfMine else nConfTheirs)"

definition chosen :: "coin list \<Rightarrow> coin_id set \<times> int64" where
  "chosen cs = (set (map snd cs), sum_list (map fst cs))"

text \<open>The rest of the function: the stochastic approximation, then a larger coin or the best subset.\<close>

definition approximate_choice :: "coin_env \<Rightarrow> int64 \<Rightarrow> coin list \<Rightarrow> int64 \<Rightarrow> coin option \<Rightarrow> coin list" where
  "approximate_choice C nTargetValue unsorted nTotalLower larger =
     (let vValue = sort_values C unsorted;
          (vfBest1, nBest1) = ApproximateBestSubset (insecure_bit C 0) vValue nTotalLower nTargetValue 1000;
          (vfBest, nBest) =
            (if nBest1 \<noteq> nTargetValue \<and> nTotalLower \<ge> nTargetValue + CENT C
             then ApproximateBestSubset (insecure_bit C 1) vValue nTotalLower (nTargetValue + CENT C) 1000
             else (vfBest1, nBest1))
      in case larger of
           Some l \<Rightarrow>
             if nBest \<noteq> nTargetValue \<and> nBest < nTargetValue + CENT C \<or> fst l \<le> nBest then [l]
             else map fst (filter snd (zip vValue vfBest))
         | None \<Rightarrow> map fst (filter snd (zip vValue vfBest)))"

definition SelectCoinsMinConf :: "('k, 'd) wallet_env \<Rightarrow> coin_env \<Rightarrow> ('k, 'd) CWallet \<Rightarrow> int64 \<Rightarrow> int32 \<Rightarrow> int32 \<Rightarrow> COutput list \<Rightarrow>
    bool \<times> coin_id set \<times> int64" where
  "SelectCoinsMinConf E C w nTargetValue nConfMine nConfTheirs vCoins =
     (case classify nTargetValue (CENT C)
          (map coin_of (filter (deep_enough E w nConfMine nConfTheirs) (random_shuffle C vCoins))) [] 0 None of
        Exact coin \<Rightarrow> (True, chosen [coin])
      | Sorted_out vValue nTotalLower larger \<Rightarrow>
          if nTotalLower = nTargetValue then (True, chosen vValue)
          else if nTotalLower < nTargetValue then
            (case larger of None \<Rightarrow> (False, {}, 0) | Some l \<Rightarrow> (True, chosen [l]))
          else (True, chosen (approximate_choice C nTargetValue vValue nTotalLower larger)))"

text \<open>\<open>only\<close> is the default of \<open>fOnlyConfirmed\<close> in the missing header; every attempt has its own random choices.\<close>

definition SelectCoins :: "('k, 'd) wallet_env \<Rightarrow> (nat \<Rightarrow> coin_env) \<Rightarrow> bool \<Rightarrow> ('k, 'd) CWallet \<Rightarrow> int64 \<Rightarrow> bool \<times> coin_id set \<times> int64" where
  "SelectCoins E C only w nTargetValue =
     (let vCoins = AvailableCoins E only w;
          r1 = SelectCoinsMinConf E (C 0) w nTargetValue 1 6 vCoins
      in if fst r1 then r1
         else let r2 = SelectCoinsMinConf E (C 1) w nTargetValue 1 1 vCoins
         in if fst r2 then r2 else SelectCoinsMinConf E (C 2) w nTargetValue 0 1 vCoins)"

subsection \<open>The approximation finds subsets that reach the target\<close>

definition selected :: "bool list \<Rightarrow> (int64 \<times> 'c) list \<Rightarrow> int64" where
  "selected bs vs = (\<Sum>i<length vs. if bs ! i then fst (vs ! i) else 0)"

lemma selected_upd:
  assumes "i < length vs" "length bs = length vs"
  shows "selected (bs[i := True]) vs = selected (bs[i := False]) vs + fst (vs ! i)"
proof -
  have "selected (bs[i := b]) vs = (if b then fst (vs ! i) else 0) + (\<Sum>j\<in>{..<length vs} - {i}. if bs ! j then fst (vs ! j) else 0)" for b
    using assms unfolding selected_def by (subst sum.remove [of _ i]) (auto intro!: sum.cong)
  then show ?thesis by simp
qed

lemma selected_filter:
  "length bs = length vs \<Longrightarrow> sum_list (map fst (map fst (filter snd (zip vs bs)))) = selected bs vs"
proof (induction vs arbitrary: bs)
  case (Cons v vs)
  then obtain b bs' where bs: "bs = b # bs'" by (cases bs) auto
  then have "selected bs (v # vs) = (if b then fst v else 0) + selected bs' vs"
    unfolding selected_def by (simp only: bs length_Cons sum.lessThan_Suc_shift) (simp cong: if_cong)
  with Cons bs show ?case by simp
qed (simp add: selected_def)

definition approx_ok :: "(int64 \<times> 'c) list \<Rightarrow> int64 \<Rightarrow> int64 \<Rightarrow> approx \<Rightarrow> bool" where
  "approx_ok vs target lower s \<longleftrightarrow> length (vfBest s) = length vs \<and> nBest s = selected (vfBest s) vs \<and>
     target \<le> nBest s \<and> nBest s \<le> lower"

definition trial_ok :: "(int64 \<times> 'c) list \<Rightarrow> approx \<Rightarrow> bool" where
  "trial_ok vs s \<longleftrightarrow> length (vfIncluded s) = length vs \<and> nTotal s = selected (vfIncluded s) vs"

lemma approx_visit_ok:
  assumes s: "approx_ok vs target lower s" "trial_ok vs s" and i: "i < length vs" "\<not> first \<or> \<not> vfIncluded s ! i"
  shows "approx_ok vs target lower (approx_visit rnd vs target first i s) \<and> trial_ok vs (approx_visit rnd vs target first i s) \<and>
    (\<forall>j\<noteq>i. vfIncluded (approx_visit rnd vs target first i s) ! j = vfIncluded s ! j)"
proof -
  have l: "length (vfIncluded s) = length vs" using s(2) by (simp add: trial_ok_def)
  have sel: "selected ((vfIncluded s)[i := True]) vs = selected (vfIncluded s) vs + fst (vs ! i)" if "\<not> vfIncluded s ! i"
    using selected_upd [OF i(1) l] that l i(1) list_update_same_conv [of i "vfIncluded s" False] by simp
  have old: "(vfIncluded s)[i := False] = vfIncluded s" if "\<not> vfIncluded s ! i"
    using that l i(1) list_update_same_conv [of i "vfIncluded s" False] by simp
  show ?thesis
    using s l i sel old unfolding approx_visit_def approx_ok_def trial_ok_def
    by (cases first) (auto simp: Let_def)
qed

lemma approx_pass_ok:
  assumes "approx_ok vs target lower s" "trial_ok vs s" "n \<le> length vs"
    and "first \<Longrightarrow> \<forall>j\<in>{k..<n}. \<not> vfIncluded s ! j"
  shows "approx_ok vs target lower (fold (approx_visit rnd vs target first) [k..<n] s) \<and>
    trial_ok vs (fold (approx_visit rnd vs target first) [k..<n] s)"
  using assms
proof (induction "n - k" arbitrary: k s)
  case (Suc m)
  then have k: "k < n" by simp
  let ?s = "approx_visit rnd vs target first k s"
  have "approx_ok vs target lower ?s \<and> trial_ok vs ?s \<and> (\<forall>j\<noteq>k. vfIncluded ?s ! j = vfIncluded s ! j)"
    using Suc.prems k by (intro approx_visit_ok) auto
  then have "approx_ok vs target lower (fold (approx_visit rnd vs target first) [Suc k..<n] ?s) \<and>
    trial_ok vs (fold (approx_visit rnd vs target first) [Suc k..<n] ?s)"
    using Suc by (intro Suc.hyps(1)) auto
  then show ?case using k by (simp add: upt_conv_Cons)
qed simp

lemma approx_round_ok:
  assumes "approx_ok vs target lower s"
  shows "approx_ok vs target lower (approx_round rnd vs target s)"
proof -
  let ?s0 = "s\<lparr> vfIncluded := replicate (length vs) False, nTotal := 0, fReachedTarget := False \<rparr>"
  have "approx_ok vs target lower ?s0" "trial_ok vs ?s0"
    using assms by (simp_all add: approx_ok_def trial_ok_def selected_def)
  then have "approx_ok vs target lower (fold (approx_visit rnd vs target True) [0..<length vs] ?s0) \<and>
      trial_ok vs (fold (approx_visit rnd vs target True) [0..<length vs] ?s0)"
    by (intro approx_pass_ok) simp_all
  then show ?thesis using approx_pass_ok [of vs target lower _ "length vs" False 0 rnd] by (simp add: approx_round_def Let_def)
qed

lemma ApproximateBestSubset_ok:
  assumes "target \<le> lower" "lower = sum_list (map fst vs)" "ApproximateBestSubset rnd vs lower target n = (bs, best)"
  shows "length bs = length vs \<and> best = selected bs vs \<and> target \<le> best \<and> best \<le> lower"
proof -
  let ?s = "\<lparr> vfIncluded = [], nTotal = 0, fReachedTarget = False, vfBest = replicate (length vs) True, nBest = lower, nCalls = 0 \<rparr>"
  have rounds: "approx_ok vs target lower (approx_rounds rnd vs target n s)" if "approx_ok vs target lower s" for s
    using that by (induction n arbitrary: s) (simp_all add: approx_round_ok)
  have "selected (replicate (length vs) True) vs = sum_list (map fst vs)"
    by (simp add: selected_def sum_list_sum_nth atLeast0LessThan)
  then have "approx_ok vs target lower ?s" using assms(1,2) by (simp add: approx_ok_def)
  from rounds [OF this] show ?thesis using assms(3) by (auto simp: ApproximateBestSubset_def approx_ok_def Let_def)
qed

subsection \<open>Selection\<close>

lemma picked_sublist:
  "set (map fst (filter snd (zip vs bs))) \<subseteq> set vs \<and> (distinct vs \<longrightarrow> distinct (map fst (filter snd (zip vs bs))))"
proof (induction vs arbitrary: bs)
  case (Cons v vs)
  show ?case
  proof (cases bs)
    case (Cons b bs')
    then show ?thesis using Cons.IH [of bs'] by auto
  qed simp
qed simp

lemma classify_spec:
  assumes "\<forall>x\<in>set xs. fst x < 2 ^ 63 - 1"
  shows "case classify T c xs vs l lg of
      Exact k \<Rightarrow> k \<in> set xs \<and> fst k = T
    | Sorted_out vs' l' lg' \<Rightarrow> vs' = vs @ filter (\<lambda>x. fst x < T + c) xs \<and>
        l' = l + sum_list (map fst (filter (\<lambda>x. fst x < T + c) xs)) \<and>
        (case lg' of None \<Rightarrow> lg = None \<and> (\<forall>x\<in>set xs. fst x < T + c) | Some k \<Rightarrow> lg = Some k \<or> k \<in> set xs \<and> T + c \<le> fst k)"
  using assms
proof (induction xs arbitrary: vs l lg)
  case Nil
  then show ?case by (cases lg) simp_all
next
  case (Cons x xs)
  have xs: "\<forall>x\<in>set xs. fst x < 2 ^ 63 - 1" using Cons.prems by simp
  consider "fst x = T" | "fst x \<noteq> T" "fst x < T + c" | "fst x \<noteq> T" "T + c \<le> fst x" by linarith
  then show ?case
  proof cases
    case 1
    then show ?thesis by simp
  next
    case 2
    then show ?thesis using Cons.IH [OF xs, where vs = "vs @ [x]" and l = "l + fst x" and lg = lg]
      by (auto split: classified.splits option.splits)
  next
    case 3
    then show ?thesis
      using Cons.IH [OF xs, where vs = vs and l = l and lg = lg] Cons.IH [OF xs, where vs = vs and l = l and lg = "Some x"] Cons.prems
      by (auto split: classified.splits option.splits)
  qed
qed

lemma mset_sum_map: "mset xs = mset ys \<Longrightarrow> sum_list (map f xs) = sum_list (map f ys)" for f :: "'a \<Rightarrow> int"
  by (metis mset_map sum_mset_sum_list)

definition coin_env_ok :: "coin_env \<Rightarrow> bool" where
  "coin_env_ok C \<longleftrightarrow> (\<forall>xs. mset (random_shuffle C xs) = mset xs) \<and> 0 < CENT C \<and>
     (\<forall>xs. mset (sort_values C xs) = mset xs \<and> sorted_wrt (\<lambda>a b. fst b \<le> fst a) (sort_values C xs))"

text \<open>A selection that succeeds on the coins \<open>es\<close>.\<close>

definition pays :: "coin list \<Rightarrow> int64 \<Rightarrow> bool \<times> coin_id set \<times> int64 \<Rightarrow> bool" where
  "pays es T r \<longleftrightarrow> (\<exists>S. distinct S \<and> set S \<subseteq> set es \<and> r = (True, chosen S) \<and> T \<le> sum_list (map fst S))"

lemma sum_sublist:
  assumes "distinct S" "set S \<subseteq> set es" "\<forall>c\<in>set es. 0 \<le> (fst c :: int)"
  shows "sum_list (map fst S) \<le> sum_list (map fst es)"
proof -
  have "sum_list (map fst S) = sum fst (set S)" using assms(1) by (simp add: sum_list_distinct_conv_sum_set)
  also have "\<dots> \<le> sum fst (set es)" using assms(2,3) by (intro sum_mono2) auto
  also have "\<dots> \<le> sum_list (map fst es)"
    using assms(3)
  proof (induction es)
    case (Cons e es)
    then have "0 \<le> fst e" "sum fst (set es) \<le> sum_list (map fst es)" by simp_all
    then show ?case by (cases "e \<in> set es") (auto simp: insert_absorb)
  qed simp
  finally show ?thesis .
qed

lemma pays_sum:
  assumes "pays es T r" "\<forall>c\<in>set es. 0 \<le> fst c"
  shows "fst r" "T \<le> sum_list (map fst es)"
proof -
  obtain S where "distinct S" "set S \<subseteq> set es" "r = (True, chosen S)" "T \<le> sum_list (map fst S)"
    using assms(1) unfolding pays_def by blast
  then show "fst r" "T \<le> sum_list (map fst es)" using sum_sublist [of S es] assms(2) by auto
qed

lemma subset_pays:
  assumes C: "coin_env_ok C" and vs: "distinct vs" "set vs \<subseteq> set es" and T: "T \<le> sum_list (map fst vs)"
    and best: "ApproximateBestSubset rnd (sort_values C vs) (sum_list (map fst vs)) T' 1000 = (bs, best)"
      "T \<le> T'" "T' \<le> sum_list (map fst vs)"
  shows "pays es T (True, chosen (map fst (filter snd (zip (sort_values C vs) bs))))"
proof -
  let ?vs = "sort_values C vs"
  have m: "mset ?vs = mset vs" using C by (simp add: coin_env_ok_def)
  then have s: "set ?vs = set vs" "distinct ?vs" "sum_list (map fst ?vs) = sum_list (map fst vs)"
    using vs(1) mset_eq_setD [OF m] mset_eq_imp_distinct_iff [OF m] mset_sum_map [OF m, of fst] by simp_all
  have "length bs = length ?vs \<and> best = selected bs ?vs \<and> T' \<le> best \<and> best \<le> sum_list (map fst vs)"
    using best s(3) by (intro ApproximateBestSubset_ok) simp_all
  then have "T \<le> sum_list (map fst (map fst (filter snd (zip ?vs bs))))"
    using selected_filter [of bs ?vs] best(2) by simp
  then show ?thesis
    using picked_sublist [of ?vs bs] s(1,2) vs(2) unfolding pays_def by blast
qed

lemma approximate_choice_pays:
  assumes C: "coin_env_ok C" and vs: "distinct vs" "set vs \<subseteq> set es" and T: "T \<le> l" and l: "l = sum_list (map fst vs)"
    and lg: "\<And>k. lg = Some k \<Longrightarrow> k \<in> set es \<and> T + CENT C \<le> fst k"
  shows "pays es T (True, chosen (approximate_choice C T vs l lg))"
proof -
  let ?A = "\<lambda>n T. ApproximateBestSubset (insecure_bit C n) (sort_values C vs) l T 1000"
  have cent: "0 < CENT C" using C by (simp add: coin_env_ok_def)
  have sub: "pays es T (True, chosen (map fst (filter snd (zip (sort_values C vs) (fst (?A n T'))))))"
    if "T \<le> T'" "T' \<le> l" for n T'
    using that T l by (intro subset_pays [OF C vs, where best = "snd (?A n T')"]) simp_all
  have one: "pays es T (True, chosen [k])" if "lg = Some k" for k
    unfolding pays_def using lg [OF that] cent by (intro exI [of _ "[k]"]) simp
  show ?thesis
    using sub [of T 0] sub [of "T + CENT C" 1] one T cent
    by (auto simp: approximate_choice_def Let_def split: option.splits prod.splits)
qed

lemma SelectCoinsMinConf_ok:
  assumes C: "coin_env_ok C" and es: "es = map coin_of (filter (deep_enough E w a b) vCoins)"
    and d: "distinct es" and v: "\<forall>c\<in>set es. 0 \<le> fst c \<and> fst c < 2 ^ 63 - 1"
  shows "if T \<le> sum_list (map fst es) then pays es T (SelectCoinsMinConf E C w T a b vCoins)
    else SelectCoinsMinConf E C w T a b vCoins = (False, {}, 0)"
proof -
  define xs where "xs = map coin_of (filter (deep_enough E w a b) (random_shuffle C vCoins))"
  have m: "mset xs = mset es" using C by (simp add: xs_def es coin_env_ok_def)
  then have s: "set xs = set es" "distinct xs" using d mset_eq_setD [OF m] mset_eq_imp_distinct_iff [OF m] by simp_all
  have cent: "0 < CENT C" using C by (simp add: coin_env_ok_def)
  note spec = classify_spec [where xs = xs and T = T and c = "CENT C" and vs = "[]" and l = 0 and lg = None]
  show ?thesis
  proof (cases "classify T (CENT C) xs [] 0 None")
    case (Exact k)
    then have k: "k \<in> set es" "fst k = T" using spec v s by simp_all
    then have "pays es T (True, chosen [k])" unfolding pays_def by (intro exI [of _ "[k]"]) simp
    moreover from this have "T \<le> sum_list (map fst es)" using pays_sum(2) v by blast
    ultimately show ?thesis using Exact by (simp add: SelectCoinsMinConf_def xs_def)
  next
    case (Sorted_out vs l lg)
    then have vs: "vs = filter (\<lambda>x. fst x < T + CENT C) xs" "l = sum_list (map fst vs)"
      and lg: "case lg of None \<Rightarrow> \<forall>x\<in>set xs. fst x < T + CENT C | Some k \<Rightarrow> k \<in> set xs \<and> T + CENT C \<le> fst k"
      using spec v s by (auto split: option.splits)
    have vs': "distinct vs" "set vs \<subseteq> set es" using vs(1) s by auto
    have total: "(\<forall>x\<in>set xs. fst x < T + CENT C) \<Longrightarrow> sum_list (map fst es) = l"
      using vs m mset_sum_map [OF m, of fst] by (simp add: filter_id_conv [THEN iffD2])
    have all: "T \<le> sum_list (map fst es)" if "pays es T r" for r using pays_sum(2) [OF that] v by blast
    show ?thesis
    proof (cases "l = T \<or> l < T")
      case False
      then have "T \<le> l" by linarith
      moreover have "k \<in> set es \<and> T + CENT C \<le> fst k" if "lg = Some k" for k using lg s(1) that by simp
      ultimately have "pays es T (True, chosen (approximate_choice C T vs l lg))"
        by (rule approximate_choice_pays [OF C vs' _ vs(2)])
      then show ?thesis using Sorted_out False all by (auto simp: SelectCoinsMinConf_def xs_def)
    next
      case True
      have eq: "pays es T (True, chosen vs)" if "l = T" unfolding pays_def using that vs' vs(2) by (intro exI [of _ vs]) simp
      have one: "pays es T (True, chosen [k])" if "lg = Some k" for k
        unfolding pays_def using that lg s(1) cent by (intro exI [of _ "[k]"]) simp
      show ?thesis
        using Sorted_out True eq one all total lg
        by (cases lg) (auto simp: SelectCoinsMinConf_def xs_def)
    qed
  qed
qed

subsection \<open>The wallet's coins\<close>

definition coin_value :: "('k, 'd) CWallet \<Rightarrow> coin_id \<Rightarrow> int64" where
  "coin_value w = (\<lambda>(h, i). nValue (vout (the (map_of (mapWallet w) h)) ! i))"

text \<open>The outputs of the wallet that may be spent, before the depth is looked at.\<close>

definition spendable :: "('k, 'd) wallet_env \<Rightarrow> bool \<Rightarrow> ('k, 'd) CWallet \<Rightarrow> uint256 \<Rightarrow> CWalletTx \<Rightarrow> nat \<Rightarrow> bool" where
  "spendable E only w h t i \<longleftrightarrow> (h, t) \<in> set (mapWallet w) \<and> wtx_final E t \<and> (only \<longrightarrow> we_IsConfirmed E w t) \<and>
     \<not> (IsCoinBase (tx_of t) \<and> we_maturity E (CMerkleTx.truncate t) > 0) \<and> i < length (vout t) \<and> \<not> we_IsSpent E i t \<and>
     we_IsMine E (w_keys w) (vout t ! i) \<and> \<not> IsLockedCoin w h (word_of_nat i) \<and> nValue (vout t ! i) > 0"

lemma AvailableCoins_iff:
  "out \<in> set (AvailableCoins E only w) \<longleftrightarrow>
     (\<exists>h t i. out = \<lparr> out_tx = (h, t), out_i = i, out_nDepth = depth_of E t \<rparr> \<and> spendable E only w h t i)"
  by (auto simp: AvailableCoins_def spendable_def split: if_splits prod.splits)

lemma distinct_coins_concat:
  assumes "distinct (map fst xs)" and f: "\<And>h t. distinct (map coin_of (f (h, t)))" "\<And>h t out. out \<in> set (f (h, t)) \<Longrightarrow> fst (out_tx out) = h"
  shows "distinct (map coin_of (concat (map f xs)))"
  using assms(1)
proof (induction xs)
  case (Cons x xs)
  obtain h t where x: "x = (h, t)" by (cases x)
  have "coin_of out \<noteq> coin_of out'" if o: "out \<in> set (f (h, t))" "out' \<in> set (concat (map f xs))" for out out'
  proof -
    obtain h' t' where h': "(h', t') \<in> set xs" "out' \<in> set (f (h', t'))" using o(2) by auto
    then have "h' \<noteq> h" using Cons.prems x by force
    then have "fst (out_tx out) \<noteq> fst (out_tx out')" using f(2) [OF o(1)] f(2) [OF h'(2)] by simp
    then show ?thesis by (auto simp: coin_of_def)
  qed
  then have "coin_of ` set (f (h, t)) \<inter> coin_of ` set (concat (map f xs)) = {}" by blast
  then show ?case using Cons f(1) [of h t] by (simp add: x)
qed simp

lemma AvailableCoins_distinct:
  assumes "distinct (map fst (mapWallet w))"
  shows "distinct (map coin_of (AvailableCoins E only w))"
  unfolding AvailableCoins_def
  by (rule distinct_coins_concat [OF assms]) (auto simp: coin_of_def distinct_map inj_on_def split: if_splits)

definition eligible :: "('k, 'd) wallet_env \<Rightarrow> bool \<Rightarrow> ('k, 'd) CWallet \<Rightarrow> int32 \<Rightarrow> int32 \<Rightarrow> coin_id set" where
  "eligible E only w mine theirs = {(h, i). \<exists>t. spendable E only w h t i \<and> (if from_me E w t then mine else theirs) \<le> depth_of E t}"


lemma eligible_coins:
  assumes d: "distinct (map fst (mapWallet w))"
    and es: "es = map coin_of (filter (deep_enough E w a b) (AvailableCoins E only w))"
  shows "distinct es" "\<And>c. c \<in> set es \<Longrightarrow> fst c = coin_value w (snd c) \<and> snd c \<in> eligible E only w a b \<and> 0 < fst c"
    "snd ` set es = eligible E only w a b" "sum_list (map fst es) = sum (coin_value w) (eligible E only w a b)"
proof -
  show de: "distinct es"
    using AvailableCoins_distinct [OF d, of E only] unfolding es by (rule distinct_map_filter)
  have mem: "c \<in> set es \<longleftrightarrow> (\<exists>h t i. c = (nValue (vout t ! i), (h, i)) \<and> spendable E only w h t i \<and>
      (if from_me E w t then a else b) \<le> depth_of E t)" for c
  proof -
    have out: "out \<in> set (filter (deep_enough E w a b) (AvailableCoins E only w)) \<longleftrightarrow>
        (\<exists>h t i. out = \<lparr> out_tx = (h, t), out_i = i, out_nDepth = depth_of E t \<rparr> \<and> spendable E only w h t i \<and>
          (if from_me E w t then a else b) \<le> depth_of E t)" for out
    proof -
      have "deep_enough E w a b \<lparr> out_tx = (h, t), out_i = i, out_nDepth = depth_of E t \<rparr> \<longleftrightarrow>
          (if from_me E w t then a else b) \<le> depth_of E t" for h t i
        by (simp add: deep_enough_def not_less)
      then show ?thesis unfolding set_filter mem_Collect_eq AvailableCoins_iff by metis
    qed
    have "c \<in> set es \<longleftrightarrow> (\<exists>h t i. c = coin_of \<lparr> out_tx = (h, t), out_i = i, out_nDepth = depth_of E t \<rparr> \<and> spendable E only w h t i \<and>
          (if from_me E w t then a else b) \<le> depth_of E t)"
      unfolding es set_map image_iff Bex_def out by blast
    then show ?thesis by (simp add: coin_of_def)
  qed
  have val: "coin_value w (h, i) = nValue (vout t ! i)" if "spendable E only w h t i" for h t i
  proof -
    have "map_of (mapWallet w) h = Some t" using that d by (simp add: spendable_def)
    then show ?thesis by (simp add: coin_value_def)
  qed
  show c: "fst c = coin_value w (snd c) \<and> snd c \<in> eligible E only w a b \<and> 0 < fst c" if in_es: "c \<in> set es" for c
  proof -
    obtain h t i where o: "c = (nValue (vout t ! i), (h, i))" "spendable E only w h t i" "(if from_me E w t then a else b) \<le> depth_of E t"
      using in_es unfolding mem by (elim exE conjE)
    moreover from this(2) have "0 < nValue (vout t ! i)" by (simp add: spendable_def)
    ultimately show ?thesis using val [OF o(2)] unfolding eligible_def by auto
  qed
  show ids: "snd ` set es = eligible E only w a b"
  proof (intro set_eqI iffI)
    fix q
    assume "q \<in> eligible E only w a b"
    then obtain h i t where q: "q = (h, i)" "spendable E only w h t i" "(if from_me E w t then a else b) \<le> depth_of E t"
      unfolding eligible_def by auto
    then have "(nValue (vout t ! i), q) \<in> set es" unfolding mem by (intro exI conjI) simp_all
    then show "q \<in> snd ` set es" by force
  qed (use c in blast)
  have "inj_on snd (set es)"
  proof (rule inj_onI)
    fix x y
    assume "x \<in> set es" "y \<in> set es" "snd x = snd y"
    then show "x = y" using c [of x] c [of y] by (auto intro: prod_eqI)
  qed
  then have "sum (coin_value w) (eligible E only w a b) = sum fst (set es)"
    using c unfolding ids [symmetric] by (simp add: sum.reindex)
  then show "sum_list (map fst es) = sum (coin_value w) (eligible E only w a b)"
    using de by (simp add: sum_list_distinct_conv_sum_set)
qed

text \<open>A selection that pays: coins out of those eligible, none twice, with the value returned and at least the
  target.\<close>

definition good_selection :: "('k, 'd) CWallet \<Rightarrow> coin_id set \<Rightarrow> int64 \<Rightarrow> bool \<times> coin_id set \<times> int64 \<Rightarrow> bool" where
  "good_selection w ids T r \<longleftrightarrow> (case r of (ok, S, v) \<Rightarrow> ok \<and> S \<subseteq> ids \<and> finite S \<and> v = sum (coin_value w) S \<and> T \<le> v)"

definition small_coins :: "('k, 'd) wallet_env \<Rightarrow> bool \<Rightarrow> ('k, 'd) CWallet \<Rightarrow> bool" where
  "small_coins E only w \<longleftrightarrow> distinct (map fst (mapWallet w)) \<and>
     (\<forall>h t i. spendable E only w h t i \<longrightarrow> nValue (vout t ! i) < 2 ^ 63 - 1)"

lemma MinConf_wallet:
  assumes C: "coin_env_ok C" and w: "small_coins E only w"
  shows "if T \<le> sum (coin_value w) (eligible E only w a b)
    then good_selection w (eligible E only w a b) T (SelectCoinsMinConf E C w T a b (AvailableCoins E only w))
    else SelectCoinsMinConf E C w T a b (AvailableCoins E only w) = (False, {}, 0)"
proof -
  define es where "es = map coin_of (filter (deep_enough E w a b) (AvailableCoins E only w))"
  have d: "distinct (map fst (mapWallet w))" using w by (simp add: small_coins_def)
  note es = eligible_coins [OF d es_def]
  have v: "\<forall>c\<in>set es. 0 \<le> fst c \<and> fst c < 2 ^ 63 - 1"
  proof
    fix c
    assume c: "c \<in> set es"
    then obtain out where "out \<in> set (AvailableCoins E only w)" "c = coin_of out" unfolding es_def by auto
    then have "fst c < 2 ^ 63 - 1" using w unfolding AvailableCoins_iff small_coins_def coin_of_def by auto
    then show "0 \<le> fst c \<and> fst c < 2 ^ 63 - 1" using es(2) [OF c] by simp
  qed
  have "good_selection w (eligible E only w a b) T r" if "pays es T r" for r
  proof -
    from that obtain S where S: "distinct S" "set S \<subseteq> set es" "r = (True, chosen S)" "T \<le> sum_list (map fst S)"
      unfolding pays_def by (elim exE conjE)
    have "inj_on snd (set S)"
    proof (rule inj_onI)
      fix x y
      assume xy: "x \<in> set S" "y \<in> set S" "snd x = snd y"
      then have "x \<in> set es" "y \<in> set es" using S(2) by blast+
      from es(2) [OF this(1)] es(2) [OF this(2)] xy(3) show "x = y" by (intro prod_eqI) simp_all
    qed
    then have "sum (coin_value w) (snd ` set S) = sum fst (set S)"
      using es(2) S(2) by (auto simp: sum.reindex intro!: sum.cong)
    also have "\<dots> = sum_list (map fst S)" using S(1) by (simp add: sum_list_distinct_conv_sum_set)
    finally have "sum (coin_value w) (snd ` set S) = sum_list (map fst S)" .
    moreover have "snd ` set S \<subseteq> eligible E only w a b" using S(2) es(2) by blast
    ultimately show ?thesis using S(3,4) by (simp add: good_selection_def chosen_def)
  qed
  then show ?thesis using SelectCoinsMinConf_ok [OF C es_def es(1) v, of T] es(4) by (auto split: if_splits)
qed

lemma eligible_mono: "a' \<le> a \<Longrightarrow> b' \<le> b \<Longrightarrow> eligible E only w a b \<subseteq> eligible E only w a' b'"
  by (fastforce simp: eligible_def split: if_splits)

lemma SelectCoins_ok:
  assumes "\<And>n. coin_env_ok (C n)" and "small_coins E only w"
  shows "if T \<le> sum (coin_value w) (eligible E only w 0 1) then good_selection w (eligible E only w 0 1) T (SelectCoins E C only w T)
    else SelectCoins E C only w T = (False, {}, 0)"
proof -
  note m = MinConf_wallet [OF assms(1) assms(2)]
  have d: "distinct (map fst (mapWallet w))" using assms(2) by (simp add: small_coins_def)
  note es = eligible_coins [OF d refl, where E = E and a = 0 and b = 1 and only = only]
  have fin: "finite (eligible E only w 0 1)" unfolding es(3) [symmetric] by simp
  have pos: "0 \<le> coin_value w c" if "c \<in> eligible E only w 0 1" for c
  proof -
    obtain x where "x \<in> set (map coin_of (filter (deep_enough E w 0 1) (AvailableCoins E only w)))" "c = snd x"
      using \<open>c \<in> _\<close> unfolding es(3) [symmetric] by (rule imageE)
    then show ?thesis using es(2) [of x] by simp
  qed
  have sub: "sum (coin_value w) (eligible E only w 1 b) \<le> sum (coin_value w) (eligible E only w 0 1)"
    "eligible E only w 1 b \<subseteq> eligible E only w 0 1" if "1 \<le> b" for b
    using eligible_mono [of 0 1 1 b E only w] that fin pos by (auto intro!: sum_mono2)
  have weaken: "good_selection w (eligible E only w 0 1) T r" if "good_selection w (eligible E only w 1 b) T r" "1 \<le> b" for r b
    using that sub(2) [of b] by (auto simp: good_selection_def)
  let ?r = "\<lambda>n a b. SelectCoinsMinConf E (C n) w T a b (AvailableCoins E only w)"
  let ?V = "sum (coin_value w) (eligible E only w 0 1)"
  have attempt: "if fst (?r n 1 b) then good_selection w (eligible E only w 0 1) T (?r n 1 b) \<and> T \<le> ?V else True" if "1 \<le> b" for n b
    using m [of T 1 b n] weaken [OF _ that] sub(1) [OF that] by (auto split: if_splits)
  have last: "if T \<le> ?V then good_selection w (eligible E only w 0 1) T (?r 2 0 1) else ?r 2 0 1 = (False, {}, 0)"
    by (rule m)
  show ?thesis
    using attempt [of 6 0] attempt [of 1 1] last by (simp add: SelectCoins_def Let_def split: if_splits)
qed

text \<open>C35. Selecting coins succeeds exactly if the spendable outputs, those of foreign transactions with one
  confirmation, are worth the target, whatever the random choices; the coins returned are spendable,
  distinct, and worth the value returned, which covers the target.\<close>

theorem SelectCoins_correct:
  assumes "\<And>n. coin_env_ok (C n)" and "small_coins E only w"
  shows "if T \<le> sum (coin_value w) (eligible E only w 0 1) then good_selection w (eligible E only w 0 1) T (SelectCoins E C only w T)
    else SelectCoins E C only w T = (False, {}, 0)"
  using SelectCoins_ok [OF assms] .

subsection \<open>Witness\<close>

definition demo_coins :: coin_env where
  "demo_coins = \<lparr> random_shuffle = rev, sort_values = (\<lambda>cs. rev (sort_key fst cs)), insecure_bit = (\<lambda>_ _. True), CENT = 1000000 \<rparr>"

lemma demo_coins_ok: "coin_env_ok demo_coins"
proof -
  have "sorted_wrt (\<lambda>a b. fst b \<le> fst a) (rev (sort_key fst cs))" for cs :: "coin list"
    using sorted_sort_key [of fst cs] unfolding sorted_map sorted_wrt_rev .
  then show ?thesis by (simp add: coin_env_ok_def demo_coins_def)
qed

theorem SelectCoins_correct_witness:
  "\<exists>S v. SelectCoins demo_wallet_env (\<lambda>_. demo_coins) True (demo_wallet [demo_coin_tx 5000000, demo_coin_tx 3000000]) 6000000 = (True, S, v) \<and>
     S \<subseteq> {(1, 0), (2, 0)} \<and> 6000000 \<le> v"
proof -
  let ?w = "demo_wallet [demo_coin_tx 5000000, demo_coin_tx 3000000]"
  have txs: "mapWallet ?w = [(1, demo_coin_tx 5000000), (2, demo_coin_tx 3000000)]"
    by (simp add: demo_wallet_def upt_rec)
  have sp: "spendable demo_wallet_env True ?w h t i \<longleftrightarrow> (h, t) \<in> set (mapWallet ?w) \<and> i = 0" for h t i
  proof -
    have "\<not> IsCoinBase (tx_of t)" "length (vout t) = 1" "nLockTime t = 0" "vfSpent t = []"
      "0 < nValue (vout t ! 0)" if "(h, t) \<in> set (mapWallet ?w)"
      using that unfolding txs by (auto simp: demo_coin_tx_def wallet_tx_def IsCoinBase_def)
    moreover have "setLockedCoins ?w = {}" by (simp add: demo_wallet_def)
    ultimately show ?thesis
      by (auto simp: spendable_def demo_wallet_env_def wtx_final_def IsFinalTx_def spent_at_def IsLockedCoin_def)
  qed
  have el: "eligible demo_wallet_env True ?w 0 1 = {(1, 0), (2, 0)}"
    unfolding eligible_def sp txs by (auto simp: demo_wallet_env_def)
  have ok: "small_coins demo_wallet_env True ?w"
    unfolding small_coins_def sp txs by (auto simp: demo_coin_tx_def wallet_tx_def)
  have "coin_value ?w (1, 0) = 5000000" "coin_value ?w (2, 0) = 3000000"
    unfolding coin_value_def txs by (simp_all add: demo_coin_tx_def wallet_tx_def)
  then have "sum (coin_value ?w) {(1, 0), (2, 0)} = 8000000" by simp
  then show ?thesis
    using SelectCoins_correct [OF demo_coins_ok ok, of 6000000] unfolding el by (auto simp: good_selection_def)
qed

end
