(* ===== verification/KeyPool.thy ===== *)
theory KeyPool
  imports WalletCoins
begin

text \<open>
  New keys and the key pool of the wallet (\<open>wallet.cpp\<close>).  A call gives a result or a fault together with
  the wallet it leaves, because the changes made before an exception stay.  \<open>key_env\<close> holds the key store
  (of the missing \<open>keystore.cpp\<close>; its state includes the random generator), the records of the wallet
  file, the time and the settings.
\<close>

type_synonym ('k, 'd, 'a) wm = "('k, 'd) CWallet \<Rightarrow> 'a res \<times> ('k, 'd) CWallet"

definition wret :: "'a \<Rightarrow> ('k, 'd, 'a) wm" where
  "wret x w = (Inr x, w)"

definition wthrow :: "fault \<Rightarrow> ('k, 'd, 'a) wm" where
  "wthrow e w = (Inl e, w)"

definition wbind :: "('k, 'd, 'a) wm \<Rightarrow> ('a \<Rightarrow> ('k, 'd, 'b) wm) \<Rightarrow> ('k, 'd, 'b) wm" where
  "wbind m f w = (case m w of (Inl e, w1) \<Rightarrow> (Inl e, w1) | (Inr x, w1) \<Rightarrow> f x w1)"

definition wget :: "(('k, 'd) CWallet \<Rightarrow> 'a) \<Rightarrow> ('k, 'd, 'a) wm" where
  "wget g w = (Inr (g w), w)"

definition wmod :: "(('k, 'd) CWallet \<Rightarrow> ('k, 'd) CWallet) \<Rightarrow> ('k, 'd, unit) wm" where
  "wmod g w = (Inr (), g w)"

definition wlift :: "'a res \<Rightarrow> ('k, 'd, 'a) wm" where
  "wlift r w = (r, w)"

text \<open>A call of the key store or of the wallet file.\<close>

definition wkeys :: "('k \<Rightarrow> 'a \<times> 'k) \<Rightarrow> ('k, 'd, 'a) wm" where
  "wkeys f w = (case f (w_keys w) of (x, k) \<Rightarrow> (Inr x, w\<lparr> w_keys := k \<rparr>))"

definition wdb :: "('d \<Rightarrow> 'a \<times> 'd) \<Rightarrow> ('k, 'd, 'a) wm" where
  "wdb f w = (case f (w_db w) of (x, d) \<Rightarrow> (Inr x, w\<lparr> w_db := d \<rparr>))"

record ('k, 'd) key_env =
  ke_ec :: ec_ops
  ke_id :: "CPubKey \<Rightarrow> uint160"
  ke_MakeNewKey :: "bool \<Rightarrow> 'k \<Rightarrow> CKey \<times> 'k"
  ke_AddKeyPubKey :: "CKey \<Rightarrow> CPubKey \<Rightarrow> 'k \<Rightarrow> bool \<times> 'k"
  ke_AddCryptedKey :: "CPubKey \<Rightarrow> bytes \<Rightarrow> 'k \<Rightarrow> bool \<times> 'k"
  ke_AddCScript :: "CScript \<Rightarrow> 'k \<Rightarrow> bool \<times> 'k"
  ke_IsCrypted :: "'k \<Rightarrow> bool"
  ke_IsLocked :: "'k \<Rightarrow> bool"
  ke_HaveKey :: "uint160 \<Rightarrow> 'k \<Rightarrow> bool"
  ke_WriteKey :: "CPubKey \<Rightarrow> bytes \<Rightarrow> int64 \<Rightarrow> 'd \<Rightarrow> bool \<times> 'd"
  ke_WriteCryptedKey :: "CPubKey \<Rightarrow> bytes \<Rightarrow> int64 \<Rightarrow> 'd \<Rightarrow> bool \<times> 'd"
  ke_WriteCScript :: "CScript \<Rightarrow> 'd \<Rightarrow> bool \<times> 'd"
  ke_WriteDefaultKey :: "CPubKey \<Rightarrow> 'd \<Rightarrow> bool \<times> 'd"
  ke_WriteCorruptAddress :: "'d \<Rightarrow> 'd"
  ke_WriteMinVersion :: "int32 \<Rightarrow> 'd \<Rightarrow> 'd"
  ke_WritePool :: "int64 \<Rightarrow> CKeyPool \<Rightarrow> 'd \<Rightarrow> bool \<times> 'd"
  ke_ReadPool :: "int64 \<Rightarrow> 'd \<Rightarrow> CKeyPool option"
  ke_ErasePool :: "int64 \<Rightarrow> 'd \<Rightarrow> 'd"
  ke_CKeyPool :: "CPubKey \<Rightarrow> CKeyPool"
  ke_CanSupport :: "int32 \<Rightarrow> int32 \<Rightarrow> bool"
  FEATURE_COMPRPUBKEY :: int32
  FEATURE_LATEST :: int32
  ke_GetTime :: int64
  ke_default_time :: int64
  ke_keypool :: int64

subsection \<open>Versions and keys\<close>

definition SetMinVersion :: "('k, 'd) key_env \<Rightarrow> int32 \<Rightarrow> bool \<Rightarrow> ('k, 'd) CWallet \<Rightarrow> ('k, 'd) CWallet" where
  "SetMinVersion K version fExplicit w =
     (if nWalletVersion w \<ge> version then w
      else
        let v = (if fExplicit \<and> version > nWalletMaxVersion w then FEATURE_LATEST K else version);
            w1 = w\<lparr> nWalletVersion := v, nWalletMaxVersion := (if v > nWalletMaxVersion w then v else nWalletMaxVersion w) \<rparr>
        in if fFileBacked w then
             let w2 = (if v \<ge> 40000 then w1\<lparr> w_db := ke_WriteCorruptAddress K (w_db w1) \<rparr> else w1)
             in if v > 40000 then w2\<lparr> w_db := ke_WriteMinVersion K v (w_db w2) \<rparr> else w2
           else w1)"

definition SetMaxVersion :: "int32 \<Rightarrow> ('k, 'd) CWallet \<Rightarrow> bool \<times> ('k, 'd) CWallet" where
  "SetMaxVersion version w =
     (if nWalletVersion w > version then (False, w) else (True, w\<lparr> nWalletMaxVersion := version \<rparr>))"

text \<open>\<open>nCreateTime\<close> zero means now; the first key's time is the least of all.\<close>

definition note_key_time :: "('k, 'd) key_env \<Rightarrow> int64 \<Rightarrow> int64 \<times> ('k, 'd) CWallet \<Rightarrow> int64 \<times> ('k, 'd) CWallet" where
  "note_key_time K nCreateTime p =
     (let t = (if nCreateTime = 0 then ke_GetTime K else nCreateTime); w = snd p in
      (t, if nTimeFirstKey w = 0 \<or> t < nTimeFirstKey w then w\<lparr> nTimeFirstKey := t \<rparr> else w))"

definition AddKeyPubKey :: "('k, 'd) key_env \<Rightarrow> CKey \<Rightarrow> CPubKey \<Rightarrow> int64 \<Rightarrow> ('k, 'd, bool) wm" where
  "AddKeyPubKey K secret pubkey nCreateTime w0 =
     (case note_key_time K nCreateTime (0, w0) of (t, w) \<Rightarrow>
        wbind (wkeys (ke_AddKeyPubKey K secret pubkey)) (\<lambda>ok.
          if \<not> ok then wret False
          else wbind (wget (\<lambda>w. (fFileBacked w, ke_IsCrypted K (w_keys w)))) (\<lambda>(backed, crypted).
            if \<not> backed then wret True
            else if \<not> crypted then
              wbind (wlift (CKey_GetPrivKey (ke_ec K) secret)) (\<lambda>priv. wdb (ke_WriteKey K pubkey priv t))
            else wret True)) w)"

definition AddCryptedKey :: "('k, 'd) key_env \<Rightarrow> CPubKey \<Rightarrow> bytes \<Rightarrow> int64 \<Rightarrow> ('k, 'd, bool) wm" where
  "AddCryptedKey K vchPubKey vchCryptedSecret nCreateTime w0 =
     (case note_key_time K nCreateTime (0, w0) of (t, w) \<Rightarrow>
        wbind (wkeys (ke_AddCryptedKey K vchPubKey vchCryptedSecret)) (\<lambda>ok.
          if \<not> ok then wret False
          else wbind (wget fFileBacked) (\<lambda>backed.
            if \<not> backed then wret True else wdb (ke_WriteCryptedKey K vchPubKey vchCryptedSecret t))) w)"

definition AddCScript :: "('k, 'd) key_env \<Rightarrow> CScript \<Rightarrow> ('k, 'd, bool) wm" where
  "AddCScript K redeemScript =
     wbind (wkeys (ke_AddCScript K redeemScript)) (\<lambda>ok.
       if \<not> ok then wret False
       else wbind (wget fFileBacked) (\<lambda>backed. if \<not> backed then wret True else wdb (ke_WriteCScript K redeemScript)))"

definition SetDefaultKey :: "('k, 'd) key_env \<Rightarrow> CPubKey \<Rightarrow> ('k, 'd, bool) wm" where
  "SetDefaultKey K vchPubKey =
     wbind (wget fFileBacked) (\<lambda>backed.
       wbind (if backed then wdb (ke_WriteDefaultKey K vchPubKey) else wret True) (\<lambda>ok.
         if \<not> ok then wret False
         else wbind (wmod (\<lambda>w. w\<lparr> vchDefaultKey := vchPubKey \<rparr>)) (\<lambda>_. wret True)))"

definition GenerateNewKey :: "('k, 'd) key_env \<Rightarrow> ('k, 'd, CPubKey) wm" where
  "GenerateNewKey K =
     wbind (wget (\<lambda>w. ke_CanSupport K (nWalletMaxVersion w) (FEATURE_COMPRPUBKEY K))) (\<lambda>compressed.
     wbind (wkeys (ke_MakeNewKey K compressed)) (\<lambda>secret.
     wbind (wmod (if compressed then SetMinVersion K (FEATURE_COMPRPUBKEY K) False else id)) (\<lambda>_.
     wbind (wlift (CKey_GetPubKey (ke_ec K) secret)) (\<lambda>pubkey.
     wbind (AddKeyPubKey K secret pubkey (ke_default_time K)) (\<lambda>ok.
       if \<not> ok then wthrow (Thrown ''CWallet::GenerateNewKey() : AddKey failed'') else wret pubkey)))))"

subsection \<open>The pool\<close>

text \<open>\<open>nKeys\<close> counts the keys to write in \<open>NewKeyPool\<close>; the result of \<open>WritePool\<close> is not looked at.\<close>

primrec new_pool_keys :: "('k, 'd) key_env \<Rightarrow> int64 list \<Rightarrow> ('k, 'd, unit) wm" where
  "new_pool_keys K [] = wret ()"
| "new_pool_keys K (i # is) =
     wbind (GenerateNewKey K) (\<lambda>pubkey.
     wbind (wdb (ke_WritePool K (i + 1) (ke_CKeyPool K pubkey))) (\<lambda>_.
     wbind (wmod (\<lambda>w. w\<lparr> setKeyPool := insert (i + 1) (setKeyPool w) \<rparr>)) (\<lambda>_. new_pool_keys K is)))"

definition NewKeyPool :: "('k, 'd) key_env \<Rightarrow> ('k, 'd, bool) wm" where
  "NewKeyPool K =
     wbind (wmod (\<lambda>w. w\<lparr> w_db := fold (ke_ErasePool K) (sorted_list_of_set (setKeyPool w)) (w_db w), setKeyPool := {} \<rparr>)) (\<lambda>_.
     wbind (wget (\<lambda>w. ke_IsLocked K (w_keys w))) (\<lambda>locked.
       if locked then wret False
       else wbind (new_pool_keys K (map int [0..<nat (max (ke_keypool K) 0)])) (\<lambda>_. wret True)))"

text \<open>The loop of \<open>TopUpKeyPool\<close>; none if it does not end.\<close>

partial_function (option) top_up :: "('k, 'd) key_env \<Rightarrow> nat \<Rightarrow> ('k, 'd) CWallet \<Rightarrow> (unit res \<times> ('k, 'd) CWallet) option" where
  "top_up K nTargetSize w =
     (if card (setKeyPool w) < nTargetSize + 1 then
        let nEnd = (if setKeyPool w \<noteq> {} then Max (setKeyPool w) + 1 else 1) in
        (case wbind (GenerateNewKey K) (\<lambda>pubkey. wdb (ke_WritePool K nEnd (ke_CKeyPool K pubkey))) w of
           (Inl e, w1) \<Rightarrow> Some (Inl e, w1)
         | (Inr ok, w1) \<Rightarrow>
             if \<not> ok then Some (Inl (Thrown ''TopUpKeyPool() : writing generated key failed''), w1)
             else top_up K nTargetSize (w1\<lparr> setKeyPool := insert nEnd (setKeyPool w1) \<rparr>))
      else Some (Inr (), w))"

declare top_up.simps [code]

text \<open>\<open>NoReturn\<close> stands for a loop that does not end.\<close>

definition TopUpKeyPool :: "('k, 'd) key_env \<Rightarrow> ('k, 'd, bool) wm" where
  "TopUpKeyPool K w =
     (if ke_IsLocked K (w_keys w) then (Inr False, w)
      else case top_up K (nat (max (ke_keypool K) 0)) w of
        None \<Rightarrow> (Inl NoReturn, w)
      | Some (Inl e, w1) \<Rightarrow> (Inl e, w1)
      | Some (Inr _, w1) \<Rightarrow> (Inr True, w1))"

text \<open>The index is an output that is set before the calls that may throw; \<open>key0\<close> is the key of the default
  constructor, and \<open>ke_GetTime\<close> the time of a default record.\<close>

definition key0 :: CPubKey where
  "key0 = \<lparr> pk_vch = replicate 65 0xFF \<rparr>"

definition ReserveKeyFromKeyPool :: "('k, 'd) key_env \<Rightarrow> ('k, 'd) CWallet \<Rightarrow> int64 \<times> CKeyPool res \<times> ('k, 'd) CWallet" where
  "ReserveKeyFromKeyPool K w =
     (case (if \<not> ke_IsLocked K (w_keys w) then TopUpKeyPool K w else (Inr True, w)) of
        (Inl e, w1) \<Rightarrow> (- 1, Inl e, w1)
      | (Inr _, w1) \<Rightarrow>
          if setKeyPool w1 = {} then (- 1, Inr \<lparr> kp_nTime = ke_GetTime K, kp_vchPubKey = key0 \<rparr>, w1)
          else
            let nIndex = Min (setKeyPool w1); w2 = w1\<lparr> setKeyPool := setKeyPool w1 - {nIndex} \<rparr> in
            case ke_ReadPool K nIndex (w_db w2) of
              None \<Rightarrow> (nIndex, Inl (Thrown ''ReserveKeyFromKeyPool() : read failed''), w2)
            | Some keypool \<Rightarrow>
                if \<not> ke_HaveKey K (ke_id K (kp_vchPubKey keypool)) (w_keys w2) then
                  (nIndex, Inl (Thrown ''ReserveKeyFromKeyPool() : unknown key in key pool''), w2)
                else if \<not> CPubKey_IsValid (kp_vchPubKey keypool) then (nIndex, Inl AssertFailed, w2)
                else (nIndex, Inr keypool, w2))"

text \<open>\<open>--setKeyPool.end()\<close> of an empty set is undefined.\<close>

definition AddReserveKey :: "('k, 'd) key_env \<Rightarrow> CKeyPool \<Rightarrow> ('k, 'd, int64) wm" where
  "AddReserveKey K keypool w =
     (if setKeyPool w = {} then (Inl OutOfRange, w)
      else let nIndex = 1 + Max (setKeyPool w) in
        wbind (wdb (ke_WritePool K nIndex keypool)) (\<lambda>ok.
          if \<not> ok then wthrow (Thrown ''AddReserveKey() : writing added key failed'')
          else wbind (wmod (\<lambda>w. w\<lparr> setKeyPool := insert nIndex (setKeyPool w) \<rparr>)) (\<lambda>_. wret nIndex)) w)"

definition KeepKey :: "('k, 'd) key_env \<Rightarrow> int64 \<Rightarrow> ('k, 'd) CWallet \<Rightarrow> ('k, 'd) CWallet" where
  "KeepKey K nIndex w = (if fFileBacked w then w\<lparr> w_db := ke_ErasePool K nIndex (w_db w) \<rparr> else w)"

definition ReturnKey :: "int64 \<Rightarrow> ('k, 'd) CWallet \<Rightarrow> ('k, 'd) CWallet" where
  "ReturnKey nIndex w = w\<lparr> setKeyPool := insert nIndex (setKeyPool w) \<rparr>"

definition GetKeyFromPool :: "('k, 'd) key_env \<Rightarrow> bool \<Rightarrow> ('k, 'd, CPubKey option) wm" where
  "GetKeyFromPool K fAllowReuse w =
     (case ReserveKeyFromKeyPool K w of
        (nIndex, Inl e, w1) \<Rightarrow> (Inl e, w1)
      | (nIndex, Inr keypool, w1) \<Rightarrow>
          if nIndex = - 1 then
            if fAllowReuse \<and> CPubKey_IsValid (vchDefaultKey w1) then (Inr (Some (vchDefaultKey w1)), w1)
            else if ke_IsLocked K (w_keys w1) then (Inr None, w1)
            else wbind (GenerateNewKey K) (\<lambda>result. wret (Some result)) w1
          else (Inr (Some (kp_vchPubKey keypool)), KeepKey K nIndex w1))"

definition GetOldestKeyPoolTime :: "('k, 'd) key_env \<Rightarrow> ('k, 'd, int64) wm" where
  "GetOldestKeyPoolTime K w =
     (case ReserveKeyFromKeyPool K w of
        (nIndex, Inl e, w1) \<Rightarrow> (Inl e, w1)
      | (nIndex, Inr keypool, w1) \<Rightarrow>
          if nIndex = - 1 then (Inr (ke_GetTime K), w1) else (Inr (kp_nTime keypool), ReturnKey nIndex w1))"

primrec all_reserve_keys :: "('k, 'd) key_env \<Rightarrow> ('k, 'd) CWallet \<Rightarrow> int64 list \<Rightarrow> uint160 set \<Rightarrow> uint160 set res" where
  "all_reserve_keys K w [] acc = Inr acc"
| "all_reserve_keys K w (i # is) acc =
     (case ke_ReadPool K i (w_db w) of
        None \<Rightarrow> Inl (Thrown ''GetAllReserveKeyHashes() : read failed'')
      | Some kp \<Rightarrow>
          if \<not> CPubKey_IsValid (kp_vchPubKey kp) then Inl AssertFailed
          else if \<not> ke_HaveKey K (ke_id K (kp_vchPubKey kp)) (w_keys w) then
            Inl (Thrown ''GetAllReserveKeyHashes() : unknown key in key pool'')
          else all_reserve_keys K w is (insert (ke_id K (kp_vchPubKey kp)) acc))"

definition GetAllReserveKeys :: "('k, 'd) key_env \<Rightarrow> ('k, 'd) CWallet \<Rightarrow> uint160 set res" where
  "GetAllReserveKeys K w = all_reserve_keys K w (sorted_list_of_set (setKeyPool w)) {}"

subsection \<open>\<open>CReserveKey\<close>\<close>

record CReserveKey =
  rk_nIndex :: int64
  rk_vchPubKey :: CPubKey

definition CReserveKey_make :: CReserveKey where
  "CReserveKey_make = \<lparr> rk_nIndex = - 1, rk_vchPubKey = key0 \<rparr>"

text \<open>None is the result \<open>false\<close>.\<close>

definition GetReservedKey :: "('k, 'd) key_env \<Rightarrow> CReserveKey \<Rightarrow> ('k, 'd) CWallet \<Rightarrow> CPubKey option res \<times> CReserveKey \<times> ('k, 'd) CWallet" where
  "GetReservedKey K rk w =
     (let (found, rk1, w1) =
        (if rk_nIndex rk = - 1 then
           (case ReserveKeyFromKeyPool K w of
              (i, Inl e, w1) \<Rightarrow> (Inl e, rk\<lparr> rk_nIndex := i \<rparr>, w1)
            | (i, Inr keypool, w1) \<Rightarrow>
                if i \<noteq> - 1 then (Inr True, rk\<lparr> rk_nIndex := i, rk_vchPubKey := kp_vchPubKey keypool \<rparr>, w1)
                else if CPubKey_IsValid (vchDefaultKey w1) then (Inr True, rk\<lparr> rk_nIndex := i, rk_vchPubKey := vchDefaultKey w1 \<rparr>, w1)
                else (Inr False, rk\<lparr> rk_nIndex := i \<rparr>, w1))
         else (Inr True, rk, w))
      in (case found of
            Inl e \<Rightarrow> (Inl e, rk1, w1)
          | Inr False \<Rightarrow> (Inr None, rk1, w1)
          | Inr True \<Rightarrow> if CPubKey_IsValid (rk_vchPubKey rk1) then (Inr (Some (rk_vchPubKey rk1)), rk1, w1)
                       else (Inl AssertFailed, rk1, w1)))"

definition Reserve_KeepKey :: "('k, 'd) key_env \<Rightarrow> CReserveKey \<Rightarrow> ('k, 'd) CWallet \<Rightarrow> CReserveKey \<times> ('k, 'd) CWallet" where
  "Reserve_KeepKey K rk w =
     (CReserveKey_make, if rk_nIndex rk \<noteq> - 1 then KeepKey K (rk_nIndex rk) w else w)"

definition Reserve_ReturnKey :: "CReserveKey \<Rightarrow> ('k, 'd) CWallet \<Rightarrow> CReserveKey \<times> ('k, 'd) CWallet" where
  "Reserve_ReturnKey rk w =
     (CReserveKey_make, if rk_nIndex rk \<noteq> - 1 then ReturnKey (rk_nIndex rk) w else w)"

subsection \<open>Calls that leave the pool alone\<close>

definition same_keys :: "('k, 'd) key_env \<Rightarrow> 'k \<Rightarrow> 'k \<Rightarrow> bool" where
  "same_keys K k k' \<longleftrightarrow> ke_IsLocked K k' = ke_IsLocked K k \<and> (\<forall>i. ke_HaveKey K i k \<longrightarrow> ke_HaveKey K i k')"

definition same_pool :: "('k, 'd) key_env \<Rightarrow> ('k, 'd) CWallet \<Rightarrow> ('k, 'd) CWallet \<Rightarrow> bool" where
  "same_pool K w w' \<longleftrightarrow> setKeyPool w' = setKeyPool w \<and> (\<forall>i. ke_ReadPool K i (w_db w') = ke_ReadPool K i (w_db w)) \<and>
     same_keys K (w_keys w) (w_keys w')"

text \<open>What the key store and the wallet file promise: a new key is valid and has a valid public key; keys added
  are found and none is lost; a pool record written is read back and stays until it is erased.\<close>

definition key_env_ok :: "('k, 'd) key_env \<Rightarrow> bool" where
  "key_env_ok K \<longleftrightarrow>
     (\<forall>c k. fValid (fst (ke_MakeNewKey K c k)) \<and> same_keys K k (snd (ke_MakeNewKey K c k))) \<and>
     (\<forall>s p k. same_keys K k (snd (ke_AddKeyPubKey K s p k)) \<and>
        (fst (ke_AddKeyPubKey K s p k) \<longrightarrow> ke_HaveKey K (ke_id K p) (snd (ke_AddKeyPubKey K s p k)))) \<and>
     (\<forall>s p. CKey_GetPubKey (ke_ec K) s = Inr p \<longrightarrow> CPubKey_IsValid p) \<and>
     (\<forall>p b n i d. ke_ReadPool K i (snd (ke_WriteKey K p b n d)) = ke_ReadPool K i d) \<and>
     (\<forall>i d. ke_ReadPool K i (ke_WriteCorruptAddress K d) = ke_ReadPool K i d) \<and>
     (\<forall>v i d. ke_ReadPool K i (ke_WriteMinVersion K v d) = ke_ReadPool K i d) \<and>
     (\<forall>i kp j d. ke_ReadPool K j (snd (ke_WritePool K i kp d)) =
        (if j = i \<and> fst (ke_WritePool K i kp d) then Some kp else ke_ReadPool K j d)) \<and>
     (\<forall>i j d. ke_ReadPool K j (ke_ErasePool K i d) = (if j = i then None else ke_ReadPool K j d)) \<and>
     (\<forall>p. kp_vchPubKey (ke_CKeyPool K p) = p)"

lemma key_env_okD:
  assumes "key_env_ok K"
  shows "fValid (fst (ke_MakeNewKey K c k))" "same_keys K k (snd (ke_MakeNewKey K c k))"
    "same_keys K k (snd (ke_AddKeyPubKey K s p k))"
    "fst (ke_AddKeyPubKey K s p k) \<Longrightarrow> ke_HaveKey K (ke_id K p) (snd (ke_AddKeyPubKey K s p k))"
    "CKey_GetPubKey (ke_ec K) s = Inr p \<Longrightarrow> CPubKey_IsValid p"
    "ke_ReadPool K j (snd (ke_WritePool K i kp d)) = (if j = i \<and> fst (ke_WritePool K i kp d) then Some kp else ke_ReadPool K j d)"
    "ke_ReadPool K j (ke_ErasePool K i d) = (if j = i then None else ke_ReadPool K j d)"
    "kp_vchPubKey (ke_CKeyPool K p) = p"
  using assms by (simp_all add: key_env_ok_def)

lemma same_keys_refl [simp]: "same_keys K k k"
  by (simp add: same_keys_def)

lemma same_pool_refl [simp]: "same_pool K w w"
  by (simp add: same_pool_def)

lemma same_pool_trans: "same_pool K a b \<Longrightarrow> same_pool K b c \<Longrightarrow> same_pool K a c"
  by (auto simp: same_pool_def same_keys_def)

definition keeps :: "('k, 'd) key_env \<Rightarrow> ('k, 'd, 'a) wm \<Rightarrow> bool" where
  "keeps K m \<longleftrightarrow> (\<forall>w. same_pool K w (snd (m w)))"

named_theorems keeps_intros \<open>calls that leave the key pool alone\<close>

lemma keeps_basic [keeps_intros]: "keeps K (wret x)" "keeps K (wthrow e)" "keeps K (wget g)" "keeps K (wlift r)"
  by (simp_all add: keeps_def wret_def wthrow_def wget_def wlift_def)

lemma keeps_bind [keeps_intros]: "keeps K m \<Longrightarrow> (\<And>x. keeps K (f x)) \<Longrightarrow> keeps K (wbind m f)"
  unfolding keeps_def
proof
  fix w
  assume m: "\<forall>w. same_pool K w (snd (m w))" and f: "\<And>x. \<forall>w. same_pool K w (snd (f x w))"
  obtain r w1 where r: "m w = (r, w1)" by (cases "m w")
  have "same_pool K w w1" using m [rule_format, of w] r by simp
  moreover have "same_pool K w1 (snd (f x w1))" for x using f [of x] by simp
  ultimately show "same_pool K w (snd (wbind m f w))"
    using r by (cases r) (auto simp: wbind_def intro: same_pool_trans)
qed

lemma keeps_if [keeps_intros]: "keeps K a \<Longrightarrow> keeps K b \<Longrightarrow> keeps K (if c then a else b)"
  by simp

lemma keeps_prod [keeps_intros]: "(\<And>x y. keeps K (f x y)) \<Longrightarrow> keeps K (case p of (x, y) \<Rightarrow> f x y)"
  by (cases p) simp

lemma keeps_wkeys: "(\<And>k. same_keys K k (snd (f k))) \<Longrightarrow> keeps K (wkeys f)"
  by (simp add: keeps_def wkeys_def same_pool_def case_prod_unfold)

lemma keeps_wdb: "(\<And>i d. ke_ReadPool K i (snd (f d)) = ke_ReadPool K i d) \<Longrightarrow> keeps K (wdb f)"
  by (simp add: keeps_def wdb_def same_pool_def case_prod_unfold)

lemma keeps_wmod: "(\<And>w. same_pool K w (g w)) \<Longrightarrow> keeps K (wmod g)"
  by (simp add: keeps_def wmod_def)

lemma same_pool_SetMinVersion: "key_env_ok K \<Longrightarrow> same_pool K w (SetMinVersion K v e w)"
  by (auto simp: SetMinVersion_def same_pool_def key_env_ok_def Let_def)

lemma keeps_AddKeyPubKey:
  assumes "key_env_ok K"
  shows "keeps K (AddKeyPubKey K s p n)"
proof -
  have m: "keeps K (wbind (wkeys (ke_AddKeyPubKey K s p)) (\<lambda>ok.
          if \<not> ok then wret False
          else wbind (wget (\<lambda>w. (fFileBacked w, ke_IsCrypted K (w_keys w)))) (\<lambda>(backed, crypted).
            if \<not> backed then wret True
            else if \<not> crypted then wbind (wlift (CKey_GetPrivKey (ke_ec K) s)) (\<lambda>priv. wdb (ke_WriteKey K p priv t))
            else wret True)))" for t
    by (intro keeps_intros keeps_wkeys keeps_wdb) (use assms in \<open>simp_all add: key_env_ok_def\<close>)
  show ?thesis unfolding keeps_def
  proof
    fix w
    obtain t w1 where n: "note_key_time K n (0, w) = (t, w1)" by (cases "note_key_time K n (0, w)")
    then have "same_pool K w w1" by (auto simp: note_key_time_def same_pool_def Let_def split: if_splits)
    then show "same_pool K w (snd (AddKeyPubKey K s p n w))"
      using m [of t] unfolding AddKeyPubKey_def n keeps_def prod.case by (blast intro: same_pool_trans)
  qed
qed

lemma keeps_GenerateNewKey: "key_env_ok K \<Longrightarrow> keeps K (GenerateNewKey K)"
  unfolding GenerateNewKey_def
  by (intro keeps_intros keeps_wkeys keeps_wmod keeps_AddKeyPubKey)
    (auto simp: key_env_ok_def intro: same_pool_SetMinVersion [unfolded key_env_ok_def])

lemma AddKeyPubKey_result:
  assumes K: "key_env_ok K" and s: "fValid s" and r: "AddKeyPubKey K s p n w = (r, w')"
  shows "\<exists>ok. r = Inr ok \<and> (ok \<longrightarrow> ke_HaveKey K (ke_id K p) (w_keys w'))"
proof -
  obtain t w1 where n: "note_key_time K n (0, w) = (t, w1)" by (cases "note_key_time K n (0, w)")
  obtain ok k where a: "ke_AddKeyPubKey K s p (w_keys w1) = (ok, k)" by (cases "ke_AddKeyPubKey K s p (w_keys w1)")
  then have have_key: "ok \<longrightarrow> ke_HaveKey K (ke_id K p) k" using key_env_okD(4) [OF K, of s p "w_keys w1"] by simp
  define w2 where "w2 = w1\<lparr> w_keys := k \<rparr>"
  obtain b d where b: "ke_WriteKey K p (ec_priv_of_secret (ke_ec K) (ck_vch s)) t (w_db w1) = (b, d)"
    by (cases "ke_WriteKey K p (ec_priv_of_secret (ke_ec K) (ck_vch s)) t (w_db w1)")
  have "AddKeyPubKey K s p n w = (if \<not> ok then (Inr False, w2) else if \<not> fFileBacked w1 then (Inr True, w2)
      else if ke_IsCrypted K k then (Inr True, w2) else (Inr b, w2\<lparr> w_db := d \<rparr>))"
    using s unfolding AddKeyPubKey_def n prod.case
    by (simp add: a b w2_def wbind_def wkeys_def wget_def wret_def wlift_def wdb_def CKey_GetPrivKey_def)
  then show ?thesis using r have_key by (auto simp: w2_def split: if_splits)
qed

lemma GenerateNewKey_result:
  assumes K: "key_env_ok K" and r: "GenerateNewKey K w = (r, w')"
  shows "case r of Inr p \<Rightarrow> CPubKey_IsValid p \<and> ke_HaveKey K (ke_id K p) (w_keys w') | Inl e \<Rightarrow> \<exists>m. e = Thrown m"
proof -
  let ?c = "ke_CanSupport K (nWalletMaxVersion w) (FEATURE_COMPRPUBKEY K)"
  obtain s k where s: "ke_MakeNewKey K ?c (w_keys w) = (s, k)" by (cases "ke_MakeNewKey K ?c (w_keys w)")
  have v: "fValid s" using key_env_okD(1) [OF K, of ?c "w_keys w"] s by simp
  then obtain p where p: "CKey_GetPubKey (ke_ec K) s = Inr p" by (simp add: CKey_GetPubKey_def)
  then have pv: "CPubKey_IsValid p" by (rule key_env_okD(5) [OF K])
  define w1 where "w1 = (if ?c then SetMinVersion K (FEATURE_COMPRPUBKEY K) False else id) (w\<lparr> w_keys := k \<rparr>)"
  obtain ra w2 where a: "AddKeyPubKey K s p (ke_default_time K) w1 = (ra, w2)" by (cases "AddKeyPubKey K s p (ke_default_time K) w1")
  have "(r, w') = (case ra of Inl e \<Rightarrow> (Inl e, w2)
      | Inr ok \<Rightarrow> (if \<not> ok then (Inl (Thrown ''CWallet::GenerateNewKey() : AddKey failed''), w2) else (Inr p, w2)))"
    using r a by (auto simp: GenerateNewKey_def wbind_def wget_def wkeys_def wmod_def wlift_def wret_def wthrow_def s p w1_def
        split: sum.splits if_splits)
  then show ?thesis using AddKeyPubKey_result [OF K v a] pv by (auto split: if_splits)
qed

subsection \<open>Reservations\<close>

text \<open>The records of the pool and of the outstanding reservations \<open>R\<close> are in the file with keys of ours; no index is
  in both; while there is a reservation the pool has an index above it.\<close>

definition pool_record :: "('k, 'd) key_env \<Rightarrow> ('k, 'd) CWallet \<Rightarrow> int64 \<Rightarrow> bool" where
  "pool_record K w i \<longleftrightarrow> (\<exists>kp. ke_ReadPool K i (w_db w) = Some kp \<and> CPubKey_IsValid (kp_vchPubKey kp) \<and>
     ke_HaveKey K (ke_id K (kp_vchPubKey kp)) (w_keys w))"

definition pool_inv :: "('k, 'd) key_env \<Rightarrow> int64 set \<Rightarrow> ('k, 'd) CWallet \<Rightarrow> bool" where
  "pool_inv K R w \<longleftrightarrow> finite (setKeyPool w) \<and> (\<forall>i\<in>setKeyPool w. 0 < i) \<and> setKeyPool w \<inter> R = {} \<and>
     (\<forall>r\<in>R. \<exists>i\<in>setKeyPool w. r < i) \<and> (\<forall>i\<in>setKeyPool w \<union> R. pool_record K w i) \<and> \<not> ke_IsLocked K (w_keys w)"

lemma same_pool_record: "same_pool K w w' \<Longrightarrow> pool_record K w i \<Longrightarrow> pool_record K w' i"
  by (auto simp: same_pool_def same_keys_def pool_record_def)

lemma same_pool_inv: "same_pool K w w' \<Longrightarrow> pool_inv K R w \<Longrightarrow> pool_inv K R w'"
  unfolding pool_inv_def using same_pool_record [of K w w'] by (auto simp: same_pool_def same_keys_def)

text \<open>One round of the loop.\<close>

lemma top_up_round:
  assumes K: "key_env_ok K" and inv: "pool_inv K R w"
    and m: "m = (if setKeyPool w \<noteq> {} then Max (setKeyPool w) + 1 else 1)"
    and r: "wbind (GenerateNewKey K) (\<lambda>pubkey. wdb (ke_WritePool K m (ke_CKeyPool K pubkey))) w = (r, w')"
  shows "m \<notin> setKeyPool w \<and> setKeyPool w' = setKeyPool w \<and> (case r of
      Inl e \<Rightarrow> (\<exists>s. e = Thrown s) \<and> pool_inv K R w'
    | Inr ok \<Rightarrow> if ok then pool_inv K R (w'\<lparr> setKeyPool := insert m (setKeyPool w') \<rparr>) else pool_inv K R w')"
proof -
  have fin: "finite (setKeyPool w)" using inv by (simp add: pool_inv_def)
  have above: "i < m" if "i \<in> setKeyPool w" for i
    using that Max_ge [OF fin that] by (auto simp: m)
  have "0 < m"
  proof (cases "setKeyPool w = {}")
    case False
    then have "0 < Max (setKeyPool w)" using inv fin Max_in by (auto simp: pool_inv_def)
    then show ?thesis by (simp add: m)
  qed (simp add: m)
  moreover have "r < m" if "r \<in> R" for r using that inv above unfolding pool_inv_def by force
  ultimately have m_pos: "0 < m" "m \<notin> setKeyPool w" "m \<notin> R" using above by blast+
  obtain g w1 where g: "GenerateNewKey K w = (g, w1)" by (cases "GenerateNewKey K w")
  have s1: "same_pool K w w1" using keeps_GenerateNewKey [OF K, unfolded keeps_def, rule_format, of w] g by simp
  note res = GenerateNewKey_result [OF K g]
  show ?thesis
  proof (cases g)
    case (Inl e)
    then show ?thesis using r g res s1 same_pool_inv [OF s1 inv] m_pos by (auto simp: wbind_def same_pool_def)
  next
    case (Inr p)
    obtain ok d where d: "ke_WritePool K m (ke_CKeyPool K p) (w_db w1) = (ok, d)" by (cases "ke_WritePool K m (ke_CKeyPool K p) (w_db w1)")
    have w': "w' = w1\<lparr> w_db := d \<rparr>" "r = Inr ok" using r g Inr d by (auto simp: wbind_def wdb_def)
    have read: "ke_ReadPool K j d = (if j = m \<and> ok then Some (ke_CKeyPool K p) else ke_ReadPool K j (w_db w1))" for j
      using key_env_okD(6) [OF K, of j m "ke_CKeyPool K p" "w_db w1"] d by simp
    have pk: "kp_vchPubKey (ke_CKeyPool K p) = p" by (rule key_env_okD(8) [OF K])
    have inv1: "pool_inv K R w1" by (rule same_pool_inv [OF s1 inv])
    have set1: "setKeyPool w1 = setKeyPool w" using s1 by (simp add: same_pool_def)
    have rec: "pool_record K (w'\<lparr> setKeyPool := X \<rparr>) i" if "pool_record K w1 i" "i \<noteq> m" for i X
      using that read by (auto simp: pool_record_def w')
    have recm: "pool_record K (w'\<lparr> setKeyPool := X \<rparr>) m" if ok for X
      using that read res pk by (auto simp: pool_record_def w' Inr)
    show ?thesis
    proof (cases ok)
      case True
      have "pool_record K (w'\<lparr> setKeyPool := insert m (setKeyPool w') \<rparr>) i" if "i \<in> insert m (setKeyPool w) \<union> R" for i
      proof (cases "i = m")
        case False
        then have "pool_record K w1 i" using that inv1 set1 by (auto simp: pool_inv_def)
        then show ?thesis using False by (rule rec)
      qed (simp add: recm [OF True])
      then have "pool_inv K R (w'\<lparr> setKeyPool := insert m (setKeyPool w') \<rparr>)"
        using inv1 m_pos set1 unfolding pool_inv_def by (auto simp: w')
      then show ?thesis using True m_pos set1 w' by simp
    next
      case False
      then have "pool_inv K R w'" using inv1 read unfolding pool_inv_def pool_record_def by (simp add: w')
      then show ?thesis using False m_pos set1 w' by simp
    qed
  qed
qed


lemma top_up_ok:
  assumes K: "key_env_ok K" and inv: "pool_inv K R w"
  shows "\<exists>r w'. top_up K n w = Some (r, w') \<and> pool_inv K R w' \<and>
    (case r of Inl e \<Rightarrow> \<exists>s. e = Thrown s | Inr _ \<Rightarrow> n + 1 \<le> card (setKeyPool w'))"
  using inv
proof (induction "n + 1 - card (setKeyPool w)" arbitrary: w)
  case 0
  then have "top_up K n w = Some (Inr (), w)" by (subst top_up.simps) simp
  with 0 show ?case by simp
next
  case (Suc x)
  then have less: "card (setKeyPool w) < n + 1" by simp
  define m where "m = (if setKeyPool w \<noteq> {} then Max (setKeyPool w) + 1 else 1)"
  obtain r w' where r: "wbind (GenerateNewKey K) (\<lambda>pubkey. wdb (ke_WritePool K m (ke_CKeyPool K pubkey))) w = (r, w')"
    by (cases "wbind (GenerateNewKey K) (\<lambda>pubkey. wdb (ke_WritePool K m (ke_CKeyPool K pubkey))) w")
  note * = top_up_round [OF K Suc.prems m_def r]
  have step: "top_up K n w = (case r of Inl e \<Rightarrow> Some (Inl e, w')
      | Inr ok \<Rightarrow> if \<not> ok then Some (Inl (Thrown ''TopUpKeyPool() : writing generated key failed''), w')
                 else top_up K n (w'\<lparr> setKeyPool := insert m (setKeyPool w') \<rparr>))"
    using less by (subst top_up.simps) (simp add: m_def [symmetric] r Let_def split: sum.splits)
  show ?case
  proof (cases "r = Inr True")
    case True
    let ?w = "w'\<lparr> setKeyPool := insert m (setKeyPool w') \<rparr>"
    have "card (setKeyPool ?w) = Suc (card (setKeyPool w))" using * Suc.prems by (simp add: pool_inv_def)
    then have "x = n + 1 - card (setKeyPool ?w)" using Suc.hyps(2) by simp
    moreover have "pool_inv K R ?w" using conjunct2 [OF conjunct2 [OF *]] unfolding True by simp
    ultimately show ?thesis using Suc.hyps(1) [of ?w] step True by simp
  next
    case False
    then show ?thesis using * step by (cases r) auto
  qed
qed

lemma TopUpKeyPool_ok:
  assumes K: "key_env_ok K" and inv: "pool_inv K R w"
  shows "\<exists>r w'. TopUpKeyPool K w = (r, w') \<and> pool_inv K R w' \<and>
    (case r of Inl e \<Rightarrow> \<exists>s. e = Thrown s | Inr _ \<Rightarrow> nat (ke_keypool K) + 1 \<le> card (setKeyPool w'))"
proof -
  have "\<not> ke_IsLocked K (w_keys w)" using inv by (simp add: pool_inv_def)
  moreover have "nat (max (ke_keypool K) 0) = nat (ke_keypool K)" by simp
  moreover obtain r w' where "top_up K (nat (ke_keypool K)) w = Some (r, w')" "pool_inv K R w'"
    "case r of Inl e \<Rightarrow> \<exists>s. e = Thrown s | Inr _ \<Rightarrow> nat (ke_keypool K) + 1 \<le> card (setKeyPool w')"
    using top_up_ok [OF K inv, of "nat (ke_keypool K)"] by blast
  ultimately show ?thesis by (cases r) (simp_all add: TopUpKeyPool_def)
qed

lemma ReserveKeyFromKeyPool_ok:
  assumes K: "key_env_ok K" and inv: "pool_inv K R w" and size: "1 \<le> ke_keypool K"
  shows "\<exists>i r w'. ReserveKeyFromKeyPool K w = (i, r, w') \<and>
    (case r of Inl e \<Rightarrow> (\<exists>s. e = Thrown s) \<and> i = - 1 \<and> pool_inv K R w'
     | Inr kp \<Rightarrow> 0 < i \<and> i \<notin> R \<and> CPubKey_IsValid (kp_vchPubKey kp) \<and> pool_inv K (insert i R) w')"
proof -
  obtain r w1 where top: "TopUpKeyPool K w = (r, w1)" "pool_inv K R w1"
    "case r of Inl e \<Rightarrow> \<exists>s. e = Thrown s | Inr _ \<Rightarrow> nat (ke_keypool K) + 1 \<le> card (setKeyPool w1)"
    using TopUpKeyPool_ok [OF K inv] by blast
  have unlocked: "\<not> ke_IsLocked K (w_keys w)" using inv by (simp add: pool_inv_def)
  show ?thesis
  proof (cases r)
    case (Inl e)
    then show ?thesis using top unlocked by (simp add: ReserveKeyFromKeyPool_def)
  next
    case (Inr u)
    let ?S = "setKeyPool w1" and ?w2 = "w1\<lparr> setKeyPool := setKeyPool w1 - {Min (setKeyPool w1)} \<rparr>"
    let ?i = "Min ?S"
    have fin: "finite ?S" using top(2) by (simp add: pool_inv_def)
    have two: "2 \<le> card ?S" using top(3) Inr size by simp
    then have ne: "?S \<noteq> {}" by auto
    then have i: "?i \<in> ?S" using fin Min_in by blast
    have "card (?S - {?i}) \<noteq> 0" using two fin i by simp
    then have "?S - {?i} \<noteq> {}" by (metis card.empty)
    then obtain j where j: "j \<in> ?S" "j \<noteq> ?i" by blast
    then have ij: "?i < j" using Min_le [OF fin j(1)] by simp
    obtain kp where kp: "ke_ReadPool K ?i (w_db w1) = Some kp" "CPubKey_IsValid (kp_vchPubKey kp)"
      "ke_HaveKey K (ke_id K (kp_vchPubKey kp)) (w_keys w1)"
      using top(2) i unfolding pool_inv_def pool_record_def by blast
    have res: "ReserveKeyFromKeyPool K w = (?i, Inr kp, ?w2)"
      using top(1) unlocked Inr ne kp by (simp add: ReserveKeyFromKeyPool_def Let_def)
    have above: "\<exists>x\<in>?S - {?i}. q < x" if "q \<in> insert ?i R" for q
    proof (cases "q = ?i")
      case False
      then have "q \<in> R" using that by simp
      then obtain x where "x \<in> ?S" "q < x" using top(2) unfolding pool_inv_def by blast
      then show ?thesis using j ij by (metis Diff_iff order.strict_trans singletonD)
    qed (use j ij in auto)
    have "pool_inv K (insert ?i R) ?w2"
      using top(2) above i unfolding pool_inv_def pool_record_def by (auto 0 3)
    moreover have "0 < ?i" "?i \<notin> R" using top(2) i by (auto simp: pool_inv_def)
    ultimately show ?thesis using res kp(2) by simp
  qed
qed

lemma KeepKey_ok:
  assumes "key_env_ok K" "pool_inv K R w" "i \<in> R"
  shows "pool_inv K (R - {i}) (KeepKey K i w)"
proof -
  have "pool_record K (KeepKey K i w) j" if "pool_record K w j" "j \<noteq> i" for j
    using that key_env_okD(7) [OF assms(1)] by (simp add: KeepKey_def pool_record_def)
  moreover have "i \<notin> setKeyPool w" using assms by (auto simp: pool_inv_def)
  ultimately have "pool_record K (KeepKey K i w) j" if "j \<in> setKeyPool w \<union> (R - {i})" for j
    using that assms(2) unfolding pool_inv_def by (cases "j = i") auto
  moreover have "setKeyPool (KeepKey K i w) = setKeyPool w" "w_keys (KeepKey K i w) = w_keys w" by (simp_all add: KeepKey_def)
  ultimately show ?thesis using assms(2) unfolding pool_inv_def by auto
qed

lemma ReturnKey_ok:
  assumes "pool_inv K R w" "i \<in> R" "0 < i"
  shows "pool_inv K (R - {i}) (ReturnKey i w)"
proof -
  have "pool_record K (ReturnKey i w) j" if "pool_record K w j" for j
    using that by (simp add: ReturnKey_def pool_record_def)
  then show ?thesis using assms unfolding pool_inv_def by (auto simp: ReturnKey_def)
qed

subsection \<open>Several reservations at a time\<close>

text \<open>\<open>f\<close> maps the objects of the class \<open>CReserveKey\<close> that are alive to their state; they are used in any order,
  and so is \<open>GetKeyFromPool\<close>.\<close>

type_synonym ('k, 'd) pool_system = "('k, 'd) CWallet \<times> (nat \<Rightarrow> CReserveKey)"

inductive pool_step :: "('k, 'd) key_env \<Rightarrow> ('k, 'd) pool_system \<Rightarrow> ('k, 'd) pool_system \<Rightarrow> bool" for K :: "('k, 'd) key_env" where
  reserve: "GetReservedKey K (f j) w = (r, rk, w') \<Longrightarrow> pool_step K (w, f) (w', f(j := rk))"
| keep: "Reserve_KeepKey K (f j) w = (rk, w') \<Longrightarrow> pool_step K (w, f) (w', f(j := rk))"
| give_back: "Reserve_ReturnKey (f j) w = (rk, w') \<Longrightarrow> pool_step K (w, f) (w', f(j := rk))"
| take_one: "GetKeyFromPool K reuse w = (r, w') \<Longrightarrow> pool_step K (w, f) (w', f)"

definition outstanding :: "(nat \<Rightarrow> CReserveKey) \<Rightarrow> int64 set" where
  "outstanding f = {rk_nIndex (f j) | j. rk_nIndex (f j) \<noteq> - 1}"

definition pool_sys_inv :: "('k, 'd) key_env \<Rightarrow> ('k, 'd) pool_system \<Rightarrow> bool" where
  "pool_sys_inv K = (\<lambda>(w, f). pool_inv K (outstanding f) w \<and>
     (\<forall>j. rk_nIndex (f j) \<noteq> - 1 \<longrightarrow> 0 < rk_nIndex (f j) \<and> CPubKey_IsValid (rk_vchPubKey (f j)) \<and>
        (\<forall>i. i \<noteq> j \<longrightarrow> rk_nIndex (f i) \<noteq> rk_nIndex (f j))))"


lemma GetReservedKey_ok:
  assumes K: "key_env_ok K" "1 \<le> ke_keypool K" and inv: "pool_sys_inv K (w, f)" and r: "GetReservedKey K (f j) w = (r, rk, w')"
  shows "(r = Inr (Some (rk_vchPubKey rk)) \<and> CPubKey_IsValid (rk_vchPubKey rk) \<and> 0 < rk_nIndex rk \<and>
      (if rk_nIndex (f j) = - 1 then rk_nIndex rk \<notin> outstanding f \<and> pool_inv K (insert (rk_nIndex rk) (outstanding f)) w'
       else rk = f j \<and> w' = w)) \<or>
    (\<exists>s. r = Inl (Thrown s) \<and> rk_nIndex rk = - 1 \<and> rk_nIndex (f j) = - 1 \<and> pool_inv K (outstanding f) w')"
proof (cases "rk_nIndex (f j) = - 1")
  case True
  have "pool_inv K (outstanding f) w" using inv by (simp add: pool_sys_inv_def)
  from ReserveKeyFromKeyPool_ok [OF K(1) this K(2)] obtain i q v where
    *: "ReserveKeyFromKeyPool K w = (i, q, v)" "case q of Inl e \<Rightarrow> (\<exists>s. e = Thrown s) \<and> i = - 1 \<and> pool_inv K (outstanding f) v
     | Inr kp \<Rightarrow> 0 < i \<and> i \<notin> outstanding f \<and> CPubKey_IsValid (kp_vchPubKey kp) \<and> pool_inv K (insert i (outstanding f)) v"
    by blast
  show ?thesis
  proof (cases q)
    case (Inl e)
    then show ?thesis using * r True by (auto simp: GetReservedKey_def)
  next
    case (Inr kp)
    then have "i \<noteq> - 1" using *(2) by auto
    then have "r = Inr (Some (kp_vchPubKey kp))" "rk = (f j)\<lparr> rk_nIndex := i, rk_vchPubKey := kp_vchPubKey kp \<rparr>" "w' = v"
      using *(2) r True by (auto simp: GetReservedKey_def *(1) Inr)
    then show ?thesis using *(2) True Inr by simp
  qed
next
  case False
  then have "CPubKey_IsValid (rk_vchPubKey (f j))" "0 < rk_nIndex (f j)" using inv by (auto simp: pool_sys_inv_def)
  then show ?thesis using False r by (auto simp: GetReservedKey_def)
qed

lemma outstanding_reset:
  assumes "\<forall>j. rk_nIndex (f j) \<noteq> - 1 \<longrightarrow> (\<forall>i. i \<noteq> j \<longrightarrow> rk_nIndex (f i) \<noteq> rk_nIndex (f j))" "rk_nIndex rk = - 1"
  shows "outstanding (f(j := rk)) = outstanding f - {rk_nIndex (f j)}"
  using assms by (auto simp: outstanding_def)

lemma outstanding_add: "rk_nIndex (f j) = - 1 \<Longrightarrow> rk_nIndex rk \<noteq> - 1 \<Longrightarrow> outstanding (f(j := rk)) = insert (rk_nIndex rk) (outstanding f)"
  by (auto simp: outstanding_def)

lemma pool_step_inv:
  assumes K: "key_env_ok K" "1 \<le> ke_keypool K" and "pool_step K p q" and "pool_sys_inv K p"
  shows "pool_sys_inv K q"
  using assms(3,4)
proof (cases rule: pool_step.cases)
  case (reserve f j w r rk w')
  have inv: "pool_sys_inv K (w, f)" using assms(4) reserve by simp
  have old: "rk_nIndex (f i) \<in> outstanding f" if "rk_nIndex (f i) \<noteq> - 1" for i using that by (auto simp: outstanding_def)
  from GetReservedKey_ok [OF K inv reserve(3)] show ?thesis
  proof (elim disjE)
    assume g: "r = Inr (Some (rk_vchPubKey rk)) \<and> CPubKey_IsValid (rk_vchPubKey rk) \<and> 0 < rk_nIndex rk \<and>
      (if rk_nIndex (f j) = - 1 then rk_nIndex rk \<notin> outstanding f \<and> pool_inv K (insert (rk_nIndex rk) (outstanding f)) w'
       else rk = f j \<and> w' = w)"
    show ?thesis
    proof (cases "rk_nIndex (f j) = - 1")
      case True
      then have "outstanding (f(j := rk)) = insert (rk_nIndex rk) (outstanding f)" using g by (intro outstanding_add) auto
      moreover have "rk_nIndex (f i) \<noteq> rk_nIndex rk \<and> rk_nIndex rk \<noteq> rk_nIndex (f i)" for i using g True old [of i] by auto
      ultimately show ?thesis using g True inv reserve(2) by (simp add: pool_sys_inv_def)
    next
      case False
      then have "f(j := rk) = f" "w' = w" using g by auto
      then show ?thesis using inv reserve(2) by simp
    qed
  next
    assume "\<exists>s. r = Inl (Thrown s) \<and> rk_nIndex rk = - 1 \<and> rk_nIndex (f j) = - 1 \<and> pool_inv K (outstanding f) w'"
    then have g: "rk_nIndex rk = - 1" "rk_nIndex (f j) = - 1" "pool_inv K (outstanding f) w'" by auto
    then have "outstanding (f(j := rk)) = outstanding f - {- 1}" using outstanding_reset [of f rk j] inv by (simp add: pool_sys_inv_def)
    also have "\<dots> = outstanding f" by (auto simp: outstanding_def)
    finally show ?thesis using g inv reserve(2) by (auto simp: pool_sys_inv_def)
  qed
next
  case (keep f j w rk w')
  have inv: "pool_sys_inv K (w, f)" using assms(4) keep by simp
  have o: "outstanding (f(j := CReserveKey_make)) = outstanding f - {rk_nIndex (f j)}"
    using inv by (intro outstanding_reset) (simp_all add: pool_sys_inv_def CReserveKey_make_def)
  have "pool_inv K (outstanding f - {rk_nIndex (f j)}) w'"
  proof (cases "rk_nIndex (f j) = - 1")
    case True
    then have "outstanding f - {rk_nIndex (f j)} = outstanding f" by (auto simp: outstanding_def)
    then show ?thesis using keep True inv by (auto simp: Reserve_KeepKey_def pool_sys_inv_def)
  next
    case False
    then have "rk_nIndex (f j) \<in> outstanding f" by (auto simp: outstanding_def)
    then show ?thesis using KeepKey_ok [OF K(1), of "outstanding f" w] keep False inv by (auto simp: Reserve_KeepKey_def pool_sys_inv_def)
  qed
  then show ?thesis using o keep inv by (auto simp: pool_sys_inv_def Reserve_KeepKey_def CReserveKey_make_def)
next
  case (give_back f j w rk w')
  have inv: "pool_sys_inv K (w, f)" using assms(4) give_back by simp
  have o: "outstanding (f(j := CReserveKey_make)) = outstanding f - {rk_nIndex (f j)}"
    using inv by (intro outstanding_reset) (simp_all add: pool_sys_inv_def CReserveKey_make_def)
  have "pool_inv K (outstanding f - {rk_nIndex (f j)}) w'"
  proof (cases "rk_nIndex (f j) = - 1")
    case True
    then have "outstanding f - {rk_nIndex (f j)} = outstanding f" by (auto simp: outstanding_def)
    then show ?thesis using give_back True inv by (auto simp: Reserve_ReturnKey_def pool_sys_inv_def)
  next
    case False
    then have "rk_nIndex (f j) \<in> outstanding f" by (auto simp: outstanding_def)
    then show ?thesis using ReturnKey_ok [of K "outstanding f" w] give_back False inv by (auto simp: Reserve_ReturnKey_def pool_sys_inv_def)
  qed
  then show ?thesis using o give_back inv by (auto simp: pool_sys_inv_def Reserve_ReturnKey_def CReserveKey_make_def)
next
  case (take_one reuse w r w' f)
  have inv: "pool_inv K (outstanding f) w" using assms(4) take_one by (simp add: pool_sys_inv_def)
  from ReserveKeyFromKeyPool_ok [OF K(1) this K(2)] obtain i q v where
    *: "ReserveKeyFromKeyPool K w = (i, q, v)" "case q of Inl e \<Rightarrow> (\<exists>s. e = Thrown s) \<and> i = - 1 \<and> pool_inv K (outstanding f) v
     | Inr kp \<Rightarrow> 0 < i \<and> i \<notin> outstanding f \<and> CPubKey_IsValid (kp_vchPubKey kp) \<and> pool_inv K (insert i (outstanding f)) v"
    by blast
  have "pool_inv K (outstanding f) w'"
  proof (cases q)
    case (Inl e)
    then show ?thesis using * take_one by (auto simp: GetKeyFromPool_def)
  next
    case (Inr kp)
    then have "i \<noteq> - 1" "i \<notin> outstanding f" "pool_inv K (insert i (outstanding f)) v" using *(2) by auto
    moreover from this have "w' = KeepKey K i v" using take_one by (auto simp: GetKeyFromPool_def *(1) Inr)
    ultimately show ?thesis using KeepKey_ok [OF K(1), of "insert i (outstanding f)" v i] by simp
  qed
  then show ?thesis using assms(4) take_one by (auto simp: pool_sys_inv_def)
qed


subsection \<open>Witness\<close>

text \<open>A key store that owns every key and numbers the secrets, and a wallet file that keeps the pool records.\<close>

definition demo_ec :: ec_ops where
  "demo_ec = \<lparr> ec_pub_of_secret = (\<lambda>s c. if c then 2 # take 32 (s @ replicate 32 0) else 4 # take 64 (s @ replicate 64 0)),
     ec_parse_pub = (\<lambda>_. True), ec_convert_pub = (\<lambda>p _. p), ec_sign = (\<lambda>_ _. None), ec_verify = (\<lambda>_ _ _. True),
     ec_sign_compact = (\<lambda>_ _. None), ec_recover = (\<lambda>_ _ _. None), ec_secret_of_priv = (\<lambda>_. None), ec_priv_of_secret = (\<lambda>s. s) \<rparr>"

definition demo_key_env :: "int64 \<Rightarrow> (nat, int64 \<rightharpoonup> CKeyPool) key_env" where
  "demo_key_env keypool = \<lparr> ke_ec = demo_ec, ke_id = (\<lambda>_. 7),
     ke_MakeNewKey = (\<lambda>c k. (\<lparr> fValid = True, fCompressed = c, ck_vch = replicate 32 (word_of_nat k) \<rparr>, k + 1)),
     ke_AddKeyPubKey = (\<lambda>_ _ k. (True, k)), ke_AddCryptedKey = (\<lambda>_ _ k. (True, k)), ke_AddCScript = (\<lambda>_ k. (True, k)),
     ke_IsCrypted = (\<lambda>_. False), ke_IsLocked = (\<lambda>_. False), ke_HaveKey = (\<lambda>_ _. True),
     ke_WriteKey = (\<lambda>_ _ _ d. (True, d)), ke_WriteCryptedKey = (\<lambda>_ _ _ d. (True, d)), ke_WriteCScript = (\<lambda>_ d. (True, d)),
     ke_WriteDefaultKey = (\<lambda>_ d. (True, d)), ke_WriteCorruptAddress = (\<lambda>d. d), ke_WriteMinVersion = (\<lambda>_ d. d),
     ke_WritePool = (\<lambda>i kp d. (True, d(i \<mapsto> kp))), ke_ReadPool = (\<lambda>i d. d i), ke_ErasePool = (\<lambda>i d. d(i := None)),
     ke_CKeyPool = (\<lambda>p. \<lparr> kp_nTime = 5, kp_vchPubKey = p \<rparr>), ke_CanSupport = (\<lambda>a b. b \<le> a), FEATURE_COMPRPUBKEY = 60000,
     FEATURE_LATEST = 60000, ke_GetTime = 100, ke_default_time = 0, ke_keypool = keypool \<rparr>"

definition demo_key_wallet :: "(nat, int64 \<rightharpoonup> CKeyPool) CWallet" where
  "demo_key_wallet = \<lparr> fFileBacked = True, mapWallet = [], nOrderPosNext = 0, mapRequestCount = Map.empty, mapAddressBook = Map.empty,
     vchDefaultKey = key0, setLockedCoins = {}, setKeyPool = {}, nTimeFirstKey = 0, nWalletVersion = 0, nWalletMaxVersion = 60000,
     mapMasterKeys = [], nMasterKeyMaxID = 0, w_keys = 0, w_db = Map.empty \<rparr>"

lemma demo_key_env_ok: "key_env_ok (demo_key_env n)"
proof -
  have "CPubKey_IsValid p" if "CKey_GetPubKey demo_ec s = Inr p" for s p
    using that
    by (auto simp: CKey_GetPubKey_def demo_ec_def CPubKey_Set_def CPubKey_IsValid_def CPubKey_size_def GetLen_def split: if_splits)
  then show ?thesis by (auto simp: key_env_ok_def demo_key_env_def same_keys_def)
qed

definition demo_reserve :: "int64 \<Rightarrow> (nat, int64 \<rightharpoonup> CKeyPool) CWallet \<Rightarrow> int64 \<times> CReserveKey \<times> (nat, int64 \<rightharpoonup> CKeyPool) CWallet" where
  "demo_reserve n w = (case GetReservedKey (demo_key_env n) CReserveKey_make w of (_, rk, w') \<Rightarrow> (rk_nIndex rk, rk, w'))"


text \<open>With \<open>-keypool=0\<close> two reservations at the same time get the same index; the second record overwrites the first.\<close>

lemma KeyPool_shared_index:
  "(case demo_reserve 0 demo_key_wallet of (i, _, w) \<Rightarrow> (case demo_reserve 0 w of (j, _, w') \<Rightarrow> i = 1 \<and> j = 1))"
  by code_simp

end

