(* ===== verification/SortedMap.thy ===== *)
theory SortedMap
  imports Main
begin

text \<open>
  The \<open>std::map\<close> of the code as the list of its pairs in the order of the keys, so that a loop over the map
  is a loop over the list.  The locale states what the clients rely on: lookup after insertion, after
  erasure, and that the order is kept.
\<close>

fun map_put :: "'k::linorder \<Rightarrow> 'v \<Rightarrow> ('k \<times> 'v) list \<Rightarrow> ('k \<times> 'v) list" where
  "map_put k v [] = [(k, v)]"
| "map_put k v ((k', v') # m) =
     (if k < k' then (k, v) # (k', v') # m else if k = k' then (k, v) # m else (k', v') # map_put k v m)"

definition map_del :: "'k \<Rightarrow> ('k \<times> 'v) list \<Rightarrow> ('k \<times> 'v) list" where
  "map_del k m = filter (\<lambda>p. fst p \<noteq> k) m"

definition map_ok :: "('k::linorder \<times> 'v) list \<Rightarrow> bool" where
  "map_ok m \<longleftrightarrow> sorted_wrt (<) (map fst m)"

locale ordered_map =
  fixes look :: "'m \<Rightarrow> 'k \<Rightarrow> 'v option" and put :: "'k \<Rightarrow> 'v \<Rightarrow> 'm \<Rightarrow> 'm" and del :: "'k \<Rightarrow> 'm \<Rightarrow> 'm" and ok :: "'m \<Rightarrow> bool"
  assumes look_put: "ok m \<Longrightarrow> look (put k v m) j = (if j = k then Some v else look m j)"
    and look_del: "ok m \<Longrightarrow> look (del k m) j = (if j = k then None else look m j)"
    and ok_put: "ok m \<Longrightarrow> ok (put k v m)"
    and ok_del: "ok m \<Longrightarrow> ok (del k m)"
begin

lemma look_put_other: "ok m \<Longrightarrow> j \<noteq> k \<Longrightarrow> look (put k v m) j = look m j"
  by (simp add: look_put)

text \<open>A sequence of insertions: the last one for a key counts.\<close>

lemma ok_puts: "ok m \<Longrightarrow> ok (fold (\<lambda>(k, v). put k v) kvs m)"
  by (induction kvs arbitrary: m) (auto simp: ok_put)

lemma look_puts: "ok m \<Longrightarrow> look (fold (\<lambda>(k, v). put k v) kvs m) j = (case map_of (rev kvs) j of None \<Rightarrow> look m j | Some v \<Rightarrow> Some v)"
  by (induction kvs arbitrary: m) (auto simp: ok_put look_put map_add_def split: option.splits)

end

lemma map_put_keys: "set (map fst (map_put k v m)) = insert k (set (map fst m))"
  by (induction m rule: map_put.induct) auto

lemma map_put_ok: "map_ok m \<Longrightarrow> map_ok (map_put k v m)"
  unfolding map_ok_def
proof (induction k v m rule: map_put.induct)
  case (2 k v k' v' m)
  then show ?case using map_put_keys [of k v m] by (force simp: not_less)
qed simp

lemma map_put_look: "map_ok m \<Longrightarrow> map_of (map_put k v m) = (map_of m)(k \<mapsto> v)"
  unfolding map_ok_def
proof (induction k v m rule: map_put.induct)
  case (2 k v k' v' m)
  then show ?case by (auto simp: fun_upd_twist)
qed simp

lemma map_del_look: "map_of (map_del k m) j = (if j = k then None else map_of m j)"
  by (induction m) (auto simp: map_del_def)

lemma map_del_ok: "map_ok m \<Longrightarrow> map_ok (map_del k m)"
  unfolding map_ok_def map_del_def by (induction m) auto

interpretation smap: ordered_map map_of map_put map_del map_ok
  by unfold_locales (simp_all add: map_put_look map_del_look map_put_ok map_del_ok)

lemma map_ok_distinct: "map_ok m \<Longrightarrow> distinct (map fst m)"
  unfolding map_ok_def by (simp add: strict_sorted_iff)

end
