(* ===== verification/WalletTx.thy ===== *)
theory WalletTx
  imports KeyPool SortedMap
begin

text \<open>
  The transactions of the wallet (\<open>wallet.cpp\<close>): adding and merging them, the order of the history, the
  amounts shown for them, and the supporting transactions.  \<open>book_env\<close> adds to the wallet's and the keys'
  parameters the block index (time of a block by its hash), the accounting entries of the wallet file and
  \<open>SetMerkleBranch\<close> of the missing \<open>main.h\<close>.  The external command of \<open>-walletnotify\<close> is output.
\<close>

record CAccountingEntry =
  ae_nOrderPos :: int64
  ae_nTime :: int64

datatype tx_item = Tx_item uint256 | Entry_item CAccountingEntry

record ('k, 'd) book_env =
  be_wallet :: "('k, 'd) wallet_env"
  be_keys :: "('k, 'd) key_env"
  be_have_gui :: bool
  be_block_time :: "uint256 \<Rightarrow> uint32 option"
  be_accounting :: "string \<Rightarrow> 'd \<Rightarrow> CAccountingEntry list"
  be_text :: "CTxDestination \<Rightarrow> string"
  be_CMerkleTx :: CMerkleTx
  be_SetMerkleBranch :: "CMerkleTx \<Rightarrow> int32 \<times> CMerkleTx"
  be_block_branch :: "CBlock \<Rightarrow> CMerkleTx \<Rightarrow> CMerkleTx"

definition IncOrderPosNext :: "('k, 'd) wallet_env \<Rightarrow> ('k, 'd) CWallet \<Rightarrow> int64 \<times> ('k, 'd) CWallet" where
  "IncOrderPosNext E w =
     (nOrderPosNext w, w\<lparr> nOrderPosNext := nOrderPosNext w + 1, w_db := we_WriteOrderPosNext E (nOrderPosNext w + 1) (w_db w) \<rparr>)"

text \<open>A multimap keeps entries with equal keys in the order of insertion.\<close>

definition OrderedTxItems :: "('k, 'd) book_env \<Rightarrow> string \<Rightarrow> ('k, 'd) CWallet \<Rightarrow> (int64 \<times> tx_item) list" where
  "OrderedTxItems B strAccount w =
     sort_key fst (map (\<lambda>(h, t). (nOrderPos t, Tx_item h)) (mapWallet w)
       @ map (\<lambda>e. (ae_nOrderPos e, Entry_item e)) (be_accounting B strAccount (w_db w)))"

definition WriteToDisk :: "('k, 'd) wallet_env \<Rightarrow> CWalletTx \<Rightarrow> ('k, 'd) CWallet \<Rightarrow> bool \<times> ('k, 'd) CWallet" where
  "WriteToDisk E t w = (case we_WriteTx E (GetHash E t) t (w_db w) of (ok, d) \<Rightarrow> (ok, w\<lparr> w_db := d \<rparr>))"

subsection \<open>Spent outputs\<close>

definition update_spent_one :: "('k, 'd) wallet_env \<Rightarrow> CTxIn \<Rightarrow> ('k, 'd) CWallet \<Rightarrow> ('k, 'd) CWallet" where
  "update_spent_one E txin w =
     (case map_of (mapWallet w) (op_hash (prevout txin)) of
        None \<Rightarrow> w
      | Some wtx \<Rightarrow>
          let n = unat (op_n (prevout txin)) in
          if n \<ge> length (vout wtx) then w
          else if \<not> we_IsSpent E n wtx \<and> we_IsMine E (w_keys w) (vout wtx ! n) then
            let wtx1 = we_MarkSpent E n wtx;
                w1 = w\<lparr> mapWallet := map_put (op_hash (prevout txin)) wtx1 (mapWallet w) \<rparr>
            in snd (WriteToDisk E wtx1 w1)
          else w)"

definition WalletUpdateSpent :: "('k, 'd) wallet_env \<Rightarrow> CTransaction \<Rightarrow> ('k, 'd) CWallet \<Rightarrow> ('k, 'd) CWallet" where
  "WalletUpdateSpent E tx w = fold (update_spent_one E) (vin tx) w"

subsection \<open>Adding a transaction\<close>

text \<open>The search from the latest entry back for one that is not too far in the future; the result is \<open>latestEntry\<close> and
  \<open>latestNow\<close>.\<close>

fun latest_entry :: "(uint256 \<times> CWalletTx) list \<Rightarrow> uint256 \<Rightarrow> int64 \<Rightarrow> uint32 \<Rightarrow> tx_item list \<Rightarrow> uint32 \<times> uint32" where
  "latest_entry m own latestTolerated latestNow [] = (0, latestNow)"
| "latest_entry m own latestTolerated latestNow (Tx_item h # items) =
     (if h = own then latest_entry m own latestTolerated latestNow items
      else
        let t = the (map_of m h); nSmartTime = (if nTimeSmart t \<noteq> 0 then nTimeSmart t else nTimeReceived t) in
        if uint nSmartTime \<le> latestTolerated then (nSmartTime, if nSmartTime > latestNow then nSmartTime else latestNow)
        else latest_entry m own latestTolerated latestNow items)"
| "latest_entry m own latestTolerated latestNow (Entry_item e # items) =
     (if ae_nTime e \<le> latestTolerated then
        (word_of_int (ae_nTime e), if ae_nTime e > uint latestNow then word_of_int (ae_nTime e) else latestNow)
      else latest_entry m own latestTolerated latestNow items)"

definition smart_time :: "('k, 'd) book_env \<Rightarrow> uint256 \<Rightarrow> CWalletTx \<Rightarrow> ('k, 'd) CWallet \<Rightarrow> uint32" where
  "smart_time B hash wtx w =
     (if mt_hashBlock wtx = 0 then nTimeReceived wtx
      else case be_block_time B (mt_hashBlock wtx) of
        None \<Rightarrow> nTimeReceived wtx
      | Some blocktime \<Rightarrow>
          let latestNow = nTimeReceived wtx;
              (latestEntry, latestNow) = latest_entry (mapWallet w) hash (uint (latestNow + 300)) latestNow
                (rev (map snd (OrderedTxItems B [] w)))
          in max latestEntry (min blocktime latestNow))"

text \<open>A new transaction is inserted and gets its times and its place in the history.\<close>

definition insert_new :: "('k, 'd) book_env \<Rightarrow> uint256 \<Rightarrow> CWalletTx \<Rightarrow> ('k, 'd) CWallet \<Rightarrow> ('k, 'd) CWallet" where
  "insert_new B hash wtxIn w0 =
     (let E = be_wallet B; now = word_of_int (we_adjusted E);
          (pos, w) = IncOrderPosNext E w0;
          wtx = wtxIn\<lparr> nTimeReceived := now, nOrderPos := pos, nTimeSmart := now \<rparr>;
          w1 = w\<lparr> mapWallet := map_put hash wtx (mapWallet w) \<rparr>
      in w1\<lparr> mapWallet := map_put hash (wtx\<lparr> nTimeSmart := smart_time B hash wtx w1 \<rparr>) (mapWallet w1) \<rparr>)"

text \<open>Merging what is new about a known transaction; the flag is \<open>fUpdated\<close>.\<close>

definition merge_tx :: "('k, 'd) wallet_env \<Rightarrow> CWalletTx \<Rightarrow> CWalletTx \<Rightarrow> bool \<times> CWalletTx" where
  "merge_tx E wtxIn t0 =
     (let b1 = (mt_hashBlock wtxIn \<noteq> 0 \<and> mt_hashBlock wtxIn \<noteq> mt_hashBlock t0);
          t1 = (if b1 then t0\<lparr> mt_hashBlock := mt_hashBlock wtxIn \<rparr> else t0);
          b2 = (mt_nIndex wtxIn \<noteq> - 1 \<and> (mt_vMerkleBranch wtxIn \<noteq> mt_vMerkleBranch t1 \<or> mt_nIndex wtxIn \<noteq> mt_nIndex t1));
          t2 = (if b2 then t1\<lparr> mt_vMerkleBranch := mt_vMerkleBranch wtxIn, mt_nIndex := mt_nIndex wtxIn \<rparr> else t1);
          b3 = (fFromMe wtxIn \<and> fFromMe wtxIn \<noteq> fFromMe t2);
          t3 = (if b3 then t2\<lparr> fFromMe := fFromMe wtxIn \<rparr> else t2);
          (b4, t4) = we_UpdateSpent E (vfSpent wtxIn) t3
      in (b1 \<or> b2 \<or> b3 \<or> b4, t4))"

definition SetAddressBookName :: "('k, 'd) book_env \<Rightarrow> CTxDestination \<Rightarrow> string \<Rightarrow> ('k, 'd) CWallet \<Rightarrow> bool \<times> ('k, 'd) CWallet" where
  "SetAddressBookName B address strName w =
     (let w1 = w\<lparr> mapAddressBook := (mapAddressBook w)(address \<mapsto> strName) \<rparr> in
      if \<not> fFileBacked w1 then (False, w1)
      else case we_WriteName (be_wallet B) (be_text B address) strName (w_db w1) of (ok, d) \<Rightarrow> (ok, w1\<lparr> w_db := d \<rparr>))"

definition DelAddressBookName :: "('k, 'd) book_env \<Rightarrow> CTxDestination \<Rightarrow> ('k, 'd) CWallet \<Rightarrow> bool \<times> ('k, 'd) CWallet" where
  "DelAddressBookName B address w =
     (let w1 = w\<lparr> mapAddressBook := (mapAddressBook w)(address := None) \<rparr> in
      if \<not> fFileBacked w1 then (False, w1)
      else case we_EraseName (be_wallet B) (be_text B address) (w_db w1) of (ok, d) \<Rightarrow> (ok, w1\<lparr> w_db := d \<rparr>))"

text \<open>For every output that pays to the default key, a new key is taken from the pool as the default key.  The script
  compared is the one computed before the loop.\<close>

primrec renew_default_key :: "('k, 'd) book_env \<Rightarrow> CScript \<Rightarrow> CTxOut list \<Rightarrow> ('k, 'd, unit) wm" where
  "renew_default_key B scriptDefaultKey [] = wret ()"
| "renew_default_key B scriptDefaultKey (txout # outs) =
     (if scriptPubKey txout = scriptDefaultKey then
        wbind (GetKeyFromPool (be_keys B) False) (\<lambda>key. case key of
            None \<Rightarrow> renew_default_key B scriptDefaultKey outs
          | Some newDefaultKey \<Rightarrow>
              wbind (SetDefaultKey (be_keys B) newDefaultKey) (\<lambda>_.
              wbind (wmod (\<lambda>w. snd (SetAddressBookName B (CKeyID (ke_id (be_keys B) (vchDefaultKey w))) [] w))) (\<lambda>_.
                renew_default_key B scriptDefaultKey outs)))
      else renew_default_key B scriptDefaultKey outs)"

definition AddToWallet :: "('k, 'd) book_env \<Rightarrow> CWalletTx \<Rightarrow> ('k, 'd, bool) wm" where
  "AddToWallet B wtxIn w0 =
     (let E = be_wallet B; hash = GetHash E wtxIn in
      case (case map_of (mapWallet w0) hash of
              None \<Rightarrow> (True, insert_new B hash wtxIn w0)
            | Some t0 \<Rightarrow> (case merge_tx E wtxIn t0 of (fUpdated, t) \<Rightarrow> (fUpdated, w0\<lparr> mapWallet := map_put hash t (mapWallet w0) \<rparr>)))
      of (fChanged, w1) \<Rightarrow>
        (case (if fChanged then WriteToDisk E (the (map_of (mapWallet w1) hash)) w1 else (True, w1)) of (ok, w2) \<Rightarrow>
           if \<not> ok then (Inr False, w2)
           else let wtx = the (map_of (mapWallet w2) hash) in wbind
             (if \<not> be_have_gui B \<and> CPubKey_IsValid (vchDefaultKey w2) then
                renew_default_key B (we_SetDestination E (CKeyID (ke_id (be_keys B) (vchDefaultKey w2)))) (vout wtx)
              else wret ())
             (\<lambda>_. wbind (wmod (WalletUpdateSpent E (tx_of wtx))) (\<lambda>_. wret True)) w2))"

definition AddToWalletIfInvolvingMe :: "('k, 'd) book_env \<Rightarrow> uint256 \<Rightarrow> CTransaction \<Rightarrow> CBlock option \<Rightarrow> bool \<Rightarrow> ('k, 'd, bool) wm" where
  "AddToWalletIfInvolvingMe B hash tx pblock fUpdate w =
     (let E = be_wallet B; fExisted = (map_of (mapWallet w) hash \<noteq> None) in
      if fExisted \<and> \<not> fUpdate then (Inr False, w)
      else if fExisted \<or> we_IsMine_tx E (w_keys w) tx \<or> we_IsFromMe E w tx then
        let wtx = we_make E tx;
            wtx = (case pblock of None \<Rightarrow> wtx
              | Some b \<Rightarrow> (let m = be_block_branch B b (CMerkleTx.truncate wtx)
                  in wtx\<lparr> mt_hashBlock := mt_hashBlock m, mt_vMerkleBranch := mt_vMerkleBranch m, mt_nIndex := mt_nIndex m \<rparr>))
        in AddToWallet B wtx w
      else (Inr False, WalletUpdateSpent E tx w))"

definition EraseFromWallet :: "('k, 'd) wallet_env \<Rightarrow> uint256 \<Rightarrow> ('k, 'd) CWallet \<Rightarrow> bool \<times> ('k, 'd) CWallet" where
  "EraseFromWallet E hash w =
     (if \<not> fFileBacked w then (False, w)
      else (True, if map_of (mapWallet w) hash \<noteq> None
        then w\<lparr> mapWallet := map_del hash (mapWallet w), w_db := we_EraseTx E hash (w_db w) \<rparr> else w))"

definition GetTransaction :: "uint256 \<Rightarrow> ('k, 'd) CWallet \<Rightarrow> CWalletTx option" where
  "GetTransaction hashTx w = map_of (mapWallet w) hashTx"


subsection \<open>What is shown of a transaction\<close>

definition GetTxTime :: "CWalletTx \<Rightarrow> int64" where
  "GetTxTime t = (let n = uint (nTimeSmart t) in if n \<noteq> 0 then n else uint (nTimeReceived t))"

definition GetRequestCount :: "('k, 'd) wallet_env \<Rightarrow> ('k, 'd) CWallet \<Rightarrow> CWalletTx \<Rightarrow> int32" where
  "GetRequestCount E w t =
     (if IsCoinBase (tx_of t) then
        (if mt_hashBlock t \<noteq> 0 then (case mapRequestCount w (mt_hashBlock t) of None \<Rightarrow> - 1 | Some n \<Rightarrow> n) else - 1)
      else case mapRequestCount w (GetHash E t) of
        None \<Rightarrow> - 1
      | Some n \<Rightarrow>
          if n = 0 \<and> mt_hashBlock t \<noteq> 0 then (case mapRequestCount w (mt_hashBlock t) of None \<Rightarrow> 1 | Some m \<Rightarrow> m) else n)"

text \<open>An output whose destination cannot be extracted is listed with a default destination.\<close>

definition out_destination :: "('k, 'd) wallet_env \<Rightarrow> CTxOut \<Rightarrow> CTxDestination" where
  "out_destination E txout = (case we_ExtractDestination E (scriptPubKey txout) of None \<Rightarrow> CNoDestination | Some a \<Rightarrow> a)"

definition GetAmounts :: "('k, 'd) wallet_env \<Rightarrow> ('k, 'd) CWallet \<Rightarrow> CWalletTx \<Rightarrow>
    (CTxDestination \<times> int64) list \<times> (CTxDestination \<times> int64) list \<times> int64 \<times> string" where
  "GetAmounts E w t =
     (let nDebit = we_GetDebit E w (tx_of t);
          nFee = (if nDebit > 0 then nDebit - we_GetValueOut E (tx_of t) else 0);
          shown = filter (\<lambda>txout. \<not> (nDebit > 0 \<and> IsChange E w txout)) (vout t);
          listSent = (if nDebit > 0 then map (\<lambda>txout. (out_destination E txout, nValue txout)) shown else []);
          listReceived = map (\<lambda>txout. (out_destination E txout, nValue txout)) (filter (we_IsMine E (w_keys w)) shown)
      in (listReceived, listSent, nFee, strFromAccount t))"

definition GetAccountAmounts :: "('k, 'd) wallet_env \<Rightarrow> ('k, 'd) CWallet \<Rightarrow> string \<Rightarrow> CWalletTx \<Rightarrow> int64 \<times> int64 \<times> int64" where
  "GetAccountAmounts E w strAccount t =
     (case GetAmounts E w t of (listReceived, listSent, allFee, strSentAccount) \<Rightarrow>
        let (nSent, nFee) = (if strAccount = strSentAccount then (sum_list (map snd listSent), allFee) else (0, 0));
            nReceived = (\<Sum>(a, v)\<leftarrow>listReceived. case mapAddressBook w a of
                Some name \<Rightarrow> if name = strAccount then v else 0
              | None \<Rightarrow> if strAccount = [] then v else 0)
        in (nReceived, nSent, nFee))"

definition GetAddressBalances :: "('k, 'd) wallet_env \<Rightarrow> ('k, 'd) CWallet \<Rightarrow> (CTxDestination \<rightharpoonup> int64)" where
  "GetAddressBalances E w =
     fold (\<lambda>(h, t) balances.
       if \<not> wtx_final E t \<or> \<not> we_IsConfirmed E w t then balances
       else if IsCoinBase (tx_of t) \<and> we_maturity E (CMerkleTx.truncate t) > 0 then balances
       else if depth_of E t < (if from_me E w t then 0 else 1) then balances
       else fold (\<lambda>i balances.
              if \<not> we_IsMine E (w_keys w) (vout t ! i) then balances
              else case we_ExtractDestination E (scriptPubKey (vout t ! i)) of
                None \<Rightarrow> balances
              | Some addr \<Rightarrow>
                  let n = (if we_IsSpent E i t then 0 else nValue (vout t ! i))
                  in balances(addr \<mapsto> (case balances addr of None \<Rightarrow> 0 | Some b \<Rightarrow> b) + n))
            [0..<length (vout t)] balances)
     (mapWallet w) Map.empty"

subsection \<open>Calls that leave the transactions alone\<close>

definition same_txs :: "('k, 'd) CWallet \<Rightarrow> ('k, 'd) CWallet \<Rightarrow> bool" where
  "same_txs w w' \<longleftrightarrow> mapWallet w' = mapWallet w \<and> nOrderPosNext w' = nOrderPosNext w \<and> setLockedCoins w' = setLockedCoins w"

definition quiet :: "('k, 'd, 'a) wm \<Rightarrow> bool" where
  "quiet m \<longleftrightarrow> (\<forall>w. same_txs w (snd (m w)))"

named_theorems quiet_intros \<open>calls that leave the transactions of the wallet alone\<close>

lemma same_txs_refl [simp]: "same_txs w w"
  by (simp add: same_txs_def)

lemma same_txs_trans: "same_txs a b \<Longrightarrow> same_txs b c \<Longrightarrow> same_txs a c"
  by (simp add: same_txs_def)

lemma quietD: "quiet m \<Longrightarrow> m w = (r, w') \<Longrightarrow> same_txs w w'"
  unfolding quiet_def by (metis snd_conv)

lemma quietI: "(\<And>w r w'. m w = (r, w') \<Longrightarrow> same_txs w w') \<Longrightarrow> quiet m"
  unfolding quiet_def by (metis prod.collapse)

lemma quiet_basic [quiet_intros]: "quiet (wret x)" "quiet (wthrow e)" "quiet (wget g)" "quiet (wlift r)" "quiet (wkeys f)" "quiet (wdb f')"
  by (auto simp: quiet_def same_txs_def wret_def wthrow_def wget_def wlift_def wkeys_def wdb_def split: prod.splits)

lemma quiet_bind [quiet_intros]:
  assumes "quiet m" "\<And>x. quiet (f x)"
  shows "quiet (wbind m f)"
proof (rule quietI)
  fix w r w'
  assume b: "wbind m f w = (r, w')"
  obtain q w1 where q: "m w = (q, w1)" by (cases "m w")
  note s = quietD [OF assms(1) q]
  show "same_txs w w'"
  proof (cases q)
    case (Inr x)
    then have "f x w1 = (r, w')" using b q by (simp add: wbind_def)
    from same_txs_trans [OF s quietD [OF assms(2) this]] show ?thesis .
  qed (use b q s in \<open>simp add: wbind_def\<close>)
qed

lemma quiet_if [quiet_intros]: "quiet a \<Longrightarrow> quiet b \<Longrightarrow> quiet (if c then a else b)"
  by simp

lemma quiet_prod [quiet_intros]: "(\<And>x y. quiet (f x y)) \<Longrightarrow> quiet (case p of (x, y) \<Rightarrow> f x y)"
  by (cases p) simp

lemma quiet_option [quiet_intros]: "quiet a \<Longrightarrow> (\<And>x. quiet (f x)) \<Longrightarrow> quiet (case r of None \<Rightarrow> a | Some x \<Rightarrow> f x)"
  by (cases r) simp_all

lemma quiet_wmod: "(\<And>w. same_txs w (g w)) \<Longrightarrow> quiet (wmod g)"
  by (simp add: quiet_def wmod_def)

lemma quiet_AddKeyPubKey [quiet_intros]: "quiet (AddKeyPubKey K s p n)"
proof -
  have m: "quiet (wbind (wkeys (ke_AddKeyPubKey K s p)) (\<lambda>ok.
          if \<not> ok then wret False
          else wbind (wget (\<lambda>w. (fFileBacked w, ke_IsCrypted K (w_keys w)))) (\<lambda>(backed, crypted).
            if \<not> backed then wret True
            else if \<not> crypted then wbind (wlift (CKey_GetPrivKey (ke_ec K) s)) (\<lambda>priv. wdb (ke_WriteKey K p priv t))
            else wret True)))" for t
    by (intro quiet_intros)
  show ?thesis
  proof (rule quietI)
    fix w r w'
    assume r: "AddKeyPubKey K s p n w = (r, w')"
    obtain t w1 where n: "note_key_time K n (0, w) = (t, w1)" by (cases "note_key_time K n (0, w)")
    then have "same_txs w w1" by (auto simp: note_key_time_def same_txs_def Let_def split: if_splits)
    then show "same_txs w w'"
      using quietD [OF m r [unfolded AddKeyPubKey_def n prod.case]] by (rule same_txs_trans)
  qed
qed

lemma quiet_GenerateNewKey [quiet_intros]: "quiet (GenerateNewKey K)"
  unfolding GenerateNewKey_def
  by (intro quiet_intros quiet_wmod) (simp add: SetMinVersion_def same_txs_def Let_def)

lemma top_up_quiet:
  assumes "top_up K n w = Some p"
  shows "same_txs w (snd p)"
  using assms
proof (rule top_up.raw_induct [rotated])
  fix rec K n and w :: "('a, 'b) CWallet" and p
  assume rec: "\<And>K n w p. rec K n w = Some p \<Longrightarrow> same_txs w (snd p)"
    and eq: "(if card (setKeyPool w) < n + 1 then
        let nEnd = (if setKeyPool w \<noteq> {} then Max (setKeyPool w) + 1 else 1) in
        (case wbind (GenerateNewKey K) (\<lambda>pubkey. wdb (ke_WritePool K nEnd (ke_CKeyPool K pubkey))) w of
           (Inl e, w1) \<Rightarrow> Some (Inl e, w1)
         | (Inr ok, w1) \<Rightarrow>
             if \<not> ok then Some (Inl (Thrown ''TopUpKeyPool() : writing generated key failed''), w1)
             else rec K n (w1\<lparr> setKeyPool := insert nEnd (setKeyPool w1) \<rparr>))
      else Some (Inr (), w)) = Some p"
  define m where "m = (if setKeyPool w \<noteq> {} then Max (setKeyPool w) + 1 else 1)"
  obtain q w1 where q: "wbind (GenerateNewKey K) (\<lambda>pubkey. wdb (ke_WritePool K m (ke_CKeyPool K pubkey))) w = (q, w1)"
    by (cases "wbind (GenerateNewKey K) (\<lambda>pubkey. wdb (ke_WritePool K m (ke_CKeyPool K pubkey))) w")
  have "quiet (wbind (GenerateNewKey K) (\<lambda>pubkey. wdb (ke_WritePool K m (ke_CKeyPool K pubkey))))" by (intro quiet_intros)
  from this q have s: "same_txs w w1" by (rule quietD)
  have later: "same_txs w1 (snd p)" if "rec K n (w1\<lparr> setKeyPool := insert m (setKeyPool w1) \<rparr>) = Some p"
    using rec [OF that] by (simp add: same_txs_def)
  show "same_txs w (snd p)"
    using eq s same_txs_trans [OF s later] unfolding m_def [symmetric] Let_def q
    by (auto split: if_splits sum.splits)
qed

lemma Reserve_same:
  assumes "ReserveKeyFromKeyPool K w = (i, x, w1)"
  shows "same_txs w w1"
proof -
  obtain q v where top: "(if \<not> ke_IsLocked K (w_keys w) then TopUpKeyPool K w else (Inr True, w)) = (q, v)"
    by (cases "if \<not> ke_IsLocked K (w_keys w) then TopUpKeyPool K w else (Inr True, w)")
  then have s: "same_txs w v"
    using top_up_quiet [of K "nat (max (ke_keypool K) 0)" w]
    by (auto simp: TopUpKeyPool_def split: if_splits option.splits sum.splits)
  have "same_txs v w1"
    using assms unfolding ReserveKeyFromKeyPool_def top by (auto simp: same_txs_def Let_def split: if_splits option.splits sum.splits)
  with s show ?thesis by (rule same_txs_trans)
qed

lemma quiet_GetKeyFromPool [quiet_intros]: "quiet (GetKeyFromPool K reuse)"
proof (rule quietI)
  fix w r w'
  assume r: "GetKeyFromPool K reuse w = (r, w')"
  obtain i x w1 where res: "ReserveKeyFromKeyPool K w = (i, x, w1)" by (cases "ReserveKeyFromKeyPool K w")
  note s1 = Reserve_same [OF res]
  have g: "same_txs w1 w2" if "wbind (GenerateNewKey K) (\<lambda>result. wret (Some result)) w1 = (r', w2)" for r' w2
  proof -
    have "quiet (wbind (GenerateNewKey K) (\<lambda>result. wret (Some result)))" by (intro quiet_intros)
    then show ?thesis using that by (rule quietD)
  qed
  show "same_txs w w'"
    using r s1 same_txs_trans [OF s1 g] by (auto simp: GetKeyFromPool_def res KeepKey_def same_txs_def split: if_splits sum.splits)
qed

lemma quiet_renew_default_key [quiet_intros]: "quiet (renew_default_key B sc outs)"
proof (induction outs)
  case (Cons out outs)
  then show ?case
    by (auto simp: SetDefaultKey_def SetAddressBookName_def same_txs_def Let_def intro!: quiet_intros quiet_wmod split: prod.splits)
qed (simp add: quiet_intros)

subsection \<open>The transactions the wallet holds\<close>

text \<open>The member functions of the missing header that mark outputs change nothing but the marks.\<close>

definition wallet_env_ok :: "('k, 'd) wallet_env \<Rightarrow> bool" where
  "wallet_env_ok E \<longleftrightarrow>
     (\<forall>n t. tx_of (we_MarkSpent E n t) = tx_of t \<and> nOrderPos (we_MarkSpent E n t) = nOrderPos t \<and>
        (\<forall>i. we_IsSpent E i (we_MarkSpent E n t) \<longleftrightarrow> i = n \<or> we_IsSpent E i t)) \<and>
     (\<forall>v t. tx_of (snd (we_UpdateSpent E v t)) = tx_of t \<and> nOrderPos (snd (we_UpdateSpent E v t)) = nOrderPos t \<and>
        (\<forall>i. we_IsSpent E i t \<longrightarrow> we_IsSpent E i (snd (we_UpdateSpent E v t)))) \<and>
     (\<forall>t t'. tx_of t' = tx_of t \<longrightarrow> vfSpent t' = vfSpent t \<longrightarrow> (\<forall>i. we_IsSpent E i t' = we_IsSpent E i t))"

lemma mark_same:
  assumes "wallet_env_ok E"
  shows "tx_of (we_MarkSpent E n t) = tx_of t" "nOrderPos (we_MarkSpent E n t) = nOrderPos t"
    "we_IsSpent E i (we_MarkSpent E n t) \<longleftrightarrow> i = n \<or> we_IsSpent E i t"
  using assms unfolding wallet_env_ok_def by blast+

lemma update_same:
  assumes "wallet_env_ok E"
  shows "tx_of (snd (we_UpdateSpent E v t)) = tx_of t" "nOrderPos (snd (we_UpdateSpent E v t)) = nOrderPos t"
    "we_IsSpent E i t \<Longrightarrow> we_IsSpent E i (snd (we_UpdateSpent E v t))"
    "tx_of t' = tx_of t \<Longrightarrow> vfSpent t' = vfSpent t \<Longrightarrow> we_IsSpent E i t' = we_IsSpent E i t"
  using assms unfolding wallet_env_ok_def by blast+

text \<open>The map is ordered, files every transaction under its hash, and the places in the history are distinct and
  below the next one.\<close>

definition wallet_wf :: "('k, 'd) wallet_env \<Rightarrow> ('k, 'd) CWallet \<Rightarrow> bool" where
  "wallet_wf E w \<longleftrightarrow> map_ok (mapWallet w) \<and>
     (\<forall>h t. map_of (mapWallet w) h = Some t \<longrightarrow> GetHash E t = h \<and> nOrderPos t < nOrderPosNext w) \<and>
     (\<forall>h h' t t'. map_of (mapWallet w) h = Some t \<longrightarrow> map_of (mapWallet w) h' = Some t' \<longrightarrow> nOrderPos t = nOrderPos t' \<longrightarrow> h = h')"

definition wallet_txs :: "('k, 'd) CWallet \<Rightarrow> uint256 \<rightharpoonup> CTransaction" where
  "wallet_txs w h = map_option tx_of (map_of (mapWallet w) h)"

lemma GetHash_cong: "tx_of t = tx_of t' \<Longrightarrow> GetHash E t = GetHash E t'"
  by (simp add: GetHash_def)

lemma same_txs_wf: "same_txs w w' \<Longrightarrow> wallet_wf E w \<Longrightarrow> wallet_wf E w' \<and> wallet_txs w' = wallet_txs w"
  by (simp add: same_txs_def wallet_wf_def wallet_txs_def fun_eq_iff)

text \<open>Replacing a transaction by one with the same contents and place.\<close>

lemma wallet_put_same:
  assumes wf: "wallet_wf E w" and t: "map_of (mapWallet w) h = Some t" "tx_of t' = tx_of t" "nOrderPos t' = nOrderPos t"
    and w': "mapWallet w' = map_put h t' (mapWallet w)" "nOrderPosNext w' = nOrderPosNext w"
  shows "wallet_wf E w' \<and> wallet_txs w' = wallet_txs w"
proof -
  have ok: "map_ok (mapWallet w)" using wf by (simp add: wallet_wf_def)
  note put = smap.look_put [OF ok] smap.ok_put [OF ok]
  have "GetHash E t = h" using wf t(1) unfolding wallet_wf_def by blast
  then have "GetHash E t' = h" using GetHash_cong [OF t(2), of E] by simp
  then have "wallet_wf E w'"
    using wf t(1,3) unfolding wallet_wf_def w' put(1) by (auto simp: put(2) split: if_splits)
  moreover have "wallet_txs w' = wallet_txs w"
    using t(1,2) by (auto simp: fun_eq_iff wallet_txs_def w' put(1))
  ultimately show ?thesis by simp
qed

lemma WriteToDisk_same: "same_txs w (snd (WriteToDisk E t w))"
  by (simp add: WriteToDisk_def same_txs_def split: prod.splits)

lemma update_spent_one_wf:
  assumes E: "wallet_env_ok E" and wf: "wallet_wf E w"
  shows "wallet_wf E (update_spent_one E txin w) \<and> wallet_txs (update_spent_one E txin w) = wallet_txs w"
proof (cases "map_of (mapWallet w) (op_hash (prevout txin))")
  case (Some t)
  let ?n = "unat (op_n (prevout txin))"
  let ?w = "w\<lparr> mapWallet := map_put (op_hash (prevout txin)) (we_MarkSpent E ?n t) (mapWallet w) \<rparr>"
  have "wallet_wf E ?w \<and> wallet_txs ?w = wallet_txs w"
    by (intro wallet_put_same [OF wf Some, of "we_MarkSpent E ?n t"]) (simp_all add: mark_same [OF E])
  then have "wallet_wf E (snd (WriteToDisk E t' ?w)) \<and> wallet_txs (snd (WriteToDisk E t' ?w)) = wallet_txs w" for t'
    using same_txs_wf [OF WriteToDisk_same, of E ?w] by metis
  then show ?thesis using wf Some by (simp add: update_spent_one_def Let_def)
qed (use wf in \<open>simp add: update_spent_one_def\<close>)

lemma WalletUpdateSpent_wf:
  assumes "wallet_env_ok E" "wallet_wf E w"
  shows "wallet_wf E (WalletUpdateSpent E tx w) \<and> wallet_txs (WalletUpdateSpent E tx w) = wallet_txs w"
proof -
  have "wallet_wf E (fold (update_spent_one E) ins w) \<and> wallet_txs (fold (update_spent_one E) ins w) = wallet_txs w" for ins
    using assms(2) update_spent_one_wf [OF assms(1)] by (induction ins arbitrary: w) simp_all
  then show ?thesis by (simp add: WalletUpdateSpent_def)
qed

lemma insert_new_wf:
  assumes wf: "wallet_wf (be_wallet B) w" and new: "map_of (mapWallet w) h = None" and h: "h = GetHash (be_wallet B) t"
  shows "wallet_wf (be_wallet B) (insert_new B h t w) \<and> wallet_txs (insert_new B h t w) = (wallet_txs w)(h \<mapsto> tx_of t) \<and>
    nOrderPosNext (insert_new B h t w) = nOrderPosNext w + 1"
proof -
  let ?E = "be_wallet B"
  have ok: "map_ok (mapWallet w)" using wf by (simp add: wallet_wf_def)
  let ?w = "insert_new B h t w"
  obtain r x where s: "mapWallet ?w = map_put h (r\<lparr> nTimeSmart := x \<rparr>) (map_put h r (mapWallet w))"
      "tx_of r = tx_of t" "nOrderPos r = nOrderPosNext w" "nOrderPosNext ?w = nOrderPosNext w + 1"
  proof (rule that)
    let ?now = "word_of_int (we_adjusted ?E) :: uint32"
    let ?r = "t\<lparr> nTimeReceived := ?now, nOrderPos := nOrderPosNext w, nTimeSmart := ?now \<rparr>"
    let ?v = "snd (IncOrderPosNext ?E w)"
    show "mapWallet ?w = map_put h (?r\<lparr> nTimeSmart := smart_time B h ?r (?v\<lparr> mapWallet := map_put h ?r (mapWallet ?v) \<rparr>) \<rparr>)
        (map_put h ?r (mapWallet w))"
      by (simp add: insert_new_def IncOrderPosNext_def Let_def)
    show "tx_of ?r = tx_of t" "nOrderPos ?r = nOrderPosNext w" by (simp_all add: CTransaction.truncate_def)
    show "nOrderPosNext ?w = nOrderPosNext w + 1" by (simp add: insert_new_def IncOrderPosNext_def Let_def)
  qed
  let ?s = "r\<lparr> nTimeSmart := x \<rparr>"
  have tx: "tx_of ?s = tx_of t" "nOrderPos ?s = nOrderPosNext w" using s(2,3) by (simp_all add: CTransaction.truncate_def)
  have look: "map_of (mapWallet ?w) j = (if j = h then Some ?s else map_of (mapWallet w) j)" for j
    unfolding s(1) using smap.look_put [OF smap.ok_put [OF ok]] smap.look_put [OF ok] by simp
  have ok': "map_ok (mapWallet ?w)" unfolding s(1) by (intro smap.ok_put ok)
  have hash: "GetHash ?E ?s = h" using GetHash_cong [OF tx(1), of ?E] h by simp
  have old: "nOrderPos t' < nOrderPosNext w" "GetHash ?E t' = j" if "map_of (mapWallet w) j = Some t'" for j t'
    using wf that unfolding wallet_wf_def by blast+
  have inj: "j = j'" if "map_of (mapWallet w) j = Some t'" "map_of (mapWallet w) j' = Some t''" "nOrderPos t' = nOrderPos t''" for j j' t' t''
    using wf that unfolding wallet_wf_def by blast
  have fresh: "nOrderPos t' \<noteq> nOrderPosNext w" if "map_of (mapWallet w) j = Some t'" for j t' using old(1) [OF that] by simp
  have "wallet_wf ?E ?w"
    unfolding wallet_wf_def look s(4)
  proof (intro conjI allI impI ok')
    fix j t'
    assume "(if j = h then Some ?s else map_of (mapWallet w) j) = Some t'"
    then show "GetHash ?E t' = j" "nOrderPos t' < nOrderPosNext w + 1"
      using hash tx(2) old by (auto split: if_splits) (force dest: old)
  next
    fix j j' t' t''
    assume "(if j = h then Some ?s else map_of (mapWallet w) j) = Some t'" "(if j' = h then Some ?s else map_of (mapWallet w) j') = Some t''"
      "nOrderPos t' = nOrderPos t''"
    then show "j = j'" using tx(2) fresh inj by (cases "j = h"; cases "j' = h") auto
  qed
  moreover have "wallet_txs ?w = (wallet_txs w)(h \<mapsto> tx_of t)"
    using tx(1) by (auto simp: fun_eq_iff wallet_txs_def look)
  ultimately show ?thesis using s(4) by simp
qed


lemma merge_tx_same:
  assumes "wallet_env_ok E" "merge_tx E tIn t = (b, t')"
  shows "tx_of t' = tx_of t" "nOrderPos t' = nOrderPos t" "we_IsSpent E i t \<Longrightarrow> we_IsSpent E i t'"
proof -
  note upd = update_same [OF assms(1)]
  obtain s where s: "t' = snd (we_UpdateSpent E (vfSpent tIn) s)" "tx_of s = tx_of t" "nOrderPos s = nOrderPos t" "vfSpent s = vfSpent t"
  proof -
    have keep: "tx_of (if c then s else t) = tx_of t" "nOrderPos (if c then s else t) = nOrderPos t" "vfSpent (if c then s else t) = vfSpent t"
      if "tx_of s = tx_of t" "nOrderPos s = nOrderPos t" "vfSpent s = vfSpent t" for c and s t :: CWalletTx
      using that by simp_all
    let ?t1 = "if mt_hashBlock tIn \<noteq> 0 \<and> mt_hashBlock tIn \<noteq> mt_hashBlock t then t\<lparr> mt_hashBlock := mt_hashBlock tIn \<rparr> else t"
    let ?t2 = "if mt_nIndex tIn \<noteq> - 1 \<and> (mt_vMerkleBranch tIn \<noteq> mt_vMerkleBranch ?t1 \<or> mt_nIndex tIn \<noteq> mt_nIndex ?t1)
      then ?t1\<lparr> mt_vMerkleBranch := mt_vMerkleBranch tIn, mt_nIndex := mt_nIndex tIn \<rparr> else ?t1"
    let ?t3 = "if fFromMe tIn \<and> fFromMe tIn \<noteq> fFromMe ?t2 then ?t2\<lparr> fFromMe := fFromMe tIn \<rparr> else ?t2"
    have "t' = snd (we_UpdateSpent E (vfSpent tIn) ?t3)"
    proof -
      have "snd (merge_tx E tIn t) = snd (we_UpdateSpent E (vfSpent tIn) ?t3)"
        unfolding merge_tx_def Let_def case_prod_unfold snd_conv by (rule refl)
      then show ?thesis unfolding assms(2) snd_conv .
    qed
    moreover have "tx_of ?t1 = tx_of t" "nOrderPos ?t1 = nOrderPos t" "vfSpent ?t1 = vfSpent t" by (rule keep; simp add: CTransaction.truncate_def)+
    moreover have "tx_of ?t2 = tx_of ?t1" "nOrderPos ?t2 = nOrderPos ?t1" "vfSpent ?t2 = vfSpent ?t1" by (rule keep; simp add: CTransaction.truncate_def)+
    moreover have "tx_of ?t3 = tx_of ?t2" "nOrderPos ?t3 = nOrderPos ?t2" "vfSpent ?t3 = vfSpent ?t2" by (rule keep; simp add: CTransaction.truncate_def)+
    ultimately show thesis by (intro that [of ?t3]) (simp_all only:)
  qed
  then show "tx_of t' = tx_of t" "nOrderPos t' = nOrderPos t" using upd(1,2) by simp_all
  have "we_IsSpent E i s = we_IsSpent E i t" by (rule upd(4) [OF s(2,4)])
  then show "we_IsSpent E i t \<Longrightarrow> we_IsSpent E i t'" using upd(3) s(1) by simp
qed

text \<open>The changes \<open>AddToWallet\<close> makes to the transactions: the new or merged entry, then, if it gets that far, the marks.\<close>

lemma AddToWallet_steps:
  assumes r: "AddToWallet B t w = (r, w')"
  obtains w1 w2 where
    "w1 = (case map_of (mapWallet w) (GetHash (be_wallet B) t) of None \<Rightarrow> insert_new B (GetHash (be_wallet B) t) t w
      | Some t0 \<Rightarrow> w\<lparr> mapWallet := map_put (GetHash (be_wallet B) t) (snd (merge_tx (be_wallet B) t t0)) (mapWallet w) \<rparr>)"
    "same_txs w1 w2"
    "r \<noteq> Inr True \<and> w' = w2 \<or>
     r = Inr True \<and> w' = WalletUpdateSpent (be_wallet B) (tx_of (the (map_of (mapWallet w2) (GetHash (be_wallet B) t)))) w2"
proof -
  let ?E = "be_wallet B"
  let ?h = "GetHash ?E t"
  define first where "first = (case map_of (mapWallet w) ?h of
      None \<Rightarrow> (True, insert_new B ?h t w)
    | Some t0 \<Rightarrow> (case merge_tx ?E t t0 of (fUpdated, t') \<Rightarrow> (fUpdated, w\<lparr> mapWallet := map_put ?h t' (mapWallet w) \<rparr>)))"
  obtain c w1 where c: "first = (c, w1)" by (cases first)
  then have one: "w1 = (case map_of (mapWallet w) ?h of None \<Rightarrow> insert_new B ?h t w
      | Some t0 \<Rightarrow> w\<lparr> mapWallet := map_put ?h (snd (merge_tx ?E t t0)) (mapWallet w) \<rparr>)"
    by (auto simp: first_def case_prod_unfold split: option.splits)
  obtain ok w2 where ok: "(if c then WriteToDisk ?E (the (map_of (mapWallet w1) ?h)) w1 else (True, w1)) = (ok, w2)"
    by (cases "if c then WriteToDisk ?E (the (map_of (mapWallet w1) ?h)) w1 else (True, w1)")
  then have two: "same_txs w1 w2" using WriteToDisk_same [of w1 ?E "the (map_of (mapWallet w1) ?h)"] by (auto split: if_splits)
  let ?wtx = "the (map_of (mapWallet w2) ?h)"
  define q where "q = (if \<not> be_have_gui B \<and> CPubKey_IsValid (vchDefaultKey w2) then
      renew_default_key B (we_SetDestination ?E (CKeyID (ke_id (be_keys B) (vchDefaultKey w2)))) (vout ?wtx) else wret ())"
  have r': "(r, w') = (if \<not> ok then (Inr False, w2)
      else wbind q (\<lambda>_. wbind (wmod (WalletUpdateSpent ?E (tx_of ?wtx))) (\<lambda>_. wret True)) w2)"
    using r unfolding AddToWallet_def Let_def first_def [symmetric] c prod.case ok q_def by (rule sym)
  show ?thesis
  proof (cases ok)
    case False
    then show ?thesis using that [OF one two] r' by simp
  next
    case True
    obtain x w3 where x: "q w2 = (x, w3)" by (cases "q w2")
    have "quiet q" unfolding q_def by (intro quiet_intros)
    then have q: "same_txs w2 w3" using x by (rule quietD)
    then have three: "same_txs w1 w3" using two by (rule same_txs_trans [rotated])
    have "mapWallet w3 = mapWallet w2" using q by (simp add: same_txs_def)
    then show ?thesis
      using that [OF one three] r' True x by (cases x) (simp_all add: wbind_def wmod_def wret_def)
  qed
qed

lemma AddToWallet_cases:
  assumes E: "wallet_env_ok (be_wallet B)" and wf: "wallet_wf (be_wallet B) w" and r: "AddToWallet B t w = (r, w')"
  shows "wallet_wf (be_wallet B) w' \<and>
    wallet_txs w' = (wallet_txs w)(GetHash (be_wallet B) t \<mapsto>
       (case wallet_txs w (GetHash (be_wallet B) t) of None \<Rightarrow> tx_of t | Some x \<Rightarrow> x)) \<and>
    (r = Inr True \<longrightarrow> (\<exists>v. wallet_wf (be_wallet B) v \<and>
       w' = WalletUpdateSpent (be_wallet B) (the (wallet_txs w' (GetHash (be_wallet B) t))) v))"
proof -
  let ?E = "be_wallet B"
  let ?h = "GetHash ?E t"
  let ?txs = "(wallet_txs w)(?h \<mapsto> (case wallet_txs w ?h of None \<Rightarrow> tx_of t | Some x \<Rightarrow> x))"
  obtain w1 w2 where s: "w1 = (case map_of (mapWallet w) ?h of None \<Rightarrow> insert_new B ?h t w
      | Some t0 \<Rightarrow> w\<lparr> mapWallet := map_put ?h (snd (merge_tx ?E t t0)) (mapWallet w) \<rparr>)" "same_txs w1 w2"
    "r \<noteq> Inr True \<and> w' = w2 \<or> r = Inr True \<and> w' = WalletUpdateSpent ?E (tx_of (the (map_of (mapWallet w2) ?h))) w2"
    using AddToWallet_steps [OF r] by blast
  have "wallet_wf ?E w1 \<and> wallet_txs w1 = ?txs"
  proof (cases "map_of (mapWallet w) ?h")
    case None
    then show ?thesis using insert_new_wf [OF wf None refl] s(1) by (simp add: wallet_txs_def)
  next
    case (Some t0)
    obtain b t' where m: "merge_tx ?E t t0 = (b, t')" by (cases "merge_tx ?E t t0")
    then have "w1 = w\<lparr> mapWallet := map_put ?h t' (mapWallet w) \<rparr>" using s(1) Some by simp
    then have "wallet_wf ?E w1 \<and> wallet_txs w1 = wallet_txs w"
      using wallet_put_same [OF wf Some merge_tx_same(1,2) [OF E m]] by simp
    then show ?thesis using Some by (auto simp: wallet_txs_def fun_upd_idem_iff)
  qed
  then have two: "wallet_wf ?E w2 \<and> wallet_txs w2 = ?txs" using same_txs_wf s(2) by metis
  have "tx_of (the (map_of (mapWallet w2) ?h)) = the (?txs ?h)"
    using conjunct2 [OF two, THEN fun_cong, of ?h] by (auto simp: wallet_txs_def)
  then show ?thesis using s(3) two WalletUpdateSpent_wf [OF E, of w2] by metis
qed


subsection \<open>No coin is spent twice\<close>

definition spent_in :: "('k, 'd) wallet_env \<Rightarrow> ('k, 'd) CWallet \<Rightarrow> COutPoint \<Rightarrow> bool" where
  "spent_in E w outp \<longleftrightarrow> (\<forall>t. map_of (mapWallet w) (op_hash outp) = Some t \<longrightarrow> unat (op_n outp) < length (vout t) \<longrightarrow>
     we_IsMine E (w_keys w) (vout t ! unat (op_n outp)) \<longrightarrow> we_IsSpent E (unat (op_n outp)) t)"

lemma update_spent_one_marks:
  assumes E: "wallet_env_ok E" and wf: "wallet_wf E w"
  shows "spent_in E (update_spent_one E txin w) (prevout txin) \<and>
    (spent_in E w outp \<longrightarrow> spent_in E (update_spent_one E txin w) outp)"
proof (cases "map_of (mapWallet w) (op_hash (prevout txin))")
  case (Some t)
  let ?h = "op_hash (prevout txin)" and ?n = "unat (op_n (prevout txin))"
  let ?w = "w\<lparr> mapWallet := map_put ?h (we_MarkSpent E ?n t) (mapWallet w) \<rparr>"
  have ok: "map_ok (mapWallet w)" using wf by (simp add: wallet_wf_def)
  have mark: "vout (we_MarkSpent E ?n t) = vout t" "we_IsSpent E i (we_MarkSpent E ?n t) \<longleftrightarrow> i = ?n \<or> we_IsSpent E i t" for i
    using mark_same(1) [OF E] by (metis tx_of_simps(2)) (rule mark_same(3) [OF E])
  have marked: "spent_in E ?w (prevout txin) \<and> (spent_in E w outp \<longrightarrow> spent_in E ?w outp)"
    using mark Some by (auto simp: spent_in_def smap.look_put [OF ok])
  have disk: "spent_in E (snd (WriteToDisk E t' v)) o' = spent_in E v o'" for t' v o'
    by (simp add: spent_in_def WriteToDisk_def split: prod.splits)
  show ?thesis
    using marked disk Some by (auto simp: update_spent_one_def Let_def spent_in_def)
qed (auto simp: update_spent_one_def spent_in_def)

lemma WalletUpdateSpent_marks:
  assumes E: "wallet_env_ok E" and wf: "wallet_wf E w" and i: "txin \<in> set (vin tx)"
  shows "spent_in E (WalletUpdateSpent E tx w) (prevout txin)"
proof -
  have keep: "spent_in E v outp \<Longrightarrow> wallet_wf E v \<Longrightarrow> spent_in E (fold (update_spent_one E) ins v) outp" for ins v outp
    using update_spent_one_marks [OF E] update_spent_one_wf [OF E] by (induction ins arbitrary: v) simp_all
  have "wallet_wf E v \<Longrightarrow> txin \<in> set ins \<Longrightarrow> spent_in E (fold (update_spent_one E) ins v) (prevout txin)" for ins v
    using update_spent_one_marks [OF E] update_spent_one_wf [OF E] keep by (induction ins arbitrary: v) auto
  then show ?thesis using wf i by (simp add: WalletUpdateSpent_def)
qed

text \<open>Once a transaction has been added, none of the wallet's outputs it spends can be selected for another payment.\<close>

theorem AddToWallet_spends:
  assumes E: "wallet_env_ok (be_wallet B)" and wf: "wallet_wf (be_wallet B) w" and r: "AddToWallet B t w = (Inr True, w')"
    and new: "wallet_txs w (GetHash (be_wallet B) t) = None" and i: "txin \<in> set (vin t)"
  shows "\<not> spendable (be_wallet B) only w' (op_hash (prevout txin)) t' (unat (op_n (prevout txin)))"
proof -
  let ?E = "be_wallet B"
  have c: "wallet_wf ?E w'" "wallet_txs w' (GetHash ?E t) = Some (tx_of t)"
    using AddToWallet_cases [OF E wf r] new by simp_all
  obtain v where v: "w' = WalletUpdateSpent ?E (tx_of t) v" "wallet_wf ?E v"
    using AddToWallet_cases [OF E wf r] c(2) by auto
  from v(2) have "spent_in ?E w' (prevout txin)" unfolding v(1) using i by (intro WalletUpdateSpent_marks [OF E]) simp_all
  moreover have "map_of (mapWallet w') h = Some t'" if "(h, t') \<in> set (mapWallet w')" for h
  proof -
    have "distinct (map fst (mapWallet w'))" using c(1) by (intro map_ok_distinct) (simp add: wallet_wf_def)
    then show ?thesis using that by simp
  qed
  ultimately show ?thesis by (auto simp: spendable_def spent_in_def)
qed

subsection \<open>Amounts and times\<close>

text \<open>For a transaction we sent, what \<open>GetAmounts\<close> lists as sent, the change it hides and the fee add up to the debit;
  what it lists as received are the shown outputs that are ours, and without a debit there is no fee and nothing sent.\<close>

theorem GetAmounts_balance:
  assumes "we_GetValueOut E (tx_of t) = (\<Sum>out\<leftarrow>vout t. nValue out)" and "GetAmounts E w t = (received, sent, fee, account)"
  shows "if we_GetDebit E w (tx_of t) > 0
    then sum_list (map snd sent) + (\<Sum>out\<leftarrow>filter (IsChange E w) (vout t). nValue out) + fee = we_GetDebit E w (tx_of t) \<and>
      sum_list (map snd received) = (\<Sum>out\<leftarrow>filter (\<lambda>out. we_IsMine E (w_keys w) out \<and> \<not> IsChange E w out) (vout t). nValue out)
    else sent = [] \<and> fee = 0 \<and> sum_list (map snd received) = (\<Sum>out\<leftarrow>filter (we_IsMine E (w_keys w)) (vout t). nValue out)"
proof -
  have split: "(\<Sum>out\<leftarrow>filter (\<lambda>out. \<not> P out) outs. nValue out) + (\<Sum>out\<leftarrow>filter P outs. nValue out) = (\<Sum>out\<leftarrow>outs. nValue out)"
    for P and outs :: "CTxOut list"
    by (induction outs) simp_all
  show ?thesis
    using assms(2) split [of "IsChange E w" "vout t"] assms(1)
    by (auto simp: GetAmounts_def Let_def comp_def case_prod_unfold filter_filter conj_commute split: if_splits)
qed

text \<open>The smart time is at most five minutes after the reception, unless the sum wraps around.\<close>

lemma latest_entry_bound:
  assumes "\<forall>e. Entry_item e \<in> set items \<longrightarrow> 0 \<le> ae_nTime e" "0 \<le> T" "T < 2 ^ 32" "uint now \<le> T"
  shows "uint (fst (latest_entry m own T now items)) \<le> T \<and> uint (snd (latest_entry m own T now items)) \<le> T"
  using assms
proof (induction m own T now items rule: latest_entry.induct)
  case (3 m own T now e items)
  have "uint (word_of_int (ae_nTime e) :: uint32) = ae_nTime e" if "ae_nTime e \<le> T"
    unfolding uint_word_of_int using that 3(2-4) by (intro mod_pos_pos_trivial) auto
  then show ?case using 3 by auto
qed (auto simp: Let_def)

lemma smart_time_bound:
  assumes "uint (nTimeReceived t) + 300 < 2 ^ 32" "\<forall>e\<in>set (be_accounting B [] (w_db w)). 0 \<le> ae_nTime e"
  shows "uint (smart_time B h t w) \<le> uint (nTimeReceived t) + 300"
proof -
  have T: "uint (nTimeReceived t + 300) = uint (nTimeReceived t) + 300"
    using assms(1) by (subst uint_plus_if') simp
  obtain a b where ab: "latest_entry (mapWallet w) h (uint (nTimeReceived t + 300)) (nTimeReceived t) (rev (map snd (OrderedTxItems B [] w))) = (a, b)"
    by (cases "latest_entry (mapWallet w) h (uint (nTimeReceived t + 300)) (nTimeReceived t) (rev (map snd (OrderedTxItems B [] w)))")
  have "uint a \<le> uint (nTimeReceived t) + 300 \<and> uint b \<le> uint (nTimeReceived t) + 300"
  proof -
    have "\<forall>e. Entry_item e \<in> set (rev (map snd (OrderedTxItems B [] w))) \<longrightarrow> 0 \<le> ae_nTime e"
      using assms(2) by (auto simp: OrderedTxItems_def)
    from latest_entry_bound [OF this, of "uint (nTimeReceived t + 300)" "nTimeReceived t" "mapWallet w" h]
    show ?thesis unfolding ab using T assms(1) by simp
  qed
  then show ?thesis
    using ab by (auto simp: smart_time_def Let_def max_def min_def word_le_def split: option.splits)
qed

subsection \<open>Witnesses\<close>

definition demo_book :: "(nat, int64 \<rightharpoonup> CKeyPool) book_env" where
  "demo_book = \<lparr> be_wallet = demo_wallet_env, be_keys = demo_key_env 1, be_have_gui = True, be_block_time = (\<lambda>_. None),
     be_accounting = (\<lambda>_ _. []), be_text = (\<lambda>_. []), be_CMerkleTx = CMerkleTx.truncate (wallet_tx CTransaction_SetNull), be_SetMerkleBranch = (\<lambda>m. (0, m)), be_block_branch = (\<lambda>_ m. m) \<rparr>"

lemma demo_book_ok: "wallet_env_ok (be_wallet demo_book)"
proof -
  have "(\<lambda>i. spent_at i (t\<lparr> vfSpent := (vfSpent t @ replicate (n + 1 - length (vfSpent t)) False)[n := True] \<rparr>)) =
      (\<lambda>i. i = n \<or> spent_at i t)" for n and t :: CWalletTx
    by (auto simp: spent_at_def fun_eq_iff nth_list_update nth_append)
  then show ?thesis
    by (auto simp: wallet_env_ok_def demo_book_def demo_wallet_env_def CTransaction.truncate_def fun_eq_iff spent_at_def Let_def)
qed

text \<open>The demo chain's hash counts the outputs and the lock time: the transaction with one output is filed under 1.\<close>

definition demo_payment :: CWalletTx where
  "demo_payment = wallet_tx \<lparr> tx_nVersion = 1, vin = [\<lparr> prevout = COutPoint 1 0, scriptSig = [], nSequence = - 1 \<rparr>],
     vout = [\<lparr> nValue = 3, scriptPubKey = [] \<rparr>, \<lparr> nValue = 1, scriptPubKey = [] \<rparr>], nLockTime = 0 \<rparr>"

definition demo_book_wallet :: "(nat, int64 \<rightharpoonup> CKeyPool) CWallet" where
  "demo_book_wallet = demo_key_wallet\<lparr> mapWallet := [(1, demo_coin_tx 5)], nOrderPosNext := 1 \<rparr>"

lemma demo_book_wallet_wf: "wallet_wf (be_wallet demo_book) demo_book_wallet"
  by (simp add: wallet_wf_def demo_book_wallet_def demo_book_def demo_wallet_env_def demo_chain_def map_ok_def GetHash_def demo_coin_tx_def
      wallet_tx_def)

lemma demo_payment_hash: "GetHash (be_wallet demo_book) demo_payment = 2"
  by (simp add: GetHash_def demo_book_def demo_wallet_env_def demo_chain_def demo_payment_def wallet_tx_def)


lemma AddToWallet_returns:
  assumes "be_have_gui B" "\<And>h t d. fst (we_WriteTx (be_wallet B) h t d)"
  shows "fst (AddToWallet B t w) = Inr True"
proof -
  have "fst (WriteToDisk (be_wallet B) t' w')" for t' w' using assms(2) by (simp add: WriteToDisk_def case_prod_unfold)
  then show ?thesis
    using assms(1) unfolding AddToWallet_def Let_def case_prod_unfold
    by (simp add: wbind_def wret_def wmod_def)
qed

lemma demo_payment_added: "fst (AddToWallet demo_book demo_payment demo_book_wallet) = Inr True"
  by (rule AddToWallet_returns) (simp_all add: demo_book_def demo_wallet_env_def)

theorem AddToWallet_spends_witness:
  "\<exists>w'. AddToWallet demo_book demo_payment demo_book_wallet = (Inr True, w') \<and>
     \<not> spendable (be_wallet demo_book) True w' 1 (demo_coin_tx 5) 0"
proof -
  obtain w' where r: "AddToWallet demo_book demo_payment demo_book_wallet = (Inr True, w')"
    using demo_payment_added by (metis prod.collapse)
  have "wallet_txs demo_book_wallet 2 = None" by (simp add: wallet_txs_def demo_book_wallet_def)
  then show ?thesis
    using AddToWallet_spends [OF demo_book_ok demo_book_wallet_wf r, unfolded demo_payment_hash,
        of "\<lparr> prevout = COutPoint 1 0, scriptSig = [], nSequence = - 1 \<rparr>" True "demo_coin_tx 5"] r
    by (simp add: demo_payment_def wallet_tx_def)
qed

theorem GetAmounts_balance_witness:
  "\<exists>received sent fee account. GetAmounts demo_wallet_env demo_book_wallet demo_payment = (received, sent, fee, account) \<and>
     sent = [] \<and> fee = 0 \<and> sum_list (map snd received) = 4"
proof -
  obtain a b c d where g: "GetAmounts demo_wallet_env demo_book_wallet demo_payment = (a, b, c, d)"
    by (cases "GetAmounts demo_wallet_env demo_book_wallet demo_payment") auto
  have "we_GetValueOut demo_wallet_env (tx_of demo_payment) = (\<Sum>out\<leftarrow>vout demo_payment. nValue out)"
    by (simp add: demo_wallet_env_def)
  from GetAmounts_balance [OF this g] show ?thesis
    using g by (simp add: demo_wallet_env_def demo_payment_def wallet_tx_def)
qed

end
