(* ===== verification/WalletChain.thy ===== *)
theory WalletChain
  imports Coins WalletTx
begin

text \<open>
  The wallet and the block chain (\<open>wallet.cpp\<close>): collecting the transactions a payment rests on, sending unconfirmed
  transactions again, scanning the chain, and comparing the wallet with the unspent outputs.  The chain from an
  index on is the list of its blocks with their times; \<open>chain_view\<close> holds what is read of the chain.  Handing a
  transaction to the memory pool or to the peers is output: the functions return what they hand over.
\<close>

subsection \<open>The transactions a payment rests on\<close>

text \<open>The work queue from its current position on; the arguments are the hashes done, \<open>mapWalletPrev\<close> and \<open>vtxPrev\<close>.  A
  hash that is known nowhere leaves the default transaction in \<open>tx\<close>.\<close>

function support_loop :: "('k, 'd) book_env \<Rightarrow> ('k, 'd) CWallet \<Rightarrow> uint256 list \<Rightarrow> uint256 set \<Rightarrow> (uint256 \<rightharpoonup> CMerkleTx) \<Rightarrow> CMerkleTx list \<Rightarrow> CMerkleTx list" where
  "support_loop B w [] finished mapWalletPrev prevs = prevs"
| "support_loop B w (hash # queue) finished mapWalletPrev prevs =
     (if hash \<in> finished then support_loop B w queue finished mapWalletPrev prevs
      else
        let (tx, mapWalletPrev1) =
              (case map_of (mapWallet w) hash of
                 Some t \<Rightarrow> (CMerkleTx.truncate t, fold (\<lambda>p m. m(GetHash (be_wallet B) p \<mapsto> p)) (CWalletTx.vtxPrev t) mapWalletPrev)
               | None \<Rightarrow> ((case mapWalletPrev hash of Some t \<Rightarrow> t | None \<Rightarrow> be_CMerkleTx B), mapWalletPrev));
            (nDepth, tx1) = be_SetMerkleBranch B tx;
            more = (if nDepth < 3 then map (\<lambda>i. op_hash (prevout i)) (vin tx1) else [])
        in support_loop B w (queue @ more) (insert hash finished) mapWalletPrev1 (prevs @ [tx1]))"
  by pat_completeness auto

termination
proof (relation "measures [\<lambda>(B, w, queue, finished, m, prevs). card (- finished), \<lambda>(B, w, queue, finished, m, prevs). length queue]")
  fix hash :: uint256 and finished :: "uint256 set"
  assume "hash \<notin> finished"
  then have "- insert hash finished \<subset> - finished" by auto
  then have "card (- insert hash finished) < card (- finished)" by (intro psubset_card_mono) simp_all
  then show "((B, w, queue @ more, insert hash finished, m1, prevs @ [tx1]), (B, w, hash # queue, finished, m, prevs))
    \<in> measures [\<lambda>(B, w, queue, finished, m, prevs). card (- finished), \<lambda>(B, w, queue, finished, m, prevs). length queue]"
    for B :: "('k, 'd) book_env" and w :: "('k, 'd) CWallet" and queue more m1 m prevs tx1 by simp
qed auto

definition AddSupportingTransactions :: "('k, 'd) book_env \<Rightarrow> ('k, 'd) CWallet \<Rightarrow> CWalletTx \<Rightarrow> CWalletTx" where
  "AddSupportingTransactions B w wtx =
     (case be_SetMerkleBranch B (CMerkleTx.truncate wtx) of (nDepth, m) \<Rightarrow>
        let wtx1 = wtx\<lparr> mt_hashBlock := mt_hashBlock m, mt_vMerkleBranch := mt_vMerkleBranch m, mt_nIndex := mt_nIndex m \<rparr>;
            prevs = (if nDepth < 3 then support_loop B w (map (\<lambda>i. op_hash (prevout i)) (vin wtx1)) {} Map.empty [] else [])
        in wtx1\<lparr> vtxPrev := rev prevs \<rparr>)"

subsection \<open>Sending transactions again\<close>

definition RelayWalletTransaction :: "('k, 'd) wallet_env \<Rightarrow> CWalletTx \<Rightarrow> (uint256 \<times> CTransaction) list" where
  "RelayWalletTransaction E wtx =
     map (\<lambda>tx. (GetHash E tx, tx_of tx)) (filter (\<lambda>tx. \<not> IsCoinBase (tx_of tx) \<and> we_depth E tx = 0) (CWalletTx.vtxPrev wtx)) @
     (if \<not> IsCoinBase (tx_of wtx) \<and> depth_of E wtx = 0 then [(GetHash E wtx, tx_of wtx)] else [])"

text \<open>The static variables of \<open>ResendWalletTransactions\<close>, and what it reads: the time at its three calls, the random
  number and the time of the best block.\<close>

record resend_state =
  rs_nNextTime :: int64
  rs_nLastTime :: int64

record resend_in =
  ri_now1 :: int64
  ri_now2 :: int64
  ri_now3 :: int64
  ri_rand :: int64
  ri_nTimeBestReceived :: int64

definition ResendWalletTransactions :: "('k, 'd) wallet_env \<Rightarrow> resend_in \<Rightarrow> ('k, 'd) CWallet \<Rightarrow> resend_state \<Rightarrow>
    (uint256 \<times> CTransaction) list \<times> resend_state" where
  "ResendWalletTransactions E i w s =
     (if ri_now1 i < rs_nNextTime s then ([], s)
      else
        let fFirst = (rs_nNextTime s = 0); s1 = s\<lparr> rs_nNextTime := ri_now2 i + ri_rand i \<rparr> in
        if fFirst then ([], s1)
        else if ri_nTimeBestReceived i < rs_nLastTime s1 then ([], s1)
        else
          let s2 = s1\<lparr> rs_nLastTime := ri_now3 i \<rparr>;
              old = filter (\<lambda>t. ri_nTimeBestReceived i - uint (nTimeReceived t) > 5 * 60) (map snd (mapWallet w));
              mapSorted = sort_key nTimeReceived old
          in (concat (map (RelayWalletTransaction E) mapSorted), s2))"

subsection \<open>Scanning the chain\<close>

record ('k, 'd) chain_view =
  cv_book :: "('k, 'd) book_env"
  cv_chain :: "(uint32 \<times> CBlock) list"
  cv_GetCoins :: "uint256 \<Rightarrow> CCoins option"

primrec scan_block :: "('k, 'd) book_env \<Rightarrow> CBlock \<Rightarrow> bool \<Rightarrow> CTransaction list \<Rightarrow> int32 \<Rightarrow> ('k, 'd, int32) wm" where
  "scan_block B block fUpdate [] ret = wret ret"
| "scan_block B block fUpdate (tx # txs) ret =
     wbind (AddToWalletIfInvolvingMe B (GetHash (be_wallet B) tx) tx (Some block) fUpdate) (\<lambda>added.
       scan_block B block fUpdate txs (if added then ret + 1 else ret))"

primrec scan_chain :: "('k, 'd) book_env \<Rightarrow> bool \<Rightarrow> (uint32 \<times> CBlock) list \<Rightarrow> int32 \<Rightarrow> ('k, 'd, int32) wm" where
  "scan_chain B fUpdate [] ret = wret ret"
| "scan_chain B fUpdate (b # bs) ret =
     wbind (wget nTimeFirstKey) (\<lambda>first.
       if first \<noteq> 0 \<and> uint (fst b) < first - 7200 then scan_chain B fUpdate bs ret
       else wbind (scan_block B (snd b) fUpdate (vtx (snd b)) ret) (\<lambda>ret1. scan_chain B fUpdate bs ret1))"

definition ScanForWalletTransactions :: "('k, 'd) book_env \<Rightarrow> (uint32 \<times> CBlock) list \<Rightarrow> bool \<Rightarrow> ('k, 'd, int32) wm" where
  "ScanForWalletTransactions B chain fUpdate = scan_chain B fUpdate chain 0"

subsection \<open>Comparing the wallet with the unspent outputs\<close>

text \<open>The loop over the outputs: those that are ours and no longer unspent are marked; the flag is \<open>fUpdated\<close>.\<close>

definition mark_missing :: "('k, 'd) wallet_env \<Rightarrow> ('k, 'd) CWallet \<Rightarrow> CCoins \<Rightarrow> nat \<Rightarrow> bool \<times> CWalletTx \<Rightarrow> bool \<times> CWalletTx" where
  "mark_missing E w coins i p =
     (let wtx = snd p in
      if we_IsSpent E i wtx then p
      else if (i \<ge> length (cc_vout coins) \<or> CTxOut_IsNull (cc_vout coins ! i)) \<and> we_IsMine E (w_keys w) (vout wtx ! i) then
        (True, we_MarkSpent E i wtx)
      else p)"

text \<open>One item of the map; the second component of the result is the transaction handed to the memory pool.\<close>

definition reaccept_one :: "('k, 'd) chain_view \<Rightarrow> uint256 \<Rightarrow> ('k, 'd) CWallet \<Rightarrow> bool \<times> CWalletTx option \<times> ('k, 'd) CWallet" where
  "reaccept_one V key w =
     (let E = be_wallet (cv_book V); wtx = the (map_of (mapWallet w) key) in
      if IsCoinBase (tx_of wtx) \<and> we_IsSpent E 0 wtx then (False, None, w)
      else
        let found = cv_GetCoins V (GetHash E wtx); coins = (case found of None \<Rightarrow> CCoins_default | Some c \<Rightarrow> c) in
        if found \<noteq> None \<or> depth_of E wtx > 0 then
          (case fold (mark_missing E w coins) [0..<length (vout wtx)] (False, wtx) of (fUpdated, wtx1) \<Rightarrow>
             if fUpdated then (True, None, snd (WriteToDisk E wtx1 (w\<lparr> mapWallet := map_put key wtx1 (mapWallet w) \<rparr>)))
             else (False, None, w))
        else (False, if IsCoinBase (tx_of wtx) then None else Some wtx, w))"

definition reaccept_visit :: "('k, 'd) chain_view \<Rightarrow> uint256 \<Rightarrow> bool \<times> CWalletTx list \<times> ('k, 'd) CWallet \<Rightarrow> bool \<times> CWalletTx list \<times> ('k, 'd) CWallet" where
  "reaccept_visit V key s =
     (case s of (fMissing, accepted, w) \<Rightarrow>
        case reaccept_one V key w of (missing, acc, w1) \<Rightarrow>
          (fMissing \<or> missing, accepted @ (case acc of None \<Rightarrow> [] | Some t \<Rightarrow> [t]), w1))"

text \<open>The outer loop; none if it does not end.\<close>

partial_function (option) reaccept_loop :: "('k, 'd) chain_view \<Rightarrow> CWalletTx list \<Rightarrow> ('k, 'd) CWallet \<Rightarrow> (CWalletTx list res \<times> ('k, 'd) CWallet) option" where
  "reaccept_loop V accepted w =
     (case fold (reaccept_visit V) (map fst (mapWallet w)) (False, accepted, w) of (fMissing, accepted1, w1) \<Rightarrow>
        if fMissing then
          (case ScanForWalletTransactions (cv_book V) (cv_chain V) False w1 of
             (Inl e, w2) \<Rightarrow> Some (Inl e, w2)
           | (Inr n, w2) \<Rightarrow> if n \<noteq> 0 then reaccept_loop V accepted1 w2 else Some (Inr accepted1, w2))
        else Some (Inr accepted1, w1))"

declare reaccept_loop.simps [code]

definition ReacceptWalletTransactions :: "('k, 'd) chain_view \<Rightarrow> ('k, 'd, CWalletTx list) wm" where
  "ReacceptWalletTransactions V w = (case reaccept_loop V [] w of None \<Rightarrow> (Inl NoReturn, w) | Some r \<Rightarrow> r)"

subsection \<open>The wallet grows\<close>

text \<open>Transactions stay with their contents, and spent outputs stay spent.\<close>

definition grows :: "('k, 'd) wallet_env \<Rightarrow> ('k, 'd) CWallet \<Rightarrow> ('k, 'd) CWallet \<Rightarrow> bool" where
  "grows E w w' \<longleftrightarrow> wallet_wf E w' \<and>
     (\<forall>h t. map_of (mapWallet w) h = Some t \<longrightarrow>
        (\<exists>t'. map_of (mapWallet w') h = Some t' \<and> tx_of t' = tx_of t \<and> (\<forall>i. we_IsSpent E i t \<longrightarrow> we_IsSpent E i t')))"

definition book_env_ok :: "('k, 'd) book_env \<Rightarrow> bool" where
  "book_env_ok B \<longleftrightarrow> wallet_env_ok (be_wallet B) \<and> (\<forall>tx. tx_of (we_make (be_wallet B) tx) = tx)"

lemma grows_refl: "wallet_wf E w \<Longrightarrow> grows E w w"
  by (simp add: grows_def)

lemma grows_trans [trans]: "grows E u v \<Longrightarrow> grows E v w \<Longrightarrow> grows E u w"
  unfolding grows_def by (metis (no_types, lifting))

lemma grows_wf: "grows E w w' \<Longrightarrow> wallet_wf E w'"
  by (simp add: grows_def)

lemma grows_txs: "grows E w w' \<Longrightarrow> wallet_txs w h = Some tx \<Longrightarrow> wallet_txs w' h = Some tx"
  unfolding grows_def wallet_txs_def by (metis (no_types, lifting) map_option_eq_Some)

lemma grows_same_txs: "wallet_wf E w \<Longrightarrow> same_txs w w' \<Longrightarrow> grows E w w'"
  using same_txs_wf [of w w' E] by (simp add: grows_def same_txs_def)

lemma grows_put:
  assumes wf: "wallet_wf E w" and t: "map_of (mapWallet w) h = Some t" "tx_of t' = tx_of t" "nOrderPos t' = nOrderPos t"
    and s: "\<And>i. we_IsSpent E i t \<Longrightarrow> we_IsSpent E i t'"
    and w': "mapWallet w' = map_put h t' (mapWallet w)" "nOrderPosNext w' = nOrderPosNext w"
  shows "grows E w w'"
proof -
  have "map_ok (mapWallet w)" using wf by (simp add: wallet_wf_def)
  then have "map_of (mapWallet w') = (map_of (mapWallet w))(h \<mapsto> t')" using w'(1) by (simp add: map_put_look)
  then show ?thesis using wallet_put_same [OF wf t w'] t(1,2) s by (simp add: grows_def)
qed

lemma grows_update_spent_one:
  assumes E: "wallet_env_ok E" and wf: "wallet_wf E w"
  shows "grows E w (update_spent_one E txin w)"
proof (cases "map_of (mapWallet w) (op_hash (prevout txin))")
  case (Some t)
  let ?n = "unat (op_n (prevout txin))"
  let ?w = "w\<lparr> mapWallet := map_put (op_hash (prevout txin)) (we_MarkSpent E ?n t) (mapWallet w) \<rparr>"
  have g: "grows E w ?w" by (rule grows_put [OF wf Some, of "we_MarkSpent E ?n t"]) (simp_all add: mark_same [OF E])
  have "grows E w (snd (WriteToDisk E t' ?w))" for t'
    by (rule grows_trans [OF g grows_same_txs [OF grows_wf [OF g] WriteToDisk_same]])
  then show ?thesis using wf Some by (simp add: update_spent_one_def Let_def grows_refl)
qed (use wf in \<open>simp add: update_spent_one_def grows_refl\<close>)

lemma grows_WalletUpdateSpent:
  assumes E: "wallet_env_ok E" and wf: "wallet_wf E w"
  shows "grows E w (WalletUpdateSpent E tx w)"
proof -
  have "wallet_wf E v \<Longrightarrow> grows E v (fold (update_spent_one E) ins v)" for ins v
  proof (induction ins arbitrary: v)
    case (Cons i ins)
    note g = grows_update_spent_one [OF E Cons.prems, of i]
    show ?case using grows_trans [OF g Cons.IH [OF grows_wf [OF g]]] by simp
  qed (simp add: grows_refl)
  then show ?thesis using wf by (simp add: WalletUpdateSpent_def)
qed

lemma insert_new_look:
  assumes "wallet_wf E w" "j \<noteq> h"
  shows "map_of (mapWallet (insert_new B h t w)) j = map_of (mapWallet w) j"
proof -
  have "map_ok (mapWallet w)" using assms(1) by (simp add: wallet_wf_def)
  then show ?thesis using assms(2) by (simp add: insert_new_def IncOrderPosNext_def Let_def map_put_look map_put_ok)
qed

lemma grows_insert_new:
  assumes wf: "wallet_wf (be_wallet B) w" and new: "map_of (mapWallet w) (GetHash (be_wallet B) t) = None"
  shows "grows (be_wallet B) w (insert_new B (GetHash (be_wallet B) t) t w)"
proof -
  have "map_of (mapWallet (insert_new B (GetHash (be_wallet B) t) t w)) j = Some t'" if "map_of (mapWallet w) j = Some t'" for j t'
    using that new insert_new_look [OF wf, of j "GetHash (be_wallet B) t" B t] by (cases "j = GetHash (be_wallet B) t") simp_all
  then show ?thesis using insert_new_wf [OF wf new refl] by (simp add: grows_def)
qed

lemma grows_AddToWallet:
  assumes E: "wallet_env_ok (be_wallet B)" and wf: "wallet_wf (be_wallet B) w" and r: "AddToWallet B t w = (r, w')"
  shows "grows (be_wallet B) w w'"
proof -
  let ?E = "be_wallet B"
  obtain w1 w2 where s: "w1 = (case map_of (mapWallet w) (GetHash ?E t) of None \<Rightarrow> insert_new B (GetHash ?E t) t w
      | Some t0 \<Rightarrow> w\<lparr> mapWallet := map_put (GetHash ?E t) (snd (merge_tx ?E t t0)) (mapWallet w) \<rparr>)" "same_txs w1 w2"
    "r \<noteq> Inr True \<and> w' = w2 \<or> r = Inr True \<and> w' = WalletUpdateSpent ?E (tx_of (the (map_of (mapWallet w2) (GetHash ?E t)))) w2"
    using AddToWallet_steps [OF r] by blast
  have one: "grows ?E w w1"
  proof (cases "map_of (mapWallet w) (GetHash ?E t)")
    case None
    then show ?thesis using grows_insert_new [OF wf None] s(1) by simp
  next
    case (Some t0)
    note m = merge_tx_same [where t = t0 and tIn = t, OF E prod.collapse [symmetric]]
    show ?thesis using Some s(1) by (intro grows_put [OF wf Some m]) simp_all
  qed
  have two: "grows ?E w w2" by (rule grows_trans [OF one grows_same_txs [OF grows_wf [OF one] s(2)]])
  have three: "grows ?E w (WalletUpdateSpent ?E tx w2)" for tx
    by (rule grows_trans [OF two grows_WalletUpdateSpent [OF E grows_wf [OF two]]])
  show ?thesis using s(3) two three by metis
qed

text \<open>A call without \<open>fUpdate\<close> adds the transaction exactly if it reports so or could not write it.\<close>

lemma involving_me:
  assumes B: "book_env_ok B" and wf: "wallet_wf (be_wallet B) w" and h: "h = GetHash (be_wallet B) tx"
    and r: "AddToWalletIfInvolvingMe B h tx b False w = (r, w')"
  shows "grows (be_wallet B) w w' \<and> (r = Inr True \<longrightarrow> wallet_txs w h = None \<and> wallet_txs w' h = Some tx)"
proof -
  let ?E = "be_wallet B"
  have E: "wallet_env_ok ?E" using B by (simp add: book_env_ok_def)
  define wtx where "wtx = (case b of None \<Rightarrow> we_make ?E tx
    | Some b \<Rightarrow> (let m = be_block_branch B b (CMerkleTx.truncate (we_make ?E tx))
        in (we_make ?E tx)\<lparr> mt_hashBlock := mt_hashBlock m, mt_vMerkleBranch := mt_vMerkleBranch m, mt_nIndex := mt_nIndex m \<rparr>))"
  have tx: "tx_of wtx = tx" using B by (auto simp: wtx_def book_env_ok_def Let_def CTransaction.truncate_def split: option.splits)
  then have hash: "GetHash ?E wtx = h" using h GetHash_cong [of wtx tx ?E] by (simp add: CTransaction.truncate_def)
  show ?thesis
  proof (cases "map_of (mapWallet w) h")
    case (Some t)
    then show ?thesis using r wf by (auto simp: AddToWalletIfInvolvingMe_def grows_refl)
  next
    case None
    have "AddToWalletIfInvolvingMe B h tx b False w =
        (if we_IsMine_tx ?E (w_keys w) tx \<or> we_IsFromMe ?E w tx then AddToWallet B wtx w else (Inr False, WalletUpdateSpent ?E tx w))"
      by (simp add: AddToWalletIfInvolvingMe_def None wtx_def Let_def)
    then consider "AddToWallet B wtx w = (r, w')" | "r = Inr False" "w' = WalletUpdateSpent ?E tx w" using r by (auto split: if_splits)
    then show ?thesis
    proof cases
      case 1
      then show ?thesis
        using grows_AddToWallet [OF E wf 1] AddToWallet_cases [OF E wf 1] None tx unfolding hash by (simp add: wallet_txs_def)
    next
      case 2
      then show ?thesis using grows_WalletUpdateSpent [OF E wf] by simp
    qed
  qed
qed

subsection \<open>What a scan adds\<close>

definition chain_hashes :: "('k, 'd) wallet_env \<Rightarrow> (uint32 \<times> CBlock) list \<Rightarrow> uint256 set" where
  "chain_hashes E chain = (\<Union>b\<in>set chain. GetHash E ` set (vtx (snd b)))"

text \<open>A call that only lets the wallet grow, and whose counter goes up only with a new transaction out of \<open>H\<close>.\<close>

definition counts_new :: "('k, 'd) wallet_env \<Rightarrow> uint256 set \<Rightarrow> int32 \<Rightarrow> int32 res \<Rightarrow> ('k, 'd) CWallet \<Rightarrow> ('k, 'd) CWallet \<Rightarrow> bool" where
  "counts_new E H ret r w w' \<longleftrightarrow> grows E w w' \<and>
     (case r of Inl e \<Rightarrow> True | Inr n \<Rightarrow> ret \<le> n \<and> (ret < n \<longrightarrow> (\<exists>h\<in>H. wallet_txs w h = None \<and> wallet_txs w' h \<noteq> None)))"

lemma counts_new_refl: "wallet_wf E w \<Longrightarrow> counts_new E H ret (Inr ret) w w"
  by (simp add: counts_new_def grows_refl)

lemma counts_new_trans:
  assumes "counts_new E H ret (Inr n) u v" "counts_new E H' n r v w" "H \<subseteq> K" "H' \<subseteq> K"
  shows "counts_new E K ret r u w"
proof (cases r)
  case (Inl e)
  then show ?thesis using assms(1,2) by (auto simp: counts_new_def intro: grows_trans)
next
  case (Inr m)
  have g: "grows E u v" "grows E v w" using assms(1,2) by (simp_all add: counts_new_def)
  have old: "wallet_txs u h = None" if "wallet_txs v h = None" for h
    using grows_txs [OF g(1)] that by (metis option.exhaust option.distinct(1))
  have keep: "wallet_txs w h \<noteq> None" if "wallet_txs v h \<noteq> None" for h
    using grows_txs [OF g(2)] that by (metis option.exhaust option.distinct(1))
  have a: "ret \<le> n" "ret < n \<longrightarrow> (\<exists>h\<in>H. wallet_txs u h = None \<and> wallet_txs v h \<noteq> None)"
    using assms(1) by (simp_all add: counts_new_def)
  have b: "n \<le> m" "n < m \<longrightarrow> (\<exists>h\<in>H'. wallet_txs v h = None \<and> wallet_txs w h \<noteq> None)"
    using assms(2) Inr by (simp_all add: counts_new_def)
  have "\<exists>h\<in>K. wallet_txs u h = None \<and> wallet_txs w h \<noteq> None" if "ret < m"
  proof (cases "ret < n")
    case True
    then show ?thesis using a(2) keep assms(3) by blast
  next
    case False
    then have "n < m" using that by simp
    then show ?thesis using b(2) old assms(4) by blast
  qed
  then show ?thesis using a(1) b(1) grows_trans [OF g] Inr by (simp add: counts_new_def)
qed

lemma scan_block_counts:
  assumes B: "book_env_ok B" and wf: "wallet_wf (be_wallet B) w" and r: "scan_block B block False txs ret w = (r, w')"
  shows "counts_new (be_wallet B) (GetHash (be_wallet B) ` set txs) ret r w w'"
  using wf r
proof (induction txs arbitrary: ret w)
  case (Cons tx txs)
  let ?E = "be_wallet B"
  obtain q v where q: "AddToWalletIfInvolvingMe B (GetHash ?E tx) tx (Some block) False w = (q, v)" by fastforce
  note one = involving_me [OF B Cons.prems(1) refl q]
  show ?case
  proof (cases q)
    case (Inl e)
    then have "r = Inl e" "w' = v" using Cons.prems(2) q by (simp_all add: wbind_def)
    then show ?thesis using one by (simp add: counts_new_def)
  next
    case (Inr added)
    let ?n = "if added then ret + 1 else ret"
    have "scan_block B block False txs ?n v = (r, w')" using Cons.prems(2) q Inr by (simp add: wbind_def)
    then have two: "counts_new ?E (GetHash ?E ` set txs) ?n r v w'" using Cons.IH one grows_wf by metis
    have "counts_new ?E {GetHash ?E tx} ret (Inr ?n) w v" using one Inr by (auto simp: counts_new_def)
    then show ?thesis by (rule counts_new_trans [OF _ two]) auto
  qed
qed (auto simp: wret_def intro: counts_new_refl)

lemma scan_chain_counts:
  assumes B: "book_env_ok B" and wf: "wallet_wf (be_wallet B) w" and r: "scan_chain B False chain ret w = (r, w')"
  shows "counts_new (be_wallet B) (chain_hashes (be_wallet B) chain) ret r w w'"
  using wf r
proof (induction chain arbitrary: ret w)
  case (Cons b bs)
  let ?E = "be_wallet B"
  show ?case
  proof (cases "nTimeFirstKey w \<noteq> 0 \<and> uint (fst b) < nTimeFirstKey w - 7200")
    case True
    then have "counts_new ?E (chain_hashes ?E bs) ret r w w'" using Cons by (simp add: wbind_def wget_def)
    then show ?thesis by (rule counts_new_trans [OF counts_new_refl [OF Cons.prems(1), where H = "{}"]]) (auto simp: chain_hashes_def)
  next
    case False
    obtain q v where q: "scan_block B (snd b) False (vtx (snd b)) ret w = (q, v)" by fastforce
    note one = scan_block_counts [OF B Cons.prems(1) q]
    show ?thesis
    proof (cases q)
      case (Inl e)
      then show ?thesis using Cons.prems(2) False q one by (auto simp: wbind_def wget_def counts_new_def)
    next
      case (Inr n)
      then have "scan_chain B False bs n v = (r, w')" using Cons.prems(2) False q by (auto simp: wbind_def wget_def)
      then have two: "counts_new ?E (chain_hashes ?E bs) n r v w'" using Cons.IH one grows_wf by (metis counts_new_def)
      show ?thesis by (rule counts_new_trans [OF one [unfolded Inr] two]) (auto simp: chain_hashes_def)
    qed
  qed
qed (auto simp: wret_def intro: counts_new_refl)

subsection \<open>Comparing with the unspent outputs returns and misses nothing\<close>

lemma mark_missing_fold:
  assumes E: "wallet_env_ok E" and r: "fold (mark_missing E w coins) is (b, t) = (b', t')"
  shows "tx_of t' = tx_of t \<and> nOrderPos t' = nOrderPos t \<and> (\<forall>i. we_IsSpent E i t \<longrightarrow> we_IsSpent E i t') \<and>
    (\<forall>i\<in>set is. (i \<ge> length (cc_vout coins) \<or> CTxOut_IsNull (cc_vout coins ! i)) \<and> we_IsMine E (w_keys w) (vout t ! i) \<longrightarrow> we_IsSpent E i t') \<and>
    (\<not> b' \<longrightarrow> t' = t) \<and> (b \<longrightarrow> b')"
  using r
proof (induction "is" arbitrary: b t)
  case (Cons i "is")
  obtain b1 t1 where one: "mark_missing E w coins i (b, t) = (b1, t1)" by fastforce
  have tx: "tx_of t1 = tx_of t" "nOrderPos t1 = nOrderPos t" "\<forall>i. we_IsSpent E i t \<longrightarrow> we_IsSpent E i t1" "\<not> b1 \<longrightarrow> t1 = t" "b \<longrightarrow> b1"
    and i: "(i \<ge> length (cc_vout coins) \<or> CTxOut_IsNull (cc_vout coins ! i)) \<and> we_IsMine E (w_keys w) (vout t ! i) \<longrightarrow> we_IsSpent E i t1"
    using one mark_same [OF E] by (auto simp: mark_missing_def split: if_splits)
  have "vout t1 = vout t" using tx(1) by (metis tx_of_simps(2))
  moreover have "fold (mark_missing E w coins) is (b1, t1) = (b', t')" using Cons.prems one by simp
  ultimately show ?case using Cons.IH [of b1 t1] tx i by auto
qed simp

definition missing_marked :: "('k, 'd) chain_view \<Rightarrow> 'k \<Rightarrow> uint256 \<Rightarrow> CWalletTx \<Rightarrow> bool" where
  "missing_marked V keys h t \<longleftrightarrow>
     (\<forall>coins i. cv_GetCoins V h = Some coins \<longrightarrow> i < length (vout t) \<longrightarrow> i \<ge> length (cc_vout coins) \<or> CTxOut_IsNull (cc_vout coins ! i) \<longrightarrow>
        we_IsMine (be_wallet (cv_book V)) keys (vout t ! i) \<longrightarrow>
        we_IsSpent (be_wallet (cv_book V)) i t \<or> IsCoinBase (tx_of t) \<and> we_IsSpent (be_wallet (cv_book V)) 0 t)"

lemma map_put_same_keys: "map_of m k \<noteq> None \<Longrightarrow> map_ok m \<Longrightarrow> map fst (map_put k v m) = map fst m"
proof (induction k v m rule: map_put.induct)
  case (2 k v k' v' m)
  have "k' < k" if "k \<noteq> k'"
    using 2(2,3) that by (auto simp: map_ok_def split: if_splits dest!: map_of_SomeD)
  then show ?case using 2 by (auto simp: map_ok_def)
qed simp

lemma reaccept_one_ok:
  assumes B: "book_env_ok (cv_book V)" and wf: "wallet_wf (be_wallet (cv_book V)) w" and t: "map_of (mapWallet w) key = Some t"
    and r: "reaccept_one V key w = (m, acc, w')"
  shows "grows (be_wallet (cv_book V)) w w' \<and> w_keys w' = w_keys w \<and> map fst (mapWallet w') = map fst (mapWallet w) \<and>
    missing_marked V (w_keys w) key (the (map_of (mapWallet w') key))"
proof -
  let ?E = "be_wallet (cv_book V)"
  let ?coins = "case cv_GetCoins V key of None \<Rightarrow> CCoins_default | Some c \<Rightarrow> c"
  have E: "wallet_env_ok ?E" using B by (simp add: book_env_ok_def)
  have ok: "map_ok (mapWallet w)" using wf by (simp add: wallet_wf_def)
  have h: "GetHash ?E t = key" using wf t by (simp add: wallet_wf_def)
  obtain b t1 where f: "fold (mark_missing ?E w ?coins) [0..<length (vout t)] (False, t) = (b, t1)" by fastforce
  note marks = mark_missing_fold [OF E f]
  let ?w = "w\<lparr> mapWallet := map_put key t1 (mapWallet w) \<rparr>"
  have marked: "missing_marked V (w_keys w) key t1"
  proof -
    have "vout t1 = vout t" using marks by (metis tx_of_simps(2))
    then show ?thesis using marks by (auto simp: missing_marked_def)
  qed
  have g: "grows ?E w ?w" using marks by (intro grows_put [OF wf t, of t1]) auto
  have written: "grows ?E w (snd (WriteToDisk ?E t1 ?w))"
    by (rule grows_trans [OF g grows_same_txs [OF grows_wf [OF g] WriteToDisk_same]])
  have disk: "w_keys (snd (WriteToDisk ?E t1 ?w)) = w_keys w" "mapWallet (snd (WriteToDisk ?E t1 ?w)) = map_put key t1 (mapWallet w)"
    by (simp_all add: WriteToDisk_def case_prod_unfold)
  have put: "map fst (map_put key t1 (mapWallet w)) = map fst (mapWallet w)" "map_of (map_put key t1 (mapWallet w)) key = Some t1"
    using map_put_same_keys [OF _ ok] t by (simp_all add: map_put_look [OF ok])
  show ?thesis
  proof (cases "IsCoinBase (tx_of t) \<and> we_IsSpent ?E 0 t")
    case True
    then have "w' = w" using r t by (simp add: reaccept_one_def Let_def)
    then show ?thesis using True t wf by (simp add: grows_refl missing_marked_def)
  next
    case False
    show ?thesis
    proof (cases "cv_GetCoins V key \<noteq> None \<or> depth_of ?E t > 0")
      case True
      then have "(m, acc, w') = (if b then (True, None, snd (WriteToDisk ?E t1 ?w)) else (False, None, w))"
        using r t False f unfolding reaccept_one_def by (simp add: h Let_def)
      then show ?thesis
        using marked written disk put marks t wf by (cases b) (auto simp: grows_refl)
    next
      case none: False
      then have "w' = w" using r t False unfolding reaccept_one_def by (simp add: h Let_def)
      moreover have "missing_marked V (w_keys w) key t" using none by (simp add: missing_marked_def)
      ultimately show ?thesis using t wf by (simp add: grows_refl)
    qed
  qed
qed

lemma missing_marked_grows:
  assumes g: "grows (be_wallet (cv_book V)) w w'" and t: "map_of (mapWallet w) k = Some t" and m: "missing_marked V keys k t"
  shows "missing_marked V keys k (the (map_of (mapWallet w') k))"
proof -
  obtain t' where t': "map_of (mapWallet w') k = Some t'" "tx_of t' = tx_of t"
      "\<forall>i. we_IsSpent (be_wallet (cv_book V)) i t \<longrightarrow> we_IsSpent (be_wallet (cv_book V)) i t'"
    using g t unfolding grows_def by blast
  have "vout t' = vout t" using t'(2) by (metis tx_of_simps(2))
  then show ?thesis using m t' by (auto simp: missing_marked_def)
qed

lemma reaccept_fold_ok:
  assumes B: "book_env_ok (cv_book V)" and wf: "wallet_wf (be_wallet (cv_book V)) w" and ks: "set ks \<subseteq> set (map fst (mapWallet w))"
    and r: "fold (reaccept_visit V) ks (m, acc, w) = (m', acc', w')"
  shows "grows (be_wallet (cv_book V)) w w' \<and> w_keys w' = w_keys w \<and>
    (\<forall>k\<in>set ks. missing_marked V (w_keys w) k (the (map_of (mapWallet w') k)))"
  using wf ks r
proof (induction ks arbitrary: m acc w)
  case (Cons k ks)
  obtain x a v where one: "reaccept_one V k w = (x, a, v)" by (cases "reaccept_one V k w")
  have "map_of (mapWallet w) k \<noteq> None" using Cons.prems(2) by (simp add: map_of_eq_None_iff)
  then obtain t where t: "map_of (mapWallet w) k = Some t" by blast
  note o = reaccept_one_ok [OF B Cons.prems(1) t one]
  have "fold (reaccept_visit V) ks (m \<or> x, acc @ (case a of None \<Rightarrow> [] | Some t \<Rightarrow> [t]), v) = (m', acc', w')"
  proof -
    have "reaccept_visit V k (m, acc, w) = (m \<or> x, acc @ (case a of None \<Rightarrow> [] | Some t \<Rightarrow> [t]), v)"
      by (simp add: reaccept_visit_def one)
    then show ?thesis using Cons.prems(3) by simp
  qed
  moreover have "wallet_wf (be_wallet (cv_book V)) v" using o grows_wf by blast
  moreover have "set ks \<subseteq> set (map fst (mapWallet v))" using Cons.prems(2) o by auto
  ultimately have rest: "grows (be_wallet (cv_book V)) v w' \<and> w_keys w' = w_keys v \<and>
      (\<forall>k\<in>set ks. missing_marked V (w_keys v) k (the (map_of (mapWallet w') k)))"
    using Cons.IH by metis
  obtain t1 where "map_of (mapWallet v) k = Some t1" using o t unfolding grows_def by blast
  then have "missing_marked V (w_keys w) k (the (map_of (mapWallet w') k))"
    using missing_marked_grows [of V v w' k t1] rest o by simp
  then show ?case using rest o grows_trans by auto
qed (simp add: grows_refl)

lemma reaccept_loop_ok:
  assumes B: "book_env_ok (cv_book V)" and wf: "wallet_wf (be_wallet (cv_book V)) w"
  shows "\<exists>r w'. reaccept_loop V acc w = Some (r, w') \<and> grows (be_wallet (cv_book V)) w w' \<and>
    (\<forall>k\<in>set (map fst (mapWallet w)). missing_marked V (w_keys w) k (the (map_of (mapWallet w') k)))"
  using wf
proof (induction "card (chain_hashes (be_wallet (cv_book V)) (cv_chain V) - {h. wallet_txs w h \<noteq> None})" arbitrary: acc w rule: less_induct)
  case less
  let ?E = "be_wallet (cv_book V)"
  let ?H = "chain_hashes ?E (cv_chain V)"
  obtain m acc1 w1 where one: "fold (reaccept_visit V) (map fst (mapWallet w)) (False, acc, w) = (m, acc1, w1)"
    by (cases "fold (reaccept_visit V) (map fst (mapWallet w)) (False, acc, w)")
  note o = reaccept_fold_ok [OF B less.prems subset_refl one]
  have keep: "\<forall>k\<in>set (map fst (mapWallet w)). missing_marked V (w_keys w) k (the (map_of (mapWallet w') k))"
    if "grows ?E w1 w'" for w'
  proof
    fix k
    assume k: "k \<in> set (map fst (mapWallet w))"
    then have "map_of (mapWallet w) k \<noteq> None" by (simp add: map_of_eq_None_iff)
    then obtain t where t: "map_of (mapWallet w1) k = Some t" using o unfolding grows_def by blast
    have "missing_marked V (w_keys w) k (the (map_of (mapWallet w1) k))" using o k by blast
    then show "missing_marked V (w_keys w) k (the (map_of (mapWallet w') k))"
      using missing_marked_grows [OF that t] t by simp
  qed
  have w1: "grows ?E w1 w1" using o grows_wf grows_refl by blast
  show ?case
  proof (cases m)
    case False
    then have "reaccept_loop V acc w = Some (Inr acc1, w1)" using one by (simp add: reaccept_loop.simps)
    then show ?thesis using o keep [OF w1] by blast
  next
    case True
    obtain q w2 where q: "ScanForWalletTransactions (cv_book V) (cv_chain V) False w1 = (q, w2)" by fastforce
    have c: "counts_new ?E ?H 0 q w1 w2"
      using scan_chain_counts [OF B] o q grows_wf unfolding ScanForWalletTransactions_def by blast
    then have g2: "grows ?E w1 w2" by (simp add: counts_new_def)
    have step: "reaccept_loop V acc w = (case q of Inl e \<Rightarrow> Some (Inl e, w2)
        | Inr n \<Rightarrow> if n \<noteq> 0 then reaccept_loop V acc1 w2 else Some (Inr acc1, w2))"
      using one True q by (subst reaccept_loop.simps) simp
    show ?thesis
    proof (cases "\<exists>n. q = Inr n \<and> n \<noteq> 0")
      case False
      then have "\<exists>r. reaccept_loop V acc w = Some (r, w2)" unfolding step by (cases q) auto
      then show ?thesis using o keep [OF g2] grows_trans [OF _ g2] by blast
    next
      case True
      then obtain h where h: "h \<in> ?H" "wallet_txs w1 h = None" "wallet_txs w2 h \<noteq> None"
        using c unfolding counts_new_def by auto
      have gw: "grows ?E w w2" using o grows_trans [OF _ g2] by blast
      have "h \<in> ?H - {h. wallet_txs w h \<noteq> None}" using h o grows_txs by fastforce
      moreover have "?H - {h. wallet_txs w2 h \<noteq> None} \<subseteq> ?H - {h. wallet_txs w h \<noteq> None}" using grows_txs [OF gw] by blast
      ultimately have "?H - {h. wallet_txs w2 h \<noteq> None} \<subset> ?H - {h. wallet_txs w h \<noteq> None}" using h(3) by blast
      then have "card (?H - {h. wallet_txs w2 h \<noteq> None}) < card (?H - {h. wallet_txs w h \<noteq> None})" by (intro psubset_card_mono) simp_all
      then obtain r w' where r: "reaccept_loop V acc1 w2 = Some (r, w')" "grows ?E w2 w'"
        using less.hyps grows_wf [OF g2] by blast
      then have "reaccept_loop V acc w = Some (r, w')" using True step by auto
      then show ?thesis using keep [OF grows_trans [OF g2 r(2)]] grows_trans [OF gw r(2)] by blast
    qed
  qed
qed


subsection \<open>Supporting transactions and sending again\<close>

lemma support_loop_keeps: "set prevs \<subseteq> set (support_loop B w queue finished m prevs)"
proof (induction B w queue finished m prevs rule: support_loop.induct)
  case (2 B w hash queue finished m prevs)
  show ?case
  proof (cases "hash \<in> finished")
    case True
    then show ?thesis using 2(1) by simp
  next
    case False
    let ?p = "case map_of (mapWallet w) hash of
        Some t \<Rightarrow> (CMerkleTx.truncate t, fold (\<lambda>p m. m(GetHash (be_wallet B) p \<mapsto> p)) (CWalletTx.vtxPrev t) m)
      | None \<Rightarrow> ((case m hash of Some t \<Rightarrow> t | None \<Rightarrow> be_CMerkleTx B), m)"
    obtain tx m1 where p: "?p = (tx, m1)" by fastforce
    obtain n tx1 where b: "be_SetMerkleBranch B tx = (n, tx1)" by fastforce
    show ?thesis using 2(2) [OF False p [symmetric] refl b [symmetric] refl refl] False p b by (simp add: Let_def)
  qed
qed simp

text \<open>Every queued hash that the wallet knows is supported by its transaction.\<close>

lemma support_loop_known:
  assumes "h \<in> set queue" "h \<notin> finished" "map_of (mapWallet w) h = Some t"
  shows "snd (be_SetMerkleBranch B (CMerkleTx.truncate t)) \<in> set (support_loop B w queue finished m prevs)"
  using assms
proof (induction B w queue finished m prevs rule: support_loop.induct)
  case (2 B w hash queue finished m prevs)
  show ?case
  proof (cases "hash = h")
    case True
    obtain n tx1 where b: "be_SetMerkleBranch B (CMerkleTx.truncate t) = (n, tx1)" by fastforce
    then have "\<exists>q m'. support_loop B w (hash # queue) finished m prevs = support_loop B w q (insert h finished) m' (prevs @ [tx1])"
      using True 2(4,5) by (simp add: Let_def) blast
    then obtain q m' where l: "support_loop B w (hash # queue) finished m prevs = support_loop B w q (insert h finished) m' (prevs @ [tx1])"
      by blast
    have "tx1 \<in> set (prevs @ [tx1])" by simp
    then have "tx1 \<in> set (support_loop B w q (insert h finished) m' (prevs @ [tx1]))" by (rule subsetD [OF support_loop_keeps])
    then show ?thesis unfolding l b snd_conv .
  next
    case other: False
    then have h: "h \<in> set queue" using 2(3) by simp
    show ?thesis
    proof (cases "hash \<in> finished")
      case True
      then show ?thesis using 2(1) [OF True h 2(4,5)] by simp
    next
      case False
      let ?p = "case map_of (mapWallet w) hash of
          Some t \<Rightarrow> (CMerkleTx.truncate t, fold (\<lambda>p m. m(GetHash (be_wallet B) p \<mapsto> p)) (CWalletTx.vtxPrev t) m)
        | None \<Rightarrow> ((case m hash of Some t \<Rightarrow> t | None \<Rightarrow> be_CMerkleTx B), m)"
      obtain tx m1 where p: "?p = (tx, m1)" by fastforce
      obtain n tx1 where b: "be_SetMerkleBranch B tx = (n, tx1)" by fastforce
      show ?thesis
        using 2(2) [OF False p [symmetric] refl b [symmetric] refl refl] h 2(4,5) other False p b by (simp add: Let_def)
    qed
  qed
qed simp

text \<open>A parent known nowhere is supported by a default transaction, which is relayed to the peers as if unconfirmed.\<close>

lemma unknown_parent_relayed:
  assumes "be_SetMerkleBranch B (CMerkleTx.truncate t) = (0, CMerkleTx.truncate t)" "be_SetMerkleBranch B (be_CMerkleTx B) = (0, be_CMerkleTx B)"
    "we_depth (be_wallet B) (be_CMerkleTx B) = 0" "vin (be_CMerkleTx B) = []"
    and "vin t = [i]" "map_of (mapWallet w) (op_hash (prevout i)) = None"
  shows "(GetHash (be_wallet B) (be_CMerkleTx B), tx_of (be_CMerkleTx B)) \<in> set (RelayWalletTransaction (be_wallet B) (AddSupportingTransactions B w t))"
proof -
  have "AddSupportingTransactions B w t =
      t\<lparr> mt_hashBlock := mt_hashBlock t, mt_vMerkleBranch := mt_vMerkleBranch t, mt_nIndex := mt_nIndex t, vtxPrev := [be_CMerkleTx B] \<rparr>"
    using assms by (simp add: AddSupportingTransactions_def Let_def CMerkleTx.truncate_def)
  then show ?thesis using assms(3,4) by (simp add: RelayWalletTransaction_def IsCoinBase_def)
qed

text \<open>When it is time and there is a new block, exactly the transactions received at least five minutes before it are relayed.\<close>

lemma Resend_sends:
  assumes "rs_nNextTime s \<noteq> 0" "rs_nNextTime s \<le> ri_now1 i" "rs_nLastTime s \<le> ri_nTimeBestReceived i"
  shows "set (fst (ResendWalletTransactions E i w s)) =
    (\<Union>t\<in>{t \<in> snd ` set (mapWallet w). ri_nTimeBestReceived i - uint (nTimeReceived t) > 300}. set (RelayWalletTransaction E t))"
  using assms by (auto simp: ResendWalletTransactions_def Let_def)

lemma Resend_silent:
  assumes "ri_now1 i < rs_nNextTime s \<or> rs_nNextTime s = 0 \<or> ri_nTimeBestReceived i < rs_nLastTime s"
  shows "fst (ResendWalletTransactions E i w s) = []"
  using assms by (auto simp: ResendWalletTransactions_def Let_def)

subsection \<open>Witness\<close>

definition demo_view :: "(nat, int64 \<rightharpoonup> CKeyPool) chain_view" where
  "demo_view = \<lparr> cv_book = demo_book, cv_chain = [], cv_GetCoins = (\<lambda>h. if h = 1 then Some CCoins_default else None) \<rparr>"

lemma demo_view_ok: "book_env_ok (cv_book demo_view)"
  using demo_book_ok
  by (simp add: book_env_ok_def demo_view_def) (simp add: demo_book_def demo_wallet_env_def wallet_tx_def CTransaction.truncate_def)


end
