(* ===== verification/WalletSend.thy ===== *)
theory WalletSend
  imports WalletChain Util "HOL-Library.Product_Lexorder"
begin

text \<open>
  Making, committing and sending a payment (\<open>wallet.cpp\<close>).  \<open>send_env\<close> holds what the missing headers and
  the user supply: fees, sizes, signatures, the order in which the set of coins is walked through (it is ordered by
  addresses), the random choices of each round, the priority of a transaction, the memory pool, and what the user
  answers.  Messages are the English ones.
\<close>

subsection \<open>Making a transaction\<close>

record ('k, 'd) send_env =
  se_book :: "('k, 'd) book_env"
  se_coins :: "nat \<Rightarrow> nat \<Rightarrow> coin_env"
  se_only :: bool
  se_order :: "coin_id set \<Rightarrow> coin_id list"
  se_CENT :: int64
  se_COIN :: int64
  se_nTransactionFee :: int64
  se_nMinTxFee :: int64
  se_nMinRelayTxFee :: int64
  se_out_size :: "CTxOut \<Rightarrow> nat"
  se_tx_size :: "CTransaction \<Rightarrow> nat"
  se_MAX_STANDARD_TX_SIZE :: nat
  se_GetRandInt :: "nat \<Rightarrow> nat \<Rightarrow> nat"
  se_SignSignature :: "'k \<Rightarrow> CTransaction \<Rightarrow> nat \<Rightarrow> CTransaction \<Rightarrow> bool \<times> CTransaction"
  se_AllowFree :: "(int64 \<times> int32) list \<Rightarrow> nat \<Rightarrow> bool"
  se_GetMinFee :: "CTransaction \<Rightarrow> bool \<Rightarrow> int64"
  se_AcceptToMemoryPool :: "CWalletTx \<Rightarrow> bool"
  se_AskFee :: "int64 \<Rightarrow> bool"

text \<open>The objects the function works on: the wallet, \<open>wtxNew\<close>, \<open>reservekey\<close>, \<open>nFeeRet\<close> and \<open>strFailReason\<close>.\<close>

record ('k, 'd) pay =
  pay_wallet :: "('k, 'd) CWallet"
  pay_wtx :: CWalletTx
  pay_key :: CReserveKey
  nFeeRet :: int64
  strFailReason :: string

fun sum_amounts :: "int64 \<Rightarrow> (CScript \<times> int64) list \<Rightarrow> int64 option" where
  "sum_amounts n [] = Some n"
| "sum_amounts n (s # ss) = (if n < 0 then None else sum_amounts (n + snd s) ss)"

fun add_payees :: "('k, 'd) send_env \<Rightarrow> (CScript \<times> int64) list \<Rightarrow> CTxOut list \<Rightarrow> bool \<times> CTxOut list" where
  "add_payees S [] outs = (True, outs)"
| "add_payees S (s # ss) outs =
     (let txout = \<lparr> nValue = snd s, scriptPubKey = fst s \<rparr> in
      if CTxOut_IsDust (se_out_size S) txout (se_nMinRelayTxFee S) then (False, outs) else add_payees S ss (outs @ [txout]))"

definition return_key :: "('k, 'd) pay \<Rightarrow> ('k, 'd) pay" where
  "return_key p = (case Reserve_ReturnKey (pay_key p) (pay_wallet p) of (rk, w) \<Rightarrow> p\<lparr> pay_key := rk, pay_wallet := w \<rparr>)"

text \<open>The change: a key from the pool is reserved, and the output is inserted at a random position or, as dust, becomes fee.\<close>

definition add_change :: "('k, 'd) send_env \<Rightarrow> nat \<Rightarrow> int64 \<Rightarrow> ('k, 'd) pay \<Rightarrow> unit res \<times> ('k, 'd) pay" where
  "add_change S n nChange p =
     (let B = se_book S in
      case GetReservedKey (be_keys B) (pay_key p) (pay_wallet p) of (r, rk, w) \<Rightarrow>
        let p1 = p\<lparr> pay_key := rk, pay_wallet := w \<rparr> in
        case r of
          Inl e \<Rightarrow> (Inl e, p1)
        | Inr None \<Rightarrow> (Inl AssertFailed, p1)
        | Inr (Some vchPubKey) \<Rightarrow>
            let newTxOut = \<lparr> nValue = nChange, scriptPubKey = we_SetDestination (be_wallet B) (CKeyID (ke_id (be_keys B) vchPubKey)) \<rparr> in
            if CTxOut_IsDust (se_out_size S) newTxOut (se_nMinRelayTxFee S) then
              (Inr (), return_key (p1\<lparr> nFeeRet := nFeeRet p1 + nChange \<rparr>))
            else
              let outs = vout (pay_wtx p1); pos = se_GetRandInt S n (length outs + 1)
              in (Inr (), p1\<lparr> pay_wtx := (pay_wtx p1)\<lparr> vout := take pos outs @ newTxOut # drop pos outs \<rparr> \<rparr>))"

definition sign_one :: "('k, 'd) send_env \<Rightarrow> ('k, 'd) CWallet \<Rightarrow> nat \<times> coin_id \<Rightarrow> bool \<times> CTransaction \<Rightarrow> bool \<times> CTransaction" where
  "sign_one S w nc r =
     (if fst r then se_SignSignature S (w_keys w) (tx_of (the (map_of (mapWallet w) (fst (snd nc))))) (fst nc) (snd r) else r)"

definition set_tx :: "CTransaction \<Rightarrow> CWalletTx \<Rightarrow> CWalletTx" where
  "set_tx t wtx = wtx\<lparr> tx_nVersion := tx_nVersion t, vin := vin t, vout := vout t, nLockTime := nLockTime t \<rparr>"

text \<open>From filling \<open>vin\<close> to the check of the fee; \<open>None\<close> is \<open>continue\<close>.\<close>

definition finish_round :: "('k, 'd) send_env \<Rightarrow> coin_id set \<Rightarrow> ('k, 'd) pay \<Rightarrow> bool option \<times> ('k, 'd) pay" where
  "finish_round S setCoins p =
     (let E = be_wallet (se_book S); w = pay_wallet p; coins = se_order S setCoins;
          prev = (\<lambda>c. the (map_of (mapWallet w) (fst c)));
          ins = map (\<lambda>c. \<lparr> prevout = COutPoint (GetHash E (prev c)) (word_of_nat (snd c)), scriptSig = [], nSequence = - 1 \<rparr>) coins;
          tx = tx_of ((pay_wtx p)\<lparr> vin := ins \<rparr>);
          (signed, tx1) = fold (sign_one S w) (zip [0..<length coins] coins) (True, tx);
          p1 = p\<lparr> pay_wtx := set_tx tx1 (pay_wtx p) \<rparr>
      in if \<not> signed then (Some False, p1\<lparr> strFailReason := ''Signing transaction failed'' \<rparr>)
         else
           let nBytes = se_tx_size S tx1 in
           if nBytes \<ge> se_MAX_STANDARD_TX_SIZE S then (Some False, p1\<lparr> strFailReason := ''Transaction too large'' \<rparr>)
           else
             let nPayFee = se_nTransactionFee S * (1 + int nBytes div 1000);
                 fAllowFree = se_AllowFree S (map (\<lambda>c. (nValue (vout (prev c) ! snd c), depth_of E (prev c) + 1)) coins) nBytes;
                 nMinFee = se_GetMinFee S tx1 fAllowFree
             in if nFeeRet p1 < max nPayFee nMinFee then (None, p1\<lparr> nFeeRet := max nPayFee nMinFee \<rparr>)
                else (Some True, p1\<lparr> pay_wtx := (AddSupportingTransactions (se_book S) w (pay_wtx p1))\<lparr> fTimeReceivedIsTxTime := 1 \<rparr> \<rparr>))"

definition create_round :: "('k, 'd) send_env \<Rightarrow> (CScript \<times> int64) list \<Rightarrow> int64 \<Rightarrow> nat \<Rightarrow> ('k, 'd) pay \<Rightarrow> bool option res \<times> ('k, 'd) pay" where
  "create_round S vecSend value n p0 =
     (let nTotalValue = value + nFeeRet p0;
          (paid, outs) = add_payees S vecSend [];
          p1 = p0\<lparr> pay_wtx := (pay_wtx p0)\<lparr> vin := [], vout := outs, fFromMe := True \<rparr> \<rparr>
      in if \<not> paid then (Inr (Some False), p1\<lparr> strFailReason := ''Transaction amount too small'' \<rparr>)
         else case SelectCoins (be_wallet (se_book S)) (se_coins S n) (se_only S) (pay_wallet p1) nTotalValue of
           (found, setCoins, nValueIn) \<Rightarrow>
             if \<not> found then (Inr (Some False), p1\<lparr> strFailReason := ''Insufficient funds'' \<rparr>)
             else
               let nChange0 = nValueIn - value - nFeeRet p1;
                   nMoveToFee = (if nFeeRet p1 < se_nMinTxFee S \<and> nChange0 > 0 \<and> nChange0 < se_CENT S
                     then min nChange0 (se_nMinTxFee S - nFeeRet p1) else 0);
                   nChange = nChange0 - nMoveToFee;
                   p2 = p1\<lparr> nFeeRet := nFeeRet p1 + nMoveToFee \<rparr>
               in case (if nChange > 0 then add_change S n nChange p2 else (Inr (), return_key p2)) of
                    (Inl e, p3) \<Rightarrow> (Inl e, p3)
                  | (Inr _, p3) \<Rightarrow> (case finish_round S setCoins p3 of (r, p4) \<Rightarrow> (Inr r, p4)))"

text \<open>The loop; none if it does not end.\<close>

partial_function (option) create_loop :: "('k, 'd) send_env \<Rightarrow> (CScript \<times> int64) list \<Rightarrow> int64 \<Rightarrow> nat \<Rightarrow> ('k, 'd) pay \<Rightarrow> (bool res \<times> ('k, 'd) pay) option" where
  "create_loop S vecSend value n p =
     (case create_round S vecSend value n p of
        (Inl e, p1) \<Rightarrow> Some (Inl e, p1)
      | (Inr (Some r), p1) \<Rightarrow> Some (Inr r, p1)
      | (Inr None, p1) \<Rightarrow> create_loop S vecSend value (n + 1) p1)"

declare create_loop.simps [code]

definition CreateTransaction :: "('k, 'd) send_env \<Rightarrow> (CScript \<times> int64) list \<Rightarrow> ('k, 'd) pay \<Rightarrow> bool res \<times> ('k, 'd) pay" where
  "CreateTransaction S vecSend p =
     (case sum_amounts 0 vecSend of
        None \<Rightarrow> (Inr False, p\<lparr> strFailReason := ''Transaction amounts must be positive'' \<rparr>)
      | Some value \<Rightarrow>
          if vecSend = [] \<or> value < 0 then (Inr False, p\<lparr> strFailReason := ''Transaction amounts must be positive'' \<rparr>)
          else case create_loop S vecSend value 0 (p\<lparr> nFeeRet := se_nTransactionFee S \<rparr>) of
            None \<Rightarrow> (Inl NoReturn, p) | Some r \<Rightarrow> r)"

subsection \<open>Committing and sending\<close>

text \<open>\<open>mapWallet[hash]\<close> makes an entry with a default transaction if there is none.\<close>

definition commit_one :: "('k, 'd) wallet_env \<Rightarrow> CTxIn \<Rightarrow> ('k, 'd) CWallet \<Rightarrow> ('k, 'd) CWallet" where
  "commit_one E txin w =
     (let h = op_hash (prevout txin);
          coin = (case map_of (mapWallet w) h of Some t \<Rightarrow> t | None \<Rightarrow> we_make E CTransaction_SetNull);
          coin1 = we_MarkSpent E (unat (op_n (prevout txin))) coin
      in snd (WriteToDisk E coin1 (w\<lparr> mapWallet := map_put h coin1 (mapWallet w) \<rparr>)))"

text \<open>The last component is what is relayed to the peers; the result of \<open>AddToWallet\<close> is not looked at.\<close>

definition CommitTransaction :: "('k, 'd) send_env \<Rightarrow> CWalletTx \<Rightarrow> CReserveKey \<Rightarrow> ('k, 'd) CWallet \<Rightarrow>
    bool res \<times> CReserveKey \<times> ('k, 'd) CWallet \<times> (uint256 \<times> CTransaction) list" where
  "CommitTransaction S wtxNew rk w0 =
     (let B = se_book S; E = be_wallet B in
      case Reserve_KeepKey (be_keys B) rk w0 of (rk1, w1) \<Rightarrow>
      case AddToWallet B wtxNew w1 of
        (Inl e, w2) \<Rightarrow> (Inl e, rk1, w2, [])
      | (Inr _, w2) \<Rightarrow>
          let w3 = fold (commit_one E) (vin wtxNew) w2;
              w4 = w3\<lparr> mapRequestCount := (mapRequestCount w3)(GetHash E wtxNew \<mapsto> 0) \<rparr>
          in if \<not> se_AcceptToMemoryPool S wtxNew then (Inr False, rk1, w4, [])
             else (Inr True, rk1, w4, RelayWalletTransaction E wtxNew))"

text \<open>The fee that \<open>SendMoney\<close> declares has no value until \<open>CreateTransaction\<close> sets it: it is an argument.  The result is the
  message, empty on success.\<close>

definition SendMoney :: "('k, 'd) send_env \<Rightarrow> CScript \<Rightarrow> int64 \<Rightarrow> CWalletTx \<Rightarrow> int64 \<Rightarrow> bool \<Rightarrow> ('k, 'd) CWallet \<Rightarrow>
    string res \<times> CReserveKey \<times> ('k, 'd) CWallet \<times> (uint256 \<times> CTransaction) list" where
  "SendMoney S script value wtxNew unset fAskFee w =
     (let B = se_book S in
      if ke_IsLocked (be_keys B) (w_keys w) then
        (Inr ''Error: Wallet locked, unable to create transaction!'', CReserveKey_make, w, [])
      else case CreateTransaction S [(script, value)]
          \<lparr> pay_wallet = w, pay_wtx = wtxNew, pay_key = CReserveKey_make, nFeeRet = unset, strFailReason = [] \<rparr> of
        (Inl e, p) \<Rightarrow> (Inl e, pay_key p, pay_wallet p, [])
      | (Inr False, p) \<Rightarrow>
          (Inr (if value + nFeeRet p > GetBalance (be_wallet B) (pay_wallet p) then
                  ''Error: This transaction requires a transaction fee of at least '' @ FormatMoney (se_COIN S) (nFeeRet p) False @
                  '' because of its amount, complexity, or use of recently received funds!''
                else strFailReason p), pay_key p, pay_wallet p, [])
      | (Inr True, p) \<Rightarrow>
          if fAskFee \<and> \<not> se_AskFee S (nFeeRet p) then (Inr ''ABORTED'', pay_key p, pay_wallet p, [])
          else case CommitTransaction S (pay_wtx p) (pay_key p) (pay_wallet p) of
            (Inl e, rk, w1, out) \<Rightarrow> (Inl e, rk, w1, out)
          | (Inr ok, rk, w1, out) \<Rightarrow>
              (Inr (if ok then [] else
                 ''Error: The transaction was rejected! This might happen if some of the coins in your wallet were already spent, '' @
                 ''such as if you used a copy of wallet.dat and coins were spent in the copy but not marked as spent here.''), rk, w1, out))"

definition SendMoneyToDestination :: "('k, 'd) send_env \<Rightarrow> CTxDestination \<Rightarrow> int64 \<Rightarrow> CWalletTx \<Rightarrow> int64 \<Rightarrow> bool \<Rightarrow> ('k, 'd) CWallet \<Rightarrow>
    string res \<times> CReserveKey \<times> ('k, 'd) CWallet \<times> (uint256 \<times> CTransaction) list" where
  "SendMoneyToDestination S address value wtxNew unset fAskFee w =
     (if value \<le> 0 then (Inr ''Invalid amount'', CReserveKey_make, w, [])
      else if value + se_nTransactionFee S > GetBalance (be_wallet (se_book S)) w then (Inr ''Insufficient funds'', CReserveKey_make, w, [])
      else SendMoney S (we_SetDestination (be_wallet (se_book S)) address) value wtxNew unset fAskFee w)"

subsection \<open>What the environment promises\<close>

text \<open>The coins are walked through each once; signing fills in scripts and changes nothing else; \<open>GetMinFee\<close> is at most
  \<open>F\<close>, as it cuts its result off at \<open>MAX_MONEY\<close>.\<close>

definition send_env_ok :: "int64 \<Rightarrow> ('k, 'd) send_env \<Rightarrow> bool" where
  "send_env_ok F S \<longleftrightarrow> book_env_ok (se_book S) \<and> (\<forall>n k. coin_env_ok (se_coins S n k)) \<and>
     (\<forall>A. finite A \<longrightarrow> set (se_order S A) = A \<and> distinct (se_order S A)) \<and>
     (\<forall>k prev n t. vout (snd (se_SignSignature S k prev n t)) = vout t \<and>
        map prevout (vin (snd (se_SignSignature S k prev n t))) = map prevout (vin t)) \<and>
     0 \<le> se_nTransactionFee S \<and> (\<forall>t b. se_GetMinFee S t b \<le> F)"

definition fee_limit :: "int64 \<Rightarrow> ('k, 'd) send_env \<Rightarrow> int64" where
  "fee_limit F S = max (se_nTransactionFee S * (1 + int (se_MAX_STANDARD_TX_SIZE S) div 1000)) F"

definition sane_coins :: "('k, 'd) CWallet \<Rightarrow> bool" where
  "sane_coins w \<longleftrightarrow> (\<forall>(h, t)\<in>set (mapWallet w). \<forall>out\<in>set (vout t). nValue out < 2 ^ 63 - 1)"

lemma send_env_okD:
  assumes "send_env_ok F S"
  shows "book_env_ok (se_book S)" "coin_env_ok (se_coins S n k)"
    "finite A \<Longrightarrow> set (se_order S A) = A" "finite A \<Longrightarrow> distinct (se_order S A)"
    "vout (snd (se_SignSignature S q prev i t)) = vout t"
    "map prevout (vin (snd (se_SignSignature S q prev i t))) = map prevout (vin t)"
    "0 \<le> se_nTransactionFee S" "se_GetMinFee S t b \<le> F"
  using assms by (simp_all add: send_env_ok_def)

lemma sane_small:
  assumes "sane_coins w" "wallet_wf E w"
  shows "small_coins E only w"
proof -
  have "distinct (map fst (mapWallet w))" using assms(2) by (intro map_ok_distinct) (simp add: wallet_wf_def)
  then show ?thesis using assms(1) by (force simp: small_coins_def sane_coins_def spendable_def)
qed

lemma GetReservedKey_same:
  assumes "GetReservedKey K rk w = (r, rk', w')"
  shows "same_txs w w'"
proof -
  obtain i x w1 where res: "ReserveKeyFromKeyPool K w = (i, x, w1)" by (cases "ReserveKeyFromKeyPool K w")
  from Reserve_same [OF this] show ?thesis
    using assms by (auto simp: GetReservedKey_def res split: if_splits sum.splits bool.splits)
qed

lemma return_key_same: "same_txs (pay_wallet p) (pay_wallet (return_key p))"
  "pay_wtx (return_key p) = pay_wtx p" "nFeeRet (return_key p) = nFeeRet p"
  by (simp_all add: return_key_def Reserve_ReturnKey_def ReturnKey_def same_txs_def)

lemma AddSupporting_tx: "tx_of (AddSupportingTransactions B w t) = tx_of t"
  by (simp add: AddSupportingTransactions_def CTransaction.truncate_def Let_def split: prod.splits)

lemma sign_fold:
  assumes S: "send_env_ok F S" and r: "fold (sign_one S w) cs (b, t) = (b', t')"
  shows "vout t' = vout t \<and> map prevout (vin t') = map prevout (vin t)"
  using r
proof (induction cs arbitrary: b t)
  case (Cons c cs)
  obtain b1 t1 where one: "sign_one S w c (b, t) = (b1, t1)" by fastforce
  have "vout t1 = vout t \<and> map prevout (vin t1) = map prevout (vin t)"
    using one send_env_okD(5,6) [OF S] by (auto simp: sign_one_def split: if_splits) (metis snd_conv)+
  moreover have "fold (sign_one S w) cs (b1, t1) = (b', t')" using Cons.prems one by simp
  ultimately show ?case using Cons.IH by metis
qed simp

subsection \<open>One round\<close>

definition payee_outs :: "(CScript \<times> int64) list \<Rightarrow> CTxOut list" where
  "payee_outs vecSend = map (\<lambda>s. \<lparr> nValue = snd s, scriptPubKey = fst s \<rparr>) vecSend"

definition not_dust :: "('k, 'd) send_env \<Rightarrow> CTxOut \<Rightarrow> bool" where
  "not_dust S out \<longleftrightarrow> \<not> CTxOut_IsDust (se_out_size S) out (se_nMinRelayTxFee S)"

lemma add_payees_ok: "add_payees S vecSend outs = (True, outs') \<Longrightarrow> outs' = outs @ payee_outs vecSend \<and> (\<forall>out\<in>set (payee_outs vecSend). not_dust S out)"
proof (induction vecSend arbitrary: outs)
  case (Cons s ss)
  let ?o = "\<lparr> nValue = snd s, scriptPubKey = fst s \<rparr>"
  have "add_payees S ss (outs @ [?o]) = (True, outs')" "not_dust S ?o"
    using Cons.prems by (simp_all add: not_dust_def Let_def split: if_splits)
  then show ?case using Cons.IH [of "outs @ [?o]"] by (simp add: payee_outs_def)
qed (simp add: payee_outs_def)

text \<open>The outputs are the payees' with the change inserted somewhere.\<close>

definition with_change :: "('k, 'd) send_env \<Rightarrow> CPubKey \<Rightarrow> CTxOut list \<Rightarrow> CTxOut list \<Rightarrow> bool" where
  "with_change S pub payees outs \<longleftrightarrow> outs = payees \<or>
     (\<exists>pos change. outs = take pos payees @ change # drop pos payees \<and> 0 < nValue change \<and> not_dust S change \<and>
        scriptPubKey change = we_SetDestination (be_wallet (se_book S)) (CKeyID (ke_id (be_keys (se_book S)) pub)))"

abbreviation out_sum :: "CTxOut list \<Rightarrow> int64" where
  "out_sum outs \<equiv> (\<Sum>out\<leftarrow>outs. nValue out)"

lemma take_drop_sum: "out_sum (take n outs) + out_sum (drop n outs) = out_sum outs"
  by (metis append_take_drop_id map_append sum_list_append)

lemma add_change_same:
  assumes "add_change S n c p = (r, p')"
  shows "same_txs (pay_wallet p) (pay_wallet p')"
proof -
  obtain q rk w where g: "GetReservedKey (be_keys (se_book S)) (pay_key p) (pay_wallet p) = (q, rk, w)"
    by (cases "GetReservedKey (be_keys (se_book S)) (pay_key p) (pay_wallet p)")
  note same = GetReservedKey_same [OF g]
  have ret: "same_txs (pay_wallet p) (pay_wallet (return_key p1))" if "pay_wallet p1 = w" for p1 :: "('a, 'b) pay"
    using same_txs_trans [OF same] return_key_same(1) [of p1] that by simp
  have "pay_wallet p' = w \<or> (\<exists>p1. pay_wallet p1 = w \<and> p' = return_key p1)"
    using assms unfolding add_change_def Let_def g prod.case
    by (cases q) (force split: option.splits if_splits)+
  then show ?thesis using same ret by blast
qed

lemma add_change_ok:
  assumes "add_change S n c p = (Inr u, p')" "0 < c"
  shows "same_txs (pay_wallet p) (pay_wallet p') \<and> vin (pay_wtx p') = vin (pay_wtx p) \<and> nFeeRet p \<le> nFeeRet p' \<and>
    (\<exists>pub. with_change S pub (vout (pay_wtx p)) (vout (pay_wtx p')) \<and>
       (vout (pay_wtx p') \<noteq> vout (pay_wtx p) \<longrightarrow> pub = rk_vchPubKey (pay_key p'))) \<and>
    out_sum (vout (pay_wtx p')) + nFeeRet p' = out_sum (vout (pay_wtx p)) + nFeeRet p + c"
proof -
  obtain r rk w where g: "GetReservedKey (be_keys (se_book S)) (pay_key p) (pay_wallet p) = (r, rk, w)"
    by (cases "GetReservedKey (be_keys (se_book S)) (pay_key p) (pay_wallet p)")
  note same = GetReservedKey_same [OF g]
  obtain pub where r: "r = Inr (Some pub)"
    using assms(1) g by (auto simp: add_change_def Let_def split: sum.splits option.splits)
  have pub: "pub = rk_vchPubKey rk" using g r by (auto simp: GetReservedKey_def Let_def split: prod.splits sum.splits bool.splits if_splits)
  let ?out = "\<lparr> nValue = c, scriptPubKey = we_SetDestination (be_wallet (se_book S)) (CKeyID (ke_id (be_keys (se_book S)) pub)) \<rparr>"
  let ?p1 = "p\<lparr> pay_key := rk, pay_wallet := w \<rparr>"
  show ?thesis
  proof (cases "not_dust S ?out")
    case True
    let ?pos = "se_GetRandInt S n (length (vout (pay_wtx p)) + 1)"
    have p': "p' = ?p1\<lparr> pay_wtx := (pay_wtx p)\<lparr> vout := take ?pos (vout (pay_wtx p)) @ ?out # drop ?pos (vout (pay_wtx p)) \<rparr> \<rparr>"
      using assms(1) g r True by (simp add: add_change_def Let_def not_dust_def)
    have "with_change S pub (vout (pay_wtx p)) (vout (pay_wtx p'))"
      using True assms(2) unfolding with_change_def p' by (intro disjI2 exI [of _ ?pos] exI [of _ ?out]) simp
    then show ?thesis using same pub take_drop_sum [of ?pos "vout (pay_wtx p)"] by (auto simp: p')
  next
    case False
    then have p': "p' = return_key (?p1\<lparr> nFeeRet := nFeeRet p + c \<rparr>)"
      using assms(1) g r by (simp add: add_change_def Let_def not_dust_def)
    have "same_txs (pay_wallet p) (pay_wallet p')"
      using same_txs_trans [OF same] return_key_same(1) [of "?p1\<lparr> nFeeRet := nFeeRet p + c \<rparr>"] by (simp add: p')
    then show ?thesis using assms(2) by (auto simp: p' return_key_same with_change_def)
  qed
qed

definition inputs_of :: "coin_id list \<Rightarrow> COutPoint list" where
  "inputs_of cs = map (\<lambda>c. COutPoint (fst c) (word_of_nat (snd c))) cs"

definition enough_fee :: "('k, 'd) send_env \<Rightarrow> ('k, 'd) pay \<Rightarrow> CTransaction \<Rightarrow> bool" where
  "enough_fee S p tx \<longleftrightarrow> se_tx_size S tx < se_MAX_STANDARD_TX_SIZE S \<and>
     se_nTransactionFee S * (1 + int (se_tx_size S tx) div 1000) \<le> nFeeRet p \<and> (\<exists>free. se_GetMinFee S tx free \<le> nFeeRet p)"

lemma finish_round_ok:
  assumes S: "send_env_ok F S" and wf: "wallet_wf (be_wallet (se_book S)) (pay_wallet p)"
    and C: "finite C" "C \<subseteq> eligible (be_wallet (se_book S)) only w a b" "mapWallet w = mapWallet (pay_wallet p)"
    and r: "finish_round S C p = (r, p')"
  shows "pay_wallet p' = pay_wallet p \<and> pay_key p' = pay_key p \<and>
    (r = Some True \<longrightarrow> map prevout (vin (pay_wtx p')) = inputs_of (se_order S C) \<and> vout (pay_wtx p') = vout (pay_wtx p) \<and>
       nFeeRet p' = nFeeRet p \<and> enough_fee S p' (tx_of (pay_wtx p'))) \<and>
    (r = None \<longrightarrow> nFeeRet p < nFeeRet p' \<and> nFeeRet p' \<le> fee_limit F S) \<and>
    (r = Some False \<longrightarrow> strFailReason p' \<noteq> [])"
proof -
  let ?E = "be_wallet (se_book S)" and ?w = "pay_wallet p"
  let ?prev = "\<lambda>c. the (map_of (mapWallet ?w) (fst c))"
  let ?coins = "se_order S C"
  let ?ins = "map (\<lambda>c. \<lparr> prevout = COutPoint (GetHash ?E (?prev c)) (word_of_nat (snd c)), scriptSig = [], nSequence = - 1 \<rparr>) ?coins"
  let ?tx = "tx_of ((pay_wtx p)\<lparr> vin := ?ins \<rparr>)"
  obtain signed tx1 where sg: "fold (sign_one S ?w) (zip [0..<length ?coins] ?coins) (True, ?tx) = (signed, tx1)" by fastforce
  note tx1 = sign_fold [OF S sg]
  let ?p1 = "p\<lparr> pay_wtx := set_tx tx1 (pay_wtx p) \<rparr>"
  let ?pay = "se_nTransactionFee S * (1 + int (se_tx_size S tx1) div 1000)"
  let ?free = "se_AllowFree S (map (\<lambda>c. (nValue (vout (?prev c) ! snd c), depth_of ?E (?prev c) + 1)) ?coins) (se_tx_size S tx1)"
  let ?min = "se_GetMinFee S tx1 ?free"
  have eq: "finish_round S C p =
      (if \<not> signed then (Some False, ?p1\<lparr> strFailReason := ''Signing transaction failed'' \<rparr>)
       else if se_tx_size S tx1 \<ge> se_MAX_STANDARD_TX_SIZE S then (Some False, ?p1\<lparr> strFailReason := ''Transaction too large'' \<rparr>)
       else if nFeeRet ?p1 < max ?pay ?min then (None, ?p1\<lparr> nFeeRet := max ?pay ?min \<rparr>)
       else (Some True, ?p1\<lparr> pay_wtx := (AddSupportingTransactions (se_book S) ?w (pay_wtx ?p1))\<lparr> fTimeReceivedIsTxTime := 1 \<rparr> \<rparr>))"
    unfolding finish_round_def Let_def sg prod.case by simp
  have hash: "GetHash ?E (?prev c) = fst c" if "c \<in> set ?coins" for c
  proof -
    have "c \<in> C" using that send_env_okD(3) [OF S C(1)] by simp
    then obtain t i where "spendable ?E only w (fst c) t i" using C(2) unfolding eligible_def by force
    then have "(fst c, t) \<in> set (mapWallet ?w)" using C(3) by (simp add: spendable_def)
    moreover have "distinct (map fst (mapWallet ?w))" using wf by (intro map_ok_distinct) (simp add: wallet_wf_def)
    ultimately have "map_of (mapWallet ?w) (fst c) = Some t" by simp
    then show ?thesis using wf by (simp add: wallet_wf_def)
  qed
  have ins: "map prevout (vin tx1) = inputs_of ?coins"
    using tx1 hash by (simp add: inputs_of_def comp_def)
  have outs: "vout tx1 = vout (pay_wtx p)" using tx1 by simp
  have settx: "tx_of (set_tx tx1 (pay_wtx p)) = tx1" by (simp add: set_tx_def CTransaction.truncate_def)
  show ?thesis
  proof (cases "signed \<and> se_tx_size S tx1 < se_MAX_STANDARD_TX_SIZE S")
    case False
    then show ?thesis using r unfolding eq by (auto split: if_splits)
  next
    case True
    show ?thesis
    proof (cases "nFeeRet p < max ?pay ?min")
      case more: True
      have "?pay \<le> se_nTransactionFee S * (1 + int (se_MAX_STANDARD_TX_SIZE S) div 1000)"
        using True send_env_okD(7) [OF S] by (intro mult_left_mono add_left_mono zdiv_mono1) simp_all
      then have "max ?pay ?min \<le> fee_limit F S" unfolding fee_limit_def by (rule max.mono) (rule send_env_okD(8) [OF S])
      then show ?thesis using r True more unfolding eq by auto
    next
      case enough: False
      let ?t = "(AddSupportingTransactions (se_book S) ?w (set_tx tx1 (pay_wtx p)))\<lparr> fTimeReceivedIsTxTime := 1 \<rparr>"
      have p': "r = Some True" "p' = p\<lparr> pay_wtx := ?t \<rparr>" using r True enough unfolding eq by (auto simp: not_less)
      have t: "tx_of ?t = tx1" using AddSupporting_tx [of "se_book S" ?w "set_tx tx1 (pay_wtx p)"] settx
        by (simp add: CTransaction.truncate_def)
      then have "vin ?t = vin tx1" "vout ?t = vout tx1" by (metis tx_of_simps(1), metis tx_of_simps(2))
      then have "map prevout (vin (pay_wtx p')) = inputs_of ?coins" "vout (pay_wtx p') = vout (pay_wtx p)"
        using ins outs by (simp_all add: p')
      moreover have "enough_fee S p' (tx_of (pay_wtx p'))"
        using enough True t by (auto simp: enough_fee_def p' not_less)
      ultimately show ?thesis by (simp add: p')
    qed
  qed
qed

text \<open>A transaction for the payees: it spends distinct coins of the wallet that may be spent, the coins are worth the
  outputs and the fee, the outputs are the payees' with at most one for change, none of them dust, the change goes to the
  reserved key, and the fee is what the rules ask for.\<close>

definition pays_for :: "('k, 'd) send_env \<Rightarrow> (CScript \<times> int64) list \<Rightarrow> ('k, 'd) CWallet \<Rightarrow> ('k, 'd) pay \<Rightarrow> bool" where
  "pays_for S vecSend w p \<longleftrightarrow>
     (\<exists>v C pub. same_txs w v \<and> finite C \<and> C \<subseteq> eligible (be_wallet (se_book S)) (se_only S) v 0 1 \<and>
        map prevout (vin (pay_wtx p)) = inputs_of (se_order S C) \<and>
        sum (coin_value w) C = out_sum (vout (pay_wtx p)) + nFeeRet p \<and>
        with_change S pub (payee_outs vecSend) (vout (pay_wtx p)) \<and>
        (vout (pay_wtx p) \<noteq> payee_outs vecSend \<longrightarrow> pub = rk_vchPubKey (pay_key p)) \<and>
        (\<forall>out\<in>set (payee_outs vecSend). not_dust S out) \<and> enough_fee S p (tx_of (pay_wtx p)))"

lemma pays_for_same: "same_txs w v \<Longrightarrow> pays_for S vecSend v p \<Longrightarrow> pays_for S vecSend w p"
proof -
  assume s: "same_txs w v" and p: "pays_for S vecSend v p"
  have "coin_value v = coin_value w" using s by (simp add: coin_value_def same_txs_def)
  moreover obtain u C pub where "same_txs v u" "finite C" "C \<subseteq> eligible (be_wallet (se_book S)) (se_only S) u 0 1"
      "map prevout (vin (pay_wtx p)) = inputs_of (se_order S C)"
      "sum (coin_value v) C = out_sum (vout (pay_wtx p)) + nFeeRet p"
      "with_change S pub (payee_outs vecSend) (vout (pay_wtx p))"
      "vout (pay_wtx p) \<noteq> payee_outs vecSend \<longrightarrow> pub = rk_vchPubKey (pay_key p)"
      "(\<forall>out\<in>set (payee_outs vecSend). not_dust S out) \<and> enough_fee S p (tx_of (pay_wtx p))"
    using p unfolding pays_for_def by (elim exE conjE) simp
  ultimately show ?thesis
    unfolding pays_for_def using same_txs_trans [OF s] by (intro exI [of _ u] exI [of _ C] exI [of _ pub]) simp
qed

lemma create_round_ok:
  assumes S: "send_env_ok F S" and wf: "wallet_wf (be_wallet (se_book S)) (pay_wallet p0)" and sane: "sane_coins (pay_wallet p0)"
    and val: "value = out_sum (payee_outs vecSend)" and r: "create_round S vecSend value n p0 = (r, p)"
  shows "same_txs (pay_wallet p0) (pay_wallet p) \<and> (r = Inr (Some True) \<longrightarrow> pays_for S vecSend (pay_wallet p0) p) \<and>
    (r = Inr None \<longrightarrow> nFeeRet p0 < nFeeRet p \<and> nFeeRet p \<le> fee_limit F S) \<and>
    (r = Inr (Some False) \<longrightarrow> strFailReason p \<noteq> [])"
proof -
  let ?E = "be_wallet (se_book S)" and ?w = "pay_wallet p0"
  obtain paid outs where po: "add_payees S vecSend [] = (paid, outs)" by fastforce
  let ?p1 = "p0\<lparr> pay_wtx := (pay_wtx p0)\<lparr> vin := [], vout := outs, fFromMe := True \<rparr> \<rparr>"
  obtain found C vin' where sel: "SelectCoins ?E (se_coins S n) (se_only S) ?w (value + nFeeRet p0) = (found, C, vin')"
    by (cases "SelectCoins ?E (se_coins S n) (se_only S) ?w (value + nFeeRet p0)")
  let ?c0 = "vin' - value - nFeeRet ?p1"
  let ?m = "if nFeeRet ?p1 < se_nMinTxFee S \<and> ?c0 > 0 \<and> ?c0 < se_CENT S then min ?c0 (se_nMinTxFee S - nFeeRet ?p1) else 0"
  let ?p2 = "?p1\<lparr> nFeeRet := nFeeRet ?p1 + ?m \<rparr>"
  have sel1: "SelectCoins ?E (se_coins S n) (se_only S) (pay_wallet ?p1) (value + nFeeRet p0) = (found, C, vin')" using sel by simp
  obtain q p3 where ch: "(if ?c0 - ?m > 0 then add_change S n (?c0 - ?m) ?p2 else (Inr (), return_key ?p2)) = (q, p3)" by fastforce
  obtain x p4 where fin: "finish_round S C p3 = (x, p4)" by fastforce
  have eq: "create_round S vecSend value n p0 =
      (if \<not> paid then (Inr (Some False), ?p1\<lparr> strFailReason := ''Transaction amount too small'' \<rparr>)
       else if \<not> found then (Inr (Some False), ?p1\<lparr> strFailReason := ''Insufficient funds'' \<rparr>)
       else case q of Inl e \<Rightarrow> (Inl e, p3) | Inr _ \<Rightarrow> (Inr x, p4))"
    unfolding create_round_def Let_def po prod.case sel1 ch fin by (rule refl)
  show ?thesis
  proof (cases "paid \<and> found")
    case False
    then show ?thesis using r unfolding eq by (cases paid; cases found) auto
  next
    case pf: True
    have good: "good_selection ?w (eligible ?E (se_only S) ?w 0 1) (value + nFeeRet p0) (True, C, vin')"
      using SelectCoins_ok [of "se_coins S n" ?E "se_only S" ?w "value + nFeeRet p0", OF send_env_okD(2) [OF S] sane_small [OF sane wf]] sel pf
      by (auto split: if_splits)
    then have C: "finite C" "C \<subseteq> eligible ?E (se_only S) ?w 0 1" "vin' = sum (coin_value ?w) C" "value + nFeeRet p0 \<le> vin'"
      by (simp_all add: good_selection_def)
    have outs: "outs = payee_outs vecSend" "\<forall>out\<in>set (payee_outs vecSend). not_dust S out"
      using add_payees_ok [of S vecSend "[]" outs] po pf by simp_all
    have m: "0 \<le> ?m" "?m \<le> ?c0" using C(4) by (auto split: if_splits)
    have step: "same_txs ?w (pay_wallet p3) \<and>
        (q \<noteq> Inr () \<or> nFeeRet p0 \<le> nFeeRet p3 \<and> (\<exists>pub. with_change S pub outs (vout (pay_wtx p3)) \<and> (vout (pay_wtx p3) \<noteq> outs \<longrightarrow> pub = rk_vchPubKey (pay_key p3))) \<and>
          out_sum (vout (pay_wtx p3)) + nFeeRet p3 = vin')"
    proof (cases "?c0 - ?m > 0")
      case True
      show ?thesis
      proof (cases q)
        case (Inl e)
        then have "add_change S n (?c0 - ?m) ?p2 = (Inl e, p3)" using ch True by simp
        then show ?thesis using add_change_same [of S n "?c0 - ?m" ?p2] Inl by simp
      next
        case (Inr u)
        have ac: "add_change S n (?c0 - ?m) ?p2 = (Inr u, p3)" using ch True Inr by simp
        show ?thesis using add_change_ok [OF ac True] m outs val by simp
      qed
    next
      case False
      then have "q = Inr ()" "p3 = return_key ?p2" using ch by simp_all
      then show ?thesis using False m outs val return_key_same [of ?p2] by (auto simp: with_change_def)
    qed
    have wf3: "wallet_wf ?E (pay_wallet p3)" using same_txs_wf step wf by blast
    have map3: "mapWallet ?w = mapWallet (pay_wallet p3)" using step by (simp add: same_txs_def)
    note f = finish_round_ok [OF S wf3 C(1,2) map3 fin]
    show ?thesis
    proof (cases q)
      case (Inl e)
      then show ?thesis using r pf step unfolding eq by auto
    next
      case (Inr u)
      then have rp: "r = Inr x" "p = p4" using r pf unfolding eq by simp_all
      obtain pub where pub: "with_change S pub outs (vout (pay_wtx p3))" "vout (pay_wtx p3) \<noteq> outs \<longrightarrow> pub = rk_vchPubKey (pay_key p3)"
          "out_sum (vout (pay_wtx p3)) + nFeeRet p3 = vin'"
        using step Inr by auto
      have "pays_for S vecSend ?w p4" if "x = Some True"
        unfolding pays_for_def
        using f that pub outs C by (intro exI [of _ ?w] exI [of _ C] exI [of _ pub]) (simp add: same_txs_refl)
      moreover have "nFeeRet p0 \<le> nFeeRet p3" using step Inr by simp
      ultimately show ?thesis using f step rp by auto
    qed
  qed
qed

subsection \<open>The loop ends\<close>

lemma create_loop_ok:
  assumes S: "send_env_ok F S" and val: "value = out_sum (payee_outs vecSend)"
    and wf: "wallet_wf (be_wallet (se_book S)) (pay_wallet p)" and sane: "sane_coins (pay_wallet p)"
  shows "\<exists>r p'. create_loop S vecSend value n p = Some (r, p') \<and> same_txs (pay_wallet p) (pay_wallet p') \<and>
    (r = Inr True \<longrightarrow> pays_for S vecSend (pay_wallet p) p') \<and> (r = Inr False \<longrightarrow> strFailReason p' \<noteq> [])"
  using wf sane
proof (induction "nat (fee_limit F S - nFeeRet p)" arbitrary: n p rule: less_induct)
  case less
  obtain q p1 where q: "create_round S vecSend value n p = (q, p1)" by fastforce
  note one = create_round_ok [OF S less.prems val q]
  have step: "create_loop S vecSend value n p = (case q of Inl e \<Rightarrow> Some (Inl e, p1)
      | Inr (Some r) \<Rightarrow> Some (Inr r, p1) | Inr None \<Rightarrow> create_loop S vecSend value (n + 1) p1)"
    by (subst create_loop.simps) (simp add: q)
  consider "\<exists>e. q = Inl e" | "\<exists>r. q = Inr (Some r)" | "q = Inr None" by (metis option.exhaust sum.exhaust)
  then show ?case
  proof cases
    case 3
    then have fee: "nFeeRet p < nFeeRet p1" "nFeeRet p1 \<le> fee_limit F S" using one by simp_all
    have "wallet_wf (be_wallet (se_book S)) (pay_wallet p1)" using same_txs_wf one less.prems(1) by blast
    moreover have "sane_coins (pay_wallet p1)" using one less.prems(2) by (simp add: sane_coins_def same_txs_def)
    moreover have "nat (fee_limit F S - nFeeRet p1) < nat (fee_limit F S - nFeeRet p)" using fee by simp
    ultimately obtain r p' where r: "create_loop S vecSend value (n + 1) p1 = Some (r, p')" "same_txs (pay_wallet p1) (pay_wallet p')"
        "r = Inr True \<longrightarrow> pays_for S vecSend (pay_wallet p1) p'" "r = Inr False \<longrightarrow> strFailReason p' \<noteq> []"
      using less.hyps by blast
    then show ?thesis
      using 3 step one same_txs_trans [of "pay_wallet p" "pay_wallet p1" "pay_wallet p'"] pays_for_same [of "pay_wallet p" "pay_wallet p1" S vecSend p']
      by auto
  qed (use one step in auto)
qed

lemma sum_amounts_ok: "sum_amounts n vecSend = Some v \<Longrightarrow> v = n + out_sum (payee_outs vecSend)"
  by (induction n vecSend rule: sum_amounts.induct) (auto simp: payee_outs_def split: if_splits)

lemma CreateTransaction_ok:
  assumes S: "send_env_ok F S" and wf: "wallet_wf (be_wallet (se_book S)) (pay_wallet p)" and sane: "sane_coins (pay_wallet p)"
    and r: "CreateTransaction S vecSend p = (r, p')"
  shows "same_txs (pay_wallet p) (pay_wallet p') \<and> (r = Inr True \<longrightarrow> pays_for S vecSend (pay_wallet p) p') \<and>
    (r = Inr False \<longrightarrow> strFailReason p' \<noteq> [])"
proof (cases "sum_amounts 0 vecSend")
  case None
  then show ?thesis using r by (auto simp: CreateTransaction_def)
next
  case (Some v)
  show ?thesis
  proof (cases "vecSend = [] \<or> v < 0")
    case True
    then show ?thesis using r Some by (auto simp: CreateTransaction_def)
  next
    case False
    have v: "v = out_sum (payee_outs vecSend)" using sum_amounts_ok [OF Some] by simp
    let ?p = "p\<lparr> nFeeRet := se_nTransactionFee S \<rparr>"
    obtain q p1 where "create_loop S vecSend v 0 ?p = Some (q, p1)" "same_txs (pay_wallet ?p) (pay_wallet p1)"
        "q = Inr True \<longrightarrow> pays_for S vecSend (pay_wallet ?p) p1" "q = Inr False \<longrightarrow> strFailReason p1 \<noteq> []"
      using create_loop_ok [OF S v, of ?p 0] wf sane by auto
    then show ?thesis using r Some False by (auto simp: CreateTransaction_def)
  qed
qed

text \<open>C30. However the coins, the change position and the signatures come out, the loop of \<open>CreateTransaction\<close> ends: every
  further round raises the fee, and the fee asked for is bounded by the largest size and \<open>MAX_MONEY\<close>.\<close>

theorem CreateTransaction_returns:
  assumes "send_env_ok F S" "wallet_wf (be_wallet (se_book S)) (pay_wallet p)" "sane_coins (pay_wallet p)"
    and "sum_amounts 0 vecSend = Some v"
  shows "\<exists>r p'. create_loop S vecSend v 0 (p\<lparr> nFeeRet := se_nTransactionFee S \<rparr>) = Some (r, p')"
  using create_loop_ok [OF assms(1), of v vecSend "p\<lparr> nFeeRet := se_nTransactionFee S \<rparr>" 0] sum_amounts_ok [OF assms(4)] assms(2,3) by auto


subsection \<open>Committing\<close>

definition marked :: "('k, 'd) wallet_env \<Rightarrow> ('k, 'd) CWallet \<Rightarrow> COutPoint \<Rightarrow> bool" where
  "marked E w outp \<longleftrightarrow> (\<exists>t. map_of (mapWallet w) (op_hash outp) = Some t \<and> we_IsSpent E (unat (op_n outp)) t)"

lemma marked_grows: "marked E w outp \<Longrightarrow> grows E w w' \<Longrightarrow> marked E w' outp"
  unfolding marked_def grows_def by blast

lemma marked_not_spendable: "marked E w outp \<Longrightarrow> wallet_wf E w \<Longrightarrow> \<not> spendable E only w (op_hash outp) t (unat (op_n outp))"
proof -
  assume m: "marked E w outp" and wf: "wallet_wf E w"
  have "distinct (map fst (mapWallet w))" using wf by (intro map_ok_distinct) (simp add: wallet_wf_def)
  then have "map_of (mapWallet w) (op_hash outp) = Some t" "\<not> we_IsSpent E (unat (op_n outp)) t"
    if "spendable E only w (op_hash outp) t (unat (op_n outp))"
    using that by (simp_all add: spendable_def)
  then show ?thesis using m unfolding marked_def by fastforce
qed

lemma commit_one_ok:
  assumes E: "wallet_env_ok E" and wf: "wallet_wf E w" and t: "map_of (mapWallet w) (op_hash (prevout i)) = Some t"
  shows "grows E w (commit_one E i w) \<and> marked E (commit_one E i w) (prevout i)"
proof -
  let ?n = "unat (op_n (prevout i))"
  let ?t = "we_MarkSpent E ?n t"
  let ?w = "w\<lparr> mapWallet := map_put (op_hash (prevout i)) ?t (mapWallet w) \<rparr>"
  have g: "grows E w ?w" by (rule grows_put [OF wf t, of ?t]) (simp_all add: mark_same [OF E])
  have "map_of (mapWallet ?w) (op_hash (prevout i)) = Some ?t" using wf by (simp add: wallet_wf_def map_put_look)
  then have "marked E ?w (prevout i)" by (simp add: marked_def mark_same(3) [OF E])
  moreover have g2: "grows E ?w (snd (WriteToDisk E ?t ?w))" by (rule grows_same_txs [OF grows_wf [OF g] WriteToDisk_same])
  ultimately have "marked E (snd (WriteToDisk E ?t ?w)) (prevout i)" by (rule marked_grows)
  then show ?thesis using grows_trans [OF g g2] t by (simp add: commit_one_def Let_def)
qed

lemma commit_fold_ok:
  assumes E: "wallet_env_ok E" and wf: "wallet_wf E w" and t: "\<forall>i\<in>set ins. map_of (mapWallet w) (op_hash (prevout i)) \<noteq> None"
  shows "grows E w (fold (commit_one E) ins w) \<and> (\<forall>i\<in>set ins. marked E (fold (commit_one E) ins w) (prevout i))"
  using wf t
proof (induction ins arbitrary: w)
  case (Cons i ins)
  obtain t where t: "map_of (mapWallet w) (op_hash (prevout i)) = Some t" using Cons.prems(2) by auto
  note one = commit_one_ok [OF E Cons.prems(1) t]
  have "\<forall>j\<in>set ins. map_of (mapWallet (commit_one E i w)) (op_hash (prevout j)) \<noteq> None"
    using Cons.prems(2) one unfolding grows_def by fastforce
  then have "grows E (commit_one E i w) (fold (commit_one E) ins (commit_one E i w)) \<and>
      (\<forall>j\<in>set ins. marked E (fold (commit_one E) ins (commit_one E i w)) (prevout j))"
    using Cons.IH one grows_wf by blast
  then show ?case using one grows_trans marked_grows by auto
qed (simp add: grows_refl)

lemma CommitTransaction_ok:
  assumes B: "book_env_ok (se_book S)" and wf: "wallet_wf (be_wallet (se_book S)) w"
    and t: "\<forall>i\<in>set (vin t). map_of (mapWallet w) (op_hash (prevout i)) \<noteq> None"
    and r: "CommitTransaction S t rk w = (Inr ok, rk', w', out)"
  shows "grows (be_wallet (se_book S)) w w' \<and> (\<forall>i\<in>set (vin t). marked (be_wallet (se_book S)) w' (prevout i)) \<and>
    wallet_txs w' (GetHash (be_wallet (se_book S)) t) \<noteq> None \<and> rk' = CReserveKey_make \<and>
    mapRequestCount w' (GetHash (be_wallet (se_book S)) t) = Some 0 \<and> (ok \<longleftrightarrow> se_AcceptToMemoryPool S t) \<and>
    out = (if ok then RelayWalletTransaction (be_wallet (se_book S)) t else [])"
proof -
  let ?E = "be_wallet (se_book S)"
  have E: "wallet_env_ok ?E" using B by (simp add: book_env_ok_def)
  obtain rk1 w1 where k: "Reserve_KeepKey (be_keys (se_book S)) rk w = (rk1, w1)" by fastforce
  have k1: "rk1 = CReserveKey_make" "same_txs w w1" using k by (auto simp: Reserve_KeepKey_def KeepKey_def same_txs_def split: if_splits)
  have g1: "grows ?E w w1" using grows_same_txs [OF wf] k1 by simp
  obtain q w2 where a: "AddToWallet (se_book S) t w1 = (q, w2)" by fastforce
  have g2: "grows ?E w1 w2" by (rule grows_AddToWallet [OF E grows_wf [OF g1] a])
  have added: "wallet_txs w2 (GetHash ?E t) \<noteq> None" using AddToWallet_cases [OF E grows_wf [OF g1] a] by simp
  obtain b where q: "q = Inr b" using r k a by (cases q) (auto simp: CommitTransaction_def Let_def)
  let ?w3 = "fold (commit_one ?E) (vin t) w2"
  let ?w4 = "?w3\<lparr> mapRequestCount := (mapRequestCount ?w3)(GetHash ?E t \<mapsto> 0) \<rparr>"
  have res: "w' = ?w4" "rk' = rk1" "ok \<longleftrightarrow> se_AcceptToMemoryPool S t" "out = (if ok then RelayWalletTransaction ?E t else [])"
    using r k a q by (auto simp: CommitTransaction_def Let_def split: if_splits)
  have g12: "grows ?E w w2" by (rule grows_trans [OF g1 g2])
  have "\<forall>i\<in>set (vin t). map_of (mapWallet w2) (op_hash (prevout i)) \<noteq> None"
    using t g12 unfolding grows_def by fastforce
  from commit_fold_ok [OF E grows_wf [OF g12] this]
  have c: "grows ?E w2 ?w3" "\<forall>i\<in>set (vin t). marked ?E ?w3 (prevout i)" by simp_all
  have same: "same_txs ?w3 ?w4" by (simp add: same_txs_def)
  have g34: "grows ?E ?w3 ?w4" by (rule grows_same_txs [OF grows_wf [OF c(1)] same])
  have "grows ?E w2 w'" unfolding res(1) by (rule grows_trans [OF c(1) g34])
  then have "wallet_txs w' (GetHash ?E t) \<noteq> None" using added grows_txs by fastforce
  moreover have "\<forall>i\<in>set (vin t). marked ?E w' (prevout i)" using c(2) marked_grows [OF _ g34] unfolding res(1) by blast
  moreover have "grows ?E w w'" unfolding res(1) by (rule grows_trans [OF g12 grows_trans [OF c(1) g34]])
  ultimately show ?thesis using res k1(1) by simp
qed

text \<open>C31. \<open>SendMoney\<close> reports success only for a payment made as \<open>CreateTransaction\<close> promises, accepted by the memory pool and
  recorded: afterwards the wallet holds the transaction, none of the coins it spends can be selected again, nothing the
  wallet knew is lost, and exactly what \<open>RelayWalletTransaction\<close> gives is relayed.\<close>

theorem SendMoney_safe:
  assumes S: "send_env_ok F S" and wf: "wallet_wf (be_wallet (se_book S)) w" and sane: "sane_coins w"
    and r: "SendMoney S script value t unset ask w = (Inr [], rk, w', out)"
  shows "\<exists>p. pays_for S [(script, value)] w p \<and> se_AcceptToMemoryPool S (pay_wtx p) \<and> (ask \<longrightarrow> se_AskFee S (nFeeRet p)) \<and>
    grows (be_wallet (se_book S)) w w' \<and> wallet_txs w' (GetHash (be_wallet (se_book S)) (pay_wtx p)) \<noteq> None \<and>
    (\<forall>i\<in>set (vin (pay_wtx p)). \<forall>t' only. \<not> spendable (be_wallet (se_book S)) only w' (op_hash (prevout i)) t' (unat (op_n (prevout i)))) \<and>
    out = RelayWalletTransaction (be_wallet (se_book S)) (pay_wtx p)"
proof -
  let ?E = "be_wallet (se_book S)"
  let ?p0 = "\<lparr> pay_wallet = w, pay_wtx = t, pay_key = CReserveKey_make, nFeeRet = unset, strFailReason = [] \<rparr>"
  obtain q p where c: "CreateTransaction S [(script, value)] ?p0 = (q, p)" by fastforce
  have ok: "same_txs w (pay_wallet p)" "q = Inr True \<longrightarrow> pays_for S [(script, value)] w p" "q = Inr False \<longrightarrow> strFailReason p \<noteq> []"
    using CreateTransaction_ok [OF S _ _ c] wf sane by simp_all
  have locked: "\<not> ke_IsLocked (be_keys (se_book S)) (w_keys w)" using r by (auto simp: SendMoney_def Let_def split: if_splits)
  have q: "q = Inr True"
    using r c locked ok(3) by (auto simp: SendMoney_def Let_def split: sum.splits bool.splits if_splits)
  obtain x rk1 w1 out1 where m: "CommitTransaction S (pay_wtx p) (pay_key p) (pay_wallet p) = (x, rk1, w1, out1)"
    by (cases "CommitTransaction S (pay_wtx p) (pay_key p) (pay_wallet p)")
  have res: "x = Inr True" "w1 = w'" "out1 = out" "ask \<longrightarrow> se_AskFee S (nFeeRet p)"
    using r c locked q m by (auto simp: SendMoney_def Let_def split: sum.splits if_splits)
  have pays: "pays_for S [(script, value)] w p" using ok(2) q by simp
  then obtain v C where C: "same_txs w v" "finite C" "C \<subseteq> eligible ?E (se_only S) v 0 1" "map prevout (vin (pay_wtx p)) = inputs_of (se_order S C)"
    unfolding pays_for_def by blast
  have "map_of (mapWallet (pay_wallet p)) (op_hash (prevout i)) \<noteq> None" if "i \<in> set (vin (pay_wtx p))" for i
  proof -
    have "prevout i \<in> set (inputs_of (se_order S C))" using that C(4) [symmetric] by simp
    then obtain c where "c \<in> C" "op_hash (prevout i) = fst c" using send_env_okD(3) [OF S C(2)] by (auto simp: inputs_of_def)
    then obtain t' j where "spendable ?E (se_only S) v (op_hash (prevout i)) t' j" using C(3) unfolding eligible_def by force
    then have "(op_hash (prevout i), t') \<in> set (mapWallet (pay_wallet p))" using C(1) ok(1) by (simp add: spendable_def same_txs_def)
    then show ?thesis by (metis domI dom_map_of_conv_image_fst fst_conv image_eqI domIff)
  qed
  then have in_wallet: "\<forall>i\<in>set (vin (pay_wtx p)). map_of (mapWallet (pay_wallet p)) (op_hash (prevout i)) \<noteq> None" by blast
  have g0: "grows ?E w (pay_wallet p)" by (rule grows_same_txs [OF wf ok(1)])
  note cm = CommitTransaction_ok [OF send_env_okD(1) [OF S] grows_wf [OF g0] in_wallet m [unfolded res(1)]]
  have g: "grows ?E w w'" using grows_trans [OF g0] cm res(2) by blast
  have "\<not> spendable ?E only w' (op_hash (prevout i)) t' (unat (op_n (prevout i)))" if "i \<in> set (vin (pay_wtx p))" for i t' only
    using marked_not_spendable [OF _ grows_wf [OF g]] cm res(2) that by blast
  then show ?thesis using pays cm res g by auto
qed

text \<open>For a negative amount \<open>CreateTransaction\<close> fails before it sets the fee, and \<open>SendMoney\<close> compares with the unset one.\<close>

lemma SendMoney_unset_fee:
  assumes "v < 0" "\<not> ke_IsLocked (be_keys (se_book S)) (w_keys w)"
  shows "fst (SendMoney S script v t unset ask w) =
    Inr (if v + unset > GetBalance (be_wallet (se_book S)) w then
           ''Error: This transaction requires a transaction fee of at least '' @ FormatMoney (se_COIN S) unset False @
           '' because of its amount, complexity, or use of recently received funds!''
         else ''Transaction amounts must be positive'')"
  using assms by (simp add: SendMoney_def CreateTransaction_def Let_def)

subsection \<open>Witnesses\<close>

definition demo_send :: "(nat, int64 \<rightharpoonup> CKeyPool) send_env" where
  "demo_send = \<lparr> se_book = demo_book, se_coins = (\<lambda>_ _. demo_coins), se_only = True, se_order = sorted_list_of_set, se_CENT = 1000000,
     se_COIN = 100000000, se_nTransactionFee = 0, se_nMinTxFee = 50000, se_nMinRelayTxFee = 0, se_out_size = (\<lambda>_. 34), se_tx_size = (\<lambda>_. 226),
     se_MAX_STANDARD_TX_SIZE = 100000, se_GetRandInt = (\<lambda>_ _. 0), se_SignSignature = (\<lambda>_ _ _ t. (True, t)), se_AllowFree = (\<lambda>_ _. True),
     se_GetMinFee = (\<lambda>_ _. 0), se_AcceptToMemoryPool = (\<lambda>_. True), se_AskFee = (\<lambda>_. True) \<rparr>"

lemma demo_send_ok: "send_env_ok 0 demo_send"
  using demo_view_ok demo_coins_ok by (simp add: send_env_ok_def demo_send_def demo_view_def)

lemma demo_sane: "sane_coins demo_book_wallet"
  by (simp add: sane_coins_def demo_book_wallet_def demo_coin_tx_def wallet_tx_def)

lemma demo_select: "SelectCoins demo_wallet_env (\<lambda>_. demo_coins) True demo_book_wallet 5 = (True, {(1, 0)}, 5)"
proof -
  have "AvailableCoins demo_wallet_env True demo_book_wallet = [\<lparr> out_tx = (1, demo_coin_tx 5), out_i = 0, out_nDepth = 10 \<rparr>]"
    by (simp add: AvailableCoins_def demo_book_wallet_def demo_wallet_env_def wtx_final_def IsFinalTx_def demo_coin_tx_def wallet_tx_def
        IsCoinBase_def IsLockedCoin_def spent_at_def demo_key_wallet_def CTransaction.truncate_def)
  then show ?thesis
    by (simp add: SelectCoins_def SelectCoinsMinConf_def demo_coins_def deep_enough_def from_me_def demo_wallet_env_def coin_of_def
        chosen_def demo_coin_tx_def wallet_tx_def Let_def)
qed

lemma demo_sign: "fst (fold (sign_one demo_send w) cs (True, t))"
  by (induction cs arbitrary: t) (simp_all add: sign_one_def demo_send_def)

lemma demo_finish: "nFeeRet p = 0 \<Longrightarrow> fst (finish_round demo_send C p) = Some True"
  unfolding finish_round_def Let_def case_prod_unfold
  by (simp add: demo_sign) (simp add: demo_send_def)

lemma demo_create:
  "fst (CreateTransaction demo_send [([1], 5)]
     \<lparr> pay_wallet = demo_book_wallet, pay_wtx = demo_coin_tx 0, pay_key = CReserveKey_make, nFeeRet = 0, strFailReason = [] \<rparr>) = Inr True"
proof -
  let ?p = "\<lparr> pay_wallet = demo_book_wallet, pay_wtx = demo_coin_tx 0, pay_key = CReserveKey_make, nFeeRet = 0, strFailReason = [] \<rparr>"
  have pay: "add_payees demo_send [([1], 5)] [] = (True, [\<lparr> nValue = 5, scriptPubKey = [1] \<rparr>])"
    by (simp add: demo_send_def CTxOut_IsDust_def trunc_div_def)
  have "fst (create_round demo_send [([1], 5)] 5 0 ?p) = Inr (Some True)"
    using demo_select demo_finish unfolding create_round_def Let_def pay
    by (simp add: demo_send_def demo_book_def case_prod_unfold) (simp add: demo_send_def demo_book_def return_key_same)
  then obtain p1 where "create_round demo_send [([1], 5)] 5 0 ?p = (Inr (Some True), p1)" by (metis prod.collapse)
  then have "create_loop demo_send [([1], 5)] 5 0 ?p = Some (Inr True, p1)" by (subst create_loop.simps) simp
  then show ?thesis by (simp add: CreateTransaction_def demo_send_def)
qed

lemma demo_commit: "fst (CommitTransaction demo_send t rk w) = Inr True"
proof -
  obtain rk1 w1 where k: "Reserve_KeepKey (be_keys demo_book) rk w = (rk1, w1)" by fastforce
  have "fst (AddToWallet demo_book t w1) = Inr True"
    by (rule AddToWallet_returns) (simp_all add: demo_book_def demo_wallet_env_def)
  then obtain w2 where "AddToWallet demo_book t w1 = (Inr True, w2)" by (metis prod.collapse)
  then show ?thesis using k by (simp add: CommitTransaction_def demo_send_def Let_def)
qed

lemma demo_sent: "fst (SendMoney demo_send [1] 5 (demo_coin_tx 0) 0 True demo_book_wallet) = Inr []"
proof -
  let ?p = "\<lparr> pay_wallet = demo_book_wallet, pay_wtx = demo_coin_tx 0, pay_key = CReserveKey_make, nFeeRet = 0, strFailReason = [] \<rparr>"
  obtain p where c: "CreateTransaction demo_send [([1], 5)] ?p = (Inr True, p)" using demo_create by (metis prod.collapse)
  obtain rk w1 out where m: "CommitTransaction demo_send (pay_wtx p) (pay_key p) (pay_wallet p) = (Inr True, rk, w1, out)"
    using demo_commit by (metis prod.collapse)
  have "\<not> ke_IsLocked (be_keys (se_book demo_send)) (w_keys demo_book_wallet)" "se_AskFee demo_send n" for n
    by (simp_all add: demo_send_def demo_book_def demo_key_env_def)
  then show ?thesis by (simp add: SendMoney_def Let_def c m)
qed

lemma demo_book_send: "wallet_wf (be_wallet (se_book demo_send)) demo_book_wallet"
  using demo_book_wallet_wf by (simp add: demo_send_def)

theorem CreateTransaction_returns_witness:
  "\<exists>r p'. create_loop demo_send [([1], 5)] 5 0
     \<lparr> pay_wallet = demo_book_wallet, pay_wtx = demo_coin_tx 0, pay_key = CReserveKey_make, nFeeRet = 0, strFailReason = [] \<rparr> = Some (r, p')"
  using CreateTransaction_returns [OF demo_send_ok, of "\<lparr> pay_wallet = demo_book_wallet, pay_wtx = demo_coin_tx 0,
      pay_key = CReserveKey_make, nFeeRet = 0, strFailReason = [] \<rparr>" "[([1], 5)]" 5] demo_book_send demo_sane
  by (simp add: demo_send_def)


theorem SendMoney_safe_witness:
  "\<exists>rk w' out p. SendMoney demo_send [1] 5 (demo_coin_tx 0) 0 True demo_book_wallet = (Inr [], rk, w', out) \<and>
     pays_for demo_send [([1], 5)] demo_book_wallet p \<and>
     (\<forall>i\<in>set (vin (pay_wtx p)). \<not> spendable demo_wallet_env True w' (op_hash (prevout i)) (demo_coin_tx 5) (unat (op_n (prevout i))))"
proof -
  obtain rk w' out where r: "SendMoney demo_send [1] 5 (demo_coin_tx 0) 0 True demo_book_wallet = (Inr [], rk, w', out)"
    using demo_sent by (metis prod.collapse)
  have E: "be_wallet (se_book demo_send) = demo_wallet_env" by (simp add: demo_send_def demo_book_def)
  show ?thesis
    using SendMoney_safe [OF demo_send_ok demo_book_send demo_sane r] r unfolding E by blast
qed

end
