(* ===== verification/Rpc.thy ===== *)
theory Rpc
  imports Codec Util Core "HOL-Library.Sublist"
begin

text \<open>
  The RPC server and its client (\<open>bitcoinrpc.cpp\<close>): HTTP messages, the authorization, JSON-RPC requests and
  replies, the call table, serving a connection and calling a server.  A stream is the list of characters still to
  be read.  JSON values are the type of the library in \<open>json/\<close>; its parser and printer, \<open>double\<close>s, the date, the
  version text, the warnings, the settings and the commands are the parameter \<open>rpc_env\<close>.  A command works on a state
  \<open>'s\<close>, which stands for the rest of the program.
\<close>

subsection \<open>JSON values\<close>

datatype 'r json = JObj "(string \<times> 'r json) list" | JArr "'r json list" | JStr string | JBool bool | JInt int64 | JReal 'r | JNull

datatype Value_type = obj_type | array_type | str_type | bool_type | int_type | real_type | null_type

fun type_of_json :: "'r json \<Rightarrow> Value_type" where
  "type_of_json (JObj _) = obj_type"
| "type_of_json (JArr _) = array_type"
| "type_of_json (JStr _) = str_type"
| "type_of_json (JBool _) = bool_type"
| "type_of_json (JInt _) = int_type"
| "type_of_json (JReal _) = real_type"
| "type_of_json JNull = null_type"

fun Value_type_name :: "Value_type \<Rightarrow> string" where
  "Value_type_name obj_type = ''obj''"
| "Value_type_name array_type = ''array''"
| "Value_type_name str_type = ''str''"
| "Value_type_name bool_type = ''bool''"
| "Value_type_name int_type = ''int''"
| "Value_type_name real_type = ''real''"
| "Value_type_name null_type = ''null''"

text \<open>What a call throws: a JSON object or a \<open>std::exception\<close> with its text.\<close>

datatype 'r rpc_fault = ObjError "(string \<times> 'r json) list" | StdError string

definition check_type :: "Value_type \<Rightarrow> 'r json \<Rightarrow> 'r rpc_fault option" where
  "check_type t v =
     (if type_of_json v \<noteq> t then
        Some (StdError (''value is type '' @ Value_type_name (type_of_json v) @ '', expected '' @ Value_type_name t))
      else None)"

definition find_value :: "(string \<times> 'r json) list \<Rightarrow> string \<Rightarrow> 'r json" where
  "find_value obj name = (case map_of obj name of None \<Rightarrow> JNull | Some v \<Rightarrow> v)"

record ('r, 's) rpc_env =
  re_read_string :: "string \<Rightarrow> 'r json option"
  re_write_string :: "'r json \<Rightarrow> bool \<Rightarrow> string"
  re_of_int :: "int64 \<Rightarrow> 'r"
  re_nonpos :: "'r \<Rightarrow> bool"
  re_above_21M :: "'r \<Rightarrow> bool"
  re_round_COIN :: "'r \<Rightarrow> int64"
  re_MoneyRange :: "int64 \<Rightarrow> bool"
  re_div_COIN :: "int64 \<Rightarrow> 'r"
  re_date :: "'s \<Rightarrow> string"
  re_version :: string
  re_warning :: "'s \<Rightarrow> string"
  re_disablesafemode :: bool
  re_IsSwitchChar :: "char \<Rightarrow> bool"
  re_userpass :: string
  re_MAX_SIZE :: int
  re_actor :: "string \<Rightarrow> 'r json list \<Rightarrow> 's \<Rightarrow> ('r rpc_fault + 'r json) \<times> 's"
  re_help :: "string \<Rightarrow> string option"
  re_fn :: "string \<Rightarrow> nat"

subsection \<open>Errors and type checks\<close>

abbreviation RPC_INVALID_REQUEST :: int64 where "RPC_INVALID_REQUEST \<equiv> - 32600"
abbreviation RPC_METHOD_NOT_FOUND :: int64 where "RPC_METHOD_NOT_FOUND \<equiv> - 32601"
abbreviation RPC_PARSE_ERROR :: int64 where "RPC_PARSE_ERROR \<equiv> - 32700"
abbreviation RPC_MISC_ERROR :: int64 where "RPC_MISC_ERROR \<equiv> - 1"
abbreviation RPC_FORBIDDEN_BY_SAFE_MODE :: int64 where "RPC_FORBIDDEN_BY_SAFE_MODE \<equiv> - 2"
abbreviation RPC_TYPE_ERROR :: int64 where "RPC_TYPE_ERROR \<equiv> - 3"

definition JSONRPCError :: "int64 \<Rightarrow> string \<Rightarrow> (string \<times> 'r json) list" where
  "JSONRPCError code message = [(''code'', JInt code), (''message'', JStr message)]"

fun RPCTypeCheck :: "bool \<Rightarrow> 'r json list \<Rightarrow> Value_type list \<Rightarrow> 'r rpc_fault option" where
  "RPCTypeCheck fAllowNull (v # params) (t # ts) =
     (if type_of_json v = t \<or> fAllowNull \<and> type_of_json v = null_type then RPCTypeCheck fAllowNull params ts
      else Some (ObjError (JSONRPCError RPC_TYPE_ERROR
        (''Expected type '' @ Value_type_name t @ '', got '' @ Value_type_name (type_of_json v)))))"
| "RPCTypeCheck fAllowNull _ _ = None"

text \<open>The map of expected types in the order of its keys.\<close>

fun RPCTypeCheck_obj :: "bool \<Rightarrow> (string \<times> 'r json) list \<Rightarrow> (string \<times> Value_type) list \<Rightarrow> 'r rpc_fault option" where
  "RPCTypeCheck_obj fAllowNull o' [] = None"
| "RPCTypeCheck_obj fAllowNull o' (t # ts) =
     (let v = find_value o' (fst t) in
      if \<not> fAllowNull \<and> type_of_json v = null_type then Some (ObjError (JSONRPCError RPC_TYPE_ERROR (''Missing '' @ fst t)))
      else if \<not> (type_of_json v = snd t \<or> fAllowNull \<and> type_of_json v = null_type) then
        Some (ObjError (JSONRPCError RPC_TYPE_ERROR
          (''Expected type '' @ Value_type_name (snd t) @ '' for '' @ fst t @ '', got '' @ Value_type_name (type_of_json v))))
      else RPCTypeCheck_obj fAllowNull o' ts)"

text \<open>The tests and the arithmetic on \<open>double\<close>s: \<open>dAmount <= 0.0\<close>, \<open>dAmount > 21000000.0\<close>, \<open>roundint64(dAmount * COIN)\<close>.\<close>

definition AmountFromValue :: "('r, 's) rpc_env \<Rightarrow> 'r json \<Rightarrow> 'r rpc_fault + int64" where
  "AmountFromValue R v =
     (case (case v of JInt i \<Rightarrow> Inr (re_of_int R i) | JReal r \<Rightarrow> Inr r | _ \<Rightarrow> Inl (the (check_type real_type v))) of
        Inl e \<Rightarrow> Inl e
      | Inr dAmount \<Rightarrow>
          if re_nonpos R dAmount \<or> re_above_21M R dAmount then Inl (ObjError (JSONRPCError RPC_TYPE_ERROR ''Invalid amount''))
          else let nAmount = re_round_COIN R dAmount in
            if \<not> re_MoneyRange R nAmount then Inl (ObjError (JSONRPCError RPC_TYPE_ERROR ''Invalid amount''))
            else Inr nAmount)"

definition ValueFromAmount :: "('r, 's) rpc_env \<Rightarrow> int64 \<Rightarrow> 'r json" where
  "ValueFromAmount R amount = JReal (re_div_COIN R amount)"

subsection \<open>The call table\<close>

definition vRPCCommands :: "(string \<times> bool \<times> bool) list" where
  "vRPCCommands =
     [(''help'', True, True), (''stop'', True, True), (''getblockcount'', True, False), (''getconnectioncount'', True, False),
      (''getpeerinfo'', True, False), (''addnode'', True, True), (''getaddednodeinfo'', True, True), (''getdifficulty'', True, False),
      (''getgenerate'', True, False), (''setgenerate'', True, False), (''gethashespersec'', True, False), (''getinfo'', True, False),
      (''getmininginfo'', True, False), (''getnewaddress'', True, False), (''getaccountaddress'', True, False), (''setaccount'', True, False),
      (''getaccount'', False, False), (''getaddressesbyaccount'', True, False), (''sendtoaddress'', False, False),
      (''getreceivedbyaddress'', False, False), (''getreceivedbyaccount'', False, False), (''listreceivedbyaddress'', False, False),
      (''listreceivedbyaccount'', False, False), (''backupwallet'', True, False), (''keypoolrefill'', True, False),
      (''walletpassphrase'', True, False), (''walletpassphrasechange'', False, False), (''walletlock'', True, False),
      (''encryptwallet'', False, False), (''validateaddress'', True, False), (''getbalance'', False, False), (''move'', False, False),
      (''sendfrom'', False, False), (''sendmany'', False, False), (''addmultisigaddress'', False, False), (''createmultisig'', True, True),
      (''getrawmempool'', True, False), (''getblock'', False, False), (''getblockhash'', False, False), (''gettransaction'', False, False),
      (''listtransactions'', False, False), (''listaddressgroupings'', False, False), (''signmessage'', False, False),
      (''verifymessage'', False, False), (''getwork'', True, False), (''listaccounts'', False, False), (''settxfee'', False, False),
      (''getblocktemplate'', True, False), (''submitblock'', False, False), (''listsinceblock'', False, False), (''dumpprivkey'', True, False),
      (''importprivkey'', False, False), (''listunspent'', False, False), (''getrawtransaction'', False, False),
      (''createrawtransaction'', False, False), (''decoderawtransaction'', False, False), (''signrawtransaction'', False, False),
      (''sendrawtransaction'', False, False), (''gettxoutsetinfo'', True, False), (''gettxout'', True, False),
      (''lockunspent'', False, False), (''listlockunspent'', False, False)]"

text \<open>\<open>mapCommands\<close>: a later entry replaces an earlier one of the same name.\<close>

definition find_command :: "string \<Rightarrow> (bool \<times> bool) option" where
  "find_command name = map_of (rev vRPCCommands) name"

definition execute :: "('r, 's) rpc_env \<Rightarrow> string \<Rightarrow> 'r json list \<Rightarrow> 's \<Rightarrow> ('r rpc_fault + 'r json) \<times> 's" where
  "execute R strMethod params s =
     (case find_command strMethod of
        None \<Rightarrow> (Inl (ObjError (JSONRPCError RPC_METHOD_NOT_FOUND ''Method not found'')), s)
      | Some (okSafeMode, threadSafe) \<Rightarrow>
          if re_warning R s \<noteq> [] \<and> \<not> re_disablesafemode R \<and> \<not> okSafeMode then
            (Inl (ObjError (JSONRPCError RPC_FORBIDDEN_BY_SAFE_MODE (''Safe mode: '' @ re_warning R s))), s)
          else case re_actor R strMethod params s of
            (Inl (StdError what), s1) \<Rightarrow> (Inl (ObjError (JSONRPCError RPC_MISC_ERROR what)), s1)
          | r \<Rightarrow> r)"

text \<open>\<open>help\<close>: commands in the order of their names; \<open>re_help\<close> is the text the command throws when asked for help, none if
  it returns, and \<open>re_fn\<close> the address of its function.\<close>

fun help_loop :: "('r, 's) rpc_env \<Rightarrow> string \<Rightarrow> string list \<Rightarrow> nat set \<Rightarrow> string" where
  "help_loop R strCommand [] setDone = []"
| "help_loop R strCommand (strMethod # ms) setDone =
     (if sublist ''label'' strMethod then help_loop R strCommand ms setDone
      else if strCommand \<noteq> [] \<and> strMethod \<noteq> strCommand then help_loop R strCommand ms setDone
      else if re_fn R strMethod \<in> setDone then help_loop R strCommand ms setDone
      else
        (case re_help R strMethod of
           None \<Rightarrow> []
         | Some strHelp \<Rightarrow> (if strCommand = [] then takeWhile (\<lambda>c. c \<noteq> CHR 0x0A) strHelp else strHelp) @ [CHR 0x0A])
        @ help_loop R strCommand ms (insert (re_fn R strMethod) setDone))"

definition RPC_help :: "('r, 's) rpc_env \<Rightarrow> string list \<Rightarrow> string \<Rightarrow> string" where
  "RPC_help R names strCommand =
     (let strRet = help_loop R strCommand names {};
          strRet = (if strRet = [] then ''help: unknown command: '' @ strCommand @ [CHR 0x0A] else strRet)
      in take (length strRet - 1) strRet)"

subsection \<open>HTTP\<close>

abbreviation CR :: char where "CR \<equiv> CHR 0x0D"
abbreviation LF :: char where "LF \<equiv> CHR 0x0A"
abbreviation CRLF :: string where "CRLF \<equiv> [CR, LF]"

text \<open>\<open>getline\<close>; at the end of the stream the line is empty.\<close>

definition getline :: "string \<Rightarrow> string \<times> string" where
  "getline stream = (takeWhile (\<lambda>c. c \<noteq> LF) stream, drop 1 (dropWhile (\<lambda>c. c \<noteq> LF) stream))"

text \<open>\<open>boost::split\<close> at every space.\<close>

fun split_spaces :: "string \<Rightarrow> string list" where
  "split_spaces [] = [[]]"
| "split_spaces (c # s) = (if c = CHR '' '' then [] # split_spaces s else case split_spaces s of w # ws \<Rightarrow> (c # w) # ws | [] \<Rightarrow> [[c]])"

text \<open>\<open>strstr(s, "HTTP/1.")\<close> and \<open>atoi\<close> of what follows; \<open>atoi\<close> is defined by C for values in the range of \<open>int\<close>.\<close>

fun digits_val :: "int \<Rightarrow> string \<Rightarrow> int" where
  "digits_val acc [] = acc"
| "digits_val acc (c # s) = (if isdigit c then digits_val (acc * 10 + (of_char c - 48)) s else acc)"

definition atoi :: "string \<Rightarrow> int32" where
  "atoi s =
     (case dropWhile isspace s of
        [] \<Rightarrow> 0
      | c # t \<Rightarrow> if c = CHR ''-'' then - digits_val 0 t else if c = CHR ''+'' then digits_val 0 t else digits_val 0 (c # t))"

fun after_http1 :: "string \<Rightarrow> string option" where
  "after_http1 [] = None"
| "after_http1 (c # s) = (if take 7 (c # s) = ''HTTP/1.'' then Some (drop 7 (c # s)) else after_http1 s)"

definition proto_of :: "string \<Rightarrow> int32" where
  "proto_of s = (case after_http1 (c_str s) of None \<Rightarrow> 0 | Some v \<Rightarrow> atoi v)"

definition ReadHTTPRequestLine :: "string \<Rightarrow> (int32 \<times> string \<times> string) option \<times> string" where
  "ReadHTTPRequestLine stream =
     (case getline stream of (str, rest) \<Rightarrow>
        let vWords = split_spaces str in
        (if length vWords < 2 then None
         else
           let http_method = vWords ! 0; http_uri = vWords ! 1 in
           if http_method \<noteq> ''GET'' \<and> http_method \<noteq> ''POST'' then None
           else if http_uri = [] \<or> hd http_uri \<noteq> CHR ''/'' then None
           else Some (proto_of (if length vWords > 2 then vWords ! 2 else []), http_method, http_uri), rest))"

text \<open>The status and the minor version of the protocol; the latter is left unset when the line has one word.\<close>

definition ReadHTTPStatus :: "string \<Rightarrow> int32 \<Rightarrow> (int32 \<times> int32) \<times> string" where
  "ReadHTTPStatus stream proto =
     (case getline stream of (str, rest) \<Rightarrow>
        let vWords = split_spaces str in
        (if length vWords < 2 then (500, proto) else (atoi (vWords ! 1), proto_of str), rest))"

definition trim :: "string \<Rightarrow> string" where
  "trim s = rev (dropWhile isspace (rev (dropWhile isspace s)))"

definition to_lower_char :: "char \<Rightarrow> char" where
  "to_lower_char c = (if (65::nat) \<le> of_char c \<and> (of_char c :: nat) \<le> 90 then char_of (of_char c + 32 :: nat) else c)"

lemma getline_shorter: "fst (getline s) \<noteq> [] \<Longrightarrow> length (snd (getline s)) < length s"
  using length_dropWhile_le [of "\<lambda>c. c \<noteq> LF" "tl s"] by (cases s) (auto simp: getline_def split: if_splits)

function ReadHTTPHeaders :: "string \<Rightarrow> (string \<rightharpoonup> string) \<Rightarrow> int32 \<Rightarrow> int32 \<times> (string \<rightharpoonup> string) \<times> string" where
  "ReadHTTPHeaders stream mapHeadersRet nLen =
     (let str = fst (getline stream); rest = snd (getline stream) in
      if str = [] \<or> str = [CR] then (nLen, mapHeadersRet, rest)
      else if CHR '':'' \<in> set str then
        let strHeader = map to_lower_char (trim (takeWhile (\<lambda>c. c \<noteq> CHR '':'') str));
            strValue = trim (drop 1 (dropWhile (\<lambda>c. c \<noteq> CHR '':'') str))
        in ReadHTTPHeaders rest (mapHeadersRet(strHeader \<mapsto> strValue)) (if strHeader = ''content-length'' then atoi (c_str strValue) else nLen)
      else ReadHTTPHeaders rest mapHeadersRet nLen)"
  by pat_completeness auto

termination
  by (relation "measure (\<lambda>(s, m, n). length s)") (auto intro: getline_shorter)

text \<open>A body shorter than announced is filled up with the zeros of the vector it is read into.\<close>

definition ReadHTTPMessage :: "('r, 's) rpc_env \<Rightarrow> string \<Rightarrow> int32 \<Rightarrow> int32 \<times> (string \<rightharpoonup> string) \<times> string \<times> string" where
  "ReadHTTPMessage R stream nProto =
     (case ReadHTTPHeaders stream Map.empty 0 of (nLen, headers, rest) \<Rightarrow>
        if nLen < 0 \<or> nLen > re_MAX_SIZE R then (500, headers, [], rest)
        else
          let n = nat nLen; body = take n rest @ replicate (n - length rest) (CHR 0x00);
              sConHdr = (case headers ''connection'' of None \<Rightarrow> [] | Some v \<Rightarrow> v);
              headers1 = (if sConHdr \<noteq> ''close'' \<and> sConHdr \<noteq> ''keep-alive''
                then headers(''connection'' \<mapsto> (if nProto \<ge> 1 then ''keep-alive'' else ''close'')) else headers)
          in (200, headers1, body, drop n rest))"

definition HTTPPost :: "('r, 's) rpc_env \<Rightarrow> string \<Rightarrow> (string \<times> string) list \<Rightarrow> string" where
  "HTTPPost R strMsg mapRequestHeaders =
     ''POST / HTTP/1.1'' @ CRLF @
     ''User-Agent: bitcoin-json-rpc/'' @ re_version R @ CRLF @
     ''Host: 127.0.0.1'' @ CRLF @
     ''Content-Type: application/json'' @ CRLF @
     ''Content-Length: '' @ fmt_d (int (length strMsg)) @ CRLF @
     ''Connection: close'' @ CRLF @
     ''Accept: application/json'' @ CRLF @
     concat (map (\<lambda>(a, b). a @ '': '' @ b @ CRLF) mapRequestHeaders) @
     CRLF @ strMsg"

definition quoted :: "string \<Rightarrow> string" where
  "quoted s = [CHR 0x22] @ s @ [CHR 0x22]"

definition HTTPReply :: "('r, 's) rpc_env \<Rightarrow> 's \<Rightarrow> int32 \<Rightarrow> string \<Rightarrow> bool \<Rightarrow> string" where
  "HTTPReply R s nStatus strMsg keepalive =
     (if nStatus = 401 then
        ''HTTP/1.0 401 Authorization Required'' @ CRLF @ ''Date: '' @ re_date R s @ CRLF @ ''Server: bitcoin-json-rpc/'' @ re_version R @ CRLF @
        ''WWW-Authenticate: Basic realm='' @ quoted ''jsonrpc'' @ CRLF @ ''Content-Type: text/html'' @ CRLF @
        ''Content-Length: 296'' @ CRLF @ CRLF @
        ''<!DOCTYPE HTML PUBLIC '' @ quoted ''-//W3C//DTD HTML 4.01 Transitional//EN'' @ CRLF @
        quoted ''http://www.w3.org/TR/1999/REC-html401-19991224/loose.dtd'' @ ''>'' @ CRLF @
        ''<HTML>'' @ CRLF @ ''<HEAD>'' @ CRLF @ ''<TITLE>Error</TITLE>'' @ CRLF @
        ''<META HTTP-EQUIV='' @ [CHR 0x27] @ ''Content-Type'' @ [CHR 0x27] @ '' CONTENT='' @ [CHR 0x27] @ ''text/html; charset=ISO-8859-1'' @ [CHR 0x27] @ ''>'' @ CRLF @
        ''</HEAD>'' @ CRLF @ ''<BODY><H1>401 Unauthorized.</H1></BODY>'' @ CRLF @ ''</HTML>'' @ CRLF
      else
        let cStatus = (if nStatus = 200 then ''OK'' else if nStatus = 400 then ''Bad Request'' else if nStatus = 403 then ''Forbidden''
          else if nStatus = 404 then ''Not Found'' else if nStatus = 500 then ''Internal Server Error'' else [])
        in ''HTTP/1.1 '' @ fmt_d nStatus @ '' '' @ cStatus @ CRLF @ ''Date: '' @ re_date R s @ CRLF @
           ''Connection: '' @ (if keepalive then ''keep-alive'' else ''close'') @ CRLF @
           ''Content-Length: '' @ fmt_d (int (length strMsg)) @ CRLF @ ''Content-Type: application/json'' @ CRLF @
           ''Server: bitcoin-json-rpc/'' @ re_version R @ CRLF @ CRLF @ c_str strMsg)"

definition HTTPAuthorized :: "('r, 's) rpc_env \<Rightarrow> (string \<rightharpoonup> string) \<Rightarrow> bool" where
  "HTTPAuthorized R mapHeaders =
     (let strAuth = (case mapHeaders ''authorization'' of None \<Rightarrow> [] | Some v \<Rightarrow> v) in
      take 6 strAuth = ''Basic '' \<and> DecodeBase64_string (trim (drop 6 strAuth)) = re_userpass R)"


subsection \<open>JSON-RPC\<close>

definition JSONRPCRequest :: "('r, 's) rpc_env \<Rightarrow> string \<Rightarrow> 'r json list \<Rightarrow> 'r json \<Rightarrow> string" where
  "JSONRPCRequest R strMethod params i =
     re_write_string R (JObj [(''method'', JStr strMethod), (''params'', JArr params), (''id'', i)]) False @ [LF]"

definition JSONRPCReplyObj :: "'r json \<Rightarrow> 'r json \<Rightarrow> 'r json \<Rightarrow> (string \<times> 'r json) list" where
  "JSONRPCReplyObj result error i =
     [(''result'', if type_of_json error \<noteq> null_type then JNull else result), (''error'', error), (''id'', i)]"

definition JSONRPCReply :: "('r, 's) rpc_env \<Rightarrow> 'r json \<Rightarrow> 'r json \<Rightarrow> 'r json \<Rightarrow> string" where
  "JSONRPCReply R result error i = re_write_string R (JObj (JSONRPCReplyObj result error i)) False @ [LF]"

text \<open>\<open>get_int()\<close> reads the low 32 bits.\<close>

definition get_int :: "'r json \<Rightarrow> 'r rpc_fault + int32" where
  "get_int v = (case v of JInt i \<Rightarrow> Inr (sint (word_of_int i :: 32 word)) | _ \<Rightarrow> Inl (the (check_type int_type v)))"

definition ErrorReply :: "('r, 's) rpc_env \<Rightarrow> 's \<Rightarrow> (string \<times> 'r json) list \<Rightarrow> 'r json \<Rightarrow> 'r rpc_fault + string" where
  "ErrorReply R s objError i =
     (case get_int (find_value objError ''code'') of
        Inl e \<Rightarrow> Inl e
      | Inr code \<Rightarrow>
          let nStatus = (if code = RPC_INVALID_REQUEST then 400 else if code = RPC_METHOD_NOT_FOUND then 404 else 500)
          in Inr (HTTPReply R s nStatus (JSONRPCReply R JNull (JObj objError) i) False))"

text \<open>\<open>JSONRequest::parse\<close>: the identifier read so far, and the method with its parameters or what is thrown.\<close>

definition JSONRequest_parse :: "'r json \<Rightarrow> 'r json \<times> ('r rpc_fault + string \<times> 'r json list)" where
  "JSONRequest_parse valRequest =
     (case valRequest of
        JObj request \<Rightarrow>
          let i = find_value request ''id''; valMethod = find_value request ''method'';
              valParams = find_value request ''params'';
              bad = (\<lambda>m. (i, Inl (ObjError (JSONRPCError RPC_INVALID_REQUEST m))))
          in (case valMethod of
                JNull \<Rightarrow> bad ''Missing method''
              | JStr strMethod \<Rightarrow>
                  (case valParams of
                     JArr params \<Rightarrow> (i, Inr (strMethod, params))
                   | JNull \<Rightarrow> (i, Inr (strMethod, []))
                   | _ \<Rightarrow> bad ''Params must be an array'')
              | _ \<Rightarrow> bad ''Method must be a string'')
      | _ \<Rightarrow> (JNull, Inl (ObjError (JSONRPCError RPC_INVALID_REQUEST ''Invalid Request object''))))"

text \<open>The error object of what was thrown.\<close>

fun fault_object :: "'r rpc_fault \<Rightarrow> (string \<times> 'r json) list" where
  "fault_object (ObjError e) = e"
| "fault_object (StdError what) = JSONRPCError RPC_PARSE_ERROR what"

definition JSONRPCExecOne :: "('r, 's) rpc_env \<Rightarrow> 'r json \<Rightarrow> 's \<Rightarrow> (string \<times> 'r json) list \<times> 's" where
  "JSONRPCExecOne R req s =
     (case JSONRequest_parse req of
        (i, Inl e) \<Rightarrow> (JSONRPCReplyObj JNull (JObj (fault_object e)) i, s)
      | (i, Inr (strMethod, params)) \<Rightarrow>
          (case execute R strMethod params s of
             (Inl e, s1) \<Rightarrow> (JSONRPCReplyObj JNull (JObj (fault_object e)) i, s1)
           | (Inr result, s1) \<Rightarrow> (JSONRPCReplyObj result JNull i, s1)))"

fun exec_batch :: "('r, 's) rpc_env \<Rightarrow> 'r json list \<Rightarrow> 's \<Rightarrow> 'r json list \<times> 's" where
  "exec_batch R [] s = ([], s)"
| "exec_batch R (req # vReq) s =
     (let (r, s1) = JSONRPCExecOne R req s; (rs, s2) = exec_batch R vReq s1 in (JObj r # rs, s2))"

definition JSONRPCExecBatch :: "('r, 's) rpc_env \<Rightarrow> 'r json list \<Rightarrow> 's \<Rightarrow> string \<times> 's" where
  "JSONRPCExecBatch R vReq s = (let (ret, s1) = exec_batch R vReq s in (re_write_string R (JArr ret) False @ [LF], s1))"

subsection \<open>Who may connect\<close>

text \<open>An address of \<open>boost::asio\<close>: IPv4 as a number, IPv6 as 16 bytes; \<open>to_string\<close> is a parameter.\<close>

datatype rpc_address = V4 uint32 | V6 bytes

text \<open>\<open>::a.b.c.d\<close> other than \<open>::\<close> and \<open>::1\<close>, and \<open>::ffff:a.b.c.d\<close>.\<close>

definition is_v4_compatible :: "bytes \<Rightarrow> bool" where
  "is_v4_compatible b \<longleftrightarrow> take 12 b = replicate 12 0 \<and> b \<noteq> replicate 16 0 \<and> b \<noteq> replicate 15 0 @ [1]"

definition is_v4_mapped :: "bytes \<Rightarrow> bool" where
  "is_v4_mapped b \<longleftrightarrow> take 12 b = replicate 10 0 @ [255, 255]"

definition to_v4 :: "bytes \<Rightarrow> uint32" where
  "to_v4 b = word_rcat (drop 12 b)"

definition allowed_as_is :: "(rpc_address \<Rightarrow> string) \<Rightarrow> string list \<Rightarrow> rpc_address \<Rightarrow> bool" where
  "allowed_as_is to_string vAllow address =
     (if address = V4 0x7F000001 \<or> address = V6 (replicate 15 0 @ [1])
         \<or> (case address of V4 a \<Rightarrow> and a 0xFF000000 = 0x7F000000 | _ \<Rightarrow> False) then True
      else list_ex (\<lambda>strAllow. WildcardMatch (to_string address) strAllow) vAllow)"

definition ClientAllowed :: "(rpc_address \<Rightarrow> string) \<Rightarrow> string list \<Rightarrow> rpc_address \<Rightarrow> bool" where
  "ClientAllowed to_string vAllow address =
     (case address of
        V6 b \<Rightarrow> if is_v4_compatible b \<or> is_v4_mapped b then allowed_as_is to_string vAllow (V4 (to_v4 b))
                else allowed_as_is to_string vAllow address
      | V4 a \<Rightarrow> allowed_as_is to_string vAllow address)"

subsection \<open>Serving a connection\<close>

text \<open>
  The part of the loop after the authorization: the text sent, whether the loop goes on, the state, and what the
  handler of an exception itself throws (an error object without an integer code).
\<close>

definition serve_request ::
  "('r, 's) rpc_env \<Rightarrow> string \<Rightarrow> bool \<Rightarrow> 's \<Rightarrow> string \<times> bool \<times> 's \<times> 'r rpc_fault option" where
  "serve_request R strRequest fRun s =
     (let fails = (\<lambda>e i s. case ErrorReply R s (fault_object e) i of
             Inl e' \<Rightarrow> ([], False, s, Some e') | Inr text \<Rightarrow> (text, False, s, None))
      in case re_read_string R strRequest of
           None \<Rightarrow> fails (ObjError (JSONRPCError RPC_PARSE_ERROR ''Parse error'')) JNull s
         | Some valRequest \<Rightarrow>
             (case valRequest of
                JObj _ \<Rightarrow>
                  (case JSONRequest_parse valRequest of
                     (i, Inl e) \<Rightarrow> fails e i s
                   | (i, Inr (strMethod, params)) \<Rightarrow>
                       (case execute R strMethod params s of
                          (Inl e, s1) \<Rightarrow> fails e i s1
                        | (Inr result, s1) \<Rightarrow> (HTTPReply R s1 200 (JSONRPCReply R result JNull i) fRun, fRun, s1, None)))
              | JArr vReq \<Rightarrow>
                  (case JSONRPCExecBatch R vReq s of (strReply, s1) \<Rightarrow> (HTTPReply R s1 200 strReply fRun, fRun, s1, None))
              | _ \<Rightarrow> fails (ObjError (JSONRPCError RPC_PARSE_ERROR ''Top-level object parse error'')) JNull s))"

text \<open>The checks before it, for a request line that has been read.\<close>

definition serve_message ::
  "('r, 's) rpc_env \<Rightarrow> string \<Rightarrow> (string \<rightharpoonup> string) \<Rightarrow> string \<Rightarrow> 's \<Rightarrow> string \<times> bool \<times> 's \<times> 'r rpc_fault option" where
  "serve_message R strURI mapHeaders strRequest s =
     (if strURI \<noteq> ''/'' then (HTTPReply R s 404 [] False, False, s, None)
      else if mapHeaders ''authorization'' = None then (HTTPReply R s 401 [] False, False, s, None)
      else if \<not> HTTPAuthorized R mapHeaders then (HTTPReply R s 401 [] False, False, s, None)
      else serve_request R strRequest (mapHeaders ''connection'' \<noteq> Some ''close'') s)"

lemma getline_length: "length (snd (getline s)) \<le> length s"
  unfolding getline_def by (simp add: le_trans [OF diff_le_self length_dropWhile_le])

lemma ReadHTTPHeaders_length: "length (snd (snd (ReadHTTPHeaders s m n))) \<le> length s"
proof (induction "length s" arbitrary: s m n rule: less_induct)
  case less
  have step: "length (snd (snd (ReadHTTPHeaders (snd (getline s)) m' n'))) \<le> length s" if "fst (getline s) \<noteq> []" for m' n'
    using less [OF getline_shorter [OF that], of m' n'] getline_shorter [OF that] by simp
  show ?case
    by (subst ReadHTTPHeaders.simps)
      (simp add: Let_def step getline_length del: ReadHTTPHeaders.simps map_eq_Cons_conv)
qed

lemma ReadHTTPMessage_length:
  assumes "ReadHTTPMessage R s p = (st, h, b, rest)"
  shows "length rest \<le> length s"
proof -
  obtain l hs t where r: "ReadHTTPHeaders s Map.empty 0 = (l, hs, t)" by (metis prod_cases3)
  have "length t \<le> length s" using ReadHTTPHeaders_length [of s Map.empty 0] by (simp add: r del: ReadHTTPHeaders.simps)
  moreover have "rest = t \<or> rest = drop (nat l) t"
    using assms by (auto simp: ReadHTTPMessage_def Let_def r simp del: ReadHTTPHeaders.simps split: if_splits)
  ultimately show ?thesis by auto
qed

lemma ReadHTTPRequestLine_length:
  assumes "ReadHTTPRequestLine s = (Some x, rest)"
  shows "length rest < length s"
proof -
  obtain l t where g: "getline s = (l, t)" by (metis surj_pair)
  have "l \<noteq> []" "rest = t"
    using assms by (auto simp: ReadHTTPRequestLine_def Let_def g split: if_splits)
  then show ?thesis using getline_shorter [of s] by (simp add: g)
qed

function ServiceConnection :: "('r, 's) rpc_env \<Rightarrow> string \<Rightarrow> 's \<Rightarrow> string \<times> 's \<times> 'r rpc_fault option" where
  "ServiceConnection R stream s =
     (case ReadHTTPRequestLine stream of
        (None, rest) \<Rightarrow> ([], s, None)
      | (Some (nProto, http_method, strURI), rest) \<Rightarrow>
          (case ReadHTTPMessage R rest nProto of (status, mapHeaders, strRequest, rest1) \<Rightarrow>
             (case serve_message R strURI mapHeaders strRequest s of (sent, fRun, s1, thrown) \<Rightarrow>
                if fRun then (case ServiceConnection R rest1 s1 of (sent1, s2, thrown1) \<Rightarrow> (sent @ sent1, s2, thrown1))
                else (sent, s1, thrown))))"
  by pat_completeness auto

termination
  by (relation "measure (\<lambda>(R, stream, s). length stream)")
    (auto dest!: ReadHTTPRequestLine_length ReadHTTPMessage_length [OF sym] ReadHTTPRequestLine_length [OF sym])

declare ServiceConnection.simps [simp del] ReadHTTPHeaders.simps [simp del]

subsection \<open>The client\<close>

text \<open>
  \<open>GetArg\<close> of the user and the password, the text on a missing password, and the server: the function from what is
  sent on the connection to what comes back, none when the connection fails.
\<close>

definition read_reply :: "('r, 's) rpc_env \<Rightarrow> string \<Rightarrow> 'r rpc_fault + (string \<times> 'r json) list" where
  "read_reply R stream =
     (case ReadHTTPStatus stream 0 of ((nStatus, nProto), rest) \<Rightarrow>
        (case ReadHTTPMessage R rest nProto of (status, mapHeaders, strReply, rest1) \<Rightarrow>
           if nStatus = 401 then Inl (StdError ''incorrect rpcuser or rpcpassword (authorization failed)'')
           else if nStatus \<ge> 400 \<and> nStatus \<noteq> 400 \<and> nStatus \<noteq> 404 \<and> nStatus \<noteq> 500 then
             Inl (StdError (''server returned HTTP error '' @ fmt_d nStatus))
           else if strReply = [] then Inl (StdError ''no response from server'')
           else case re_read_string R strReply of
               None \<Rightarrow> Inl (StdError (''couldn'' @ [CHR 0x27] @ ''t parse reply from server''))
             | Some (JObj reply) \<Rightarrow>
                 if reply = [] then Inl (StdError ''expected reply to have result, error and id properties'') else Inr reply
             | Some v \<Rightarrow> Inl (the (check_type obj_type v))))"

definition CallRPC ::
  "('r, 's) rpc_env \<Rightarrow> string \<Rightarrow> string \<Rightarrow> string \<Rightarrow> (string \<Rightarrow> 's \<Rightarrow> string \<times> 's) option \<Rightarrow>
   string \<Rightarrow> 'r json list \<Rightarrow> 's \<Rightarrow> ('r rpc_fault + (string \<times> 'r json) list) \<times> 's" where
  "CallRPC R rpcuser rpcpassword set_password server strMethod params s =
     (if rpcuser = [] \<and> rpcpassword = [] then (Inl (StdError set_password), s)
      else case server of
          None \<Rightarrow> (Inl (StdError (''couldn'' @ [CHR 0x27] @ ''t connect to server'')), s)
        | Some serve \<Rightarrow>
            let strUserPass64 = EncodeBase64_string (rpcuser @ '':'' @ rpcpassword);
                mapRequestHeaders = [(''Authorization'', ''Basic '' @ strUserPass64)];
                strRequest = JSONRPCRequest R strMethod params (JInt 1);
                strPost = HTTPPost R strRequest mapRequestHeaders
            in (case serve strPost s of (stream, s1) \<Rightarrow> (read_reply R stream, s1)))"

text \<open>\<open>get_value<T>\<close> for the types of the table.\<close>

definition get_value_as :: "('r, 's) rpc_env \<Rightarrow> Value_type \<Rightarrow> 'r json \<Rightarrow> 'r rpc_fault + 'r json" where
  "get_value_as R t v =
     (case v of
        JInt i \<Rightarrow> if t = real_type then Inr (JReal (re_of_int R i)) else if t = int_type then Inr v else Inl (the (check_type t v))
      | _ \<Rightarrow> (case check_type t v of None \<Rightarrow> Inr v | Some e \<Rightarrow> Inl e))"

text \<open>The recursion follows what the parser returns; none is a call that does not return.\<close>

partial_function (option) ConvertTo ::
  "('r, 's) rpc_env \<Rightarrow> Value_type \<Rightarrow> bool \<Rightarrow> 'r json \<Rightarrow> ('r rpc_fault + 'r json) option" where
  "ConvertTo R t fAllowNull v =
     (if fAllowNull \<and> type_of_json v = null_type then Some (Inr v)
      else (case v of
          JStr strJSON \<Rightarrow>
            (case re_read_string R strJSON of
               None \<Rightarrow> Some (Inl (StdError (''Error parsing JSON:'' @ strJSON)))
             | Some value2 \<Rightarrow> ConvertTo R t fAllowNull value2)
        | _ \<Rightarrow> Some (get_value_as R t v)))"

declare ConvertTo.simps [code]

definition convert_table :: "(string \<times> nat \<times> Value_type \<times> bool) list" where
  "convert_table =
     [(''stop'', 0, bool_type, False), (''getaddednodeinfo'', 0, bool_type, False), (''setgenerate'', 0, bool_type, False),
      (''setgenerate'', 1, int_type, False), (''sendtoaddress'', 1, real_type, False), (''settxfee'', 0, real_type, False),
      (''getreceivedbyaddress'', 1, int_type, False), (''getreceivedbyaccount'', 1, int_type, False),
      (''listreceivedbyaddress'', 0, int_type, False), (''listreceivedbyaddress'', 1, bool_type, False),
      (''listreceivedbyaccount'', 0, int_type, False), (''listreceivedbyaccount'', 1, bool_type, False),
      (''getbalance'', 1, int_type, False), (''getblockhash'', 0, int_type, False), (''move'', 2, real_type, False),
      (''move'', 3, int_type, False), (''sendfrom'', 2, real_type, False), (''sendfrom'', 3, int_type, False),
      (''listtransactions'', 1, int_type, False), (''listtransactions'', 2, int_type, False), (''listaccounts'', 0, int_type, False),
      (''walletpassphrase'', 1, int_type, False), (''getblocktemplate'', 0, obj_type, False), (''listsinceblock'', 1, int_type, False),
      (''sendmany'', 1, obj_type, False), (''sendmany'', 2, int_type, False), (''addmultisigaddress'', 0, int_type, False),
      (''addmultisigaddress'', 1, array_type, False), (''createmultisig'', 0, int_type, False), (''createmultisig'', 1, array_type, False),
      (''listunspent'', 0, int_type, False), (''listunspent'', 1, int_type, False), (''listunspent'', 2, array_type, False),
      (''getblock'', 1, bool_type, False), (''getrawtransaction'', 1, int_type, False), (''createrawtransaction'', 0, array_type, False),
      (''createrawtransaction'', 1, obj_type, False), (''signrawtransaction'', 1, array_type, True),
      (''signrawtransaction'', 2, array_type, True), (''gettxout'', 1, int_type, False), (''gettxout'', 2, bool_type, False),
      (''lockunspent'', 0, bool_type, False), (''lockunspent'', 1, array_type, False), (''importprivkey'', 2, bool_type, False)]"

fun convert_params ::
  "('r, 's) rpc_env \<Rightarrow> string \<Rightarrow> (string \<times> nat \<times> Value_type \<times> bool) list \<Rightarrow> 'r json list \<Rightarrow>
   ('r rpc_fault + 'r json list) option" where
  "convert_params R strMethod [] params = Some (Inr params)"
| "convert_params R strMethod ((name, i, t, fAllowNull) # rows) params =
     (if strMethod = name \<and> i < length params then
        (case ConvertTo R t fAllowNull (params ! i) of
           None \<Rightarrow> None
         | Some (Inl e) \<Rightarrow> Some (Inl e)
         | Some (Inr v) \<Rightarrow> convert_params R strMethod rows (params[i := v]))
      else convert_params R strMethod rows params)"

definition RPCConvertValues :: "('r, 's) rpc_env \<Rightarrow> string \<Rightarrow> string list \<Rightarrow> ('r rpc_fault + 'r json list) option" where
  "RPCConvertValues R strMethod strParams = convert_params R strMethod convert_table (map JStr strParams)"

text \<open>
  The command line, given the arguments after the program's name: the text printed and the exit code.  An argument's
  first character is the zero at its end when it is empty.
\<close>

definition skip_switches :: "('r, 's) rpc_env \<Rightarrow> string list \<Rightarrow> string list" where
  "skip_switches R argv = dropWhile (\<lambda>a. re_IsSwitchChar R (case a of [] \<Rightarrow> CHR 0x00 | c # _ \<Rightarrow> c)) argv"

definition print_reply :: "('r, 's) rpc_env \<Rightarrow> (string \<times> 'r json) list \<Rightarrow> 'r rpc_fault + string \<times> int32" where
  "print_reply R reply =
     (let result = find_value reply ''result''; error = find_value reply ''error'' in
      if type_of_json error \<noteq> null_type then
        (case error of
           JObj e \<Rightarrow> (case get_int (find_value e ''code'') of
               Inl f \<Rightarrow> Inl f | Inr code \<Rightarrow> Inr (''error: '' @ re_write_string R error False, abs code))
         | _ \<Rightarrow> Inl (the (check_type obj_type error)))
      else (case result of
          JNull \<Rightarrow> Inr ([], 0) | JStr t \<Rightarrow> Inr (t, 0) | _ \<Rightarrow> Inr (re_write_string R result True, 0)))"

text \<open>The handlers: any exception other than a \<open>std::exception\<close> is reported and thrown again (none).\<close>

definition caught :: "'r rpc_fault + string \<times> int32 \<Rightarrow> (string \<times> int32) option" where
  "caught r = (case r of Inr p \<Rightarrow> Some p | Inl (StdError what) \<Rightarrow> Some (''error: '' @ what, 87) | Inl (ObjError _) \<Rightarrow> None)"

definition CommandLineRPC ::
  "('r, 's) rpc_env \<Rightarrow> (string \<Rightarrow> 'r json list \<Rightarrow> 's \<Rightarrow> ('r rpc_fault + (string \<times> 'r json) list) \<times> 's) \<Rightarrow>
   string list \<Rightarrow> 's \<Rightarrow> ((string \<times> int32) option \<times> 's) option" where
  "CommandLineRPC R call argv s =
     (case skip_switches R argv of
        [] \<Rightarrow> Some (caught (Inl (StdError ''too few parameters'')), s)
      | strMethod # strParams \<Rightarrow>
          (case RPCConvertValues R strMethod strParams of
             None \<Rightarrow> None
           | Some (Inl e) \<Rightarrow> Some (caught (Inl e), s)
           | Some (Inr params) \<Rightarrow>
               (case call strMethod params s of
                  (Inl e, s1) \<Rightarrow> Some (caught (Inl e), s1)
                | (Inr reply, s1) \<Rightarrow> Some (caught (print_reply R reply), s1))))"

end
