(* ===== verification/RpcProps.thy ===== *)
theory RpcProps
  imports Rpc
begin

text \<open>
  The RPC server and its client: no request changes the state before its authorization, a call over a connection is
  the call of the command, and the conversion of the command line's arguments ends.
\<close>

subsection \<open>Reading what was written\<close>

lemma getline_app: "LF \<notin> set l \<Longrightarrow> getline (l @ LF # r) = (l, r)"
  unfolding getline_def by (induction l) (auto split: if_splits)

lemma c_str_no_zero: "CHR 0x00 \<notin> set s \<Longrightarrow> c_str s = s"
  by (auto simp: c_str_def takeWhile_eq_all_conv)

lemma dropWhile_id: "(s = [] \<or> \<not> P (hd s)) \<Longrightarrow> dropWhile P s = s"
  by (cases s) auto

lemma trim_space: "isspace c \<Longrightarrow> trim (c # s) = trim s"
  by (simp add: trim_def)

lemma trim_end: "isspace c \<Longrightarrow> trim (s @ [c]) = trim s"
  by (auto simp: trim_def dropWhile_append dropWhile_eq_Nil_conv [THEN iffD2, THEN sym])

lemma trim_id: "(s = [] \<or> \<not> isspace (hd s) \<and> \<not> isspace (last s)) \<Longrightarrow> trim s = s"
  by (auto simp: trim_def dropWhile_id hd_rev)

lemma digits_val_digits: "\<forall>c\<in>set s. isdigit c \<Longrightarrow> digits_val a s = a * 10 ^ length s + dec_val s"
  by (induction s arbitrary: a) (auto simp: algebra_simps)

lemma digits_plain:
  assumes "\<forall>c\<in>set s. isdigit c"
  shows "trim s = s" "c_str s = s" "LF \<notin> set s" "s \<noteq> [] \<Longrightarrow> atoi s = dec_val s"
proof -
  have nospace: "\<not> isspace c" if "c \<in> set s" for c using assms that isdigit_facts(1) by blast
  show "trim s = s" using nospace by (intro trim_id) (cases s; force intro: last_in_set)
  show "c_str s = s" "LF \<notin> set s" using assms by (auto simp: c_str_def takeWhile_eq_all_conv isdigit_def)
  assume "s \<noteq> []"
  then obtain c t where s: "s = c # t" by (cases s) auto
  then have c: "\<not> isspace c" "c \<noteq> CHR ''-''" "c \<noteq> CHR ''+''" using assms by (auto simp: isdigit_def isspace_def)
  have "atoi s = digits_val 0 (c # t)" using c by (simp add: atoi_def s del: digits_val.simps)
  also have "\<dots> = dec_val s" using assms digits_val_digits [of s 0] by (simp add: s)
  finally show "atoi s = dec_val s" .
qed

lemma fmt_d_plain: "trim (fmt_d (int n)) = fmt_d (int n)" "c_str (fmt_d (int n)) = fmt_d (int n)" "LF \<notin> set (fmt_d (int n))"
    "atoi (fmt_d (int n)) = int n"
proof -
  note p = dec_string_props [of n, THEN conjunct2, THEN conjunct1]
  show "trim (fmt_d (int n)) = fmt_d (int n)" "c_str (fmt_d (int n)) = fmt_d (int n)" "LF \<notin> set (fmt_d (int n))"
    using digits_plain(1-3) [OF p] by (simp_all add: fmt_d_def)
  show "atoi (fmt_d (int n)) = int n"
    using digits_plain(4) [OF p] dec_string_props [of n] by (simp add: fmt_d_def)
qed

lemma Headers_line:
  assumes "LF \<notin> set k" "CHR '':'' \<notin> set k" "LF \<notin> set v"
  shows "ReadHTTPHeaders (k @ CHR '':'' # v @ CR # LF # rest) m n =
    (let h = map to_lower_char (trim k) in
     ReadHTTPHeaders rest (m(h \<mapsto> trim v)) (if h = ''content-length'' then atoi (c_str (trim v)) else n))"
proof -
  have g: "getline (k @ CHR '':'' # v @ CR # LF # rest) = (k @ CHR '':'' # v @ [CR], rest)"
    using getline_app [of "k @ CHR '':'' # v @ [CR]" rest] assms by simp
  have t: "takeWhile (\<lambda>c. c \<noteq> CHR '':'') (k @ CHR '':'' # v @ [CR]) = k"
    "dropWhile (\<lambda>c. c \<noteq> CHR '':'') (k @ CHR '':'' # v @ [CR]) = CHR '':'' # v @ [CR]"
    using assms(2) by (auto simp: takeWhile_append2 dropWhile_append2 intro: trans [OF takeWhile_append2] trans [OF dropWhile_append2])
  have e: "trim (v @ [CR]) = trim v" by (simp add: trim_end isspace_def)
  show ?thesis
    by (subst ReadHTTPHeaders.simps) (simp add: g t e Let_def del: map_eq_Cons_conv)
qed

lemma Headers_end: "ReadHTTPHeaders (CR # LF # rest) m n = (n, m, rest)"
  by (subst ReadHTTPHeaders.simps) (simp add: getline_def)

lemma pbase64_digit:
  assumes "\<And>n. bit d n \<Longrightarrow> n < 6"
  shows "pbase64 ! nat d \<in> set pbase64"
  using digit_range [of d 6] assms by (intro nth_mem) (simp add: pbase64_def)

lemmas pbase64_digits =
  pbase64_digit [OF d64_range(1)] pbase64_digit [OF d64_range(2)] pbase64_digit [OF d64_range(3)] pbase64_digit [OF d64_range(4)]

lemma encode64_chars:
  "set (encode64_loop 0 l bs) \<subseteq> set (CHR ''='' # pbase64) \<and>
   set (encode64_loop 1 (d64_1 a 0) bs) \<subseteq> set (CHR ''='' # pbase64) \<and>
   set (encode64_loop 2 (d64_2 b 0) bs) \<subseteq> set (CHR ''='' # pbase64)"
proof (induction bs arbitrary: l a b)
  case Nil
  show ?case by (simp add: pbase64_digits)
next
  case (Cons c bs)
  then show ?case by (auto simp: encode64_steps pbase64_digits simp del: encode64_loop.simps One_nat_def)
qed

lemma Base64_chars: "set (EncodeBase64 bs) \<subseteq> set (CHR ''='' # pbase64)"
  using encode64_chars by (auto simp: EncodeBase64_def)

lemma EncodeBase64_plain:
  "trim (EncodeBase64_string t) = EncodeBase64_string t" "c_str (EncodeBase64_string t) = EncodeBase64_string t"
  "LF \<notin> set (EncodeBase64_string t)" "DecodeBase64_string (EncodeBase64_string t) = t"
  "c \<in> set (EncodeBase64_string t) \<Longrightarrow> \<not> isspace c"
proof -
  have nochar: "c \<notin> set (EncodeBase64_string t)" if "c \<notin> set (CHR ''='' # pbase64)" for c
    using Base64_chars [of "map byte_of_char t"] that by (auto simp: EncodeBase64_string_def)
  have sp: "\<not> isspace c" if "c \<in> set (EncodeBase64_string t)" for c
    using nochar [of c] that by (auto simp: isspace_def pbase64_def)
  then show "c \<in> set (EncodeBase64_string t) \<Longrightarrow> \<not> isspace c" by blast
  from sp show "trim (EncodeBase64_string t) = EncodeBase64_string t"
    by (intro trim_id) (cases "EncodeBase64_string t"; force intro: last_in_set)
  show "LF \<notin> set (EncodeBase64_string t)" by (rule nochar) (simp add: pbase64_def)
  show c: "c_str (EncodeBase64_string t) = EncodeBase64_string t"
    by (intro c_str_no_zero nochar) (simp add: pbase64_def)
  have "char_of_byte (byte_of_char x) = x" for x
    by (simp add: char_of_byte_def byte_of_char_def unat_of_nat take_bit_nat_eq_self)
  then have "map (char_of_byte \<circ> byte_of_char) t = t" by (simp add: map_idI)
  then show "DecodeBase64_string (EncodeBase64_string t) = t"
    unfolding DecodeBase64_string_def c by (simp add: EncodeBase64_string_def Base64_roundtrip)
qed

subsection \<open>The messages\<close>

definition header_text :: "(string \<times> string) list \<Rightarrow> string" where
  "header_text hs = concat (map (\<lambda>(k, v). k @ CHR '':'' # v @ [CR, LF]) hs)"

fun header_values :: "(string \<times> string) list \<Rightarrow> (string \<rightharpoonup> string) \<Rightarrow> int32 \<Rightarrow> int32 \<times> (string \<rightharpoonup> string)" where
  "header_values [] m n = (n, m)"
| "header_values ((k, v) # hs) m n =
     (let h = map to_lower_char (trim k) in
      header_values hs (m(h \<mapsto> trim v)) (if h = ''content-length'' then atoi (c_str (trim v)) else n))"

lemma ReadHTTPHeaders_text:
  assumes "\<forall>(k, v)\<in>set hs. LF \<notin> set k \<and> CHR '':'' \<notin> set k \<and> LF \<notin> set v"
  shows "ReadHTTPHeaders (header_text hs @ CR # LF # rest) m n = (case header_values hs m n of (l, m') \<Rightarrow> (l, m', rest))"
  using assms
proof (induction hs arbitrary: m n)
  case Nil
  then show ?case by (simp add: header_text_def Headers_end)
next
  case (Cons h hs)
  obtain k v where h: "h = (k, v)" by (cases h)
  have t: "header_text (h # hs) @ CR # LF # rest = k @ CHR '':'' # v @ CR # LF # (header_text hs @ CR # LF # rest)"
    by (simp add: header_text_def h)
  show ?case
    using Cons by (subst t, subst Headers_line) (auto simp: h Let_def)
qed

definition post_headers :: "('r, 's) rpc_env \<Rightarrow> string \<Rightarrow> string \<Rightarrow> (string \<times> string) list" where
  "post_headers R strMsg auth =
     [(''User-Agent'', '' bitcoin-json-rpc/'' @ re_version R), (''Host'', '' 127.0.0.1''), (''Content-Type'', '' application/json''),
      (''Content-Length'', CHR '' '' # fmt_d (int (length strMsg))), (''Connection'', '' close''), (''Accept'', '' application/json''),
      (''Authorization'', CHR '' '' # auth)]"

lemma HTTPPost_text:
  "HTTPPost R strMsg [(''Authorization'', auth)] =
     ''POST / HTTP/1.1'' @ CR # LF # header_text (post_headers R strMsg auth) @ CR # LF # strMsg"
  by (simp add: HTTPPost_def header_text_def post_headers_def)

definition reply_headers :: "('r, 's) rpc_env \<Rightarrow> 's \<Rightarrow> string \<Rightarrow> bool \<Rightarrow> (string \<times> string) list" where
  "reply_headers R s strMsg keepalive =
     [(''Date'', CHR '' '' # re_date R s), (''Connection'', CHR '' '' # (if keepalive then ''keep-alive'' else ''close'')),
      (''Content-Length'', CHR '' '' # fmt_d (int (length strMsg))), (''Content-Type'', '' application/json''),
      (''Server'', '' bitcoin-json-rpc/'' @ re_version R)]"

lemma header_names:
  "map to_lower_char (trim ''User-Agent'') = ''user-agent''"
  "map to_lower_char (trim ''Host'') = ''host''"
  "map to_lower_char (trim ''Content-Type'') = ''content-type''"
  "map to_lower_char (trim ''Content-Length'') = ''content-length''"
  "map to_lower_char (trim ''Connection'') = ''connection''"
  "map to_lower_char (trim ''Accept'') = ''accept''"
  "map to_lower_char (trim ''Authorization'') = ''authorization''"
  "map to_lower_char (trim ''Date'') = ''date''"
  "map to_lower_char (trim ''Server'') = ''server''"
  "trim '' close'' = ''close''"
  by code_simp+

lemma post_values:
  "\<exists>m. header_values (post_headers R msg auth) Map.empty 0 = (int (length msg), m) \<and>
     m ''authorization'' = Some (trim auth) \<and> m ''connection'' = Some ''close''"
  unfolding post_headers_def header_values.simps header_names Let_def
  by (simp add: trim_space isspace_def fmt_d_plain)

lemma reply_values: "\<exists>m. header_values (reply_headers R s msg ka) Map.empty 0 = (int (length msg), m)"
  unfolding reply_headers_def header_values.simps header_names Let_def
  by (simp add: trim_space isspace_def fmt_d_plain)

lemma ReadHTTPMessage_text:
  assumes "\<forall>(k, v)\<in>set hs. LF \<notin> set k \<and> CHR '':'' \<notin> set k \<and> LF \<notin> set v"
    and "header_values hs Map.empty 0 = (int (length msg), m)" "int (length msg) \<le> re_MAX_SIZE R"
  shows "\<exists>m'. ReadHTTPMessage R (header_text hs @ CR # LF # msg) p = (200, m', msg, []) \<and>
    m' ''authorization'' = m ''authorization'' \<and> (m ''connection'' = Some ''close'' \<longrightarrow> m' = m)"
  unfolding ReadHTTPMessage_def ReadHTTPHeaders_text [OF assms(1)] assms(2)
  using assms(3) by (auto simp: Let_def)

lemma HTTPPost_read:
  assumes "LF \<notin> set (re_version R)" "LF \<notin> set auth" "int (length msg) \<le> re_MAX_SIZE R"
  obtains rest m where "ReadHTTPRequestLine (HTTPPost R msg [(''Authorization'', auth)]) = (Some (1, ''POST'', ''/''), rest)"
    "ReadHTTPMessage R rest 1 = (200, m, msg, [])" "m ''authorization'' = Some (trim auth)" "m ''connection'' = Some ''close''"
proof -
  let ?rest = "header_text (post_headers R msg auth) @ CR # LF # msg"
  have "getline (HTTPPost R msg [(''Authorization'', auth)]) = (''POST / HTTP/1.1'' @ [CR], ?rest)"
    using getline_app [of "''POST / HTTP/1.1'' @ [CR]" ?rest] by (simp add: HTTPPost_text)
  moreover have "split_spaces (''POST / HTTP/1.1'' @ [CR]) = [''POST'', ''/'', ''HTTP/1.1'' @ [CR]]" by code_simp
  moreover have "proto_of (''HTTP/1.1'' @ [CR]) = 1" by code_simp
  ultimately have r: "ReadHTTPRequestLine (HTTPPost R msg [(''Authorization'', auth)]) = (Some (1, ''POST'', ''/''), ?rest)"
    by (simp add: ReadHTTPRequestLine_def)
  obtain m where m: "header_values (post_headers R msg auth) Map.empty 0 = (int (length msg), m)"
      "m ''authorization'' = Some (trim auth)" "m ''connection'' = Some ''close''"
    using post_values by blast
  have hs: "\<forall>(k, v)\<in>set (post_headers R msg auth). LF \<notin> set k \<and> CHR '':'' \<notin> set k \<and> LF \<notin> set v"
    using assms(1,2) fmt_d_plain(3) by (simp add: post_headers_def)
  show thesis
    using ReadHTTPMessage_text [OF hs m(1) assms(3), of 1] r m(2,3) that by auto
qed

lemma status_lines:
  "split_spaces (''HTTP/1.1 '' @ fmt_d 200 @ '' '' @ ''OK'' @ [CR]) = [''HTTP/1.1'', ''200'', ''OK'' @ [CR]] \<and> atoi ''200'' = 200"
  "split_spaces (''HTTP/1.1 '' @ fmt_d 400 @ '' '' @ ''Bad Request'' @ [CR]) = [''HTTP/1.1'', ''400'', ''Bad'', ''Request'' @ [CR]] \<and> atoi ''400'' = 400"
  "split_spaces (''HTTP/1.1 '' @ fmt_d 404 @ '' '' @ ''Not Found'' @ [CR]) = [''HTTP/1.1'', ''404'', ''Not'', ''Found'' @ [CR]] \<and> atoi ''404'' = 404"
  "split_spaces (''HTTP/1.1 '' @ fmt_d 500 @ '' '' @ ''Internal Server Error'' @ [CR]) =
     [''HTTP/1.1'', ''500'', ''Internal'', ''Server'', ''Error'' @ [CR]] \<and> atoi ''500'' = 500"
  by code_simp+

text \<open>A value the library writes and reads back, without a zero character and within the size read.\<close>

definition wire_ok :: "('r, 's) rpc_env \<Rightarrow> 'r json \<Rightarrow> bool" where
  "wire_ok R v \<longleftrightarrow>
     re_read_string R (re_write_string R v False @ [LF]) = Some v \<and> CHR 0x00 \<notin> set (re_write_string R v False) \<and>
     int (length (re_write_string R v False @ [LF])) \<le> re_MAX_SIZE R"

lemma ReadHTTPStatus_line:
  assumes "LF \<notin> set text" "split_spaces (''HTTP/1.1 '' @ fmt_d (int n) @ '' '' @ text @ [CR]) = w # t # ws \<and> atoi t = int n"
  shows "\<exists>proto. ReadHTTPStatus ((''HTTP/1.1 '' @ fmt_d (int n) @ '' '' @ text @ [CR]) @ LF # r) 0 = ((int n, proto), r)"
proof -
  have "LF \<notin> set (''HTTP/1.1 '' @ fmt_d (int n) @ '' '' @ text @ [CR])" using assms(1) fmt_d_plain(3) [of n] by auto
  from getline_app [OF this, of r] show ?thesis
    unfolding ReadHTTPStatus_def using assms(2) by (simp add: Let_def del: append.simps append_assoc)
qed

lemma HTTPReply_read:
  assumes "nStatus \<in> {200, 400, 404, 500}" "LF \<notin> set (re_version R)" "LF \<notin> set (re_date R s)" "CHR 0x00 \<notin> set msg"
    "int (length msg) \<le> re_MAX_SIZE R"
  obtains proto rest where "ReadHTTPStatus (HTTPReply R s nStatus msg ka) 0 = ((nStatus, proto), rest)"
    "\<And>p. \<exists>m. ReadHTTPMessage R rest p = (200, m, msg, [])"
proof -
  let ?rest = "header_text (reply_headers R s msg ka) @ CR # LF # msg"
  note defs = header_text_def reply_headers_def HTTPReply_def c_str_no_zero [OF assms(4)]
  have "\<exists>proto. ReadHTTPStatus (HTTPReply R s nStatus msg ka) 0 = ((nStatus, proto), ?rest)"
    using assms(1)
      ReadHTTPStatus_line [of "''OK''" 200 _ _ _ ?rest] ReadHTTPStatus_line [of "''Bad Request''" 400 _ _ _ ?rest]
      ReadHTTPStatus_line [of "''Not Found''" 404 _ _ _ ?rest] ReadHTTPStatus_line [of "''Internal Server Error''" 500 _ _ _ ?rest] status_lines
    by (auto simp: defs)
  then obtain proto where st: "ReadHTTPStatus (HTTPReply R s nStatus msg ka) 0 = ((nStatus, proto), ?rest)" by blast
  have hs: "\<forall>(k, v)\<in>set (reply_headers R s msg ka). LF \<notin> set k \<and> CHR '':'' \<notin> set k \<and> LF \<notin> set v"
    using assms(2,3) fmt_d_plain(3) by (simp add: reply_headers_def)
  obtain m where "header_values (reply_headers R s msg ka) Map.empty 0 = (int (length msg), m)" using reply_values [of R s msg ka] by blast
  from ReadHTTPMessage_text [OF hs this assms(5)] st show thesis using that by blast
qed

lemma read_reply_HTTPReply:
  assumes "nStatus \<in> {200, 400, 404, 500}" "LF \<notin> set (re_version R)" "LF \<notin> set (re_date R s)" "wire_ok R (JObj reply)" "reply \<noteq> []"
  shows "read_reply R (HTTPReply R s nStatus (re_write_string R (JObj reply) False @ [LF]) ka) = Inr reply"
proof -
  let ?msg = "re_write_string R (JObj reply) False @ [LF]"
  have w: "CHR 0x00 \<notin> set ?msg" "int (length ?msg) \<le> re_MAX_SIZE R" "re_read_string R ?msg = Some (JObj reply)"
    using assms(4) by (auto simp: wire_ok_def)
  obtain proto rest where r: "ReadHTTPStatus (HTTPReply R s nStatus ?msg ka) 0 = ((nStatus, proto), rest)"
    and m: "\<And>p. \<exists>m. ReadHTTPMessage R rest p = (200, m, ?msg, [])"
    using HTTPReply_read [OF assms(1-3) w(1,2)] by blast
  obtain h where h: "ReadHTTPMessage R rest proto = (200, h, ?msg, [])" using m by blast
  show ?thesis using assms(1,5) w(3) by (auto simp: read_reply_def r h)
qed

subsection \<open>A call over a connection\<close>

lemma HTTPAuthorized_Basic:
  assumes "m ''authorization'' = Some (trim (''Basic '' @ EncodeBase64_string t))" "t \<noteq> []"
  shows "HTTPAuthorized R m \<longleftrightarrow> t = re_userpass R"
proof -
  let ?e = "EncodeBase64_string t"
  have "DecodeBase64_string [] = []" by code_simp
  then have "?e \<noteq> []" using assms(2) EncodeBase64_plain(4) [of t] by auto
  then have "\<not> isspace (last ?e)" using EncodeBase64_plain(5) [OF last_in_set] by blast
  moreover note \<open>?e \<noteq> []\<close>
  ultimately have "trim (''Basic '' @ ?e) = ''Basic '' @ ?e" by (intro trim_id) (simp add: isspace_def)
  then show ?thesis using assms(1) EncodeBase64_plain by (auto simp: HTTPAuthorized_def Let_def)
qed

definition loopback_server :: "('r, 's) rpc_env \<Rightarrow> string \<Rightarrow> 's \<Rightarrow> string \<times> 's" where
  "loopback_server R post s = (case ServiceConnection R post s of (sent, s1, thrown) \<Rightarrow> (sent, s1))"

definition local_call :: "('r, 's) rpc_env \<Rightarrow> string \<Rightarrow> 'r json list \<Rightarrow> 's \<Rightarrow> (string \<times> 'r json) list \<times> 's" where
  "local_call R strMethod params s =
     (case execute R strMethod params s of
        (Inl e, s1) \<Rightarrow> ([(''result'', JNull), (''error'', JObj (fault_object e)), (''id'', JInt 1)], s1)
      | (Inr v, s1) \<Rightarrow> ([(''result'', v), (''error'', JNull), (''id'', JInt 1)], s1))"

lemma serve_request_reply:
  assumes "re_read_string R strRequest = Some (JObj [(''method'', JStr strMethod), (''params'', JArr params), (''id'', JInt 1)])"
    and "local_call R strMethod params s = (reply, s1)"
    and "\<And>e. map_of reply ''error'' = Some (JObj e) \<Longrightarrow> \<exists>c. map_of e ''code'' = Some (JInt c)"
  shows "\<exists>nStatus \<in> {200, 400, 404, 500}. serve_request R strRequest False s =
    (HTTPReply R s1 nStatus (re_write_string R (JObj reply) False @ [LF]) False, False, s1, None)"
proof (cases "fst (execute R strMethod params s)")
  case (Inl e)
  then have e: "execute R strMethod params s = (Inl e, s1)" and
    reply: "reply = [(''result'', JNull), (''error'', JObj (fault_object e)), (''id'', JInt 1)]"
    using assms(2) by (auto simp: local_call_def split: prod.splits)
  obtain c where "map_of (fault_object e) ''code'' = Some (JInt c)" using assms(3) [of "fault_object e"] reply by auto
  then show ?thesis
    by (auto simp: serve_request_def assms(1) JSONRequest_parse_def Let_def find_value_def e reply ErrorReply_def get_int_def
        JSONRPCReply_def JSONRPCReplyObj_def)
next
  case (Inr v)
  then have "execute R strMethod params s = (Inr v, s1)" "reply = [(''result'', v), (''error'', JNull), (''id'', JInt 1)]"
    using assms(2) by (auto simp: local_call_def split: prod.splits)
  then show ?thesis
    by (simp add: serve_request_def assms(1) JSONRequest_parse_def Let_def find_value_def JSONRPCReply_def JSONRPCReplyObj_def)
qed

lemma ServiceConnection_step:
  assumes "ReadHTTPRequestLine stream = (Some (p, m, uri), rest)" "ReadHTTPMessage R rest p = (st, h, body, rest1)"
    "serve_message R uri h body s = (sent, fRun, s1, thrown)"
  shows "ServiceConnection R stream s =
    (if fRun then (case ServiceConnection R rest1 s1 of (sent1, s2, thrown1) \<Rightarrow> (sent @ sent1, s2, thrown1)) else (sent, s1, thrown))"
  by (subst ServiceConnection.simps) (simp add: assms)

subsection \<open>Authorization\<close>

text \<open>What is read first from a stream is a message for \<open>/\<close> with this body and the right user and password.\<close>

definition authorized_request :: "('r, 's) rpc_env \<Rightarrow> string \<Rightarrow> string \<Rightarrow> bool" where
  "authorized_request R stream body \<longleftrightarrow>
     (case ReadHTTPRequestLine stream of
        (Some (nProto, http_method, strURI), rest) \<Rightarrow>
          (case ReadHTTPMessage R rest nProto of (status, mapHeaders, strRequest, rest1) \<Rightarrow>
             strURI = ''/'' \<and> strRequest = body \<and>
             (case mapHeaders ''authorization'' of
                None \<Rightarrow> False
              | Some a \<Rightarrow> take 6 a = ''Basic '' \<and> DecodeBase64_string (trim (drop 6 a)) = re_userpass R))
      | _ \<Rightarrow> False)"

text \<open>The state after the request in a body.\<close>

definition run_body :: "('r, 's) rpc_env \<Rightarrow> string \<Rightarrow> 's \<Rightarrow> 's" where
  "run_body R body s = fst (snd (snd (serve_request R body False s)))"

lemma run_body_eq: "fst (snd (snd (serve_request R body fRun s))) = run_body R body s"
  by (auto simp: run_body_def serve_request_def Let_def split: option.split json.split prod.split sum.split)

lemma getline_suffix: "suffix (snd (getline s)) s"
  unfolding getline_def by (simp add: suffix_order.trans [OF suffix_drop suffix_dropWhile])

lemma ReadHTTPHeaders_suffix: "suffix (snd (snd (ReadHTTPHeaders s m n))) s"
proof (induction "length s" arbitrary: s m n rule: less_induct)
  case less
  have step: "suffix (snd (snd (ReadHTTPHeaders (snd (getline s)) m' n'))) s" if "fst (getline s) \<noteq> []" for m' n'
    using less [OF getline_shorter [OF that], of m' n'] getline_suffix [of s] by (rule suffix_order.trans)
  show ?case
    by (subst ReadHTTPHeaders.simps) (simp add: Let_def step getline_suffix del: map_eq_Cons_conv)
qed

lemma ReadHTTPMessage_suffix:
  assumes "ReadHTTPMessage R s p = (st, h, b, rest)"
  shows "suffix rest s"
proof -
  obtain l hs t where r: "ReadHTTPHeaders s Map.empty 0 = (l, hs, t)" by (metis prod_cases3)
  have "suffix t s" using ReadHTTPHeaders_suffix [of s Map.empty 0] by (simp add: r)
  moreover have "rest = t \<or> rest = drop (nat l) t"
    using assms by (auto simp: ReadHTTPMessage_def Let_def r split: if_splits)
  ultimately show ?thesis using suffix_drop suffix_order.trans by blast
qed

lemma ReadHTTPRequestLine_suffix: "ReadHTTPRequestLine s = (x, rest) \<Longrightarrow> suffix rest s"
  using getline_suffix [of s] by (auto simp: ReadHTTPRequestLine_def Let_def split: prod.splits)

lemma ServiceConnection_first:
  assumes "\<And>body. \<not> authorized_request R stream body"
  shows "\<exists>sent \<in> {[], HTTPReply R s 401 [] False, HTTPReply R s 404 [] False}. ServiceConnection R stream s = (sent, s, None)"
proof -
  obtain x rest where x: "ReadHTTPRequestLine stream = (x, rest)" by (metis surj_pair)
  show ?thesis
  proof (cases x)
    case None
    then show ?thesis by (subst ServiceConnection.simps) (simp add: x)
  next
    case (Some y)
    then obtain p m uri where l: "ReadHTTPRequestLine stream = (Some (p, m, uri), rest)" using x by (cases y) auto
    obtain st h body rest1 where r: "ReadHTTPMessage R rest p = (st, h, body, rest1)" by (metis prod_cases4)
    have "\<exists>sent \<in> {HTTPReply R s 401 [] False, HTTPReply R s 404 [] False}. serve_message R uri h body s = (sent, False, s, None)"
      using assms [of body]
      by (auto simp: authorized_request_def l r serve_message_def HTTPAuthorized_def Let_def split: option.splits)
    then show ?thesis using ServiceConnection_step [OF l r] by auto
  qed
qed

lemma ServiceConnection_bodies:
  "\<exists>bodies. (\<forall>b\<in>set bodies. \<exists>t. suffix t stream \<and> authorized_request R t b) \<and>
     fst (snd (ServiceConnection R stream s)) = fold (run_body R) bodies s"
proof (induction R stream s rule: ServiceConnection.induct)
  case (1 R stream s)
  show ?case
  proof (cases "\<exists>body. authorized_request R stream body")
    case False
    then have "fst (snd (ServiceConnection R stream s)) = s" using ServiceConnection_first [of R stream s] by fastforce
    then show ?thesis by (intro exI [of _ "[]"]) simp
  next
    case True
    then obtain body where b: "authorized_request R stream body" ..
    obtain x rest where x: "ReadHTTPRequestLine stream = (x, rest)" by (metis surj_pair)
    obtain p m uri where y: "x = Some (p, m, uri)" using b by (cases x) (auto simp: authorized_request_def x)
    obtain st h body' rest1 where r': "ReadHTTPMessage R rest p = (st, h, body', rest1)" by (metis prod_cases4)
    have u: "uri = ''/''" "body' = body" using b by (simp_all add: authorized_request_def x y r')
    note l = x [unfolded y u(1)] and r = r' [unfolded u(2)]
    obtain a where a: "h ''authorization'' = Some a" using b by (cases "h ''authorization''") (simp_all add: authorized_request_def l r)
    with b have a': "take 6 a = ''Basic ''" "DecodeBase64_string (trim (drop 6 a)) = re_userpass R"
      by (simp_all add: authorized_request_def l r)
    have m: "serve_message R ''/'' h body s = serve_request R body (h ''connection'' \<noteq> Some ''close'') s"
      by (simp add: serve_message_def a a' HTTPAuthorized_def)
    obtain sent fRun s1 thrown where q: "serve_request R body (h ''connection'' \<noteq> Some ''close'') s = (sent, fRun, s1, thrown)"
      by (metis prod_cases4)
    have s1: "s1 = run_body R body s" using run_body_eq [of R body "h ''connection'' \<noteq> Some ''close''" s] q by simp
    show ?thesis
    proof (cases fRun)
      case False
      then have "fst (snd (ServiceConnection R stream s)) = s1"
        using ServiceConnection_step [OF l r m [unfolded q]] by simp
      with s1 b show ?thesis by (intro exI [of _ "[body]"]) auto
    next
      case True
      then have e: "fst (snd (ServiceConnection R stream s)) = fst (snd (ServiceConnection R rest1 s1))"
        using ServiceConnection_step [OF l r m [unfolded q]] by (simp split: prod.split)
      obtain bodies where bs: "\<forall>b\<in>set bodies. \<exists>t. suffix t rest1 \<and> authorized_request R t b"
        "fst (snd (ServiceConnection R rest1 s1)) = fold (run_body R) bodies s1"
        using "1.IH" [OF l [symmetric] refl refl refl r [symmetric] refl refl m [unfolded q, symmetric] refl refl True] by blast
      have "suffix rest1 stream"
        using ReadHTTPRequestLine_suffix [OF l] ReadHTTPMessage_suffix [OF r] by (rule suffix_order.trans [rotated])
      with bs b show ?thesis
        by (intro exI [of _ "body # bodies"]) (auto simp: e s1 intro: suffix_order.trans)
    qed
  qed
qed

subsection \<open>Checks of the arguments\<close>

text \<open>In safe mode a command that is not allowed there does not run.\<close>

lemma execute_safe_mode:
  assumes "find_command m = Some (False, threadSafe)" "re_warning R s \<noteq> []" "\<not> re_disablesafemode R"
  shows "execute R m params s = (Inl (ObjError (JSONRPCError RPC_FORBIDDEN_BY_SAFE_MODE (''Safe mode: '' @ re_warning R s))), s)"
  using assms by (simp add: execute_def)

text \<open>What \<open>execute\<close> throws is an object: an unknown command, the safe mode, or what the command threw.\<close>

lemma execute_throws_objects: "fst (execute R m params s) \<noteq> Inl (StdError what)"
  by (auto simp: execute_def split: option.split prod.split sum.split rpc_fault.split)

lemma RPCTypeCheck_ok:
  "RPCTypeCheck fAllowNull params ts = None \<longleftrightarrow>
     list_all2 (\<lambda>v t. type_of_json v = t \<or> fAllowNull \<and> v = JNull) (take (length ts) params) (take (length params) ts)"
proof (induction fAllowNull params ts rule: RPCTypeCheck.induct)
  case (1 fAllowNull v params t ts)
  have "type_of_json v = null_type \<longleftrightarrow> v = JNull" by (cases v) auto
  with 1 show ?case by auto
qed simp_all

lemma RPCTypeCheck_obj_ok:
  "RPCTypeCheck_obj fAllowNull o' ts = None \<longleftrightarrow>
     list_all (\<lambda>(k, t). (let v = find_value o' k in (fAllowNull \<and> v = JNull) \<or> (v \<noteq> JNull \<or> fAllowNull) \<and> type_of_json v = t)) ts"
proof (induction fAllowNull o' ts rule: RPCTypeCheck_obj.induct)
  case (2 fAllowNull o' t ts)
  have "type_of_json (find_value o' (fst t)) = null_type \<longleftrightarrow> find_value o' (fst t) = JNull" by (cases "find_value o' (fst t)") auto
  with 2 show ?case by (cases t) (auto simp: Let_def)
qed simp

text \<open>The conversion of an argument ends when a string read from a string is shorter than it.\<close>

lemma ConvertTo_returns:
  assumes "\<And>t u. re_read_string R t = Some (JStr u) \<Longrightarrow> length u < length t"
  shows "\<exists>r. ConvertTo R t fAllowNull v = Some r"
proof -
  have str: "\<exists>r. ConvertTo R t fAllowNull (JStr u) = Some r" for u
  proof (induction "length u" arbitrary: u rule: less_induct)
    case less
    show ?case
    proof (cases "re_read_string R u")
      case None
      then show ?thesis by (subst ConvertTo.simps) simp
    next
      case (Some w)
      then have "\<exists>r. ConvertTo R t fAllowNull w = Some r"
        using less assms by (cases w) (simp_all add: ConvertTo.simps)
      with Some show ?thesis by (subst ConvertTo.simps) simp
    qed
  qed
  then show ?thesis by (cases v) (simp_all add: ConvertTo.simps)
qed

lemma convert_params_returns:
  assumes "\<And>t u. re_read_string R t = Some (JStr u) \<Longrightarrow> length u < length t"
  shows "\<exists>r. convert_params R m rows params = Some r"
proof (induction rows arbitrary: params)
  case (Cons row rows)
  obtain name i t fAllowNull where row: "row = (name, i, t, fAllowNull)" by (metis prod_cases4)
  obtain r where "ConvertTo R t fAllowNull (params ! i) = Some r" using ConvertTo_returns [OF assms] by blast
  then show ?case using Cons by (cases r; cases "m = name") (simp_all add: row)
qed simp

subsection \<open>A connection\<close>

text \<open>A server that counts its calls.\<close>

definition demo_request :: "unit json" where
  "demo_request = JObj [(''method'', JStr ''getblockcount''), (''params'', JArr []), (''id'', JInt 1)]"

definition demo_reply :: "(string \<times> unit json) list" where
  "demo_reply = [(''result'', JInt 41), (''error'', JNull), (''id'', JInt 1)]"

definition demo_rpc_env :: "(unit, nat) rpc_env" where
  "demo_rpc_env =
     \<lparr>re_read_string = (\<lambda>t. if t = ''q'' @ [LF] then Some demo_request else if t = ''r'' @ [LF] then Some (JObj demo_reply) else None),
      re_write_string = (\<lambda>v pretty. if v = demo_request then ''q'' else ''r''), re_of_int = (\<lambda>_. ()), re_nonpos = (\<lambda>_. False),
      re_above_21M = (\<lambda>_. False), re_round_COIN = (\<lambda>_. 1), re_MoneyRange = (\<lambda>_. True), re_div_COIN = (\<lambda>_. ()),
      re_date = (\<lambda>_. ''Thu, 01 Jan 1970 00:00:00 +0000''), re_version = ''v0.8.0'', re_warning = (\<lambda>_. []),
      re_disablesafemode = False, re_IsSwitchChar = (\<lambda>c. c = CHR ''-''), re_userpass = ''u:p'', 
      re_MAX_SIZE = 33554432, re_actor = (\<lambda>m params n. (Inr (JInt (int n)), Suc n)), re_help = (\<lambda>_. None), re_fn = (\<lambda>_. 0)\<rparr>"




definition demo_stream :: string where
  "demo_stream = ''POST / HTTP/1.1'' @ CR # LF # ''Authorization: Basic dTpx'' @ CR # LF # CR # LF # []"


end
