(* ===== verification/Groupings.thy ===== *)
theory Groupings
  imports Wallet
begin

text \<open>
  \<open>CWallet::GetAddressGroupings\<close> (\<open>wallet.cpp\<close>): the addresses of the wallet that were used together as inputs of a
  transaction, or as its change, form groups.  The groups under construction are objects on a heap; a second map takes
  an address to the group that holds it.  The lemmas show that the result is the partition of the addresses into the
  classes of the relation ``in one group of some transaction''.
\<close>

subsection \<open>Merging groups\<close>

text \<open>
  The heap, the set of the pointers to groups, the map from addresses to pointers and the next fresh pointer.  A pointer
  given by \<open>new\<close> differs from all that are in use.
\<close>

record 'a group_state =
  gs_heap :: "nat \<Rightarrow> 'a set"
  gs_live :: "nat set"
  uniqueGroupings :: "nat set"
  setmap :: "'a \<rightharpoonup> nat"
  gs_next :: nat

definition group_hits :: "'a set \<Rightarrow> 'a group_state \<Rightarrow> nat set" where
  "group_hits grouping g = Option.these (setmap g ` grouping)"

text \<open>One round of the loop; none is the use of a pointer that was deleted.\<close>

definition merge_group :: "'a set \<Rightarrow> 'a group_state \<Rightarrow> 'a group_state option" where
  "merge_group grouping g =
     (let hits = group_hits grouping g;
          merged = gs_next g;
          elements = grouping \<union> \<Union> (gs_heap g ` hits)
      in if \<not> hits \<subseteq> gs_live g then None
         else Some \<lparr>gs_heap = (gs_heap g)(merged := elements), gs_live = insert merged (gs_live g - hits),
                    uniqueGroupings = insert merged (uniqueGroupings g - hits),
                    setmap = (\<lambda>x. if x \<in> elements then Some merged else setmap g x), gs_next = Suc merged\<rparr>)"

fun merge_groups :: "'a set list \<Rightarrow> 'a group_state \<Rightarrow> 'a group_state option" where
  "merge_groups [] g = Some g"
| "merge_groups (grouping # groupings) g =
     (case merge_group grouping g of None \<Rightarrow> None | Some g1 \<Rightarrow> merge_groups groupings g1)"

definition no_groups :: "'a group_state" where
  "no_groups = \<lparr>gs_heap = (\<lambda>_. {}), gs_live = {}, uniqueGroupings = {}, setmap = Map.empty, gs_next = 0\<rparr>"

text \<open>The groups at the end, read through the pointers, which are deleted.\<close>

definition merged_groups :: "'a set list \<Rightarrow> 'a set set option" where
  "merged_groups groupings =
     (case merge_groups groupings no_groups of
        None \<Rightarrow> None
      | Some g \<Rightarrow> if uniqueGroupings g \<subseteq> gs_live g then Some (gs_heap g ` uniqueGroupings g) else None)"

subsection \<open>The groups of a transaction\<close>

text \<open>The inner \<open>any_mine\<close> and the grouping after the inputs.\<close>

definition input_group :: "('k, 'd) wallet_env \<Rightarrow> ('k, 'd) CWallet \<Rightarrow> CTxIn list \<Rightarrow> bool \<times> CTxDestination set" where
  "input_group E w ins =
     fold (\<lambda>txin (any_mine, grouping).
       if \<not> IsMine_in E w txin then (any_mine, grouping)
       else case we_ExtractDestination E
           (scriptPubKey (vout (the (map_of (mapWallet w) (op_hash (prevout txin)))) ! unat (op_n (prevout txin)))) of
         None \<Rightarrow> (any_mine, grouping)
       | Some address \<Rightarrow> (True, insert address grouping)) ins (False, {})"

definition change_group :: "('k, 'd) wallet_env \<Rightarrow> ('k, 'd) CWallet \<Rightarrow> CTxOut list \<Rightarrow> CTxDestination set \<Rightarrow> CTxDestination set" where
  "change_group E w outs grouping =
     fold (\<lambda>txout grouping.
       if IsChange E w txout then
         (case we_ExtractDestination E (scriptPubKey txout) of None \<Rightarrow> grouping | Some txoutAddr \<Rightarrow> insert txoutAddr grouping)
       else grouping) outs grouping"

definition lone_groups :: "('k, 'd) wallet_env \<Rightarrow> ('k, 'd) CWallet \<Rightarrow> CTxOut list \<Rightarrow> CTxDestination set set \<Rightarrow> CTxDestination set set" where
  "lone_groups E w outs groupings =
     fold (\<lambda>txout groupings.
       if we_IsMine E (w_keys w) txout then
         (case we_ExtractDestination E (scriptPubKey txout) of None \<Rightarrow> groupings | Some address \<Rightarrow> insert {address} groupings)
       else groupings) outs groupings"

definition tx_groups :: "('k, 'd) wallet_env \<Rightarrow> ('k, 'd) CWallet \<Rightarrow> CWalletTx \<Rightarrow> CTxDestination set set \<Rightarrow> CTxDestination set set" where
  "tx_groups E w pcoin groupings =
     (let groupings1 =
        (if vin pcoin \<noteq> [] then
           let (any_mine, grouping) = input_group E w (vin pcoin);
               grouping = (if any_mine then change_group E w (vout pcoin) grouping else grouping)
           in if grouping \<noteq> {} then insert grouping groupings else groupings
         else groupings)
      in lone_groups E w (vout pcoin) groupings1)"

definition all_groups :: "('k, 'd) wallet_env \<Rightarrow> ('k, 'd) CWallet \<Rightarrow> CTxDestination set set" where
  "all_groups E w = fold (\<lambda>(h, pcoin) groupings. tx_groups E w pcoin groupings) (mapWallet w) {}"

text \<open>\<open>order\<close> is the order in which a \<open>std::set\<close> of groups is traversed.\<close>

definition GetAddressGroupings ::
  "(CTxDestination set set \<Rightarrow> CTxDestination set list) \<Rightarrow> ('k, 'd) wallet_env \<Rightarrow> ('k, 'd) CWallet \<Rightarrow> CTxDestination set set option" where
  "GetAddressGroupings order E w = merged_groups (order (all_groups E w))"

subsection \<open>The partition\<close>

text \<open>Two addresses are linked by a sequence of groups.\<close>

definition linked :: "'a set set \<Rightarrow> ('a \<times> 'a) set" where
  "linked G = (\<Union>g\<in>G. g \<times> g)\<^sup>+"

lemma linked_mono: "G \<subseteq> H \<Longrightarrow> linked G \<subseteq> linked H"
  unfolding linked_def by (rule trancl_mono_subset) blast

lemma linked_in: "g \<in> G \<Longrightarrow> x \<in> g \<Longrightarrow> y \<in> g \<Longrightarrow> (x, y) \<in> linked G"
  unfolding linked_def by (rule r_into_trancl) blast

lemma linked_trans: "(x, y) \<in> linked G \<Longrightarrow> (y, z) \<in> linked G \<Longrightarrow> (x, z) \<in> linked G"
  unfolding linked_def by (rule trancl_trans)

text \<open>A partition into linked blocks that keeps every group together is the partition into classes.\<close>

lemma partition_classes:
  assumes disj: "\<And>b c x. b \<in> P \<Longrightarrow> c \<in> P \<Longrightarrow> x \<in> b \<Longrightarrow> x \<in> c \<Longrightarrow> b = c"
    and ne: "{} \<notin> P" and un: "\<Union>P = \<Union>G"
    and sub: "\<And>g. g \<in> G \<Longrightarrow> \<exists>b\<in>P. g \<subseteq> b"
    and conn: "\<And>b. b \<in> P \<Longrightarrow> b \<times> b \<subseteq> linked G"
  shows "P = \<Union>G // linked G"
proof -
  let ?S = "\<Union>b\<in>P. b \<times> b"
  have "trans ?S"
  proof (rule transI)
    fix x y z assume "(x, y) \<in> ?S" "(y, z) \<in> ?S"
    then obtain b c where "b \<in> P" "c \<in> P" "x \<in> b" "y \<in> b" "y \<in> c" "z \<in> c" by blast
    with disj [of b c y] show "(x, z) \<in> ?S" by blast
  qed
  moreover have "(\<Union>g\<in>G. g \<times> g) \<subseteq> ?S"
  proof (rule UN_least)
    fix g assume "g \<in> G"
    then obtain b where "b \<in> P" "g \<subseteq> b" using sub by blast
    then show "g \<times> g \<subseteq> ?S" by blast
  qed
  ultimately have "linked G \<subseteq> ?S" unfolding linked_def using trancl_mono_subset [of _ ?S] trancl_id [of ?S] by simp
  with conn have eq: "linked G = ?S" by blast
  have img: "linked G `` {x} = b" if bx: "b \<in> P" "x \<in> b" for b x
  proof -
    have "c = b" if "c \<in> P" "x \<in> c" for c using disj [OF that(1) bx(1) that(2) bx(2)] .
    then have "(x, y) \<in> ?S \<longleftrightarrow> y \<in> b" for y using bx by blast
    then show ?thesis unfolding eq by blast
  qed
  have "P = (\<lambda>x. linked G `` {x}) ` \<Union>P"
  proof (intro equalityI subsetI)
    fix b assume b: "b \<in> P"
    then obtain x where x: "x \<in> b" using ne by (cases "b = {}") auto
    from img [OF b x] b x show "b \<in> (\<lambda>x. linked G `` {x}) ` \<Union>P" by blast
  qed (use img in auto)
  then show ?thesis unfolding un quotient_def by blast
qed

text \<open>The state stands for the groups merged so far.\<close>

definition group_inv :: "'a set set \<Rightarrow> 'a group_state \<Rightarrow> bool" where
  "group_inv G g \<longleftrightarrow>
     uniqueGroupings g \<subseteq> gs_live g \<and> gs_live g \<subseteq> {..<gs_next g} \<and>
     (\<forall>x p. setmap g x = Some p \<longleftrightarrow> p \<in> uniqueGroupings g \<and> x \<in> gs_heap g p) \<and>
     (\<forall>p\<in>uniqueGroupings g. gs_heap g p \<noteq> {} \<and> gs_heap g p \<times> gs_heap g p \<subseteq> linked G) \<and>
     \<Union> (gs_heap g ` uniqueGroupings g) = \<Union>G \<and>
     (\<forall>h\<in>G. \<exists>p\<in>uniqueGroupings g. h \<subseteq> gs_heap g p)"

lemma group_hits_iff: "p \<in> group_hits grouping g \<longleftrightarrow> (\<exists>x\<in>grouping. setmap g x = Some p)"
  unfolding group_hits_def in_these_eq image_iff by metis

lemma merge_group_inv:
  assumes inv: "group_inv G g" and ne: "grouping \<noteq> {}"
  shows "\<exists>g1. merge_group grouping g = Some g1 \<and> group_inv (insert grouping G) g1"
proof -
  let ?G = "insert grouping G"
  define hits where "hits = group_hits grouping g"
  define elements where "elements = grouping \<union> \<Union> (gs_heap g ` hits)"
  have map: "setmap g x = Some p \<longleftrightarrow> p \<in> uniqueGroupings g \<and> x \<in> gs_heap g p" for x p
    using inv by (simp add: group_inv_def)
  have lt: "p < gs_next g" if "p \<in> uniqueGroupings g" for p using inv that by (auto simp: group_inv_def)
  have hits: "p \<in> hits \<longleftrightarrow> p \<in> uniqueGroupings g \<and> gs_heap g p \<inter> grouping \<noteq> {}" for p
    by (auto simp: group_hits_iff map hits_def)
  have link: "gs_heap g p \<times> gs_heap g p \<subseteq> linked ?G" if "p \<in> uniqueGroupings g" for p
    using inv that subset_trans [OF _ linked_mono [of G ?G]] by (simp add: group_inv_def subset_insertI)
  have near: "\<exists>a\<in>grouping. (x, a) \<in> linked ?G \<and> (a, x) \<in> linked ?G" if x: "x \<in> elements" for x
  proof (cases "x \<in> grouping")
    case True
    then show ?thesis using linked_in [of grouping ?G] by blast
  next
    case False
    then obtain p where "p \<in> uniqueGroupings g" "x \<in> gs_heap g p" "gs_heap g p \<inter> grouping \<noteq> {}"
      using x hits unfolding elements_def by blast
    then show ?thesis using link [of p] by blast
  qed
  have conn: "(x, y) \<in> linked ?G" if xy: "x \<in> elements" "y \<in> elements" for x y
  proof -
    obtain a b where ab: "a \<in> grouping" "b \<in> grouping" "(x, a) \<in> linked ?G" "(b, y) \<in> linked ?G"
      using near [OF xy(1)] near [OF xy(2)] by blast
    then have "(a, b) \<in> linked ?G" using linked_in [of grouping ?G] by blast
    with ab show ?thesis by (meson linked_trans)
  qed
  have out: "p \<in> hits" if "p \<in> uniqueGroupings g" "x \<in> gs_heap g p" and x: "x \<in> elements" for p x
  proof (cases "x \<in> grouping")
    case True
    then show ?thesis using that hits by blast
  next
    case False
    then obtain q where q: "q \<in> hits" "x \<in> gs_heap g q" using x by (auto simp: elements_def)
    then have "setmap g x = Some q" "setmap g x = Some p" using map hits that by blast+
    then show ?thesis using q by simp
  qed
  define g1 where "g1 = \<lparr>gs_heap = (gs_heap g)(gs_next g := elements), gs_live = insert (gs_next g) (gs_live g - hits),
      uniqueGroupings = insert (gs_next g) (uniqueGroupings g - hits),
      setmap = (\<lambda>x. if x \<in> elements then Some (gs_next g) else setmap g x), gs_next = Suc (gs_next g)\<rparr>"
  have heap: "gs_heap g1 p = (if p = gs_next g then elements else gs_heap g p)" for p by (simp add: g1_def)
  have u: "uniqueGroupings g1 = insert (gs_next g) (uniqueGroupings g - hits)" by (simp add: g1_def)
  have "merge_group grouping g = Some g1"
    using inv hits unfolding merge_group_def Let_def hits_def [symmetric] elements_def [symmetric] g1_def group_inv_def by auto
  moreover have "group_inv ?G g1"
    unfolding group_inv_def
  proof (intro conjI)
    show "uniqueGroupings g1 \<subseteq> gs_live g1" "gs_live g1 \<subseteq> {..<gs_next g1}"
      using inv by (auto simp: g1_def group_inv_def)
    show "\<forall>x p. setmap g1 x = Some p \<longleftrightarrow> p \<in> uniqueGroupings g1 \<and> x \<in> gs_heap g1 p"
    proof (intro allI)
      fix x p
      have "setmap g1 x = (if x \<in> elements then Some (gs_next g) else setmap g x)" by (simp add: g1_def)
      moreover have "x \<in> elements" if "p \<in> hits" "x \<in> gs_heap g p" using that by (auto simp: elements_def)
      ultimately show "setmap g1 x = Some p \<longleftrightarrow> p \<in> uniqueGroupings g1 \<and> x \<in> gs_heap g1 p"
        using map [of x p] out [of p x] lt [of p] by (auto simp: u heap)
    qed
    show "\<forall>p\<in>uniqueGroupings g1. gs_heap g1 p \<noteq> {} \<and> gs_heap g1 p \<times> gs_heap g1 p \<subseteq> linked ?G"
    proof
      fix p assume p: "p \<in> uniqueGroupings g1"
      show "gs_heap g1 p \<noteq> {} \<and> gs_heap g1 p \<times> gs_heap g1 p \<subseteq> linked ?G"
      proof (cases "p = gs_next g")
        case True
        then show ?thesis using ne conn by (auto simp: heap elements_def)
      next
        case False
        with p have "p \<in> uniqueGroupings g" by (simp add: u)
        with False inv link show ?thesis by (simp add: heap group_inv_def)
      qed
    qed
    have "\<Union> (gs_heap g1 ` uniqueGroupings g1) = elements \<union> \<Union> (gs_heap g ` (uniqueGroupings g - hits))"
      using lt by (auto simp: u heap)
    also have "\<dots> = grouping \<union> \<Union> (gs_heap g ` uniqueGroupings g)" using hits by (auto simp: elements_def)
    also have "\<dots> = \<Union> ?G" using inv by (simp add: group_inv_def)
    finally show "\<Union> (gs_heap g1 ` uniqueGroupings g1) = \<Union> ?G" .
    show "\<forall>h\<in>?G. \<exists>p\<in>uniqueGroupings g1. h \<subseteq> gs_heap g1 p"
    proof
      fix h assume "h \<in> ?G"
      then consider "h = grouping" | p where "p \<in> uniqueGroupings g" "h \<subseteq> gs_heap g p" using inv by (auto simp: group_inv_def)
      then show "\<exists>p\<in>uniqueGroupings g1. h \<subseteq> gs_heap g1 p"
      proof cases
        case 1
        then show ?thesis by (intro bexI [of _ "gs_next g"]) (auto simp: heap u elements_def)
      next
        case (2 p)
        show ?thesis
        proof (cases "p \<in> hits")
          case True
          with 2(2) have "h \<subseteq> gs_heap g1 (gs_next g)" by (auto simp: heap elements_def)
          then show ?thesis by (auto simp: u)
        next
          case False
          with 2 lt [of p] show ?thesis by (intro bexI [of _ p]) (auto simp: heap u)
        qed
      qed
    qed
  qed
  ultimately show ?thesis by blast
qed

lemma merge_groups_inv:
  assumes "group_inv G g" "{} \<notin> set groupings"
  shows "\<exists>g1. merge_groups groupings g = Some g1 \<and> group_inv (set groupings \<union> G) g1"
  using assms
proof (induction groupings arbitrary: G g)
  case (Cons h groupings)
  then obtain g1 where g1: "merge_group h g = Some g1" "group_inv (insert h G) g1" using merge_group_inv [of G g h] by auto
  then show ?case using Cons.IH [OF g1(2)] Cons.prems by auto
qed simp

lemma merged_groups_classes:
  assumes "{} \<notin> set groupings"
  shows "merged_groups groupings = Some (\<Union>(set groupings) // linked (set groupings))"
proof -
  have "group_inv {} no_groups" by (simp add: group_inv_def no_groups_def)
  then obtain g where g: "merge_groups groupings no_groups = Some g" "group_inv (set groupings) g"
    using merge_groups_inv [OF _ assms, of "{}" no_groups] by auto
  have "gs_heap g ` uniqueGroupings g = \<Union>(set groupings) // linked (set groupings)"
  proof (rule partition_classes)
    show "b = c" if bc: "b \<in> gs_heap g ` uniqueGroupings g" "c \<in> gs_heap g ` uniqueGroupings g" and "x \<in> b" "x \<in> c" for b c x
    proof -
      obtain p q where "p \<in> uniqueGroupings g" "q \<in> uniqueGroupings g" "b = gs_heap g p" "c = gs_heap g q" using bc by blast
      moreover from this have "setmap g x = Some p" "setmap g x = Some q" using g(2) that by (simp_all add: group_inv_def)
      ultimately show ?thesis by simp
    qed
    show "b \<times> b \<subseteq> linked (set groupings)" if "b \<in> gs_heap g ` uniqueGroupings g" for b
      using g(2) that by (elim imageE) (simp add: group_inv_def)
  qed (use g(2) in \<open>auto simp: group_inv_def\<close>)
  then show ?thesis using g by (simp add: merged_groups_def group_inv_def)
qed

subsection \<open>The groups of the wallet\<close>

text \<open>The addresses of our outputs that a transaction spends, of its change and of its outputs to us.\<close>

definition spent_addresses :: "('k, 'd) wallet_env \<Rightarrow> ('k, 'd) CWallet \<Rightarrow> CWalletTx \<Rightarrow> CTxDestination set" where
  "spent_addresses E w t =
     {a. \<exists>txin\<in>set (vin t). IsMine_in E w txin \<and>
        we_ExtractDestination E (scriptPubKey (vout (the (map_of (mapWallet w) (op_hash (prevout txin)))) ! unat (op_n (prevout txin)))) = Some a}"

definition change_addresses :: "('k, 'd) wallet_env \<Rightarrow> ('k, 'd) CWallet \<Rightarrow> CWalletTx \<Rightarrow> CTxDestination set" where
  "change_addresses E w t = {a. \<exists>out\<in>set (vout t). IsChange E w out \<and> we_ExtractDestination E (scriptPubKey out) = Some a}"

definition own_addresses :: "('k, 'd) wallet_env \<Rightarrow> ('k, 'd) CWallet \<Rightarrow> CWalletTx \<Rightarrow> CTxDestination set" where
  "own_addresses E w t = {a. \<exists>out\<in>set (vout t). we_IsMine E (w_keys w) out \<and> we_ExtractDestination E (scriptPubKey out) = Some a}"

text \<open>The addresses a transaction shows to have one owner.\<close>

definition joint_addresses :: "('k, 'd) wallet_env \<Rightarrow> ('k, 'd) CWallet \<Rightarrow> CWalletTx \<Rightarrow> CTxDestination set" where
  "joint_addresses E w t = (if spent_addresses E w t = {} then {} else spent_addresses E w t \<union> change_addresses E w t)"

lemma input_group_eq:
  "input_group E w (vin t) = (spent_addresses E w t \<noteq> {}, spent_addresses E w t)"
proof -
  define adr where "adr txin = (if IsMine_in E w txin then we_ExtractDestination E
      (scriptPubKey (vout (the (map_of (mapWallet w) (op_hash (prevout txin)))) ! unat (op_n (prevout txin)))) else None)" for txin
  have step: "(\<lambda>txin (any_mine, grouping).
       if \<not> IsMine_in E w txin then (any_mine, grouping)
       else case we_ExtractDestination E
           (scriptPubKey (vout (the (map_of (mapWallet w) (op_hash (prevout txin)))) ! unat (op_n (prevout txin)))) of
         None \<Rightarrow> (any_mine, grouping)
       | Some address \<Rightarrow> (True, insert address grouping)) =
      (\<lambda>txin (any_mine, grouping). case adr txin of None \<Rightarrow> (any_mine, grouping) | Some a \<Rightarrow> (True, insert a grouping))"
    by (auto simp: adr_def fun_eq_iff split: option.split)
  have "fold (\<lambda>txin (any_mine, grouping). case adr txin of None \<Rightarrow> (any_mine, grouping) | Some a \<Rightarrow> (True, insert a grouping)) ins (m, S) =
      (m \<or> (\<exists>x\<in>set ins. adr x \<noteq> None), S \<union> {a. \<exists>x\<in>set ins. adr x = Some a})" for ins m S
    by (induction ins arbitrary: m S) (auto split: option.split)
  moreover have "{a. \<exists>x\<in>set (vin t). adr x = Some a} = spent_addresses E w t"
    by (auto simp: spent_addresses_def adr_def split: if_splits)
  ultimately show ?thesis unfolding input_group_def step by auto
qed

lemma change_group_eq: "change_group E w (vout t) S = S \<union> change_addresses E w t"
proof -
  have "fold (\<lambda>txout grouping.
       if IsChange E w txout then
         (case we_ExtractDestination E (scriptPubKey txout) of None \<Rightarrow> grouping | Some txoutAddr \<Rightarrow> insert txoutAddr grouping)
       else grouping) outs S = S \<union> {a. \<exists>out\<in>set outs. IsChange E w out \<and> we_ExtractDestination E (scriptPubKey out) = Some a}" for outs
    by (induction outs arbitrary: S) (auto split: option.split)
  then show ?thesis by (simp add: change_group_def change_addresses_def)
qed

lemma lone_groups_eq: "lone_groups E w (vout t) G = G \<union> (\<lambda>a. {a}) ` own_addresses E w t"
proof -
  have "fold (\<lambda>txout groupings.
       if we_IsMine E (w_keys w) txout then
         (case we_ExtractDestination E (scriptPubKey txout) of None \<Rightarrow> groupings | Some address \<Rightarrow> insert {address} groupings)
       else groupings) outs G =
     G \<union> (\<lambda>a. {a}) ` {a. \<exists>out\<in>set outs. we_IsMine E (w_keys w) out \<and> we_ExtractDestination E (scriptPubKey out) = Some a}" for outs
    by (induction outs arbitrary: G) (auto split: option.split)
  then show ?thesis by (simp add: lone_groups_def own_addresses_def)
qed

lemma tx_groups_eq:
  "tx_groups E w t G = G \<union> ({joint_addresses E w t} - {{}}) \<union> (\<lambda>a. {a}) ` own_addresses E w t"
proof -
  have "vin t = [] \<Longrightarrow> spent_addresses E w t = {}" by (simp add: spent_addresses_def)
  then show ?thesis
    by (auto simp: tx_groups_def Let_def input_group_eq change_group_eq lone_groups_eq joint_addresses_def)
qed

lemma all_groups_eq:
  "all_groups E w = (\<Union>(h, t)\<in>set (mapWallet w). ({joint_addresses E w t} - {{}}) \<union> (\<lambda>a. {a}) ` own_addresses E w t)"
proof -
  have "fold (\<lambda>(h, pcoin) groupings. tx_groups E w pcoin groupings) txs G =
      G \<union> (\<Union>(h, t)\<in>set txs. ({joint_addresses E w t} - {{}}) \<union> (\<lambda>a. {a}) ` own_addresses E w t)" for txs :: "(uint256 \<times> CWalletTx) list" and G
    by (induction txs arbitrary: G) (auto simp: tx_groups_eq)
  then show ?thesis by (simp add: all_groups_def)
qed

lemma finite_own: "finite (own_addresses E w t)"
proof -
  have "own_addresses E w t \<subseteq> (\<lambda>out. the (we_ExtractDestination E (scriptPubKey out))) ` set (vout t)"
    by (force simp: own_addresses_def)
  then show ?thesis by (rule finite_subset) simp
qed

text \<open>C34. 
  The groups returned are the classes of the addresses of the wallet under the relation ``inputs, or change, of one
  transaction'' and its transitive closure; no deleted group is read, in whatever order the sets are traversed.
\<close>

theorem GetAddressGroupings_classes:
  assumes "\<And>S. finite S \<Longrightarrow> set (order S) = S"
  shows "GetAddressGroupings order E w =
    Some ((\<Union>(h, t)\<in>set (mapWallet w). joint_addresses E w t \<union> own_addresses E w t) //
      ((\<Union>(h, t)\<in>set (mapWallet w). joint_addresses E w t \<times> joint_addresses E w t \<union> Id_on (own_addresses E w t))\<^sup>+))"
proof -
  have "finite (all_groups E w)" by (auto simp: all_groups_eq finite_own)
  then have set: "set (order (all_groups E w)) = all_groups E w" using assms by blast
  have "{} \<notin> all_groups E w" by (auto simp: all_groups_eq)
  moreover have "\<Union>(all_groups E w) = (\<Union>(h, t)\<in>set (mapWallet w). joint_addresses E w t \<union> own_addresses E w t)"
    by (auto simp: all_groups_eq)
  moreover have "(\<Union>g\<in>all_groups E w. g \<times> g) =
      (\<Union>(h, t)\<in>set (mapWallet w). joint_addresses E w t \<times> joint_addresses E w t \<union> Id_on (own_addresses E w t))"
    by (auto simp: all_groups_eq)
  ultimately show ?thesis
    using merged_groups_classes [of "order (all_groups E w)"] by (simp add: GetAddressGroupings_def set linked_def)
qed

lemma GetAddressGroupings_classes_witness:
  "\<exists>order. (\<forall>S. finite S \<longrightarrow> set (order S) = S) \<and>
     GetAddressGroupings order demo_wallet_env (demo_wallet [demo_coin_tx 5, demo_coin_tx 7]) = Some {{CKeyID 1}}"
proof -
  define order :: "CTxDestination set set \<Rightarrow> CTxDestination set list" where "order S = (SOME xs. set xs = S)" for S
  have o: "set (order S) = S" if "finite S" for S
    using finite_list [OF that] unfolding order_def by (rule someI_ex)
  let ?w = "demo_wallet [demo_coin_tx 5, demo_coin_tx 7]"
  have "joint_addresses demo_wallet_env ?w (demo_coin_tx v) = {}" "own_addresses demo_wallet_env ?w (demo_coin_tx v) = {CKeyID 1}" for v
    by (auto simp: joint_addresses_def spent_addresses_def own_addresses_def demo_coin_tx_def wallet_tx_def demo_wallet_env_def)
  then have "GetAddressGroupings order demo_wallet_env ?w = Some ({CKeyID 1} // {(CKeyID 1, CKeyID 1)}\<^sup>+)"
    using GetAddressGroupings_classes [of order demo_wallet_env ?w] o by (simp add: demo_wallet_def Id_on_def upt_rec)
  moreover have "{(CKeyID 1, CKeyID 1)}\<^sup>+ = {(CKeyID 1, CKeyID 1)}" by (rule trancl_id) (simp add: trans_def)
  ultimately have "GetAddressGroupings order demo_wallet_env ?w = Some {{CKeyID 1}}" by (simp add: quotient_def Image_def)
  with o show ?thesis by blast
qed

end
