(* ===== verification/WalletCrypt.thy ===== *)
theory WalletCrypt
  imports KeyPool Crypter SortedMap
begin

text \<open>
  The passphrase of the wallet (\<open>wallet.cpp\<close>): \<open>Unlock\<close>, \<open>ChangeWalletPassphrase\<close> and \<open>EncryptWallet\<close>.  A master key,
  encrypted under a key derived from the passphrase, encrypts the private keys.  \<open>crypt_env\<close> holds the cipher, the key
  store (of the missing \<open>keystore.cpp\<close>), the records and transactions of the wallet file, what the memory of a local
  \<open>CCrypter\<close> held, what a failed \<open>Encrypt\<close> leaves in its buffer, and the arithmetic on \<open>double\<close>s that fits the number
  of iterations to the milliseconds a derivation took.
\<close>

record ('k, 'd, 'x) crypt_env =
  cr_evp :: "'x evp_ops"
  cr_memory :: "bytes \<times> bytes"
  cr_spoiled :: bytes
  cr_Unlock :: "bytes \<Rightarrow> 'k \<Rightarrow> bool \<times> 'k"
  cr_Lock :: "'k \<Rightarrow> 'k"
  cr_IsLocked :: "'k \<Rightarrow> bool"
  cr_EncryptKeys :: "bytes \<Rightarrow> ('k, 'd) CWallet \<Rightarrow> bool \<times> ('k, 'd) CWallet"
  cr_WriteMasterKey :: "uint32 \<Rightarrow> CMasterKey \<Rightarrow> 'd \<Rightarrow> 'd"
  cr_WriteBestBlock :: "uint256 list \<Rightarrow> 'd \<Rightarrow> 'd"
  cr_TxnBegin :: "'d \<Rightarrow> bool \<times> 'd"
  cr_TxnCommit :: "'d \<Rightarrow> bool \<times> 'd"
  cr_TxnAbort :: "'d \<Rightarrow> 'd"
  cr_Rewrite :: "'d \<Rightarrow> 'd"
  cr_first :: "int64 \<Rightarrow> uint32"
  cr_scale :: "uint32 \<Rightarrow> int64 \<Rightarrow> uint32"
  cr_mean :: "uint32 \<Rightarrow> int64 \<Rightarrow> uint32"
  FEATURE_WALLETCRYPT :: int32

definition fresh_crypter :: "('k, 'd, 'x) crypt_env \<Rightarrow> CCrypter" where
  "fresh_crypter C = CCrypter_make (fst (cr_memory C)) (snd (cr_memory C))"

definition key_from_passphrase :: "('k, 'd, 'x) crypt_env \<Rightarrow> bytes \<Rightarrow> CMasterKey \<Rightarrow> CCrypter \<Rightarrow> bool \<times> CCrypter" where
  "key_from_passphrase C pass mk = SetKeyFromPassphrase (cr_evp C) pass (mk_vchSalt mk) (mk_nDeriveIterations mk) (mk_nDerivationMethod mk)"

definition LoadCryptedKey :: "('k, 'd) key_env \<Rightarrow> CPubKey \<Rightarrow> bytes \<Rightarrow> ('k, 'd, bool) wm" where
  "LoadCryptedKey K vchPubKey vchCryptedSecret = wkeys (ke_AddCryptedKey K vchPubKey vchCryptedSecret)"

definition SetBestChain :: "('k, 'd, 'x) crypt_env \<Rightarrow> uint256 list \<Rightarrow> ('k, 'd) CWallet \<Rightarrow> ('k, 'd) CWallet" where
  "SetBestChain C loc w = w\<lparr> w_db := cr_WriteBestBlock C loc (w_db w) \<rparr>"

subsection \<open>Unlocking\<close>

text \<open>One crypter serves for all master keys; a failed derivation ends the loop, a failed decryption goes on.\<close>

fun unlock_keys_loop :: "('k, 'd, 'x) crypt_env \<Rightarrow> bytes \<Rightarrow> (uint32 \<times> CMasterKey) list \<Rightarrow> CCrypter \<Rightarrow> ('k, 'd, bool) wm" where
  "unlock_keys_loop C pass [] c w = (Inr False, w)"
| "unlock_keys_loop C pass ((i, mk) # ms) c w =
     (case key_from_passphrase C pass mk c of (ok, c1) \<Rightarrow>
        if \<not> ok then (Inr False, w)
        else case Decrypt (cr_evp C) c1 (mk_vchCryptedKey mk) of
            Inl e \<Rightarrow> (Inl e, w)
          | Inr None \<Rightarrow> unlock_keys_loop C pass ms c1 w
          | Inr (Some vMasterKey) \<Rightarrow>
              (case cr_Unlock C vMasterKey (w_keys w) of (accepted, k) \<Rightarrow>
                 if accepted then (Inr True, w\<lparr> w_keys := k \<rparr>) else unlock_keys_loop C pass ms c1 (w\<lparr> w_keys := k \<rparr>)))"

definition Unlock :: "('k, 'd, 'x) crypt_env \<Rightarrow> bytes \<Rightarrow> ('k, 'd, bool) wm" where
  "Unlock C strWalletPassphrase w = unlock_keys_loop C strWalletPassphrase (mapMasterKeys w) (fresh_crypter C) w"

subsection \<open>A new passphrase\<close>

definition at_least_25000 :: "uint32 \<Rightarrow> uint32" where
  "at_least_25000 n = (if n < 25000 then 25000 else n)"

text \<open>
  The master key under the new passphrase: two timed derivations, whose results are not looked at, fit the number of
  iterations.  \<open>e1\<close> and \<open>e2\<close> are the milliseconds they took.
\<close>

definition rekey ::
  "('k, 'd, 'x) crypt_env \<Rightarrow> int64 \<Rightarrow> int64 \<Rightarrow> bytes \<Rightarrow> bytes \<Rightarrow> CMasterKey \<Rightarrow> CCrypter \<Rightarrow> bool res \<times> CMasterKey" where
  "rekey C e1 e2 pass vMasterKey mk c =
     (let c1 = snd (key_from_passphrase C pass mk c);
          mk1 = mk\<lparr> mk_nDeriveIterations := cr_scale C (mk_nDeriveIterations mk) e1 \<rparr>;
          c2 = snd (key_from_passphrase C pass mk1 c1);
          mk2 = mk1\<lparr> mk_nDeriveIterations := at_least_25000 (cr_mean C (mk_nDeriveIterations mk1) e2) \<rparr>;
          (ok, c3) = key_from_passphrase C pass mk2 c2
      in if \<not> ok then (Inr False, mk2)
         else case Encrypt (cr_evp C) c3 vMasterKey of
             Inl e \<Rightarrow> (Inl e, mk2)
           | Inr None \<Rightarrow> (Inr False, mk2\<lparr> mk_vchCryptedKey := cr_spoiled C \<rparr>)
           | Inr (Some ct) \<Rightarrow> (Inr True, mk2\<lparr> mk_vchCryptedKey := ct \<rparr>))"

definition set_master_key :: "uint32 \<Rightarrow> CMasterKey \<Rightarrow> ('k, 'd) CWallet \<Rightarrow> ('k, 'd) CWallet" where
  "set_master_key i mk w = w\<lparr> mapMasterKeys := map (\<lambda>(j, m). (j, if j = i then mk else m)) (mapMasterKeys w) \<rparr>"

definition lock_wallet :: "('k, 'd, 'x) crypt_env \<Rightarrow> ('k, 'd) CWallet \<Rightarrow> ('k, 'd) CWallet" where
  "lock_wallet C w = w\<lparr> w_keys := cr_Lock C (w_keys w) \<rparr>"

fun change_loop ::
  "('k, 'd, 'x) crypt_env \<Rightarrow> int64 \<Rightarrow> int64 \<Rightarrow> bytes \<Rightarrow> bytes \<Rightarrow> bool \<Rightarrow> (uint32 \<times> CMasterKey) list \<Rightarrow> CCrypter \<Rightarrow> ('k, 'd, bool) wm" where
  "change_loop C e1 e2 old new fWasLocked [] c w = (Inr False, w)"
| "change_loop C e1 e2 old new fWasLocked ((i, mk) # ms) c w =
     (case key_from_passphrase C old mk c of (ok, c1) \<Rightarrow>
        if \<not> ok then (Inr False, w)
        else case Decrypt (cr_evp C) c1 (mk_vchCryptedKey mk) of
            Inl e \<Rightarrow> (Inl e, w)
          | Inr None \<Rightarrow> (Inr False, w)
          | Inr (Some vMasterKey) \<Rightarrow>
              (case cr_Unlock C vMasterKey (w_keys w) of (accepted, k) \<Rightarrow>
                 let w1 = w\<lparr> w_keys := k \<rparr> in
                 if \<not> accepted then change_loop C e1 e2 old new fWasLocked ms c1 w1
                 else
                   (case rekey C e1 e2 new vMasterKey mk c1 of (r, mk1) \<Rightarrow>
                      let w2 = set_master_key i mk1 w1 in
                      if r \<noteq> Inr True then (r, w2)
                      else
                        let w3 = w2\<lparr> w_db := cr_WriteMasterKey C i mk1 (w_db w2) \<rparr>
                        in (Inr True, if fWasLocked then lock_wallet C w3 else w3))))"

definition ChangeWalletPassphrase ::
  "('k, 'd, 'x) crypt_env \<Rightarrow> int64 \<Rightarrow> int64 \<Rightarrow> bytes \<Rightarrow> bytes \<Rightarrow> ('k, 'd, bool) wm" where
  "ChangeWalletPassphrase C e1 e2 old new w =
     change_loop C e1 e2 old new (cr_IsLocked C (w_keys w)) (mapMasterKeys w) (fresh_crypter C) (lock_wallet C w)"

subsection \<open>Encrypting a wallet\<close>

datatype encrypt_outcome = EncReturns bool | EncExits | EncFails fault

text \<open>
  \<open>vMasterKey\<close> and \<open>salt\<close> are the random bytes drawn.  The handle \<open>pwalletdbEncryption\<close> only selects the connection
  to the wallet file through which \<open>AddCryptedKey\<close> writes.
\<close>

definition new_master_key :: "('k, 'd, 'x) crypt_env \<Rightarrow> int64 \<Rightarrow> int64 \<Rightarrow> bytes \<Rightarrow> bytes \<Rightarrow> bytes \<Rightarrow> bool res \<times> CMasterKey" where
  "new_master_key C e1 e2 pass vMasterKey salt =
     (let mk = CMasterKey_make\<lparr> mk_vchSalt := salt \<rparr>;
          c1 = snd (key_from_passphrase C pass (mk\<lparr> mk_nDeriveIterations := 25000 \<rparr>) (fresh_crypter C));
          mk1 = mk\<lparr> mk_nDeriveIterations := cr_first C e1 \<rparr>;
          c2 = snd (key_from_passphrase C pass mk1 c1);
          mk2 = mk1\<lparr> mk_nDeriveIterations := at_least_25000 (cr_mean C (mk_nDeriveIterations mk1) e2) \<rparr>;
          (ok, c3) = key_from_passphrase C pass mk2 c2
      in if \<not> ok then (Inr False, mk2)
         else case Encrypt (cr_evp C) c3 vMasterKey of
             Inl e \<Rightarrow> (Inl e, mk2)
           | Inr None \<Rightarrow> (Inr False, mk2)
           | Inr (Some ct) \<Rightarrow> (Inr True, mk2\<lparr> mk_vchCryptedKey := ct \<rparr>))"

text \<open>The part after the keys are encrypted.\<close>

definition finish_encryption :: "('k, 'd, 'x) crypt_env \<Rightarrow> ('k, 'd) key_env \<Rightarrow> bytes \<Rightarrow> ('k, 'd) CWallet \<Rightarrow> encrypt_outcome \<times> ('k, 'd) CWallet" where
  "finish_encryption C K pass w =
     (case Unlock C pass (lock_wallet C w) of
        (Inl e, w1) \<Rightarrow> (EncFails e, w1)
      | (Inr _, w1) \<Rightarrow>
          (case NewKeyPool K w1 of
             (Inl e, w2) \<Rightarrow> (EncFails e, w2)
           | (Inr _, w2) \<Rightarrow>
               let w3 = lock_wallet C w2 in (EncReturns True, w3\<lparr> w_db := cr_Rewrite C (w_db w3) \<rparr>)))"

text \<open>The new master key in the map and, in a transaction that stays open, in the wallet file; false if it cannot be begun.\<close>

definition begin_encryption :: "('k, 'd, 'x) crypt_env \<Rightarrow> CMasterKey \<Rightarrow> ('k, 'd) CWallet \<Rightarrow> bool \<times> ('k, 'd) CWallet" where
  "begin_encryption C kMasterKey w =
     (let n = nMasterKeyMaxID w + 1;
          w1 = w\<lparr> nMasterKeyMaxID := n, mapMasterKeys := map_put n kMasterKey (mapMasterKeys w) \<rparr>
      in if fFileBacked w1 then
           (case cr_TxnBegin C (w_db w1) of (begun, d) \<Rightarrow>
              (begun, w1\<lparr> w_db := (if begun then cr_WriteMasterKey C n kMasterKey d else d) \<rparr>))
         else (True, w1))"

definition commit_encryption :: "('k, 'd, 'x) crypt_env \<Rightarrow> ('k, 'd) CWallet \<Rightarrow> bool \<times> ('k, 'd) CWallet" where
  "commit_encryption C w =
     (if fFileBacked w then (case cr_TxnCommit C (w_db w) of (committed, d) \<Rightarrow> (committed, w\<lparr> w_db := d \<rparr>)) else (True, w))"

definition EncryptWallet ::
  "('k, 'd, 'x) crypt_env \<Rightarrow> ('k, 'd) key_env \<Rightarrow> int64 \<Rightarrow> int64 \<Rightarrow> bytes \<Rightarrow> bytes \<Rightarrow> bytes \<Rightarrow> ('k, 'd) CWallet \<Rightarrow>
   encrypt_outcome \<times> ('k, 'd) CWallet" where
  "EncryptWallet C K e1 e2 vMasterKey salt pass w =
     (if ke_IsCrypted K (w_keys w) then (EncReturns False, w)
      else case new_master_key C e1 e2 pass vMasterKey salt of
          (Inl e, _) \<Rightarrow> (EncFails e, w)
        | (Inr False, _) \<Rightarrow> (EncReturns False, w)
        | (Inr True, kMasterKey) \<Rightarrow>
            (case begin_encryption C kMasterKey w of (begun, w1) \<Rightarrow>
               if \<not> begun then (EncReturns False, w1)
               else
                 (case cr_EncryptKeys C vMasterKey w1 of (encrypted, w2) \<Rightarrow>
                    if \<not> encrypted then (EncExits, if fFileBacked w2 then w2\<lparr> w_db := cr_TxnAbort C (w_db w2) \<rparr> else w2)
                    else
                      (case commit_encryption C (SetMinVersion K (FEATURE_WALLETCRYPT C) True w2) of (committed, w3) \<Rightarrow>
                         if \<not> committed then (EncExits, w3) else finish_encryption C K pass w3))))"

subsection \<open>What the key store promises\<close>

text \<open>Unlocking changes nothing that locking does not undo, and what it accepts does not depend on the lock.\<close>

definition store_ok :: "('k, 'd, 'x) crypt_env \<Rightarrow> bool" where
  "store_ok C \<longleftrightarrow>
     (\<forall>k. cr_Lock C (cr_Lock C k) = cr_Lock C k) \<and>
     (\<forall>m k. cr_Lock C (snd (cr_Unlock C m k)) = cr_Lock C k) \<and>
     (\<forall>m k. fst (cr_Unlock C m (cr_Lock C k)) = fst (cr_Unlock C m k)) \<and>
     length (fst (cr_memory C)) = 32 \<and> length (snd (cr_memory C)) = 32"

lemma store_okD:
  assumes "store_ok C"
  shows "cr_Lock C (cr_Lock C k) = cr_Lock C k" "cr_Lock C (snd (cr_Unlock C m k)) = cr_Lock C k"
    "fst (cr_Unlock C m (cr_Lock C k)) = fst (cr_Unlock C m k)"
    "length (chIV (fresh_crypter C)) = 32"
  using assms by (simp_all add: store_ok_def fresh_crypter_def CCrypter_make_def)

lemma accepts_after:
  assumes "store_ok C" "cr_Lock C k' = cr_Lock C k"
  shows "fst (cr_Unlock C m k') = fst (cr_Unlock C m k)"
  using store_okD(3) [OF assms(1), of m k] store_okD(3) [OF assms(1), of m k'] assms(2) by simp

subsection \<open>Derived keys\<close>

text \<open>A derivation succeeds for the parameters of a usable master key only, and then determines what the cipher reads.\<close>

definition usable :: "CMasterKey \<Rightarrow> bool" where
  "usable mk \<longleftrightarrow> mk_nDeriveIterations mk \<noteq> 0 \<and> length (mk_vchSalt mk) = 8 \<and> mk_nDerivationMethod mk = 0"

lemma key_from_passphrase_usable:
  "fst (key_from_passphrase C pass mk c) \<Longrightarrow> usable mk"
  by (auto simp: key_from_passphrase_def SetKeyFromPassphrase_def usable_def Let_def WALLET_CRYPTO_SALT_SIZE_def
      WALLET_CRYPTO_KEY_SIZE_def not_less split: if_splits prod.splits)

lemma key_from_passphrase_length:
  assumes "evp_ok (cr_evp C)" "length (chIV c) = 32"
  shows "length (chIV (snd (key_from_passphrase C pass mk c))) = 32"
proof -
  obtain k iv where "EVP_BytesToKey (cr_evp C) (mk_vchSalt mk) pass (mk_nDeriveIterations mk) = (32, k, iv)" "length k = 32" "length iv = 16"
    using assms(1) unfolding evp_ok_def by blast
  then show ?thesis
    using assms(2) by (auto simp: key_from_passphrase_def SetKeyFromPassphrase_def cleanse_def Let_def)
qed

lemma key_from_passphrase_ready:
  assumes "evp_ok (cr_evp C)" "usable mk" "length (chIV c) = 32"
  obtains k iv where "key_from_passphrase C pass mk c = (True, c\<lparr> chKey := k, chIV := iv @ drop 16 (chIV c), fKeySet := True \<rparr>)"
    "length k = 32" "length iv = 16" "EVP_BytesToKey (cr_evp C) (mk_vchSalt mk) pass (mk_nDeriveIterations mk) = (32, k, iv)"
proof -
  have "\<not> mk_nDeriveIterations mk < 1" using assms(2) by (simp add: usable_def)
  then have "1 \<le> mk_nDeriveIterations mk" by (simp only: not_less)
  moreover have "length (mk_vchSalt mk) = 8" "mk_nDerivationMethod mk = 0" using assms(2) by (simp_all add: usable_def)
  ultimately show thesis
    using passphrase_key [OF assms(1) _ _ assms(3), of "mk_nDeriveIterations mk" "mk_vchSalt mk" pass] that
    by (auto simp: key_from_passphrase_def)
qed

lemma Decrypt_key:
  assumes "chKey c = chKey c'" "take 16 (chIV c) = take 16 (chIV c')" "fKeySet c = fKeySet c'"
  shows "Decrypt V c ct = Decrypt V c' ct"
  using assms by (simp add: Decrypt_def AES_BLOCK_SIZE_def)

lemma encrypted_under_passphrase:
  assumes V: "evp_ok (cr_evp C)" and c: "length (chIV c) = 32" "length (chIV c') = 32"
    and k: "key_from_passphrase C pass mk c = (True, c1)" and e: "Encrypt (cr_evp C) c1 m = Inr (Some ct)"
  shows "\<exists>c2. key_from_passphrase C pass mk c' = (True, c2) \<and> Decrypt (cr_evp C) c2 ct = Inr (Some m)"
proof -
  have u: "usable mk" using key_from_passphrase_usable [of C pass mk c] k by simp
  obtain key iv where 1: "key_from_passphrase C pass mk c = (True, c\<lparr> chKey := key, chIV := iv @ drop 16 (chIV c), fKeySet := True \<rparr>)"
    "length key = 32" "length iv = 16" "EVP_BytesToKey (cr_evp C) (mk_vchSalt mk) pass (mk_nDeriveIterations mk) = (32, key, iv)"
    using key_from_passphrase_ready [OF V u c(1)] by blast
  obtain key' iv' where 2: "key_from_passphrase C pass mk c' = (True, c'\<lparr> chKey := key', chIV := iv' @ drop 16 (chIV c'), fKeySet := True \<rparr>)"
    "length key' = 32" "length iv' = 16" "EVP_BytesToKey (cr_evp C) (mk_vchSalt mk) pass (mk_nDeriveIterations mk) = (32, key', iv')"
    using key_from_passphrase_ready [OF V u c(2)] by blast
  have ready: "key_ready c1" using k 1 c(1) by (auto simp: key_ready_def)
  have "m \<noteq> []" using e by (auto simp: Encrypt_def split: if_splits)
  from crypt_roundtrip [OF V ready this] e have "Decrypt (cr_evp C) c1 ct = Inr (Some m)" by auto
  moreover have "Decrypt (cr_evp C) (c'\<lparr> chKey := key', chIV := iv' @ drop 16 (chIV c'), fKeySet := True \<rparr>) ct = Decrypt (cr_evp C) c1 ct"
    using k 1 2 by (intro Decrypt_key) auto
  ultimately show ?thesis using 2 by auto
qed

lemma key_from_passphrase_crypted [simp]:
  "key_from_passphrase C pass (mk\<lparr> mk_vchCryptedKey := ct \<rparr>) c = key_from_passphrase C pass mk c"
  by (simp add: key_from_passphrase_def)

text \<open>A master key encrypted under a passphrase: its derived key, in whatever crypter, gives it back.\<close>

definition protects :: "('k, 'd, 'x) crypt_env \<Rightarrow> bytes \<Rightarrow> CMasterKey \<Rightarrow> bytes \<Rightarrow> bool" where
  "protects C pass mk m \<longleftrightarrow>
     (\<forall>c. length (chIV c) = 32 \<longrightarrow>
       (\<exists>c2. key_from_passphrase C pass mk c = (True, c2) \<and> Decrypt (cr_evp C) c2 (mk_vchCryptedKey mk) = Inr (Some m)))"

lemma protectsI:
  assumes "evp_ok (cr_evp C)" "length (chIV c) = 32" "key_from_passphrase C pass mk c = (True, c1)"
    "Encrypt (cr_evp C) c1 m = Inr (Some ct)"
  shows "protects C pass (mk\<lparr> mk_vchCryptedKey := ct \<rparr>) m"
  unfolding protects_def using encrypted_under_passphrase [OF assms(1,2) _ assms(3,4)] by simp

lemma at_least_25000_le: "25000 \<le> at_least_25000 n"
  by (simp add: at_least_25000_def not_less)

lemma rekey_protects:
  assumes V: "evp_ok (cr_evp C)" and c: "length (chIV c) = 32" and r: "rekey C e1 e2 pass m mk c = (Inr True, mk')"
  shows "protects C pass mk' m \<and> 25000 \<le> mk_nDeriveIterations mk'"
proof -
  note r = r [unfolded rekey_def Let_def]
  define mk1 where "mk1 = mk\<lparr> mk_nDeriveIterations := cr_scale C (mk_nDeriveIterations mk) e1 \<rparr>"
  define c2 where "c2 = snd (key_from_passphrase C pass mk1 (snd (key_from_passphrase C pass mk c)))"
  define mk2 where "mk2 = mk1\<lparr> mk_nDeriveIterations := at_least_25000 (cr_mean C (mk_nDeriveIterations mk1) e2) \<rparr>"
  have c2: "length (chIV c2) = 32" unfolding c2_def by (intro key_from_passphrase_length V c)
  obtain ok c3 where k: "key_from_passphrase C pass mk2 c2 = (ok, c3)" by (metis surj_pair)
  have "ok \<and> (\<exists>ct. Encrypt (cr_evp C) c3 m = Inr (Some ct) \<and> mk' = mk2\<lparr> mk_vchCryptedKey := ct \<rparr>)"
    using r unfolding mk1_def [symmetric] c2_def [symmetric] mk2_def [symmetric] k
    by (auto split: if_splits sum.splits option.splits)
  then obtain ct where "ok" "Encrypt (cr_evp C) c3 m = Inr (Some ct)" "mk' = mk2\<lparr> mk_vchCryptedKey := ct \<rparr>" by blast
  with protectsI [OF V c2] k show ?thesis by (simp add: mk2_def at_least_25000_le)
qed

lemma new_master_key_protects:
  assumes V: "evp_ok (cr_evp C)" and S: "store_ok C" and r: "new_master_key C e1 e2 pass m salt = (Inr True, mk')"
  shows "protects C pass mk' m \<and> 25000 \<le> mk_nDeriveIterations mk'"
proof -
  note r = r [unfolded new_master_key_def Let_def]
  define mk1 where "mk1 = CMasterKey_make\<lparr> mk_vchSalt := salt \<rparr>\<lparr> mk_nDeriveIterations := cr_first C e1 \<rparr>"
  define c2 where "c2 = snd (key_from_passphrase C pass mk1
    (snd (key_from_passphrase C pass (CMasterKey_make\<lparr> mk_vchSalt := salt \<rparr>\<lparr> mk_nDeriveIterations := 25000 \<rparr>) (fresh_crypter C))))"
  define mk2 where "mk2 = mk1\<lparr> mk_nDeriveIterations := at_least_25000 (cr_mean C (mk_nDeriveIterations mk1) e2) \<rparr>"
  have c2: "length (chIV c2) = 32" unfolding c2_def by (intro key_from_passphrase_length V store_okD(4) [OF S])
  obtain ok c3 where k: "key_from_passphrase C pass mk2 c2 = (ok, c3)" by (metis surj_pair)
  have "ok \<and> (\<exists>ct. Encrypt (cr_evp C) c3 m = Inr (Some ct) \<and> mk' = mk2\<lparr> mk_vchCryptedKey := ct \<rparr>)"
    using r unfolding mk1_def [symmetric] c2_def [symmetric] mk2_def [symmetric] k
    by (auto split: if_splits sum.splits option.splits)
  then obtain ct where "ok" "Encrypt (cr_evp C) c3 m = Inr (Some ct)" "mk' = mk2\<lparr> mk_vchCryptedKey := ct \<rparr>" by blast
  with protectsI [OF V c2] k show ?thesis by (simp add: mk2_def at_least_25000_le)
qed

text \<open>A wallet whose first master key is protected by the passphrase and accepted by the store can be unlocked.\<close>

lemma Unlock_first:
  assumes "store_ok C" "mapMasterKeys w = (i, mk) # ms" "protects C pass mk m" "fst (cr_Unlock C m (w_keys w))"
  shows "Unlock C pass w = (Inr True, w\<lparr> w_keys := snd (cr_Unlock C m (w_keys w)) \<rparr>)"
proof -
  obtain c2 where "key_from_passphrase C pass mk (fresh_crypter C) = (True, c2)" "Decrypt (cr_evp C) c2 (mk_vchCryptedKey mk) = Inr (Some m)"
    using assms(3) store_okD(4) [OF assms(1)] unfolding protects_def by blast
  then show ?thesis using assms(2,4) by (simp add: Unlock_def case_prod_unfold)
qed

lemma keys_lock [simp]: "w_keys (lock_wallet C w) = cr_Lock C (w_keys w)" "mapMasterKeys (lock_wallet C w) = mapMasterKeys w"
  "w_db (lock_wallet C w) = w_db w"
  by (simp_all add: lock_wallet_def)

subsection \<open>Changing the passphrase\<close>

lemma ChangeWalletPassphrase_steps:
  assumes V: "evp_ok (cr_evp C)" and S: "store_ok C" and mks: "mapMasterKeys w = [(i, mk)]"
    and r: "ChangeWalletPassphrase C e1 e2 old new w = (Inr True, w1)"
  obtains mk' m where "mapMasterKeys w1 = [(i, mk')]" "protects C new mk' m" "25000 \<le> mk_nDeriveIterations mk'"
    "fst (cr_Unlock C m (w_keys w))" "w_db w1 = cr_WriteMasterKey C i mk' (w_db w)"
    "w_keys w1 = (if cr_IsLocked C (w_keys w) then cr_Lock C (w_keys w) else snd (cr_Unlock C m (cr_Lock C (w_keys w))))"
proof -
  obtain ok c1 where k: "key_from_passphrase C old mk (fresh_crypter C) = (ok, c1)" by (metis surj_pair)
  have c1: "length (chIV c1) = 32" using key_from_passphrase_length [OF V store_okD(4) [OF S], of old mk] by (simp add: k)
  note r = r [unfolded ChangeWalletPassphrase_def mks change_loop.simps k prod.case]
  obtain m where d: "ok" "Decrypt (cr_evp C) c1 (mk_vchCryptedKey mk) = Inr (Some m)"
    using r by (auto split: if_splits sum.splits option.splits)
  obtain acc ks where a: "cr_Unlock C m (cr_Lock C (w_keys w)) = (acc, ks)" by (metis surj_pair)
  obtain q mk' where q: "rekey C e1 e2 new m mk c1 = (q, mk')" by (metis surj_pair)
  note r = r [unfolded d sum.case option.case keys_lock a prod.case Let_def q]
  have acc: "acc" "q = Inr True" using r by (auto split: if_splits)
  have kk: "cr_Lock C ks = cr_Lock C (w_keys w)" using store_okD(1,2) [OF S] a by (metis snd_conv)
  have w1: "mapMasterKeys w1 = [(i, mk')]" "w_db w1 = cr_WriteMasterKey C i mk' (w_db w)"
    "w_keys w1 = (if cr_IsLocked C (w_keys w) then cr_Lock C (w_keys w) else ks)"
    using r acc d(1) kk mks by (auto simp: set_master_key_def lock_wallet_def split: if_splits)
  have "fst (cr_Unlock C m (w_keys w))" using store_okD(3) [OF S, of m "w_keys w"] a acc by simp
  with w1 rekey_protects [OF V c1 q [unfolded acc(2)]] a show thesis by (intro that [of mk' m]) simp_all
qed


text \<open>A wrong old passphrase changes no master key, but it leaves an unlocked wallet locked.\<close>

lemma ChangeWalletPassphrase_wrong:
  assumes "mapMasterKeys w = [(i, mk)]" "key_from_passphrase C old mk (fresh_crypter C) = (True, c1)"
    "Decrypt (cr_evp C) c1 (mk_vchCryptedKey mk) = Inr None"
  shows "ChangeWalletPassphrase C e1 e2 old new w = (Inr False, lock_wallet C w)"
  using assms by (simp add: ChangeWalletPassphrase_def)

subsection \<open>An invariant of the key pool's calls\<close>

definition winv :: "(('k, 'd) CWallet \<Rightarrow> bool) \<Rightarrow> ('k, 'd, 'a) wm \<Rightarrow> bool" where
  "winv I m \<longleftrightarrow> (\<forall>w. I w \<longrightarrow> I (snd (m w)))"

named_theorems winv_intros \<open>calls that keep an invariant of the wallet\<close>

lemma winv_basic [winv_intros]: "winv I (wret x)" "winv I (wthrow e)" "winv I (wget g)" "winv I (wlift r)"
  by (simp_all add: winv_def wret_def wthrow_def wget_def wlift_def)

lemma winv_bind [winv_intros]: "winv I m \<Longrightarrow> (\<And>x. winv I (f x)) \<Longrightarrow> winv I (wbind m f)"
  unfolding winv_def wbind_def by (fastforce split: prod.split sum.split)

lemma winv_cond [winv_intros]: "winv I a \<Longrightarrow> winv I b \<Longrightarrow> winv I (if c then a else b)"
  "(\<And>x y. winv I (g x y)) \<Longrightarrow> winv I (case p of (x, y) \<Rightarrow> g x y)"
  by (simp_all split: prod.split)

lemma winv_wmod: "(\<And>w. I w \<Longrightarrow> I (g w)) \<Longrightarrow> winv I (wmod g)"
  by (simp add: winv_def wmod_def)

text \<open>The master keys and a master key the store accepts.\<close>

definition accepting :: "('k, 'd, 'x) crypt_env \<Rightarrow> (uint32 \<times> CMasterKey) list \<Rightarrow> bytes \<Rightarrow> ('k, 'd) CWallet \<Rightarrow> bool" where
  "accepting C M m w \<longleftrightarrow> mapMasterKeys w = M \<and> fst (cr_Unlock C m (w_keys w))"

lemma accepting_wdb [winv_intros]: "winv (accepting C M m) (wdb f)"
  by (simp add: winv_def accepting_def wdb_def case_prod_unfold)

lemma accepting_wkeys: "(\<And>k. fst (cr_Unlock C m k) \<Longrightarrow> fst (cr_Unlock C m (snd (f k)))) \<Longrightarrow> winv (accepting C M m) (wkeys f)"
  by (simp add: winv_def accepting_def wkeys_def case_prod_unfold)

lemma accepting_SetMinVersion: "accepting C M m (SetMinVersion K v e w) = accepting C M m w"
  by (simp add: SetMinVersion_def accepting_def Let_def)

text \<open>New keys do not change which master key the store accepts.\<close>

definition new_keys_ok :: "('k, 'd, 'x) crypt_env \<Rightarrow> ('k, 'd) key_env \<Rightarrow> bool" where
  "new_keys_ok C K \<longleftrightarrow>
     (\<forall>m c k. fst (cr_Unlock C m k) \<longrightarrow> fst (cr_Unlock C m (snd (ke_MakeNewKey K c k)))) \<and>
     (\<forall>m s p k. fst (cr_Unlock C m k) \<longrightarrow> fst (cr_Unlock C m (snd (ke_AddKeyPubKey K s p k)))) \<and>
     (\<forall>m w w'. cr_EncryptKeys C m w = (True, w') \<longrightarrow>
        mapMasterKeys w' = mapMasterKeys w \<and> fst (cr_Unlock C m (w_keys w')))"

lemma new_keys_okD:
  assumes "new_keys_ok C K"
  shows "fst (cr_Unlock C m k) \<Longrightarrow> fst (cr_Unlock C m (snd (ke_MakeNewKey K c k)))"
    "fst (cr_Unlock C m k) \<Longrightarrow> fst (cr_Unlock C m (snd (ke_AddKeyPubKey K s p k)))"
    "cr_EncryptKeys C m w = (True, w') \<Longrightarrow> mapMasterKeys w' = mapMasterKeys w \<and> fst (cr_Unlock C m (w_keys w'))"
  using assms unfolding new_keys_ok_def by blast+

lemma accepting_AddKeyPubKey:
  assumes "new_keys_ok C K"
  shows "winv (accepting C M m) (AddKeyPubKey K s p n)"
proof -
  have b: "winv (accepting C M m) (wbind (wkeys (ke_AddKeyPubKey K s p)) (\<lambda>ok.
          if \<not> ok then wret False
          else wbind (wget (\<lambda>w. (fFileBacked w, ke_IsCrypted K (w_keys w)))) (\<lambda>(backed, crypted).
            if \<not> backed then wret True
            else if \<not> crypted then wbind (wlift (CKey_GetPrivKey (ke_ec K) s)) (\<lambda>priv. wdb (ke_WriteKey K p priv t))
            else wret True)))" for t
    by (intro winv_intros accepting_wkeys new_keys_okD(2) [OF assms])
  show ?thesis unfolding winv_def
  proof (intro allI impI)
    fix w assume w: "accepting C M m w"
    obtain t w1 where n: "note_key_time K n (0, w) = (t, w1)" by (cases "note_key_time K n (0, w)")
    then have "accepting C M m w1" using w by (auto simp: note_key_time_def accepting_def Let_def split: if_splits)
    then show "accepting C M m (snd (AddKeyPubKey K s p n w))"
      using b [of t] unfolding AddKeyPubKey_def n winv_def prod.case by blast
  qed
qed

lemma accepting_GenerateNewKey: "new_keys_ok C K \<Longrightarrow> winv (accepting C M m) (GenerateNewKey K)"
  unfolding GenerateNewKey_def
  by (intro winv_intros accepting_wkeys winv_wmod accepting_AddKeyPubKey new_keys_okD(1)) (auto simp: accepting_SetMinVersion)

lemma accepting_new_pool_keys: "new_keys_ok C K \<Longrightarrow> winv (accepting C M m) (new_pool_keys K is)"
proof (induction "is")
  case (Cons i "is")
  then show ?case
    unfolding new_pool_keys.simps by (intro winv_intros accepting_GenerateNewKey winv_wmod) (simp_all add: accepting_def)
qed (simp add: winv_intros)

lemma accepting_NewKeyPool: "new_keys_ok C K \<Longrightarrow> winv (accepting C M m) (NewKeyPool K)"
  unfolding NewKeyPool_def
  by (intro winv_intros accepting_new_pool_keys winv_wmod) (simp_all add: accepting_def)

subsection \<open>Encrypting\<close>

lemma finish_encryption_ok:
  assumes S: "store_ok C" and N: "new_keys_ok C K" and p: "protects C pass mk m" and M: "accepting C [(i, mk)] m w"
    and r: "finish_encryption C K pass w = (EncReturns True, w1)"
  shows "accepting C [(i, mk)] m w1 \<and> cr_Lock C (w_keys w1) = w_keys w1"
proof -
  have m: "mapMasterKeys (lock_wallet C w) = [(i, mk)]" "fst (cr_Unlock C m (w_keys (lock_wallet C w)))"
    using M store_okD(3) [OF S] by (simp_all add: accepting_def)
  define w2 where "w2 = (lock_wallet C w)\<lparr> w_keys := snd (cr_Unlock C m (w_keys (lock_wallet C w))) \<rparr>"
  have u: "Unlock C pass (lock_wallet C w) = (Inr True, w2)" unfolding w2_def by (rule Unlock_first [OF S m(1) p m(2)])
  have "fst (cr_Unlock C m (w_keys w2))"
    using M store_okD [OF S] accepts_after [OF S, of "w_keys w2" "w_keys w" m] by (simp add: w2_def accepting_def)
  then have "accepting C [(i, mk)] m w2" using m by (simp add: accepting_def w2_def)
  then have a: "accepting C [(i, mk)] m (snd (NewKeyPool K w2))"
    using accepting_NewKeyPool [OF N] unfolding winv_def by blast
  obtain q w3 where q: "NewKeyPool K w2 = (q, w3)" by (metis surj_pair)
  have w1: "w1 = (lock_wallet C w3)\<lparr> w_db := cr_Rewrite C (w_db w3) \<rparr>"
    using r by (auto simp: finish_encryption_def u q Let_def split: sum.splits)
  have "accepting C [(i, mk)] m w3" using a by (simp add: q)
  then show ?thesis using store_okD [OF S] by (simp add: accepting_def w1)
qed

text \<open>C32. 
  If \<open>EncryptWallet\<close> reports success on a wallet without master keys, the wallet is locked, its only master key is
  protected by the passphrase, and the passphrase unlocks it.
\<close>

theorem EncryptWallet_unlocks:
  assumes "evp_ok (cr_evp C)" "store_ok C" "new_keys_ok C K" "mapMasterKeys w = []"
    and "EncryptWallet C K e1 e2 vMasterKey salt pass w = (EncReturns True, w1)"
  shows "cr_Lock C (w_keys w1) = w_keys w1 \<and>
    (\<exists>mk. mapMasterKeys w1 = [(nMasterKeyMaxID w + 1, mk)] \<and> protects C pass mk vMasterKey \<and> 25000 \<le> mk_nDeriveIterations mk) \<and>
    fst (Unlock C pass w1) = Inr True"
proof -
  note S = assms(2)
  obtain q mk where q: "new_master_key C e1 e2 pass vMasterKey salt = (q, mk)" by (metis surj_pair)
  obtain begun w2 where b: "begin_encryption C mk w = (begun, w2)" by (metis surj_pair)
  obtain encrypted w3 where e: "cr_EncryptKeys C vMasterKey w2 = (encrypted, w3)" by (metis surj_pair)
  obtain committed w6 where c: "commit_encryption C (SetMinVersion K (FEATURE_WALLETCRYPT C) True w3) = (committed, w6)" by (metis surj_pair)
  note r = assms(5) [unfolded EncryptWallet_def q]
  have qT: "q = Inr True" using r by (auto split: if_splits sum.splits bool.splits)
  note p = new_master_key_protects [OF assms(1) S q [unfolded qT]]
  let ?n = "nMasterKeyMaxID w + 1"
  have ok: "begun" "encrypted" "committed" "finish_encryption C K pass w6 = (EncReturns True, w1)"
    using r by (auto simp: qT b e c split: if_splits)
  have "mapMasterKeys w2 = [(?n, mk)]"
    using b assms(4) by (auto simp: begin_encryption_def Let_def split: if_splits prod.splits)
  then have "accepting C [(?n, mk)] vMasterKey w3"
    using new_keys_okD(3) [OF assms(3)] e ok(2) by (simp add: accepting_def)
  then have "accepting C [(?n, mk)] vMasterKey (SetMinVersion K (FEATURE_WALLETCRYPT C) True w3)" by (simp add: accepting_SetMinVersion)
  then have w6: "accepting C [(?n, mk)] vMasterKey w6"
    using c by (auto simp: commit_encryption_def accepting_def split: if_splits prod.splits)
  note f = finish_encryption_ok [OF S assms(3) conjunct1 [OF p] w6 ok(4)]
  then have "fst (Unlock C pass w1) = Inr True"
    using Unlock_first [OF S _ conjunct1 [OF p], of w1 ?n "[]"] by (simp add: accepting_def)
  with f p show ?thesis by (auto simp: accepting_def)
qed

text \<open>When the transaction cannot be begun, the call reports failure, but its master key stays in the map.\<close>

lemma EncryptWallet_begin_fails:
  assumes "\<not> ke_IsCrypted K (w_keys w)" "new_master_key C e1 e2 pass vMasterKey salt = (Inr True, mk)" "fFileBacked w"
    "\<not> fst (cr_TxnBegin C (w_db w))"
  shows "fst (EncryptWallet C K e1 e2 vMasterKey salt pass w) = EncReturns False \<and>
    mapMasterKeys (snd (EncryptWallet C K e1 e2 vMasterKey salt pass w)) = map_put (nMasterKeyMaxID w + 1) mk (mapMasterKeys w)"
  using assms by (simp add: EncryptWallet_def begin_encryption_def Let_def case_prod_unfold)

subsection \<open>Witnesses\<close>

text \<open>A store that holds one master key and the lock, with the cipher of the examples.\<close>

definition demo_crypt :: "(bytes \<times> bool, unit, bool \<times> byte) crypt_env" where
  "demo_crypt = \<lparr> cr_evp = demo_evp, cr_memory = (replicate 32 0, replicate 32 0), cr_spoiled = [],
     cr_Unlock = (\<lambda>m k. (m = fst k, (fst k, snd k \<or> m = fst k))), cr_Lock = (\<lambda>k. (fst k, False)), cr_IsLocked = (\<lambda>k. \<not> snd k),
     cr_EncryptKeys = (\<lambda>m w. (True, w\<lparr> w_keys := (m, True) \<rparr>)), cr_WriteMasterKey = (\<lambda>_ _ d. d), cr_WriteBestBlock = (\<lambda>_ d. d),
     cr_TxnBegin = (\<lambda>d. (True, d)), cr_TxnCommit = (\<lambda>d. (True, d)), cr_TxnAbort = (\<lambda>d. d), cr_Rewrite = (\<lambda>d. d),
     cr_first = (\<lambda>_. 30000), cr_scale = (\<lambda>n _. n), cr_mean = (\<lambda>n _. n), FEATURE_WALLETCRYPT = 40000 \<rparr>"

definition demo_crypt_keys :: "(bytes \<times> bool, unit) key_env" where
  "demo_crypt_keys = \<lparr> ke_ec = demo_ec, ke_id = (\<lambda>_. 7),
     ke_MakeNewKey = (\<lambda>c k. (\<lparr> fValid = True, fCompressed = c, ck_vch = replicate 32 1 \<rparr>, k)),
     ke_AddKeyPubKey = (\<lambda>_ _ k. (True, k)), ke_AddCryptedKey = (\<lambda>_ _ k. (True, k)), ke_AddCScript = (\<lambda>_ k. (True, k)),
     ke_IsCrypted = (\<lambda>k. fst k \<noteq> []), ke_IsLocked = (\<lambda>k. fst k \<noteq> [] \<and> \<not> snd k), ke_HaveKey = (\<lambda>_ _. True),
     ke_WriteKey = (\<lambda>_ _ _ d. (True, d)), ke_WriteCryptedKey = (\<lambda>_ _ _ d. (True, d)), ke_WriteCScript = (\<lambda>_ d. (True, d)),
     ke_WriteDefaultKey = (\<lambda>_ d. (True, d)), ke_WriteCorruptAddress = (\<lambda>d. d), ke_WriteMinVersion = (\<lambda>_ d. d),
     ke_WritePool = (\<lambda>_ _ d. (True, d)), ke_ReadPool = (\<lambda>_ _. None), ke_ErasePool = (\<lambda>_ d. d),
     ke_CKeyPool = (\<lambda>p. \<lparr> kp_nTime = 5, kp_vchPubKey = p \<rparr>), ke_CanSupport = (\<lambda>a b. b \<le> a), FEATURE_COMPRPUBKEY = 60000,
     FEATURE_LATEST = 60000, ke_GetTime = 100, ke_default_time = 0, ke_keypool = 0 \<rparr>"

lemma demo_crypt_ok: "evp_ok (cr_evp demo_crypt)" "store_ok demo_crypt" "new_keys_ok demo_crypt demo_crypt_keys"
  using demo_evp_ok by (auto simp: demo_crypt_def demo_crypt_keys_def store_ok_def new_keys_ok_def)

definition plain_wallet :: "(bytes \<times> bool, unit) CWallet" where
  "plain_wallet = \<lparr> fFileBacked = True, mapWallet = [], nOrderPosNext = 0, mapRequestCount = Map.empty, mapAddressBook = Map.empty,
     vchDefaultKey = key0, setLockedCoins = {}, setKeyPool = {}, nTimeFirstKey = 0, nWalletVersion = 0, nWalletMaxVersion = 60000,
     mapMasterKeys = [], nMasterKeyMaxID = 0, w_keys = ([], False), w_db = () \<rparr>"

definition encrypted_wallet :: "encrypt_outcome \<times> (bytes \<times> bool, unit) CWallet" where
  "encrypted_wallet = EncryptWallet demo_crypt demo_crypt_keys 3 3 (replicate 32 9) (replicate 8 1) [4, 5] plain_wallet"

lemma encrypted_wallet_ok: "fst encrypted_wallet = EncReturns True"
  by code_simp

lemma EncryptWallet_unlocks_witness:
  "fst encrypted_wallet = EncReturns True \<and> fst (Unlock demo_crypt [4, 5] (snd encrypted_wallet)) = Inr True"
proof -
  have "mapMasterKeys plain_wallet = []" by (simp add: plain_wallet_def)
  moreover have "EncryptWallet demo_crypt demo_crypt_keys 3 3 (replicate 32 9) (replicate 8 1) [4, 5] plain_wallet =
      (EncReturns True, snd encrypted_wallet)"
    using encrypted_wallet_ok unfolding encrypted_wallet_def by (metis prod.collapse)
  ultimately show ?thesis
    using EncryptWallet_unlocks [OF demo_crypt_ok] encrypted_wallet_ok by blast
qed


end
