(* ===== verification/WalletDB.thy ===== *)
theory WalletDB
  imports WalletTx Base58 Crypter
begin

text \<open>
  The wallet file (\<open>walletdb.cpp\<close>): accounting entries, the order of the transactions of old wallets, reading a record,
  \<open>LoadWallet\<close> and \<open>Recover\<close>.  A record is its key and its value as bytes.  \<open>file_env\<close> holds what the repository does not
  have: the serialization of \<open>serialize.h\<close> as readers, which give the value and the rest of the stream or throw (none),
  the cursor and the writes of Berkeley DB, the members of \<open>wallet.h\<close>, and what a failed read of a string, a
  public key or a transaction leaves in the object it reads into.
\<close>

type_synonym 'a reader = "bytes \<Rightarrow> ('a \<times> bytes) option"

record CAccountingRecord = CAccountingEntry +
  ae_strAccount :: string
  ae_nCreditDebit :: int64
  ae_nEntryNo :: uint64

datatype DBErrors = DB_LOAD_OK | DB_CORRUPT | DB_NONCRITICAL_ERROR | DB_TOO_NEW | DB_LOAD_FAIL | DB_NEED_REWRITE

text \<open>
  \<open>fe_scan\<close> gives the records the cursor visits from a key on, or from the start, and whether the last call of the
  cursor was an error rather than the end; none if there is no cursor.
\<close>

record ('k, 'd, 'c) file_env =
  fe_wallet :: "('k, 'd) wallet_env"
  fe_ec :: ec_ops
  fe_bn :: bn_ops
  fe_sha :: "'c sha_ops"
  fe_TestNet :: bool
  fe_CLIENT_VERSION :: int32
  fe_scan :: "bytes option \<Rightarrow> 'd \<Rightarrow> ((bytes \<times> bytes) list \<times> bool) option"
  fe_acentry_key :: "string \<Rightarrow> bytes"
  fe_WriteEntry :: "string \<Rightarrow> uint64 \<Rightarrow> CAccountingRecord \<Rightarrow> 'd \<Rightarrow> bool \<times> 'd"
  fe_WriteVersion :: "int32 \<Rightarrow> 'd \<Rightarrow> 'd"
  fe_ReadMinVersion :: "'d \<Rightarrow> int32 option"
  fe_LoadMinVersion :: "int32 \<Rightarrow> int32 \<times> int32 \<Rightarrow> int32 \<times> int32"
  fe_LoadKey :: "CKey \<Rightarrow> CPubKey \<Rightarrow> 'k \<Rightarrow> bool \<times> 'k"
  fe_LoadCryptedKey :: "CPubKey \<Rightarrow> bytes \<Rightarrow> 'k \<Rightarrow> bool \<times> 'k"
  fe_LoadCScript :: "CScript \<Rightarrow> 'k \<Rightarrow> bool \<times> 'k"
  rd_string :: "string reader"
  rd_string_left :: "bytes \<Rightarrow> string"
  rd_uint256 :: "uint256 reader"
  rd_uint160 :: "uint160 reader"
  rd_uint64 :: "uint64 reader"
  rd_uint32 :: "uint32 reader"
  rd_int64 :: "int64 reader"
  rd_int32 :: "int32 reader"
  rd_char :: "byte reader"
  rd_bytes :: "bytes reader"
  rd_script :: "CScript reader"
  rd_pubkey :: "CPubKey reader"
  rd_pubkey_left :: "bytes \<Rightarrow> CPubKey \<Rightarrow> CPubKey"
  rd_wkey :: "bytes reader"
  rd_mkey :: "CMasterKey reader"
  rd_keymeta :: "int64 reader"
  rd_acentry :: "CAccountingRecord reader"
  rd_tx :: "CWalletTx reader"
  rd_tx_left :: "bytes \<Rightarrow> CWalletTx"

subsection \<open>Accounts\<close>

definition WriteAccountingEntry ::
  "('k, 'd, 'c) file_env \<Rightarrow> uint64 \<Rightarrow> CAccountingRecord \<Rightarrow> 'd \<Rightarrow> bool \<times> 'd" where
  "WriteAccountingEntry F nAccEntryNum acentry = fe_WriteEntry F (ae_strAccount acentry) nAccEntryNum acentry"

text \<open>A new entry is numbered by the counter \<open>nAccountingEntryNumber\<close>.\<close>

definition WriteAccountingEntry_new ::
  "('k, 'd, 'c) file_env \<Rightarrow> CAccountingRecord \<Rightarrow> uint64 \<times> 'd \<Rightarrow> bool \<times> uint64 \<times> 'd" where
  "WriteAccountingEntry_new F acentry s =
     (case WriteAccountingEntry F (fst s + 1) acentry (snd s) of (ok, d) \<Rightarrow> (ok, fst s + 1, d))"

text \<open>The loop over the cursor; an exception of a reader ends the call.\<close>

fun account_entries ::
  "('k, 'd, 'c) file_env \<Rightarrow> bool \<Rightarrow> string \<Rightarrow> bool \<Rightarrow> (bytes \<times> bytes) list \<Rightarrow> CAccountingRecord list res" where
  "account_entries F fAll strAccount failed [] =
     (if failed then Inl (Thrown ''CWalletDB::ListAccountCreditDebit() : error scanning DB'') else Inr [])"
| "account_entries F fAll strAccount failed ((ssKey, ssValue) # rs) =
     (case rd_string F ssKey of
        None \<Rightarrow> Inl (Thrown ''CDataStream::read() : end of data'')
      | Some (strType, k1) \<Rightarrow>
          if strType \<noteq> ''acentry'' then Inr []
          else case rd_string F k1 of
              None \<Rightarrow> Inl (Thrown ''CDataStream::read() : end of data'')
            | Some (account, k2) \<Rightarrow>
                if \<not> fAll \<and> account \<noteq> strAccount then Inr []
                else (case rd_acentry F ssValue of
                    None \<Rightarrow> Inl (Thrown ''CDataStream::read() : end of data'')
                  | Some (e, _) \<Rightarrow>
                      (case rd_uint64 F k2 of
                         None \<Rightarrow> Inl (Thrown ''CDataStream::read() : end of data'')
                       | Some (n, _) \<Rightarrow>
                           bind_res (account_entries F fAll strAccount failed rs)
                             (\<lambda>es. Inr (e\<lparr> ae_strAccount := account, ae_nEntryNo := n \<rparr> # es)))))"

definition ListAccountCreditDebit :: "('k, 'd, 'c) file_env \<Rightarrow> string \<Rightarrow> 'd \<Rightarrow> CAccountingRecord list res" where
  "ListAccountCreditDebit F strAccount d =
     (let fAll = (strAccount = ''*'') in
      case fe_scan F (Some (fe_acentry_key F (if fAll then [] else strAccount))) d of
        None \<Rightarrow> Inl (Thrown ''CWalletDB::ListAccountCreditDebit() : cannot create DB cursor'')
      | Some (rs, failed) \<Rightarrow> account_entries F fAll strAccount failed rs)"

definition GetAccountCreditDebit :: "('k, 'd, 'c) file_env \<Rightarrow> string \<Rightarrow> 'd \<Rightarrow> int64 res" where
  "GetAccountCreditDebit F strAccount d =
     bind_res (ListAccountCreditDebit F strAccount d) (\<lambda>entries. Inr (\<Sum>e\<leftarrow>entries. ae_nCreditDebit e))"

subsection \<open>The order of old transactions\<close>

text \<open>A transaction of the wallet or an accounting entry in the list read from the file.\<close>

datatype order_item = OrderTx uint256 | OrderEntry nat

record ('k, 'd) order_state =
  os_wallet :: "('k, 'd) CWallet"
  os_entries :: "CAccountingRecord list"
  nOrderPosOffsets :: "int64 list"

definition order_pos :: "('k, 'd) order_state \<Rightarrow> order_item \<Rightarrow> int64" where
  "order_pos s it =
     (case it of
        OrderTx h \<Rightarrow> nOrderPos (the (map_of (mapWallet (os_wallet s)) h))
      | OrderEntry i \<Rightarrow> ae_nOrderPos (os_entries s ! i))"

definition set_order_pos :: "order_item \<Rightarrow> int64 \<Rightarrow> ('k, 'd) order_state \<Rightarrow> ('k, 'd) order_state" where
  "set_order_pos it p s =
     (case it of
        OrderTx h \<Rightarrow> s\<lparr> os_wallet := (os_wallet s)\<lparr> mapWallet :=
           map (\<lambda>(k, t). (k, if k = h then t\<lparr> nOrderPos := p \<rparr> else t)) (mapWallet (os_wallet s)) \<rparr> \<rparr>
      | OrderEntry i \<Rightarrow> s\<lparr> os_entries := (os_entries s)[i := (os_entries s ! i)\<lparr> ae_nOrderPos := p \<rparr>] \<rparr>)"

text \<open>The write back of an item.\<close>

definition write_item :: "('k, 'd, 'c) file_env \<Rightarrow> order_item \<Rightarrow> ('k, 'd) order_state \<Rightarrow> bool \<times> ('k, 'd) order_state" where
  "write_item F it s =
     (let w = os_wallet s;
          (ok, d) = (case it of
             OrderTx h \<Rightarrow> (let t = the (map_of (mapWallet w) h) in we_WriteTx (fe_wallet F) (GetHash (fe_wallet F) t) t (w_db w))
           | OrderEntry i \<Rightarrow> WriteAccountingEntry F (ae_nEntryNo (os_entries s ! i)) (os_entries s ! i) (w_db w))
      in (ok, s\<lparr> os_wallet := w\<lparr> w_db := d \<rparr> \<rparr>))"

definition order_one :: "('k, 'd, 'c) file_env \<Rightarrow> order_item \<Rightarrow> ('k, 'd) order_state \<Rightarrow> bool \<times> ('k, 'd) order_state" where
  "order_one F it s =
     (let p = order_pos s it; next_pos = nOrderPosNext (os_wallet s) in
      if p = - 1 then
        let s1 = set_order_pos it next_pos s;
            s2 = s1\<lparr> os_wallet := (os_wallet s1)\<lparr> nOrderPosNext := next_pos + 1 \<rparr>, nOrderPosOffsets := nOrderPosOffsets s1 @ [next_pos] \<rparr>
        in (case it of OrderTx _ \<Rightarrow> (True, s2) | OrderEntry _ \<Rightarrow> write_item F it s2)
      else
        let nOrderPosOff = int (length (filter (\<lambda>nOffsetStart. p \<ge> nOffsetStart) (nOrderPosOffsets s)));
            s1 = set_order_pos it (p + nOrderPosOff) s;
            s2 = s1\<lparr> os_wallet := (os_wallet s1)\<lparr> nOrderPosNext := max next_pos (p + nOrderPosOff + 1) \<rparr> \<rparr>
        in if nOrderPosOff = 0 then (True, s2) else write_item F it s2)"

fun reorder_loop :: "('k, 'd, 'c) file_env \<Rightarrow> order_item list \<Rightarrow> ('k, 'd) order_state \<Rightarrow> DBErrors \<times> ('k, 'd) order_state" where
  "reorder_loop F [] s = (DB_LOAD_OK, s)"
| "reorder_loop F (it # its) s = (case order_one F it s of (ok, s1) \<Rightarrow> if ok then reorder_loop F its s1 else (DB_LOAD_FAIL, s1))"

text \<open>The multimap by time; entries with equal keys stay in the order of their insertion.\<close>

definition txByTime :: "(uint256 \<times> CWalletTx) list \<Rightarrow> CAccountingRecord list \<Rightarrow> (int64 \<times> order_item) list" where
  "txByTime txs es =
     sort_key fst (map (\<lambda>(h, t). (uint (nTimeReceived t), OrderTx h)) txs @
       map (\<lambda>(i, e). (ae_nTime e, OrderEntry i)) (enumerate 0 es))"

definition ReorderTransactions :: "('k, 'd, 'c) file_env \<Rightarrow> ('k, 'd) CWallet \<Rightarrow> DBErrors res \<times> ('k, 'd) CWallet" where
  "ReorderTransactions F w =
     (case ListAccountCreditDebit F [] (w_db w) of
        Inl e \<Rightarrow> (Inl e, w)
      | Inr acentries \<Rightarrow>
          (case reorder_loop F (map snd (txByTime (mapWallet w) acentries))
              \<lparr>os_wallet = w\<lparr> nOrderPosNext := 0 \<rparr>, os_entries = acentries, nOrderPosOffsets = []\<rparr> of
             (r, s) \<Rightarrow> (Inr r, os_wallet s)))"

subsection \<open>Reading a record\<close>

record wallet_scan =
  ws_nKeys :: uint32
  ws_nCKeys :: uint32
  ws_nKeyMeta :: uint32
  fIsEncrypted :: bool
  fAnyUnordered :: bool
  ws_nFileVersion :: int32
  vWalletUpgrade :: "uint256 list"

definition CWalletScanState_make :: wallet_scan where
  "CWalletScanState_make = \<lparr>ws_nKeys = 0, ws_nCKeys = 0, ws_nKeyMeta = 0, fIsEncrypted = False, fAnyUnordered = False,
     ws_nFileVersion = 0, vWalletUpgrade = []\<rparr>"

text \<open>The wallet, the state of the scan and the counter \<open>nAccountingEntryNumber\<close>.\<close>

record ('k, 'd) load_state =
  ls_wallet :: "('k, 'd) CWallet"
  ls_scan :: wallet_scan
  ls_entry_number :: uint64

abbreviation on_wallet :: "(('k, 'd) CWallet \<Rightarrow> ('k, 'd) CWallet) \<Rightarrow> ('k, 'd) load_state \<Rightarrow> ('k, 'd) load_state" where
  "on_wallet f s \<equiv> s\<lparr> ls_wallet := f (ls_wallet s) \<rparr>"

abbreviation on_scan :: "(wallet_scan \<Rightarrow> wallet_scan) \<Rightarrow> ('k, 'd) load_state \<Rightarrow> ('k, 'd) load_state" where
  "on_scan f s \<equiv> s\<lparr> ls_scan := f (ls_scan s) \<rparr>"

text \<open>
  One function for each type of record: what is left of the key, the value and the state; false is both \<open>return false\<close>
  and an exception, which the caller turns into it.  What was done before an exception stays.
\<close>

type_synonym ('k, 'd) record_reader = "bytes \<Rightarrow> bytes \<Rightarrow> ('k, 'd) load_state \<Rightarrow> bool \<times> ('k, 'd) load_state"

text \<open>\<open>operator[]\<close> makes the entry of the address book before the name is read.\<close>

definition read_name :: "('k, 'd, 'c) file_env \<Rightarrow> ('k, 'd) record_reader" where
  "read_name F ssKey ssValue s =
     (case rd_string F ssKey of
        None \<Rightarrow> (False, s)
      | Some (strAddress, _) \<Rightarrow>
          (case SetString (fe_bn F) (fe_sha F) strAddress CBase58Data_default of
             Inl _ \<Rightarrow> (False, s)
           | Inr (_, address) \<Rightarrow>
               let dest = CBitcoinAddress_Get (fe_TestNet F) address in
               (case rd_string F ssValue of
                  None \<Rightarrow> (False, on_wallet (\<lambda>w. w\<lparr> mapAddressBook := (mapAddressBook w)(dest \<mapsto> rd_string_left F ssValue) \<rparr>) s)
                | Some (name, _) \<Rightarrow> (True, on_wallet (\<lambda>w. w\<lparr> mapAddressBook := (mapAddressBook w)(dest \<mapsto> name) \<rparr>) s))))"

text \<open>The upgrade of a transaction written by old versions; the value stream after the transaction follows.\<close>

definition upgrade_tx :: "('k, 'd, 'c) file_env \<Rightarrow> bytes \<Rightarrow> CWalletTx \<Rightarrow> bool \<times> CWalletTx" where
  "upgrade_tx F rest wtx =
     (if rest \<noteq> [] then
        (case rd_char F rest of
           None \<Rightarrow> (False, wtx)
         | Some (fTmp, r1) \<Rightarrow>
             (case rd_char F r1 of
                None \<Rightarrow> (False, wtx)
              | Some (fUnused, r2) \<Rightarrow>
                  (case rd_string F r2 of
                     None \<Rightarrow> (False, wtx\<lparr> strFromAccount := rd_string_left F r2 \<rparr>)
                   | Some (account, _) \<Rightarrow> (True, wtx\<lparr> strFromAccount := account, fTimeReceivedIsTxTime := scast fTmp \<rparr>))))
      else (True, wtx\<lparr> fTimeReceivedIsTxTime := 0 \<rparr>))"

text \<open>\<open>mapWallet[hash]\<close> makes the entry into which the transaction is read.\<close>

definition read_tx :: "('k, 'd, 'c) file_env \<Rightarrow> ('k, 'd) record_reader" where
  "read_tx F ssKey ssValue s =
     (case rd_uint256 F ssKey of
        None \<Rightarrow> (False, s)
      | Some (hash, _) \<Rightarrow>
          let put = (\<lambda>t. on_wallet (\<lambda>w. w\<lparr> mapWallet := map_put hash t (mapWallet w) \<rparr>)) in
          (case rd_tx F ssValue of
             None \<Rightarrow> (False, put (rd_tx_left F ssValue) s)
           | Some (wtx, rest) \<Rightarrow>
               if CheckTransaction (we_chain (fe_wallet F)) (tx_of wtx) \<noteq> None \<or> GetHash (fe_wallet F) wtx \<noteq> hash then
                 (False, on_wallet (\<lambda>w. w\<lparr> mapWallet := map_del hash (mapWallet w) \<rparr>) s)
               else
                 let (ok, wtx1) =
                   (if 31404 \<le> fTimeReceivedIsTxTime wtx \<and> fTimeReceivedIsTxTime wtx \<le> 31703 then upgrade_tx F rest wtx else (True, wtx));
                     s1 = put wtx1 s
                 in if \<not> ok then (False, s1)
                    else
                      let s2 = (if 31404 \<le> fTimeReceivedIsTxTime wtx \<and> fTimeReceivedIsTxTime wtx \<le> 31703
                                then on_scan (\<lambda>c. c\<lparr> vWalletUpgrade := vWalletUpgrade c @ [hash] \<rparr>) s1 else s1)
                      in (True, if nOrderPos wtx1 = - 1 then on_scan (\<lambda>c. c\<lparr> fAnyUnordered := True \<rparr>) s2 else s2)))"

definition read_acentry :: "('k, 'd, 'c) file_env \<Rightarrow> ('k, 'd) record_reader" where
  "read_acentry F ssKey ssValue s =
     (case rd_string F ssKey of
        None \<Rightarrow> (False, s)
      | Some (strAccount, k1) \<Rightarrow>
          (case rd_uint64 F k1 of
             None \<Rightarrow> (False, s)
           | Some (nNumber, _) \<Rightarrow>
               let s1 = (if nNumber > ls_entry_number s then s\<lparr> ls_entry_number := nNumber \<rparr> else s) in
               if fAnyUnordered (ls_scan s1) then (True, s1)
               else (case rd_acentry F ssValue of
                   None \<Rightarrow> (False, s1)
                 | Some (e, _) \<Rightarrow> (True, if ae_nOrderPos e = - 1 then on_scan (\<lambda>c. c\<lparr> fAnyUnordered := True \<rparr>) s1 else s1))))"

definition no_key :: CKey where
  "no_key = \<lparr> fValid = False, fCompressed = False, ck_vch = replicate 32 0 \<rparr>"

definition read_key :: "('k, 'd, 'c) file_env \<Rightarrow> bool \<Rightarrow> ('k, 'd) record_reader" where
  "read_key F wkey ssKey ssValue s =
     (case rd_pubkey F ssKey of
        None \<Rightarrow> (False, s)
      | Some (vchPubKey, _) \<Rightarrow>
          if \<not> CPubKey_IsValid vchPubKey then (False, s)
          else
            let s1 = (if wkey then s else on_scan (\<lambda>c. c\<lparr> ws_nKeys := ws_nKeys c + 1 \<rparr>) s) in
            (case (if wkey then rd_wkey F ssValue else rd_bytes F ssValue) of
               None \<Rightarrow> (False, s1)
             | Some (pkey, _) \<Rightarrow>
                 (case CKey_SetPrivKey (fe_ec F) pkey (CPubKey_IsCompressed vchPubKey) no_key of (ok, key) \<Rightarrow>
                    if \<not> ok then (False, s1)
                    else if CKey_GetPubKey (fe_ec F) key \<noteq> Inr vchPubKey then (False, s1)
                    else (case fe_LoadKey F key vchPubKey (w_keys (ls_wallet s1)) of (loaded, k) \<Rightarrow>
                        (loaded, on_wallet (\<lambda>w. w\<lparr> w_keys := k \<rparr>) s1)))))"

definition read_mkey :: "('k, 'd, 'c) file_env \<Rightarrow> ('k, 'd) record_reader" where
  "read_mkey F ssKey ssValue s =
     (case rd_uint32 F ssKey of
        None \<Rightarrow> (False, s)
      | Some (nID, _) \<Rightarrow>
          (case rd_mkey F ssValue of
             None \<Rightarrow> (False, s)
           | Some (kMasterKey, _) \<Rightarrow>
               if map_of (mapMasterKeys (ls_wallet s)) nID \<noteq> None then (False, s)
               else (True, on_wallet (\<lambda>w. w\<lparr> mapMasterKeys := map_put nID kMasterKey (mapMasterKeys w),
                        nMasterKeyMaxID := (if nMasterKeyMaxID w < nID then nID else nMasterKeyMaxID w) \<rparr>) s)))"

definition read_ckey :: "('k, 'd, 'c) file_env \<Rightarrow> ('k, 'd) record_reader" where
  "read_ckey F ssKey ssValue s =
     (case rd_bytes F ssKey of
        None \<Rightarrow> (False, s)
      | Some (vchPubKey, _) \<Rightarrow>
          (case rd_bytes F ssValue of
             None \<Rightarrow> (False, s)
           | Some (vchPrivKey, _) \<Rightarrow>
               let s1 = on_scan (\<lambda>c. c\<lparr> ws_nCKeys := ws_nCKeys c + 1 \<rparr>) s in
               (case fe_LoadCryptedKey F (CPubKey_Set vchPubKey key0) vchPrivKey (w_keys (ls_wallet s1)) of (loaded, k) \<Rightarrow>
                  let s2 = on_wallet (\<lambda>w. w\<lparr> w_keys := k \<rparr>) s1 in
                  if \<not> loaded then (False, s2) else (True, on_scan (\<lambda>c. c\<lparr> fIsEncrypted := True \<rparr>) s2))))"

definition read_keymeta :: "('k, 'd, 'c) file_env \<Rightarrow> ('k, 'd) record_reader" where
  "read_keymeta F ssKey ssValue s =
     (case rd_bytes F ssKey of
        None \<Rightarrow> (False, s)
      | Some (vchPubKey, _) \<Rightarrow>
          (case rd_keymeta F ssValue of
             None \<Rightarrow> (False, s)
           | Some (create_time, _) \<Rightarrow>
               let s1 = on_scan (\<lambda>c. c\<lparr> ws_nKeyMeta := ws_nKeyMeta c + 1 \<rparr>) s in
               (True, on_wallet (\<lambda>w. if nTimeFirstKey w = 0 \<or> create_time < nTimeFirstKey w then w\<lparr> nTimeFirstKey := create_time \<rparr> else w) s1)))"

definition read_rest :: "('k, 'd, 'c) file_env \<Rightarrow> string \<Rightarrow> ('k, 'd) record_reader" where
  "read_rest F strType ssKey ssValue s =
     (if strType = ''defaultkey'' then
        (case rd_pubkey F ssValue of
           None \<Rightarrow> (False, on_wallet (\<lambda>w. w\<lparr> vchDefaultKey := rd_pubkey_left F ssValue (vchDefaultKey w) \<rparr>) s)
         | Some (k, _) \<Rightarrow> (True, on_wallet (\<lambda>w. w\<lparr> vchDefaultKey := k \<rparr>) s))
      else if strType = ''pool'' then
        (case rd_int64 F ssKey of
           None \<Rightarrow> (False, s) | Some (nIndex, _) \<Rightarrow> (True, on_wallet (\<lambda>w. w\<lparr> setKeyPool := insert nIndex (setKeyPool w) \<rparr>) s))
      else if strType = ''version'' then
        (case rd_int32 F ssValue of
           None \<Rightarrow> (False, s)
         | Some (v, _) \<Rightarrow> (True, on_scan (\<lambda>c. c\<lparr> ws_nFileVersion := (if v = 10300 then 300 else v) \<rparr>) s))
      else if strType = ''cscript'' then
        (case rd_uint160 F ssKey of
           None \<Rightarrow> (False, s)
         | Some (hash, _) \<Rightarrow>
             (case rd_script F ssValue of
                None \<Rightarrow> (False, s)
              | Some (script, _) \<Rightarrow>
                  (case fe_LoadCScript F script (w_keys (ls_wallet s)) of (loaded, k) \<Rightarrow> (loaded, on_wallet (\<lambda>w. w\<lparr> w_keys := k \<rparr>) s))))
      else if strType = ''orderposnext'' then
        (case rd_int64 F ssValue of None \<Rightarrow> (False, s) | Some (n, _) \<Rightarrow> (True, on_wallet (\<lambda>w. w\<lparr> nOrderPosNext := n \<rparr>) s))
      else (True, s))"

text \<open>The type of the record is an output too; a failed read of it leaves what was read.\<close>

definition ReadKeyValue ::
  "('k, 'd, 'c) file_env \<Rightarrow> bytes \<Rightarrow> bytes \<Rightarrow> ('k, 'd) load_state \<Rightarrow> string \<times> bool \<times> ('k, 'd) load_state" where
  "ReadKeyValue F ssKey ssValue s =
     (case rd_string F ssKey of
        None \<Rightarrow> (rd_string_left F ssKey, False, s)
      | Some (strType, k1) \<Rightarrow>
          (strType,
           if strType = ''name'' then read_name F k1 ssValue s
           else if strType = ''tx'' then read_tx F k1 ssValue s
           else if strType = ''acentry'' then read_acentry F k1 ssValue s
           else if strType = ''key'' \<or> strType = ''wkey'' then read_key F (strType = ''wkey'') k1 ssValue s
           else if strType = ''mkey'' then read_mkey F k1 ssValue s
           else if strType = ''ckey'' then read_ckey F k1 ssValue s
           else if strType = ''keymeta'' then read_keymeta F k1 ssValue s
           else read_rest F strType k1 ssValue s))"

definition IsKeyType :: "string \<Rightarrow> bool" where
  "IsKeyType strType \<longleftrightarrow> strType = ''key'' \<or> strType = ''wkey'' \<or> strType = ''mkey'' \<or> strType = ''ckey''"

subsection \<open>Loading the wallet\<close>

text \<open>One record: the flags are a lost key, another error, and a rescan asked for.\<close>

definition load_record ::
  "('k, 'd, 'c) file_env \<Rightarrow> bytes \<times> bytes \<Rightarrow> ('k, 'd) load_state \<times> bool \<times> bool \<times> bool \<Rightarrow> ('k, 'd) load_state \<times> bool \<times> bool \<times> bool" where
  "load_record F r p =
     (case p of (s, corrupt, noncritical, rescan) \<Rightarrow>
        (case ReadKeyValue F (fst r) (snd r) s of (strType, ok, s1) \<Rightarrow>
           if ok then (s1, corrupt, noncritical, rescan)
           else if IsKeyType strType then (s1, True, noncritical, rescan)
           else (s1, corrupt, True, rescan \<or> strType = ''tx'')))"

definition load_records ::
  "('k, 'd, 'c) file_env \<Rightarrow> (bytes \<times> bytes) list \<Rightarrow> ('k, 'd) load_state \<Rightarrow> ('k, 'd) load_state \<times> bool \<times> bool \<times> bool" where
  "load_records F rs s = fold (load_record F) rs (s, False, False, False)"

definition rewrite_upgraded :: "('k, 'd, 'c) file_env \<Rightarrow> uint256 list \<Rightarrow> ('k, 'd) CWallet \<Rightarrow> ('k, 'd) CWallet" where
  "rewrite_upgraded F hashes w =
     w\<lparr> w_db := fold (\<lambda>hash d. snd (we_WriteTx (fe_wallet F) hash (the (map_of (mapWallet w) hash)) d)) hashes (w_db w) \<rparr>"

text \<open>What follows when every record was read.\<close>

definition finish_load :: "('k, 'd, 'c) file_env \<Rightarrow> ('k, 'd) load_state \<Rightarrow> DBErrors res \<times> ('k, 'd) CWallet" where
  "finish_load F s =
     (let c = ls_scan s; w = ls_wallet s;
          w1 = (if ws_nKeys c + ws_nCKeys c \<noteq> ws_nKeyMeta c then w\<lparr> nTimeFirstKey := 0 \<rparr> else w);
          w2 = rewrite_upgraded F (vWalletUpgrade c) w1
      in if fIsEncrypted c \<and> (ws_nFileVersion c = 40000 \<or> ws_nFileVersion c = 50000) then (Inr DB_NEED_REWRITE, w2)
         else
           let w3 = (if ws_nFileVersion c < fe_CLIENT_VERSION F
                     then w2\<lparr> w_db := fe_WriteVersion F (fe_CLIENT_VERSION F) (w_db w2) \<rparr> else w2)
           in if fAnyUnordered c then ReorderTransactions F w3 else (Inr DB_LOAD_OK, w3))"

text \<open>From the cursor on: the result, the wallet, the counter and whether a rescan is asked for.\<close>

definition load_from ::
  "('k, 'd, 'c) file_env \<Rightarrow> uint64 \<Rightarrow> ('k, 'd) CWallet \<Rightarrow> DBErrors res \<times> ('k, 'd) CWallet \<times> uint64 \<times> bool" where
  "load_from F number w =
     (case fe_scan F None (w_db w) of
        None \<Rightarrow> (Inr DB_CORRUPT, w, number, False)
      | Some (rs, failed) \<Rightarrow>
          (case load_records F rs \<lparr>ls_wallet = w, ls_scan = CWalletScanState_make, ls_entry_number = number\<rparr> of
             (s, corrupt, noncritical, rescan) \<Rightarrow>
               let n = ls_entry_number s in
               if failed \<or> corrupt then (Inr DB_CORRUPT, ls_wallet s, n, rescan)
               else if noncritical then (Inr DB_NONCRITICAL_ERROR, ls_wallet s, n, rescan)
               else (case finish_load F s of (r, w1) \<Rightarrow> (r, w1, n, rescan))))"

definition LoadWallet ::
  "('k, 'd, 'c) file_env \<Rightarrow> uint64 \<Rightarrow> ('k, 'd) CWallet \<Rightarrow> DBErrors res \<times> ('k, 'd) CWallet \<times> uint64 \<times> bool" where
  "LoadWallet F number w0 =
     (let w = w0\<lparr> vchDefaultKey := key0 \<rparr> in
      case fe_ReadMinVersion F (w_db w) of
        Some nMinVersion \<Rightarrow>
          if nMinVersion > fe_CLIENT_VERSION F then (Inr DB_TOO_NEW, w, number, False)
          else
            let (v, m) = fe_LoadMinVersion F nMinVersion (nWalletVersion w, nWalletMaxVersion w)
            in load_from F number (w\<lparr> nWalletVersion := v, nWalletMaxVersion := m \<rparr>)
      | None \<Rightarrow> load_from F number w)"

subsection \<open>Recovering\<close>

text \<open>The calls of Berkeley DB: the renaming, the salvaged records, the result of opening the copy and of a write to it.\<close>

record 'f recover_ops =
  rc_rename :: int32
  rc_salvage :: "bool \<times> (bytes \<times> bytes) list"
  rc_open :: int32
  rc_put :: "bytes \<Rightarrow> bytes \<Rightarrow> 'f \<Rightarrow> int32 \<times> 'f"

fun recover_rows ::
  "('k, 'd, 'c) file_env \<Rightarrow> 'f recover_ops \<Rightarrow> bool \<Rightarrow> (bytes \<times> bytes) list \<Rightarrow> ('k, 'd) load_state \<Rightarrow> bool \<Rightarrow> 'f \<Rightarrow> bool \<times> 'f" where
  "recover_rows F Q fOnlyKeys [] s fSuccess f = (fSuccess, f)"
| "recover_rows F Q fOnlyKeys ((k, v) # rows) s fSuccess f =
     (let (strType, fReadOK, s1) = (if fOnlyKeys then ReadKeyValue F k v s else ([], True, s)) in
      if fOnlyKeys \<and> (\<not> IsKeyType strType \<or> \<not> fReadOK) then recover_rows F Q fOnlyKeys rows s1 fSuccess f
      else (case rc_put Q k v f of (ret2, f1) \<Rightarrow> recover_rows F Q fOnlyKeys rows s1 (fSuccess \<and> ret2 \<le> 0) f1))"

text \<open>\<open>dummy\<close> is the wallet of the default constructor.\<close>

definition Recover ::
  "('k, 'd, 'c) file_env \<Rightarrow> 'f recover_ops \<Rightarrow> bool \<Rightarrow> ('k, 'd) CWallet \<Rightarrow> uint64 \<Rightarrow> 'f \<Rightarrow> bool \<times> 'f" where
  "Recover F Q fOnlyKeys dummy number f =
     (if rc_rename Q \<noteq> 0 then (False, f)
      else if snd (rc_salvage Q) = [] then (False, f)
      else if rc_open Q > 0 then (False, f)
      else recover_rows F Q fOnlyKeys (snd (rc_salvage Q))
             \<lparr>ls_wallet = dummy, ls_scan = CWalletScanState_make, ls_entry_number = number\<rparr> (fst (rc_salvage Q)) f)"

text \<open>
  The wallet's own call (\<open>wallet.cpp\<close>): \<open>rewritten\<close> is the file after \<open>CDB::Rewrite\<close> without the pool records, none if it
  fails; the last component is \<open>fFirstRunRet\<close>, none if it is not set.
\<close>

definition CWallet_LoadWallet ::
  "('k, 'd, 'c) file_env \<Rightarrow> ('d \<Rightarrow> 'd option) \<Rightarrow> uint64 \<Rightarrow> ('k, 'd) CWallet \<Rightarrow> DBErrors res \<times> ('k, 'd) CWallet \<times> bool option" where
  "CWallet_LoadWallet F rewritten number w =
     (if \<not> fFileBacked w then (Inr DB_LOAD_OK, w, None)
      else case LoadWallet F number w of
          (Inl e, w1, _) \<Rightarrow> (Inl e, w1, Some False)
        | (Inr r, w1, _) \<Rightarrow>
            let w2 = (if r = DB_NEED_REWRITE then
                        (case rewritten (w_db w1) of None \<Rightarrow> w1 | Some d \<Rightarrow> w1\<lparr> w_db := d, setKeyPool := {} \<rparr>)
                      else w1)
            in if r \<noteq> DB_LOAD_OK then (Inr r, w2, Some False)
               else (Inr DB_LOAD_OK, w2, Some (\<not> CPubKey_IsValid (vchDefaultKey w2))))"

end
