(* ===== verification/WalletDBProps.thy ===== *)
theory WalletDBProps
  imports WalletDB "HOL-Library.Sublist"
begin

text \<open>
  What the wallet file promises: a damaged file is not written to, recovery of keys keeps exactly the readable key
  records, and the order given to transactions that had none; with some ordered and some not, two can share a place.
\<close>

subsection \<open>Loading\<close>

lemma read_handlers_db:
  "w_db (ls_wallet (snd (read_name F k v s))) = w_db (ls_wallet s)"
  "w_db (ls_wallet (snd (read_tx F k v s))) = w_db (ls_wallet s)"
  "w_db (ls_wallet (snd (read_acentry F k v s))) = w_db (ls_wallet s)"
  "w_db (ls_wallet (snd (read_key F b k v s))) = w_db (ls_wallet s)"
  "w_db (ls_wallet (snd (read_mkey F k v s))) = w_db (ls_wallet s)"
  "w_db (ls_wallet (snd (read_ckey F k v s))) = w_db (ls_wallet s)"
  "w_db (ls_wallet (snd (read_keymeta F k v s))) = w_db (ls_wallet s)"
  "w_db (ls_wallet (snd (read_rest F t k v s))) = w_db (ls_wallet s)"
  by (simp_all add: read_name_def read_tx_def read_acentry_def read_key_def read_mkey_def read_ckey_def
      read_keymeta_def read_rest_def Let_def split: option.split prod.split sum.split)

lemma ReadKeyValue_db: "w_db (ls_wallet (snd (snd (ReadKeyValue F k v s)))) = w_db (ls_wallet s)"
proof (cases "rd_string F k")
  case (Some p)
  then show ?thesis by (cases p) (simp add: ReadKeyValue_def read_handlers_db if_distrib [of snd] if_distrib [of ls_wallet] if_distrib [of w_db] cong: if_cong)
qed (simp add: ReadKeyValue_def)

text \<open>The records that were refused, with their types.\<close>

fun refused :: "('k, 'd, 'c) file_env \<Rightarrow> (bytes \<times> bytes) list \<Rightarrow> ('k, 'd) load_state \<Rightarrow> string list" where
  "refused F [] s = []"
| "refused F (r # rs) s =
     (case ReadKeyValue F (fst r) (snd r) s of (strType, ok, s1) \<Rightarrow> if ok then refused F rs s1 else strType # refused F rs s1)"

lemma load_records_refused:
  "\<exists>s'. fold (load_record F) rs (s, c, n, b) =
     (s', c \<or> list_ex IsKeyType (refused F rs s), n \<or> list_ex (Not \<circ> IsKeyType) (refused F rs s), b \<or> list_ex (\<lambda>t. t = ''tx'') (refused F rs s)) \<and>
     w_db (ls_wallet s') = w_db (ls_wallet s)"
proof (induction rs arbitrary: s c n b)
  case (Cons r rs)
  obtain t ok s1 where r: "ReadKeyValue F (fst r) (snd r) s = (t, ok, s1)" by (metis prod_cases3)
  have "w_db (ls_wallet s1) = w_db (ls_wallet s)" using ReadKeyValue_db [of F "fst r" "snd r" s] by (simp add: r)
  moreover have "\<not> IsKeyType ''tx''" by (simp add: IsKeyType_def)
  ultimately show ?case
    using Cons.IH [of s1 c n b] Cons.IH [of s1 True n b] Cons.IH [of s1 c True "b \<or> t = ''tx''"]
    by (auto simp: load_record_def r)
qed simp

lemma reorder_loop_result: "fst (reorder_loop F its s) \<in> {DB_LOAD_OK, DB_LOAD_FAIL}"
  by (induction its arbitrary: s) (auto split: prod.splits)

lemma ReorderTransactions_result:
  assumes "ReorderTransactions F w = (Inr r, w1)"
  shows "r \<in> {DB_LOAD_OK, DB_LOAD_FAIL}"
proof (cases "ListAccountCreditDebit F [] (w_db w)")
  case (Inr es)
  then show ?thesis
    using assms reorder_loop_result [of F "map snd (txByTime (mapWallet w) es)"]
    by (auto simp: ReorderTransactions_def split: prod.splits) (metis fst_conv insertE singletonD)+
qed (use assms in \<open>simp add: ReorderTransactions_def\<close>)

lemma finish_load_result:
  assumes "finish_load F s = (Inr r, w1)"
  shows "r \<in> {DB_LOAD_OK, DB_LOAD_FAIL, DB_NEED_REWRITE}"
  using assms ReorderTransactions_result by (fastforce simp: finish_load_def Let_def split: if_splits)

text \<open>The state in which the first record is read.\<close>

definition load_start :: "('k, 'd, 'c) file_env \<Rightarrow> uint64 \<Rightarrow> ('k, 'd) CWallet \<Rightarrow> ('k, 'd) load_state" where
  "load_start F number w =
     \<lparr>ls_wallet = (case fe_ReadMinVersion F (w_db w) of
          None \<Rightarrow> w\<lparr> vchDefaultKey := key0 \<rparr>
        | Some n \<Rightarrow> w\<lparr> vchDefaultKey := key0, nWalletVersion := fst (fe_LoadMinVersion F n (nWalletVersion w, nWalletMaxVersion w)),
              nWalletMaxVersion := snd (fe_LoadMinVersion F n (nWalletVersion w, nWalletMaxVersion w)) \<rparr>),
      ls_scan = CWalletScanState_make, ls_entry_number = number\<rparr>"

lemma LoadWallet_cases:
  "LoadWallet F number w =
     (case fe_ReadMinVersion F (w_db w) of
        Some n \<Rightarrow> if n > fe_CLIENT_VERSION F then (Inr DB_TOO_NEW, w\<lparr> vchDefaultKey := key0 \<rparr>, number, False)
                  else load_from F number (ls_wallet (load_start F number w))
      | None \<Rightarrow> load_from F number (ls_wallet (load_start F number w)))"
  by (simp add: LoadWallet_def load_start_def Let_def case_prod_unfold split: option.split)

lemma load_start_db [simp]: "w_db (ls_wallet (load_start F number w)) = w_db w"
  by (simp add: load_start_def split: option.split)

lemma load_start_eq: "load_start F number w =
    \<lparr>ls_wallet = ls_wallet (load_start F number w), ls_scan = CWalletScanState_make, ls_entry_number = number\<rparr>"
  by (simp add: load_start_def)

lemma load_from_result:
  assumes r: "load_from F number (ls_wallet (load_start F number w)) = (Inr r, w1, n, rescan)"
    and scan: "fe_scan F None (w_db w) = Some (rs, failed)"
  shows "(let T = refused F rs (load_start F number w) in
      (r = DB_CORRUPT \<longleftrightarrow> failed \<or> list_ex IsKeyType T) \<and>
      (r = DB_NONCRITICAL_ERROR \<longleftrightarrow> \<not> failed \<and> T \<noteq> [] \<and> \<not> list_ex IsKeyType T) \<and>
      (rescan \<longleftrightarrow> ''tx'' \<in> set T)) \<and>
    (r \<in> {DB_CORRUPT, DB_NONCRITICAL_ERROR} \<longrightarrow> w_db w1 = w_db w) \<and> r \<noteq> DB_TOO_NEW"
proof -
  define T where "T = refused F rs (load_start F number w)"
  obtain s' where s': "load_records F rs (load_start F number w) =
      (s', list_ex IsKeyType T, list_ex (Not \<circ> IsKeyType) T, list_ex (\<lambda>t. t = ''tx'') T)" "w_db (ls_wallet s') = w_db w"
    using load_records_refused [of F rs "load_start F number w" False False False] by (auto simp: load_records_def T_def)
  have tx: "list_ex (\<lambda>t. t = ''tx'') T \<longleftrightarrow> ''tx'' \<in> set T" by (auto simp: list_ex_iff)
  have ne: "list_ex (Not \<circ> IsKeyType) T \<longleftrightarrow> T \<noteq> []" if "\<not> list_ex IsKeyType T"
    using that by (cases T) (auto simp: list_ex_iff)
  note r = r [unfolded load_from_def load_start_db scan option.case prod.case load_start_eq [symmetric] s'(1) Let_def]
  consider "failed \<or> list_ex IsKeyType T" | "\<not> failed" "\<not> list_ex IsKeyType T" "T \<noteq> []" | "\<not> failed" "T = []" by fastforce
  then show ?thesis
  proof cases
    case 3
    then have "\<exists>w2. finish_load F s' = (Inr r, w2)" using r by (auto split: prod.splits)
    then have "r \<in> {DB_LOAD_OK, DB_LOAD_FAIL, DB_NEED_REWRITE}" using finish_load_result by blast
    moreover have "\<not> rescan" using 3 r by (auto split: prod.splits)
    ultimately show ?thesis using 3 unfolding T_def [symmetric] Let_def by auto
  qed (use r s' ne tx in \<open>auto simp: T_def [symmetric] Let_def split: prod.splits\<close>)
qed

text \<open>
  A damaged wallet is not written to.  The result is \<open>DB_CORRUPT\<close> exactly if the cursor failed or a key record was
  refused, and \<open>DB_NONCRITICAL_ERROR\<close> exactly if other records were; a rescan is asked for exactly if a transaction was.
\<close>

theorem LoadWallet_careful:
  assumes "LoadWallet F number w = (Inr r, w1, n, rescan)" "fe_scan F None (w_db w) = Some (rs, failed)"
  shows "(r \<in> {DB_CORRUPT, DB_NONCRITICAL_ERROR, DB_TOO_NEW} \<longrightarrow> w_db w1 = w_db w) \<and>
    (r \<noteq> DB_TOO_NEW \<longrightarrow>
      (let T = refused F rs (load_start F number w) in
        (r = DB_CORRUPT \<longleftrightarrow> failed \<or> list_ex IsKeyType T) \<and>
        (r = DB_NONCRITICAL_ERROR \<longleftrightarrow> \<not> failed \<and> T \<noteq> [] \<and> \<not> list_ex IsKeyType T) \<and>
        (rescan \<longleftrightarrow> ''tx'' \<in> set T)))"
proof (cases "\<exists>v. fe_ReadMinVersion F (w_db w) = Some v \<and> v > fe_CLIENT_VERSION F")
  case True
  with assms(1) show ?thesis by (auto simp: LoadWallet_cases)
next
  case False
  then have "load_from F number (ls_wallet (load_start F number w)) = (Inr r, w1, n, rescan)"
    using assms(1) by (auto simp: LoadWallet_cases split: option.splits)
  from load_from_result [OF this assms(2)] show ?thesis by auto
qed

subsection \<open>Recovering the keys\<close>

definition row_type :: "('k, 'd, 'c) file_env \<Rightarrow> bytes \<times> bytes \<Rightarrow> string" where
  "row_type F r = (case rd_string F (fst r) of None \<Rightarrow> rd_string_left F (fst r) | Some (t, _) \<Rightarrow> t)"

lemma ReadKeyValue_type: "fst (ReadKeyValue F k v s) = row_type F (k, v)"
  by (simp add: ReadKeyValue_def row_type_def split: option.split prod.split)

definition put_rows :: "'f recover_ops \<Rightarrow> (bytes \<times> bytes) list \<Rightarrow> 'f \<Rightarrow> 'f" where
  "put_rows Q rows f = fold (\<lambda>(k, v) f. snd (rc_put Q k v f)) rows f"

lemma recover_rows_keys:
  "\<exists>kept. subseq kept rows \<and> list_all (\<lambda>r. IsKeyType (row_type F r)) kept \<and>
     length (filter (\<lambda>r. IsKeyType (row_type F r)) rows) = length kept + length (filter IsKeyType (refused F rows s)) \<and>
     snd (recover_rows F Q True rows s ok f) = put_rows Q kept f"
proof (induction rows arbitrary: s ok f)
  case Nil
  show ?case by (intro exI [of _ "[]"]) (simp add: put_rows_def)
next
  case (Cons r rows)
  obtain k v where r: "r = (k, v)" by (cases r)
  obtain t b s1 where q: "ReadKeyValue F k v s = (t, b, s1)" by (metis prod_cases3)
  have t: "row_type F r = t" using ReadKeyValue_type [of F k v s] by (simp add: q r)
  obtain x f1 where x: "rc_put Q k v f = (x, f1)" by (metis surj_pair)
  show ?case
  proof (cases "IsKeyType t \<and> b")
    case True
    obtain kept where *: "subseq kept rows" "list_all (\<lambda>r. IsKeyType (row_type F r)) kept"
      "length (filter (\<lambda>r. IsKeyType (row_type F r)) rows) = length kept + length (filter IsKeyType (refused F rows s1))"
      "snd (recover_rows F Q True rows s1 (ok \<and> x \<le> 0) f1) = put_rows Q kept f1"
      using Cons.IH [of s1 "ok \<and> x \<le> 0" f1] by blast
    then show ?thesis
      using True t by (intro exI [of _ "r # kept"]) (simp add: r q x put_rows_def)
  next
    case False
    obtain kept where *: "subseq kept rows" "list_all (\<lambda>r. IsKeyType (row_type F r)) kept"
      "length (filter (\<lambda>r. IsKeyType (row_type F r)) rows) = length kept + length (filter IsKeyType (refused F rows s1))"
      "snd (recover_rows F Q True rows s1 ok f) = put_rows Q kept f"
      using Cons.IH [of s1 ok f] by blast
    then show ?thesis
      using False t by (intro exI [of _ kept]) (auto simp: r q list_emb_Cons)
  qed
qed


subsection \<open>The order of transactions\<close>

definition order_valid :: "('k, 'd) order_state \<Rightarrow> order_item \<Rightarrow> bool" where
  "order_valid s it =
     (case it of OrderTx h \<Rightarrow> map_of (mapWallet (os_wallet s)) h \<noteq> None | OrderEntry i \<Rightarrow> i < length (os_entries s))"

lemma map_of_set_pos:
  "map_of (map (\<lambda>(k, t). (k, if k = h then g t else t)) m) x = (if x = h then map_option g (map_of m x) else map_of m x)"
  by (induction m) auto

lemma set_order_pos_pos:
  "order_valid s it \<Longrightarrow> order_pos (set_order_pos it p s) it' = (if it' = it then p else order_pos s it')"
  by (auto simp: order_valid_def order_pos_def set_order_pos_def map_of_set_pos nth_list_update split: order_item.splits)

lemma set_order_pos_same:
  "order_valid (set_order_pos it p s) it' = order_valid s it'"
  "nOrderPosNext (os_wallet (set_order_pos it p s)) = nOrderPosNext (os_wallet s)"
  "map fst (mapWallet (os_wallet (set_order_pos it p s))) = map fst (mapWallet (os_wallet s))"
  by (auto simp: order_valid_def set_order_pos_def map_of_set_pos split: order_item.splits)

text \<open>The fields an item's position and validity do not depend on.\<close>

lemma order_frame:
  "order_pos (s\<lparr> os_wallet := (os_wallet s)\<lparr> nOrderPosNext := n \<rparr>, nOrderPosOffsets := os \<rparr>) it = order_pos s it"
  "order_valid (s\<lparr> os_wallet := (os_wallet s)\<lparr> nOrderPosNext := n \<rparr>, nOrderPosOffsets := os \<rparr>) it = order_valid s it"
  "order_pos (s\<lparr> os_wallet := (os_wallet s)\<lparr> w_db := d \<rparr> \<rparr>) it = order_pos s it"
  "order_valid (s\<lparr> os_wallet := (os_wallet s)\<lparr> w_db := d \<rparr> \<rparr>) it = order_valid s it"
  by (auto simp: order_pos_def order_valid_def split: order_item.split)

lemma write_item_frame:
  "order_pos (snd (write_item F it s)) it' = order_pos s it'" "order_valid (snd (write_item F it s)) it' = order_valid s it'"
  "nOrderPosNext (os_wallet (snd (write_item F it s))) = nOrderPosNext (os_wallet s)"
  by (simp_all add: write_item_def Let_def case_prod_unfold order_frame)

lemma order_one_new:
  assumes "order_valid s it" "order_pos s it = - 1" "\<And>a n e d. fst (fe_WriteEntry F a n e d)"
  shows "\<exists>s1. order_one F it s = (True, s1) \<and> (\<forall>it'. order_pos s1 it' = (if it' = it then nOrderPosNext (os_wallet s) else order_pos s it')) \<and>
    (\<forall>it'. order_valid s1 it' = order_valid s it') \<and> nOrderPosNext (os_wallet s1) = nOrderPosNext (os_wallet s) + 1"
proof -
  define n where "n = nOrderPosNext (os_wallet s)"
  define s1 where "s1 = set_order_pos it n s"
  define s2 where "s2 = s1\<lparr> os_wallet := (os_wallet s1)\<lparr> nOrderPosNext := n + 1 \<rparr>, nOrderPosOffsets := nOrderPosOffsets s1 @ [n] \<rparr>"
  have s2: "order_pos s2 it' = (if it' = it then n else order_pos s it')" "order_valid s2 it' = order_valid s it'"
    "nOrderPosNext (os_wallet s2) = n + 1" for it'
    unfolding s2_def order_frame s1_def using set_order_pos_pos [OF assms(1)] by (simp_all add: set_order_pos_same)
  have o: "order_one F it s = (case it of OrderTx _ \<Rightarrow> (True, s2) | OrderEntry _ \<Rightarrow> write_item F it s2)"
    unfolding order_one_def Let_def assms(2) n_def [symmetric] s1_def [symmetric] s2_def [symmetric] by simp
  show ?thesis
  proof (cases it)
    case (OrderTx h)
    then show ?thesis using o s2 by (auto simp: n_def)
  next
    case (OrderEntry i)
    then have "order_one F it s = (True, snd (write_item F it s2))"
      using o assms(3) by (simp add: write_item_def WriteAccountingEntry_def case_prod_unfold Let_def)
    then show ?thesis using s2 by (auto simp: n_def write_item_frame)
  qed
qed

lemma reorder_loop_new:
  assumes "\<And>a n e d. fst (fe_WriteEntry F a n e d)"
  shows "distinct its \<Longrightarrow> (\<And>it. it \<in> set its \<Longrightarrow> order_valid s it \<and> order_pos s it = - 1) \<Longrightarrow>
    \<exists>s'. reorder_loop F its s = (DB_LOAD_OK, s') \<and>
      (\<forall>k<length its. order_pos s' (its ! k) = nOrderPosNext (os_wallet s) + int k) \<and>
      (\<forall>it. it \<notin> set its \<longrightarrow> order_pos s' it = order_pos s it) \<and>
      nOrderPosNext (os_wallet s') = nOrderPosNext (os_wallet s) + int (length its)"
proof (induction its arbitrary: s)
  case (Cons it its)
  obtain s1 where s1: "order_one F it s = (True, s1)" "\<And>it'. order_pos s1 it' = (if it' = it then nOrderPosNext (os_wallet s) else order_pos s it')"
    "\<And>it'. order_valid s1 it' = order_valid s it'" "nOrderPosNext (os_wallet s1) = nOrderPosNext (os_wallet s) + 1"
    using order_one_new [OF _ _ assms, of s it] Cons.prems(2) [of it] by auto
  have "order_valid s1 it' \<and> order_pos s1 it' = - 1" if "it' \<in> set its" for it'
    using Cons.prems(1) Cons.prems(2) [of it'] that s1 by auto
  then obtain s' where s': "reorder_loop F its s1 = (DB_LOAD_OK, s')" "\<forall>k<length its. order_pos s' (its ! k) = nOrderPosNext (os_wallet s1) + int k"
    "\<forall>it. it \<notin> set its \<longrightarrow> order_pos s' it = order_pos s1 it" "nOrderPosNext (os_wallet s') = nOrderPosNext (os_wallet s1) + int (length its)"
    using Cons.IH [of s1] Cons.prems(1) by auto
  have "order_pos s' ((it # its) ! k) = nOrderPosNext (os_wallet s) + int k" if "k < length (it # its)" for k
    using that s' s1 Cons.prems(1) by (cases k) auto
  with s' s1 show ?case by auto
qed simp

text \<open>The items of the multimap.\<close>

lemma txByTime_items:
  "set (txByTime txs es) = (\<lambda>(h, t). (uint (nTimeReceived t), OrderTx h)) ` set txs \<union> (\<lambda>i. (ae_nTime (es ! i), OrderEntry i)) ` {..<length es}"
proof -
  have "(\<lambda>(i, e). (ae_nTime e, OrderEntry i)) ` set (enumerate 0 es) = (\<lambda>i. (ae_nTime (es ! i), OrderEntry i)) ` {..<length es}"
    by (force simp: in_set_enumerate_eq image_iff)
  then show ?thesis by (simp add: txByTime_def)
qed

lemma txByTime_distinct:
  assumes "distinct (map fst txs)"
  shows "distinct (map snd (txByTime txs es))"
proof -
  let ?l = "map (\<lambda>(h, t). (uint (nTimeReceived t), OrderTx h)) txs @ map (\<lambda>(i, e). (ae_nTime e, OrderEntry i)) (enumerate 0 es)"
  have "map snd ?l = map OrderTx (map fst txs) @ map OrderEntry (map fst (enumerate 0 es))"
    by (simp only: map_map map_append comp_def case_prod_unfold fst_conv snd_conv)
  then have "distinct (map snd ?l)" using assms by (auto simp: distinct_map inj_on_def)
  moreover have "mset (map snd (txByTime txs es)) = mset (map snd ?l)" unfolding txByTime_def mset_map mset_sort ..
  ultimately show ?thesis by (metis mset_eq_imp_distinct_iff)
qed

lemma txByTime_order:
  assumes "i < length (txByTime txs es)" "j < length (txByTime txs es)" "fst (txByTime txs es ! i) < fst (txByTime txs es ! j)"
  shows "i < j"
proof (rule ccontr)
  assume "\<not> i < j"
  moreover have "sorted (map fst (txByTime txs es))" by (simp add: txByTime_def)
  ultimately have "map fst (txByTime txs es) ! j \<le> map fst (txByTime txs es) ! i"
    using assms(1,2) by (intro sorted_nth_mono) auto
  with assms show False by simp
qed

text \<open>
  If no transaction and no listed accounting entry has a place, the transactions get different places in the order in
  which they were received, and the next place is free.
\<close>

theorem ReorderTransactions_new:
  assumes writes: "\<And>a n e d. fst (fe_WriteEntry F a n e d)" and keys: "distinct (map fst (mapWallet w))"
    and list: "ListAccountCreditDebit F [] (w_db w) = Inr es"
    and new: "\<And>h t. (h, t) \<in> set (mapWallet w) \<Longrightarrow> nOrderPos t = - 1" "\<And>e. e \<in> set es \<Longrightarrow> ae_nOrderPos e = - 1"
  shows "\<exists>w1. ReorderTransactions F w = (Inr DB_LOAD_OK, w1) \<and>
    nOrderPosNext w1 = int (length (mapWallet w) + length es) \<and>
    (\<forall>h t. (h, t) \<in> set (mapWallet w) \<longrightarrow>
      (let p = nOrderPos (the (map_of (mapWallet w1) h)) in
        0 \<le> p \<and> p < nOrderPosNext w1 \<and>
        (\<forall>h' t'. (h', t') \<in> set (mapWallet w) \<longrightarrow>
          (h' \<noteq> h \<longrightarrow> nOrderPos (the (map_of (mapWallet w1) h')) \<noteq> p) \<and>
          (nTimeReceived t < nTimeReceived t' \<longrightarrow> p < nOrderPos (the (map_of (mapWallet w1) h'))))))"
proof -
  define items where "items = map snd (txByTime (mapWallet w) es)"
  define s where "s = \<lparr>os_wallet = w\<lparr> nOrderPosNext := 0 \<rparr>, os_entries = es, nOrderPosOffsets = []\<rparr>"
  have len: "length items = length (mapWallet w) + length es" by (simp add: items_def txByTime_def)
  have valid: "order_valid s it \<and> order_pos s it = - 1" if "it \<in> set items" for it
  proof -
    from that consider h t where "it = OrderTx h" "(h, t) \<in> set (mapWallet w)" | i where "it = OrderEntry i" "i < length es"
      by (auto simp: items_def txByTime_items)
    then show ?thesis
    proof cases
      case 1
      then have "map_of (mapWallet w) h = Some t" using keys by simp
      then show ?thesis using 1 new(1) by (simp add: s_def order_valid_def order_pos_def)
    qed (simp add: s_def order_valid_def order_pos_def new(2))
  qed
  obtain s' where s': "reorder_loop F items s = (DB_LOAD_OK, s')" "\<And>k. k < length items \<Longrightarrow> order_pos s' (items ! k) = int k"
    "nOrderPosNext (os_wallet s') = int (length items)"
    using reorder_loop_new [OF writes txByTime_distinct [OF keys, of es, folded items_def] valid] by (auto simp: s_def)
  have R: "ReorderTransactions F w = (Inr DB_LOAD_OK, os_wallet s')"
    by (simp add: ReorderTransactions_def list items_def [symmetric] s_def [symmetric] s'(1))
  have place: "\<exists>k<length items. txByTime (mapWallet w) es ! k = (uint (nTimeReceived t), OrderTx h) \<and>
      nOrderPos (the (map_of (mapWallet (os_wallet s')) h)) = int k" if "(h, t) \<in> set (mapWallet w)" for h t
  proof -
    have "(uint (nTimeReceived t), OrderTx h) \<in> set (txByTime (mapWallet w) es)" using that by (force simp: txByTime_items)
    then obtain k where k: "k < length items" "txByTime (mapWallet w) es ! k = (uint (nTimeReceived t), OrderTx h)"
      by (auto simp: in_set_conv_nth items_def)
    then have "items ! k = OrderTx h" by (simp add: items_def)
    with s'(2) [OF k(1)] k show ?thesis by (auto simp: order_pos_def)
  qed
  show ?thesis
  proof (intro exI [of _ "os_wallet s'"] conjI allI impI R)
    show "nOrderPosNext (os_wallet s') = int (length (mapWallet w) + length es)" by (simp add: s'(3) len)
    fix h t assume t: "(h, t) \<in> set (mapWallet w)"
    obtain k where k: "k < length items" "txByTime (mapWallet w) es ! k = (uint (nTimeReceived t), OrderTx h)"
      "nOrderPos (the (map_of (mapWallet (os_wallet s')) h)) = int k" using place [OF t] by blast
    have "(h' \<noteq> h \<longrightarrow> nOrderPos (the (map_of (mapWallet (os_wallet s')) h')) \<noteq> int k) \<and>
        (nTimeReceived t < nTimeReceived t' \<longrightarrow> int k < nOrderPos (the (map_of (mapWallet (os_wallet s')) h')))"
      if "(h', t') \<in> set (mapWallet w)" for h' t'
    proof -
      obtain j where j: "j < length items" "txByTime (mapWallet w) es ! j = (uint (nTimeReceived t'), OrderTx h')"
        "nOrderPos (the (map_of (mapWallet (os_wallet s')) h')) = int j" using place [OF \<open>(h', t') \<in> set (mapWallet w)\<close>] by blast
      have "nTimeReceived t < nTimeReceived t' \<Longrightarrow> k < j"
        using txByTime_order [of k "mapWallet w" es j] k j by (simp add: items_def word_less_def)
      with k j show ?thesis by auto
    qed
    with k show "let p = nOrderPos (the (map_of (mapWallet (os_wallet s')) h)) in
        0 \<le> p \<and> p < nOrderPosNext (os_wallet s') \<and>
        (\<forall>h' t'. (h', t') \<in> set (mapWallet w) \<longrightarrow>
          (h' \<noteq> h \<longrightarrow> nOrderPos (the (map_of (mapWallet (os_wallet s')) h')) \<noteq> p) \<and>
          (nTimeReceived t < nTimeReceived t' \<longrightarrow> p < nOrderPos (the (map_of (mapWallet (os_wallet s')) h'))))"
      by (simp add: s'(3))
  qed
qed

subsection \<open>Findings\<close>

text \<open>A transaction that cannot be read stays in the wallet, as far as it was read; the record is only reported as bad.\<close>

lemma read_tx_damaged:
  assumes "rd_uint256 F k = Some (h, r)" "rd_tx F v = None" "map_ok (mapWallet (ls_wallet s))"
  shows "fst (read_tx F k v s) = False \<and> map_of (mapWallet (ls_wallet (snd (read_tx F k v s)))) h = Some (rd_tx_left F v)"
  using assms by (simp add: read_tx_def Let_def map_put_look)

subsection \<open>A small wallet file\<close>

text \<open>Strings with a byte for their length, numbers of one byte; the cursor visits the pairs of a list.\<close>

definition byte_reader :: "(byte \<Rightarrow> 'a) \<Rightarrow> 'a reader" where
  "byte_reader f b = (case b of [] \<Rightarrow> None | n # r \<Rightarrow> Some (f n, r))"

definition demo_string :: "string reader" where
  "demo_string b = (case b of [] \<Rightarrow> None | n # r \<Rightarrow> if unat n \<le> length r then Some (map char_of_byte (take (unat n) r), drop (unat n) r) else None)"

definition demo_file :: "(nat, (bytes \<times> bytes) list, bytes) file_env" where
  "demo_file = \<lparr>fe_wallet = demo_wallet_env, fe_ec = demo_ec, fe_bn = bn_std, fe_sha = demo_sha, fe_TestNet = False,
     fe_CLIENT_VERSION = 80000, fe_scan = (\<lambda>_ d. Some (d, False)), fe_acentry_key = (\<lambda>_. []), fe_WriteEntry = (\<lambda>_ _ _ d. (True, d)),
     fe_WriteVersion = (\<lambda>_ d. d), fe_ReadMinVersion = (\<lambda>_. None), fe_LoadMinVersion = (\<lambda>n p. (n, max n (snd p))),
     fe_LoadKey = (\<lambda>_ _ k. (True, k)), fe_LoadCryptedKey = (\<lambda>_ _ k. (True, k)), fe_LoadCScript = (\<lambda>_ k. (True, k)),
     rd_string = demo_string,
     rd_string_left = (\<lambda>_. []), rd_uint256 = byte_reader ucast, rd_uint160 = byte_reader ucast, rd_uint64 = byte_reader ucast,
     rd_uint32 = byte_reader ucast, rd_int64 = byte_reader uint, rd_int32 = byte_reader uint, rd_char = byte_reader id,
     rd_bytes = (\<lambda>b. Some (b, [])), rd_script = (\<lambda>b. Some (b, [])), rd_pubkey = (\<lambda>_. None), rd_pubkey_left = (\<lambda>_ k. k),
     rd_wkey = (\<lambda>b. Some (b, [])), rd_mkey = (\<lambda>_. Some (CMasterKey_make, [])), rd_keymeta = byte_reader uint,
     rd_acentry = (\<lambda>_. None), rd_tx = (\<lambda>_. None), rd_tx_left = (\<lambda>_. wallet_tx CTransaction_SetNull)\<rparr>"

definition aged_tx :: "uint32 \<Rightarrow> int64 \<Rightarrow> CWalletTx" where
  "aged_tx time p = (wallet_tx CTransaction_SetNull)\<lparr> nTimeReceived := time, nOrderPos := p \<rparr>"

lemma aged_tx_simps [simp]:
  "nTimeReceived (aged_tx t p) = t" "nOrderPos (aged_tx t p) = p" "(aged_tx t p)\<lparr> nOrderPos := q \<rparr> = aged_tx t q"
  by (simp_all add: aged_tx_def)

definition aged_wallet :: "(bytes \<times> bytes) list \<Rightarrow> (uint256 \<times> CWalletTx) list \<Rightarrow> (nat, (bytes \<times> bytes) list) CWallet" where
  "aged_wallet d ts = \<lparr> fFileBacked = True, mapWallet = ts, nOrderPosNext = 0,
     mapRequestCount = Map.empty, mapAddressBook = Map.empty, vchDefaultKey = key0, setLockedCoins = {}, setKeyPool = {},
     nTimeFirstKey = 0, nWalletVersion = 0, nWalletMaxVersion = 0, mapMasterKeys = [], nMasterKeyMaxID = 0, w_keys = 0, w_db = d \<rparr>"

lemma aged_wallet_simps [simp]:
  "mapWallet (aged_wallet d ts) = ts" "w_db (aged_wallet d ts) = d" "mapMasterKeys (aged_wallet d ts) = []"
  by (simp_all add: aged_wallet_def)

lemma demo_list: "ListAccountCreditDebit demo_file [] [] = Inr []"
  by (simp add: ListAccountCreditDebit_def demo_file_def)

lemma demo_writes: "we_WriteTx (fe_wallet demo_file) h t d = (True, d)"
  by (simp add: demo_file_def demo_wallet_env_def)

text \<open>
  The offsets are compared with the old places, not with the places already moved: of four transactions in the order
  of time, the first and the third without a place, the second and the last with the places 0 and 1, the third and the
  last end with the same place.
\<close>

lemma ReorderTransactions_collides:
  "map (nOrderPos \<circ> snd) (mapWallet (snd (ReorderTransactions demo_file
      (aged_wallet [] [(1, aged_tx 1 (- 1)), (2, aged_tx 2 0), (3, aged_tx 3 (- 1)), (4, aged_tx 4 1)])))) = [0, 1, 2, 2]"
proof -
  have "map snd (txByTime [(1, aged_tx 1 (- 1)), (2, aged_tx 2 0), (3, aged_tx 3 (- 1)), (4, aged_tx 4 1)] []) =
      [OrderTx 1, OrderTx 2, OrderTx 3, OrderTx 4]"
    by (simp add: txByTime_def sort_key_def)
  then show ?thesis
    unfolding ReorderTransactions_def demo_list aged_wallet_simps
    by (simp add: order_one_def order_pos_def set_order_pos_def write_item_def demo_writes Let_def)
qed

lemma ReorderTransactions_new_witness:
  "\<exists>w1. ReorderTransactions demo_file (aged_wallet [] [(1, aged_tx 7 (- 1)), (2, aged_tx 3 (- 1))]) = (Inr DB_LOAD_OK, w1) \<and> nOrderPosNext w1 = 2"
proof -
  let ?w = "aged_wallet [] [(1, aged_tx 7 (- 1)), (2, aged_tx 3 (- 1))]"
  have "fst (fe_WriteEntry demo_file a n e d)" for a n e d by (simp add: demo_file_def)
  moreover have "ListAccountCreditDebit demo_file [] (w_db ?w) = Inr []" by (simp add: demo_list)
  moreover have "distinct (map fst (mapWallet ?w))" "\<And>h t. (h, t) \<in> set (mapWallet ?w) \<Longrightarrow> nOrderPos t = - 1"
    by auto
  ultimately obtain w1 where "ReorderTransactions demo_file ?w = (Inr DB_LOAD_OK, w1)" "nOrderPosNext w1 = int (length (mapWallet ?w) + 0)"
    using ReorderTransactions_new [of demo_file ?w "[]"] by auto
  then show ?thesis by simp
qed

definition damaged_records :: "(bytes \<times> bytes) list" where
  "damaged_records = [(2 # map byte_of_char ''tx'' @ [9], []), (4 # map byte_of_char ''pool'' @ [5], [])]"

lemma demo_types:
  "demo_string (2 # map byte_of_char ''tx'' @ [9]) = Some (''tx'', [9])" "demo_string (4 # map byte_of_char ''pool'' @ [5]) = Some (''pool'', [5])"
  "demo_string (4 # map byte_of_char ''mkey'' @ [1]) = Some (''mkey'', [1])"
  by code_simp+

lemma demo_readers:
  "rd_string demo_file = demo_string" "rd_uint256 demo_file = byte_reader ucast" "rd_uint32 demo_file = byte_reader ucast"
  "rd_int64 demo_file = byte_reader uint" "rd_tx demo_file = (\<lambda>_. None)" "rd_mkey demo_file = (\<lambda>_. Some (CMasterKey_make, []))"
  by (simp_all add: demo_file_def)

lemma damaged_refused: "refused demo_file damaged_records s = [''tx'']"
proof -
  have t: "ReadKeyValue demo_file (2 # map byte_of_char ''tx'' @ [9]) [] s = (''tx'', False, snd (read_tx demo_file [9] [] s))" for s
    unfolding ReadKeyValue_def demo_readers demo_types by (simp add: read_tx_def demo_readers byte_reader_def)
  have p: "ReadKeyValue demo_file (4 # map byte_of_char ''pool'' @ [5]) [] s = (''pool'', True, snd (read_rest demo_file ''pool'' [5] [] s))" for s
    unfolding ReadKeyValue_def demo_readers demo_types by (simp add: read_rest_def demo_readers byte_reader_def)
  show ?thesis unfolding damaged_records_def refused.simps fst_conv snd_conv t p by simp
qed

lemma LoadWallet_careful_witness:
  "(case LoadWallet demo_file 0 (aged_wallet damaged_records []) of (r, w1, n, rescan) \<Rightarrow>
     r = Inr DB_NONCRITICAL_ERROR \<and> w_db w1 = damaged_records \<and> rescan)"
proof -
  let ?w = "aged_wallet damaged_records []"
  have scan: "fe_scan demo_file None (w_db ?w) = Some (damaged_records, False)" by (simp add: demo_file_def)
  obtain s' where "load_records demo_file damaged_records (load_start demo_file 0 ?w) = (s', False, True, True)"
    using load_records_refused [of demo_file damaged_records "load_start demo_file 0 ?w" False False False]
    by (auto simp: load_records_def damaged_refused IsKeyType_def)
  moreover have "fe_ReadMinVersion demo_file (w_db ?w) = None" by (simp add: demo_file_def)
  ultimately have "fst (LoadWallet demo_file 0 ?w) = Inr DB_NONCRITICAL_ERROR"
    using scan by (simp add: LoadWallet_cases load_from_def load_start_eq [symmetric] Let_def)
  then obtain w1 n rescan where l: "LoadWallet demo_file 0 ?w = (Inr DB_NONCRITICAL_ERROR, w1, n, rescan)"
    by (metis prod_cases4 fst_conv)
  from LoadWallet_careful [OF l scan] show ?thesis by (simp add: l Let_def damaged_refused)
qed

definition demo_recover :: "((bytes \<times> bytes) list) recover_ops" where
  "demo_recover = \<lparr>rc_rename = 0, rc_salvage = (True, (4 # map byte_of_char ''mkey'' @ [1], []) # damaged_records), rc_open = 0,
     rc_put = (\<lambda>k v f. (0, f @ [(k, v)]))\<rparr>"


end
