(* ===== verification/Spec2Isabelle.thy ===== *)
theory Spec2Isabelle
  imports Coins Merkle Codec Util Hashing Bloom BigNum Keys Base58 AddrManProps Validation NodeProps MessagesProps
    CheckQueue LockedPages LockOrder Socks WalletSend RpcProps Groupings WalletCrypt WalletDBProps
begin

text \<open>
  Verification of the tip coin node, a fork of the Bitcoin client of 2013 that listens to the Bitcoin
  network and hands the blocks it receives to a gate of its own.

  \<^bold>\<open>The program and its model.\<close>  A peer's bytes go from the socket (\<open>net.cpp\<close>) through the framing of
  messages to \<open>ProcessMessages\<close> (\<open>dust_coin/bitcoin_messages_handlers.cpp\<close>), which runs one handler per
  command on the peers, the address manager, the alerts, the clock and the chain data, and
  \<open>SendMessages\<close> answers.  The theories follow the files:

  \<^item> \<open>Prelude\<close>: machine integers, the type \<open>'a res\<close> of results that may be a fault (failed assertion,
    access out of range, division by zero, exception, no return), lists and maps.
  \<^item> \<open>Core\<close>, \<open>Coins\<close> (\<open>core.h\<close>): transactions and headers; the unspent outputs \<open>CCoins\<close> with their
    compressed format and the undo records.
  \<^item> \<open>Merkle\<close> (\<open>dust_coin/bitcoin_block.h\<close>): blocks, the flat Merkle tree and its branches.
  \<^item> \<open>Codec\<close>, \<open>Util\<close> (\<open>util.cpp\<close>): hexadecimal, base 64 and 32; amounts, wildcards, versions, random
    draws.  \<open>Hashing\<close> (\<open>hash.h\<close>, \<open>hash.cpp\<close>), \<open>Bloom\<close> (\<open>bloom.cpp\<close>), \<open>BigNum\<close> (\<open>bignum.h\<close>), \<open>Keys\<close>
    (\<open>key.h\<close>, \<open>key.cpp\<close>), \<open>Base58\<close> (\<open>base58.h\<close>).
  \<^item> \<open>NetAddr\<close> (\<open>netbase.cpp\<close>): addresses, services, groups, lookup and proxies.  \<open>Protocol\<close>
    (\<open>protocol.cpp\<close>): message headers, addresses with services, inventory vectors.
  \<^item> \<open>Draws\<close>, \<open>AddrMan\<close>, \<open>AddrManInv\<close>, \<open>AddrManProps\<close> (\<open>addrman.h\<close>, \<open>addrman.cpp\<close>): the address manager as a
    state, its operations as functions that consume random draws, and the invariant of its tables.
  \<^item> \<open>Validation\<close> (\<open>bitcoin_messages_handlers.cpp\<close>, \<open>checkpoints.cpp\<close>): the rules on transactions and
    blocks.
  \<^item> \<open>Wire\<close>, \<open>Node\<close>, \<open>NodeProps\<close> (\<open>net.cpp\<close>): framing; the peers, bans, local addresses, outbound
    connections, synchronisation and relay.
  \<^item> \<open>Alerts\<close> (\<open>alert.h\<close>, \<open>alert.cpp\<close>, the clock of \<open>util.cpp\<close>), \<open>Messages\<close>, \<open>MessagesProps\<close>: alerts; the
    message handler over all of the above.
  \<^item> \<open>Socks\<close> (\<open>netbase.cpp\<close>): connecting directly or through a SOCKS proxy, over the system calls.
  \<^item> \<open>CheckQueue\<close> (\<open>checkqueue.h\<close>), \<open>LockedPages\<close> (\<open>allocators.h\<close>), \<open>LockOrder\<close> (\<open>sync.cpp\<close>): the queue of
    script checks as a step relation over its threads, the counts of locked pages, the detection of
    locks taken in different orders.
  \<^item> \<open>Crypter\<close> (\<open>crypter.h\<close>, \<open>crypter.cpp\<close>), \<open>Wallet\<close>, \<open>WalletCoins\<close>, \<open>KeyPool\<close>, \<open>SortedMap\<close>, \<open>WalletTx\<close>,
    \<open>WalletChain\<close>, \<open>WalletSend\<close> (\<open>wallet.cpp\<close>): the encryption of secrets; the wallet's transactions, amounts
    and balances, the selection of coins, the key pool, adding and updating transactions, scanning the chain,
    making, committing and sending a payment.

  \<^bold>\<open>Parameters.\<close>  Most headers of the repository are missing (\<open>serialize.h\<close>, \<open>uint256.h\<close>, \<open>script.h\<close>,
  \<open>net.h\<close>, \<open>main.h\<close>, \<open>util.h\<close>, \<open>wallet.h\<close> among them).  What the code uses of them, and of OpenSSL, boost and
  the operating system, is a field of a record of functions (\<open>chain_env\<close>, \<open>net_env\<close>, \<open>wire_env\<close>,
  \<open>msg_env\<close>, \<open>wallet_env\<close>, \<open>bn_ops\<close>, \<open>ec_ops\<close>, \<open>sha_ops\<close> and others); a predicate such as \<open>wire_ok\<close>, \<open>bn_ok\<close> or
  \<open>chain_ok\<close> states the documented behaviour that a theorem relies on, and a witness shows a concrete
  instance of it.  System calls, the current time, the success of a \<open>TRY_LOCK\<close> and random draws are
  arguments.

  \<^bold>\<open>Conventions.\<close>  An \<open>int\<close> or \<open>int64\<close> of the code that cannot overflow in the modelled use is an \<open>int\<close>;
  unsigned integers are words.  A C++ pointer to a peer is a number; a pointer to a block index is its
  hash.  Exceptions and undefined accesses are values.  Loops are structural recursions, recursions
  with a measure, or partial functions whose value \<open>None\<close> is not returning; theorems on them prove that
  they return.  Where a random loop needs a bound, the number of draws given bounds it; 101 rounds
  bound the loop of \<open>ThreadOpenConnections\<close> because it counts its tries to 100 (\<open>outbound_fuel_enough\<close>).

  \<^bold>\<open>What the lemmas show.\<close>  Each theory proves what its component promises: exact conditions of
  acceptance (\<open>Validation\<close>, \<open>Keys\<close>, \<open>Protocol\<close>), inverse functions (\<open>Codec\<close>, \<open>Coins\<close>, \<open>Base58\<close>, \<open>BigNum\<close>,
  \<open>Util\<close>), agreement with a reference definition (\<open>Merkle\<close>, \<open>Util\<close>, \<open>Validation\<close>), refinement of the
  stream of frames (\<open>Wire\<close>), invariants of the address tables, the alerts, the peers and the chain
  data over all runs (\<open>AddrManInv\<close>, \<open>Alerts\<close>, \<open>NodeProps\<close>, \<open>MessagesProps\<close>).  Locales hold the laws of
  the interfaces; each is interpreted on the model of the code.

  \<^bold>\<open>Not modelled.\<close>  Output for people (\<open>ToString\<close>, \<open>print\<close>, logging), threads and their start and stop,
  sockets, \<open>select\<close>, UPnP, DNS seeding, files and directories, the Qt program, the
  databases and the RPC server; \<open>leveldb/\<close> and \<open>json/\<close> are third-party code.  The headers of the fork
  under \<open>dust_coin/\<close> other than the two named above, and \<open>ttnetwork\<close> and \<open>ttblocks\<close>, are sketches that
  do not compile (prose between the declarations, bodies with missing operands).
\<close>

end
